(* ===== verification/Prelude.thy ===== *)
theory Prelude
  imports Main "HOL-Library.Multiset" "HOL-Library.Sublist"
begin

text \<open>
  Shared vocabulary of the development.

  \<^item> \<open>go_time\<close> and \<open>go_duration\<close> name the model's clock readings: nanoseconds since the
    Unix epoch and nanoseconds, the resolution of Go's \<open>time.Time\<close> and \<open>time.Duration\<close>.
  \<^item> \<open>zero_time\<close> is Go's zero \<open>time.Time\<close> (1 January of year 1), the value \<open>IsZero\<close> tests for.
  \<^item> a Go \<open>string\<close> is a sequence of bytes, so it is a HOL \<^typ>\<open>string\<close>: a \<^typ>\<open>char\<close> is a byte.
  \<^item> a Go \<open>map[string]T\<close> whose iteration order matters nowhere is a list of distinct
    key-value pairs read with \<open>map_of\<close>, or a set or function where only membership is used.
  The named collections carry the definitions' unfolding rules into \<open>simp\<close> and \<open>auto\<close>.
\<close>

type_synonym go_time = int
type_synonym go_duration = int

named_theorems go_simps "characteristic equations of the Go library functions"
named_theorems lock_simps "unfolding rules of the lock state machine"
named_theorems lock_wf_intros "every lock operation keeps the lock invariant"
named_theorems gate_simps "unfolding rules of the gate evaluator"

definition nanosecond :: go_duration where "nanosecond = 1"
definition second :: go_duration where "second = 1000000000"
definition minute :: go_duration where "minute = 60 * second"
definition hour :: go_duration where "hour = 60 * minute"

definition zero_time :: go_time where "zero_time = - 62135596800 * second"

definition IsZero :: "go_time \<Rightarrow> bool" where "IsZero t \<longleftrightarrow> t = zero_time"

lemma second_pos [simp]: "0 < second"
  by (simp add: second_def)

lemma hour_pos [simp]: "0 < hour"
  by (simp add: hour_def minute_def second_def)

text \<open>Association lists as Go maps: assignment to a key.\<close>

fun map_put :: "'k \<Rightarrow> 'v \<Rightarrow> ('k \<times> 'v) list \<Rightarrow> ('k \<times> 'v) list" where
  "map_put k v [] = [(k, v)]"
| "map_put k v ((k', v') # m) = (if k = k' then (k, v) # m else (k', v') # map_put k v m)"

lemma map_of_map_put [simp]: "map_of (map_put k v m) = (map_of m)(k \<mapsto> v)"
  by (induction m rule: map_put.induct) (auto simp: fun_eq_iff)

lemma keys_map_put [simp]: "fst ` set (map_put k v m) = insert k (fst ` set m)"
  by (induction k v m rule: map_put.induct) auto

lemma distinct_map_put: "distinct (map fst m) \<Longrightarrow> distinct (map fst (map_put k v m))"
proof (induction k v m rule: map_put.induct)
  case (2 k v k' v' m)
  moreover have "set (map fst (map_put k v m)) = insert k (fst ` set m)"
    by (simp only: set_map keys_map_put)
  ultimately show ?case by auto
qed simp

text \<open>A map read with a default, Go's \<open>m[k]\<close> on a missing key.\<close>

definition map_get :: "('k \<times> 'v) list \<Rightarrow> 'v \<Rightarrow> 'k \<Rightarrow> 'v" where
  "map_get m dflt k = (case map_of m k of None \<Rightarrow> dflt | Some v \<Rightarrow> v)"

text \<open>Keeping the first occurrence of every element, the shape of the Go \<open>seen\<close> loops.\<close>

fun dedup_seen :: "'a list \<Rightarrow> 'a list \<Rightarrow> 'a list" where
  "dedup_seen seen [] = []"
| "dedup_seen seen (x # xs) =
     (if x \<in> set seen then dedup_seen seen xs else x # dedup_seen (x # seen) xs)"

lemma set_dedup_seen [simp]: "set (dedup_seen seen xs) = set xs - set seen"
  by (induction seen xs rule: dedup_seen.induct) auto

lemma distinct_dedup_seen [simp]: "distinct (dedup_seen seen xs)"
  by (induction seen xs rule: dedup_seen.induct) auto

lemma length_dedup_seen: "length (dedup_seen [] xs) = card (set xs)"
  using distinct_card [OF distinct_dedup_seen, of "[]" xs] by simp

text \<open>The insertion sort the sources write with adjacent swaps, with its ordering as a key.\<close>

fun insert_by :: "('a \<Rightarrow> 'a \<Rightarrow> bool) \<Rightarrow> 'a \<Rightarrow> 'a list \<Rightarrow> 'a list" where
  "insert_by lt x [] = [x]"
| "insert_by lt x (y # ys) = (if lt x y then x # y # ys else y # insert_by lt x ys)"

definition insertion_sort :: "('a \<Rightarrow> 'a \<Rightarrow> bool) \<Rightarrow> 'a list \<Rightarrow> 'a list" where
  "insertion_sort lt xs = fold (insert_by lt) xs []"

lemma mset_insert_by [simp]: "mset (insert_by lt x xs) = add_mset x (mset xs)"
  by (induction lt x xs rule: insert_by.induct) auto

lemma mset_fold_insert_by: "mset (fold (insert_by lt) xs acc) = mset xs + mset acc"
  by (induction xs arbitrary: acc) auto

lemma mset_insertion_sort [simp]: "mset (insertion_sort lt xs) = mset xs"
  by (simp add: insertion_sort_def mset_fold_insert_by)

lemma set_insertion_sort [simp]: "set (insertion_sort lt xs) = set xs"
  using mset_insertion_sort [of lt xs] by (metis set_mset_mset)

lemma set_insert_by [simp]: "set (insert_by lt x xs) = insert x (set xs)"
  by (induction lt x xs rule: insert_by.induct) auto

lemma length_insertion_sort [simp]: "length (insertion_sort lt xs) = length xs"
  using mset_insertion_sort [of lt xs] by (metis size_mset)

lemma sorted_insert_by:
  fixes f :: "'a \<Rightarrow> 'b::linorder"
  assumes "sorted (map f xs)"
  shows "sorted (map f (insert_by (\<lambda>a b. f a < f b) x xs))"
  using assms by (induction xs) auto

lemma sorted_insertion_sort:
  fixes f :: "'a \<Rightarrow> 'b::linorder"
  shows "sorted (map f (insertion_sort (\<lambda>a b. f a < f b) xs))"
proof -
  have "sorted (map f acc) \<Longrightarrow> sorted (map f (fold (insert_by (\<lambda>a b. f a < f b)) xs acc))" for acc
    by (induction xs arbitrary: acc) (auto intro: sorted_insert_by)
  then show ?thesis by (simp add: insertion_sort_def)
qed

text \<open>
  Elements with the same key keep the order of the input: the sort is stable.
\<close>

lemma filter_insert_by:
  fixes f :: "'a \<Rightarrow> 'b::linorder"
  assumes "sorted (map f xs)"
  shows "filter (\<lambda>y. f y = k) (insert_by (\<lambda>a b. f a < f b) x xs)
       = filter (\<lambda>y. f y = k) xs @ (if f x = k then [x] else [])"
  using assms
proof (induction xs)
  case (Cons y ys)
  show ?case
  proof (cases "f x < f y")
    case True
    with Cons.prems have "f x = k \<Longrightarrow> filter (\<lambda>y. f y = k) (y # ys) = []"
      by (auto simp: filter_empty_conv)
    with True show ?thesis by auto
  next
    case False
    with Cons show ?thesis by auto
  qed
qed simp

lemma insertion_sort_stable:
  fixes f :: "'a \<Rightarrow> 'b::linorder"
  shows "filter (\<lambda>y. f y = k) (insertion_sort (\<lambda>a b. f a < f b) xs) = filter (\<lambda>y. f y = k) xs"
proof -
  have "sorted (map f acc) \<Longrightarrow>
      filter (\<lambda>y. f y = k) (fold (insert_by (\<lambda>a b. f a < f b)) xs acc)
      = filter (\<lambda>y. f y = k) acc @ filter (\<lambda>y. f y = k) xs" for acc
    by (induction xs arbitrary: acc) (auto simp: filter_insert_by sorted_insert_by)
  from this [of "[]"] show ?thesis by (simp add: insertion_sort_def)
qed

end
