(* ===== verification/GoTime.thy ===== *)
theory GoTime
  imports Prelude
begin

text \<open>
  What the sources use of Go's \<open>time\<close> package: \<open>Format(time.RFC3339)\<close> in UTC and
  \<open>time.Parse(time.RFC3339, s)\<close>. Every timestamp the program stores is a string in this
  format, so leases and freshness windows depend on what formatting loses (everything below
  a second) and on which strings fail to parse.

  The calendar is the proleptic Gregorian one. \<open>civil_of_days\<close> counts years from 1 March,
  so that the leap day is the last day of a year, and splits a 400-year cycle into
  centuries, 4-year groups and years. \<open>parse_rfc3339\<close> accepts the RFC 3339 profile (four
  digit year, optional fraction after a full stop, \<open>Z\<close> or a numeric offset); the extra
  forms the Go parser tolerates (a one-digit hour, a comma before the fraction) are never
  produced by \<open>Format\<close> and are rejected here.
\<close>

subsection \<open>Calendar\<close>

definition year_of_era :: "int \<Rightarrow> int \<times> int" where
  "year_of_era doe =
     (let n100 = min (doe div 36524) 3;
          r100 = doe - 36524 * n100;
          n4 = r100 div 1461;
          r4 = r100 - 1461 * n4;
          n1 = min (r4 div 365) 3
      in (100 * n100 + 4 * n4 + n1, r4 - 365 * n1))"

definition month_of_year :: "int \<Rightarrow> int \<times> int" where
  "month_of_year doy =
     (let mp = (5 * doy + 2) div 153 in (mp, doy - (153 * mp + 2) div 5 + 1))"

definition civil_of_days :: "int \<Rightarrow> int \<times> int \<times> int" where
  "civil_of_days z =
     (let era = (z + 719468) div 146097;
          (yoe, doy) = year_of_era ((z + 719468) mod 146097);
          (mp, d) = month_of_year doy;
          y = 400 * era + yoe
      in if mp < 10 then (y, mp + 3, d) else (y + 1, mp - 9, d))"

definition days_of_civil :: "int \<Rightarrow> int \<Rightarrow> int \<Rightarrow> int" where
  "days_of_civil y0 m d =
     (let y = (if m \<le> 2 then y0 - 1 else y0);
          era = y div 400;
          yoe = y mod 400;
          mp = (if m > 2 then m - 3 else m + 9);
          doy = (153 * mp + 2) div 5 + d - 1;
          doe = 365 * yoe + yoe div 4 - yoe div 100 + doy
      in 146097 * era + doe - 719468)"

lemma civil_century:
  fixes doe :: int
  assumes "0 \<le> doe" and "doe < 146097"
  shows "0 \<le> min (doe div 36524) 3" and "min (doe div 36524) 3 \<le> 3"
    and "0 \<le> doe - 36524 * min (doe div 36524) 3"
    and "doe - 36524 * min (doe div 36524) 3 \<le> 36524"
  using assms by (auto simp: min_def)

lemma civil_year_in_group:
  fixes r :: int
  assumes "0 \<le> r" and "r < 1461"
  shows "0 \<le> min (r div 365) 3" and "min (r div 365) 3 \<le> 3"
    and "0 \<le> r - 365 * min (r div 365) 3"
    and "r - 365 * min (r div 365) 3 \<le> 365"
  using assms by (auto simp: min_def)

lemma year_of_era_correct:
  assumes "0 \<le> doe" and "doe < 146097" and yd: "year_of_era doe = (yoe, doy)"
  shows "0 \<le> yoe" and "yoe < 400" and "0 \<le> doy" and "doy \<le> 365"
    and "365 * yoe + yoe div 4 - yoe div 100 + doy = doe"
proof -
  define a where "a = min (doe div 36524) 3"
  define r where "r = doe - 36524 * a"
  define b where "b = r div 1461"
  define q where "q = r - 1461 * b"
  define c where "c = min (q div 365) 3"
  note ca = civil_century [OF assms(1,2), folded a_def, folded r_def]
  have q: "0 \<le> q" "q < 1461" and b: "0 \<le> b" "b \<le> 24"
    using ca unfolding q_def b_def by linarith+
  note cc = civil_year_in_group [OF q, folded c_def]
  have eq: "yoe = 100 * a + 4 * b + c" "doy = q - 365 * c"
    using yd unfolding year_of_era_def Let_def a_def b_def c_def q_def r_def by auto
  have d: "yoe div 4 = 25 * a + b" "yoe div 100 = a"
    unfolding eq using ca b cc by linarith+
  show "0 \<le> yoe" "yoe < 400" "0 \<le> doy" "doy \<le> 365"
    unfolding eq using ca b cc by linarith+
  show "365 * yoe + yoe div 4 - yoe div 100 + doy = doe"
    unfolding d unfolding eq q_def r_def by simp
qed

lemma month_of_year_correct:
  assumes "0 \<le> doy" and "doy \<le> 365" and md: "month_of_year doy = (mp, d)"
  shows "0 \<le> mp" and "mp \<le> 11" and "1 \<le> d" and "d \<le> 31" and "(153 * mp + 2) div 5 + d - 1 = doy"
proof -
  have mp: "mp = (5 * doy + 2) div 153" and d: "d = doy - (153 * mp + 2) div 5 + 1"
    using md by (auto simp: month_of_year_def Let_def)
  then have "153 * mp \<le> 5 * doy + 2" "5 * doy + 2 < 153 * mp + 153" by linarith+
  with assms(1,2) d show "0 \<le> mp" "mp \<le> 11" "1 \<le> d" "d \<le> 31"
    "(153 * mp + 2) div 5 + d - 1 = doy" by linarith+
qed

text \<open>
  The facts about one date: it names the day it was computed from, and its month and day
  have two digits.
\<close>

lemma civil_of_days_correct:
  assumes c: "civil_of_days z = (y, m, d)"
  shows "days_of_civil y m d = z" and "1 \<le> m" and "m \<le> 12" and "1 \<le> d" and "d \<le> 31"
proof -
  define era where "era = (z + 719468) div 146097"
  define doe where "doe = (z + 719468) mod 146097"
  obtain yoe doy where yd: "year_of_era doe = (yoe, doy)" by (cases "year_of_era doe") auto
  obtain mp d' where md: "month_of_year doy = (mp, d')" by (cases "month_of_year doy") auto
  have doe: "0 \<le> doe" "doe < 146097" by (simp_all add: doe_def)
  note ye = year_of_era_correct [OF doe yd]
  note mo = month_of_year_correct [OF ye(3,4) md]
  have eq: "y = (if mp < 10 then 400 * era + yoe else 400 * era + yoe + 1)"
      "m = (if mp < 10 then mp + 3 else mp - 9)" "d = d'"
    using c yd md unfolding civil_of_days_def Let_def doe_def era_def by (auto split: if_splits)
  show "1 \<le> m" "m \<le> 12" using eq(2) mo(1,2) by auto
  show "1 \<le> d" "d \<le> 31" using eq(3) mo(3,4) by auto
  have yy: "(if m \<le> 2 then y - 1 else y) = 400 * era + yoe"
    and mm: "(if m > 2 then m - 3 else m + 9) = mp"
    using eq(1,2) mo(1,2) by auto
  have er: "(400 * era + yoe) div 400 = era" "(400 * era + yoe) mod 400 = yoe"
    using ye(1,2) by auto
  have "days_of_civil y m d = 146097 * era + (365 * yoe + yoe div 4 - yoe div 100 + doy) - 719468"
    unfolding days_of_civil_def Let_def yy mm er using mo(5) eq(3) by simp
  also have "\<dots> = z"
    unfolding ye(5) by (simp add: era_def doe_def)
  finally show "days_of_civil y m d = z" .
qed

subsection \<open>Decimal digits\<close>

definition digit_char :: "int \<Rightarrow> char" where
  "digit_char d = char_of (48 + nat d)"

definition char_digit :: "char \<Rightarrow> int option" where
  "char_digit c = (let b = of_char c :: nat in if 48 \<le> b \<and> b \<le> 57 then Some (int b - 48) else None)"

lemma char_digit_digit_char [simp]: "0 \<le> d \<Longrightarrow> d < 10 \<Longrightarrow> char_digit (digit_char d) = Some d"
  by (auto simp: char_digit_def digit_char_def Let_def of_char_of)

lemma digit_char_inj:
  "0 \<le> a \<Longrightarrow> a < 10 \<Longrightarrow> 0 \<le> b \<Longrightarrow> b < 10 \<Longrightarrow> digit_char a = digit_char b \<Longrightarrow> a = b"
  by (metis char_digit_digit_char option.inject)

text \<open>\<open>pad w n\<close> prints the last \<open>w\<close> decimal digits of \<open>n\<close>, Go's \<open>%0wd\<close> for a value that fits.\<close>

fun pad :: "nat \<Rightarrow> int \<Rightarrow> string" where
  "pad 0 n = []"
| "pad (Suc w) n = pad w (n div 10) @ [digit_char (n mod 10)]"

text \<open>Reading exactly \<open>w\<close> digits.\<close>

fun read_digits :: "nat \<Rightarrow> int \<Rightarrow> string \<Rightarrow> (int \<times> string) option" where
  "read_digits 0 acc s = Some (acc, s)"
| "read_digits (Suc w) acc [] = None"
| "read_digits (Suc w) acc (c # s) =
     (case char_digit c of None \<Rightarrow> None | Some d \<Rightarrow> read_digits w (10 * acc + d) s)"

lemma length_pad [simp]: "length (pad w n) = w"
  by (induction w n rule: pad.induct) auto

lemma read_digits_append:
  "read_digits (v + w) acc s =
     (case read_digits v acc s of None \<Rightarrow> None | Some (a, s') \<Rightarrow> read_digits w a s')"
  by (induction v acc s rule: read_digits.induct) (auto split: option.splits)

lemma read_digits_pad [simp]:
  "0 \<le> n \<Longrightarrow> n < 10 ^ w \<Longrightarrow> read_digits w acc (pad w n @ s) = Some (acc * 10 ^ w + n, s)"
proof (induction w arbitrary: n acc s)
  case (Suc w)
  from Suc.prems have "0 \<le> n div 10" "n div 10 < 10 ^ w" by auto
  then have "read_digits w acc (pad w (n div 10) @ digit_char (n mod 10) # s)
      = Some (acc * 10 ^ w + n div 10, digit_char (n mod 10) # s)"
    by (rule Suc.IH)
  then show ?case
    using read_digits_append [of w 1 acc "pad w (n div 10) @ digit_char (n mod 10) # s"]
    by (simp add: algebra_simps)
qed simp

subsection \<open>RFC 3339\<close>

definition pad_int :: "nat \<Rightarrow> int \<Rightarrow> string" where
  "pad_int w i = (if i < 0 then CHR ''-'' # pad w (- i) else pad w i)"

definition fmt_rfc3339 :: "go_time \<Rightarrow> string" where
  "fmt_rfc3339 t =
     (let s = t div second; days = s div 86400; sod = s mod 86400 in
      case civil_of_days days of (y, m, d) \<Rightarrow>
        pad_int 4 y @ ''-'' @ pad_int 2 m @ ''-'' @ pad_int 2 d @ ''T'' @
        pad_int 2 (sod div 3600) @ '':'' @ pad_int 2 (sod div 60 mod 60) @ '':'' @
        pad_int 2 (sod mod 60) @ ''Z'')"

definition expect_char :: "char \<Rightarrow> string \<Rightarrow> string option" where
  "expect_char c s = (case s of [] \<Rightarrow> None | d # r \<Rightarrow> if c = d then Some r else None)"

lemma expect_char_Cons [simp]: "expect_char c (c # s) = Some s"
  by (simp add: expect_char_def)

text \<open>The optional fraction: nanoseconds of the digits after the full stop (further digits ignored).\<close>

fun read_frac :: "nat \<Rightarrow> int \<Rightarrow> string \<Rightarrow> int \<times> string" where
  "read_frac n unit [] = (0, [])"
| "read_frac n unit (c # s) =
     (case char_digit c of
        None \<Rightarrow> (0, c # s)
      | Some d \<Rightarrow> (let (v, r) = read_frac (Suc n) (unit div 10) s in (d * unit + v, r)))"

definition read_fraction :: "string \<Rightarrow> (int \<times> string) option" where
  "read_fraction s =
     (case s of
        c # d # r \<Rightarrow>
          if c = CHR ''.'' then
            (if char_digit d = None then None else Some (read_frac 0 100000000 (d # r)))
          else Some (0, s)
      | _ \<Rightarrow> if s = ''.'' then None else Some (0, s))"

text \<open>The zone: \<open>Z\<close>, or an offset \<open>+hh:mm\<close> or \<open>-hh:mm\<close>, and nothing after it; seconds east of UTC.\<close>

definition read_zone :: "string \<Rightarrow> int option" where
  "read_zone s =
     (if s = ''Z'' then Some 0
      else case s of
        [] \<Rightarrow> None
      | c # r \<Rightarrow>
          if c \<noteq> CHR ''+'' \<and> c \<noteq> CHR ''-'' then None
          else Option.bind (read_digits 2 0 r) (\<lambda>(h, r).
               Option.bind (expect_char CHR '':'' r) (\<lambda>r.
               Option.bind (read_digits 2 0 r) (\<lambda>(m, r).
                 if r = [] \<and> h \<le> 23 \<and> m \<le> 59
                 then Some ((if c = CHR ''+'' then 1 else -1) * (3600 * h + 60 * m))
                 else None))))"

definition parse_rfc3339 :: "string \<Rightarrow> go_time option" where
  "parse_rfc3339 s =
     Option.bind (read_digits 4 0 s) (\<lambda>(y, s).
     Option.bind (expect_char CHR ''-'' s) (\<lambda>s.
     Option.bind (read_digits 2 0 s) (\<lambda>(m, s).
     Option.bind (expect_char CHR ''-'' s) (\<lambda>s.
     Option.bind (read_digits 2 0 s) (\<lambda>(d, s).
     Option.bind (expect_char CHR ''T'' s) (\<lambda>s.
     Option.bind (read_digits 2 0 s) (\<lambda>(hh, s).
     Option.bind (expect_char CHR '':'' s) (\<lambda>s.
     Option.bind (read_digits 2 0 s) (\<lambda>(mm, s).
     Option.bind (expect_char CHR '':'' s) (\<lambda>s.
     Option.bind (read_digits 2 0 s) (\<lambda>(ss, s).
     Option.bind (read_fraction s) (\<lambda>(ns, s).
     Option.bind (read_zone s) (\<lambda>off.
       let days = days_of_civil y m d in
       if civil_of_days days = (y, m, d) \<and> hh \<le> 23 \<and> mm \<le> 59 \<and> ss \<le> 59
       then Some ((86400 * days + 3600 * hh + 60 * mm + ss - off) * second + ns)
       else None)))))))))))))"

text \<open>Truncation to whole seconds, what a stored timestamp keeps of a clock reading.\<close>

definition trunc_second :: "go_time \<Rightarrow> go_time" where
  "trunc_second t = t div second * second"

lemma trunc_second_le [simp]: "trunc_second t \<le> t"
  by (simp add: trunc_second_def second_def)

lemma trunc_second_gt: "t - second < trunc_second t"
  by (simp add: trunc_second_def second_def)

lemma trunc_second_mono: "s \<le> t \<Longrightarrow> trunc_second s \<le> trunc_second t"
  by (simp add: trunc_second_def second_def zdiv_mono1)

text \<open>The years \<open>Format\<close> prints with four digits.\<close>

definition printable_time :: "go_time \<Rightarrow> bool" where
  "printable_time t \<longleftrightarrow> (case civil_of_days (t div second div 86400) of (y, m, d) \<Rightarrow> 0 \<le> y \<and> y \<le> 9999)"

lemma parse_fmt_rfc3339:
  assumes "printable_time t"
  shows "parse_rfc3339 (fmt_rfc3339 t) = Some (trunc_second t)"
proof -
  define s where "s = t div second"
  define sod where "sod = s mod 86400"
  obtain y m d where c: "civil_of_days (s div 86400) = (y, m, d)"
    by (cases "civil_of_days (s div 86400)") auto
  note cd = civil_of_days_correct [OF c]
  have y: "0 \<le> y" "y \<le> 9999" using assms c by (auto simp: printable_time_def s_def)
  have sod: "0 \<le> sod" "sod < 86400" by (simp_all add: sod_def)
  have hh: "0 \<le> sod div 3600" "sod div 3600 \<le> 23" using sod by linarith+
  have mm: "0 \<le> sod div 60 mod 60" "sod div 60 mod 60 \<le> 59" by linarith+
  have ss: "0 \<le> sod mod 60" "sod mod 60 \<le> 59" by linarith+
  have pi: "pad_int w i = pad w i" if "0 \<le> i" for w i using that by (simp add: pad_int_def)
  have nn: "0 \<le> y" "0 \<le> m" "0 \<le> d" "0 \<le> sod div 3600" "0 \<le> sod div 60 mod 60" "0 \<le> sod mod 60"
    using y(1) cd(2,4) hh(1) mm(1) ss(1) by simp_all
  have n: "y < 10 ^ 4" "m < 10\<^sup>2" "d < 10\<^sup>2" "sod div 3600 < 10\<^sup>2"
    "sod div 60 mod 60 < 10\<^sup>2" "sod mod 60 < 10\<^sup>2"
    using y(2) cd(3,5) hh(2) mm(2) ss(2) by simp_all
  have f: "fmt_rfc3339 t = pad 4 y @ CHR ''-'' # pad 2 m @ CHR ''-'' # pad 2 d @
      CHR ''T'' # pad 2 (sod div 3600) @ CHR '':'' # pad 2 (sod div 60 mod 60) @
      CHR '':'' # pad 2 (sod mod 60) @ ''Z''"
    unfolding fmt_rfc3339_def Let_def s_def [symmetric] sod_def [symmetric] c prod.case
      nn [THEN pi] by simp
  have sp: "86400 * (s div 86400) + 3600 * (sod div 3600) + 60 * (sod div 60 mod 60) + sod mod 60 = s"
  proof -
    have "sod div 60 div 60 = sod div 3600" using zdiv_zmult2_eq [of 60 sod 60] by simp
    moreover have "60 * (sod div 60 div 60) + sod div 60 mod 60 = sod div 60"
      and "60 * (sod div 60) + sod mod 60 = sod" by simp_all
    moreover have "86400 * (s div 86400) + sod = s" by (simp add: sod_def)
    ultimately show ?thesis by linarith
  qed
  note rd = nn(1) [THEN read_digits_pad, OF n(1), where acc = 0, simplified mult_zero_left add_0_left]
    nn(2) [THEN read_digits_pad, OF n(2), where acc = 0, simplified mult_zero_left add_0_left]
    nn(3) [THEN read_digits_pad, OF n(3), where acc = 0, simplified mult_zero_left add_0_left]
    nn(4) [THEN read_digits_pad, OF n(4), where acc = 0, simplified mult_zero_left add_0_left]
    nn(5) [THEN read_digits_pad, OF n(5), where acc = 0, simplified mult_zero_left add_0_left]
    nn(6) [THEN read_digits_pad, OF n(6), where acc = 0, simplified mult_zero_left add_0_left]
  have z: "read_fraction ''Z'' = Some (0, ''Z'')" "read_zone ''Z'' = Some 0"
    by (simp_all add: read_fraction_def read_zone_def)
  have "parse_rfc3339 (fmt_rfc3339 t) = Some ((86400 * (s div 86400) + 3600 * (sod div 3600)
      + 60 * (sod div 60 mod 60) + sod mod 60 - 0) * second + 0)"
    unfolding f parse_rfc3339_def rd Option.bind.simps prod.case expect_char_Cons z Let_def cd(1)
    using c hh(2) mm(2) ss(2) by simp
  then have "parse_rfc3339 (fmt_rfc3339 t) = Some (s * second)" unfolding sp by simp
  then show ?thesis by (simp add: trunc_second_def s_def)
qed

end
