(* ===== verification/CoreLocks.thy ===== *)
theory CoreLocks
  imports GoTime
begin

text \<open>
  The lock state machine of \<open>internal/core/locks/locks.go\<close>: one lock per stack with a
  holder, a first-in first-out queue and lease timestamps stored as RFC 3339 strings.

  The first part translates the file function by function. The second part is the
  invariant \<open>lock_wf\<close> (a pull request occurs at most once in a lock, and a free lock has
  no queue), kept by every operation, and the machine \<open>lock_exec\<close> whose steps are the
  file's transitions, over which the lease theorems are stated.
\<close>

subsection \<open>Data\<close>

datatype Status = StatusFree | StatusHeld | StatusExpired

record Holder =
  h_PR :: int
  h_CommitSHA :: string
  h_RunID :: string
  h_Actor :: string
  h_AcquiredAt :: string
  h_ExpiresAt :: string
  h_Promoted :: bool

record QueueItem =
  q_PR :: int
  q_CommitSHA :: string
  q_RunID :: string
  q_Actor :: string
  q_EnqueuedAt :: string

record Lock =
  l_Project :: string
  l_Stack :: string
  l_Holder :: "Holder option"
  l_Queue :: "QueueItem list"
  l_UpdatedAt :: string

datatype LockErr = ErrAlreadyHolder | ErrAlreadyQueued | ErrHeldBySamePR | ErrNotHolder

subsection \<open>Operations\<close>

definition NewLock :: "string \<Rightarrow> string \<Rightarrow> go_time \<Rightarrow> Lock" where
  "NewLock project stack now =
     \<lparr>l_Project = project, l_Stack = stack, l_Holder = None, l_Queue = [],
      l_UpdatedAt = fmt_rfc3339 now\<rparr>"

definition defaultPromoteTTL :: go_duration where
  "defaultPromoteTTL = 4 * hour"

definition promoteTTL :: "go_duration \<Rightarrow> go_duration" where
  "promoteTTL ttl = (if ttl \<le> 0 then defaultPromoteTTL else ttl)"

text \<open>\<open>expired\<close> on a nil holder is \<open>False\<close>; the callers test for nil first.\<close>

definition expired :: "Holder \<Rightarrow> go_time \<Rightarrow> bool" where
  "expired h now =
     (if h_ExpiresAt h = '''' then False
      else case parse_rfc3339 (h_ExpiresAt h) of
             None \<Rightarrow> True
           | Some exp \<Rightarrow> now > exp)"

definition removePR :: "QueueItem list \<Rightarrow> int \<Rightarrow> QueueItem list" where
  "removePR q pr = filter (\<lambda>item. q_PR item \<noteq> pr) q"

definition promote_item :: "QueueItem \<Rightarrow> go_time \<Rightarrow> go_duration \<Rightarrow> Holder" where
  "promote_item nxt now ttl =
     \<lparr>h_PR = q_PR nxt, h_CommitSHA = q_CommitSHA nxt, h_RunID = q_RunID nxt,
      h_Actor = q_Actor nxt, h_AcquiredAt = fmt_rfc3339 now,
      h_ExpiresAt = fmt_rfc3339 (now + ttl), h_Promoted = True\<rparr>"

definition promoteNext :: "Lock \<Rightarrow> go_time \<Rightarrow> go_duration \<Rightarrow> Lock" where
  "promoteNext l now ttl =
     (case l_Holder l of
        Some _ \<Rightarrow> l
      | None \<Rightarrow>
          (case l_Queue l of
             [] \<Rightarrow> l
           | nxt # rest \<Rightarrow> l\<lparr>l_Queue := rest, l_Holder := Some (promote_item nxt now ttl)\<rparr>))"

definition evictIfExpired :: "Lock \<Rightarrow> go_time \<Rightarrow> go_duration \<Rightarrow> Lock" where
  "evictIfExpired l now ttl =
     (case l_Holder l of
        None \<Rightarrow> l
      | Some h \<Rightarrow>
          if expired h now then promoteNext (l\<lparr>l_Holder := None\<rparr>) now (promoteTTL ttl) else l)"

definition install :: "Lock \<Rightarrow> Holder \<Rightarrow> go_duration \<Rightarrow> go_time \<Rightarrow> Lock" where
  "install l applicant ttl now =
     l\<lparr>l_Holder := Some (applicant\<lparr>h_AcquiredAt := fmt_rfc3339 now,
                                   h_ExpiresAt := fmt_rfc3339 (now + ttl),
                                   h_Promoted := False\<rparr>),
       l_Queue := removePR (l_Queue l) (h_PR applicant),
       l_UpdatedAt := fmt_rfc3339 now\<rparr>"

definition queue_item :: "Holder \<Rightarrow> go_time \<Rightarrow> QueueItem" where
  "queue_item applicant now =
     \<lparr>q_PR = h_PR applicant, q_CommitSHA = h_CommitSHA applicant, q_RunID = h_RunID applicant,
      q_Actor = h_Actor applicant, q_EnqueuedAt = fmt_rfc3339 now\<rparr>"

definition refresh :: "Holder \<Rightarrow> Holder \<Rightarrow> go_duration \<Rightarrow> go_time \<Rightarrow> Holder" where
  "refresh h applicant ttl now =
     h\<lparr>h_ExpiresAt := fmt_rfc3339 (now + ttl), h_CommitSHA := h_CommitSHA applicant,
       h_RunID := h_RunID applicant, h_Actor := h_Actor applicant, h_Promoted := False\<rparr>"

definition TryAcquire ::
  "Lock \<Rightarrow> Holder \<Rightarrow> go_duration \<Rightarrow> go_time \<Rightarrow> Lock \<times> bool \<times> LockErr option" where
  "TryAcquire l0 applicant ttl now =
     (let l = evictIfExpired l0 now ttl in
      case l_Holder l of
        None \<Rightarrow> (install l applicant ttl now, True, None)
      | Some h \<Rightarrow>
          if h_PR h = h_PR applicant then
            if h_RunID h \<noteq> h_RunID applicant then
              if \<not> h_Promoted h then (l, False, Some ErrHeldBySamePR)
              else (install l applicant ttl now, True, None)
            else (l\<lparr>l_Holder := Some (refresh h applicant ttl now), l_UpdatedAt := fmt_rfc3339 now\<rparr>,
                  True, Some ErrAlreadyHolder)
          else if list_ex (\<lambda>q. q_PR q = h_PR applicant) (l_Queue l) then
            (l, False, Some ErrAlreadyQueued)
          else (l\<lparr>l_Queue := l_Queue l @ [queue_item applicant now], l_UpdatedAt := fmt_rfc3339 now\<rparr>,
                False, None))"

definition Release ::
  "Lock \<Rightarrow> int \<Rightarrow> string \<Rightarrow> go_duration \<Rightarrow> go_time \<Rightarrow> Lock \<times> LockErr option" where
  "Release l0 pr runID ttl now =
     (let l = evictIfExpired l0 now ttl in
      if (case l_Holder l of None \<Rightarrow> True | Some h \<Rightarrow> h_PR h \<noteq> pr \<or> h_RunID h \<noteq> runID) then
        (let before = length (l_Queue l);
             l' = l\<lparr>l_Queue := removePR (l_Queue l) pr\<rparr>
         in if length (l_Queue l') \<noteq> before
            then (l'\<lparr>l_UpdatedAt := fmt_rfc3339 now\<rparr>, None)
            else (l', Some ErrNotHolder))
      else
        ((promoteNext (l\<lparr>l_Holder := None\<rparr>) now (promoteTTL ttl))\<lparr>l_UpdatedAt := fmt_rfc3339 now\<rparr>,
         None))"

definition UnlockPR ::
  "Lock \<Rightarrow> int \<Rightarrow> string \<Rightarrow> go_duration \<Rightarrow> go_time \<Rightarrow> Lock" where
  "UnlockPR l0 pr runID ttl now =
     (let l = (case l_Holder l0 of
                 Some h \<Rightarrow>
                   if h_PR h = pr \<and> (runID = '''' \<or> h_RunID h = runID \<or> expired h now)
                   then promoteNext (l0\<lparr>l_Holder := None\<rparr>) now (promoteTTL ttl)
                   else l0
               | None \<Rightarrow> l0)
      in l\<lparr>l_Queue := removePR (l_Queue l) pr, l_UpdatedAt := fmt_rfc3339 now\<rparr>)"

definition Reap :: "Lock \<Rightarrow> go_duration \<Rightarrow> go_time \<Rightarrow> Lock \<times> bool" where
  "Reap l ttl now =
     (case l_Holder l of
        None \<Rightarrow> (l, False)
      | Some h \<Rightarrow>
          if expired h now
          then ((promoteNext (l\<lparr>l_Holder := None\<rparr>) now (promoteTTL ttl))\<lparr>l_UpdatedAt := fmt_rfc3339 now\<rparr>,
                True)
          else (l, False))"

definition lock_status :: "Lock \<Rightarrow> go_time \<Rightarrow> Status" where
  "lock_status l now =
     (case l_Holder l of
        None \<Rightarrow> StatusFree
      | Some h \<Rightarrow> if expired h now then StatusExpired else StatusHeld)"

lemmas lock_op_defs = NewLock_def TryAcquire_def Release_def UnlockPR_def Reap_def
  promoteNext_def evictIfExpired_def install_def

subsection \<open>Invariant\<close>

text \<open>
  The pull requests a lock mentions, holder first: the order in which they will hold it.
\<close>

definition lock_prs :: "Lock \<Rightarrow> int list" where
  "lock_prs l = (case l_Holder l of None \<Rightarrow> [] | Some h \<Rightarrow> [h_PR h]) @ map q_PR (l_Queue l)"

definition lock_wf :: "Lock \<Rightarrow> bool" where
  "lock_wf l \<longleftrightarrow> distinct (lock_prs l) \<and> (l_Holder l = None \<longrightarrow> l_Queue l = [])"

lemma list_ex_PR [simp]: "list_ex (\<lambda>q. q_PR q = p) xs \<longleftrightarrow> p \<in> q_PR ` set xs"
  by (induction xs) auto

lemma set_removePR [simp]: "q_PR ` set (removePR q pr) = q_PR ` set q - {pr}"
  by (auto simp: removePR_def)

lemma map_removePR: "map q_PR (removePR q pr) = filter (\<lambda>p. p \<noteq> pr) (map q_PR q)"
  by (induction q) (auto simp: removePR_def)

lemma distinct_removePR: "distinct (map q_PR q) \<Longrightarrow> distinct (map q_PR (removePR q pr))"
  by (simp add: map_removePR)

lemma removePR_absent: "pr \<notin> q_PR ` set q \<Longrightarrow> removePR q pr = q"
  by (auto simp: removePR_def filter_id_conv)

lemma length_removePR_less: "length (removePR q pr) \<noteq> length q \<longleftrightarrow> pr \<in> q_PR ` set q"
proof (cases "pr \<in> q_PR ` set q")
  case True
  then obtain x where "x \<in> set q" "\<not> q_PR x \<noteq> pr" by auto
  then have "length (filter (\<lambda>item. q_PR item \<noteq> pr) q) < length q"
    by (rule length_filter_less)
  with True show ?thesis by (simp add: removePR_def)
qed (simp add: removePR_absent)

lemma lock_prs_clear [simp]:
  "lock_prs (promoteNext (l\<lparr>l_Holder := None\<rparr>) now ttl) = map q_PR (l_Queue l)"
  by (cases "l_Queue l") (simp_all add: promoteNext_def lock_prs_def promote_item_def)

lemma wf_clear: "lock_wf l \<Longrightarrow> lock_wf (promoteNext (l\<lparr>l_Holder := None\<rparr>) now ttl)"
  by (cases "l_Queue l"; cases "l_Holder l")
    (simp_all add: lock_wf_def promoteNext_def lock_prs_def promote_item_def)

lemma tl_lock_prs: "l_Holder l = Some h \<Longrightarrow> map q_PR (l_Queue l) = tl (lock_prs l)"
  by (simp add: lock_prs_def)

lemma lock_prs_UpdatedAt [simp]: "lock_prs (l\<lparr>l_UpdatedAt := u\<rparr>) = lock_prs l"
  by (simp add: lock_prs_def)

lemma lock_wf_UpdatedAt [simp]: "lock_wf (l\<lparr>l_UpdatedAt := u\<rparr>) = lock_wf l"
  by (simp add: lock_wf_def)

lemma lock_wf_queue_distinct: "lock_wf l \<Longrightarrow> distinct (map q_PR (l_Queue l))"
  by (simp add: lock_wf_def lock_prs_def)

lemma lock_wf_holder_fresh:
  "lock_wf l \<Longrightarrow> l_Holder l = Some h \<Longrightarrow> h_PR h \<notin> q_PR ` set (l_Queue l)"
  by (simp add: lock_wf_def lock_prs_def)

lemma wf_NewLock [lock_wf_intros]: "lock_wf (NewLock p s now)"
  by (simp add: lock_wf_def NewLock_def lock_prs_def)

lemma wf_evictIfExpired [lock_wf_intros]: "lock_wf l \<Longrightarrow> lock_wf (evictIfExpired l now ttl)"
  by (auto simp: evictIfExpired_def wf_clear split: option.splits)

lemma wf_install [lock_wf_intros]: "lock_wf l \<Longrightarrow> lock_wf (install l a ttl now)"
  by (simp add: lock_wf_def lock_prs_def install_def distinct_removePR)

lemma wf_TryAcquire [lock_wf_intros]:
  assumes "lock_wf l"
  shows "lock_wf (fst (TryAcquire l a ttl now))"
proof -
  from assms have wf: "lock_wf (evictIfExpired l now ttl)" by (rule wf_evictIfExpired)
  then show ?thesis
    by (auto simp: TryAcquire_def Let_def wf_install split: option.splits)
      (auto simp: lock_wf_def lock_prs_def refresh_def queue_item_def)
qed

lemma wf_removePR:
  "lock_wf l \<Longrightarrow> lock_wf (l\<lparr>l_Queue := removePR (l_Queue l) pr\<rparr>)"
  by (auto simp: lock_wf_def lock_prs_def removePR_def distinct_map_filter split: option.splits)

lemma wf_Release [lock_wf_intros]:
  assumes "lock_wf l"
  shows "lock_wf (fst (Release l pr r ttl now))"
proof -
  from assms have "lock_wf (evictIfExpired l now ttl)" by (rule wf_evictIfExpired)
  then show ?thesis by (simp add: Release_def Let_def wf_removePR wf_clear)
qed

lemma wf_UnlockPR [lock_wf_intros]: "lock_wf l \<Longrightarrow> lock_wf (UnlockPR l pr r ttl now)"
  by (auto simp: UnlockPR_def Let_def intro!: wf_removePR wf_clear split: option.splits)

lemma wf_Reap [lock_wf_intros]: "lock_wf l \<Longrightarrow> lock_wf (fst (Reap l ttl now))"
  by (auto simp: Reap_def wf_clear split: option.splits)

subsection \<open>The admin override\<close>

text \<open>
  \<open>ForceUnlock\<close> and \<open>forcePromoteQueue\<close> of \<open>internal/blob/locks/store.go\<close>: the transition the
  lock store runs for an administrator. The promotion is the state machine's own.
\<close>

definition forcePromoteQueue :: "Lock \<Rightarrow> go_time \<Rightarrow> go_duration \<Rightarrow> Lock" where
  "forcePromoteQueue l now ttl0 =
     (let ttl = (if ttl0 \<le> 0 then 4 * hour else ttl0) in
      case l_Holder l of
        Some _ \<Rightarrow> l
      | None \<Rightarrow>
          (case l_Queue l of
             [] \<Rightarrow> l
           | nxt # rest \<Rightarrow>
               l\<lparr>l_Queue := rest,
                 l_Holder := Some \<lparr>h_PR = q_PR nxt, h_CommitSHA = q_CommitSHA nxt,
                   h_RunID = q_RunID nxt, h_Actor = q_Actor nxt, h_AcquiredAt = fmt_rfc3339 now,
                   h_ExpiresAt = fmt_rfc3339 (now + ttl), h_Promoted = True\<rparr>\<rparr>))"

definition ForceUnlock_fn :: "Lock \<Rightarrow> go_duration \<Rightarrow> go_time \<Rightarrow> Lock" where
  "ForceUnlock_fn cur ttl now =
     (forcePromoteQueue (cur\<lparr>l_Holder := None\<rparr>) now ttl)\<lparr>l_UpdatedAt := fmt_rfc3339 now\<rparr>"

lemma forcePromoteQueue_eq: "forcePromoteQueue l now ttl = promoteNext l now (promoteTTL ttl)"
  by (simp add: forcePromoteQueue_def promoteNext_def promoteTTL_def defaultPromoteTTL_def
      promote_item_def Let_def split: option.split list.split)

lemma wf_ForceUnlock_fn [lock_wf_intros]: "lock_wf l \<Longrightarrow> lock_wf (ForceUnlock_fn l ttl now)"
  by (simp add: ForceUnlock_fn_def forcePromoteQueue_eq wf_clear)

subsection \<open>A lock as a first-in first-out list of pull requests\<close>

definition lease_over :: "Lock \<Rightarrow> go_time \<Rightarrow> bool" where
  "lease_over l now = (case l_Holder l of None \<Rightarrow> False | Some h \<Rightarrow> expired h now)"

definition fifo_join :: "int \<Rightarrow> int list \<Rightarrow> int list" where
  "fifo_join p xs = (if p \<in> set xs then xs else xs @ [p])"

lemma prs_evictIfExpired:
  "lock_prs (evictIfExpired l now ttl) = (if lease_over l now then tl (lock_prs l) else lock_prs l)"
  by (auto simp: evictIfExpired_def lease_over_def tl_lock_prs split: option.splits)

lemma prs_install_free:
  "lock_wf l \<Longrightarrow> l_Holder l = None \<Longrightarrow> lock_prs (install l a ttl now) = [h_PR a]"
  by (simp add: install_def lock_prs_def lock_wf_def removePR_def)

lemma prs_install_adopt:
  "lock_wf l \<Longrightarrow> l_Holder l = Some h \<Longrightarrow> h_PR h = h_PR a \<Longrightarrow> lock_prs (install l a ttl now) = lock_prs l"
  using lock_wf_holder_fresh [of l h] by (simp add: install_def lock_prs_def removePR_absent)

text \<open>What the acquire transition does to the list: join it at the end, or stay where one is.\<close>

lemma prs_TryAcquire:
  assumes "lock_wf l"
  shows "lock_prs (fst (TryAcquire l a ttl now)) =
         fifo_join (h_PR a) (lock_prs (evictIfExpired l now ttl))"
proof -
  let ?l = "evictIfExpired l now ttl"
  have wf: "lock_wf ?l" using assms by (rule wf_evictIfExpired)
  show ?thesis
  proof (cases "l_Holder ?l")
    case None
    with wf have "lock_prs ?l = []" by (simp add: lock_prs_def lock_wf_def)
    with None wf show ?thesis by (simp add: TryAcquire_def prs_install_free fifo_join_def)
  next
    case (Some h)
    with wf show ?thesis
      by (auto simp: TryAcquire_def Let_def prs_install_adopt fifo_join_def)
        (auto simp: lock_prs_def refresh_def queue_item_def)
  qed
qed

lemma TryAcquire_acquired_head:
  assumes "fst (snd (TryAcquire l a ttl now))"
  shows "\<exists>h. l_Holder (fst (TryAcquire l a ttl now)) = Some h \<and> h_PR h = h_PR a
       \<and> h_RunID h = h_RunID a \<and> \<not> h_Promoted h \<and> h_ExpiresAt h = fmt_rfc3339 (now + ttl)"
  using assms
  by (auto simp: TryAcquire_def Let_def install_def refresh_def split: option.splits if_splits)

lemma prs_drop_queue:
  "lock_prs (l\<lparr>l_Queue := removePR (l_Queue l) pr\<rparr>) =
     (case l_Holder l of
        Some h \<Rightarrow> if h_PR h = pr then h_PR h # filter (\<lambda>p. p \<noteq> pr) (map q_PR (l_Queue l))
                  else filter (\<lambda>p. p \<noteq> pr) (lock_prs l)
      | None \<Rightarrow> filter (\<lambda>p. p \<noteq> pr) (lock_prs l))"
  by (simp add: lock_prs_def map_removePR split: option.splits)

subsection \<open>The machine\<close>

datatype lock_op =
    OpAcquire Holder go_duration
  | OpRelease int string go_duration
  | OpUnlock int string go_duration
  | OpReap go_duration
  | OpForce go_duration

type_synonym lock_event = "go_time \<times> lock_op"

fun lock_exec :: "lock_event \<Rightarrow> Lock \<Rightarrow> Lock" where
  "lock_exec (now, OpAcquire a ttl) l = fst (TryAcquire l a ttl now)"
| "lock_exec (now, OpRelease pr r ttl) l = fst (Release l pr r ttl now)"
| "lock_exec (now, OpUnlock pr r ttl) l = UnlockPR l pr r ttl now"
| "lock_exec (now, OpReap ttl) l = fst (Reap l ttl now)"
| "lock_exec (now, OpForce ttl) l = ForceUnlock_fn l ttl now"

definition lock_run :: "lock_event list \<Rightarrow> Lock \<Rightarrow> Lock" where
  "lock_run evs l = fold lock_exec evs l"

lemma lock_run_simps [simp]:
  "lock_run [] l = l" "lock_run (e # es) l = lock_run es (lock_exec e l)"
  by (simp_all add: lock_run_def)

inductive lock_step :: "Lock \<Rightarrow> lock_event \<Rightarrow> Lock \<Rightarrow> bool" where
  lock_step: "l' = lock_exec ev l \<Longrightarrow> lock_step l ev l'"

inductive_cases lock_stepE: "lock_step l ev l'"

inductive lock_reachable :: "Lock \<Rightarrow> bool" where
  lr_new: "lock_reachable (NewLock p s now)"
| lr_step: "lock_reachable l \<Longrightarrow> lock_step l ev l' \<Longrightarrow> lock_reachable l'"

lemma wf_lock_exec: "lock_wf l \<Longrightarrow> lock_wf (lock_exec ev l)"
  by (induction ev l rule: lock_exec.induct) (simp_all add: lock_wf_intros)

lemma wf_lock_run: "lock_wf l \<Longrightarrow> lock_wf (lock_run evs l)"
  by (induction evs arbitrary: l) (simp_all add: wf_lock_exec)

lemma lock_reachable_wf: "lock_reachable l \<Longrightarrow> lock_wf l"
  by (induction rule: lock_reachable.induct) (auto elim!: lock_stepE intro: wf_NewLock wf_lock_exec)

text \<open>Identity fields never change.\<close>

lemma promoteNext_id [simp]:
  "l_Project (promoteNext l now ttl) = l_Project l" "l_Stack (promoteNext l now ttl) = l_Stack l"
  by (simp_all add: promoteNext_def split: option.split list.split)

lemma evictIfExpired_id [simp]:
  "l_Project (evictIfExpired l now ttl) = l_Project l" "l_Stack (evictIfExpired l now ttl) = l_Stack l"
  by (simp_all add: evictIfExpired_def split: option.split)

lemma lock_exec_id:
  "l_Project (lock_exec ev l) = l_Project l \<and> l_Stack (lock_exec ev l) = l_Stack l"
  by (induction ev l rule: lock_exec.induct)
    (auto simp: TryAcquire_def Release_def UnlockPR_def Reap_def ForceUnlock_fn_def install_def
      forcePromoteQueue_eq Let_def split: option.splits)

subsection \<open>No overtaking\<close>

text \<open>
  The pull requests an event takes out of the list: the holder whose lease is over, the one
  that releases, the one that is unlocked.
\<close>

definition evicted :: "Lock \<Rightarrow> go_time \<Rightarrow> int set" where
  "evicted l now = (case l_Holder l of None \<Rightarrow> {} | Some h \<Rightarrow> if expired h now then {h_PR h} else {})"

definition held_by_other_run :: "Lock \<Rightarrow> int \<Rightarrow> (Holder \<Rightarrow> bool) \<Rightarrow> bool" where
  "held_by_other_run l pr mine = (case l_Holder l of None \<Rightarrow> False | Some h \<Rightarrow> h_PR h = pr \<and> \<not> mine h)"

fun lock_drops :: "lock_event \<Rightarrow> Lock \<Rightarrow> int set" where
  "lock_drops (now, OpAcquire a ttl) l = evicted l now"
| "lock_drops (now, OpRelease pr r ttl) l =
     evicted l now \<union>
     (if held_by_other_run (evictIfExpired l now ttl) pr (\<lambda>h. h_RunID h = r) then {} else {pr})"
| "lock_drops (now, OpUnlock pr r ttl) l =
     (if held_by_other_run l pr (\<lambda>h. r = '''' \<or> h_RunID h = r \<or> expired h now) then {} else {pr})"
| "lock_drops (now, OpReap ttl) l = evicted l now"
| "lock_drops (now, OpForce ttl) l = (case l_Holder l of None \<Rightarrow> {} | Some h \<Rightarrow> {h_PR h})"

lemma filter_tl_head: "distinct (x # xs) \<Longrightarrow> filter (\<lambda>p. p \<noteq> x) xs = xs"
  by (auto simp: filter_id_conv)

lemma wf_tail: "lock_wf l \<Longrightarrow> l_Holder l = Some h \<Longrightarrow>
    filter (\<lambda>p. p \<noteq> h_PR h) (map q_PR (l_Queue l)) = map q_PR (l_Queue l)"
  by (rule filter_tl_head) (simp add: lock_wf_def lock_prs_def)

lemma prs_clear_filter:
  "lock_wf l \<Longrightarrow> l_Holder l = Some h \<Longrightarrow>
   lock_prs (promoteNext (l\<lparr>l_Holder := None\<rparr>) now ttl) = filter (\<lambda>p. p \<noteq> h_PR h) (lock_prs l)"
  using wf_tail [of l h] by (simp, simp add: lock_prs_def)

lemma prs_evict_filter:
  "lock_wf l \<Longrightarrow> lock_prs (evictIfExpired l now ttl) = filter (\<lambda>p. p \<notin> evicted l now) (lock_prs l)"
  by (auto simp: evictIfExpired_def evicted_def prs_clear_filter simp del: lock_prs_clear
      split: option.split)

lemma prs_drop_queue_wf:
  assumes "lock_wf l"
  shows "lock_prs (l\<lparr>l_Queue := removePR (l_Queue l) pr\<rparr>) =
     (if (case l_Holder l of None \<Rightarrow> False | Some h \<Rightarrow> h_PR h = pr) then lock_prs l
      else filter (\<lambda>p. p \<noteq> pr) (lock_prs l))"
  using wf_tail [OF assms] by (auto simp: prs_drop_queue split: option.split) (simp add: lock_prs_def)

lemma prs_Release:
  assumes wf: "lock_wf l"
  shows "lock_prs (fst (Release l pr r ttl now)) =
         filter (\<lambda>p. p \<notin> lock_drops (now, OpRelease pr r ttl) l) (lock_prs l)"
proof -
  let ?l = "evictIfExpired l now ttl"
  have wf': "lock_wf ?l" using wf by (rule wf_evictIfExpired)
  have "lock_prs (fst (Release l pr r ttl now)) =
      (if held_by_other_run ?l pr (\<lambda>h. h_RunID h = r) then lock_prs ?l
       else filter (\<lambda>p. p \<noteq> pr) (lock_prs ?l))"
    using prs_clear_filter [OF wf'] prs_drop_queue_wf [OF wf']
    by (auto simp: Release_def Let_def held_by_other_run_def simp del: lock_prs_clear split: option.splits)
  then show ?thesis unfolding prs_evict_filter [OF wf] by (auto intro!: filter_cong)
qed

lemma prs_UnlockPR:
  assumes wf: "lock_wf l"
  shows "lock_prs (UnlockPR l pr r ttl now) =
         filter (\<lambda>p. p \<notin> lock_drops (now, OpUnlock pr r ttl) l) (lock_prs l)"
proof (cases "l_Holder l")
  case None
  then show ?thesis
    using prs_drop_queue_wf [OF wf, of pr] by (simp add: UnlockPR_def held_by_other_run_def)
next
  case (Some h)
  show ?thesis
  proof (cases "h_PR h = pr \<and> (r = '''' \<or> h_RunID h = r \<or> expired h now)")
    case True
    let ?c = "promoteNext (l\<lparr>l_Holder := None\<rparr>) now (promoteTTL ttl)"
    have c: "lock_prs ?c = filter (\<lambda>p. p \<noteq> pr) (lock_prs l)"
      using prs_clear_filter [OF wf Some] True by (simp del: lock_prs_clear)
    have "pr \<notin> set (lock_prs ?c)" unfolding c by simp
    then have "\<not> (case l_Holder ?c of None \<Rightarrow> False | Some h \<Rightarrow> h_PR h = pr)"
      by (auto simp: lock_prs_def split: option.splits simp del: lock_prs_clear)
    then have "lock_prs (?c\<lparr>l_Queue := removePR (l_Queue ?c) pr\<rparr>) = filter (\<lambda>p. p \<noteq> pr) (lock_prs ?c)"
      using prs_drop_queue_wf [OF wf_clear [OF wf], of now "promoteTTL ttl" pr] by simp
    with c True Some show ?thesis by (auto simp: UnlockPR_def Let_def held_by_other_run_def)
  next
    case False
    with Some show ?thesis
      using prs_drop_queue_wf [OF wf, of pr] by (auto simp: UnlockPR_def held_by_other_run_def)
  qed
qed

lemma prs_Reap:
  "lock_wf l \<Longrightarrow> lock_prs (fst (Reap l ttl now)) = filter (\<lambda>p. p \<notin> evicted l now) (lock_prs l)"
  by (auto simp: Reap_def evicted_def prs_clear_filter simp del: lock_prs_clear split: option.split)

lemma prs_ForceUnlock:
  "lock_wf l \<Longrightarrow> lock_prs (ForceUnlock_fn l ttl now) =
     filter (\<lambda>p. p \<notin> lock_drops (now, OpForce ttl) l) (lock_prs l)"
  by (auto simp: ForceUnlock_fn_def forcePromoteQueue_eq prs_clear_filter simp del: lock_prs_clear
      split: option.split) (auto simp: lock_prs_def lock_wf_def promoteNext_def)

definition lock_joins :: "lock_event \<Rightarrow> Lock \<Rightarrow> int list" where
  "lock_joins ev l =
     (case ev of
        (now, OpAcquire a ttl) \<Rightarrow>
          (if h_PR a \<in> set (lock_prs (evictIfExpired l now ttl)) then [] else [h_PR a])
      | _ \<Rightarrow> [])"

lemma prs_lock_exec:
  "lock_wf l \<Longrightarrow> lock_prs (lock_exec ev l) =
     filter (\<lambda>p. p \<notin> lock_drops ev l) (lock_prs l) @ lock_joins ev l"
proof (induction ev l rule: lock_exec.induct)
  case (1 now a ttl l)
  then show ?case
    by (simp add: lock_joins_def prs_TryAcquire fifo_join_def prs_evict_filter)
qed (simp_all add: lock_joins_def prs_Release prs_UnlockPR prs_Reap prs_ForceUnlock
      del: lock_drops.simps(2,3,5))

text \<open>No event of the sequence takes the pull request out.\<close>

fun kept_through :: "('e \<Rightarrow> 'l \<Rightarrow> int set) \<Rightarrow> ('e \<Rightarrow> 'l \<Rightarrow> 'l) \<Rightarrow> int \<Rightarrow> 'e list \<Rightarrow> 'l \<Rightarrow> bool" where
  "kept_through drops exec p [] l = True"
| "kept_through drops exec p (e # es) l =
     (p \<notin> drops e l \<and> kept_through drops exec p es (exec e l))"

text \<open>
  The interface a waiting pull request relies on, and what follows from it alone: whoever is
  ahead stays ahead until an event takes it out.
\<close>

locale fifo_lock =
  fixes prs :: "'l \<Rightarrow> int list"
    and wf :: "'l \<Rightarrow> bool"
    and exec :: "'e \<Rightarrow> 'l \<Rightarrow> 'l"
    and drops :: "'e \<Rightarrow> 'l \<Rightarrow> int set"
    and joins :: "'e \<Rightarrow> 'l \<Rightarrow> int list"
  assumes wf_exec: "wf l \<Longrightarrow> wf (exec e l)"
    and wf_distinct: "wf l \<Longrightarrow> distinct (prs l)"
    and exec_prs: "wf l \<Longrightarrow> prs (exec e l) = filter (\<lambda>p. p \<notin> drops e l) (prs l) @ joins e l"
begin

lemma ahead_run:
  assumes "wf l" and "prs l = xs @ p # ys" and "kept_through drops exec p es l"
  shows "\<exists>xs' ys'. prs (fold exec es l) = xs' @ p # ys' \<and> set xs' \<subseteq> set xs"
  using assms
proof (induction es arbitrary: l xs ys)
  case Nil
  then show ?case by (intro exI conjI) auto
next
  case (Cons e es)
  have "\<exists>xs' ys'. prs (exec e l) = xs' @ p # ys' \<and> set xs' \<subseteq> set xs"
  proof (intro exI conjI)
    show "prs (exec e l) = filter (\<lambda>p. p \<notin> drops e l) xs @ p # (filter (\<lambda>p. p \<notin> drops e l) ys @ joins e l)"
      using Cons.prems by (simp add: exec_prs)
  qed auto
  then obtain xs' ys' where s: "prs (exec e l) = xs' @ p # ys'" "set xs' \<subseteq> set xs" by blast
  from Cons.prems have "wf (exec e l)" "kept_through drops exec p es (exec e l)" by (auto intro: wf_exec)
  from Cons.IH [OF this(1) s(1) this(2)] s(2) show ?case by (simp, blast)
qed

lemma no_overtaking:
  assumes "wf l" and "prs l = xs @ p # ys" and "q \<notin> set xs" and "q \<noteq> p" and "kept_through drops exec p es l"
  shows "prs (fold exec es l) \<noteq> [] \<and> hd (prs (fold exec es l)) \<noteq> q"
proof -
  from ahead_run [OF assms(1,2,5)] obtain xs' ys'
    where "prs (fold exec es l) = xs' @ p # ys'" "set xs' \<subseteq> set xs" by blast
  then show ?thesis using assms(3,4) by (cases xs') auto
qed

end

interpretation lq: fifo_lock lock_prs lock_wf lock_exec lock_drops lock_joins
proof
  show "lock_wf (lock_exec e l)" if "lock_wf l" for l e using that by (rule wf_lock_exec)
  show "distinct (lock_prs l)" if "lock_wf l" for l using that by (simp add: lock_wf_def)
  show "lock_prs (lock_exec e l) = filter (\<lambda>p. p \<notin> lock_drops e l) (lock_prs l) @ lock_joins e l"
    if "lock_wf l" for l e using that by (rule prs_lock_exec)
qed

subsection \<open>Leases\<close>

definition holds_lease :: "Lock \<Rightarrow> int \<Rightarrow> string \<Rightarrow> go_time \<Rightarrow> bool" where
  "holds_lease l pr run e \<longleftrightarrow>
     (case l_Holder l of
        None \<Rightarrow> False
      | Some h \<Rightarrow> h_PR h = pr \<and> h_RunID h = run \<and> \<not> h_Promoted h \<and> h_ExpiresAt h \<noteq> ''''
                  \<and> parse_rfc3339 (h_ExpiresAt h) = Some e)"

lemma fmt_rfc3339_nonempty [simp]: "fmt_rfc3339 t \<noteq> ''''"
  by (simp add: fmt_rfc3339_def Let_def split: prod.split)

lemma holds_leaseE:
  assumes "holds_lease l pr run e"
  obtains h where "l_Holder l = Some h" "h_PR h = pr" "h_RunID h = run" "\<not> h_Promoted h"
    "\<forall>t. expired h t \<longleftrightarrow> e < t"
  using assms by (auto simp: holds_lease_def expired_def split: option.splits)

lemma expired_fmt:
  "h_ExpiresAt h = fmt_rfc3339 x \<Longrightarrow> printable_time x \<Longrightarrow> expired h t \<longleftrightarrow> trunc_second x < t"
  by (simp add: expired_def parse_fmt_rfc3339)

lemma evict_live: "holds_lease l pr run e \<Longrightarrow> now \<le> e \<Longrightarrow> evictIfExpired l now ttl = l"
  by (erule holds_leaseE) (simp add: evictIfExpired_def)

text \<open>The events that may happen while a run keeps its lease until \<open>e\<close>.\<close>

fun respects_lease :: "int \<Rightarrow> string \<Rightarrow> go_time \<Rightarrow> lock_event \<Rightarrow> bool" where
  "respects_lease pr run e (now, OpAcquire a ttl) =
     (now \<le> e \<and> (h_PR a = pr \<and> h_RunID a = run \<longrightarrow> printable_time (now + ttl) \<and> e \<le> trunc_second (now + ttl)))"
| "respects_lease pr run e (now, OpRelease p r ttl) = (now \<le> e \<and> \<not> (p = pr \<and> r = run))"
| "respects_lease pr run e (now, OpUnlock p r ttl) = (now \<le> e \<and> \<not> (p = pr \<and> (r = '''' \<or> r = run)))"
| "respects_lease pr run e (now, OpReap ttl) = (now \<le> e)"
| "respects_lease pr run e (now, OpForce ttl) = False"

lemma TryAcquire_own_lease:
  assumes "holds_lease l pr run e" and "now \<le> e" and "h_PR a = pr" and "h_RunID a = run"
  shows "TryAcquire l a ttl now =
     (l\<lparr>l_Holder := Some (refresh (the (l_Holder l)) a ttl now), l_UpdatedAt := fmt_rfc3339 now\<rparr>,
      True, Some ErrAlreadyHolder)"
proof -
  have "evictIfExpired l now ttl = l" using assms(1,2) by (rule evict_live)
  moreover obtain h where "l_Holder l = Some h" "h_PR h = pr" "h_RunID h = run"
    using assms(1) by (rule holds_leaseE)
  ultimately show ?thesis using assms(3,4) by (simp add: TryAcquire_def)
qed

lemma TryAcquire_foreign_lease:
  assumes "holds_lease l pr run e" and "now \<le> e" and "h_PR a \<noteq> pr \<or> h_RunID a \<noteq> run"
  shows "\<not> fst (snd (TryAcquire l a ttl now))"
    and "l_Holder (fst (TryAcquire l a ttl now)) = l_Holder l"
proof -
  have "evictIfExpired l now ttl = l" using assms(1,2) by (rule evict_live)
  moreover obtain h where "l_Holder l = Some h" "h_PR h = pr" "h_RunID h = run" "\<not> h_Promoted h"
    using assms(1) by (rule holds_leaseE)
  ultimately show "\<not> fst (snd (TryAcquire l a ttl now))"
    "l_Holder (fst (TryAcquire l a ttl now)) = l_Holder l"
    using assms(3) by (auto simp: TryAcquire_def)
qed

lemma holds_lease_cong:
  "l_Holder l' = l_Holder l \<Longrightarrow> holds_lease l' pr run e = holds_lease l pr run e"
  by (simp add: holds_lease_def)

lemma respects_lease_step:
  assumes "holds_lease l pr run e" and "e0 \<le> e" and "respects_lease pr run e0 ev"
  shows "\<exists>e' \<ge> e0. holds_lease (lock_exec ev l) pr run e'"
  using assms
proof (induction pr run e0 ev arbitrary: l rule: respects_lease.induct)
  case (1 pr run e0 now a ttl)
  then have now: "now \<le> e" by simp
  show ?case
  proof (cases "h_PR a = pr \<and> h_RunID a = run")
    case True
    with 1 have p: "printable_time (now + ttl)" "e0 \<le> trunc_second (now + ttl)" by simp_all
    have "holds_lease (lock_exec (now, OpAcquire a ttl) l) pr run (trunc_second (now + ttl))"
      using True 1(1) p(1)
      by (auto simp: TryAcquire_own_lease [OF 1(1) now] holds_lease_def refresh_def parse_fmt_rfc3339
          split: option.splits)
    with p(2) show ?thesis by blast
  next
    case False
    then have "l_Holder (lock_exec (now, OpAcquire a ttl) l) = l_Holder l"
      using TryAcquire_foreign_lease(2) [OF 1(1) now] by simp
    then have "holds_lease (lock_exec (now, OpAcquire a ttl) l) pr run e"
      using 1(1) holds_lease_cong by blast
    with 1(2) show ?thesis by blast
  qed
next
  case (2 pr run e0 now p r ttl)
  obtain h where "l_Holder l = Some h" "h_PR h = pr" "h_RunID h = run"
    using 2(1) by (rule holds_leaseE)
  with 2 have "l_Holder (lock_exec (now, OpRelease p r ttl) l) = l_Holder l"
    using evict_live [OF 2(1), of now ttl] by (auto simp: Release_def Let_def)
  with 2(1,2) show ?case using holds_lease_cong by blast
next
  case (3 pr run e0 now p r ttl)
  obtain h where h: "l_Holder l = Some h" "h_PR h = pr" "h_RunID h = run"
    and x: "\<forall>t. expired h t \<longleftrightarrow> e < t"
    using 3(1) by (rule holds_leaseE)
  have "\<not> expired h now" using x 3 by simp
  with h 3 have "\<not> (h_PR h = p \<and> (r = '''' \<or> h_RunID h = r \<or> expired h now))" by auto
  with h(1) have "l_Holder (lock_exec (now, OpUnlock p r ttl) l) = l_Holder l"
    by (auto simp: UnlockPR_def Let_def)
  with 3(1,2) show ?case using holds_lease_cong by blast
next
  case (4 pr run e0 now ttl)
  obtain h where h: "l_Holder l = Some h" and x: "\<forall>t. expired h t \<longleftrightarrow> e < t"
    using 4(1) by (rule holds_leaseE)
  have "\<not> expired h now" using x 4 by simp
  with h have "l_Holder (lock_exec (now, OpReap ttl) l) = l_Holder l"
    by (simp add: Reap_def)
  with 4(1,2) show ?case using holds_lease_cong by blast
qed simp

lemma respects_lease_run:
  assumes "holds_lease l pr run e" and "e0 \<le> e" and "list_all (respects_lease pr run e0) evs"
  shows "\<exists>e' \<ge> e0. holds_lease (lock_run evs l) pr run e'"
  using assms
proof (induction evs arbitrary: l e)
  case (Cons ev evs)
  from Cons.prems(3) have "respects_lease pr run e0 ev" "list_all (respects_lease pr run e0) evs"
    by simp_all
  with respects_lease_step [OF Cons.prems(1,2)] obtain e'
    where "e0 \<le> e'" "holds_lease (lock_exec ev l) pr run e'" by blast
  with Cons.IH Cons.prems(3) show ?case by simp
qed auto

lemma acquire_starts_lease:
  assumes "fst (snd (TryAcquire l a ttl now))" and "printable_time (now + ttl)"
  shows "holds_lease (fst (TryAcquire l a ttl now)) (h_PR a) (h_RunID a) (trunc_second (now + ttl))"
  using TryAcquire_acquired_head [OF assms(1)] assms(2)
  by (auto simp: holds_lease_def parse_fmt_rfc3339)

subsection \<open>Queue progress under a silent holder\<close>

text \<open>
  One reaping pass per lease: the reaper visits the lock at the given times, and each
  promoted holder stays silent.
\<close>

definition reap_at :: "go_duration \<Rightarrow> go_time list \<Rightarrow> Lock \<Rightarrow> Lock" where
  "reap_at ttl ts l = fold (\<lambda>t l. fst (Reap l ttl t)) ts l"

text \<open>Each visit comes after the lease the previous visit granted, and its stamps are printable.\<close>

fun spaced :: "go_duration \<Rightarrow> go_time list \<Rightarrow> bool" where
  "spaced ttl [] = True"
| "spaced ttl [t] = True"
| "spaced ttl (t # u # ts) = (t + promoteTTL ttl < u \<and> printable_time (t + promoteTTL ttl) \<and> spaced ttl (u # ts))"

lemma Reap_lease_over:
  assumes "lease_over l t"
  shows "lock_prs (fst (Reap l ttl t)) = tl (lock_prs l)"
    and "l_Holder (fst (Reap l ttl t)) =
         (case l_Queue l of [] \<Rightarrow> None | q # _ \<Rightarrow> Some (promote_item q t (promoteTTL ttl)))"
proof -
  from assms obtain h where h: "l_Holder l = Some h" "expired h t"
    by (auto simp: lease_over_def split: option.splits)
  then show "lock_prs (fst (Reap l ttl t)) = tl (lock_prs l)" by (simp add: Reap_def tl_lock_prs)
  from h show "l_Holder (fst (Reap l ttl t)) =
      (case l_Queue l of [] \<Rightarrow> None | q # _ \<Rightarrow> Some (promote_item q t (promoteTTL ttl)))"
    by (simp add: Reap_def promoteNext_def split: list.split)
qed

lemma lease_over_promoted:
  "l_Holder l = Some (promote_item q t d) \<Longrightarrow> printable_time (t + d) \<Longrightarrow> t + d < u \<Longrightarrow> lease_over l u"
  by (simp add: lease_over_def promote_item_def expired_fmt le_less_trans [OF trunc_second_le])

lemma reap_at_drop:
  assumes "lock_wf l" and "ts \<noteq> [] \<Longrightarrow> l_Holder l \<noteq> None \<Longrightarrow> lease_over l (hd ts)" and "spaced ttl ts"
  shows "lock_prs (reap_at ttl ts l) = drop (length ts) (lock_prs l)"
  using assms
proof (induction ts arbitrary: l)
  case (Cons t ts)
  let ?l = "fst (Reap l ttl t)"
  have wf: "lock_wf ?l" using Cons.prems(1) by (rule wf_Reap)
  have tl: "lock_prs ?l = tl (lock_prs l)"
  proof (cases "l_Holder l")
    case None
    with Cons.prems(1) show ?thesis by (simp add: Reap_def lock_prs_def lock_wf_def)
  next
    case (Some h)
    with Cons.prems(2) show ?thesis by (simp add: Reap_lease_over(1))
  qed
  have over: "lease_over ?l (hd ts)" if ne: "ts \<noteq> []" and h: "l_Holder ?l \<noteq> None"
  proof -
    from h have "l_Holder l \<noteq> None" by (auto simp: Reap_def split: option.splits)
    with Cons.prems(2) have "lease_over l t" by simp
    with h obtain q where q: "l_Holder ?l = Some (promote_item q t (promoteTTL ttl))"
      by (auto simp: Reap_lease_over(2) split: list.splits)
    moreover have "t + promoteTTL ttl < hd ts" "printable_time (t + promoteTTL ttl)"
      using Cons.prems(3) ne by (cases ts; simp)+
    ultimately show ?thesis using lease_over_promoted by blast
  qed
  have "spaced ttl ts" using Cons.prems(3) by (cases ts) simp_all
  from Cons.IH [OF wf over this] tl show ?case
    by (simp add: reap_at_def drop_Suc)
qed (simp add: reap_at_def)

subsection \<open>Properties\<close>

text \<open>
  C3. Lease exclusivity. A run that acquired a lock at \<open>t0\<close> keeps it until its lease ends
  (\<open>t0 + ttl\<close>, cut to the second): whatever events the state machine processes meanwhile
  that are not its own release, an unlock of its pull request or an admin override, no
  other run - of another pull request or of the same one - is granted the lock, and the
  holder on record is still the run itself.
\<close>

theorem lease_exclusive:
  assumes "fst (snd (TryAcquire l0 me ttl t0))"
    and "printable_time (t0 + ttl)"
    and "list_all (respects_lease (h_PR me) (h_RunID me) (trunc_second (t0 + ttl))) evs"
    and "t \<le> trunc_second (t0 + ttl)"
    and "h_PR other \<noteq> h_PR me \<or> h_RunID other \<noteq> h_RunID me"
  shows "\<not> fst (snd (TryAcquire (lock_run evs (fst (TryAcquire l0 me ttl t0))) other ttl' t))
    \<and> map_option (\<lambda>h. (h_PR h, h_RunID h)) (l_Holder (lock_run evs (fst (TryAcquire l0 me ttl t0))))
         = Some (h_PR me, h_RunID me)"
proof (rule conjI)
  from acquire_starts_lease [OF assms(1,2)] respects_lease_run [OF _ order_refl assms(3)]
  obtain e where e: "trunc_second (t0 + ttl) \<le> e"
    "holds_lease (lock_run evs (fst (TryAcquire l0 me ttl t0))) (h_PR me) (h_RunID me) e" by blast
  from e(1) assms(4) have "t \<le> e" by simp
  from TryAcquire_foreign_lease(1) [OF e(2) this assms(5)]
  show "\<not> fst (snd (TryAcquire (lock_run evs (fst (TryAcquire l0 me ttl t0))) other ttl' t))" .
  from e(2) show "map_option (\<lambda>h. (h_PR h, h_RunID h))
      (l_Holder (lock_run evs (fst (TryAcquire l0 me ttl t0)))) = Some (h_PR me, h_RunID me)"
    by (auto simp: holds_lease_def split: option.splits)
qed

text \<open>Concrete applicants and events for the witnesses: two pull requests on one stack.\<close>

definition sample_applicant :: "int \<Rightarrow> string \<Rightarrow> Holder" where
  "sample_applicant pr run =
     \<lparr>h_PR = pr, h_CommitSHA = ''c0ffee'', h_RunID = run, h_Actor = ''alice'',
      h_AcquiredAt = '''', h_ExpiresAt = '''', h_Promoted = False\<rparr>"

definition sample_lock :: Lock where
  "sample_lock = NewLock ''api'' ''prod'' 0"

definition sample_events :: "lock_event list" where
  "sample_events =
     [(60 * second, OpAcquire (sample_applicant 8 ''apply-2'') hour),
      (120 * second, OpAcquire (sample_applicant 7 ''apply-1'') hour),
      (180 * second, OpUnlock 8 '''' hour)]"

theorem lease_exclusive_witness:
  "fst (snd (TryAcquire sample_lock (sample_applicant 7 ''apply-1'') hour 0))
   \<and> printable_time (0 + hour)
   \<and> list_all (respects_lease 7 ''apply-1'' (trunc_second (0 + hour))) sample_events
   \<and> \<not> fst (snd (TryAcquire
         (lock_run sample_events (fst (TryAcquire sample_lock (sample_applicant 7 ''apply-1'') hour 0)))
         (sample_applicant 9 ''apply-3'') hour (200 * second)))"
proof -
  have a: "fst (snd (TryAcquire sample_lock (sample_applicant 7 ''apply-1'') hour 0))"
    by (simp add: TryAcquire_def sample_lock_def NewLock_def evictIfExpired_def)
  have p: "printable_time (0 + hour)" by code_simp
  have e: "list_all (respects_lease 7 ''apply-1'' (trunc_second (0 + hour))) sample_events" by code_simp
  have t: "200 * second \<le> trunc_second (0 + hour)" by code_simp
  have i: "h_PR (sample_applicant 7 ''apply-1'') = 7" "h_RunID (sample_applicant 7 ''apply-1'') = ''apply-1''"
    "h_PR (sample_applicant 9 ''apply-3'') \<noteq> 7"
    by (simp_all add: sample_applicant_def)
  from lease_exclusive [OF a p, unfolded i, OF e t, of "sample_applicant 9 ''apply-3''" hour] i(3)
  show ?thesis using a p e by simp
qed

text \<open>
  C10. In every reachable lock a pull request occurs at most once, counting the holder, and a
  lock without a holder has an empty queue: the state machine never leaves waiting pull
  requests behind a free lock.
\<close>

theorem reachable_lock_wf:
  assumes "lock_reachable l"
  shows "distinct (lock_prs l) \<and> (l_Holder l = None \<longrightarrow> l_Queue l = [])"
  using lock_reachable_wf [OF assms] by (simp add: lock_wf_def)

theorem reachable_lock_wf_witness:
  "lock_reachable (lock_exec (0, OpAcquire (sample_applicant 7 ''r'') hour) sample_lock)
   \<and> distinct (lock_prs (lock_exec (0, OpAcquire (sample_applicant 7 ''r'') hour) sample_lock))"
proof -
  have "lock_reachable (lock_exec (0, OpAcquire (sample_applicant 7 ''r'') hour) sample_lock)"
    unfolding sample_lock_def by (rule lr_step [OF lr_new lock_step.intros]) (rule refl)
  then show ?thesis using reachable_lock_wf by blast
qed

text \<open>
  C11. The lock refines a first-in first-out list of pull requests, holder first: an event
  removes exactly the pull requests it is entitled to remove (an expired holder, the run
  that releases, the unlocked pull request, the overridden holder), keeps the others in
  order, and an acquire by a pull request that is not in the list appends it at the end.
\<close>

theorem lock_refines_fifo:
  assumes "lock_reachable l"
  shows "lock_prs (lock_exec ev l) = filter (\<lambda>p. p \<notin> lock_drops ev l) (lock_prs l) @ lock_joins ev l"
  by (rule lq.exec_prs [OF lock_reachable_wf [OF assms]])

theorem lock_refines_fifo_witness:
  "lock_reachable sample_lock \<and>
   lock_prs (lock_exec (0, OpAcquire (sample_applicant 7 ''r'') hour) sample_lock) = [7]"
proof -
  have r: "lock_reachable sample_lock" unfolding sample_lock_def by (rule lr_new)
  from lock_refines_fifo [OF r, of "(0, OpAcquire (sample_applicant 7 ''r'') hour)"] r show ?thesis
    by (simp add: lock_joins_def evicted_def sample_lock_def NewLock_def lock_prs_def
        evictIfExpired_def sample_applicant_def)
qed

text \<open>
  No overtaking. A pull request that waits behind another is not granted the lock before
  it: as long as no event takes the one ahead out of the list, the one behind is never the
  holder, whatever acquires, releases, unlocks, reaps and overrides happen.
\<close>

theorem waiting_never_overtaken:
  assumes "lock_reachable l" and "lock_prs l = xs @ p # ys" and "q \<notin> set xs" and "q \<noteq> p"
    and "kept_through lock_drops lock_exec p evs l"
  shows "l_Holder (lock_run evs l) \<noteq> None \<and> (\<forall>h. l_Holder (lock_run evs l) = Some h \<longrightarrow> h_PR h \<noteq> q)"
proof -
  from assms(1) have wf: "lock_wf l" by (rule lock_reachable_wf)
  from lq.no_overtaking [OF wf assms(2-5)]
  have n: "lock_prs (lock_run evs l) \<noteq> []" "hd (lock_prs (lock_run evs l)) \<noteq> q"
    by (simp_all add: lock_run_def)
  from wf_lock_run [OF wf] have "l_Holder (lock_run evs l) = None \<longrightarrow> l_Queue (lock_run evs l) = []"
    by (simp add: lock_wf_def)
  with n show ?thesis by (auto simp: lock_prs_def split: option.splits)
qed

definition sample_queue :: Lock where
  "sample_queue = lock_run
     [(0, OpAcquire (sample_applicant 7 ''r7'') hour), (second, OpAcquire (sample_applicant 8 ''r8'') hour),
      (2 * second, OpAcquire (sample_applicant 9 ''r9'') hour)] sample_lock"

lemma lock_run_reachable: "lock_reachable l \<Longrightarrow> lock_reachable (lock_run evs l)"
  by (induction evs arbitrary: l) (auto intro: lr_step lock_step.intros)

lemma sample_queue_reachable: "lock_reachable sample_queue"
  unfolding sample_queue_def sample_lock_def by (intro lock_run_reachable lr_new)

lemma sample_queue_prs: "lock_prs sample_queue = [7, 8, 9]"
  by code_simp

theorem waiting_never_overtaken_witness:
  "lock_reachable sample_queue \<and> lock_prs sample_queue = [7] @ 8 # [9]
   \<and> kept_through lock_drops lock_exec 8 [(3 * second, OpRelease 7 ''r7'' hour)] sample_queue
   \<and> (\<exists>h. l_Holder (lock_run [(3 * second, OpRelease 7 ''r7'' hour)] sample_queue) = Some h \<and> h_PR h \<noteq> 9)"
proof -
  have k: "kept_through lock_drops lock_exec 8 [(3 * second, OpRelease 7 ''r7'' hour)] sample_queue"
    by code_simp
  have p: "lock_prs sample_queue = [7] @ 8 # [9]" by (simp add: sample_queue_prs)
  from waiting_never_overtaken [OF sample_queue_reachable p _ _ k, of 9] k p sample_queue_reachable
  show ?thesis by auto
qed

text \<open>
  Queue progress. If a reachable lock's holder is dead (its lease has run out), \<open>n\<close> reaper
  passes, each after the lease the previous one granted, take the first \<open>n\<close> pull requests
  out of the list, so the pull request at position \<open>n\<close> becomes the holder: nobody waits for
  ever behind silent holders.
\<close>

theorem reaper_drains_queue:
  assumes "lock_reachable l" and "lease_over l t" and "spaced ttl (t # ts)" and "length ts < length (l_Queue l)"
  shows "map_option h_PR (l_Holder (reap_at ttl (t # ts) l)) = Some (q_PR (l_Queue l ! length ts))"
proof -
  from assms(1) have wf: "lock_wf l" by (rule lock_reachable_wf)
  from assms(2) obtain h where h: "l_Holder l = Some h" by (auto simp: lease_over_def split: option.splits)
  have "lock_prs (reap_at ttl (t # ts) l) = drop (length (t # ts)) (lock_prs l)"
    using wf assms(2,3) by (intro reap_at_drop) auto
  also have "\<dots> = q_PR (l_Queue l ! length ts) # drop (Suc (length ts)) (map q_PR (l_Queue l))"
    using h assms(4) by (simp add: lock_prs_def drop_map [symmetric] Cons_nth_drop_Suc [symmetric] flip: nth_map)
  finally have e: "lock_prs (reap_at ttl (t # ts) l) =
      q_PR (l_Queue l ! length ts) # drop (Suc (length ts)) (map q_PR (l_Queue l))" .
  have wf_fold: "lock_wf k \<Longrightarrow> lock_wf (reap_at ttl us k)" for us k
    unfolding reap_at_def by (induction us arbitrary: k) (simp_all add: wf_Reap)
  have "lock_wf (reap_at ttl (t # ts) l)" using wf by (rule wf_fold)
  with e show ?thesis by (auto simp: lock_wf_def lock_prs_def split: option.splits)
qed

theorem reaper_drains_queue_witness:
  "lock_reachable sample_queue \<and> lease_over sample_queue (2 * hour)
   \<and> spaced hour [2 * hour, 4 * hour] \<and> length [4 * hour] < length (l_Queue sample_queue)
   \<and> map_option h_PR (l_Holder (reap_at hour [2 * hour, 4 * hour] sample_queue)) = Some 9"
proof -
  have o: "lease_over sample_queue (2 * hour)" by code_simp
  have s: "spaced hour [2 * hour, 4 * hour]" by code_simp
  have n: "length [4 * hour] < length (l_Queue sample_queue)" by code_simp
  have q: "q_PR (l_Queue sample_queue ! length [4 * hour]) = 9" by code_simp
  from reaper_drains_queue [OF sample_queue_reachable o s n] q o s n sample_queue_reachable
  show ?thesis by simp
qed

end
