(* ===== verification/GoStrings.thy ===== *)
theory GoStrings
  imports GoTime "HOL-Library.Char_ord" "HOL-Library.List_Lexorder"
begin

text \<open>
  What the sources use of Go's \<open>strings\<close>, \<open>strconv\<close>, \<open>unicode/utf8\<close> and \<open>path\<close> packages, on
  byte strings. Functions that walk a string by runes use \<open>rune_split\<close>, which cuts it the way
  Go's \<open>range\<close> loop decodes it (an invalid byte is a rune of its own). White space is Unicode
  white space. Case mapping and \<open>EqualFold\<close> fold the ASCII letters only and compare other
  bytes exactly; the names they are used on (logins, commands, commit hashes) are ASCII.
\<close>

subsection \<open>Prefixes, suffixes, substrings\<close>

definition HasPrefix :: "string \<Rightarrow> string \<Rightarrow> bool" where
  "HasPrefix s p \<longleftrightarrow> take (length p) s = p"

definition HasSuffix :: "string \<Rightarrow> string \<Rightarrow> bool" where
  "HasSuffix s p \<longleftrightarrow> HasPrefix (rev s) (rev p)"

definition TrimPrefix :: "string \<Rightarrow> string \<Rightarrow> string" where
  "TrimPrefix s p = (if HasPrefix s p then drop (length p) s else s)"

definition TrimSuffix :: "string \<Rightarrow> string \<Rightarrow> string" where
  "TrimSuffix s p = (if HasSuffix s p then take (length s - length p) s else s)"

fun Contains :: "string \<Rightarrow> string \<Rightarrow> bool" where
  "Contains [] sub = (sub = [])"
| "Contains (c # s) sub = (HasPrefix (c # s) sub \<or> Contains s sub)"

definition ContainsAny :: "string \<Rightarrow> string \<Rightarrow> bool" where
  "ContainsAny s chars = list_ex (\<lambda>c. c \<in> set chars) s"

lemma HasPrefix_iff: "HasPrefix s p \<longleftrightarrow> (\<exists>r. s = p @ r)"
  by (auto simp: HasPrefix_def) (metis append_take_drop_id)

lemma HasPrefix_append [simp]: "HasPrefix (p @ r) p"
  by (simp add: HasPrefix_def)

lemma HasSuffix_iff: "HasSuffix s p \<longleftrightarrow> (\<exists>r. s = r @ p)"
  unfolding HasSuffix_def HasPrefix_iff by (metis rev_append rev_rev_ident)

lemma TrimPrefix_append [simp]: "TrimPrefix (p @ r) p = r"
  by (simp add: TrimPrefix_def)

lemma TrimSuffix_append [simp]: "TrimSuffix (r @ p) p = r"
  by (simp add: TrimSuffix_def HasSuffix_iff)

lemma TrimPrefix_not [simp]: "\<not> HasPrefix s p \<Longrightarrow> TrimPrefix s p = s"
  by (simp add: TrimPrefix_def)

lemma Contains_iff: "Contains s sub \<longleftrightarrow> (\<exists>a b. s = a @ sub @ b)"
proof (induction s sub rule: Contains.induct)
  case (2 c s sub)
  show ?case
  proof
    assume "Contains (c # s) sub"
    then consider "HasPrefix (c # s) sub" | "Contains s sub" by auto
    then show "\<exists>a b. c # s = a @ sub @ b"
    proof cases
      case 1
      then show ?thesis by (metis HasPrefix_iff append_Nil)
    next
      case 2
      with "2.IH" show ?thesis by (metis append_Cons)
    qed
  next
    assume "\<exists>a b. c # s = a @ sub @ b"
    then obtain a b where e: "c # s = a @ sub @ b" by blast
    show "Contains (c # s) sub"
    proof (cases a)
      case Nil
      with e have "HasPrefix (c # s) sub" by (auto simp: HasPrefix_iff)
      then show ?thesis by simp
    next
      case (Cons x xs)
      with e "2.IH" show ?thesis by auto
    qed
  qed
qed auto

lemma Contains_single: "Contains s [c] \<longleftrightarrow> c \<in> set s"
  unfolding Contains_iff by (metis append_Cons append_Nil in_set_conv_decomp)

subsection \<open>Splitting and joining\<close>

fun Split_char :: "char \<Rightarrow> string \<Rightarrow> string list" where
  "Split_char c [] = [[]]"
| "Split_char c (d # s) =
     (if c = d then [] # Split_char c s
      else case Split_char c s of [] \<Rightarrow> [[d]] | w # ws \<Rightarrow> (d # w) # ws)"

fun Join :: "string list \<Rightarrow> string \<Rightarrow> string" where
  "Join [] sep = []"
| "Join [w] sep = w"
| "Join (w # ws) sep = w @ sep @ Join ws sep"

lemma Split_char_nonempty [simp]: "Split_char c s \<noteq> []"
  by (induction c s rule: Split_char.induct) (auto split: list.splits)

lemma Join_Split_char: "Join (Split_char c s) [c] = s"
proof (induction c s rule: Split_char.induct)
  case (2 c d s)
  then show ?case by (cases "Split_char c s") (auto, (metis Join.simps(2,3) append_Cons neq_Nil_conv)+)
qed simp

lemma Split_char_no_sep: "c \<notin> set s \<Longrightarrow> Split_char c s = [s]"
  by (induction c s rule: Split_char.induct) auto

lemma Split_char_append_sep:
  "c \<notin> set a \<Longrightarrow> Split_char c (a @ c # b) = a # Split_char c b"
  by (induction a) auto

lemma sep_inject:
  assumes "c \<notin> set a" and "c \<notin> set a'" and "a @ c # b = a' @ c # b'"
  shows "a = a' \<and> b = b'"
  using assms
proof (induction a arbitrary: a')
  case Nil
  then show ?case by (cases a') auto
next
  case (Cons x xs)
  then show ?case by (cases a') auto
qed

lemma Split_char_pieces: "w \<in> set (Split_char c s) \<Longrightarrow> c \<notin> set w"
  by (induction c s arbitrary: w rule: Split_char.induct) (auto split: list.splits if_splits)

text \<open>\<open>strings.Cut\<close> at a separator.\<close>

fun Cut :: "string \<Rightarrow> string \<Rightarrow> string \<times> string \<times> bool" where
  "Cut [] sep = (if sep = [] then ([], [], True) else ([], [], False))"
| "Cut (c # s) sep =
     (if HasPrefix (c # s) sep then ([], drop (length sep) (c # s), True)
      else case Cut s sep of (a, b, ok) \<Rightarrow> (c # a, b, ok))"

lemma Cut_found: "Cut s sep = (a, b, True) \<Longrightarrow> s = a @ sep @ b"
proof (induction s sep arbitrary: a b rule: Cut.induct)
  case (2 c s sep)
  then show ?case
    by (auto simp: HasPrefix_def split: if_splits prod.splits) (metis append_take_drop_id)
qed (auto split: if_splits)

lemma Cut_missing: "Cut s sep = (a, b, False) \<Longrightarrow> a = s \<and> b = [] \<and> \<not> Contains s sep"
  by (induction s sep arbitrary: a b rule: Cut.induct) (auto split: if_splits prod.splits)

subsection \<open>White space\<close>

definition ascii_spaces :: "char list" where
  "ascii_spaces = [CHR 0x09, CHR 0x0A, CHR 0x0B, CHR 0x0C, CHR 0x0D, CHR '' '']"

text \<open>The encodings of the other Unicode spaces.\<close>

definition wide_spaces :: "string list" where
  "wide_spaces =
     [[CHR 0xC2, CHR 0x85], [CHR 0xC2, CHR 0xA0], [CHR 0xE1, CHR 0x9A, CHR 0x80],
      [CHR 0xE2, CHR 0x80, CHR 0x80], [CHR 0xE2, CHR 0x80, CHR 0x81], [CHR 0xE2, CHR 0x80, CHR 0x82],
      [CHR 0xE2, CHR 0x80, CHR 0x83], [CHR 0xE2, CHR 0x80, CHR 0x84], [CHR 0xE2, CHR 0x80, CHR 0x85],
      [CHR 0xE2, CHR 0x80, CHR 0x86], [CHR 0xE2, CHR 0x80, CHR 0x87], [CHR 0xE2, CHR 0x80, CHR 0x88],
      [CHR 0xE2, CHR 0x80, CHR 0x89], [CHR 0xE2, CHR 0x80, CHR 0x8A], [CHR 0xE2, CHR 0x80, CHR 0xA8],
      [CHR 0xE2, CHR 0x80, CHR 0xA9], [CHR 0xE2, CHR 0x80, CHR 0xAF], [CHR 0xE2, CHR 0x81, CHR 0x9F],
      [CHR 0xE3, CHR 0x80, CHR 0x80]]"

text \<open>The white space a string starts with: \<open>0\<close>, or the length of its first rune.\<close>

definition space_len :: "string list \<Rightarrow> string \<Rightarrow> nat" where
  "space_len wide s =
     (case s of
        [] \<Rightarrow> 0
      | c # _ \<Rightarrow>
          if c \<in> set ascii_spaces then 1
          else case find (HasPrefix s) wide of None \<Rightarrow> 0 | Some w \<Rightarrow> length w)"

lemma space_len_le: "space_len wide s \<le> length s"
proof -
  have "length w \<le> length s" if "find (HasPrefix s) wide = Some w" for w
    using that by (auto simp: find_Some_iff HasPrefix_iff)
  then show ?thesis by (auto simp: space_len_def split: list.splits option.splits)
qed

function trim_left :: "string list \<Rightarrow> string \<Rightarrow> string" where
  "trim_left wide s =
     (if space_len wide s = 0 then s else trim_left wide (drop (space_len wide s) s))"
  by pat_completeness auto
termination
proof (relation "measure (\<lambda>(wide, s). length s)", goal_cases)
  case (2 wide s)
  then show ?case using space_len_le [of wide s] by auto
qed simp

declare trim_left.simps [simp del]

definition TrimSpace :: "string \<Rightarrow> string" where
  "TrimSpace s = rev (trim_left (map rev wide_spaces) (rev (trim_left wide_spaces s)))"

text \<open>\<open>strings.Fields\<close>: the maximal runs of bytes without white space.\<close>

function fields_acc :: "string \<Rightarrow> string \<Rightarrow> string list" where
  "fields_acc cur [] = (if cur = [] then [] else [rev cur])"
| "fields_acc cur (c # s) =
     (if space_len wide_spaces (c # s) = 0 then fields_acc (c # cur) s
      else (if cur = [] then [] else [rev cur])
           @ fields_acc [] (drop (space_len wide_spaces (c # s)) (c # s)))"
  by pat_completeness auto
termination
proof (relation "measure (\<lambda>(cur, s). length s)", goal_cases)
  case (3 cur c s)
  then show ?case using space_len_le [of wide_spaces "c # s"] by auto
qed simp_all

definition Fields :: "string \<Rightarrow> string list" where
  "Fields s = fields_acc [] s"

lemma fields_acc_nonempty: "w \<in> set (fields_acc cur s) \<Longrightarrow> w \<noteq> []"
  by (induction cur s rule: fields_acc.induct) (auto split: if_splits)

lemma Fields_nonempty: "w \<in> set (Fields s) \<Longrightarrow> w \<noteq> []"
  unfolding Fields_def by (rule fields_acc_nonempty)

subsection \<open>Case\<close>

definition upper_letters :: string where "upper_letters = ''ABCDEFGHIJKLMNOPQRSTUVWXYZ''"
definition lower_letters :: string where "lower_letters = ''abcdefghijklmnopqrstuvwxyz''"

definition to_lower_char :: "char \<Rightarrow> char" where
  "to_lower_char c = (case map_of (zip upper_letters lower_letters) c of None \<Rightarrow> c | Some d \<Rightarrow> d)"

definition to_upper_char :: "char \<Rightarrow> char" where
  "to_upper_char c = (case map_of (zip lower_letters upper_letters) c of None \<Rightarrow> c | Some d \<Rightarrow> d)"

definition ToLower :: "string \<Rightarrow> string" where "ToLower s = map to_lower_char s"
definition ToUpper :: "string \<Rightarrow> string" where "ToUpper s = map to_upper_char s"

definition EqualFold :: "string \<Rightarrow> string \<Rightarrow> bool" where
  "EqualFold s t \<longleftrightarrow> ToLower s = ToLower t"

lemma EqualFold_refl [simp]: "EqualFold s s"
  by (simp add: EqualFold_def)

lemma EqualFold_sym: "EqualFold s t \<longleftrightarrow> EqualFold t s"
  by (auto simp: EqualFold_def)

lemma EqualFold_trans: "EqualFold s t \<Longrightarrow> EqualFold t u \<Longrightarrow> EqualFold s u"
  by (simp add: EqualFold_def)

subsection \<open>Decimal integers\<close>

function decimal_digits :: "int \<Rightarrow> string" where
  "decimal_digits n = (if n < 10 then [digit_char n] else decimal_digits (n div 10) @ [digit_char (n mod 10)])"
  by pat_completeness auto
termination by (relation "measure nat") auto

declare decimal_digits.simps [simp del]

text \<open>\<open>%d\<close> and \<open>strconv.Itoa\<close>.\<close>

definition itoa :: "int \<Rightarrow> string" where
  "itoa n = (if n < 0 then CHR ''-'' # decimal_digits (- n) else decimal_digits n)"

subsection \<open>Runes\<close>

definition cont :: "char \<Rightarrow> bool" where
  "cont c \<longleftrightarrow> CHR 0x80 \<le> c \<and> c \<le> CHR 0xBF"

text \<open>The bytes of the first rune: what \<open>utf8.DecodeRuneInString\<close> consumes.\<close>

definition rune_len :: "string \<Rightarrow> nat" where
  "rune_len s =
     (case s of
        a # b # c # d # _ \<Rightarrow>
          if CHR 0xF0 \<le> a \<and> a \<le> CHR 0xF4 then
            (if (if a = CHR 0xF0 then CHR 0x90 else CHR 0x80) \<le> b
                \<and> b \<le> (if a = CHR 0xF4 then CHR 0x8F else CHR 0xBF) \<and> cont c \<and> cont d then 4 else 1)
          else if CHR 0xE0 \<le> a \<and> a \<le> CHR 0xEF then
            (if (if a = CHR 0xE0 then CHR 0xA0 else CHR 0x80) \<le> b
                \<and> b \<le> (if a = CHR 0xED then CHR 0x9F else CHR 0xBF) \<and> cont c then 3 else 1)
          else if CHR 0xC2 \<le> a \<and> a \<le> CHR 0xDF then (if cont b then 2 else 1)
          else 1
      | [a, b, c] \<Rightarrow>
          if CHR 0xE0 \<le> a \<and> a \<le> CHR 0xEF then
            (if (if a = CHR 0xE0 then CHR 0xA0 else CHR 0x80) \<le> b
                \<and> b \<le> (if a = CHR 0xED then CHR 0x9F else CHR 0xBF) \<and> cont c then 3 else 1)
          else if CHR 0xC2 \<le> a \<and> a \<le> CHR 0xDF then (if cont b then 2 else 1)
          else 1
      | [a, b] \<Rightarrow> if CHR 0xC2 \<le> a \<and> a \<le> CHR 0xDF then (if cont b then 2 else 1) else 1
      | [a] \<Rightarrow> 1
      | [] \<Rightarrow> 0)"

lemma rune_len_bounds: "s \<noteq> [] \<Longrightarrow> 1 \<le> rune_len s \<and> rune_len s \<le> length s"
  by (auto simp: rune_len_def split: list.splits)

function rune_split :: "string \<Rightarrow> string list" where
  "rune_split [] = []"
| "rune_split (c # s) = take (rune_len (c # s)) (c # s) # rune_split (drop (rune_len (c # s)) (c # s))"
  by pat_completeness auto
termination
proof (relation "measure length", goal_cases)
  case (2 c s)
  then show ?case using rune_len_bounds [of "c # s"] by auto
qed simp

lemma concat_rune_split: "concat (rune_split s) = s"
  by (induction s rule: rune_split.induct) simp_all

lemma rune_split_pieces: "w \<in> set (rune_split s) \<Longrightarrow> w \<noteq> []"
proof (induction s rule: rune_split.induct)
  case (2 c s)
  then show ?case using rune_len_bounds [of "c # s"] by auto
qed simp

subsection \<open>Slash-separated paths\<close>

fun clean_segs :: "bool \<Rightarrow> string list \<Rightarrow> string list \<Rightarrow> string list" where
  "clean_segs rooted st [] = rev st"
| "clean_segs rooted st (w # ws) =
     (if w = [] \<or> w = ''.'' then clean_segs rooted st ws
      else if w = ''..'' then
        (case st of
           [] \<Rightarrow> if rooted then clean_segs rooted [] ws else clean_segs rooted [''..''] ws
         | seg # st' \<Rightarrow> if seg = ''..'' then clean_segs rooted (''..'' # st) ws
                       else clean_segs rooted st' ws)
      else clean_segs rooted (w # st) ws)"

definition path_Clean :: "string \<Rightarrow> string" where
  "path_Clean p =
     (let rooted = HasPrefix p ''/'';
          body = Join (clean_segs rooted [] (Split_char CHR ''/'' p)) ''/''
      in if rooted then CHR ''/'' # body else if body = [] then ''.'' else body)"

definition path_Dir :: "string \<Rightarrow> string" where
  "path_Dir p = path_Clean (rev (dropWhile (\<lambda>c. c \<noteq> CHR ''/'') (rev p)))"

lemma Split_Join:
  assumes "ws \<noteq> []" and "\<forall>w \<in> set ws. c \<notin> set w"
  shows "Split_char c (Join ws [c]) = ws"
  using assms
proof (induction ws "[c]" rule: Join.induct)
  case (3 w v vs)
  then show ?case using Split_char_append_sep [of c w "Join (v # vs) [c]"] by simp
qed (auto simp: Split_char_no_sep)

definition plain_seg :: "string \<Rightarrow> bool" where
  "plain_seg w \<longleftrightarrow> w \<noteq> [] \<and> w \<noteq> ''.'' \<and> w \<noteq> ''..'' \<and> CHR ''/'' \<notin> set w"

text \<open>A relative path cleans to some climbs followed by plain segments.\<close>

lemma clean_segs_shape:
  assumes "\<forall>w \<in> set ws. CHR ''/'' \<notin> set w" and "list_all plain_seg ns"
  shows "\<exists>m' ns'. clean_segs False (rev ns @ replicate m ''..'') ws = replicate m' ''..'' @ ns'
       \<and> list_all plain_seg ns'"
  using assms
proof (induction ws arbitrary: ns m)
  case Nil
  have "clean_segs False (rev ns @ replicate m ''..'') [] = replicate m ''..'' @ ns" by simp
  with Nil(2) show ?case by blast
next
  case (Cons w ws)
  let ?st = "rev ns @ replicate m ''..''"
  from Cons.prems(1) have ws: "\<forall>w \<in> set ws. CHR ''/'' \<notin> set w" by simp
  consider "w = [] \<or> w = ''.''" | "w = ''..''" | "plain_seg w"
    using Cons.prems(1) by (auto simp: plain_seg_def)
  then show ?case
  proof cases
    case 1
    then show ?thesis using Cons.IH [OF ws Cons.prems(2), of m] by auto
  next
    case 2
    show ?thesis
    proof (cases ns rule: rev_cases)
      case Nil
      have "clean_segs False ?st (w # ws) = clean_segs False (replicate (Suc m) ''..'') ws"
        using 2 Nil by (cases m) auto
      then show ?thesis using Cons.IH [OF ws, of "[]" "Suc m"] by simp
    next
      case (snoc ns' n)
      with Cons.prems(2) have "plain_seg n" "list_all plain_seg ns'" by auto
      then have "clean_segs False ?st (w # ws) = clean_segs False (rev ns' @ replicate m ''..'') ws"
        using 2 snoc by (simp add: plain_seg_def)
      then show ?thesis using Cons.IH [OF ws \<open>list_all plain_seg ns'\<close>, of m] by simp
    qed
  next
    case 3
    then have "clean_segs False ?st (w # ws) = clean_segs False (rev (ns @ [w]) @ replicate m ''..'') ws"
      by (simp add: plain_seg_def)
    moreover have "list_all plain_seg (ns @ [w])" using 3 Cons.prems(2) by simp
    ultimately show ?thesis using Cons.IH [OF ws, of "ns @ [w]" m] by simp
  qed
qed

lemma clean_segs_plain:
  "list_all plain_seg ws \<Longrightarrow> clean_segs r st ws = rev st @ ws"
  by (induction ws arbitrary: st) (auto simp: plain_seg_def)

lemma Join_plain_nonempty: "list_all plain_seg ws \<Longrightarrow> ws \<noteq> [] \<Longrightarrow> Join ws sep \<noteq> []"
  by (induction ws sep rule: Join.induct) (auto simp: plain_seg_def)

lemma plain_no_slash: "list_all plain_seg ws \<Longrightarrow> \<forall>w \<in> set ws. CHR ''/'' \<notin> set w"
  by (auto simp: list_all_iff plain_seg_def)

lemma HasPrefix_Join_plain:
  assumes "list_all plain_seg ws" and "ws \<noteq> []" shows "\<not> HasPrefix (Join ws ''/'') ''/''"
proof -
  obtain w vs where ws: "ws = w # vs" using assms(2) by (cases ws) auto
  with assms(1) obtain c w' where "w = c # w'" "c \<noteq> CHR ''/''" by (cases w) (auto simp: plain_seg_def)
  then show ?thesis using ws by (cases vs) (auto simp: HasPrefix_def)
qed

text \<open>A path of plain segments is clean, and has these segments.\<close>

lemma path_Clean_plain:
  assumes "list_all plain_seg ws" and "ws \<noteq> []"
  shows "path_Clean (Join ws ''/'') = Join ws ''/''"
  using Split_Join [OF assms(2) plain_no_slash [OF assms(1)]] HasPrefix_Join_plain [OF assms]
    Join_plain_nonempty [OF assms, of "''/''"] assms(1)
  by (simp add: path_Clean_def clean_segs_plain)

text \<open>What the cleaned form of a relative path can be.\<close>

lemma path_Clean_relative:
  assumes "\<not> HasPrefix p ''/''"
  obtains "path_Clean p = ''.''" | "path_Clean p = ''..''" | "HasPrefix (path_Clean p) ''../''"
    | ws where "list_all plain_seg ws" "ws \<noteq> []" "path_Clean p = Join ws ''/''"
proof -
  from clean_segs_shape [of "Split_char CHR ''/'' p" "[]" 0] obtain m ns where
    s: "clean_segs False [] (Split_char CHR ''/'' p) = replicate m ''..'' @ ns" "list_all plain_seg ns"
    by (auto dest: Split_char_pieces)
  show thesis
  proof (cases m)
    case 0
    show thesis
    proof (cases ns)
      case Nil
      with 0 s assms have "path_Clean p = ''.''" by (simp add: path_Clean_def)
      then show thesis by (rule that(1))
    next
      case (Cons a list)
      with 0 s assms have "path_Clean p = Join ns ''/''"
        using Join_plain_nonempty [OF s(2), of "''/''"] by (simp add: path_Clean_def)
      with s(2) Cons show thesis by (intro that(4) [of ns]) simp_all
    qed
  next
    case (Suc n)
    then obtain vs where vs: "replicate m ''..'' @ ns = ''..'' # vs" by simp
    show thesis
    proof (cases vs)
      case Nil
      with vs s assms have "path_Clean p = ''..''" by (simp add: path_Clean_def)
      then show thesis by (rule that(2))
    next
      case (Cons a list)
      with vs s assms have "path_Clean p = ''..'' @ ''/'' @ Join vs ''/''" by (simp add: path_Clean_def)
      then have "HasPrefix (path_Clean p) ''../''" by (simp add: HasPrefix_def)
      then show thesis by (rule that(3))
    qed
  qed
qed

subsection \<open>Printable ASCII text\<close>

definition graph_char :: "char \<Rightarrow> bool" where
  "graph_char c \<longleftrightarrow> CHR 0x21 \<le> c \<and> c \<le> CHR 0x7E"

definition ascii_char :: "char \<Rightarrow> bool" where
  "ascii_char c \<longleftrightarrow> c \<le> CHR 0x7F"

lemma graph_not_space: "graph_char c \<Longrightarrow> c \<notin> set ascii_spaces"
proof -
  have "list_all (\<lambda>c. \<not> graph_char c) ascii_spaces" by code_simp
  then show "graph_char c \<Longrightarrow> c \<notin> set ascii_spaces" by (auto simp: list_all_iff)
qed

lemma graph_not_wide:
  assumes "graph_char c" and "wide = wide_spaces \<or> wide = map rev wide_spaces"
  shows "find (HasPrefix (c # s)) wide = None"
proof -
  have h: "list_all (\<lambda>w. w \<noteq> [] \<and> \<not> graph_char (hd w)) wide_spaces"
    "list_all (\<lambda>w. w \<noteq> [] \<and> \<not> graph_char (hd w)) (map rev wide_spaces)" by code_simp+
  have "\<not> HasPrefix (c # s) w" if "w \<noteq> []" "\<not> graph_char (hd w)" for w
    using that assms(1) by (cases w) (auto simp: HasPrefix_def)
  with h assms(2) show ?thesis by (auto simp: find_None_iff list_all_iff)
qed

lemma trim_left_graph:
  "graph_char c \<Longrightarrow> wide = wide_spaces \<or> wide = map rev wide_spaces \<Longrightarrow> trim_left wide (c # s) = c # s"
  by (subst trim_left.simps) (auto simp: space_len_def graph_not_space graph_not_wide)

lemma trim_left_space: "c \<in> set ascii_spaces \<Longrightarrow> trim_left wide (c # s) = trim_left wide s"
  by (subst trim_left.simps) (simp add: space_len_def)

lemma TrimSpace_graph:
  assumes "graph_char c" and "c # s = t @ [d]" and "graph_char d"
  shows "TrimSpace (c # s) = c # s"
proof -
  have "trim_left wide_spaces (c # s) = c # s" using assms(1) by (simp add: trim_left_graph)
  moreover have "trim_left (map rev wide_spaces) (rev (c # s)) = rev (c # s)"
    using assms(2,3) by (metis rev.simps(2) rev_append append_Cons append_Nil trim_left_graph rev_eq_Cons_iff)
  ultimately show ?thesis by (simp add: TrimSpace_def)
qed

lemma TrimSpace_leading_space: "c \<in> set ascii_spaces \<Longrightarrow> TrimSpace (c # s) = TrimSpace s"
  by (simp add: TrimSpace_def trim_left_space)

lemma ascii_rune_len: "ascii_char c \<Longrightarrow> rune_len (c # s) = 1"
proof -
  assume "ascii_char c"
  then have "\<not> CHR 0xC2 \<le> c" "\<not> CHR 0xE0 \<le> c" "\<not> CHR 0xF0 \<le> c"
    by (auto simp: ascii_char_def less_eq_char_def)
  then show ?thesis by (auto simp: rune_len_def split: list.split)
qed

lemma rune_split_ascii: "list_all ascii_char s \<Longrightarrow> rune_split s = map (\<lambda>c. [c]) s"
  by (induction s) (simp_all add: ascii_rune_len rune_split.simps)

end
