(* ===== verification/BlobKey.thy ===== *)
theory BlobKey
  imports GoStrings
begin

text \<open>
  Blob key components, \<open>internal/blob/key.go\<close>, and the lock object key built from them in
  \<open>internal/blob/locks/store.go\<close>. The digest is a parameter \<open>sha\<close>: the hexadecimal SHA-256 of
  a string. Nothing is assumed of it but its shape (64 hexadecimal digits), so the
  injectivity statements name the only way two names can share a key: equal digests.
\<close>

definition slugHashLen :: nat where "slugHashLen = 32"

definition digestSep :: string where "digestSep = ''__''"

definition passthrough_char :: "char \<Rightarrow> bool" where
  "passthrough_char r \<longleftrightarrow>
     (CHR ''a'' \<le> r \<and> r \<le> CHR ''z'') \<or> (CHR ''A'' \<le> r \<and> r \<le> CHR ''Z'')
     \<or> (CHR ''0'' \<le> r \<and> r \<le> CHR ''9'') \<or> r = CHR ''-''"

text \<open>A byte outside ASCII belongs to a rune outside the set, so the test is per byte.\<close>

definition isPassthrough :: "string \<Rightarrow> bool" where
  "isPassthrough s = list_all passthrough_char s"

text \<open>
  One step of the rune loop: a rune of one safe byte is written, any other rune becomes
  one underscore.
\<close>

definition sanitize_rune :: "string \<Rightarrow> char" where
  "sanitize_rune r =
     (case r of [c] \<Rightarrow> if passthrough_char c \<or> c = CHR ''_'' then c else CHR ''_'' | _ \<Rightarrow> CHR ''_'')"

definition sanitizeComponent :: "string \<Rightarrow> string \<times> bool" where
  "sanitizeComponent s =
     (let rs = rune_split s in
      (map sanitize_rune rs, list_ex (\<lambda>r. [sanitize_rune r] \<noteq> r) rs))"

definition shortHash :: "(string \<Rightarrow> string) \<Rightarrow> string \<Rightarrow> string" where
  "shortHash sha s = take slugHashLen (sha s)"

definition passthroughOrDigest :: "(string \<Rightarrow> string) \<Rightarrow> string \<Rightarrow> string" where
  "passthroughOrDigest sha s =
     (if s = '''' then ''key''
      else if isPassthrough s then s
      else let sanitised = fst (sanitizeComponent s);
               sanitised = (if list_all (\<lambda>c. c = CHR ''_'') sanitised then ''key'' else sanitised)
           in sanitised @ digestSep @ shortHash sha s)"

definition SlugComponent :: "(string \<Rightarrow> string) \<Rightarrow> string \<Rightarrow> string \<Rightarrow> string" where
  "SlugComponent sha s fallback =
     (if s = '''' then passthroughOrDigest sha fallback else passthroughOrDigest sha s)"

text \<open>\<open>Store.key\<close> of the lock store.\<close>

definition lock_key :: "(string \<Rightarrow> string) \<Rightarrow> string \<Rightarrow> string \<Rightarrow> string" where
  "lock_key sha project stack =
     ''locks/'' @ SlugComponent sha project ''project'' @ ''/''
     @ SlugComponent sha stack ''stack'' @ ''.json''"

subsection \<open>Shape of a slug\<close>

definition hex_digits :: string where "hex_digits = ''0123456789abcdef''"

text \<open>The shape of a hexadecimal SHA-256 digest.\<close>

definition hex_digest :: "(string \<Rightarrow> string) \<Rightarrow> bool" where
  "hex_digest sha \<longleftrightarrow> (\<forall>s. length (sha s) = 64 \<and> set (sha s) \<subseteq> set hex_digits)"

definition slug_char :: "char \<Rightarrow> bool" where
  "slug_char c \<longleftrightarrow> passthrough_char c \<or> c = CHR ''_''"

lemma passthrough_not_underscore [simp]: "\<not> passthrough_char CHR ''_''"
  by code_simp

lemma passthrough_not_slash [simp]: "\<not> passthrough_char CHR ''/''"
  by code_simp

lemma slug_char_slash [simp]: "\<not> slug_char CHR ''/''"
  by (simp add: slug_char_def)

lemma sanitize_rune_slug: "slug_char (sanitize_rune r)"
  by (auto simp: sanitize_rune_def slug_char_def split: list.splits)

lemma hex_slug: "c \<in> set hex_digits \<Longrightarrow> slug_char c"
proof -
  have "list_all slug_char hex_digits" by code_simp
  then show "c \<in> set hex_digits \<Longrightarrow> slug_char c" by (simp add: list_all_iff)
qed

lemma shortHash_length: "hex_digest sha \<Longrightarrow> length (shortHash sha s) = 32"
  by (simp add: hex_digest_def shortHash_def slugHashLen_def)

lemma shortHash_slug: "hex_digest sha \<Longrightarrow> list_all slug_char (shortHash sha s)"
  by (auto simp: hex_digest_def shortHash_def list_all_iff intro!: hex_slug dest: in_set_takeD)

lemma passthroughOrDigest_slug:
  assumes "hex_digest sha"
  shows "list_all slug_char (passthroughOrDigest sha s)" and "passthroughOrDigest sha s \<noteq> ''''"
proof -
  have "list_all slug_char ''key''" by code_simp
  moreover have "isPassthrough s \<Longrightarrow> list_all slug_char s"
    by (auto simp: isPassthrough_def list_all_iff slug_char_def)
  ultimately show "list_all slug_char (passthroughOrDigest sha s)"
    using shortHash_slug [OF assms, of s]
    by (auto simp: passthroughOrDigest_def Let_def sanitizeComponent_def digestSep_def list_all_iff
        sanitize_rune_slug) (auto simp: slug_char_def)
  show "passthroughOrDigest sha s \<noteq> ''''"
    by (auto simp: passthroughOrDigest_def Let_def digestSep_def)
qed

lemma SlugComponent_slug:
  assumes "hex_digest sha"
  shows "list_all slug_char (SlugComponent sha s fb)" and "SlugComponent sha s fb \<noteq> ''''"
  using passthroughOrDigest_slug [OF assms] by (simp_all add: SlugComponent_def)

lemma isPassthrough_no_underscore: "isPassthrough s \<Longrightarrow> CHR ''_'' \<notin> set s"
  by (auto simp: isPassthrough_def list_all_iff)

lemma append_same_length:
  "a @ b = c @ d \<Longrightarrow> length b = length d \<Longrightarrow> b = d"
  by simp

text \<open>Two different names with one slug have one digest, and neither is used verbatim.\<close>

lemma passthroughOrDigest_collision:
  assumes h: "hex_digest sha" and e: "passthroughOrDigest sha s = passthroughOrDigest sha t"
    and ne: "s \<noteq> t" "s \<noteq> ''''" "t \<noteq> ''''"
  shows "\<not> isPassthrough s \<and> \<not> isPassthrough t \<and> shortHash sha s = shortHash sha t"
proof -
  have us: "CHR ''_'' \<in> set (passthroughOrDigest sha u)" if "u \<noteq> ''''" "\<not> isPassthrough u" for u
    using that by (simp add: passthroughOrDigest_def Let_def digestSep_def)
  have id: "passthroughOrDigest sha u = u" if "u \<noteq> ''''" "isPassthrough u" for u
    using that by (simp add: passthroughOrDigest_def)
  have "\<not> isPassthrough s" "\<not> isPassthrough t"
    using us [of s] us [of t] id [of s] id [of t] e ne isPassthrough_no_underscore by metis+
  then obtain a b where "passthroughOrDigest sha s = (a @ digestSep) @ shortHash sha s"
    "passthroughOrDigest sha t = (b @ digestSep) @ shortHash sha t"
    using ne by (simp add: passthroughOrDigest_def Let_def)
  with e have "(a @ digestSep) @ shortHash sha s = (b @ digestSep) @ shortHash sha t" by simp
  from append_same_length [OF this] shortHash_length [OF h] have "shortHash sha s = shortHash sha t" by simp
  with \<open>\<not> isPassthrough s\<close> \<open>\<not> isPassthrough t\<close> show ?thesis by simp
qed

lemma lock_key_slugs:
  assumes h: "hex_digest sha" and e: "lock_key sha p s = lock_key sha p' s'"
  shows "SlugComponent sha p ''project'' = SlugComponent sha p' ''project''"
    and "SlugComponent sha s ''stack'' = SlugComponent sha s' ''stack''"
proof -
  let ?P = "SlugComponent sha p ''project''" and ?P' = "SlugComponent sha p' ''project''"
  let ?S = "SlugComponent sha s ''stack''" and ?S' = "SlugComponent sha s' ''stack''"
  have ns: "CHR ''/'' \<notin> set (SlugComponent sha u fb)" for u fb
    using SlugComponent_slug(1) [OF h, of u fb] slug_char_slash by (auto simp: list_all_iff)
  have "CHR ''/'' \<notin> set ?P" "CHR ''/'' \<notin> set ?P'" by (rule ns)+
  moreover have "?P @ CHR ''/'' # ?S @ ''.json'' = ?P' @ CHR ''/'' # ?S' @ ''.json''"
    using e by (simp add: lock_key_def)
  ultimately have "?P = ?P' \<and> ?S @ ''.json'' = ?S' @ ''.json''" by (rule sep_inject)
  then show "?P = ?P'" "?S = ?S'" by simp_all
qed

subsection \<open>Property\<close>

text \<open>
  Lock objects of different stacks are different objects. If two stacks with non-empty
  names share a lock key, their names coincide or a component that had to be rewritten
  collides in its 128-bit digest: the key mapping is injective up to digest collisions,
  and names drawn from letters, digits and the hyphen never collide at all.
\<close>

theorem lock_key_injective:
  assumes "hex_digest sha"
    and "project \<noteq> ''''" and "project' \<noteq> ''''" and "stack \<noteq> ''''" and "stack' \<noteq> ''''"
    and "lock_key sha project stack = lock_key sha project' stack'"
  shows "(project = project' \<or> (\<not> isPassthrough project \<and> \<not> isPassthrough project'
             \<and> shortHash sha project = shortHash sha project'))
       \<and> (stack = stack' \<or> (\<not> isPassthrough stack \<and> \<not> isPassthrough stack'
             \<and> shortHash sha stack = shortHash sha stack'))"
  using lock_key_slugs [OF assms(1,6)] assms(2-5)
    passthroughOrDigest_collision [OF assms(1), of project project']
    passthroughOrDigest_collision [OF assms(1), of stack stack']
  by (auto simp: SlugComponent_def)

definition zero_digest :: "string \<Rightarrow> string" where
  "zero_digest s = replicate 64 CHR ''0''"

lemma hex_zero_digest: "hex_digest zero_digest"
  by (auto simp: hex_digest_def zero_digest_def hex_digits_def)

theorem lock_key_injective_witness:
  "hex_digest zero_digest
   \<and> lock_key zero_digest ''a/b'' ''prod'' = lock_key zero_digest ''a.b'' ''prod''
   \<and> shortHash zero_digest ''a/b'' = shortHash zero_digest ''a.b''"
proof -
  have e: "lock_key zero_digest ''a/b'' ''prod'' = lock_key zero_digest ''a.b'' ''prod''" by code_simp
  from lock_key_injective [OF hex_zero_digest _ _ _ _ e] e hex_zero_digest show ?thesis by simp
qed

end
