(* ===== verification/BlobStore.thy ===== *)
theory BlobStore
  imports BlobKey
begin

text \<open>
  The storage interface of \<open>internal/blob\<close>: \<open>blob.go\<close> (error sentinels), \<open>store.go\<close> (the
  \<open>Store\<close> interface and its metadata) and \<open>cas.go\<close> (the conditional-write probe).

  A \<open>Store\<close> is a Go interface value, so it is a record of the five methods over a state type
  \<open>'s\<close>: what the bucket holds, and also what other processes are about to do to it, since
  another process may act between any two calls. Object contents are a type \<open>'c\<close>.
  The locale \<open>cas_store\<close> states what the clients of the interface rely on.
\<close>

subsection \<open>Errors, metadata, the interface\<close>

datatype KeyErr = KeyEmpty | KeyEscapesRoot | KeyReserved

text \<open>
  \<open>ErrIO\<close> stands for every other error of an adapter; its argument names the failing call.
\<close>

datatype BlobErr = ErrNotFound | ErrPreconditionFailed | ErrBadKey KeyErr | ErrIO string

record Metadata =
  md_ETag :: string
  md_LastModified :: int
  md_Size :: int

record ListedObject =
  lo_Key :: string
  lo_Version :: string
  lo_LastModified :: int
  lo_Size :: int

record ('s, 'c) Store =
  s_Get :: "string \<Rightarrow> 's \<Rightarrow> 's \<times> (BlobErr + 'c \<times> Metadata)"
  s_Put :: "string \<Rightarrow> 'c \<Rightarrow> 's \<Rightarrow> 's \<times> (BlobErr + Metadata)"
  s_PutIfMatch :: "string \<Rightarrow> 'c \<Rightarrow> string \<Rightarrow> 's \<Rightarrow> 's \<times> (BlobErr + Metadata)"
  s_Delete :: "string \<Rightarrow> 's \<Rightarrow> 's \<times> BlobErr option"
  s_List :: "string \<Rightarrow> 's \<Rightarrow> 's \<times> (BlobErr + string list)"

subsection \<open>The conditional-write probe\<close>

text \<open>
  \<open>Wrapped\<close> is an error the code wraps with a probe message: it is not
  \<open>ErrConditionalWritesUnsupported\<close> under \<open>errors.Is\<close>. \<open>Unsupported\<close> is that sentinel, bare or wrapped.
\<close>

datatype ProbeStage = ProbeRand | ProbeCreate | ProbeRecreate | ProbeReadBack | ProbeUpdate | ProbeStale

datatype ProbeErr = Unsupported | Wrapped ProbeStage "BlobErr option"

definition casProbePrefix :: string where "casProbePrefix = ''.cas-probe/''"

record CASProbe =
  cp_probed :: bool
  cp_err :: "ProbeErr option"

text \<open>
  \<open>probeConditionalWrites\<close>: \<open>probe_update\<close> is its second half (If-Match), \<open>probe_steps\<close> the calls in
  their order. \<open>rnd\<close> is the hexadecimal of the eight
  random bytes, \<open>None\<close> when the random source fails; \<open>c1\<close> to \<open>c4\<close> are the four probe bodies.
  The deferred delete runs on every path once the key is chosen.
\<close>

definition probe_update ::
  "('s, 'c) Store \<Rightarrow> string \<Rightarrow> 'c \<Rightarrow> 'c \<Rightarrow> string \<Rightarrow> 's \<Rightarrow> 's \<times> ProbeErr option" where
  "probe_update B key c3 c4 etag s3 =
     (if etag = '''' then (s3, Some Unsupported)
      else case s_PutIfMatch B key c3 etag s3 of
             (s4, Inl e4) \<Rightarrow> (s4, Some (Wrapped ProbeUpdate (Some e4)))
           | (s4, Inr updated) \<Rightarrow>
               if md_ETag updated = etag then (s4, Some Unsupported)
               else case s_PutIfMatch B key c4 etag s4 of
                      (s5, Inr _) \<Rightarrow> (s5, Some Unsupported)
                    | (s5, Inl e5) \<Rightarrow>
                        if e5 \<noteq> ErrPreconditionFailed then (s5, Some (Wrapped ProbeStale (Some e5)))
                        else (s5, None))"

definition probe_steps ::
  "('s, 'c) Store \<Rightarrow> string \<Rightarrow> 'c \<Rightarrow> 'c \<Rightarrow> 'c \<Rightarrow> 'c \<Rightarrow> 's \<Rightarrow> 's \<times> ProbeErr option" where
  "probe_steps B key c1 c2 c3 c4 s0 =
     (case s_PutIfMatch B key c1 '''' s0 of
        (s1, Inl e) \<Rightarrow> (s1, Some (Wrapped ProbeCreate (Some e)))
      | (s1, Inr first) \<Rightarrow>
          (case s_PutIfMatch B key c2 '''' s1 of
             (s2, Inr _) \<Rightarrow> (s2, Some Unsupported)
           | (s2, Inl e2) \<Rightarrow>
               if e2 \<noteq> ErrPreconditionFailed then (s2, Some (Wrapped ProbeRecreate (Some e2)))
               else if md_ETag first \<noteq> '''' then probe_update B key c3 c4 (md_ETag first) s2
               else case s_Get B key s2 of
                      (s3, Inl e3) \<Rightarrow> (s3, Some (Wrapped ProbeReadBack (Some e3)))
                    | (s3, Inr (_, md)) \<Rightarrow> probe_update B key c3 c4 (md_ETag md) s3))"

definition probeConditionalWrites ::
  "('s, 'c) Store \<Rightarrow> string option \<Rightarrow> 'c \<times> 'c \<times> 'c \<times> 'c \<Rightarrow> 's \<Rightarrow> 's \<times> ProbeErr option" where
  "probeConditionalWrites B rnd bodies s =
     (case rnd of
        None \<Rightarrow> (s, Some (Wrapped ProbeRand None))
      | Some sfx \<Rightarrow>
          let key = casProbePrefix @ sfx;
              (c1, c2, c3, c4) = bodies;
              (s', err) = probe_steps B key c1 c2 c3 c4 s;
              (s'', _) = s_Delete B key s'
          in (s'', err))"

text \<open>\<open>CASProbe.Ensure\<close>: only the definitive verdicts are cached.\<close>

definition Ensure ::
  "('s, 'c) Store \<Rightarrow> string option \<Rightarrow> 'c \<times> 'c \<times> 'c \<times> 'c \<Rightarrow> CASProbe \<Rightarrow> 's
     \<Rightarrow> 's \<times> CASProbe \<times> ProbeErr option" where
  "Ensure B rnd bodies p s =
     (if cp_probed p then (s, p, cp_err p)
      else let (s', err) = probeConditionalWrites B rnd bodies s in
           if err = None \<or> err = Some Unsupported
           then (s', \<lparr>cp_probed = True, cp_err = err\<rparr>, err)
           else (s', p, err))"

lemma Ensure_cached: "cp_probed p \<Longrightarrow> Ensure B rnd bodies p s = (s, p, cp_err p)"
  by (simp add: Ensure_def)

lemma Ensure_verdict:
  assumes "Ensure B rnd bodies p s = (s', p', err)" and "\<not> cp_probed p"
  shows "(cp_probed p' \<longrightarrow> err = cp_err p' \<and> (err = None \<or> err = Some Unsupported))
       \<and> (\<not> cp_probed p' \<longrightarrow> p' = p)"
  using assms by (auto simp: Ensure_def Let_def split: if_splits prod.splits)

subsection \<open>What clients rely on\<close>

text \<open>
  The contract of a store with working conditional writes. \<open>obj s k\<close> is the version and the content
  of the object at key \<open>k\<close>; \<open>evolves\<close> relates a state to the states the bucket may reach from
  it, through this process or another. A call may be preceded by other processes' steps, so a
  successful conditional write is described at the state \<open>t\<close> it met. The last law says that a
  version is never reused for other content, which makes a read followed by a conditional
  write atomic.
\<close>

locale cas_store =
  fixes B :: "('s, 'c) Store"
    and obj :: "'s \<Rightarrow> string \<Rightarrow> (string \<times> 'c) option"
    and inv :: "'s \<Rightarrow> bool"
    and evolves :: "'s \<Rightarrow> 's \<Rightarrow> bool"
    and keys_ok :: "string \<Rightarrow> bool"
  assumes evolves_refl: "evolves s s"
    and evolves_trans: "evolves s t \<Longrightarrow> evolves t u \<Longrightarrow> evolves s u"
    and get_law: "inv s \<Longrightarrow> keys_ok k \<Longrightarrow> s_Get B k s = (s', r) \<Longrightarrow>
        inv s' \<and> evolves s s' \<and>
        (case r of Inr (c, md) \<Rightarrow> obj s' k = Some (md_ETag md, c)
         | Inl e \<Rightarrow> e = ErrNotFound \<longrightarrow> obj s' k = None)"
    and put_law: "inv s \<Longrightarrow> keys_ok k \<Longrightarrow> s_PutIfMatch B k c m s = (s', w) \<Longrightarrow>
        inv s' \<and> evolves s s' \<and>
        (case w of Inl _ \<Rightarrow> True
         | Inr md \<Rightarrow> \<exists>t. evolves s t \<and> inv t \<and> evolves t s'
             \<and> (if m = '''' then obj t k = None else \<exists>c'. obj t k = Some (m, c'))
             \<and> obj s' = (obj t)(k \<mapsto> (md_ETag md, c)))"
    and delete_law: "inv s \<Longrightarrow> keys_ok k \<Longrightarrow> s_Delete B k s = (s', x) \<Longrightarrow> inv s' \<and> evolves s s'"
    and list_law: "inv s \<Longrightarrow> s_List B k s = (s', y) \<Longrightarrow> inv s' \<and> evolves s s'"
    and version_law: "inv s \<Longrightarrow> evolves s t \<Longrightarrow> obj s k = Some (v, c) \<Longrightarrow> obj t k = Some (v, c')
        \<Longrightarrow> c' = c"
    and version_nonempty: "inv s \<Longrightarrow> obj s k \<noteq> Some ('''', c)"
begin

text \<open>
  Read, compute, conditionally write: if the write succeeds, the object still was what was read.
\<close>

lemma get_then_put:
  assumes "inv s" and "keys_ok k" and "s_Get B k s = (s1, Inr (c, md))"
    and "s_PutIfMatch B k c' (md_ETag md) s1 = (s2, Inr md')"
  obtains t where "evolves s t" and "inv t" and "evolves t s2" and "obj t k = Some (md_ETag md, c)"
    and "obj s2 = (obj t)(k \<mapsto> (md_ETag md', c'))"
proof -
  from get_law [OF assms(1-3)] have s1: "inv s1" "evolves s s1" "obj s1 k = Some (md_ETag md, c)" by auto
  have ne: "md_ETag md \<noteq> ''''" using version_nonempty [OF s1(1), of k c] s1(3) by auto
  from put_law [OF s1(1) assms(2,4)] ne obtain t c'' where t: "evolves s1 t" "inv t"
    "obj t k = Some (md_ETag md, c'')" "obj s2 = (obj t)(k \<mapsto> (md_ETag md', c'))" "evolves t s2" by auto
  from version_law [OF s1(1) t(1) s1(3) t(3)] have "c'' = c" .
  with that [of t] t s1(2) evolves_trans show thesis by blast
qed

lemma ensure_keeps:
  assumes "inv s" and "\<forall>sfx. rnd = Some sfx \<longrightarrow> keys_ok (casProbePrefix @ sfx)"
    and "Ensure B rnd bodies p s = (s', p', err)"
  shows "inv s' \<and> evolves s s'"
proof (cases "cp_probed p")
  case True
  with assms show ?thesis by (simp add: Ensure_def evolves_refl)
next
  case False
  define P where "P t \<longleftrightarrow> inv t \<and> evolves s t" for t
  have put: "s_PutIfMatch B k c m t = (t', r) \<Longrightarrow> keys_ok k \<Longrightarrow> P t \<Longrightarrow> P t'" for t t' k c m r
    using put_law [of t k c m t' r] evolves_trans unfolding P_def by blast
  have get: "s_Get B k t = (t', r) \<Longrightarrow> keys_ok k \<Longrightarrow> P t \<Longrightarrow> P t'" for t t' k r
    using get_law [of t k t' r] evolves_trans unfolding P_def by blast
  have del: "s_Delete B k t = (t', r) \<Longrightarrow> keys_ok k \<Longrightarrow> P t \<Longrightarrow> P t'" for t t' k r
    using delete_law [of t k t' r] evolves_trans unfolding P_def by blast
  have base: "P s" using assms(1) evolves_refl unfolding P_def by blast
  have steps: "P (fst (probe_steps B k c1 c2 c3 c4 s))" if k: "keys_ok k" for k c1 c2 c3 c4
  proof -
    have upd: "P (fst (probe_update B k c3 c4 etag t))" if t: "P t" for etag t
    proof -
      obtain s4 r4 where 4: "s_PutIfMatch B k c3 etag t = (s4, r4)" by fastforce
      obtain s5 r5 where 5: "s_PutIfMatch B k c4 etag s4 = (s5, r5)" by fastforce
      have "P s4" "P s5" using put [OF 4 k t] put [OF 5 k] by blast+
      with t show ?thesis by (simp add: probe_update_def 4 5 split: sum.split)
    qed
    obtain s1 r1 where 1: "s_PutIfMatch B k c1 '''' s = (s1, r1)" by fastforce
    obtain s2 r2 where 2: "s_PutIfMatch B k c2 '''' s1 = (s2, r2)" by fastforce
    obtain s3 r3 where 3: "s_Get B k s2 = (s3, r3)" by fastforce
    have "P s1" "P s2" "P s3" using put [OF 1 k base] put [OF 2 k] get [OF 3 k] by blast+
    with upd show ?thesis by (simp add: probe_steps_def 1 2 3 split: sum.split prod.split)
  qed
  have "P (fst (probeConditionalWrites B rnd bodies s))"
  proof (cases rnd)
    case None
    with base show ?thesis by (simp add: probeConditionalWrites_def)
  next
    case (Some sfx)
    with assms(2) have "keys_ok (casProbePrefix @ sfx)" by simp
    with Some steps del show ?thesis
      by (cases bodies) (simp add: probeConditionalWrites_def Let_def split: prod.split, metis fst_conv)
  qed
  with False assms(3) show ?thesis
    by (auto simp: Ensure_def Let_def P_def split: prod.splits if_splits)
qed

lemma absent_then_put:
  assumes "inv s" and "keys_ok k" and "s_Get B k s = (s1, r)"
    and "s_PutIfMatch B k c' '''' s1 = (s2, Inr md')"
  obtains t where "evolves s t" and "inv t" and "evolves t s2" and "obj t k = None"
    and "obj s2 = (obj t)(k \<mapsto> (md_ETag md', c'))"
proof -
  from get_law [OF assms(1-3)] have s1: "inv s1" "evolves s s1" by auto
  from put_law [OF s1(1) assms(2,4)] obtain t where t: "evolves s1 t" "inv t"
    "obj t k = None" "obj s2 = (obj t)(k \<mapsto> (md_ETag md', c'))" "evolves t s2" by auto
  with that [of t] s1(2) evolves_trans show thesis by blast
qed

end

subsection \<open>Other processes\<close>

text \<open>
  A store other processes use too: before every call of ours, the next of their actions is run.
\<close>

definition env_step :: "'s \<times> ('s \<Rightarrow> 's) list \<Rightarrow> 's \<times> ('s \<Rightarrow> 's) list" where
  "env_step w = (case snd w of [] \<Rightarrow> w | f # fs \<Rightarrow> (f (fst w), fs))"

definition after_env :: "('s \<Rightarrow> 's \<times> 'r) \<Rightarrow> 's \<times> ('s \<Rightarrow> 's) list \<Rightarrow> ('s \<times> ('s \<Rightarrow> 's) list) \<times> 'r" where
  "after_env call w = (case env_step w of (s, fs) \<Rightarrow> case call s of (s', r) \<Rightarrow> ((s', fs), r))"

definition shared :: "('s, 'c) Store \<Rightarrow> ('s \<times> ('s \<Rightarrow> 's) list, 'c) Store" where
  "shared B =
     \<lparr>s_Get = (\<lambda>k. after_env (s_Get B k)), s_Put = (\<lambda>k c. after_env (s_Put B k c)),
      s_PutIfMatch = (\<lambda>k c m. after_env (s_PutIfMatch B k c m)),
      s_Delete = (\<lambda>k. after_env (s_Delete B k)), s_List = (\<lambda>p. after_env (s_List B p))\<rparr>"

text \<open>Actions of others that keep to the store's own rules.\<close>

definition env_ok :: "('s \<Rightarrow> bool) \<Rightarrow> ('s \<Rightarrow> 's \<Rightarrow> bool) \<Rightarrow> ('s \<Rightarrow> 's) list \<Rightarrow> bool" where
  "env_ok ok R fs \<longleftrightarrow> (\<forall>f \<in> set fs. \<forall>s. ok s \<longrightarrow> ok (f s) \<and> R s (f s))"

definition world_inv :: "('s \<Rightarrow> bool) \<Rightarrow> ('s \<Rightarrow> 's \<Rightarrow> bool) \<Rightarrow> 's \<times> ('s \<Rightarrow> 's) list \<Rightarrow> bool" where
  "world_inv ok R w \<longleftrightarrow> ok (fst w) \<and> env_ok ok R (snd w)"

definition world_evolves :: "('s \<Rightarrow> 's \<Rightarrow> bool) \<Rightarrow> 's \<times> 'e \<Rightarrow> 's \<times> 'e \<Rightarrow> bool" where
  "world_evolves R w w' = R (fst w) (fst w')"

context cas_store
begin

lemma after_env_split:
  assumes "world_inv inv evolves w" and "after_env call w = (w', r)"
  obtains s fs where "inv s" and "evolves (fst w) s" and "env_ok inv evolves fs"
    and "call s = (fst w', r)" and "snd w' = fs"
proof (cases "snd w")
  case Nil
  with assms that [of "fst w" "[]"] evolves_refl show thesis
    by (auto simp: after_env_def env_step_def world_inv_def env_ok_def split: prod.splits)
next
  case (Cons f fs)
  with assms that [of "f (fst w)" fs] show thesis
    by (auto simp: after_env_def env_step_def world_inv_def env_ok_def split: prod.splits)
qed

lemma shared_cas:
  "cas_store (shared B) (\<lambda>w. obj (fst w)) (world_inv inv evolves) (world_evolves evolves) keys_ok"
proof
  fix w w1 w2 w' :: "'s \<times> ('s \<Rightarrow> 's) list" and k c m r x y z v c' c''
  show "world_evolves evolves w w" by (simp add: world_evolves_def evolves_refl)
  show "world_evolves evolves w w1 \<Longrightarrow> world_evolves evolves w1 w2 \<Longrightarrow> world_evolves evolves w w2"
    unfolding world_evolves_def by (rule evolves_trans)
  show "world_inv inv evolves w' \<and> world_evolves evolves w w' \<and>
      (case r of Inl e \<Rightarrow> e = ErrNotFound \<longrightarrow> obj (fst w') k = None
       | Inr (c, md) \<Rightarrow> obj (fst w') k = Some (md_ETag md, c))"
    if "world_inv inv evolves w" and k: "keys_ok k" and "s_Get (shared B) k w = (w', r)"
  proof -
    from that obtain s fs where s: "inv s" "evolves (fst w) s" "env_ok inv evolves fs"
      "s_Get B k s = (fst w', r)" "snd w' = fs"
      by (auto simp: shared_def elim: after_env_split)
    from get_law [OF s(1) k s(4)] s evolves_trans show ?thesis
      by (auto simp: world_inv_def world_evolves_def)
  qed
  show "world_inv inv evolves w' \<and> world_evolves evolves w w' \<and>
      (case x of Inl _ \<Rightarrow> True
       | Inr md \<Rightarrow> \<exists>t. world_evolves evolves w t \<and> world_inv inv evolves t \<and> world_evolves evolves t w'
           \<and> (if m = '''' then obj (fst t) k = None else \<exists>c'. obj (fst t) k = Some (m, c'))
           \<and> obj (fst w') = (obj (fst t))(k \<mapsto> (md_ETag md, c)))"
    if "world_inv inv evolves w" and k: "keys_ok k" and "s_PutIfMatch (shared B) k c m w = (w', x)"
  proof -
    from that obtain s fs where s: "inv s" "evolves (fst w) s" "env_ok inv evolves fs"
      "s_PutIfMatch B k c m s = (fst w', x)" "snd w' = fs"
      by (auto simp: shared_def elim: after_env_split)
    note p = put_law [OF s(1) k s(4)]
    have 1: "world_inv inv evolves w' \<and> world_evolves evolves w w'"
      using p s evolves_trans by (auto simp: world_inv_def world_evolves_def)
    show ?thesis
    proof (cases x)
      case (Inr md)
      with p obtain t where t: "evolves s t" "inv t" "evolves t (fst w')"
        "if m = '''' then obj t k = None else \<exists>c'. obj t k = Some (m, c')"
        "obj (fst w') = (obj t)(k \<mapsto> (md_ETag md, c))" by auto
      with s(2,3) evolves_trans have "world_evolves evolves w (t, fs) \<and> world_inv inv evolves (t, fs)
          \<and> world_evolves evolves (t, fs) w'"
        by (auto simp: world_evolves_def world_inv_def)
      with t have "world_evolves evolves w (t, fs) \<and> world_inv inv evolves (t, fs)
          \<and> world_evolves evolves (t, fs) w'
          \<and> (if m = '''' then obj (fst (t, fs)) k = None else \<exists>c'. obj (fst (t, fs)) k = Some (m, c'))
          \<and> obj (fst w') = (obj (fst (t, fs)))(k \<mapsto> (md_ETag md, c))" by simp
      with 1 Inr show ?thesis by (simp only: sum.case) blast
    qed (use 1 in simp)
  qed
  show "world_inv inv evolves w' \<and> world_evolves evolves w w'"
    if "world_inv inv evolves w" and k: "keys_ok k" and "s_Delete (shared B) k w = (w', y)"
  proof -
    from that obtain s fs where s: "inv s" "evolves (fst w) s" "env_ok inv evolves fs"
      "s_Delete B k s = (fst w', y)" "snd w' = fs"
      by (auto simp: shared_def elim: after_env_split)
    from delete_law [OF s(1) k s(4)] s evolves_trans show ?thesis
      by (auto simp: world_inv_def world_evolves_def)
  qed
  show "world_inv inv evolves w' \<and> world_evolves evolves w w'"
    if "world_inv inv evolves w" and "s_List (shared B) k w = (w', z)"
  proof -
    from that obtain s fs where s: "inv s" "evolves (fst w) s" "env_ok inv evolves fs"
      "s_List B k s = (fst w', z)" "snd w' = fs"
      by (auto simp: shared_def elim: after_env_split)
    from list_law [OF s(1,4)] s evolves_trans show ?thesis
      by (auto simp: world_inv_def world_evolves_def)
  qed
  show "c'' = c'" if "world_inv inv evolves w" "world_evolves evolves w w1"
    "obj (fst w) k = Some (v, c')" "obj (fst w1) k = Some (v, c'')"
    using version_law [of "fst w" "fst w1" k v c' c''] that by (simp add: world_inv_def world_evolves_def)
  show "obj (fst w) k \<noteq> Some ('''', c')" if "world_inv inv evolves w"
    using version_nonempty that by (simp add: world_inv_def)
qed

end

end
