(* ===== verification/FileStore.thy ===== *)
theory FileStore
  imports BlobStore
begin

text \<open>
  The filesystem adapter, \<open>internal/blob/filesystem/filesystem.go\<close>.

  A bucket directory is a record: its files (path to bytes and modification time), its
  directories, the generation files (one per object, at a path derived from the SHA-256 of the
  key) and the random numbers it will draw (a draw from an exhausted source fails). The type of
  a byte is left open: contents are \<open>'b list\<close>. \<open>d_faults\<close> scripts the failures of the operating
  system: its head lists the calls that fail during the next operation. \<open>sha\<close> is the hexadecimal
  SHA-256.

  Operations that take the shard lock (everything but \<open>Get\<close> and \<open>List\<close>) run as one step. \<open>Get\<close>
  takes no lock: it is given as its two parts, the open and the version read, with room for
  another process in between.
\<close>

subsection \<open>The bucket directory\<close>

record FileInfo =
  fi_Size :: int
  fi_ModTime :: int

record 'b FileObj =
  f_data :: "'b list"
  f_mtime :: int

datatype fsop = FOpenRoot | FLock | FStat | FOpen | FReadGen | FMkdir | FTemp | FCopy | FSync | FClose
  | FRand | FWriteGen | FRename | FRemove | FRemoveGen | FWalk

record 'b Disk =
  d_files :: "(string \<times> 'b FileObj) list"
  d_dirs :: "(string \<times> FileInfo) list"
  d_gens :: "(string \<times> string) list"
  d_rands :: "string list"
  d_clock :: int
  d_faults :: "fsop list list"

type_synonym digest = "string \<Rightarrow> string"

definition fault_name :: "fsop \<Rightarrow> string" where
  "fault_name op = (case op of
     FOpenRoot \<Rightarrow> ''openroot'' | FLock \<Rightarrow> ''flock'' | FStat \<Rightarrow> ''stat'' | FOpen \<Rightarrow> ''open''
   | FReadGen \<Rightarrow> ''readgen'' | FMkdir \<Rightarrow> ''mkdir'' | FTemp \<Rightarrow> ''createtemp'' | FCopy \<Rightarrow> ''copy''
   | FSync \<Rightarrow> ''sync'' | FClose \<Rightarrow> ''close'' | FRand \<Rightarrow> ''rand'' | FWriteGen \<Rightarrow> ''writegen''
   | FRename \<Rightarrow> ''rename'' | FRemove \<Rightarrow> ''remove'' | FRemoveGen \<Rightarrow> ''removegen'' | FWalk \<Rightarrow> ''walk'')"

definition io_err :: "fsop \<Rightarrow> BlobErr" where "io_err op = ErrIO (fault_name op)"

text \<open>The faults of the next operation, taken off the script.\<close>

definition cur_faults :: "'b Disk \<Rightarrow> fsop list" where
  "cur_faults d = (case d_faults d of [] \<Rightarrow> [] | f # _ \<Rightarrow> f)"

definition begin_op :: "'b Disk \<Rightarrow> 'b Disk" where
  "begin_op d = d\<lparr>d_faults := tl (d_faults d)\<rparr>"

definition map_del :: "'k \<Rightarrow> ('k \<times> 'v) list \<Rightarrow> ('k \<times> 'v) list" where
  "map_del k m = filter (\<lambda>p. fst p \<noteq> k) m"

lemma map_of_map_del [simp]: "map_of (map_del k m) = (map_of m)(k := None)"
  by (induction m) (auto simp: map_del_def)

text \<open>\<open>Stat\<close>, \<open>MkdirAll\<close> and \<open>Remove\<close> of \<open>os.Root\<close> on the record.\<close>

definition os_Stat :: "'b Disk \<Rightarrow> string \<Rightarrow> FileInfo option" where
  "os_Stat d k =
     (case map_of (d_files d) k of
        Some f \<Rightarrow> Some \<lparr>fi_Size = int (length (f_data f)), fi_ModTime = f_mtime f\<rparr>
      | None \<Rightarrow> map_of (d_dirs d) k)"

text \<open>The directories of a path, outermost first: \<open>a/b\<close> has \<open>a\<close> and \<open>a/b\<close>.\<close>

definition path_prefixes :: "string \<Rightarrow> string list" where
  "path_prefixes p =
     (let segs = Split_char CHR ''/'' p
      in map (\<lambda>n. Join (take n segs) ''/'') [1..<Suc (length segs)])"

definition os_MkdirAll :: "'b Disk \<Rightarrow> string \<Rightarrow> 'b Disk option" where
  "os_MkdirAll d dir =
     (let ps = path_prefixes dir in
      if list_ex (\<lambda>p. map_of (d_files d) p \<noteq> None) ps then None
      else Some (d\<lparr>d_dirs := fold (\<lambda>p m. if map_of m p = None
                  then map_put p \<lparr>fi_Size = 4096, fi_ModTime = d_clock d\<rparr> m else m) ps (d_dirs d)\<rparr>))"

definition dir_empty :: "'b Disk \<Rightarrow> string \<Rightarrow> bool" where
  "dir_empty d k \<longleftrightarrow>
     list_all (\<lambda>p. \<not> HasPrefix (fst p) (k @ ''/'')) (d_files d)
     \<and> list_all (\<lambda>p. \<not> HasPrefix (fst p) (k @ ''/'')) (d_dirs d)"

text \<open>\<open>Inl True\<close> is \<open>os.ErrNotExist\<close>, \<open>Inl False\<close> another failure (a directory that is not empty).\<close>

definition os_Remove :: "'b Disk \<Rightarrow> string \<Rightarrow> bool + 'b Disk" where
  "os_Remove d k =
     (if map_of (d_files d) k \<noteq> None then Inr (d\<lparr>d_files := map_del k (d_files d)\<rparr>)
      else if map_of (d_dirs d) k \<noteq> None then
        if dir_empty d k then Inr (d\<lparr>d_dirs := map_del k (d_dirs d)\<rparr>) else Inl False
      else Inl True)"

subsection \<open>Keys\<close>

definition lockNamespace :: string where "lockNamespace = ''.reeve-locks''"
definition generationNamespace :: string where "generationNamespace = ''.reeve-generations''"
definition temporaryPrefix :: string where "temporaryPrefix = ''.reeve-tmp-''"
definition lockShardCount :: int where "lockShardCount = 256"

definition isTemporaryKey :: "string \<Rightarrow> bool" where
  "isTemporaryKey key = list_ex (\<lambda>part. HasPrefix part temporaryPrefix) (Split_char CHR ''/'' key)"

definition isInternalKey :: "string \<Rightarrow> bool" where
  "isInternalKey key \<longleftrightarrow>
     isTemporaryKey key
     \<or> list_ex (\<lambda>ns. key = ns \<or> HasPrefix key (ns @ ''/'')) [lockNamespace, generationNamespace]"

definition cleanKey :: "string \<Rightarrow> KeyErr + string" where
  "cleanKey key =
     (if TrimSpace key = '''' then Inl KeyEmpty
      else if HasPrefix key ''/'' then Inl KeyEscapesRoot
      else let k = path_Clean key in
           if k = ''..'' \<or> HasPrefix k ''../'' then Inl KeyEscapesRoot
           else if k = ''.'' then Inl KeyEmpty
           else if isInternalKey k then Inl KeyReserved
           else Inr k)"

subsection \<open>Versions\<close>

definition generationVersion :: "string \<Rightarrow> string" where
  "generationVersion generation = ''generation:'' @ generation"

definition legacyVersion :: "FileInfo \<Rightarrow> string" where
  "legacyVersion info = ''legacy:'' @ itoa (fi_Size info) @ '':'' @ itoa (fi_ModTime info)"

definition generationPathFor :: "digest \<Rightarrow> string \<Rightarrow> string" where
  "generationPathFor sha key = generationNamespace @ ''/'' @ sha key"

definition newGeneration :: "fsop list \<Rightarrow> 'b Disk \<Rightarrow> 'b Disk \<times> string option" where
  "newGeneration flt d =
     (if FRand \<in> set flt then (d, None)
      else case d_rands d of
             [] \<Rightarrow> (d, None)
           | g # rest \<Rightarrow> (d\<lparr>d_rands := rest\<rparr>, Some g))"

text \<open>\<open>Inr ''''\<close> when the object has no generation file.\<close>

definition readGeneration :: "digest \<Rightarrow> fsop list \<Rightarrow> 'b Disk \<Rightarrow> string \<Rightarrow> BlobErr + string" where
  "readGeneration sha flt d key =
     (if FReadGen \<in> set flt then Inl (io_err FReadGen)
      else case map_of (d_gens d) (generationPathFor sha key) of
             None \<Rightarrow> Inr ''''
           | Some v \<Rightarrow> if length v \<noteq> 32 then Inl (ErrIO ''invalid generation'') else Inr v)"

definition writeGeneration :: "digest \<Rightarrow> fsop list \<Rightarrow> 'b Disk \<Rightarrow> string \<Rightarrow> string \<Rightarrow> 'b Disk option" where
  "writeGeneration sha flt d key generation =
     (if FWriteGen \<in> set flt then None
      else Some (d\<lparr>d_gens := map_put (generationPathFor sha key) generation (d_gens d)\<rparr>))"

definition removeGeneration :: "digest \<Rightarrow> fsop list \<Rightarrow> 'b Disk \<Rightarrow> string \<Rightarrow> 'b Disk \<times> BlobErr option" where
  "removeGeneration sha flt d key =
     (if FRemoveGen \<in> set flt then (d, Some (io_err FRemoveGen))
      else (d\<lparr>d_gens := map_del (generationPathFor sha key) (d_gens d)\<rparr>, None))"

definition versionForInfo :: "digest \<Rightarrow> fsop list \<Rightarrow> 'b Disk \<Rightarrow> string \<Rightarrow> FileInfo \<Rightarrow> BlobErr + string" where
  "versionForInfo sha flt d key info =
     (case readGeneration sha flt d key of
        Inl e \<Rightarrow> Inl e
      | Inr generation \<Rightarrow>
          Inr (if generation \<noteq> '''' then generationVersion generation else legacyVersion info))"

definition inspectKey :: "digest \<Rightarrow> fsop list \<Rightarrow> 'b Disk \<Rightarrow> string \<Rightarrow> BlobErr + string \<times> FileInfo" where
  "inspectKey sha flt d key =
     (if FStat \<in> set flt then Inl (io_err FStat)
      else case os_Stat d key of
             None \<Rightarrow> Inl ErrNotFound
           | Some info \<Rightarrow>
               (case versionForInfo sha flt d key info of
                  Inl e \<Rightarrow> Inl e
                | Inr v \<Rightarrow> Inr (v, info)))"

subsection \<open>Operations\<close>

text \<open>
  \<open>writeAtomic\<close>: the directory, the temporary file, the generation, then the rename that
  publishes the object. A failure leaves what the completed calls did.
\<close>

definition make_dir :: "fsop list \<Rightarrow> 'b Disk \<Rightarrow> string \<Rightarrow> 'b Disk option" where
  "make_dir flt d dir =
     (if dir = ''.'' then Some d else if FMkdir \<in> set flt then None else os_MkdirAll d dir)"

definition writeAtomic ::
  "digest \<Rightarrow> fsop list \<Rightarrow> 'b Disk \<Rightarrow> string \<Rightarrow> 'b list \<Rightarrow> 'b Disk \<times> (BlobErr + Metadata)" where
  "writeAtomic sha flt d key data =
     (case make_dir flt d (path_Dir key) of
           None \<Rightarrow> (d, Inl (io_err FMkdir))
         | Some d1 \<Rightarrow>
             if FTemp \<in> set flt then (d1, Inl (io_err FTemp))
             else if FCopy \<in> set flt then (d1, Inl (io_err FCopy))
             else if FSync \<in> set flt then (d1, Inl (io_err FSync))
             else if FClose \<in> set flt then (d1, Inl (io_err FClose))
             else case newGeneration flt d1 of
                    (d2, None) \<Rightarrow> (d2, Inl (io_err FRand))
                  | (d2, Some generation) \<Rightarrow>
                      (case writeGeneration sha flt d2 key generation of
                         None \<Rightarrow> (d2, Inl (io_err FWriteGen))
                       | Some d3 \<Rightarrow>
                           if FRename \<in> set flt \<or> map_of (d_dirs d3) key \<noteq> None
                           then (d3, Inl (io_err FRename))
                           else (d3\<lparr>d_files := map_put key \<lparr>f_data = data, f_mtime = d_clock d3\<rparr> (d_files d3)\<rparr>,
                                 Inr \<lparr>md_ETag = generationVersion generation, md_LastModified = 0,
                                      md_Size = int (length data)\<rparr>)))"

text \<open>The locks: opening the root and taking the flock may fail; then nothing was done.\<close>

definition locked ::
  "string \<Rightarrow> (string \<Rightarrow> fsop list \<Rightarrow> 'b Disk \<Rightarrow> 'b Disk \<times> (BlobErr + 'r)) \<Rightarrow> 'b Disk \<Rightarrow> 'b Disk \<times> (BlobErr + 'r)" where
  "locked key body d0 =
     (let flt = cur_faults d0; d = begin_op d0 in
      case cleanKey key of
        Inl e \<Rightarrow> (d, Inl (ErrBadKey e))
      | Inr k \<Rightarrow>
          if FOpenRoot \<in> set flt then (d, Inl (io_err FOpenRoot))
          else if FLock \<in> set flt then (d, Inl (io_err FLock))
          else body k flt d)"

definition fs_Put ::
  "digest \<Rightarrow> string \<Rightarrow> 'b list \<Rightarrow> 'b Disk \<Rightarrow> 'b Disk \<times> (BlobErr + Metadata)" where
  "fs_Put sha key data = locked key (\<lambda>k flt d. writeAtomic sha flt d k data)"

definition fs_PutIfMatch ::
  "digest \<Rightarrow> string \<Rightarrow> 'b list \<Rightarrow> string \<Rightarrow> 'b Disk \<Rightarrow> 'b Disk \<times> (BlobErr + Metadata)" where
  "fs_PutIfMatch sha key data ifMatch = locked key (\<lambda>k flt d.
     case inspectKey sha flt d k of
       Inl e \<Rightarrow>
         if e \<noteq> ErrNotFound then (d, Inl e)
         else if ifMatch = '''' then writeAtomic sha flt d k data
         else (d, Inl ErrPreconditionFailed)
     | Inr (current, _) \<Rightarrow>
         if ifMatch = '''' then (d, Inl ErrPreconditionFailed)
         else if current \<noteq> ifMatch then (d, Inl ErrPreconditionFailed)
         else writeAtomic sha flt d k data)"

definition remove_object :: "digest \<Rightarrow> fsop list \<Rightarrow> 'b Disk \<Rightarrow> string \<Rightarrow> BlobErr + 'b Disk" where
  "remove_object sha flt d k =
     (if FRemove \<in> set flt then Inl (io_err FRemove)
      else case os_Remove d k of
             Inr d' \<Rightarrow> Inr d'
           | Inl notExist \<Rightarrow> Inl (if notExist then ErrNotFound else io_err FRemove))"

definition fs_Delete :: "digest \<Rightarrow> string \<Rightarrow> 'b Disk \<Rightarrow> 'b Disk \<times> BlobErr option" where
  "fs_Delete sha key d0 =
     (case locked key (\<lambda>k flt d.
         case remove_object sha flt d k of
           Inl e \<Rightarrow>
             if e \<noteq> ErrNotFound then (d, Inl e)
             else (case removeGeneration sha flt d k of (d', err) \<Rightarrow> (d', Inr err))
         | Inr d1 \<Rightarrow> (case removeGeneration sha flt d1 k of (d', err) \<Rightarrow> (d', Inr err))) d0 of
        (d, Inl e) \<Rightarrow> (d, Some e)
      | (d, Inr err) \<Rightarrow> (d, err))"

definition DeleteIfMatch :: "digest \<Rightarrow> string \<Rightarrow> string \<Rightarrow> 'b Disk \<Rightarrow> 'b Disk \<times> BlobErr option" where
  "DeleteIfMatch sha key version d0 =
     (if version = '''' then (begin_op d0, Some ErrPreconditionFailed)
      else case locked key (\<lambda>k flt d.
         case inspectKey sha flt d k of
           Inl e \<Rightarrow> (d, Inl e)
         | Inr (current, _) \<Rightarrow>
             if current \<noteq> version then (d, Inl ErrPreconditionFailed)
             else case remove_object sha flt d k of
                    Inl e \<Rightarrow> (d, Inl e)
                  | Inr d1 \<Rightarrow> (case removeGeneration sha flt d1 k of (d', err) \<Rightarrow> (d', Inr err))) d0 of
        (d, Inl e) \<Rightarrow> (d, Some e)
      | (d, Inr err) \<Rightarrow> (d, err))"

text \<open>
  \<open>Get\<close> in its two parts: the open (the handle keeps the bytes it was opened on) with its stat,
  and the version read. A directory opens too, but reading its handle fails.
\<close>

definition Get_open :: "fsop list \<Rightarrow> string \<Rightarrow> 'b Disk \<Rightarrow> BlobErr + 'b FileObj" where
  "Get_open flt k d =
     (if FOpenRoot \<in> set flt then Inl (io_err FOpenRoot)
      else if FOpen \<in> set flt then Inl (io_err FOpen)
      else case map_of (d_files d) k of
             Some f \<Rightarrow> if FStat \<in> set flt then Inl (io_err FStat) else Inr f
           | None \<Rightarrow> if map_of (d_dirs d) k \<noteq> None then Inl (ErrIO ''is a directory'') else Inl ErrNotFound)"

definition Get_version ::
  "digest \<Rightarrow> fsop list \<Rightarrow> string \<Rightarrow> 'b FileObj \<Rightarrow> 'b Disk \<Rightarrow> BlobErr + 'b list \<times> Metadata" where
  "Get_version sha flt k f d =
     (let st = \<lparr>fi_Size = int (length (f_data f)), fi_ModTime = f_mtime f\<rparr> in
      case versionForInfo sha flt d k st of
        Inl e \<Rightarrow> Inl e
      | Inr etag \<Rightarrow> Inr (f_data f, \<lparr>md_ETag = etag, md_LastModified = fi_ModTime st div second,
                                     md_Size = fi_Size st\<rparr>))"

text \<open>\<open>between\<close> is what other processes do after the open and before the version read.\<close>

definition fs_Get_with ::
  "('b Disk \<Rightarrow> 'b Disk) \<Rightarrow> digest \<Rightarrow> string \<Rightarrow> 'b Disk \<Rightarrow> 'b Disk \<times> (BlobErr + 'b list \<times> Metadata)" where
  "fs_Get_with between sha key d0 =
     (let flt = cur_faults d0; d = begin_op d0 in
      case cleanKey key of
        Inl e \<Rightarrow> (d, Inl (ErrBadKey e))
      | Inr k \<Rightarrow>
          (case Get_open flt k d of
             Inl e \<Rightarrow> (d, Inl e)
           | Inr f \<Rightarrow> (let d' = between d in (d', Get_version sha flt k f d'))))"

definition fs_Get :: "digest \<Rightarrow> string \<Rightarrow> 'b Disk \<Rightarrow> 'b Disk \<times> (BlobErr + 'b list \<times> Metadata)" where
  "fs_Get = fs_Get_with (\<lambda>d. d)"

text \<open>
  \<open>List\<close>: a walk in lexical order below the prefix, skipping the internal names.
\<close>

definition under :: "string \<Rightarrow> string \<Rightarrow> bool" where
  "under start p \<longleftrightarrow> start = ''.'' \<or> HasPrefix p (start @ ''/'')"

definition walk_keys :: "'b Disk \<Rightarrow> string \<Rightarrow> string list" where
  "walk_keys d start =
     map fst (insertion_sort (\<lambda>a b. Split_char CHR ''/'' (fst a) < Split_char CHR ''/'' (fst b))
       (filter (\<lambda>p. under start (fst p) \<and> \<not> isInternalKey (fst p)) (d_files d)))"

definition list_start :: "string \<Rightarrow> KeyErr + string" where
  "list_start pfx =
     (if TrimSpace pfx \<noteq> ''''
      then (case cleanKey pfx of Inl e \<Rightarrow> Inl e | Inr k \<Rightarrow> Inr (path_Clean k))
      else Inr ''.'')"

definition fs_List :: "string \<Rightarrow> 'b Disk \<Rightarrow> 'b Disk \<times> (BlobErr + string list)" where
  "fs_List pfx d0 =
     (let flt = cur_faults d0; d = begin_op d0 in
      if FOpenRoot \<in> set flt then (d, Inl (io_err FOpenRoot))
      else case list_start pfx of
             Inl e \<Rightarrow> (d, Inl (ErrBadKey e))
           | Inr start \<Rightarrow>
               if FStat \<in> set flt then (d, Inl (io_err FStat))
               else if start \<noteq> ''.'' \<and> map_of (d_files d) start \<noteq> None then (d, Inr [start])
               else if start \<noteq> ''.'' \<and> map_of (d_dirs d) start = None then (d, Inr [])
               else if FWalk \<in> set flt then (d, Inl (io_err FWalk))
               else (d, Inr (walk_keys d start)))"

text \<open>\<open>ListMetadata\<close>: the same walk, each entry inspected under its shard lock.\<close>

definition listedObject :: "digest \<Rightarrow> fsop list \<Rightarrow> 'b Disk \<Rightarrow> string \<Rightarrow> BlobErr + ListedObject" where
  "listedObject sha flt d key =
     (if FLock \<in> set flt then Inl (io_err FLock)
      else case inspectKey sha flt d key of
             Inl e \<Rightarrow> Inl e
           | Inr (version, info) \<Rightarrow>
               Inr \<lparr>lo_Key = key, lo_Version = version, lo_LastModified = fi_ModTime info div second,
                    lo_Size = fi_Size info\<rparr>)"

definition appendListedObject ::
  "digest \<Rightarrow> fsop list \<Rightarrow> 'b Disk \<Rightarrow> string \<Rightarrow> ListedObject list \<Rightarrow> BlobErr + ListedObject list" where
  "appendListedObject sha flt d key out =
     (case listedObject sha flt d key of
        Inl e \<Rightarrow> if e = ErrNotFound then Inr out else Inl e
      | Inr listed \<Rightarrow> Inr (out @ [listed]))"

fun append_all ::
  "digest \<Rightarrow> fsop list \<Rightarrow> 'b Disk \<Rightarrow> string list \<Rightarrow> ListedObject list \<Rightarrow> BlobErr + ListedObject list" where
  "append_all sha flt d [] out = Inr out"
| "append_all sha flt d (p # ps) out =
     (case appendListedObject sha flt d p out of
        Inl e \<Rightarrow> Inl e
      | Inr out' \<Rightarrow> append_all sha flt d ps out')"

definition ListMetadata :: "digest \<Rightarrow> string \<Rightarrow> 'b Disk \<Rightarrow> 'b Disk \<times> (BlobErr + ListedObject list)" where
  "ListMetadata sha pfx d0 =
     (let flt = cur_faults d0; d = begin_op d0 in
      if FOpenRoot \<in> set flt then (d, Inl (io_err FOpenRoot))
      else case list_start pfx of
             Inl e \<Rightarrow> (d, Inl (ErrBadKey e))
           | Inr start \<Rightarrow>
               if FStat \<in> set flt then (d, Inl (io_err FStat))
               else if start \<noteq> ''.'' \<and> map_of (d_files d) start \<noteq> None
               then (d, appendListedObject sha flt d start [])
               else if start \<noteq> ''.'' \<and> map_of (d_dirs d) start = None then (d, Inr [])
               else if FWalk \<in> set flt then (d, Inl (io_err FWalk))
               else (d, append_all sha flt d (walk_keys d start) []))"

definition filesystem :: "digest \<Rightarrow> ('b Disk, 'b list) Store" where
  "filesystem sha =
     \<lparr>s_Get = fs_Get sha, s_Put = fs_Put sha, s_PutIfMatch = fs_PutIfMatch sha,
      s_Delete = fs_Delete sha, s_List = fs_List\<rparr>"

subsection \<open>Versions are never reused\<close>

text \<open>
  What the adapter relies on: the keys \<open>U\<close> the bucket is used with have distinct digests, and a
  generation is a fresh random number of 16 bytes in hexadecimal.
\<close>

definition canonical :: "string \<Rightarrow> bool" where "canonical k \<longleftrightarrow> cleanKey k = Inr k"

definition gen_of :: "digest \<Rightarrow> 'b Disk \<Rightarrow> string \<Rightarrow> string option" where
  "gen_of sha d k = map_of (d_gens d) (generationPathFor sha k)"

definition fs_inv :: "digest \<Rightarrow> string set \<Rightarrow> 'b Disk \<Rightarrow> bool" where
  "fs_inv sha U d \<longleftrightarrow>
     inj_on sha U \<and> distinct (d_rands d) \<and> (\<forall>g \<in> set (d_rands d). length g = 32)
     \<and> (\<forall>p g. map_of (d_gens d) p = Some g \<longrightarrow> length g = 32 \<and> g \<notin> set (d_rands d))"

definition version_of :: "digest \<Rightarrow> 'b Disk \<Rightarrow> string \<Rightarrow> 'b FileObj \<Rightarrow> string" where
  "version_of sha d k f =
     (case gen_of sha d k of
        Some g \<Rightarrow> generationVersion g
      | None \<Rightarrow> legacyVersion \<lparr>fi_Size = int (length (f_data f)), fi_ModTime = f_mtime f\<rparr>)"

text \<open>The object a canonical key names: its version and its content.\<close>

definition key_in :: "string set \<Rightarrow> string \<Rightarrow> bool" where
  "key_in U k \<longleftrightarrow> canonical k \<and> k \<in> U"

definition fs_obj :: "digest \<Rightarrow> string set \<Rightarrow> 'b Disk \<Rightarrow> string \<Rightarrow> (string \<times> 'b list) option" where
  "fs_obj sha U d k =
     (if key_in U k then map_option (\<lambda>f. (version_of sha d k f, f_data f)) (map_of (d_files d) k)
      else None)"

text \<open>
  One step of any process on the bucket: an operation of the adapter on a key of \<open>U\<close> (or a key
  it refuses), the passage of time, or a change of what the operating system will do next.
\<close>

definition targets :: "string set \<Rightarrow> string \<Rightarrow> bool" where
  "targets U key = (case cleanKey key of Inl _ \<Rightarrow> True | Inr k \<Rightarrow> k \<in> U)"

inductive disk_step :: "digest \<Rightarrow> string set \<Rightarrow> 'b Disk \<Rightarrow> 'b Disk \<Rightarrow> bool" for sha U where
  step_put: "targets U key \<Longrightarrow> disk_step sha U d (fst (fs_Put sha key data d))"
| step_put_if: "targets U key \<Longrightarrow> disk_step sha U d (fst (fs_PutIfMatch sha key data m d))"
| step_delete: "targets U key \<Longrightarrow> disk_step sha U d (fst (fs_Delete sha key d))"
| step_delete_if: "targets U key \<Longrightarrow> disk_step sha U d (fst (DeleteIfMatch sha key v d))"
| step_read: "disk_step sha U d (begin_op d)"
| step_outside: "disk_step sha U d (d\<lparr>d_clock := t, d_faults := flts\<rparr>)"

definition disk_evolves :: "digest \<Rightarrow> string set \<Rightarrow> 'b Disk \<Rightarrow> 'b Disk \<Rightarrow> bool" where
  "disk_evolves sha U = (disk_step sha U)\<^sup>*\<^sup>*"

text \<open>
  How a bucket relates to a later one, key by key: untouched (perhaps deleted with its
  generation left behind), given a generation drawn since, or gone.
\<close>

definition key_later :: "digest \<Rightarrow> 'b Disk \<Rightarrow> 'b Disk \<Rightarrow> string \<Rightarrow> bool" where
  "key_later sha d d' k \<longleftrightarrow>
     gen_of sha d' k = gen_of sha d k
       \<and> (map_of (d_files d') k = map_of (d_files d) k \<or> map_of (d_files d') k = None)
     \<or> (\<exists>g \<in> set (d_rands d). gen_of sha d' k = Some g)
     \<or> gen_of sha d' k = None \<and> map_of (d_files d') k = None"

definition later :: "digest \<Rightarrow> string set \<Rightarrow> 'b Disk \<Rightarrow> 'b Disk \<Rightarrow> bool" where
  "later sha U d d' \<longleftrightarrow> set (d_rands d') \<subseteq> set (d_rands d) \<and> (\<forall>k \<in> U. key_later sha d d' k)"

text \<open>
  What one operation does: nothing to other keys; to its key a new generation, perhaps with a
  new file, or the removal of the file, perhaps with its generation.
\<close>

definition touches :: "digest \<Rightarrow> string \<Rightarrow> 'b Disk \<Rightarrow> 'b Disk \<Rightarrow> bool" where
  "touches sha k d d' \<longleftrightarrow>
     (d_rands d' = d_rands d \<or> d_rands d' = tl (d_rands d))
     \<and> (\<forall>k'. k' \<noteq> k \<longrightarrow> map_of (d_files d') k' = map_of (d_files d) k')
     \<and> (\<forall>p. p \<noteq> generationPathFor sha k \<longrightarrow> map_of (d_gens d') p = map_of (d_gens d) p)
     \<and> (gen_of sha d' k = gen_of sha d k
          \<and> (map_of (d_files d') k = map_of (d_files d) k \<or> map_of (d_files d') k = None)
        \<or> (\<exists>g. d_rands d = g # d_rands d' \<and> gen_of sha d' k = Some g)
        \<or> gen_of sha d' k = None \<and> map_of (d_files d') k = None)"

lemma make_dir_same:
  "make_dir flt d dir = Some d' \<Longrightarrow>
     d_files d' = d_files d \<and> d_gens d' = d_gens d \<and> d_rands d' = d_rands d \<and> d_clock d' = d_clock d"
  by (auto simp: make_dir_def os_MkdirAll_def Let_def split: if_splits)

lemma touches_same:
  "d_files d' = d_files d \<Longrightarrow> d_gens d' = d_gens d \<Longrightarrow> d_rands d' = d_rands d \<Longrightarrow> touches sha k d d'"
  by (simp add: touches_def gen_of_def)

lemma touches_begin_op: "touches sha k (begin_op d) d' = touches sha k d d'"
  by (simp add: touches_def begin_op_def gen_of_def)

lemma writeAtomic_touches:
  assumes "writeAtomic sha flt d key data = (d', r)"
  shows "touches sha key d d'"
  using assms
  by (auto simp: writeAtomic_def newGeneration_def writeGeneration_def touches_def gen_of_def
      dest: make_dir_same split: if_splits option.splits list.splits)

lemma writeAtomic_ok:
  assumes "writeAtomic sha flt d key data = (d', Inr md)"
  shows "map_of (d_files d') = (map_of (d_files d))(key \<mapsto> \<lparr>f_data = data, f_mtime = d_clock d\<rparr>)
       \<and> map_of (d_gens d') = (map_of (d_gens d))(generationPathFor sha key \<mapsto> hd (d_rands d))
       \<and> d_rands d = hd (d_rands d) # d_rands d' \<and> md_ETag md = generationVersion (hd (d_rands d))"
  using assms
  by (auto simp: writeAtomic_def newGeneration_def writeGeneration_def
      dest!: make_dir_same split: if_splits option.splits list.splits)

lemma touches_begin_op_self: "touches sha k d (begin_op d)"
  by (rule touches_same) (simp_all add: begin_op_def)

definition on_key :: "string \<Rightarrow> string \<Rightarrow> bool" where
  "on_key key k = (case cleanKey key of Inl _ \<Rightarrow> True | Inr k' \<Rightarrow> k' = k)"

lemma locked_touches:
  assumes "locked key body d = (d', r)" and "on_key key k"
    and "\<And>k flt d1 d2 r. body k flt d1 = (d2, r) \<Longrightarrow> touches sha k d1 d2"
  shows "touches sha k d d'"
proof (cases "cleanKey key")
  case (Inl e)
  with assms(1) show ?thesis by (auto simp: locked_def Let_def intro: touches_begin_op_self)
next
  case (Inr k')
  with assms(2) have k: "k' = k" by (simp add: on_key_def)
  show ?thesis
  proof (cases "FOpenRoot \<in> set (cur_faults d) \<or> FLock \<in> set (cur_faults d)")
    case True
    with assms(1) Inr show ?thesis
      by (auto simp: locked_def Let_def intro: touches_begin_op_self split: if_splits)
  next
    case False
    with assms(1) Inr k have "body k (cur_faults d) (begin_op d) = (d', r)"
      by (simp add: locked_def Let_def)
    from assms(3) [OF this] show ?thesis by (auto simp: touches_begin_op)
  qed
qed

lemma removeGeneration_touches:
  assumes "removeGeneration sha flt d1 k = (d', err)"
    and "d1 = d \<or> os_Remove d k = Inr d1" and "map_of (d_files d1) k = None"
  shows "touches sha k d d'"
  using assms
  by (auto simp: removeGeneration_def os_Remove_def touches_def gen_of_def split: if_splits)

lemma os_Remove_gone: "os_Remove d k = Inr d1 \<Longrightarrow> map_of (d_files d1) k = None"
  by (auto simp: os_Remove_def split: if_splits)

lemma os_Remove_missing: "os_Remove d k = Inl True \<Longrightarrow> map_of (d_files d) k = None"
  by (auto simp: os_Remove_def split: if_splits)

lemma remove_object_Inr: "remove_object sha flt d k = Inr d1 \<Longrightarrow> os_Remove d k = Inr d1"
  by (auto simp: remove_object_def split: if_splits sum.splits)

lemma remove_object_missing:
  "remove_object sha flt d k = Inl ErrNotFound \<Longrightarrow> map_of (d_files d) k = None"
  by (auto simp: remove_object_def io_err_def dest: os_Remove_missing split: if_splits sum.splits)

lemma put_touches:
  assumes "fs_Put sha key data d = (d', r)" and "on_key key k"
  shows "touches sha k d d'"
  using assms unfolding fs_Put_def by (rule locked_touches) (rule writeAtomic_touches)

lemma put_if_touches:
  assumes "fs_PutIfMatch sha key data m d = (d', r)" and "on_key key k"
  shows "touches sha k d d'"
  using assms unfolding fs_PutIfMatch_def
  by (rule locked_touches)
    (auto simp: touches_same intro: writeAtomic_touches split: sum.splits if_splits)

lemma delete_touches:
  assumes "fs_Delete sha key d = (d', r)" and "on_key key k"
  shows "touches sha k d d'"
proof -
  let ?b = "\<lambda>k flt d. case remove_object sha flt d k of
           Inl e \<Rightarrow>
             if e \<noteq> ErrNotFound then (d, Inl e)
             else (case removeGeneration sha flt d k of (d', err) \<Rightarrow> (d', Inr err))
         | Inr d1 \<Rightarrow> (case removeGeneration sha flt d1 k of (d', err) \<Rightarrow> (d', Inr err))"
  obtain r' where "locked key ?b d = (d', r')"
    using assms by (auto simp: fs_Delete_def split: prod.splits sum.splits)
  from this assms(2) show ?thesis
  proof (rule locked_touches)
    fix k flt d1 d2 and r :: "BlobErr + BlobErr option"
    assume "?b k flt d1 = (d2, r)"
    then show "touches sha k d1 d2"
      by (auto simp: touches_same split: sum.splits if_splits prod.splits
          intro: removeGeneration_touches dest: remove_object_missing remove_object_Inr os_Remove_gone)
  qed
qed

lemma delete_if_touches:
  assumes "DeleteIfMatch sha key v d = (d', r)" and "on_key key k"
  shows "touches sha k d d'"
proof (cases "v = ''''")
  case True
  with assms show ?thesis by (auto simp: DeleteIfMatch_def intro: touches_begin_op_self)
next
  case False
  let ?b = "\<lambda>k flt d. case inspectKey sha flt d k of
           Inl e \<Rightarrow> (d, Inl e)
         | Inr (current, _) \<Rightarrow>
             if current \<noteq> v then (d, Inl ErrPreconditionFailed)
             else case remove_object sha flt d k of
                    Inl e \<Rightarrow> (d, Inl e)
                  | Inr d1 \<Rightarrow> (case removeGeneration sha flt d1 k of (d', err) \<Rightarrow> (d', Inr err))"
  obtain r' where "locked key ?b d = (d', r')"
    using assms False by (auto simp: DeleteIfMatch_def split: prod.splits sum.splits)
  from this assms(2) show ?thesis
  proof (rule locked_touches)
    fix k flt d1 d2 and r :: "BlobErr + BlobErr option"
    assume "?b k flt d1 = (d2, r)"
    then show "touches sha k d1 d2"
      by (auto simp: touches_same split: sum.splits if_splits prod.splits
          intro: removeGeneration_touches dest: remove_object_Inr os_Remove_gone)
  qed
qed

lemma on_key_target: "targets U key \<Longrightarrow> (\<exists>k \<in> U. on_key key k) \<or> (\<forall>k. on_key key k)"
  by (auto simp: targets_def on_key_def split: sum.splits)

lemma step_touches:
  "disk_step sha U d d' \<Longrightarrow> (\<exists>k \<in> U. touches sha k d d') \<or> (\<forall>k. touches sha k d d')"
proof (induction rule: disk_step.induct)
  case (step_put key d data)
  show ?case using on_key_target [OF step_put] put_touches [OF surjective_pairing] by blast
next
  case (step_put_if key d data m)
  show ?case using on_key_target [OF step_put_if] put_if_touches [OF surjective_pairing] by blast
next
  case (step_delete key d)
  show ?case using on_key_target [OF step_delete] delete_touches [OF surjective_pairing] by blast
next
  case (step_delete_if key d v)
  show ?case using on_key_target [OF step_delete_if] delete_if_touches [OF surjective_pairing] by blast
next
  case (step_outside d flts t)
  have "touches sha k d (d\<lparr>d_clock := t, d_faults := flts\<rparr>)" for k by (rule touches_same) simp_all
  then show ?case by blast
qed (blast intro: touches_begin_op_self)

lemma gen_path_inj:
  "inj_on sha U \<Longrightarrow> k \<in> U \<Longrightarrow> k' \<in> U \<Longrightarrow> generationPathFor sha k = generationPathFor sha k' \<longleftrightarrow> k = k'"
  by (auto simp: generationPathFor_def inj_on_eq_iff)

lemma touches_rands: "touches sha k d d' \<Longrightarrow> set (d_rands d') \<subseteq> set (d_rands d)"
proof -
  assume "touches sha k d d'"
  then have "d_rands d' = d_rands d \<or> d_rands d' = tl (d_rands d)" by (simp add: touches_def)
  then show ?thesis by (cases "d_rands d") auto
qed

lemma touches_inv:
  assumes "fs_inv sha U d" and "touches sha k d d'" shows "fs_inv sha U d'"
proof -
  have "length g = 32 \<and> g \<notin> set (d_rands d')" if "map_of (d_gens d') p = Some g" for p g
  proof -
    from assms(2) that consider "map_of (d_gens d) p = Some g" | "d_rands d = g # d_rands d'"
      by (cases "p = generationPathFor sha k") (auto simp: touches_def gen_of_def)
    then show ?thesis
    proof cases
      case 1
      with assms(1) have "length g = 32" "g \<notin> set (d_rands d)" unfolding fs_inv_def by blast+
      with touches_rands [OF assms(2)] show ?thesis by blast
    next
      case 2
      with assms(1) show ?thesis by (simp add: fs_inv_def)
    qed
  qed
  moreover from assms(2) have "d_rands d' = d_rands d \<or> d_rands d' = tl (d_rands d)" by (simp add: touches_def)
  then have "distinct (d_rands d')" using assms(1) by (auto simp: fs_inv_def distinct_tl)
  ultimately show ?thesis using assms(1) touches_rands [OF assms(2)] unfolding fs_inv_def by blast
qed

lemma key_later_mono:
  assumes "key_later sha d d1 j" and "gen_of sha d2 j = gen_of sha d1 j"
    and "map_of (d_files d2) j = map_of (d_files d1) j \<or> map_of (d_files d2) j = None"
  shows "key_later sha d d2 j"
  using assms unfolding key_later_def by metis

lemma key_later_touches:
  assumes "key_later sha d d1 k" and "touches sha k d1 d2" and "set (d_rands d1) \<subseteq> set (d_rands d)"
  shows "key_later sha d d2 k"
proof -
  from assms(2) consider (same) "gen_of sha d2 k = gen_of sha d1 k"
      "map_of (d_files d2) k = map_of (d_files d1) k \<or> map_of (d_files d2) k = None"
    | (new) g where "g \<in> set (d_rands d1)" "gen_of sha d2 k = Some g"
    | (gone) "gen_of sha d2 k = None" "map_of (d_files d2) k = None"
    unfolding touches_def by (metis list.set_intros(1))
  then show ?thesis
  proof cases
    case same
    then show ?thesis by (rule key_later_mono [OF assms(1)])
  next
    case new
    with assms(3) show ?thesis unfolding key_later_def by blast
  next
    case gone
    then show ?thesis unfolding key_later_def by blast
  qed
qed

lemma touches_later:
  assumes i: "inj_on sha U" and l: "later sha U d d1" and t: "touches sha k d1 d2" and "k \<in> U"
  shows "later sha U d d2"
proof -
  have "key_later sha d d2 j" if "j \<in> U" for j
  proof (cases "j = k")
    case False
    with t i that \<open>k \<in> U\<close> have "map_of (d_files d2) j = map_of (d_files d1) j" "gen_of sha d2 j = gen_of sha d1 j"
      by (auto simp: touches_def gen_of_def gen_path_inj)
    with l that show ?thesis by (intro key_later_mono [of sha d d1 j d2]) (simp_all add: later_def)
  next
    case True
    with l t that show ?thesis by (auto simp: later_def intro: key_later_touches)
  qed
  with l touches_rands [OF t] show ?thesis by (auto simp: later_def)
qed

lemma later_refl: "later sha U d d"
  by (simp add: later_def key_later_def)

lemma step_later:
  assumes "disk_step sha U d1 d2" and "later sha U d d1" and "inj_on sha U"
  shows "later sha U d d2"
  using step_touches [OF assms(1)]
proof
  assume "\<exists>k \<in> U. touches sha k d1 d2"
  with assms(2,3) show ?thesis by (blast intro: touches_later)
next
  assume "\<forall>k. touches sha k d1 d2"
  with assms(2) show ?thesis
    using touches_rands by (fastforce simp: later_def intro: key_later_touches)
qed

lemma evolves_later:
  assumes "disk_evolves sha U d d'" and "inj_on sha U"
  shows "later sha U d d'"
  using assms(1) unfolding disk_evolves_def
  by (induction rule: rtranclp_induct) (auto intro: later_refl step_later assms(2))

lemma evolves_inv: "disk_evolves sha U d d' \<Longrightarrow> fs_inv sha U d \<Longrightarrow> fs_inv sha U d'"
  unfolding disk_evolves_def
  by (induction rule: rtranclp_induct) (auto dest: step_touches intro: touches_inv)

subsection \<open>The adapter meets the store contract\<close>

lemma fs_inv_gen:
  assumes "fs_inv sha U d" and "gen_of sha d k = Some g"
  shows "length g = 32 \<and> g \<notin> set (d_rands d)"
  using assms by (auto simp: fs_inv_def gen_of_def)

lemma versionForInfo_eq:
  assumes "fs_inv sha U d" and "versionForInfo sha flt d k info = Inr v"
  shows "v = (case gen_of sha d k of Some g \<Rightarrow> generationVersion g | None \<Rightarrow> legacyVersion info)"
proof (cases "gen_of sha d k")
  case None
  with assms(2) show ?thesis
    by (auto simp: versionForInfo_def readGeneration_def gen_of_def split: if_splits)
next
  case (Some g)
  with fs_inv_gen [OF assms(1) Some] assms(2) show ?thesis
    by (auto simp: versionForInfo_def readGeneration_def gen_of_def split: if_splits)
qed

lemma generation_not_legacy [simp]: "generationVersion g \<noteq> legacyVersion info"
  by (simp add: generationVersion_def legacyVersion_def)

lemma version_of_nonempty [simp]: "version_of sha d k f \<noteq> ''''"
  by (simp add: version_of_def generationVersion_def legacyVersion_def split: option.split)

lemma version_not_reused:
  assumes inv: "fs_inv sha U d" and ev: "disk_evolves sha U d d'"
    and o: "fs_obj sha U d k = Some (v, c)" and o': "fs_obj sha U d' k = Some (v, c')"
  shows "c' = c"
proof -
  from o obtain f where f: "map_of (d_files d) k = Some f" "v = version_of sha d k f" "c = f_data f"
    by (auto simp: fs_obj_def split: if_splits)
  from o' obtain f' where f': "map_of (d_files d') k = Some f'" "v = version_of sha d' k f'" "c' = f_data f'"
    by (auto simp: fs_obj_def split: if_splits)
  from o inv have "k \<in> U" "inj_on sha U" by (auto simp: fs_obj_def key_in_def fs_inv_def split: if_splits)
  with evolves_later [OF ev] have "key_later sha d d' k" by (simp add: later_def)
  with f'(1) consider "map_of (d_files d') k = map_of (d_files d) k"
    | g where "g \<in> set (d_rands d)" "gen_of sha d' k = Some g"
    by (auto simp: key_later_def)
  then show ?thesis
  proof cases
    case 1
    with f f' show ?thesis by simp
  next
    case 2
    then have v: "v = generationVersion g" using f'(2) by (simp add: version_of_def)
    show ?thesis
    proof (cases "gen_of sha d k")
      case None
      with f(2) v show ?thesis by (simp add: version_of_def)
    next
      case (Some h)
      with f(2) v have "h = g" by (simp add: version_of_def generationVersion_def)
      with fs_inv_gen [OF inv Some] 2(1) show ?thesis by simp
    qed
  qed
qed

lemma get_result:
  assumes inv: "fs_inv sha U d" and k: "key_in U k" and g: "fs_Get sha k d = (d', r)"
  shows "d' = begin_op d \<and>
     (case r of Inr (c, md) \<Rightarrow> fs_obj sha U d' k = Some (md_ETag md, c)
      | Inl e \<Rightarrow> e = ErrNotFound \<longrightarrow> fs_obj sha U d' k = None)"
proof -
  have inv': "fs_inv sha U (begin_op d)" using inv by (simp add: fs_inv_def begin_op_def)
  from g k have d': "d' = begin_op d"
    by (auto simp: fs_Get_def fs_Get_with_def key_in_def canonical_def Let_def split: sum.splits)
  from g k inv' show ?thesis unfolding d'
    by (auto simp: fs_Get_def fs_Get_with_def key_in_def canonical_def Let_def Get_open_def Get_version_def io_err_def
        fs_obj_def version_of_def versionForInfo_def readGeneration_def gen_of_def
        split: sum.splits if_splits option.splits dest: versionForInfo_eq)
qed

lemma dirs_grow:
  "map_of m p = Some i \<Longrightarrow> map_of (fold (\<lambda>p m. if map_of m p = None then map_put p (f p) m else m) ps m) p = Some i"
proof (induction ps arbitrary: m)
  case (Cons a ps)
  then show ?case by (cases "a = p") (auto intro!: Cons.IH)
qed simp

lemma make_dir_dirs:
  "make_dir flt d dir = Some d' \<Longrightarrow> map_of (d_dirs d) p = Some i \<Longrightarrow> map_of (d_dirs d') p = Some i"
  by (auto simp: make_dir_def os_MkdirAll_def Let_def dirs_grow split: if_splits)

lemma writeAtomic_not_dir:
  "writeAtomic sha flt d key data = (d', Inr md) \<Longrightarrow> map_of (d_dirs d) key = None"
  by (cases "map_of (d_dirs d) key")
    (auto simp: writeAtomic_def newGeneration_def writeGeneration_def
      dest: make_dir_dirs split: if_splits option.splits list.splits)

lemma inspectKey_absent: "inspectKey sha flt d k = Inl ErrNotFound \<Longrightarrow> map_of (d_files d) k = None"
  by (auto simp: inspectKey_def os_Stat_def io_err_def versionForInfo_def readGeneration_def
      split: if_splits option.splits sum.splits)

lemma inspectKey_version:
  assumes "fs_inv sha U d" and "inspectKey sha flt d k = Inr (v, info)" and "map_of (d_dirs d) k = None"
  shows "\<exists>f. map_of (d_files d) k = Some f \<and> v = version_of sha d k f"
  using assms
  by (auto simp: inspectKey_def os_Stat_def version_of_def split: if_splits option.splits sum.splits
      dest!: versionForInfo_eq)

lemma put_if_body:
  assumes "fs_PutIfMatch sha k data m d = (d', Inr md)" and "key_in U k"
  shows "writeAtomic sha (cur_faults d) (begin_op d) k data = (d', Inr md) \<and>
     (if m = '''' then inspectKey sha (cur_faults d) (begin_op d) k = Inl ErrNotFound
      else \<exists>info. inspectKey sha (cur_faults d) (begin_op d) k = Inr (m, info))"
  using assms
  by (auto simp: fs_PutIfMatch_def locked_def key_in_def canonical_def Let_def split: if_splits sum.splits prod.splits)

lemma version_of_cong:
  "gen_of sha d' k = gen_of sha d k \<Longrightarrow> version_of sha d' k f = version_of sha d k f"
  by (simp add: version_of_def)

lemma fs_obj_begin_op [simp]: "fs_obj sha U (begin_op d) = fs_obj sha U d"
  by (rule ext) (simp add: fs_obj_def begin_op_def version_of_def gen_of_def)

lemma write_obj:
  assumes "inj_on sha U" and "key_in U k" and "writeAtomic sha flt d k data = (d', Inr md)"
  shows "fs_obj sha U d' = (fs_obj sha U d)(k \<mapsto> (md_ETag md, data))"
proof
  fix j
  note w = writeAtomic_ok [OF assms(3)]
  show "fs_obj sha U d' j = ((fs_obj sha U d)(k \<mapsto> (md_ETag md, data))) j"
  proof (cases "j = k")
    case True
    with w assms(2) show ?thesis by (simp add: fs_obj_def version_of_def gen_of_def)
  next
    case False
    show ?thesis
    proof (cases "key_in U j")
      case True
      with False w assms(1,2) have "gen_of sha d' j = gen_of sha d j"
        by (simp add: gen_of_def gen_path_inj [of sha U] key_in_def)
    with False w True show ?thesis by (simp add: fs_obj_def version_of_cong [of sha d' j d])
    qed (use False in \<open>simp add: fs_obj_def\<close>)
  qed
qed

lemma put_if_result:
  assumes inv: "fs_inv sha U d" and k: "key_in U k"
    and p: "fs_PutIfMatch sha k data m d = (d', Inr md)"
  shows "(if m = '''' then fs_obj sha U d k = None else \<exists>c. fs_obj sha U d k = Some (m, c))
       \<and> fs_obj sha U d' = (fs_obj sha U d)(k \<mapsto> (md_ETag md, data))"
proof -
  have inv': "fs_inv sha U (begin_op d)" using inv by (simp add: fs_inv_def begin_op_def)
  note b = put_if_body [OF p k]
  from inv have "inj_on sha U" by (simp add: fs_inv_def)
  with b k have o: "fs_obj sha U d' = (fs_obj sha U d)(k \<mapsto> (md_ETag md, data))"
    using write_obj [of sha U k "cur_faults d" "begin_op d" data d' md] by simp
  have nd: "map_of (d_dirs (begin_op d)) k = None" using b writeAtomic_not_dir by blast
  have "if m = '''' then fs_obj sha U (begin_op d) k = None else \<exists>c. fs_obj sha U (begin_op d) k = Some (m, c)"
  proof (cases "m = ''''")
    case True
    with b inspectKey_absent have "map_of (d_files (begin_op d)) k = None" by fastforce
    with True show ?thesis unfolding fs_obj_def by simp
  next
    case False
    with b obtain info where "inspectKey sha (cur_faults d) (begin_op d) k = Inr (m, info)" by auto
    from inspectKey_version [OF inv' this nd] obtain f where
      "map_of (d_files (begin_op d)) k = Some f" "m = version_of sha (begin_op d) k f" by auto
    with False k show ?thesis unfolding fs_obj_def by simp
  qed
  with o show ?thesis by (auto split: if_splits)
qed

lemma list_state: "fst (fs_List p d) = begin_op d"
  by (simp add: fs_List_def Let_def split: sum.split)

interpretation fs: cas_store "filesystem sha" "fs_obj sha U" "fs_inv sha U" "disk_evolves sha U" "key_in U"
  for sha :: digest and U :: "string set"
proof
  fix s t u k c c' m v s' r w x y
  show "disk_evolves sha U s s" by (simp add: disk_evolves_def)
  show "disk_evolves sha U s t \<Longrightarrow> disk_evolves sha U t u \<Longrightarrow> disk_evolves sha U s u"
    unfolding disk_evolves_def by (rule rtranclp_trans)
  have step: "disk_step sha U a b \<Longrightarrow> fs_inv sha U a \<Longrightarrow> fs_inv sha U b \<and> disk_evolves sha U a b" for a b
    using evolves_inv [of sha U a b] by (auto simp: disk_evolves_def)
  show "fs_inv sha U s \<Longrightarrow> key_in U k \<Longrightarrow> s_Get (filesystem sha) k s = (s', r) \<Longrightarrow>
      fs_inv sha U s' \<and> disk_evolves sha U s s' \<and>
      (case r of Inl e \<Rightarrow> e = ErrNotFound \<longrightarrow> fs_obj sha U s' k = None
       | Inr (c, md) \<Rightarrow> fs_obj sha U s' k = Some (md_ETag md, c))"
    using get_result [of sha U s k s' r] step [OF step_read, of s] by (auto simp: filesystem_def)
  show "fs_inv sha U s \<Longrightarrow> key_in U k \<Longrightarrow> s_PutIfMatch (filesystem sha) k c m s = (s', w) \<Longrightarrow>
      fs_inv sha U s' \<and> disk_evolves sha U s s' \<and>
      (case w of Inl _ \<Rightarrow> True
       | Inr md \<Rightarrow> \<exists>t. disk_evolves sha U s t \<and> fs_inv sha U t \<and> disk_evolves sha U t s'
           \<and> (if m = '''' then fs_obj sha U t k = None else \<exists>c'. fs_obj sha U t k = Some (m, c'))
           \<and> fs_obj sha U s' = (fs_obj sha U t)(k \<mapsto> (md_ETag md, c)))"
  proof -
    assume i: "fs_inv sha U s" and k: "key_in U k" and p: "s_PutIfMatch (filesystem sha) k c m s = (s', w)"
    then have p': "fs_PutIfMatch sha k c m s = (s', w)" by (simp add: filesystem_def)
    from k have "targets U k" by (simp add: targets_def key_in_def canonical_def)
    from step [OF step_put_if [OF this] i, of c m] p' have "fs_inv sha U s' \<and> disk_evolves sha U s s'" by simp
    moreover have "disk_evolves sha U s s" by (simp add: disk_evolves_def)
    ultimately show ?thesis using put_if_result [OF i k, of c m s'] p' i
      by (cases w) (auto intro!: exI [of _ s])
  qed
  show "fs_inv sha U s \<Longrightarrow> key_in U k \<Longrightarrow> s_Delete (filesystem sha) k s = (s', x) \<Longrightarrow>
      fs_inv sha U s' \<and> disk_evolves sha U s s'"
    using step [OF step_delete, of k s] by (simp add: filesystem_def targets_def key_in_def canonical_def)
  show "fs_inv sha U s \<Longrightarrow> s_List (filesystem sha) k s = (s', y) \<Longrightarrow>
      fs_inv sha U s' \<and> disk_evolves sha U s s'"
    using step [OF step_read, of s] list_state [of k s] by (simp add: filesystem_def)
  show "fs_inv sha U s \<Longrightarrow> disk_evolves sha U s t \<Longrightarrow> fs_obj sha U s k = Some (v, c)
      \<Longrightarrow> fs_obj sha U t k = Some (v, c') \<Longrightarrow> c' = c"
    by (rule version_not_reused)
  show "fs_inv sha U s \<Longrightarrow> fs_obj sha U s k \<noteq> Some ('''', c)"
    by (auto simp: fs_obj_def)
qed

subsection \<open>Lock keys are canonical\<close>

lemma slug_no_dot: "slug_char c \<Longrightarrow> c \<noteq> CHR ''.''"
  by (auto simp: slug_char_def passthrough_char_def)

lemma slug_plain: "list_all slug_char w \<Longrightarrow> w \<noteq> [] \<Longrightarrow> plain_seg w"
proof -
  assume "list_all slug_char w" "w \<noteq> []"
  moreover have "\<not> slug_char CHR ''.''" "\<not> slug_char CHR ''/''" using slug_no_dot by auto
  ultimately show ?thesis by (auto simp: plain_seg_def list_all_iff)
qed

lemma TrimSpace_lock:
  "TrimSpace (''locks/'' @ s @ ''.json'') = ''locks/'' @ s @ ''.json''"
proof -
  have "trim_left wide_spaces (''locks/'' @ s @ ''.json'') = ''locks/'' @ s @ ''.json''"
    by (subst trim_left.simps) (simp add: space_len_def wide_spaces_def ascii_spaces_def HasPrefix_def)
  moreover have "trim_left (map rev wide_spaces) (rev (''locks/'' @ s @ ''.json'')) = rev (''locks/'' @ s @ ''.json'')"
    by (subst trim_left.simps) (simp add: space_len_def wide_spaces_def ascii_spaces_def HasPrefix_def)
  ultimately show ?thesis by (simp add: TrimSpace_def)
qed

lemma canonical_lock_key:
  assumes "hex_digest sha" shows "canonical (lock_key sha p s)"
proof -
  define P where "P = SlugComponent sha p ''project''"
  define S where "S = SlugComponent sha s ''stack''"
  have P: "list_all slug_char P" "P \<noteq> []" and S: "list_all slug_char S" "S \<noteq> []"
    using SlugComponent_slug [OF assms] by (simp_all add: P_def S_def)
  let ?ws = "[''locks'', P, S @ ''.json'']"
  have k: "lock_key sha p s = Join ?ws ''/''" by (simp add: lock_key_def P_def S_def)
  have "plain_seg (S @ ''.json'')"
  proof -
    have "CHR ''/'' \<notin> set S" using S(1) slug_char_slash by (auto simp: list_all_iff)
    then show ?thesis using S(2) by (auto simp: plain_seg_def append_eq_Cons_conv)
  qed
  then have pl: "list_all plain_seg ?ws" using slug_plain [OF P] by (simp add: plain_seg_def)
  then have c: "path_Clean (lock_key sha p s) = lock_key sha p s" unfolding k by (rule path_Clean_plain) simp
  have seg: "Split_char CHR ''/'' (lock_key sha p s) = ?ws"
    unfolding k using Split_Join [OF _ plain_no_slash [OF pl]] by simp
  have nt: "\<not> HasPrefix w temporaryPrefix" if "w \<in> set ?ws" for w
  proof -
    obtain x xs where "P = x # xs" "x \<noteq> CHR ''.''" using P slug_no_dot by (cases P) auto
    moreover obtain y ys where "S = y # ys" "y \<noteq> CHR ''.''" using S slug_no_dot by (cases S) auto
    ultimately show ?thesis using that by (auto simp: HasPrefix_def temporaryPrefix_def)
  qed
  have "\<not> isInternalKey (lock_key sha p s)"
    unfolding isInternalKey_def isTemporaryKey_def seg using nt
    by (auto simp: list_ex_iff lock_key_def lockNamespace_def generationNamespace_def HasPrefix_def)
  moreover have "TrimSpace (lock_key sha p s) \<noteq> ''''"
    using TrimSpace_lock [of "P @ ''/'' @ S"] by (simp add: lock_key_def P_def S_def)
  moreover have "lock_key sha p s \<noteq> ''..'' \<and> lock_key sha p s \<noteq> ''.''
      \<and> \<not> HasPrefix (lock_key sha p s) ''/'' \<and> \<not> HasPrefix (lock_key sha p s) ''../''"
    by (simp add: lock_key_def HasPrefix_def)
  ultimately show ?thesis by (simp add: canonical_def cleanKey_def c Let_def)
qed

subsection \<open>Properties\<close>


definition gen_n :: "char \<Rightarrow> string" where "gen_n c = replicate 32 c"

definition sample_disk :: "string list \<Rightarrow> char Disk" where
  "sample_disk rs = \<lparr>d_files = [], d_dirs = [], d_gens = [], d_rands = rs, d_clock = 0, d_faults = []\<rparr>"

definition disk0 :: "char Disk" where "disk0 = sample_disk [gen_n CHR ''a'', gen_n CHR ''b'', gen_n CHR ''c'']"

definition sample_keys :: "string set" where "sample_keys = {''k'', ''j''}"

definition id_digest :: digest where "id_digest s = s"

lemma disk0_inv: "fs_inv id_digest sample_keys disk0"
  by (simp add: fs_inv_def disk0_def sample_disk_def gen_n_def id_digest_def sample_keys_def)

lemma sample_key: "key_in sample_keys ''k''"
proof -
  have "cleanKey ''k'' = Inr ''k''" by code_simp
  then show ?thesis by (simp add: key_in_def canonical_def sample_keys_def)
qed

definition disk1 :: "char Disk" where "disk1 = fst (fs_Put id_digest ''k'' ''one'' disk0)"

lemma disk1_inv: "fs_inv id_digest sample_keys disk1"
proof -
  have "targets sample_keys ''k''"
    using sample_key by (simp add: targets_def key_in_def canonical_def)
  then have "disk_step id_digest sample_keys disk0 disk1" unfolding disk1_def by (rule step_put)
  then show ?thesis using evolves_inv [OF _ disk0_inv] by (simp add: disk_evolves_def r_into_rtranclp)
qed


definition overtaken_get :: "char Disk \<times> (BlobErr + string \<times> Metadata)" where
  "overtaken_get =
     fs_Get_with (\<lambda>d. fst (fs_PutIfMatch id_digest ''k'' ''two'' (''generation:'' @ gen_n CHR ''a'') d))
       id_digest ''k'' disk1"

text \<open>
  A reader that is overtaken inside \<open>Get\<close> defeats the compare-and-swap. \<open>Get\<close> opens the file,
  and only then, without the shard lock, reads the object's generation. If another process
  replaces the object in between, \<open>Get\<close> returns the old content with the new version, so the reader's
  conditional write, computed from content that is no longer stored, is accepted and the other
  process's update is lost.
\<close>

theorem get_race_loses_update:
  "\<exists>d md d' md'.
     overtaken_get = (d, Inr (''one'', md))
     \<and> map_option f_data (map_of (d_files d) ''k'') = Some ''two''
     \<and> fs_PutIfMatch id_digest ''k'' ''one+'' (md_ETag md) d = (d', Inr md')
     \<and> map_option f_data (map_of (d_files d') ''k'') = Some ''one+''"
proof -
  have s: "snd overtaken_get
      = Inr (''one'', \<lparr>md_ETag = ''generation:'' @ gen_n CHR ''b'', md_LastModified = 0, md_Size = 3\<rparr>)"
    by code_simp
  have d: "map_option f_data (map_of (d_files (fst overtaken_get)) ''k'') = Some ''two''" by code_simp
  let ?p = "fs_PutIfMatch id_digest ''k'' ''one+'' (''generation:'' @ gen_n CHR ''b'') (fst overtaken_get)"
  have "snd ?p = Inr \<lparr>md_ETag = ''generation:'' @ gen_n CHR ''c'', md_LastModified = 0, md_Size = 4\<rparr>"
    by code_simp
  moreover have "map_option f_data (map_of (d_files (fst ?p)) ''k'') = Some ''one+''" by code_simp
  ultimately show ?thesis using s d
    by (intro exI [of _ "fst overtaken_get"] exI [of _ "\<lparr>md_ETag = ''generation:'' @ gen_n CHR ''b'', md_LastModified = 0, md_Size = 3\<rparr>"]
        exI [of _ "fst ?p"] exI [of _ "\<lparr>md_ETag = ''generation:'' @ gen_n CHR ''c'', md_LastModified = 0, md_Size = 4\<rparr>"])
      (simp add: prod_eq_iff)
qed

lemma writeAtomic_failed:
  "writeAtomic sha flt d key data = (d', Inl e) \<Longrightarrow> d_files d' = d_files d"
  by (auto simp: writeAtomic_def newGeneration_def writeGeneration_def
      dest: make_dir_same split: if_splits option.splits list.splits)

lemma locked_failed:
  assumes "locked key body d = (d', Inl e)"
    and "\<And>k flt d1 d2 e. body k flt d1 = (d2, Inl e) \<Longrightarrow> d_files d2 = d_files d1"
  shows "d_files d' = d_files d"
  using assms(1) assms(2) [of _ "cur_faults d" "begin_op d" d' e]
  by (fastforce simp: locked_def Let_def begin_op_def split: sum.splits if_splits)

text \<open>
  Failed writes do no harm. A \<open>Put\<close> or \<open>PutIfMatch\<close> that returns an error, for whatever reason and
  at whatever point it failed, leaves the content of every object as it was.
\<close>

theorem failed_write_keeps_content:
  assumes "fs_Put sha key data d = (d', Inl e) \<or> fs_PutIfMatch sha key data m d = (d', Inl e)"
  shows "d_files d' = d_files d"
  using assms
proof
  assume "fs_Put sha key data d = (d', Inl e)"
  then show ?thesis unfolding fs_Put_def by (rule locked_failed) (rule writeAtomic_failed)
next
  assume "fs_PutIfMatch sha key data m d = (d', Inl e)"
  then show ?thesis unfolding fs_PutIfMatch_def
    by (rule locked_failed) (auto dest: writeAtomic_failed split: sum.splits if_splits)
qed

definition failing_disk :: "char Disk" where "failing_disk = disk1\<lparr>d_faults := [[FRename]]\<rparr>"

theorem failed_write_keeps_content_witness:
  "snd (fs_Put id_digest ''k'' ''two'' failing_disk) = Inl (ErrIO ''rename'')
   \<and> d_files (fst (fs_Put id_digest ''k'' ''two'' failing_disk)) = d_files failing_disk"
proof -
  have e: "snd (fs_Put id_digest ''k'' ''two'' failing_disk) = Inl (ErrIO ''rename'')" by code_simp
  then have "fs_Put id_digest ''k'' ''two'' failing_disk
      = (fst (fs_Put id_digest ''k'' ''two'' failing_disk), Inl (ErrIO ''rename''))" by (simp add: prod_eq_iff)
  with failed_write_keeps_content [OF disjI1 [OF this]] e show ?thesis by simp
qed

text \<open>
  Containment of keys. A key the adapter accepts is resolved to a relative path whose segments are
  neither empty nor \<open>.\<close> nor \<open>..\<close>, outside the namespaces reserved for lock files, generations
  and temporary files.
\<close>

theorem cleanKey_contained:
  assumes "cleanKey key = Inr p"
  shows "(\<exists>ws. ws \<noteq> [] \<and> list_all plain_seg ws \<and> p = Join ws ''/'' \<and> Split_char CHR ''/'' p = ws)
       \<and> \<not> isInternalKey p \<and> path_Clean p = p"
proof -
  from assms have n: "\<not> HasPrefix key ''/''" "p = path_Clean key" "p \<noteq> ''..''" "p \<noteq> ''.''"
    "\<not> HasPrefix p ''../''" "\<not> isInternalKey p"
    by (auto simp: cleanKey_def Let_def split: if_splits)
  from n(1) obtain ws where ws: "list_all plain_seg ws" "ws \<noteq> []" "p = Join ws ''/''"
    by (rule path_Clean_relative) (use n in auto)
  with Split_Join [OF ws(2) plain_no_slash [OF ws(1)]] path_Clean_plain [OF ws(1,2)] n(6)
  show ?thesis by auto
qed

theorem cleanKey_contained_witness:
  "cleanKey ''runs/./pr-1//x/../manifest.json'' = Inr ''runs/pr-1/manifest.json''
   \<and> path_Clean ''runs/pr-1/manifest.json'' = ''runs/pr-1/manifest.json''"
proof -
  have c: "cleanKey ''runs/./pr-1//x/../manifest.json'' = Inr ''runs/pr-1/manifest.json''" by code_simp
  from cleanKey_contained [OF c] c show ?thesis by simp
qed

end
