(* ===== verification/LockStore.thy ===== *)
theory LockStore
  imports CoreLocks FileStore
begin

text \<open>
  The lock store, \<open>internal/blob/locks/store.go\<close>: the lock state machine over any blob store, with
  optimistic concurrency.

  \<open>LockEnv\<close> is the fixed part of Go's \<open>Store\<close> (the blob store, the retry bound, the clock, the
  JSON codec, the digest, what the write probe sends), \<open>LockState\<close> what calls change (the bucket, the
  probe's cached verdict, the number of clock readings so far). The codec is a pair of
  functions; what is used of it is that decoding inverts encoding. A transition passed to
  the retry loops gets the clock readings it makes, \<open>now 0\<close> and \<open>now 1\<close>.
\<close>

subsection \<open>State and errors\<close>

record ('s, 'c) LockEnv =
  e_store :: "('s, 'c) Store"
  e_MaxRetries :: nat
  e_clock :: "nat \<Rightarrow> go_time"
  e_marshal :: "Lock \<Rightarrow> 'c"
  e_unmarshal :: "'c \<Rightarrow> Lock option"
  e_sha :: digest
  e_probe_rnd :: "string option"
  e_probe_bodies :: "'c \<times> 'c \<times> 'c \<times> 'c"

record 's LockState =
  w_store :: 's
  w_cas :: CASProbe
  w_ticks :: nat

datatype LSErr = LSBlob BlobErr | LSDecode | LSProbe ProbeErr | LSLock LockErr | ErrHolderActive
  | LSKeyMismatch string | LSRetries nat

record lockSnapshot =
  sn_lock :: Lock
  sn_etag :: string

definition zero_lock :: Lock where
  "zero_lock = \<lparr>l_Project = '''', l_Stack = '''', l_Holder = None, l_Queue = [], l_UpdatedAt = ''''\<rparr>"

type_synonym transition = "(nat \<Rightarrow> go_time) \<Rightarrow> Lock \<Rightarrow> Lock \<times> bool \<times> LSErr option"

definition New_probe :: CASProbe where "New_probe = \<lparr>cp_probed = False, cp_err = None\<rparr>"

text \<open>A clock reading, and the two readings a transition may make.\<close>

definition Now :: "('s, 'c) LockEnv \<Rightarrow> 's LockState \<Rightarrow> go_time \<times> 's LockState" where
  "Now E w = (e_clock E (w_ticks w), w\<lparr>w_ticks := Suc (w_ticks w)\<rparr>)"

definition readings :: "('s, 'c) LockEnv \<Rightarrow> 's LockState \<Rightarrow> (nat \<Rightarrow> go_time) \<times> 's LockState" where
  "readings E w = ((\<lambda>i. e_clock E (w_ticks w + i)), w\<lparr>w_ticks := w_ticks w + 2\<rparr>)"

definition ensureCAS :: "('s, 'c) LockEnv \<Rightarrow> 's LockState \<Rightarrow> 's LockState \<times> LSErr option" where
  "ensureCAS E w =
     (case Ensure (e_store E) (e_probe_rnd E) (e_probe_bodies E) (w_cas w) (w_store w) of
        (s', p', err) \<Rightarrow> (w\<lparr>w_store := s', w_cas := p'\<rparr>, map_option LSProbe err))"

definition store_key :: "('s, 'c) LockEnv \<Rightarrow> string \<Rightarrow> string \<Rightarrow> string" where
  "store_key E project stack = lock_key (e_sha E) project stack"

subsection \<open>Reading\<close>

definition ls_Get ::
  "('s, 'c) LockEnv \<Rightarrow> string \<Rightarrow> string \<Rightarrow> 's LockState \<Rightarrow> 's LockState \<times> (LSErr + Lock \<times> string)" where
  "ls_Get E project stack w =
     (case s_Get (e_store E) (store_key E project stack) (w_store w) of
        (s', Inl e) \<Rightarrow>
          (let w' = w\<lparr>w_store := s'\<rparr> in
           if e = ErrNotFound
           then (case Now E w' of (t, w'') \<Rightarrow> (w'', Inr (NewLock project stack t, '''')))
           else (w', Inl (LSBlob e)))
      | (s', Inr (c, md)) \<Rightarrow>
          (w\<lparr>w_store := s'\<rparr>,
           case e_unmarshal E c of None \<Rightarrow> Inl LSDecode | Some l \<Rightarrow> Inr (l, md_ETag md)))"

definition getByKey ::
  "('s, 'c) LockEnv \<Rightarrow> string \<Rightarrow> 's LockState \<Rightarrow> 's LockState \<times> (LSErr + lockSnapshot)" where
  "getByKey E key w =
     (case s_Get (e_store E) key (w_store w) of
        (s', Inl e) \<Rightarrow> (w\<lparr>w_store := s'\<rparr>, Inl (LSBlob e))
      | (s', Inr (c, md)) \<Rightarrow>
          (w\<lparr>w_store := s'\<rparr>,
           case e_unmarshal E c of
             None \<Rightarrow> Inl LSDecode
           | Some l \<Rightarrow> Inr \<lparr>sn_lock = l, sn_etag = md_ETag md\<rparr>))"

definition identity_ok :: "('s, 'c) LockEnv \<Rightarrow> string \<Rightarrow> Lock \<Rightarrow> bool" where
  "identity_ok E key l \<longleftrightarrow>
     \<not> (l_Project l = '''' \<or> l_Stack l = '''' \<or> store_key E (l_Project l) (l_Stack l) \<noteq> key)"

definition snapshotFor ::
  "('s, 'c) LockEnv \<Rightarrow> string \<Rightarrow> 's LockState \<Rightarrow> 's LockState \<times> lockSnapshot option" where
  "snapshotFor E key w =
     (case getByKey E key w of
        (w', Inl _) \<Rightarrow> (w', None)
      | (w', Inr snapshot) \<Rightarrow>
          (w', if identity_ok E key (sn_lock snapshot) then Some snapshot else None))"

subsection \<open>The retry loops\<close>

text \<open>\<open>mutate\<close>: \<open>n\<close> attempts are left; the first call has \<open>MaxRetries + 1\<close>.\<close>

fun mutate_loop ::
  "('s, 'c) LockEnv \<Rightarrow> string \<Rightarrow> string \<Rightarrow> transition \<Rightarrow> nat \<Rightarrow> 's LockState
     \<Rightarrow> 's LockState \<times> Lock \<times> bool \<times> LSErr option" where
  "mutate_loop E project stack fn 0 w = (w, zero_lock, False, Some (LSRetries (e_MaxRetries E)))"
| "mutate_loop E project stack fn (Suc n) w =
     (case ls_Get E project stack w of
        (w1, Inl err) \<Rightarrow> (w1, zero_lock, False, Some err)
      | (w1, Inr (cur, etag)) \<Rightarrow>
          (case readings E w1 of (now, w2) \<Rightarrow>
           case fn now cur of (nxt, flag, fnErr) \<Rightarrow>
           case s_PutIfMatch (e_store E) (store_key E project stack) (e_marshal E nxt) etag (w_store w2) of
             (s', Inr _) \<Rightarrow> (w2\<lparr>w_store := s'\<rparr>, nxt, flag, fnErr)
           | (s', Inl putErr) \<Rightarrow>
               if putErr \<noteq> ErrPreconditionFailed
               then (w2\<lparr>w_store := s'\<rparr>, zero_lock, False, Some (LSBlob putErr))
               else mutate_loop E project stack fn n (w2\<lparr>w_store := s'\<rparr>)))"

definition mutate ::
  "('s, 'c) LockEnv \<Rightarrow> string \<Rightarrow> string \<Rightarrow> transition \<Rightarrow> 's LockState
     \<Rightarrow> 's LockState \<times> Lock \<times> bool \<times> LSErr option" where
  "mutate E project stack fn w =
     (case ensureCAS E w of
        (w', Some err) \<Rightarrow> (w', zero_lock, False, Some err)
      | (w', None) \<Rightarrow> mutate_loop E project stack fn (Suc (e_MaxRetries E)) w')"

text \<open>
  \<open>maintain\<close>: starts from a read the caller already made and writes only what changed. \<open>n\<close> is
  the number of retries left after this attempt.
\<close>

fun maintain_loop ::
  "('s, 'c) LockEnv \<Rightarrow> string \<Rightarrow> transition \<Rightarrow> nat \<Rightarrow> lockSnapshot \<Rightarrow> 's LockState
     \<Rightarrow> 's LockState \<times> Lock \<times> bool \<times> LSErr option" where
  "maintain_loop E key fn n snapshot w =
     (let cur = sn_lock snapshot in
      if \<not> identity_ok E key cur then (w, zero_lock, False, Some (LSKeyMismatch key))
      else
        case readings E w of (now, w1) \<Rightarrow>
        case fn now cur of (nxt, changed, err) \<Rightarrow>
        if err \<noteq> None \<or> \<not> changed then (w1, cur, False, err)
        else case ensureCAS E w1 of
               (w2, Some e) \<Rightarrow> (w2, zero_lock, False, Some e)
             | (w2, None) \<Rightarrow>
                 (case s_PutIfMatch (e_store E) key (e_marshal E nxt) (sn_etag snapshot) (w_store w2) of
                    (s', Inr _) \<Rightarrow> (w2\<lparr>w_store := s'\<rparr>, nxt, True, None)
                  | (s', Inl e) \<Rightarrow>
                      if e \<noteq> ErrPreconditionFailed
                      then (w2\<lparr>w_store := s'\<rparr>, zero_lock, False, Some (LSBlob e))
                      else (case n of
                              0 \<Rightarrow> (w2\<lparr>w_store := s'\<rparr>, zero_lock, False, Some (LSRetries (e_MaxRetries E)))
                            | Suc n' \<Rightarrow>
                                (case getByKey E key (w2\<lparr>w_store := s'\<rparr>) of
                                   (w3, Inl e3) \<Rightarrow>
                                     if e3 = LSBlob ErrNotFound
                                     then (case Now E w3 of (t, w4) \<Rightarrow>
                                           (w4, NewLock (l_Project cur) (l_Stack cur) t, False, None))
                                     else (w3, zero_lock, False, Some e3)
                                 | (w3, Inr snapshot') \<Rightarrow> maintain_loop E key fn n' snapshot' w3))))"

declare maintain_loop.simps [simp del]

definition maintain ::
  "('s, 'c) LockEnv \<Rightarrow> string \<Rightarrow> lockSnapshot \<Rightarrow> transition \<Rightarrow> 's LockState
     \<Rightarrow> 's LockState \<times> Lock \<times> bool \<times> LSErr option" where
  "maintain E key snapshot fn w = maintain_loop E key fn (e_MaxRetries E) snapshot w"

subsection \<open>Operations\<close>

definition acquire_fn :: "Holder \<Rightarrow> go_duration \<Rightarrow> transition" where
  "acquire_fn applicant ttl now cur =
     (case TryAcquire cur applicant ttl (now 0) of
        (nxt, ok, err) \<Rightarrow>
          if err = Some ErrAlreadyHolder then (nxt, True, None)
          else (nxt, ok, map_option LSLock err))"

definition ls_TryAcquire ::
  "('s, 'c) LockEnv \<Rightarrow> string \<Rightarrow> string \<Rightarrow> Holder \<Rightarrow> go_duration \<Rightarrow> 's LockState
     \<Rightarrow> 's LockState \<times> Lock \<times> bool \<times> LSErr option" where
  "ls_TryAcquire E project stack applicant ttl = mutate E project stack (acquire_fn applicant ttl)"

definition release_fn :: "int \<Rightarrow> string \<Rightarrow> go_duration \<Rightarrow> transition" where
  "release_fn pr runID ttl now cur =
     (case Release cur pr runID ttl (now 0) of (nxt, err) \<Rightarrow> (nxt, False, map_option LSLock err))"

definition ls_Release ::
  "('s, 'c) LockEnv \<Rightarrow> string \<Rightarrow> string \<Rightarrow> int \<Rightarrow> string \<Rightarrow> go_duration \<Rightarrow> 's LockState
     \<Rightarrow> 's LockState \<times> Lock \<times> LSErr option" where
  "ls_Release E project stack pr runID ttl w =
     (case mutate E project stack (release_fn pr runID ttl) w of (w', l, _, err) \<Rightarrow> (w', l, err))"

text \<open>The admin override reads the clock twice: for the promoted lease and for the update time.\<close>

definition force_fn :: "go_duration \<Rightarrow> transition" where
  "force_fn ttl now cur =
     ((forcePromoteQueue (cur\<lparr>l_Holder := None\<rparr>) (now 0) ttl)\<lparr>l_UpdatedAt := fmt_rfc3339 (now 1)\<rparr>,
      False, None)"

definition ls_ForceUnlock ::
  "('s, 'c) LockEnv \<Rightarrow> string \<Rightarrow> string \<Rightarrow> go_duration \<Rightarrow> 's LockState
     \<Rightarrow> 's LockState \<times> Lock \<times> LSErr option" where
  "ls_ForceUnlock E project stack ttl w =
     (case mutate E project stack (force_fn ttl) w of (w', l, _, err) \<Rightarrow> (w', l, err))"

definition holderActive :: "Lock \<Rightarrow> int \<Rightarrow> string \<Rightarrow> go_time \<Rightarrow> bool" where
  "holderActive l pr runID now =
     (case l_Holder l of
        None \<Rightarrow> False
      | Some h \<Rightarrow>
          if h_PR h \<noteq> pr then False
          else if runID \<noteq> '''' \<and> h_RunID h \<noteq> runID then False
          else case parse_rfc3339 (h_ExpiresAt h) of None \<Rightarrow> False | Some exp \<Rightarrow> now < exp)"

definition unlock_fn :: "int \<Rightarrow> string \<Rightarrow> go_duration \<Rightarrow> bool \<Rightarrow> transition" where
  "unlock_fn pr runID ttl force now cur =
     (if \<not> force \<and> holderActive cur pr runID (now 0) then (cur, False, Some ErrHolderActive)
      else let nxt = UnlockPR cur pr runID ttl (now 1);
               sameHolder = (l_Holder cur = l_Holder nxt)
           in (nxt, \<not> sameHolder \<or> l_Queue cur \<noteq> l_Queue nxt, None))"

definition unlockSnapshot ::
  "('s, 'c) LockEnv \<Rightarrow> string \<Rightarrow> lockSnapshot \<Rightarrow> int \<Rightarrow> string \<Rightarrow> go_duration \<Rightarrow> bool \<Rightarrow> 's LockState
     \<Rightarrow> 's LockState \<times> Lock \<times> bool \<times> LSErr option" where
  "unlockSnapshot E key snapshot pr runID ttl force = maintain E key snapshot (unlock_fn pr runID ttl force)"

definition ls_UnlockPR ::
  "('s, 'c) LockEnv \<Rightarrow> string \<Rightarrow> string \<Rightarrow> int \<Rightarrow> string \<Rightarrow> go_duration \<Rightarrow> bool \<Rightarrow> 's LockState
     \<Rightarrow> 's LockState \<times> Lock \<times> LSErr option" where
  "ls_UnlockPR E project stack pr runID ttl force w =
     (case ls_Get E project stack w of
        (w1, Inl err) \<Rightarrow> (w1, zero_lock, Some err)
      | (w1, Inr (l, etag)) \<Rightarrow>
          (case unlockSnapshot E (store_key E project stack) \<lparr>sn_lock = l, sn_etag = etag\<rparr> pr runID ttl force w1 of
             (w2, l', _, err) \<Rightarrow> (w2, l', err)))"

definition reap_fn :: "go_duration \<Rightarrow> transition" where
  "reap_fn ttl now cur = (case Reap cur ttl (now 0) of (nxt, ev) \<Rightarrow> (nxt, ev, None))"

definition reapSnapshot ::
  "('s, 'c) LockEnv \<Rightarrow> string \<Rightarrow> lockSnapshot \<Rightarrow> go_duration \<Rightarrow> 's LockState
     \<Rightarrow> 's LockState \<times> Lock \<times> bool \<times> LSErr option" where
  "reapSnapshot E key snapshot ttl = maintain E key snapshot (reap_fn ttl)"

definition ls_Reap ::
  "('s, 'c) LockEnv \<Rightarrow> string \<Rightarrow> string \<Rightarrow> go_duration \<Rightarrow> 's LockState
     \<Rightarrow> 's LockState \<times> Lock \<times> bool \<times> LSErr option" where
  "ls_Reap E project stack ttl w =
     (case ls_Get E project stack w of
        (w1, Inl err) \<Rightarrow> (w1, zero_lock, False, Some err)
      | (w1, Inr (l, etag)) \<Rightarrow>
          reapSnapshot E (store_key E project stack) \<lparr>sn_lock = l, sn_etag = etag\<rparr> ttl w1)"

definition involvesPR :: "Lock \<Rightarrow> int \<Rightarrow> bool" where
  "involvesPR l pr \<longleftrightarrow>
     (case l_Holder l of Some h \<Rightarrow> h_PR h = pr | None \<Rightarrow> False) \<or> list_ex (\<lambda>q. q_PR q = pr) (l_Queue l)"

subsection \<open>Walks over every lock\<close>

fun unlock_walk ::
  "('s, 'c) LockEnv \<Rightarrow> int \<Rightarrow> string \<Rightarrow> go_duration \<Rightarrow> bool \<Rightarrow> string list \<Rightarrow> int \<Rightarrow> string list
     \<Rightarrow> 's LockState \<Rightarrow> 's LockState \<times> int \<times> string list \<times> LSErr option" where
  "unlock_walk E pr runID ttl force [] n act w = (w, n, act, None)"
| "unlock_walk E pr runID ttl force (k # ks) n act w =
     (if \<not> HasSuffix k ''.json'' then unlock_walk E pr runID ttl force ks n act w
      else case snapshotFor E k w of
             (w1, None) \<Rightarrow> unlock_walk E pr runID ttl force ks n act w1
           | (w1, Some snapshot) \<Rightarrow>
               let cur = sn_lock snapshot in
               if \<not> involvesPR cur pr then unlock_walk E pr runID ttl force ks n act w1
               else case unlockSnapshot E k snapshot pr runID ttl force w1 of
                      (w2, _, changed, None) \<Rightarrow>
                        unlock_walk E pr runID ttl force ks (if changed then n + 1 else n) act w2
                    | (w2, _, _, Some err) \<Rightarrow>
                        if err = ErrHolderActive
                        then unlock_walk E pr runID ttl force ks n (act @ [l_Project cur @ ''/'' @ l_Stack cur]) w2
                        else (w2, n, act, Some err))"

definition UnlockPRAll ::
  "('s, 'c) LockEnv \<Rightarrow> int \<Rightarrow> string \<Rightarrow> go_duration \<Rightarrow> bool \<Rightarrow> 's LockState
     \<Rightarrow> 's LockState \<times> int \<times> string list \<times> LSErr option" where
  "UnlockPRAll E pr runID ttl force w =
     (case s_List (e_store E) ''locks'' (w_store w) of
        (s', Inl e) \<Rightarrow> (w\<lparr>w_store := s'\<rparr>, 0, [], Some (LSBlob e))
      | (s', Inr keys) \<Rightarrow> unlock_walk E pr runID ttl force keys 0 [] (w\<lparr>w_store := s'\<rparr>))"

fun reap_walk ::
  "('s, 'c) LockEnv \<Rightarrow> go_duration \<Rightarrow> string list \<Rightarrow> int \<Rightarrow> 's LockState \<Rightarrow> 's LockState \<times> int \<times> LSErr option" where
  "reap_walk E ttl [] n w = (w, n, None)"
| "reap_walk E ttl (k # ks) n w =
     (if \<not> HasSuffix k ''.json'' then reap_walk E ttl ks n w
      else case snapshotFor E k w of
             (w1, None) \<Rightarrow> reap_walk E ttl ks n w1
           | (w1, Some snapshot) \<Rightarrow>
               (case reapSnapshot E k snapshot ttl w1 of
                  (w2, _, _, Some err) \<Rightarrow> (w2, n, Some err)
                | (w2, _, ev, None) \<Rightarrow> reap_walk E ttl ks (if ev then n + 1 else n) w2))"

definition ReapAll ::
  "('s, 'c) LockEnv \<Rightarrow> go_duration \<Rightarrow> 's LockState \<Rightarrow> 's LockState \<times> int \<times> LSErr option" where
  "ReapAll E ttl w =
     (case s_List (e_store E) ''locks'' (w_store w) of
        (s', Inl e) \<Rightarrow> (w\<lparr>w_store := s'\<rparr>, 0, Some (LSBlob e))
      | (s', Inr keys) \<Rightarrow> reap_walk E ttl keys 0 (w\<lparr>w_store := s'\<rparr>))"

fun list_walk ::
  "('s, 'c) LockEnv \<Rightarrow> string list \<Rightarrow> Lock list \<Rightarrow> 's LockState \<Rightarrow> 's LockState \<times> Lock list" where
  "list_walk E [] out w = (w, out)"
| "list_walk E (k # ks) out w =
     (if \<not> HasSuffix k ''.json'' then list_walk E ks out w
      else case snapshotFor E k w of
             (w1, None) \<Rightarrow> list_walk E ks out w1
           | (w1, Some snapshot) \<Rightarrow> list_walk E ks (out @ [sn_lock snapshot]) w1)"

definition ListAll :: "('s, 'c) LockEnv \<Rightarrow> 's LockState \<Rightarrow> 's LockState \<times> (LSErr + Lock list)" where
  "ListAll E w =
     (case s_List (e_store E) ''locks'' (w_store w) of
        (s', Inl e) \<Rightarrow> (w\<lparr>w_store := s'\<rparr>, Inl (LSBlob e))
      | (s', Inr keys) \<Rightarrow> (case list_walk E keys [] (w\<lparr>w_store := s'\<rparr>) of (w', out) \<Rightarrow> (w', Inr out)))"

text \<open>
  One tick of the heartbeat goroutine: \<open>interval\<close> is its period, \<open>heartbeat_tick\<close> the refresh.
\<close>

definition heartbeat_interval :: "go_duration \<Rightarrow> go_duration" where
  "heartbeat_interval ttl = (let interval = ttl div 3 in if interval \<le> 0 then second else interval)"

definition heartbeat_tick ::
  "('s, 'c) LockEnv \<Rightarrow> string \<Rightarrow> string \<Rightarrow> Holder \<Rightarrow> go_duration \<Rightarrow> 's LockState \<Rightarrow> 's LockState" where
  "heartbeat_tick E project stack holder ttl w = fst (ls_TryAcquire E project stack holder ttl w)"

subsection \<open>Every committed operation is one atomic transition\<close>

text \<open>
  The lock a stored object stands for: a fresh one when there is none.
\<close>

definition stored_lock ::
  "('c \<Rightarrow> Lock option) \<Rightarrow> (string \<times> 'c) option \<Rightarrow> string \<Rightarrow> string \<Rightarrow> Lock \<Rightarrow> bool" where
  "stored_lock um ob p s l =
     (case ob of None \<Rightarrow> (\<exists>t. l = NewLock p s t) | Some (v, c) \<Rightarrow> um c = Some l)"

text \<open>Errors that come from the transition itself, after its result was written.\<close>

definition transition_result :: "LSErr option \<Rightarrow> bool" where
  "transition_result err \<longleftrightarrow> err = None \<or> (\<exists>e. err = Some (LSLock e)) \<or> err = Some ErrHolderActive"

lemma w_store_simps [simp]:
  "w_store (snd (Now E w)) = w_store w" "w_store (snd (readings E w)) = w_store w"
  by (simp_all add: Now_def readings_def)

definition probe_key_ok :: "(string \<Rightarrow> bool) \<Rightarrow> ('s, 'c) LockEnv \<Rightarrow> bool" where
  "probe_key_ok K E \<longleftrightarrow> (\<forall>sfx. e_probe_rnd E = Some sfx \<longrightarrow> K (casProbePrefix @ sfx))"

definition snapshot_valid ::
  "('s, 'c) LockEnv \<Rightarrow> ('s \<Rightarrow> string \<Rightarrow> (string \<times> 'c) option) \<Rightarrow> string \<Rightarrow> lockSnapshot \<Rightarrow> 's \<Rightarrow> bool" where
  "snapshot_valid E ob key sn s \<longleftrightarrow>
     (\<exists>c. ob s key = Some (sn_etag sn, c) \<and> e_unmarshal E c = Some (sn_lock sn))
     \<or> sn_etag sn = '''' \<and> (\<exists>p k t. sn_lock sn = NewLock p k t)"

context cas_store
begin

lemma ls_Get_keeps:
  assumes "e_store E = B" and "inv (w_store w)" and "keys_ok (store_key E p s)"
    and "ls_Get E p s w = (w', r)"
  shows "inv (w_store w') \<and> evolves (w_store w) (w_store w')"
proof -
  obtain s' g where g: "s_Get B (store_key E p s) (w_store w) = (s', g)" by fastforce
  from get_law [OF assms(2,3) g] have k: "inv s'" "evolves (w_store w) s'" by auto
  have "w_store w' = s'"
    using assms(1,4) g by (auto simp: ls_Get_def Let_def Now_def split: sum.splits if_splits)
  with k show ?thesis by simp
qed

lemma ls_Get_valid:
  assumes "e_store E = B" and "inv (w_store w)" and "keys_ok (store_key E p s)"
    and "ls_Get E p s w = (w', Inr (cur, etag))"
  shows "(\<exists>c. obj (w_store w') (store_key E p s) = Some (etag, c) \<and> e_unmarshal E c = Some cur)
       \<or> etag = '''' \<and> (\<exists>t. cur = NewLock p s t)"
proof -
  obtain s' g where g: "s_Get B (store_key E p s) (w_store w) = (s', g)" by fastforce
  note l = get_law [OF assms(2,3) g]
  from assms(1,4) g l show ?thesis
    by (auto simp: ls_Get_def Let_def Now_def split: sum.splits if_splits option.splits)
qed

lemma put_commits:
  assumes i: "inv s0" and ev: "evolves s0 s" and is1: "inv s" and k: "keys_ok key"
    and sn: "(\<exists>c. obj s0 key = Some (etag, c) \<and> e_unmarshal E c = Some cur)
             \<or> etag = '''' \<and> (\<exists>t. cur = NewLock p st t)"
    and put: "s_PutIfMatch B key c' etag s = (s', Inr md)"
  obtains t where "evolves s t" and "inv t" and "evolves t s'" and "inv s'"
    and "stored_lock (e_unmarshal E) (obj t key) p st cur"
    and "obj s' = (obj t)(key \<mapsto> (md_ETag md, c'))"
proof -
  from put_law [OF is1 k put] obtain t where t: "evolves s t" "inv t" "evolves t s'" "inv s'"
    "if etag = '''' then obj t key = None else \<exists>c'. obj t key = Some (etag, c')"
    "obj s' = (obj t)(key \<mapsto> (md_ETag md, c'))" by auto
  have "stored_lock (e_unmarshal E) (obj t key) p st cur"
    using sn
  proof
    assume "\<exists>c. obj s0 key = Some (etag, c) \<and> e_unmarshal E c = Some cur"
    then obtain c where c: "obj s0 key = Some (etag, c)" "e_unmarshal E c = Some cur" by blast
    with version_nonempty [OF i, of key c] have "etag \<noteq> ''''" by auto
    with t(5) obtain c2 where c2: "obj t key = Some (etag, c2)" by auto
    from version_law [OF i evolves_trans [OF ev t(1)] c(1) c2] c c2 show ?thesis
      by (simp add: stored_lock_def)
  next
    assume "etag = '''' \<and> (\<exists>t. cur = NewLock p st t)"
    with t(5) show ?thesis by (simp add: stored_lock_def)
  qed
  with that t show thesis by blast
qed

lemma mutate_loop_commits:
  assumes "e_store E = B" and "inv (w_store w)" and "keys_ok (store_key E p s)"
    and "mutate_loop E p s fn n w = (w', l, flag, err)" and "transition_result err"
  shows "\<exists>t cur now v. evolves (w_store w) t \<and> evolves t (w_store w') \<and> inv (w_store w')
     \<and> stored_lock (e_unmarshal E) (obj t (store_key E p s)) p s cur
     \<and> fn now cur = (l, flag, err)
     \<and> obj (w_store w') = (obj t)(store_key E p s \<mapsto> (v, e_marshal E l))"
  using assms
proof (induction n arbitrary: w)
  case 0
  then show ?case by (auto simp: transition_result_def)
next
  case (Suc n)
  let ?k = "store_key E p s"
  obtain w1 r where g: "ls_Get E p s w = (w1, r)" by fastforce
  from ls_Get_keeps [OF Suc.prems(1-3) g] have w1: "inv (w_store w1)" "evolves (w_store w) (w_store w1)" by auto
  show ?case
  proof (cases r)
    case (Inl e)
    then have "e \<noteq> ErrHolderActive \<and> (\<forall>x. e \<noteq> LSLock x)"
      using g by (auto simp: ls_Get_def Let_def Now_def split: sum.splits if_splits prod.splits option.splits)
    with Suc.prems g Inl show ?thesis by (auto simp: transition_result_def)
  next
    case (Inr x)
    obtain cur etag where x: "x = (cur, etag)" by fastforce
    obtain now w2 where rd: "readings E w1 = (now, w2)" by fastforce
    then have w2: "w_store w2 = w_store w1" by (auto simp: readings_def)
    obtain nxt fl fe where fn: "fn now cur = (nxt, fl, fe)" by (cases "fn now cur")
    obtain s' pr where put: "s_PutIfMatch B ?k (e_marshal E nxt) etag (w_store w2) = (s', pr)" by fastforce
    note v = ls_Get_valid [OF Suc.prems(1-3), of w1 cur etag, OF g [unfolded Inr x]]
    show ?thesis
    proof (cases pr)
      case (Inr md)
      with Suc.prems(1,4) g rd fn put \<open>r = Inr x\<close> x have e: "w' = w2\<lparr>w_store := s'\<rparr>" "l = nxt" "flag = fl" "err = fe"
        by auto
      from put [unfolded Inr w2] obtain t where t: "evolves (w_store w1) t" "evolves t s'" "inv s'"
        "stored_lock (e_unmarshal E) (obj t ?k) p s cur"
        "obj s' = (obj t)(?k \<mapsto> (md_ETag md, e_marshal E nxt))"
        using put_commits [OF w1(1) evolves_refl w1(1) Suc.prems(3) v] by metis
      with e fn evolves_trans [OF w1(2) t(1)] show ?thesis by auto
    next
      case (Inl pe)
      from put_law [OF _ Suc.prems(3) put] w1 w2 have s': "inv s'" "evolves (w_store w1) s'" by auto
      show ?thesis
      proof (cases "pe = ErrPreconditionFailed")
        case False
        with Suc.prems g rd fn put \<open>r = Inr x\<close> x Inl show ?thesis by (auto simp: transition_result_def)
      next
        case True
        with Suc.prems(1,4) g rd fn put \<open>r = Inr x\<close> x Inl
        have "mutate_loop E p s fn n (w2\<lparr>w_store := s'\<rparr>) = (w', l, flag, err)" by simp
        note ih = Suc.IH [OF Suc.prems(1) _ Suc.prems(3) this Suc.prems(5)]
        have "inv (w_store (w2\<lparr>w_store := s'\<rparr>))" using s' by simp
        from ih [OF this] obtain t cur' now' v' where
          t: "evolves s' t" "evolves t (w_store w')" "inv (w_store w')"
          "stored_lock (e_unmarshal E) (obj t ?k) p s cur'" "fn now' cur' = (l, flag, err)"
          "obj (w_store w') = (obj t)(?k \<mapsto> (v', e_marshal E l))" by (simp del: fun_upd_apply) blast
        moreover have "evolves (w_store w) t"
          using evolves_trans [OF w1(2) evolves_trans [OF s'(2) t(1)]] .
        ultimately show ?thesis by blast
      qed
    qed
  qed
qed

lemma ensureCAS_keeps:
  assumes "e_store E = B" and "inv (w_store w)" and "probe_key_ok keys_ok E"
    and "ensureCAS E w = (w', err)"
  shows "inv (w_store w') \<and> evolves (w_store w) (w_store w')"
  using ensure_keeps [OF assms(2), of "e_probe_rnd E" "e_probe_bodies E" "w_cas w"] assms
  by (auto simp: ensureCAS_def probe_key_ok_def split: prod.splits)

lemma mutate_commits:
  assumes "e_store E = B" and "inv (w_store w)" and "keys_ok (store_key E p s)" and "probe_key_ok keys_ok E"
    and "mutate E p s fn w = (w', l, flag, err)" and "transition_result err"
  shows "\<exists>t cur now v. evolves (w_store w) t \<and> evolves t (w_store w') \<and> inv (w_store w')
     \<and> stored_lock (e_unmarshal E) (obj t (store_key E p s)) p s cur
     \<and> fn now cur = (l, flag, err)
     \<and> obj (w_store w') = (obj t)(store_key E p s \<mapsto> (v, e_marshal E l))"
proof -
  obtain w1 e where c: "ensureCAS E w = (w1, e)" by fastforce
  from ensureCAS_keeps [OF assms(1,2,4) c] have w1: "inv (w_store w1)" "evolves (w_store w) (w_store w1)" by auto
  have "e = None" using assms(5,6) c
    by (cases e) (auto simp: mutate_def transition_result_def ensureCAS_def split: prod.splits)
  with assms(5) c have "mutate_loop E p s fn (Suc (e_MaxRetries E)) w1 = (w', l, flag, err)"
    by (simp add: mutate_def)
  from mutate_loop_commits [OF assms(1) w1(1) assms(3) this assms(6)] evolves_trans [OF w1(2)]
  show ?thesis by blast
qed

end

context cas_store
begin

lemma getByKey_valid:
  assumes "e_store E = B" and "inv (w_store w)" and "keys_ok key" and "getByKey E key w = (w', r)"
  shows "inv (w_store w') \<and> evolves (w_store w) (w_store w')
     \<and> (\<forall>sn. r = Inr sn \<longrightarrow> snapshot_valid E obj key sn (w_store w'))"
proof -
  obtain s' g where g: "s_Get B key (w_store w) = (s', g)" by fastforce
  from get_law [OF assms(2,3) g] assms(1,4) g show ?thesis
    by (auto simp: getByKey_def snapshot_valid_def split: sum.splits option.splits)
qed

text \<open>
  A maintenance write replaces the lock that is stored, and only when the lock's own name is the
  name of the object it was read from.
\<close>

lemma maintain_loop_commits:
  assumes "e_store E = B" and "probe_key_ok keys_ok E" and "keys_ok key"
    and "inv s0" and "evolves s0 (w_store w)" and "inv (w_store w)" and "snapshot_valid E obj key sn s0"
    and "maintain_loop E key fn n sn w = (w', l, True, err)"
  shows "\<exists>t cur now v. evolves (w_store w) t \<and> evolves t (w_store w') \<and> inv (w_store w')
     \<and> identity_ok E key cur
     \<and> stored_lock (e_unmarshal E) (obj t key) (l_Project cur) (l_Stack cur) cur
     \<and> fn now cur = (l, True, None) \<and> err = None
     \<and> obj (w_store w') = (obj t)(key \<mapsto> (v, e_marshal E l))"
  using assms
proof (induction n arbitrary: s0 sn w rule: less_induct)
  case (less n)
  note E = less.prems(1) and K = less.prems(3) and m = less.prems(8) [unfolded maintain_loop.simps [of E key fn n sn w] Let_def]
  define cur where "cur = sn_lock sn"
  obtain now w1 where rd: "readings E w = (now, w1)" by fastforce
  then have w1: "w_store w1 = w_store w" by (auto simp: readings_def)
  obtain nxt ch fe where fn: "fn now cur = (nxt, ch, fe)" by (cases "fn now cur")
  obtain w2 ce where ce: "ensureCAS E w1 = (w2, ce)" by fastforce
  from ensureCAS_keeps [OF E _ less.prems(2) ce] less.prems(6) w1
  have w2: "inv (w_store w2)" "evolves (w_store w) (w_store w2)" by auto
  obtain s' pr where put: "s_PutIfMatch B key (e_marshal E nxt) (sn_etag sn) (w_store w2) = (s', pr)" by fastforce
  have id: "identity_ok E key cur" and ok: "fe = None" "ch" "ce = None"
    using m rd fn ce by (auto simp: cur_def split: if_splits option.splits)
  show ?case
  proof (cases pr)
    case (Inr md)
    with m id ok rd fn ce put E have e: "w' = w2\<lparr>w_store := s'\<rparr>" "l = nxt" "err = None" by (auto simp: cur_def)
    have v: "(\<exists>c. obj s0 key = Some (sn_etag sn, c) \<and> e_unmarshal E c = Some cur)
        \<or> sn_etag sn = '''' \<and> (\<exists>t. cur = NewLock (l_Project cur) (l_Stack cur) t)"
      using less.prems(7) by (auto simp: snapshot_valid_def cur_def NewLock_def)
    from put [unfolded Inr] obtain t where "evolves (w_store w2) t" "evolves t s'" "inv s'"
      "stored_lock (e_unmarshal E) (obj t key) (l_Project cur) (l_Stack cur) cur"
      "obj s' = (obj t)(key \<mapsto> (md_ETag md, e_marshal E nxt))"
      using put_commits [OF less.prems(4) evolves_trans [OF less.prems(5) w2(2)] w2(1) K v] by metis
    with e fn ok id evolves_trans [OF w2(2)] show ?thesis by auto
  next
    case (Inl e)
    from put_law [OF w2(1) K put] have s': "inv s'" "evolves (w_store w2) s'" by auto
    from m id ok rd fn ce put E Inl obtain n' where n': "n = Suc n'" and pe: "e = ErrPreconditionFailed"
      by (cases n) (auto simp: cur_def split: if_splits)
    obtain w3 r where g: "getByKey E key (w2\<lparr>w_store := s'\<rparr>) = (w3, r)" by fastforce
    from getByKey_valid [OF E _ K g] s'
    have w3: "inv (w_store w3)" "evolves s' (w_store w3)"
      "\<forall>sn. r = Inr sn \<longrightarrow> snapshot_valid E obj key sn (w_store w3)" by auto
    from m id ok rd fn ce put E Inl n' pe g obtain sn' where sn': "r = Inr sn'"
      by (cases r) (auto simp: cur_def Now_def split: if_splits)
    with m id ok rd fn ce put E Inl n' pe g have "maintain_loop E key fn n' sn' w3 = (w', l, True, err)"
      by (simp add: cur_def)
    note ih = less.IH [OF _ E less.prems(2) K w3(1) evolves_refl w3(1) _ this]
    have "n' < n" "snapshot_valid E obj key sn' (w_store w3)" using sn' w3(3) n' by auto
    from ih [OF this] obtain t cur' now' v' where t: "evolves (w_store w3) t" "evolves t (w_store w')" "inv (w_store w')"
      "identity_ok E key cur'" "stored_lock (e_unmarshal E) (obj t key) (l_Project cur') (l_Stack cur') cur'"
      "fn now' cur' = (l, True, None)" "err = None"
      "obj (w_store w') = (obj t)(key \<mapsto> (v', e_marshal E l))" by blast
    moreover have "evolves (w_store w) t"
      using evolves_trans [OF evolves_trans [OF evolves_trans [OF w2(2) s'(2)] w3(2)] t(1)] .
    ultimately show ?thesis by blast
  qed
qed

text \<open>A transition that changes nothing writes nothing: the bucket is as it was.\<close>

lemma maintain_no_write:
  assumes "fn (fst (readings E w)) (sn_lock sn) = (nxt, changed, err)" and "\<not> changed \<or> err \<noteq> None"
  shows "w_store (fst (maintain E key sn fn w)) = w_store w"
  using assms
  by (auto simp: maintain_def maintain_loop.simps [of E key fn _ sn w] readings_def Let_def)

end

subsection \<open>On the filesystem, among other processes\<close>

interpretation sfs: cas_store "shared (filesystem dig)" "\<lambda>w. fs_obj dig U (fst w)"
  "world_inv (fs_inv dig U) (disk_evolves dig U)" "world_evolves (disk_evolves dig U)" "key_in U"
  for dig :: digest and U :: "string set"
  by (rule fs.shared_cas)

type_synonym 'b world = "'b Disk \<times> ('b Disk \<Rightarrow> 'b Disk) list"

text \<open>
  The set-up of a deployment: a shared bucket directory, a codec that inverts itself, SHA-256
  hexadecimal digests in the lock keys, and \<open>U\<close> covering the stack's key and the probe's.
\<close>

definition lock_env_ok ::
  "digest \<Rightarrow> string set \<Rightarrow> string \<Rightarrow> string \<Rightarrow> ('b world, 'b list) LockEnv \<Rightarrow> bool" where
  "lock_env_ok dig U p s E \<longleftrightarrow>
     e_store E = shared (filesystem dig) \<and> (\<forall>l. e_unmarshal E (e_marshal E l) = Some l)
     \<and> hex_digest (e_sha E) \<and> store_key E p s \<in> U \<and> probe_key_ok (key_in U) E"

lemma lock_env_key: "lock_env_ok dig U p s E \<Longrightarrow> key_in U (store_key E p s)"
  by (auto simp: lock_env_ok_def key_in_def store_key_def intro: canonical_lock_key)

definition all_wf :: "('c \<Rightarrow> Lock option) \<Rightarrow> (string \<Rightarrow> (string \<times> 'c) option) \<Rightarrow> bool" where
  "all_wf um ob \<longleftrightarrow> (\<forall>k v c l. ob k = Some (v, c) \<longrightarrow> um c = Some l \<longrightarrow> lock_wf l)"

lemma stored_lock_wf: "stored_lock um (ob k) p s cur \<Longrightarrow> all_wf um ob \<Longrightarrow> lock_wf cur"
  by (auto simp: stored_lock_def all_wf_def wf_NewLock split: option.splits)

lemma all_wf_update:
  "all_wf um ob \<Longrightarrow> um c = Some l \<Longrightarrow> lock_wf l \<Longrightarrow> all_wf um (ob(k \<mapsto> (v, c)))"
  by (auto simp: all_wf_def)

lemma acquire_fn_core:
  assumes "acquire_fn a ttl now cur = (l, ok, err)"
  shows "\<exists>e. TryAcquire cur a ttl (now 0) = (l, ok, e)"
proof -
  obtain l' ok' e where t: "TryAcquire cur a ttl (now 0) = (l', ok', e)" by (cases "TryAcquire cur a ttl (now 0)")
  moreover have "e = Some ErrAlreadyHolder \<Longrightarrow> ok'"
    using t by (auto simp: TryAcquire_def Let_def split: option.splits if_splits)
  ultimately show ?thesis using assms by (auto simp: acquire_fn_def split: if_splits)
qed

subsection \<open>Properties\<close>


definition lock_codec :: "Lock list \<Rightarrow> Lock option" where
  "lock_codec c = (case c of [l] \<Rightarrow> Some l | _ \<Rightarrow> None)"

definition sample_env :: "(Lock world, Lock list) LockEnv" where
  "sample_env =
     \<lparr>e_store = shared (filesystem id_digest), e_MaxRetries = 5, e_clock = (\<lambda>n. int n * second),
      e_marshal = (\<lambda>l. [l]), e_unmarshal = lock_codec, e_sha = zero_digest, e_probe_rnd = None,
      e_probe_bodies = ([], [], [], [])\<rparr>"

definition sample_world :: "Lock world LockState" where
  "sample_world =
     \<lparr>w_store = (\<lparr>d_files = [], d_dirs = [], d_gens = [], d_rands = [gen_n CHR ''a'', gen_n CHR ''b'', gen_n CHR ''c''],
                  d_clock = 0, d_faults = []\<rparr>, []),
      w_cas = \<lparr>cp_probed = True, cp_err = None\<rparr>, w_ticks = 0\<rparr>"

definition sample_U :: "string set" where "sample_U = {''locks/api/prod.json''}"

lemma sample_env_ok: "lock_env_ok id_digest sample_U ''api'' ''prod'' sample_env"
proof -
  have "store_key sample_env ''api'' ''prod'' = ''locks/api/prod.json''" by code_simp
  then show ?thesis
    using hex_zero_digest
    by (simp add: lock_env_ok_def sample_env_def lock_codec_def sample_U_def probe_key_ok_def)
qed

lemma sample_world_inv:
  "world_inv (fs_inv id_digest sample_U) (disk_evolves id_digest sample_U) (w_store sample_world)"
  by (simp add: world_inv_def env_ok_def fs_inv_def sample_world_def sample_U_def gen_n_def)


lemma unlock_fn_changed:
  assumes "unlock_fn pr run ttl False now cur = (l, True, None)"
  shows "\<not> holderActive cur pr run (now 0) \<and> l = UnlockPR cur pr run ttl (now 1)"
  using assms by (auto simp: unlock_fn_def Let_def split: if_splits)

lemma UnlockPR_holder:
  assumes "l_Holder cur = Some h" and "h_PR h \<noteq> pr"
  shows "l_Holder (UnlockPR cur pr run ttl now) = Some h"
  using assms by (simp add: UnlockPR_def)

lemma UnlockPR_queue: "pr \<notin> q_PR ` set (l_Queue (UnlockPR cur pr run ttl now))"
  by (simp add: UnlockPR_def Let_def)

text \<open>
  Cleanup without \<open>--force\<close> never clears a live holder. When \<open>unlockSnapshot\<close> (the step behind
  \<open>UnlockPR\<close> and \<open>UnlockPRAll\<close>) with \<open>force=false\<close> changes the bucket at all, it replaced the
  lock stored at that instant, found under its own name, by one whose holder is the same unless
  that holder was the pull request itself with no active lease, and the
  pull request is in neither queue nor, unless another of its runs holds it, holder.
\<close>

theorem unforced_unlock_safe:
  fixes E :: "('b world, 'b list) LockEnv"
  assumes "lock_env_ok dig U p s E" and "world_inv (fs_inv dig U) (disk_evolves dig U) (w_store w)"
    and "key_in U key" and "snapshot_valid E (\<lambda>d. fs_obj dig U (fst d)) key sn (w_store w)"
    and "unlockSnapshot E key sn pr run ttl False w = (w', l, True, err)"
  shows "\<exists>t cur now v.
     disk_evolves dig U (fst (w_store w)) t \<and> identity_ok E key cur
     \<and> stored_lock (e_unmarshal E) (fs_obj dig U t key) (l_Project cur) (l_Stack cur) cur
     \<and> \<not> holderActive cur pr run (now (0::nat)) \<and> l = UnlockPR cur pr run ttl (now 1)
     \<and> (\<forall>h. l_Holder cur = Some h \<and> h_PR h \<noteq> pr \<longrightarrow> l_Holder l = Some h)
     \<and> pr \<notin> q_PR ` set (l_Queue l)
     \<and> fs_obj dig U (fst (w_store w')) = (fs_obj dig U t)(key \<mapsto> (v, e_marshal E l))"
proof -
  from assms(1) have E: "e_store E = shared (filesystem dig)" "probe_key_ok (key_in U) E"
    by (simp_all add: lock_env_ok_def)
  from sfs.maintain_loop_commits [OF E assms(3,2) sfs.evolves_refl assms(2,4)
      assms(5) [unfolded unlockSnapshot_def maintain_def]]
  obtain t :: "'b world" and cur now v where t: "disk_evolves dig U (fst (w_store w)) (fst t)" "identity_ok E key cur"
    "stored_lock (e_unmarshal E) (fs_obj dig U (fst t) key) (l_Project cur) (l_Stack cur) cur"
    "unlock_fn pr run ttl False now cur = (l, True, None)"
    "fs_obj dig U (fst (w_store w')) = (fs_obj dig U (fst t))(key \<mapsto> (v, e_marshal E l))"
    unfolding world_evolves_def by blast
  from unlock_fn_changed [OF t(4)] have u: "\<not> holderActive cur pr run (now 0)" "l = UnlockPR cur pr run ttl (now 1)"
    by simp_all
  from t u UnlockPR_holder [of cur _ pr run ttl "now 1"] UnlockPR_queue [of pr cur run ttl "now 1"]
  show ?thesis by (intro exI [of _ "fst t"] exI [of _ cur] exI [of _ now] exI [of _ v]) simp
qed

text \<open>A bucket in which pull request 7 holds the lock and 8 waits, just read.\<close>

definition held_world :: "Lock world LockState" where
  "held_world = fst (ls_TryAcquire sample_env ''api'' ''prod'' (sample_applicant 8 ''apply-2'') hour
     (fst (ls_TryAcquire sample_env ''api'' ''prod'' (sample_applicant 7 ''apply-1'') hour sample_world)))"

definition held_read :: "Lock world LockState \<times> (LSErr + lockSnapshot)" where
  "held_read = getByKey sample_env ''locks/api/prod.json'' held_world"

lemma acquire_world_inv:
  assumes "world_inv (fs_inv id_digest sample_U) (disk_evolves id_digest sample_U) (w_store w)"
    and "snd (snd (snd (ls_TryAcquire sample_env ''api'' ''prod'' a ttl w))) = None"
  shows "world_inv (fs_inv id_digest sample_U) (disk_evolves id_digest sample_U)
    (w_store (fst (ls_TryAcquire sample_env ''api'' ''prod'' a ttl w)))"
proof -
  obtain w' l b where r: "ls_TryAcquire sample_env ''api'' ''prod'' a ttl w = (w', l, b, None)"
    using assms(2) by (cases "ls_TryAcquire sample_env ''api'' ''prod'' a ttl w") auto
  have e: "e_store sample_env = shared (filesystem id_digest)" "probe_key_ok (key_in sample_U) sample_env"
    using sample_env_ok by (simp_all add: lock_env_ok_def)
  from sfs.mutate_commits [OF e(1) assms(1) lock_env_key [OF sample_env_ok] e(2) r [unfolded ls_TryAcquire_def]] r
  show ?thesis by (auto simp: transition_result_def)
qed

lemma held_world_inv:
  "world_inv (fs_inv id_digest sample_U) (disk_evolves id_digest sample_U) (w_store held_world)"
  unfolding held_world_def
proof (rule acquire_world_inv [OF acquire_world_inv [OF sample_world_inv]])
  show "snd (snd (snd (ls_TryAcquire sample_env ''api'' ''prod'' (sample_applicant 7 ''apply-1'') hour sample_world)))
      = None" by code_simp
  show "snd (snd (snd (ls_TryAcquire sample_env ''api'' ''prod'' (sample_applicant 8 ''apply-2'') hour
      (fst (ls_TryAcquire sample_env ''api'' ''prod'' (sample_applicant 7 ''apply-1'') hour sample_world)))))
      = None" by code_simp
qed

theorem unforced_unlock_safe_witness:
  "\<exists>w sn w' l.
     snapshot_valid sample_env (\<lambda>d. fs_obj id_digest sample_U (fst d)) ''locks/api/prod.json'' sn (w_store w)
     \<and> unlockSnapshot sample_env ''locks/api/prod.json'' sn 8 '''' hour False w = (w', l, True, None)
     \<and> (8::int) \<notin> q_PR ` set (l_Queue l)"
proof -
  have key: "key_in sample_U ''locks/api/prod.json''"
  proof -
    have "cleanKey ''locks/api/prod.json'' = Inr ''locks/api/prod.json''" by code_simp
    then show ?thesis by (simp add: key_in_def canonical_def sample_U_def)
  qed
  have "\<not> isl (snd held_read)" by code_simp
  then obtain w sn where r: "held_read = (w, Inr sn)" by (metis prod.collapse isl_def sum.exhaust_sel)
  have e: "e_store sample_env = shared (filesystem id_digest)"
    using sample_env_ok by (simp add: lock_env_ok_def)
  from sfs.getByKey_valid [OF e held_world_inv key r [unfolded held_read_def]]
  have w: "world_inv (fs_inv id_digest sample_U) (disk_evolves id_digest sample_U) (w_store w)"
    "snapshot_valid sample_env (\<lambda>d. fs_obj id_digest sample_U (fst d)) ''locks/api/prod.json'' sn (w_store w)"
    by simp_all
  let ?u = "\<lambda>x. unlockSnapshot sample_env ''locks/api/prod.json'' (projr (snd x)) 8 '''' hour False (fst x)"
  have "fst (snd (snd (?u held_read)))" "snd (snd (snd (?u held_read))) = None" by code_simp+
  then obtain w' l where u: "unlockSnapshot sample_env ''locks/api/prod.json'' sn 8 '''' hour False w = (w', l, True, None)"
    by (cases "?u held_read") (auto simp: r)
  from unforced_unlock_safe [OF sample_env_ok w(1) key w(2) u] have "(8::int) \<notin> q_PR ` set (l_Queue l)" by blast
  with w u show ?thesis by blast
qed

fun beat_run :: "Holder \<Rightarrow> go_duration \<Rightarrow> go_time \<Rightarrow> lock_event list list \<Rightarrow> Lock \<Rightarrow> Lock" where
  "beat_run h ttl t [] l = l"
| "beat_run h ttl t (b # bs) l =
     (let t' = t + heartbeat_interval ttl
      in beat_run h ttl t' bs (fst (TryAcquire (lock_run b l) h ttl t')))"

fun beats_ok :: "Holder \<Rightarrow> go_duration \<Rightarrow> go_time \<Rightarrow> lock_event list list \<Rightarrow> bool" where
  "beats_ok h ttl t [] \<longleftrightarrow> True"
| "beats_ok h ttl t (b # bs) \<longleftrightarrow>
     list_all (respects_lease (h_PR h) (h_RunID h) (trunc_second (t + ttl))) b
     \<and> printable_time (t + heartbeat_interval ttl + ttl)
     \<and> beats_ok h ttl (t + heartbeat_interval ttl) bs"

lemma beat_in_time:
  assumes "3 * second \<le> 2 * ttl" shows "t + heartbeat_interval ttl \<le> trunc_second (t + ttl)"
proof -
  have "t + ttl - second < trunc_second (t + ttl)" by (rule trunc_second_gt)
  moreover have "3 * (ttl div 3) \<le> ttl" by simp
  moreover have "1 \<le> ttl div 3" using assms by (simp add: second_def)
  ultimately show ?thesis using assms by (simp add: heartbeat_interval_def Let_def second_def)
qed

text \<open>
  C12. The heartbeat outruns the lease. A run that took the lock and refreshes it every third of
  the lease keeps it through any number of beats, whatever acquires, releases, unlocks and reaps of
  other runs are processed between the beats, when the lease is at least a second and a half (lease ends
  are stored in whole seconds).
\<close>

theorem heartbeat_keeps_lock:
  assumes "3 * second \<le> 2 * ttl" and "holds_lease l (h_PR h) (h_RunID h) (trunc_second (t + ttl))"
    and "beats_ok h ttl t bs"
  shows "holds_lease (beat_run h ttl t bs l) (h_PR h) (h_RunID h)
    (trunc_second (t + int (length bs) * heartbeat_interval ttl + ttl))"
  using assms(2,3)
proof (induction bs arbitrary: l t)
  case (Cons b bs)
  let ?t = "t + heartbeat_interval ttl"
  from Cons.prems(2) have b: "list_all (respects_lease (h_PR h) (h_RunID h) (trunc_second (t + ttl))) b"
    "printable_time (?t + ttl)" "beats_ok h ttl ?t bs" by simp_all
  from respects_lease_run [OF Cons.prems(1) order_refl b(1)] obtain e where
    e: "trunc_second (t + ttl) \<le> e" "holds_lease (lock_run b l) (h_PR h) (h_RunID h) e" by blast
  have "?t \<le> e" using beat_in_time [OF assms(1), of t] e(1) by simp
  from TryAcquire_own_lease [OF e(2) this] have "fst (snd (TryAcquire (lock_run b l) h ttl ?t))" by simp
  from Cons.IH [OF acquire_starts_lease [OF this b(2)] b(3)] show ?case
    by (simp add: Let_def algebra_simps)
qed simp

theorem heartbeat_keeps_lock_witness:
  "holds_lease (fst (TryAcquire sample_lock (sample_applicant 7 ''apply-1'') hour 0)) 7 ''apply-1'' (trunc_second (0 + hour))
   \<and> holds_lease (beat_run (sample_applicant 7 ''apply-1'') hour 0 [sample_events, [], []]
        (fst (TryAcquire sample_lock (sample_applicant 7 ''apply-1'') hour 0))) 7 ''apply-1''
        (trunc_second (0 + int (length [sample_events, [], []]) * heartbeat_interval hour + hour))"
proof -
  have a: "holds_lease (fst (TryAcquire sample_lock (sample_applicant 7 ''apply-1'') hour 0)) 7 ''apply-1'' (trunc_second (0 + hour))"
    by code_simp
  have b: "beats_ok (sample_applicant 7 ''apply-1'') hour 0 [sample_events, [], []]" by code_simp
  have c: "3 * second \<le> 2 * hour" by code_simp
  have p: "h_PR (sample_applicant 7 ''apply-1'') = 7" "h_RunID (sample_applicant 7 ''apply-1'') = ''apply-1''"
    by (simp_all add: sample_applicant_def)
  from heartbeat_keeps_lock [OF c _ b, of "fst (TryAcquire sample_lock (sample_applicant 7 ''apply-1'') hour 0)"] a p
  show ?thesis by simp
qed

end
