(* ===== verification/Gates.thy ===== *)
theory Gates
  imports Prelude
begin

text \<open>
  The apply gates, \<open>internal/core/preconditions/gates.go\<close>: ten preconditions of an apply, evaluated
  in a fixed order. A \<open>GateResult\<close>'s reason is a formatted message in the source; here it is a
  constructor with the message's arguments. \<open>Evaluate\<close> stops at the first failure, \<open>EvaluateAll\<close>
  does not.
\<close>

subsection \<open>Data\<close>

datatype GateOutcome = OutcomePass | OutcomeFail | OutcomeWarning | OutcomeSkipped

datatype GateID = GateUpToDate | GateChecksGreen | GatePreviewFresh | GatePreviewOK | GatePolicy
  | GateApprovals | GateLock | GateFreeze | GateFork | GateDraft

datatype GateReason = ForkDenied | NotAFork | ForkOptIn | IsDraft | NotADraft
  | UpToDateDisabled | IsUpToDate | BehindWithin int int | BehindBase
  | ChecksDisabled | ChecksPass | ChecksFail | PreviewPass | PreviewFailed
  | FreshnessDisabled | NoPreviewOnHead | PreviewTooOld go_duration go_duration
  | PreviewInWindow go_duration go_duration
  | NoPolicyHooks | PolicyPass | PolicyFail | ApprovalsPass | ApprovalsFail
  | LockPass | LockHeldBy int | LockFail | FreezeWindow string | NotFrozen
  | ApprovalsOverridden | FreezeOverridden string | HistoryOverridden string

record GateResult =
  g_Gate :: GateID
  g_Outcome :: GateOutcome
  g_Reason :: GateReason

record GateConfig =
  c_RequireUpToDate :: bool
  c_RequireChecksPassing :: bool
  c_PreviewFreshness :: go_duration
  c_PreviewMaxCommitsBehind :: int
  c_FailOnForkPRs :: bool

record GateInputs =
  i_StackRef :: string
  i_PRIsFork :: bool
  i_PRIsDraft :: bool
  i_ForkOptInAllowed :: bool
  i_UpToDate :: bool
  i_CommitsBehind :: int
  i_ChecksGreen :: bool
  i_HasFreshPreview :: bool
  i_PreviewAge :: go_duration
  i_PreviewSucceeded :: bool
  i_PolicyPassed :: "bool option"
  i_ApprovalsSatisfied :: bool
  i_LockAcquirable :: bool
  i_LockBlockedByPR :: int
  i_InFreeze :: bool
  i_FreezeName :: string
  i_BreakGlass :: bool
  i_BreakGlassOverrideFreeze :: bool
  i_PreviewHistoryUnavailable :: bool
  i_PreviewHistoryError :: string

record Result =
  r_StackRef :: string
  r_Gates :: "GateResult list"
  r_Blocked :: bool
  r_Overridden :: "GateID list"

definition GateOrder :: "GateID list" where
  "GateOrder = [GateFork, GateDraft, GateUpToDate, GateChecksGreen, GatePreviewOK, GatePreviewFresh,
     GateApprovals, GateLock, GateFreeze, GatePolicy]"

subsection \<open>Evaluation\<close>

definition gpass :: "GateID \<Rightarrow> GateReason \<Rightarrow> GateResult" where
  "gpass g msg = \<lparr>g_Gate = g, g_Outcome = OutcomePass, g_Reason = msg\<rparr>"

definition gfail :: "GateID \<Rightarrow> GateReason \<Rightarrow> GateResult" where
  "gfail g msg = \<lparr>g_Gate = g, g_Outcome = OutcomeFail, g_Reason = msg\<rparr>"

definition gwarn :: "GateID \<Rightarrow> GateReason \<Rightarrow> GateResult" where
  "gwarn g msg = \<lparr>g_Gate = g, g_Outcome = OutcomeWarning, g_Reason = msg\<rparr>"

definition gskip :: "GateID \<Rightarrow> GateReason \<Rightarrow> GateResult" where
  "gskip g msg = \<lparr>g_Gate = g, g_Outcome = OutcomeSkipped, g_Reason = msg\<rparr>"

fun evalGateBase :: "GateID \<Rightarrow> GateConfig \<Rightarrow> GateInputs \<Rightarrow> GateResult" where
  "evalGateBase GateFork cfg inp =
     (if i_PRIsFork inp \<and> \<not> i_ForkOptInAllowed inp then gfail GateFork ForkDenied
      else if \<not> i_PRIsFork inp then gskip GateFork NotAFork
      else gpass GateFork ForkOptIn)"
| "evalGateBase GateDraft cfg inp =
     (if i_PRIsDraft inp then gfail GateDraft IsDraft else gskip GateDraft NotADraft)"
| "evalGateBase GateUpToDate cfg inp =
     (if \<not> c_RequireUpToDate cfg then gskip GateUpToDate UpToDateDisabled
      else if i_UpToDate inp then gpass GateUpToDate IsUpToDate
      else if 0 < c_PreviewMaxCommitsBehind cfg \<and> i_CommitsBehind inp \<le> c_PreviewMaxCommitsBehind cfg
      then gwarn GateUpToDate (BehindWithin (i_CommitsBehind inp) (c_PreviewMaxCommitsBehind cfg))
      else gfail GateUpToDate BehindBase)"
| "evalGateBase GateChecksGreen cfg inp =
     (if \<not> c_RequireChecksPassing cfg then gskip GateChecksGreen ChecksDisabled
      else if i_ChecksGreen inp then gpass GateChecksGreen ChecksPass
      else gfail GateChecksGreen ChecksFail)"
| "evalGateBase GatePreviewOK cfg inp =
     (if i_PreviewSucceeded inp then gpass GatePreviewOK PreviewPass else gfail GatePreviewOK PreviewFailed)"
| "evalGateBase GatePreviewFresh cfg inp =
     (if c_PreviewFreshness cfg = 0 then gskip GatePreviewFresh FreshnessDisabled
      else if \<not> i_HasFreshPreview inp then gfail GatePreviewFresh NoPreviewOnHead
      else if c_PreviewFreshness cfg < i_PreviewAge inp
      then gfail GatePreviewFresh (PreviewTooOld (i_PreviewAge inp) (c_PreviewFreshness cfg))
      else gpass GatePreviewFresh (PreviewInWindow (i_PreviewAge inp) (c_PreviewFreshness cfg)))"
| "evalGateBase GatePolicy cfg inp =
     (case i_PolicyPassed inp of
        None \<Rightarrow> gskip GatePolicy NoPolicyHooks
      | Some ok \<Rightarrow> if ok then gpass GatePolicy PolicyPass else gfail GatePolicy PolicyFail)"
| "evalGateBase GateApprovals cfg inp =
     (if i_ApprovalsSatisfied inp then gpass GateApprovals ApprovalsPass else gfail GateApprovals ApprovalsFail)"
| "evalGateBase GateLock cfg inp =
     (if i_LockAcquirable inp then gpass GateLock LockPass
      else if 0 < i_LockBlockedByPR inp then gfail GateLock (LockHeldBy (i_LockBlockedByPR inp))
      else gfail GateLock LockFail)"
| "evalGateBase GateFreeze cfg inp =
     (if i_InFreeze inp then gfail GateFreeze (FreezeWindow (i_FreezeName inp)) else gpass GateFreeze NotFrozen)"

definition evalGate :: "GateID \<Rightarrow> GateConfig \<Rightarrow> GateInputs \<Rightarrow> GateResult \<times> bool" where
  "evalGate g cfg inp =
     (if i_BreakGlass inp \<and> g = GateApprovals then
        if i_ApprovalsSatisfied inp then (gpass g ApprovalsPass, False)
        else (gwarn g ApprovalsOverridden, True)
      else if i_BreakGlass inp \<and> g = GateFreeze \<and> i_InFreeze inp \<and> i_BreakGlassOverrideFreeze inp then
        (gwarn g (FreezeOverridden (i_FreezeName inp)), True)
      else if i_BreakGlass inp \<and> (g = GatePreviewOK \<or> g = GatePreviewFresh) \<and> i_PreviewHistoryUnavailable inp then
        (let base = evalGateBase g cfg inp in
         if g_Outcome base = OutcomeFail then (gwarn g (HistoryOverridden (i_PreviewHistoryError inp)), True)
         else (base, False))
      else (evalGateBase g cfg inp, False))"

text \<open>The two loops: \<open>fast\<close> breaks at the first failure.\<close>

fun gate_loop :: "bool \<Rightarrow> GateConfig \<Rightarrow> GateInputs \<Rightarrow> GateID list \<Rightarrow> Result \<Rightarrow> Result" where
  "gate_loop fast cfg inp [] res = res"
| "gate_loop fast cfg inp (g # gs) res =
     (let (gr, overridden) = evalGate g cfg inp;
          res = res\<lparr>r_Gates := r_Gates res @ [gr]\<rparr>;
          res = (if overridden then res\<lparr>r_Overridden := r_Overridden res @ [g]\<rparr> else res)
      in if g_Outcome gr = OutcomeFail
         then (let res = res\<lparr>r_Blocked := True\<rparr> in if fast then res else gate_loop fast cfg inp gs res)
         else gate_loop fast cfg inp gs res)"

definition new_result :: "GateInputs \<Rightarrow> Result" where
  "new_result inp = \<lparr>r_StackRef = i_StackRef inp, r_Gates = [], r_Blocked = False, r_Overridden = []\<rparr>"

definition Evaluate_gates :: "GateConfig \<Rightarrow> GateInputs \<Rightarrow> Result" where
  "Evaluate_gates cfg inp = gate_loop True cfg inp GateOrder (new_result inp)"

definition EvaluateAll :: "GateConfig \<Rightarrow> GateInputs \<Rightarrow> Result" where
  "EvaluateAll cfg inp = gate_loop False cfg inp GateOrder (new_result inp)"

subsection \<open>What the loops compute\<close>

lemmas gate_ctors = gpass_def gfail_def gwarn_def gskip_def

lemma gate_ctor_sel [simp]:
  "g_Gate (gpass g m) = g" "g_Outcome (gpass g m) = OutcomePass"
  "g_Gate (gfail g m) = g" "g_Outcome (gfail g m) = OutcomeFail"
  "g_Gate (gwarn g m) = g" "g_Outcome (gwarn g m) = OutcomeWarning"
  "g_Gate (gskip g m) = g" "g_Outcome (gskip g m) = OutcomeSkipped"
  by (simp_all add: gate_ctors)

definition gate_fails :: "GateConfig \<Rightarrow> GateInputs \<Rightarrow> GateID \<Rightarrow> bool" where
  "gate_fails cfg inp g \<longleftrightarrow> g_Outcome (fst (evalGate g cfg inp)) = OutcomeFail"

definition gate_overridden :: "GateConfig \<Rightarrow> GateInputs \<Rightarrow> GateID \<Rightarrow> bool" where
  "gate_overridden cfg inp g \<longleftrightarrow> snd (evalGate g cfg inp)"

text \<open>The gates a fail-fast run reaches: up to and including the first that fails.\<close>

fun reached :: "('g \<Rightarrow> bool) \<Rightarrow> 'g list \<Rightarrow> 'g list" where
  "reached f [] = []"
| "reached f (g # gs) = (if f g then [g] else g # reached f gs)"

lemma reached_prefix: "\<exists>rest. gs = reached f gs @ rest"
  by (induction gs) auto

lemma reached_fails: "(\<exists>g \<in> set (reached f gs). f g) \<longleftrightarrow> (\<exists>g \<in> set gs. f g)"
  by (induction gs) auto

lemma gate_loop_all:
  "gate_loop False cfg inp gs res =
     res\<lparr>r_Gates := r_Gates res @ map (\<lambda>g. fst (evalGate g cfg inp)) gs,
         r_Overridden := r_Overridden res @ filter (gate_overridden cfg inp) gs,
         r_Blocked := r_Blocked res \<or> (\<exists>g \<in> set gs. gate_fails cfg inp g)\<rparr>"
  by (induction gs arbitrary: res)
    (auto simp: gate_overridden_def gate_fails_def Let_def split: prod.split)

lemma gate_loop_fast:
  "gate_loop True cfg inp gs res =
     res\<lparr>r_Gates := r_Gates res @ map (\<lambda>g. fst (evalGate g cfg inp)) (reached (gate_fails cfg inp) gs),
         r_Overridden := r_Overridden res @ filter (gate_overridden cfg inp) (reached (gate_fails cfg inp) gs),
         r_Blocked := r_Blocked res \<or> (\<exists>g \<in> set gs. gate_fails cfg inp g)\<rparr>"
  by (induction gs arbitrary: res)
    (auto simp: gate_overridden_def gate_fails_def Let_def split: prod.split)

lemma Evaluate_eq:
  "Evaluate_gates cfg inp =
     \<lparr>r_StackRef = i_StackRef inp,
      r_Gates = map (\<lambda>g. fst (evalGate g cfg inp)) (reached (gate_fails cfg inp) GateOrder),
      r_Blocked = (\<exists>g \<in> set GateOrder. gate_fails cfg inp g),
      r_Overridden = filter (gate_overridden cfg inp) (reached (gate_fails cfg inp) GateOrder)\<rparr>"
  by (simp add: Evaluate_gates_def gate_loop_fast new_result_def)

lemma EvaluateAll_eq:
  "EvaluateAll cfg inp =
     \<lparr>r_StackRef = i_StackRef inp, r_Gates = map (\<lambda>g. fst (evalGate g cfg inp)) GateOrder,
      r_Blocked = (\<exists>g \<in> set GateOrder. gate_fails cfg inp g),
      r_Overridden = filter (gate_overridden cfg inp) GateOrder\<rparr>"
  by (simp add: EvaluateAll_def gate_loop_all new_result_def)

lemma evalGate_Gate [simp]: "g_Gate (fst (evalGate g cfg inp)) = g"
  by (cases g) (auto simp: evalGate_def Let_def split: option.split)

lemma all_gates: "set GateOrder = UNIV"
proof -
  have "g \<in> set GateOrder" for g by (cases g) (simp_all add: GateOrder_def)
  then show ?thesis by blast
qed

subsection \<open>Properties\<close>

definition blocked_spec :: "GateConfig \<Rightarrow> GateInputs \<Rightarrow> bool" where
  "blocked_spec cfg inp \<longleftrightarrow>
     (i_PRIsFork inp \<and> \<not> i_ForkOptInAllowed inp)
     \<or> i_PRIsDraft inp
     \<or> (c_RequireUpToDate cfg \<and> \<not> i_UpToDate inp
          \<and> \<not> (0 < c_PreviewMaxCommitsBehind cfg \<and> i_CommitsBehind inp \<le> c_PreviewMaxCommitsBehind cfg))
     \<or> (c_RequireChecksPassing cfg \<and> \<not> i_ChecksGreen inp)
     \<or> (\<not> i_PreviewSucceeded inp \<and> \<not> (i_BreakGlass inp \<and> i_PreviewHistoryUnavailable inp))
     \<or> (c_PreviewFreshness cfg \<noteq> 0
          \<and> (\<not> i_HasFreshPreview inp \<or> c_PreviewFreshness cfg < i_PreviewAge inp)
          \<and> \<not> (i_BreakGlass inp \<and> i_PreviewHistoryUnavailable inp))
     \<or> (\<not> i_ApprovalsSatisfied inp \<and> \<not> i_BreakGlass inp)
     \<or> \<not> i_LockAcquirable inp
     \<or> (i_InFreeze inp \<and> \<not> (i_BreakGlass inp \<and> i_BreakGlassOverrideFreeze inp))
     \<or> i_PolicyPassed inp = Some False"

lemma gate_fails_simps [gate_simps]:
  "gate_fails cfg inp GateFork \<longleftrightarrow> i_PRIsFork inp \<and> \<not> i_ForkOptInAllowed inp"
  "gate_fails cfg inp GateDraft \<longleftrightarrow> i_PRIsDraft inp"
  "gate_fails cfg inp GateUpToDate \<longleftrightarrow> c_RequireUpToDate cfg \<and> \<not> i_UpToDate inp
     \<and> \<not> (0 < c_PreviewMaxCommitsBehind cfg \<and> i_CommitsBehind inp \<le> c_PreviewMaxCommitsBehind cfg)"
  "gate_fails cfg inp GateChecksGreen \<longleftrightarrow> c_RequireChecksPassing cfg \<and> \<not> i_ChecksGreen inp"
  "gate_fails cfg inp GatePreviewOK \<longleftrightarrow>
     \<not> i_PreviewSucceeded inp \<and> \<not> (i_BreakGlass inp \<and> i_PreviewHistoryUnavailable inp)"
  "gate_fails cfg inp GatePreviewFresh \<longleftrightarrow> c_PreviewFreshness cfg \<noteq> 0
     \<and> (\<not> i_HasFreshPreview inp \<or> c_PreviewFreshness cfg < i_PreviewAge inp)
     \<and> \<not> (i_BreakGlass inp \<and> i_PreviewHistoryUnavailable inp)"
  "gate_fails cfg inp GateApprovals \<longleftrightarrow> \<not> i_ApprovalsSatisfied inp \<and> \<not> i_BreakGlass inp"
  "gate_fails cfg inp GateLock \<longleftrightarrow> \<not> i_LockAcquirable inp"
  "gate_fails cfg inp GateFreeze \<longleftrightarrow>
     i_InFreeze inp \<and> \<not> (i_BreakGlass inp \<and> i_BreakGlassOverrideFreeze inp)"
  "gate_fails cfg inp GatePolicy \<longleftrightarrow> i_PolicyPassed inp = Some False"
  by (auto simp: gate_fails_def evalGate_def Let_def split: option.split)

text \<open>
  C8. When an apply is blocked. \<open>Evaluate\<close> blocks exactly when one of the stated conditions of
  the repository's policy is violated; break-glass can lift the approvals gate, the freeze gate when the
  configuration lets it, and the two preview gates when the preview history could not be read, and
  nothing else.
\<close>

theorem blocked_iff: "r_Blocked (Evaluate_gates cfg inp) \<longleftrightarrow> blocked_spec cfg inp"
  unfolding Evaluate_eq blocked_spec_def by (simp add: GateOrder_def gate_simps)

text \<open>
  The report and the decision agree. The trace of \<open>Evaluate\<close> is an initial part of the trace of
  \<open>EvaluateAll\<close>, both give the same verdict, no gate before the last of \<open>Evaluate\<close>'s trace
  failed, and when nothing fails the two results are equal.
\<close>

theorem explain_agrees:
  "r_Blocked (EvaluateAll cfg inp) = r_Blocked (Evaluate_gates cfg inp)
   \<and> (\<exists>rest. r_Gates (EvaluateAll cfg inp) = r_Gates (Evaluate_gates cfg inp) @ rest)
   \<and> (\<forall>gr \<in> set (butlast (r_Gates (Evaluate_gates cfg inp))). g_Outcome gr \<noteq> OutcomeFail)
   \<and> (\<not> r_Blocked (Evaluate_gates cfg inp) \<longrightarrow> Evaluate_gates cfg inp = EvaluateAll cfg inp)"
proof -
  let ?f = "gate_fails cfg inp" and ?e = "\<lambda>g. fst (evalGate g cfg inp)"
  have "map ?e GateOrder = map ?e (reached ?f GateOrder) @ rest" if "GateOrder = reached ?f GateOrder @ r"
    "rest = map ?e r" for r rest using that by (metis map_append)
  then have "\<exists>rest. map ?e GateOrder = map ?e (reached ?f GateOrder) @ rest"
    using reached_prefix [of GateOrder ?f] by blast
  moreover have "\<forall>g \<in> set (butlast (reached f gs)). \<not> f g" for f and gs :: "GateID list"
    by (induction gs) auto
  then have "\<forall>gr \<in> set (butlast (map ?e (reached ?f GateOrder))). g_Outcome gr \<noteq> OutcomeFail"
    by (auto simp: map_butlast [symmetric] gate_fails_def [symmetric])
  moreover have "\<forall>g \<in> set gs. \<not> f g \<Longrightarrow> reached f gs = gs" for f and gs :: "GateID list"
    by (induction gs) auto
  then have "\<not> (\<exists>g \<in> set GateOrder. ?f g) \<longrightarrow> reached ?f GateOrder = GateOrder" by blast
  ultimately show ?thesis unfolding Evaluate_eq EvaluateAll_eq by simp
qed

definition sample_inputs :: GateInputs where
  "sample_inputs =
     \<lparr>i_StackRef = ''api/prod'', i_PRIsFork = False, i_PRIsDraft = False, i_ForkOptInAllowed = False,
      i_UpToDate = True, i_CommitsBehind = 0, i_ChecksGreen = True, i_HasFreshPreview = True,
      i_PreviewAge = minute, i_PreviewSucceeded = True, i_PolicyPassed = Some True,
      i_ApprovalsSatisfied = False, i_LockAcquirable = True, i_LockBlockedByPR = 0,
      i_InFreeze = True, i_FreezeName = ''weekend'', i_BreakGlass = True,
      i_BreakGlassOverrideFreeze = False, i_PreviewHistoryUnavailable = False, i_PreviewHistoryError = ''''\<rparr>"

definition sample_config :: GateConfig where
  "sample_config = \<lparr>c_RequireUpToDate = True, c_RequireChecksPassing = True, c_PreviewFreshness = hour,
     c_PreviewMaxCommitsBehind = 0, c_FailOnForkPRs = True\<rparr>"

theorem explain_agrees_witness:
  "r_Blocked (Evaluate_gates sample_config sample_inputs)
   \<and> r_Blocked (EvaluateAll sample_config sample_inputs)
   \<and> (\<exists>rest. r_Gates (EvaluateAll sample_config sample_inputs) = r_Gates (Evaluate_gates sample_config sample_inputs) @ rest)"
proof -
  have "r_Blocked (Evaluate_gates sample_config sample_inputs)"
    unfolding Evaluate_eq by (simp add: GateOrder_def gate_simps sample_inputs_def)
  with explain_agrees [of sample_config sample_inputs] show ?thesis by blast
qed

text \<open>
  What break-glass may touch. A gate is listed as overridden only under break-glass, only if it
  is the approvals gate, the freeze gate or a preview gate, and only if it would have
  failed without break-glass; an overridden gate is reported as a warning. Without break-glass nothing is
  overridden. The overrides of the preview gates need an unreadable preview history.
\<close>

theorem overridden_gates:
  assumes "g \<in> set (r_Overridden (EvaluateAll cfg inp))"
  shows "i_BreakGlass inp \<and> g_Outcome (fst (evalGate g cfg inp)) = OutcomeWarning
       \<and> g_Outcome (evalGateBase g cfg inp) = OutcomeFail
       \<and> (g = GateApprovals \<or> g = GateFreeze \<and> i_BreakGlassOverrideFreeze inp
          \<or> g \<in> {GatePreviewOK, GatePreviewFresh} \<and> i_PreviewHistoryUnavailable inp)"
proof -
  from assms have "snd (evalGate g cfg inp)" by (simp add: EvaluateAll_eq gate_overridden_def)
  then show ?thesis by (auto simp: evalGate_def Let_def split: if_splits)
qed

theorem overridden_gates_witness:
  "r_Overridden (EvaluateAll sample_config sample_inputs) = [GateApprovals]
   \<and> i_BreakGlass sample_inputs \<and> g_Outcome (evalGateBase GateApprovals sample_config sample_inputs) = OutcomeFail"
proof -
  have o: "r_Overridden (EvaluateAll sample_config sample_inputs) = [GateApprovals]"
    by (simp add: EvaluateAll_eq GateOrder_def gate_overridden_def evalGate_def sample_inputs_def)
  then have "GateApprovals \<in> set (r_Overridden (EvaluateAll sample_config sample_inputs))" by simp
  from overridden_gates [OF this] o show ?thesis by blast
qed

text \<open>
  The fork gate does not depend on \<open>FailOnForkPRs\<close>: with the setting off, an apply from a fork without
  the per-repository opt-in is denied all the same. The verdict of every gate is independent of it.
\<close>

theorem fork_setting_unused:
  "Evaluate_gates (cfg\<lparr>c_FailOnForkPRs := b\<rparr>) inp = Evaluate_gates cfg inp
   \<and> (i_PRIsFork inp \<and> \<not> i_ForkOptInAllowed inp \<longrightarrow> r_Blocked (Evaluate_gates (cfg\<lparr>c_FailOnForkPRs := False\<rparr>) inp))"
proof -
  have b: "evalGateBase g (cfg\<lparr>c_FailOnForkPRs := x\<rparr>) inp = evalGateBase g cfg inp" for g x by (cases g) simp_all
  have "evalGate g (cfg\<lparr>c_FailOnForkPRs := x\<rparr>) inp = evalGate g cfg inp" for g x
    unfolding evalGate_def b by (rule refl)
  then have e: "Evaluate_gates (cfg\<lparr>c_FailOnForkPRs := x\<rparr>) inp = Evaluate_gates cfg inp" for x
    by (simp add: Evaluate_eq gate_fails_def [abs_def] gate_overridden_def [abs_def])
  show ?thesis unfolding e by (simp add: blocked_iff blocked_spec_def)
qed

theorem fork_setting_unused_witness:
  "r_Blocked (Evaluate_gates (sample_config\<lparr>c_FailOnForkPRs := False\<rparr>) (sample_inputs\<lparr>i_PRIsFork := True\<rparr>))"
proof -
  have "i_PRIsFork (sample_inputs\<lparr>i_PRIsFork := True\<rparr>) \<and> \<not> i_ForkOptInAllowed (sample_inputs\<lparr>i_PRIsFork := True\<rparr>)"
    by (simp add: sample_inputs_def)
  then show ?thesis
    using fork_setting_unused [where cfg = sample_config and b = False and inp = "sample_inputs\<lparr>i_PRIsFork := True\<rparr>"]
    by blast
qed
end
