(* ===== verification/Approvals.thy ===== *)
theory Approvals
  imports GoStrings
begin

text \<open>
  Approval rules, \<open>internal/core/approvals\<close>: \<open>rules.go\<close> (merging rules per stack and evaluating them
  against the pull request's approvals), \<open>sources.go\<close> and \<open>teams.go\<close>.

  Go maps are association lists here: their order is the order in which a \<open>range\<close> loop happens to
  visit them. Messages of the trace and of the list of missing approvals are constructors with the
  arguments the format strings take. The glob matcher (doublestar) is a parameter \<open>glob\<close>,
  \<open>glob pattern name\<close>; a malformed pattern matches nothing.
\<close>

subsection \<open>Data\<close>

record Approval =
  a_Source :: string
  a_Approver :: string
  a_SubmittedAt :: go_time
  a_CommitSHA :: string
  a_Pinned :: bool

record PR =
  pr_Number :: int
  pr_HeadSHA :: string
  pr_Author :: string
  pr_BaseRef :: string
  pr_IsFork :: bool
  pr_RepoPrivate :: bool
  pr_OpenedAt :: go_time
  pr_Changed :: "string list"

type_synonym teams = "(string \<times> string list) list"

record Rules =
  ru_RequiredApprovals :: int
  ru_Approvers :: "string list"
  ru_Codeowners :: bool
  ru_RequireAllGroups :: bool
  ru_DismissOnNewCommit :: bool
  ru_AllowUnpinnedComments :: bool
  ru_Freshness :: go_duration
  ru_AllowUnlistedApprovalsOnPublic :: bool
  ru_TeamMembers :: teams

record SourceConfig =
  sc_Type :: string
  sc_Enabled :: bool
  sc_Command :: string

record StackRule =
  sr_Pattern :: string
  sr_Rules :: Rules
  sr_Present :: "string list"

record ApprovalConfig =
  ac_Sources :: "SourceConfig list"
  ac_Default :: Rules
  ac_Stacks :: "StackRule list"

datatype TraceMsg = DismissedUnpinned string string | DismissedOther string string string
  | IgnoredSelf string | StaleNoTime string go_duration | StaleOld string go_duration go_duration
  | EmailOwner string string | AllEmailOwners string | NoPolicyDefault | PublicUnlisted
  | Matched int int "string list" | GroupSatisfied string | GroupMissing string
  | OwnersSatisfied string | OwnersNeed string "string list"

datatype MissingMsg = NeedListed int | NeedMore int | NeedMoreFrom int "string list"
  | NeedGroup string | NeedOwners string | NeedReapproval "string list" go_duration

record Resolution =
  rs_Ref :: string
  rs_Rules :: Rules
  rs_Satisfied :: bool
  rs_TotalNeeded :: int
  rs_Got :: int
  rs_Trace :: "TraceMsg list"
  rs_Missing :: "MissingMsg list"

subsection \<open>Helpers\<close>

definition login :: "string \<Rightarrow> string" where "login s = TrimPrefix s ''@''"

definition ToRef :: "PR \<Rightarrow> string" where "ToRef p = ''pr-'' @ itoa (pr_Number p)"

definition approval_names :: "Approval list \<Rightarrow> string list" where
  "approval_names aa = map (\<lambda>a. login (a_Approver a)) aa"

definition isTeamSlug :: "string \<Rightarrow> bool" where "isTeamSlug s = Contains s ''/''"

definition isEmailOwner :: "string \<Rightarrow> bool" where "isEmailOwner ow = Contains (login ow) ''@''"

definition team_members :: "teams \<Rightarrow> string \<Rightarrow> string list" where
  "team_members teams g = map login (map_get teams [] g)"

text \<open>The eligible logins of an allow list, and \<open>intersect\<close>.\<close>

definition eligible :: "string list \<Rightarrow> teams \<Rightarrow> string list" where
  "eligible required teams =
     concat (map (\<lambda>r. let r = login r in if isTeamSlug r then team_members teams r else [r]) required)"

definition intersect :: "string list \<Rightarrow> string list \<Rightarrow> teams \<Rightarrow> string list" where
  "intersect approvers required teams =
     dedup_seen [] (filter (\<lambda>a. a \<in> set (eligible required teams)) (map login approvers))"

definition distinct_logins :: "string list \<Rightarrow> string list" where
  "distinct_logins approvers = dedup_seen [] (map login approvers)"

definition matchesOne :: "string list \<Rightarrow> string \<Rightarrow> teams \<Rightarrow> bool" where
  "matchesOne approvers g0 teams =
     (let g = login g0; st = map login approvers in
      g \<in> set st \<or> isTeamSlug g \<and> list_ex (\<lambda>m. m \<in> set st) (team_members teams g))"

definition unionStrings :: "string list \<Rightarrow> string list \<Rightarrow> string list" where
  "unionStrings a b = dedup_seen [] (a @ b)"

definition rune_score :: "string \<Rightarrow> int" where
  "rune_score r = (if r = ''*'' \<or> r = ''?'' then - 2 else if r = ''['' \<or> r = '']'' then - 1 else 1)"

definition specificity :: "string \<Rightarrow> int" where
  "specificity p = sum_list (map rune_score (rune_split p))"

definition sortBySpecificity :: "StackRule list \<Rightarrow> StackRule list" where
  "sortBySpecificity rules =
     insertion_sort (\<lambda>a b. specificity (sr_Pattern a) < specificity (sr_Pattern b)) rules"

definition short :: "string \<Rightarrow> string" where
  "short sha = (if 7 < length sha then take 7 sha else sha)"

subsection \<open>Rules per stack\<close>

definition merge_rule :: "StackRule \<Rightarrow> Rules \<Rightarrow> Rules" where
  "merge_rule r out0 =
     (let has = (\<lambda>k. k \<in> set (sr_Present r)); ru = sr_Rules r;
          out = out0;
          out = (if has ''required_approvals'' then out\<lparr>ru_RequiredApprovals := ru_RequiredApprovals ru\<rparr> else out);
          out = (if has ''require_all_groups'' then out\<lparr>ru_RequireAllGroups := ru_RequireAllGroups ru\<rparr> else out);
          out = (if has ''codeowners'' then out\<lparr>ru_Codeowners := ru_Codeowners ru\<rparr> else out);
          out = (if has ''dismiss_on_new_commit'' then out\<lparr>ru_DismissOnNewCommit := ru_DismissOnNewCommit ru\<rparr> else out);
          out = (if has ''allow_unpinned_comment_approvals''
                 then out\<lparr>ru_AllowUnpinnedComments := ru_AllowUnpinnedComments ru\<rparr> else out);
          out = (if has ''freshness'' then out\<lparr>ru_Freshness := ru_Freshness ru\<rparr> else out)
      in if ru_Approvers ru \<noteq> [] then out\<lparr>ru_Approvers := unionStrings (ru_Approvers out) (ru_Approvers ru)\<rparr>
         else out)"

definition matching_rules :: "(string \<Rightarrow> string \<Rightarrow> bool) \<Rightarrow> ApprovalConfig \<Rightarrow> string \<Rightarrow> StackRule list" where
  "matching_rules glob cfg ref = sortBySpecificity (filter (\<lambda>r. glob (sr_Pattern r) ref) (ac_Stacks cfg))"

definition Resolve_rules :: "(string \<Rightarrow> string \<Rightarrow> bool) \<Rightarrow> ApprovalConfig \<Rightarrow> string \<Rightarrow> Rules" where
  "Resolve_rules glob cfg ref = fold merge_rule (matching_rules glob cfg ref) (ac_Default cfg)"

subsection \<open>Evaluation\<close>

text \<open>One approval through the filters: why it is dropped, \<open>None\<close> if it counts.\<close>

definition drop_reason :: "Rules \<Rightarrow> PR \<Rightarrow> string \<Rightarrow> go_time \<Rightarrow> Approval \<Rightarrow> TraceMsg option" where
  "drop_reason rules pr author now a =
     (if ru_DismissOnNewCommit rules \<and> \<not> a_Pinned a \<and> \<not> ru_AllowUnpinnedComments rules
      then Some (DismissedUnpinned (a_Approver a) (short (pr_HeadSHA pr)))
      else if ru_DismissOnNewCommit rules \<and> a_Pinned a \<and> a_CommitSHA a \<noteq> '''' \<and> a_CommitSHA a \<noteq> pr_HeadSHA pr
      then Some (DismissedOther (a_Approver a) (short (a_CommitSHA a)) (short (pr_HeadSHA pr)))
      else if a_Approver a = author then Some (IgnoredSelf (a_Approver a))
      else if 0 < ru_Freshness rules \<and> IsZero (a_SubmittedAt a)
      then Some (StaleNoTime (a_Approver a) (ru_Freshness rules))
      else if 0 < ru_Freshness rules \<and> ru_Freshness rules < now - a_SubmittedAt a
      then Some (StaleOld (a_Approver a) (now - a_SubmittedAt a) (ru_Freshness rules))
      else None)"

definition is_stale :: "TraceMsg \<Rightarrow> bool" where
  "is_stale m = (case m of StaleNoTime _ _ \<Rightarrow> True | StaleOld _ _ _ \<Rightarrow> True | _ \<Rightarrow> False)"

text \<open>The filter loop: the trace so far, the stale logins, the effective approvals.\<close>

fun filter_approvals ::
  "Rules \<Rightarrow> PR \<Rightarrow> string \<Rightarrow> go_time \<Rightarrow> Approval list \<Rightarrow> TraceMsg list \<times> string list \<times> Approval list" where
  "filter_approvals rules pr author now [] = ([], [], [])"
| "filter_approvals rules pr author now (a # as) =
     (case filter_approvals rules pr author now as of (tr, stale, eff) \<Rightarrow>
      case drop_reason rules pr author now a of
        None \<Rightarrow> (tr, stale, a # eff)
      | Some m \<Rightarrow> (m # tr, if is_stale m then login (a_Approver a) # stale else stale, eff))"

text \<open>Owners that can be matched to logins, path by path.\<close>

fun match_owners :: "(string \<times> string list) list \<Rightarrow> TraceMsg list \<times> (string \<times> string list) list" where
  "match_owners [] = ([], [])"
| "match_owners ((path, owners) # rest) =
     (let matchable = filter (\<lambda>ow. \<not> isEmailOwner ow) owners;
          emails = map (EmailOwner path) (filter isEmailOwner owners);
          (tr, m) = match_owners rest
      in if matchable = [] then (emails @ AllEmailOwners path # tr, m)
         else (emails @ tr, (path, matchable) # m))"

text \<open>The numeric gate.\<close>

definition numeric_gate :: "Rules \<Rightarrow> PR \<Rightarrow> string list \<Rightarrow> Resolution \<Rightarrow> Resolution" where
  "numeric_gate rules pr approvers res =
     (if \<not> 0 < ru_RequiredApprovals rules then res
      else
        let publicUnlisted = (ru_Approvers rules = [] \<and> \<not> pr_RepoPrivate pr
                              \<and> \<not> ru_AllowUnlistedApprovalsOnPublic rules);
            hits = (if publicUnlisted then []
                    else if ru_Approvers rules = [] then distinct_logins approvers
                    else intersect approvers (ru_Approvers rules) (ru_TeamMembers rules));
            n = int (length hits);
            res = res\<lparr>rs_Got := rs_Got res + n, rs_TotalNeeded := rs_TotalNeeded res + ru_RequiredApprovals rules\<rparr>
        in if publicUnlisted
           then res\<lparr>rs_Trace := rs_Trace res @ [PublicUnlisted],
                    rs_Missing := rs_Missing res @ [NeedListed (ru_RequiredApprovals rules)]\<rparr>
           else
             let res = res\<lparr>rs_Trace := rs_Trace res @ [Matched (ru_RequiredApprovals rules) n hits]\<rparr>;
                 need = ru_RequiredApprovals rules - n
             in if n < ru_RequiredApprovals rules
                then res\<lparr>rs_Missing := rs_Missing res
                       @ [if ru_Approvers rules = [] then NeedMore need else NeedMoreFrom need (ru_Approvers rules)]\<rparr>
                else res)"

fun group_loop :: "Rules \<Rightarrow> string list \<Rightarrow> string list \<Rightarrow> Resolution \<Rightarrow> Resolution" where
  "group_loop rules approvers [] res = res"
| "group_loop rules approvers (g # gs) res =
     group_loop rules approvers gs
       (if matchesOne approvers g (ru_TeamMembers rules)
        then res\<lparr>rs_Got := rs_Got res + 1, rs_Trace := rs_Trace res @ [GroupSatisfied g]\<rparr>
        else res\<lparr>rs_Trace := rs_Trace res @ [GroupMissing g], rs_Missing := rs_Missing res @ [NeedGroup g]\<rparr>)"

definition group_gate :: "Rules \<Rightarrow> string list \<Rightarrow> Resolution \<Rightarrow> Resolution" where
  "group_gate rules approvers res =
     (if ru_RequireAllGroups rules \<and> ru_Approvers rules \<noteq> []
      then (let res = group_loop rules approvers (ru_Approvers rules) res
            in res\<lparr>rs_TotalNeeded := rs_TotalNeeded res + int (length (ru_Approvers rules))\<rparr>)
      else res)"

fun owner_loop :: "Rules \<Rightarrow> string list \<Rightarrow> (string \<times> string list) list \<Rightarrow> Resolution \<Rightarrow> Resolution" where
  "owner_loop rules approvers [] res = res"
| "owner_loop rules approvers ((path, owners) # rest) res =
     (let res = (if list_ex (\<lambda>ow. matchesOne approvers ow (ru_TeamMembers rules)) owners
                 then res\<lparr>rs_Trace := rs_Trace res @ [OwnersSatisfied path], rs_Got := rs_Got res + 1\<rparr>
                 else res\<lparr>rs_Trace := rs_Trace res @ [OwnersNeed path owners],
                          rs_Missing := rs_Missing res @ [NeedOwners path]\<rparr>)
      in owner_loop rules approvers rest (res\<lparr>rs_TotalNeeded := rs_TotalNeeded res + 1\<rparr>))"

definition owner_gate :: "Rules \<Rightarrow> string list \<Rightarrow> (string \<times> string list) list \<Rightarrow> Resolution \<Rightarrow> Resolution" where
  "owner_gate rules approvers owners res =
     (if ru_Codeowners rules \<and> owners \<noteq> [] then owner_loop rules approvers owners res else res)"

definition effective_owners ::
  "Rules \<Rightarrow> (string \<times> string list) list \<Rightarrow> TraceMsg list \<times> (string \<times> string list) list" where
  "effective_owners rules codeowners =
     (if ru_Codeowners rules \<and> codeowners \<noteq> [] then match_owners codeowners else ([], codeowners))"

definition safety_default :: "Rules \<Rightarrow> (string \<times> string list) list \<Rightarrow> bool" where
  "safety_default rules owners \<longleftrightarrow>
     ru_RequiredApprovals rules = 0
     \<and> (\<not> ru_RequireAllGroups rules \<or> ru_Approvers rules = [])
     \<and> (\<not> ru_Codeowners rules \<or> owners = [])"

definition Evaluate_approvals ::
  "Rules \<Rightarrow> Approval list \<Rightarrow> PR \<Rightarrow> (string \<times> string list) list \<Rightarrow> string \<Rightarrow> go_time \<Rightarrow> Resolution" where
  "Evaluate_approvals rules0 approvals pr codeowners author now =
     (let (tr1, stale, effective) = filter_approvals rules0 pr author now approvals;
          approvers = approval_names effective;
          (tr2, owners) = effective_owners rules0 codeowners;
          dflt = safety_default rules0 owners;
          rules = (if dflt then rules0\<lparr>ru_RequiredApprovals := 1\<rparr> else rules0);
          res = \<lparr>rs_Ref = '''', rs_Rules = rules0, rs_Satisfied = False, rs_TotalNeeded = 0, rs_Got = 0,
                 rs_Trace = tr1 @ tr2 @ (if dflt then [NoPolicyDefault] else []), rs_Missing = []\<rparr>;
          res = numeric_gate rules pr approvers res;
          res = group_gate rules approvers res;
          res = owner_gate rules approvers owners res;
          res = (if rs_Missing res \<noteq> [] \<and> stale \<noteq> []
                 then res\<lparr>rs_Missing := rs_Missing res @ [NeedReapproval stale (ru_Freshness rules)]\<rparr> else res)
      in res\<lparr>rs_Satisfied := (rs_Missing res = [] \<and> 0 < rs_TotalNeeded res), rs_Ref := ToRef pr\<rparr>)"

subsection \<open>Sources\<close>

definition SourcePRReview :: string where "SourcePRReview = ''pr_review''"
definition SourcePRComment :: string where "SourcePRComment = ''pr_comment''"
definition DefaultCommentCommand :: string where "DefaultCommentCommand = ''/reeve approve''"

definition PRReviewEnabled :: "ApprovalConfig \<Rightarrow> bool" where
  "PRReviewEnabled c =
     (case find (\<lambda>s. sc_Type s = SourcePRReview) (ac_Sources c) of Some s \<Rightarrow> sc_Enabled s | None \<Rightarrow> True)"

definition PRCommentEnabled :: "ApprovalConfig \<Rightarrow> bool" where
  "PRCommentEnabled c =
     (case find (\<lambda>s. sc_Type s = SourcePRComment) (ac_Sources c) of Some s \<Rightarrow> sc_Enabled s | None \<Rightarrow> False)"

definition CommentCommand :: "ApprovalConfig \<Rightarrow> string" where
  "CommentCommand c =
     (case find (\<lambda>s. sc_Type s = SourcePRComment \<and> TrimSpace (sc_Command s) \<noteq> '''') (ac_Sources c) of
        Some s \<Rightarrow> TrimSpace (sc_Command s)
      | None \<Rightarrow> DefaultCommentCommand)"

definition MergeApprovals :: "Approval list list \<Rightarrow> Approval list" where
  "MergeApprovals sets = concat sets"

subsection \<open>Team expansion\<close>

text \<open>
  \<open>ExpandTeams\<close> over a lookup \<open>expander\<close> (\<open>None\<close> for a nil interface value); \<open>Inl\<close> is a failed lookup.
  The result is the map and the list of slugs that failed.
\<close>

definition wanted_slugs :: "Rules list \<Rightarrow> string list" where
  "wanted_slugs rules = dedup_seen [] (filter isTeamSlug (map login (concat (map ru_Approvers rules))))"

fun expand_loop ::
  "(string \<Rightarrow> string + string list) \<Rightarrow> string list \<Rightarrow> teams \<Rightarrow> string list \<Rightarrow> teams \<times> string list" where
  "expand_loop expander [] out errs = (out, errs)"
| "expand_loop expander (slug # rest) out errs =
     (case expander slug of
        Inl e \<Rightarrow> expand_loop expander rest out (errs @ [slug @ '': '' @ e])
      | Inr members \<Rightarrow> expand_loop expander rest (map_put slug members out) errs)"

definition ExpandTeams :: "(string \<Rightarrow> string + string list) option \<Rightarrow> Rules list \<Rightarrow> teams \<times> string list" where
  "ExpandTeams expander rules =
     (case expander of
        None \<Rightarrow> ([], [])
      | Some f \<Rightarrow>
          let want = wanted_slugs rules in if want = [] then ([], []) else expand_loop f want [] [])"

subsection \<open>What the gates compute\<close>

lemma filter_approvals_eff:
  "snd (snd (filter_approvals rules pr author now as)) = filter (\<lambda>a. drop_reason rules pr author now a = None) as"
  by (induction as) (auto split: prod.splits option.splits)

definition voters :: "Rules \<Rightarrow> PR \<Rightarrow> string \<Rightarrow> go_time \<Rightarrow> Approval list \<Rightarrow> string set" where
  "voters rules pr author now as =
     {login (login (a_Approver a)) | a. a \<in> set as \<and> drop_reason rules pr author now a = None}"

definition covers :: "teams \<Rightarrow> string set \<Rightarrow> string \<Rightarrow> bool" where
  "covers teams V g \<longleftrightarrow>
     login g \<in> V \<or> isTeamSlug (login g) \<and> (\<exists>m \<in> set (team_members teams (login g)). m \<in> V)"

definition public_unlisted :: "Rules \<Rightarrow> PR \<Rightarrow> bool" where
  "public_unlisted rules pr \<longleftrightarrow>
     ru_Approvers rules = [] \<and> \<not> pr_RepoPrivate pr \<and> \<not> ru_AllowUnlistedApprovalsOnPublic rules"

definition countable :: "Rules \<Rightarrow> string set \<Rightarrow> string set" where
  "countable rules V =
     (if ru_Approvers rules = [] then V else V \<inter> set (eligible (ru_Approvers rules) (ru_TeamMembers rules)))"

lemma matchesOne_covers: "matchesOne ap g teams \<longleftrightarrow> covers teams (login ` set ap) g"
  by (simp add: matchesOne_def covers_def Let_def list_ex_iff)

lemma length_intersect:
  "length (intersect ap req teams) = card (login ` set ap \<inter> set (eligible req teams))"
proof -
  have "set (filter (\<lambda>a. a \<in> set (eligible req teams)) (map login ap)) = login ` set ap \<inter> set (eligible req teams)"
    by auto
  then show ?thesis by (simp add: intersect_def length_dedup_seen del: set_filter filter_set)
qed

lemma length_distinct_logins: "length (distinct_logins ap) = card (login ` set ap)"
  by (simp add: distinct_logins_def length_dedup_seen)

lemma numeric_gate_result:
  "rs_Missing (numeric_gate rules pr ap res) = [] \<longleftrightarrow>
     rs_Missing res = [] \<and>
     (0 < ru_RequiredApprovals rules \<longrightarrow>
        \<not> public_unlisted rules pr \<and> ru_RequiredApprovals rules \<le> int (card (countable rules (login ` set ap))))"
  "rs_TotalNeeded (numeric_gate rules pr ap res) = rs_TotalNeeded res + max 0 (ru_RequiredApprovals rules)"
  by (auto simp: numeric_gate_def Let_def public_unlisted_def countable_def length_intersect length_distinct_logins)

lemma group_loop_result:
  "rs_Missing (group_loop rules ap gs res) =
     rs_Missing res @ map NeedGroup (filter (\<lambda>g. \<not> matchesOne ap g (ru_TeamMembers rules)) gs)"
  "rs_TotalNeeded (group_loop rules ap gs res) = rs_TotalNeeded res"
  by (induction gs arbitrary: res) simp_all

lemma group_gate_result:
  "rs_Missing (group_gate rules ap res) = [] \<longleftrightarrow>
     rs_Missing res = [] \<and>
     (ru_RequireAllGroups rules \<longrightarrow> (\<forall>g \<in> set (ru_Approvers rules). covers (ru_TeamMembers rules) (login ` set ap) g))"
  "rs_TotalNeeded (group_gate rules ap res) =
     rs_TotalNeeded res + (if ru_RequireAllGroups rules then int (length (ru_Approvers rules)) else 0)"
  by (auto simp: group_gate_def Let_def group_loop_result matchesOne_covers filter_empty_conv)

lemma owner_loop_result:
  "rs_Missing (owner_loop rules ap os res) = rs_Missing res @ map (\<lambda>p. NeedOwners (fst p))
     (filter (\<lambda>p. \<not> list_ex (\<lambda>ow. matchesOne ap ow (ru_TeamMembers rules)) (snd p)) os)"
  "rs_TotalNeeded (owner_loop rules ap os res) = rs_TotalNeeded res + int (length os)"
  by (induction os arbitrary: res) (auto simp: Let_def)

lemma owner_gate_result:
  "rs_Missing (owner_gate rules ap os res) = [] \<longleftrightarrow>
     rs_Missing res = [] \<and>
     (ru_Codeowners rules \<longrightarrow> (\<forall>p \<in> set os. \<exists>ow \<in> set (snd p). covers (ru_TeamMembers rules) (login ` set ap) ow))"
  "rs_TotalNeeded (owner_gate rules ap os res) =
     rs_TotalNeeded res + (if ru_Codeowners rules then int (length os) else 0)"
  by (auto simp: owner_gate_def owner_loop_result matchesOne_covers filter_empty_conv list_ex_iff)

lemma voters_names:
  "login ` set (approval_names (filter (\<lambda>a. drop_reason rules pr author now a = None) as))
   = voters rules pr author now as"
  by (auto simp: approval_names_def voters_def)

subsection \<open>Properties\<close>

definition approved_spec ::
  "Rules \<Rightarrow> Approval list \<Rightarrow> PR \<Rightarrow> (string \<times> string list) list \<Rightarrow> string \<Rightarrow> go_time \<Rightarrow> bool" where
  "approved_spec rules as pr codeowners author now =
     (let V = voters rules pr author now as;
          owners = snd (effective_owners rules codeowners);
          need = (if safety_default rules owners then 1 else ru_RequiredApprovals rules)
      in (need > 0 \<longrightarrow> \<not> public_unlisted rules pr \<and> need \<le> int (card (countable rules V)))
         \<and> (ru_RequireAllGroups rules \<longrightarrow> (\<forall>g \<in> set (ru_Approvers rules). covers (ru_TeamMembers rules) V g))
         \<and> (ru_Codeowners rules \<longrightarrow> (\<forall>p \<in> set owners. \<exists>ow \<in> set (snd p). covers (ru_TeamMembers rules) V ow))
         \<and> (need > 0 \<or> ru_RequireAllGroups rules \<and> ru_Approvers rules \<noteq> [] \<or> ru_Codeowners rules \<and> owners \<noteq> []))"

lemma gates_result:
  assumes "rs_Missing res = []" and "rs_TotalNeeded res = 0"
  shows "rs_Missing (owner_gate ru ap os (group_gate ru ap (numeric_gate ru pr ap res))) = []
       \<and> 0 < rs_TotalNeeded (owner_gate ru ap os (group_gate ru ap (numeric_gate ru pr ap res))) \<longleftrightarrow>
      (0 < ru_RequiredApprovals ru \<longrightarrow> \<not> public_unlisted ru pr
          \<and> ru_RequiredApprovals ru \<le> int (card (countable ru (login ` set ap))))
      \<and> (ru_RequireAllGroups ru \<longrightarrow> (\<forall>g \<in> set (ru_Approvers ru). covers (ru_TeamMembers ru) (login ` set ap) g))
      \<and> (ru_Codeowners ru \<longrightarrow> (\<forall>p \<in> set os. \<exists>ow \<in> set (snd p). covers (ru_TeamMembers ru) (login ` set ap) ow))
      \<and> (0 < ru_RequiredApprovals ru \<or> ru_RequireAllGroups ru \<and> ru_Approvers ru \<noteq> [] \<or> ru_Codeowners ru \<and> os \<noteq> [])"
proof -
  have "(0::int) < max 0 a + (if b then int m else 0) + (if c then int n else 0) \<longleftrightarrow> 0 < a \<or> b \<and> 0 < m \<or> c \<and> 0 < n"
    for a b c m n by auto
  with assms show ?thesis
    by (simp only: numeric_gate_result group_gate_result owner_gate_result add_0 length_greater_0_conv) blast
qed

lemma rules_default_simps [simp]:
  "public_unlisted (ru\<lparr>ru_RequiredApprovals := n\<rparr>) pr = public_unlisted ru pr"
  "countable (ru\<lparr>ru_RequiredApprovals := n\<rparr>) V = countable ru V"
  by (simp_all add: public_unlisted_def countable_def)

lemma approval_gate_eq:
  "rs_Satisfied (Evaluate_approvals rules as pr codeowners author now)
     = approved_spec rules as pr codeowners author now"
proof -
  let ?eff = "filter (\<lambda>a. drop_reason rules pr author now a = None) as"
  obtain tr1 stale where f: "filter_approvals rules pr author now as = (tr1, stale, ?eff)"
    using filter_approvals_eff by (metis prod.collapse)
  obtain tr2 owners where o: "effective_owners rules codeowners = (tr2, owners)" by fastforce
  define ru where "ru = (if safety_default rules owners then rules\<lparr>ru_RequiredApprovals := 1\<rparr> else rules)"
  define res where "res = \<lparr>rs_Ref = '''', rs_Rules = rules, rs_Satisfied = False, rs_TotalNeeded = 0, rs_Got = 0,
    rs_Trace = tr1 @ tr2 @ (if safety_default rules owners then [NoPolicyDefault] else []), rs_Missing = []\<rparr>"
  define fin where "fin = owner_gate ru (approval_names ?eff) owners
    (group_gate ru (approval_names ?eff) (numeric_gate ru pr (approval_names ?eff) res))"
  have "rs_Satisfied (Evaluate_approvals rules as pr codeowners author now)
      \<longleftrightarrow> rs_Missing fin = [] \<and> 0 < rs_TotalNeeded fin"
    by (simp add: Evaluate_approvals_def f o Let_def ru_def [symmetric] res_def [symmetric] fin_def [symmetric])
  also have "\<dots> \<longleftrightarrow> approved_spec rules as pr codeowners author now"
    unfolding fin_def by (subst gates_result)
      (simp_all add: res_def voters_names approved_spec_def o ru_def Let_def)
  finally show ?thesis .
qed


definition counted :: "Rules \<Rightarrow> PR \<Rightarrow> string \<Rightarrow> go_time \<Rightarrow> Approval \<Rightarrow> bool" where
  "counted rules pr author now a \<longleftrightarrow>
     a_Approver a \<noteq> author
     \<and> (ru_DismissOnNewCommit rules \<longrightarrow>
          (if a_Pinned a then a_CommitSHA a = '''' \<or> a_CommitSHA a = pr_HeadSHA pr else ru_AllowUnpinnedComments rules))
     \<and> (0 < ru_Freshness rules \<longrightarrow> \<not> IsZero (a_SubmittedAt a) \<and> now - a_SubmittedAt a \<le> ru_Freshness rules)"

lemma drop_reason_None: "drop_reason rules pr author now a = None \<longleftrightarrow> counted rules pr author now a"
  by (auto simp: drop_reason_def counted_def)

lemma covers_empty [simp]: "\<not> covers teams {} g"
  by (simp add: covers_def)

lemma countable_empty [simp]: "countable rules {} = {}"
  by (simp add: countable_def)

lemma spec_no_voters: "voters rules pr author now as = {} \<Longrightarrow> \<not> approved_spec rules as pr co author now"
proof
  assume v: "voters rules pr author now as = {}" and "approved_spec rules as pr co author now"
  then have "ru_RequireAllGroups rules \<and> ru_Approvers rules = [] \<or> \<not> ru_RequireAllGroups rules"
    "\<not> (ru_Codeowners rules \<and> snd (effective_owners rules co) \<noteq> [])"
    "\<not> 0 < (if safety_default rules (snd (effective_owners rules co)) then 1 else ru_RequiredApprovals rules)"
    by (auto simp: approved_spec_def Let_def dest: hd_in_set split: if_splits) (metis hd_in_set prod.collapse)+
  with v \<open>approved_spec rules as pr co author now\<close> show False by (auto simp: approved_spec_def Let_def)
qed

text \<open>
  No apply without a human's live approval. Whatever the configuration - empty, negative counts, only
  groups, only code owners -, a satisfied gate rests on an approval by someone other than the author, that the
  new-commit rule does not dismiss and that is inside the freshness window. In particular no
  approvals, or only the author's own, never satisfy it.
\<close>

theorem satisfied_rests_on_approval:
  assumes "rs_Satisfied (Evaluate_approvals rules as pr codeowners author now)"
  shows "\<exists>a \<in> set as. counted rules pr author now a"
proof -
  from assms have "voters rules pr author now as \<noteq> {}" using spec_no_voters by (auto simp: approval_gate_eq)
  then show ?thesis by (auto simp: voters_def drop_reason_None)
qed

definition sample_rules :: Rules where
  "sample_rules = \<lparr>ru_RequiredApprovals = 1, ru_Approvers = [''org/sre''], ru_Codeowners = False,
     ru_RequireAllGroups = False, ru_DismissOnNewCommit = True, ru_AllowUnpinnedComments = False,
     ru_Freshness = hour, ru_AllowUnlistedApprovalsOnPublic = False,
     ru_TeamMembers = [(''org/sre'', [''bob'', ''carol''])]\<rparr>"

definition sample_pr :: PR where
  "sample_pr = \<lparr>pr_Number = 7, pr_HeadSHA = ''abc1234'', pr_Author = ''alice'', pr_BaseRef = ''main'',
     pr_IsFork = False, pr_RepoPrivate = False, pr_OpenedAt = 0, pr_Changed = [''api/main.go'']\<rparr>"

definition sample_approval :: Approval where
  "sample_approval = \<lparr>a_Source = ''pr_review'', a_Approver = ''bob'', a_SubmittedAt = 0,
     a_CommitSHA = ''abc1234'', a_Pinned = True\<rparr>"

theorem satisfied_rests_on_approval_witness:
  "rs_Satisfied (Evaluate_approvals sample_rules [sample_approval] sample_pr [] ''alice'' minute)
   \<and> counted sample_rules sample_pr ''alice'' minute sample_approval"
proof -
  have s: "rs_Satisfied (Evaluate_approvals sample_rules [sample_approval] sample_pr [] ''alice'' minute)" by code_simp
  from satisfied_rests_on_approval [OF s] s show ?thesis by simp
qed

lemma set_match_owners:
  "set (snd (match_owners co)) =
     {(p, filter (\<lambda>ow. \<not> isEmailOwner ow) os) | p os. (p, os) \<in> set co \<and> filter (\<lambda>ow. \<not> isEmailOwner ow) os \<noteq> []}"
  by (induction co rule: match_owners.induct) (auto simp: Let_def split: prod.split)

lemma effective_owners_cong:
  assumes "set co = set co'"
  shows "set (snd (effective_owners rules co)) = set (snd (effective_owners rules co'))"
  using assms by (auto simp: effective_owners_def set_match_owners)

text \<open>
  The verdict does not depend on the order in which Go visits its maps or in which approvals arrive,
  nor on an approval being listed twice: only on which approvals and which owned paths there are.
\<close>

theorem verdict_order_independent:
  assumes "set as = set as'" and "set co = set co'"
  shows "rs_Satisfied (Evaluate_approvals rules as pr co author now)
       = rs_Satisfied (Evaluate_approvals rules as' pr co' author now)"
proof -
  have v: "voters rules pr author now as = voters rules pr author now as'" using assms(1) by (simp add: voters_def)
  have o: "set (snd (effective_owners rules co)) = set (snd (effective_owners rules co'))"
    by (rule effective_owners_cong [OF assms(2)])
  then have "snd (effective_owners rules co) = [] \<longleftrightarrow> snd (effective_owners rules co') = []"
    by (metis set_empty)
  with v o show ?thesis
    unfolding approval_gate_eq approved_spec_def safety_default_def Let_def by simp
qed

theorem verdict_order_independent_witness:
  "set [sample_approval, sample_approval] = set [sample_approval]
   \<and> rs_Satisfied (Evaluate_approvals sample_rules [sample_approval, sample_approval] sample_pr [] ''alice'' minute)
       = rs_Satisfied (Evaluate_approvals sample_rules [sample_approval] sample_pr [] ''alice'' minute)"
  using verdict_order_independent [of "[sample_approval, sample_approval]" "[sample_approval]" "[]" "[]" sample_rules sample_pr "''alice''" minute]
  by simp

lemma merge_rule_required:
  "ru_RequiredApprovals (merge_rule r out) =
     (if ''required_approvals'' \<in> set (sr_Present r) then ru_RequiredApprovals (sr_Rules r) else ru_RequiredApprovals out)"
  by (simp add: merge_rule_def Let_def)

lemma merge_rule_approvers:
  "set (ru_Approvers (merge_rule r out)) = set (ru_Approvers out) \<union> set (ru_Approvers (sr_Rules r))"
  by (auto simp: merge_rule_def Let_def unionStrings_def)

lemma fold_required:
  assumes "sorted (map f rs)"
  shows "(\<forall>r \<in> set rs. ''required_approvals'' \<notin> set (sr_Present r)) \<and>
           ru_RequiredApprovals (fold merge_rule rs out) = ru_RequiredApprovals out
       \<or> (\<exists>r \<in> set rs. ''required_approvals'' \<in> set (sr_Present r)
            \<and> ru_RequiredApprovals (fold merge_rule rs out) = ru_RequiredApprovals (sr_Rules r)
            \<and> (\<forall>r' \<in> set rs. ''required_approvals'' \<in> set (sr_Present r') \<longrightarrow> f r' \<le> f r))"
  using assms
proof (induction rs arbitrary: out)
  case (Cons r rs)
  from Cons.prems have s: "sorted (map f rs)" and le: "\<forall>r' \<in> set rs. f r \<le> f r'" by auto
  from Cons.IH [OF s, of "merge_rule r out"] show ?case
  proof
    assume a: "(\<forall>r \<in> set rs. ''required_approvals'' \<notin> set (sr_Present r)) \<and>
      ru_RequiredApprovals (fold merge_rule rs (merge_rule r out)) = ru_RequiredApprovals (merge_rule r out)"
    then show ?thesis by (cases "''required_approvals'' \<in> set (sr_Present r)") (auto simp: merge_rule_required)
  next
    assume "\<exists>q \<in> set rs. ''required_approvals'' \<in> set (sr_Present q)
      \<and> ru_RequiredApprovals (fold merge_rule rs (merge_rule r out)) = ru_RequiredApprovals (sr_Rules q)
      \<and> (\<forall>r' \<in> set rs. ''required_approvals'' \<in> set (sr_Present r') \<longrightarrow> f r' \<le> f q)"
    then show ?thesis using le by auto
  qed
qed simp

lemma fold_approvers:
  "set (ru_Approvers (fold merge_rule rs out)) = set (ru_Approvers out) \<union> (\<Union>r \<in> set rs. set (ru_Approvers (sr_Rules r)))"
  by (induction rs arbitrary: out) (auto simp: merge_rule_approvers)

definition sets_required :: "StackRule \<Rightarrow> bool" where
  "sets_required r \<longleftrightarrow> ''required_approvals'' \<in> set (sr_Present r)"

definition matches_ref :: "(string \<Rightarrow> string \<Rightarrow> bool) \<Rightarrow> ApprovalConfig \<Rightarrow> string \<Rightarrow> StackRule set" where
  "matches_ref glob cfg ref = {r \<in> set (ac_Stacks cfg). glob (sr_Pattern r) ref}"

text \<open>
  The most specific rule decides. The required number of approvals of a stack is the default's
  when no matching pattern sets it; otherwise it is taken from a matching rule that sets it and that no
  other matching rule setting it exceeds in specificity. The approver lists of all matching rules are joined.
\<close>

theorem most_specific_rule_wins:
  "(ru_RequiredApprovals (Resolve_rules glob cfg ref) = ru_RequiredApprovals (ac_Default cfg)
      \<and> {r \<in> matches_ref glob cfg ref. sets_required r} = {}
    \<or> (\<exists>r \<in> matches_ref glob cfg ref. sets_required r
         \<and> ru_RequiredApprovals (Resolve_rules glob cfg ref) = ru_RequiredApprovals (sr_Rules r)
         \<and> (\<lambda>r. specificity (sr_Pattern r)) ` {r' \<in> matches_ref glob cfg ref. sets_required r'} \<subseteq> {.. specificity (sr_Pattern r)}))
   \<and> set (ru_Approvers (Resolve_rules glob cfg ref))
       = set (ru_Approvers (ac_Default cfg)) \<union> (\<Union>r \<in> matches_ref glob cfg ref. set (ru_Approvers (sr_Rules r)))"
proof -
  let ?rs = "matching_rules glob cfg ref" and ?f = "\<lambda>r. specificity (sr_Pattern r)"
  have set: "set ?rs = matches_ref glob cfg ref"
    by (auto simp: matching_rules_def sortBySpecificity_def matches_ref_def)
  have "sorted (map ?f ?rs)"
    unfolding matching_rules_def sortBySpecificity_def by (rule sorted_insertion_sort)
  from fold_required [OF this, of "ac_Default cfg"] show ?thesis
    unfolding set Resolve_rules_def fold_approvers sets_required_def by auto
qed

end
