(* ===== verification/BreakGlass.thy ===== *)
theory BreakGlass
  imports Approvals
begin

text \<open>
  Emergency applies, \<open>internal/core/breakglass\<close>: \<open>breakglass.go\<close> (who may invoke one) and \<open>command.go\<close> (the
  comment command). \<open>CODEOWNERS\<close> ownership and team membership are association lists in the order a Go
  \<open>range\<close> loop visits the map. Error texts are constructors; the trace keeps their arguments.
\<close>

subsection \<open>Data\<close>

definition SourceInternalList :: string where "SourceInternalList = ''internal_list''"
definition SourceCodeowners :: string where "SourceCodeowners = ''codeowners''"
definition SourceAnyone :: string where "SourceAnyone = ''anyone''"

record BGConfig =
  bg_Configured :: bool
  bg_InternalList :: "string list"
  bg_Codeowners :: bool
  bg_Anyone :: bool
  bg_VCSBypass :: bool
  bg_Groups :: "string list"
  bg_OverrideFreeze :: bool
  bg_RejectSelfAuthorization :: bool

record BGInputs =
  bi_Actor :: string
  bi_OwnedPaths :: "(string \<times> string list) list"
  bi_TeamMembers :: teams
  bi_AuthorizingPathsTouched :: "string list"

datatype BGTrace = DeniedNoActor | DeniedSelfAuth "string list" | ListedTeam string string | ListedDirectly string
  | NotListed string | OwnsPath string string | NoOwnedPath | OwnsNone string | AnyoneGranted | DeniedAll string

datatype BGErr = ErrNotConfigured | NoSources | MalformedGroup string | GroupsUnsupported "string list" | VCSBypassUnsupported

record Decision =
  de_Authorized :: bool
  de_Source :: string
  de_Trace :: "BGTrace list"

subsection \<open>Authorization\<close>

definition HasSource :: "BGConfig \<Rightarrow> bool" where
  "HasSource c \<longleftrightarrow> bg_InternalList c \<noteq> [] \<or> bg_Codeowners c \<or> bg_Anyone c \<or> bg_VCSBypass c \<or> bg_Groups c \<noteq> []"

definition containsLogin :: "string list \<Rightarrow> string \<Rightarrow> bool" where
  "containsLogin members lg = list_ex (\<lambda>m. EqualFold (login m) lg) members"

definition parseGroupRef :: "string \<Rightarrow> BGErr + string \<times> string" where
  "parseGroupRef s =
     (let ref = TrimPrefix (TrimSpace s) ''group:'' in
      case Cut ref '':'' of (provider, nm, ok) \<Rightarrow>
        if \<not> ok \<or> provider = '''' \<or> nm = '''' then Inl (MalformedGroup s) else Inr (provider, nm))"

definition is_owner :: "teams \<Rightarrow> string \<Rightarrow> string \<Rightarrow> bool" where
  "is_owner teams actor ow0 =
     (let ow = login ow0 in
      if isTeamSlug ow then containsLogin (map_get teams [] ow) actor else EqualFold ow actor)"

fun ownsAny :: "(string \<times> string list) list \<Rightarrow> string \<Rightarrow> teams \<Rightarrow> string option" where
  "ownsAny [] actor teams = None"
| "ownsAny ((path, owners) # rest) actor teams =
     (if list_ex (is_owner teams actor) owners then Some path else ownsAny rest actor teams)"

text \<open>The loop over \<open>internal_list\<close>: the trace line of the entry that grants.\<close>

fun list_grant :: "teams \<Rightarrow> string \<Rightarrow> string list \<Rightarrow> BGTrace option" where
  "list_grant teams actor [] = None"
| "list_grant teams actor (entry # rest) =
     (let e = login (TrimSpace entry) in
      if e = '''' then list_grant teams actor rest
      else if isTeamSlug e then
        if containsLogin (map_get teams [] e) actor then Some (ListedTeam actor e) else list_grant teams actor rest
      else if EqualFold e actor then Some (ListedDirectly actor)
      else list_grant teams actor rest)"

fun first_malformed :: "string list \<Rightarrow> BGErr option" where
  "first_malformed [] = None"
| "first_malformed (g # gs) = (case parseGroupRef g of Inl e \<Rightarrow> Some e | Inr _ \<Rightarrow> first_malformed gs)"

definition denied :: "BGTrace list \<Rightarrow> Decision" where
  "denied tr = \<lparr>de_Authorized = False, de_Source = '''', de_Trace = tr\<rparr>"

definition granted :: "string \<Rightarrow> BGTrace list \<Rightarrow> Decision" where
  "granted src tr = \<lparr>de_Authorized = True, de_Source = src, de_Trace = tr\<rparr>"

definition Authorize :: "BGConfig \<Rightarrow> BGInputs \<Rightarrow> BGErr + Decision" where
  "Authorize cfg inp =
     (if \<not> bg_Configured cfg then Inl ErrNotConfigured
      else if \<not> HasSource cfg then Inl NoSources
      else if bg_Groups cfg \<noteq> [] then
        Inl (case first_malformed (bg_Groups cfg) of Some e \<Rightarrow> e | None \<Rightarrow> GroupsUnsupported (bg_Groups cfg))
      else if bg_VCSBypass cfg then Inl VCSBypassUnsupported
      else
        let actor = login (TrimSpace (bi_Actor inp)) in
        if actor = '''' then Inr (denied [DeniedNoActor])
        else if bg_RejectSelfAuthorization cfg \<and> bi_AuthorizingPathsTouched inp \<noteq> []
        then Inr (denied [DeniedSelfAuth (bi_AuthorizingPathsTouched inp)])
        else case list_grant (bi_TeamMembers inp) actor (bg_InternalList cfg) of
               Some m \<Rightarrow> Inr (granted SourceInternalList [m])
             | None \<Rightarrow>
                 let tr = (if bg_InternalList cfg \<noteq> [] then [NotListed actor] else []) in
                 case (if bg_Codeowners cfg then ownsAny (bi_OwnedPaths inp) actor (bi_TeamMembers inp) else None) of
                   Some path \<Rightarrow> Inr (granted SourceCodeowners (tr @ [OwnsPath actor path]))
                 | None \<Rightarrow>
                     let tr = tr @ (if \<not> bg_Codeowners cfg then []
                                    else if bi_OwnedPaths inp = [] then [NoOwnedPath] else [OwnsNone actor]) in
                     if bg_Anyone cfg then Inr (granted SourceAnyone (tr @ [AnyoneGranted]))
                     else Inr (denied (tr @ [DeniedAll actor])))"

definition authorizing_path :: "string \<Rightarrow> bool" where
  "authorizing_path p \<longleftrightarrow>
     HasPrefix p ''.reeve/'' \<and> (HasSuffix p ''.yaml'' \<or> HasSuffix p ''.yml'')
     \<or> p = ''CODEOWNERS'' \<or> p = ''.github/CODEOWNERS'' \<or> p = ''docs/CODEOWNERS''"

definition AuthorizingPathsTouched :: "string list \<Rightarrow> string list" where
  "AuthorizingPathsTouched changed = filter authorizing_path (map (\<lambda>p. TrimPrefix p ''/'') changed)"

subsection \<open>The comment command\<close>

record BGCommand =
  cm_Justification :: string
  cm_Force :: bool

datatype ParseErr = NotReeve | NotBreakglass | NotQuoted | Unterminated | EmptyJustification
  | MissingVerb | BadVerb string | TrailingInput "string list"

definition cutToken :: "string \<Rightarrow> string \<Rightarrow> string option" where
  "cutToken s0 tok =
     (let s = TrimSpace s0 in
      if s = tok then Some ''''
      else if HasPrefix s (tok @ '' '') \<or> HasPrefix s (tok @ [CHR 9]) then Some (drop (length tok) s)
      else None)"

text \<open>\<open>strings.ReplaceAll(s, "\\r\\n", "\\n")\<close>\<close>

fun crlf_to_lf :: "string \<Rightarrow> string" where
  "crlf_to_lf (a # b # s) = (if a = CHR 13 \<and> b = CHR 10 then CHR 10 # crlf_to_lf s else a # crlf_to_lf (b # s))"
| "crlf_to_lf s = s"

definition ascii_quote :: string where "ascii_quote = [CHR 34]"
definition left_quote :: string where "left_quote = [CHR 0xE2, CHR 0x80, CHR 0x9C]"
definition right_quote :: string where "right_quote = [CHR 0xE2, CHR 0x80, CHR 0x9D]"

definition openQuotes :: "string \<Rightarrow> string option" where
  "openQuotes r = (if r = ascii_quote then Some ascii_quote else if r = left_quote then Some right_quote else None)"

text \<open>The runes before the first closing quote, that quote, and the runes after it.\<close>

fun split_at_quote :: "string \<Rightarrow> string list \<Rightarrow> (string \<times> string) option" where
  "split_at_quote closing [] = None"
| "split_at_quote closing (r # rs) =
     (if r = closing \<or> r = ascii_quote then Some ('''', concat rs)
      else case split_at_quote closing rs of
             None \<Rightarrow> None
           | Some (body, tail) \<Rightarrow> Some (r @ body, tail))"

definition parse_tail :: "string \<Rightarrow> string list \<Rightarrow> ParseErr + BGCommand" where
  "parse_tail justification tail =
     (case tail of
        [] \<Rightarrow> Inl MissingVerb
      | verb # others \<Rightarrow>
          if verb \<noteq> ''apply'' then Inl (BadVerb verb)
          else case others of
                 [] \<Rightarrow> Inr \<lparr>cm_Justification = justification, cm_Force = False\<rparr>
               | [f] \<Rightarrow> if f = ''--force'' \<or> f = ''force''
                        then Inr \<lparr>cm_Justification = justification, cm_Force = True\<rparr>
                        else Inl (TrailingInput others)
               | _ \<Rightarrow> Inl (TrailingInput others))"

definition ParseCommand :: "string \<Rightarrow> ParseErr + BGCommand" where
  "ParseCommand comment =
     (let line = TrimSpace (fst (Cut (crlf_to_lf comment) [CHR 10])) in
      case cutToken line ''/reeve'' of
        None \<Rightarrow> Inl NotReeve
      | Some rest \<Rightarrow>
          (case cutToken rest ''breakglass'' of
             None \<Rightarrow> Inl NotBreakglass
           | Some rest \<Rightarrow>
               (case rune_split (TrimSpace rest) of
                  [] \<Rightarrow> Inl NotQuoted
                | open # body \<Rightarrow>
                    (case openQuotes open of
                       None \<Rightarrow> Inl NotQuoted
                     | Some closing \<Rightarrow>
                         (case split_at_quote closing body of
                            None \<Rightarrow> Inl Unterminated
                          | Some (text, tail) \<Rightarrow>
                              let justification = TrimSpace text in
                              if justification = '''' then Inl EmptyJustification
                              else parse_tail justification (Fields tail))))))"

subsection \<open>Properties\<close>

definition authorized :: "BGErr + Decision \<Rightarrow> bool" where
  "authorized r = (case r of Inl _ \<Rightarrow> False | Inr d \<Rightarrow> de_Authorized d)"

text \<open>Who a list entry or an owner names.\<close>

definition entry_names :: "teams \<Rightarrow> string \<Rightarrow> string \<Rightarrow> bool" where
  "entry_names teams actor entry =
     (let e = login (TrimSpace entry) in
      e \<noteq> '''' \<and> (if isTeamSlug e then containsLogin (map_get teams [] e) actor else EqualFold e actor))"

lemma list_grant_Some: "list_grant teams actor es \<noteq> None \<longleftrightarrow> (\<exists>e \<in> set es. entry_names teams actor e)"
  by (induction es) (auto simp: Let_def entry_names_def)

lemma ownsAny_Some: "ownsAny owned actor teams \<noteq> None \<longleftrightarrow> (\<exists>p \<in> set owned. list_ex (is_owner teams actor) (snd p))"
  by (induction owned actor teams rule: ownsAny.induct) auto

definition may_break_glass :: "BGConfig \<Rightarrow> BGInputs \<Rightarrow> string \<Rightarrow> bool" where
  "may_break_glass cfg inp src =
     (let actor = login (TrimSpace (bi_Actor inp)); teams = bi_TeamMembers inp;
          listed = (\<exists>e \<in> set (bg_InternalList cfg). entry_names teams actor e);
          owner = (bg_Codeowners cfg \<and> (\<exists>p \<in> set (bi_OwnedPaths inp). list_ex (is_owner teams actor) (snd p)))
      in bg_Configured cfg \<and> bg_Groups cfg = [] \<and> \<not> bg_VCSBypass cfg \<and> actor \<noteq> ''''
         \<and> \<not> (bg_RejectSelfAuthorization cfg \<and> bi_AuthorizingPathsTouched inp \<noteq> [])
         \<and> (src = SourceInternalList \<and> listed
            \<or> src = SourceCodeowners \<and> \<not> listed \<and> owner
            \<or> src = SourceAnyone \<and> \<not> listed \<and> \<not> owner \<and> bg_Anyone cfg))"

text \<open>
  Who may break glass. \<open>Authorize\<close> grants, naming the source \<open>src\<close>, exactly when the block is configured
  with supported sources only, the actor is identified, the pull request does not edit its own authorizing
  files where that is forbidden, and \<open>src\<close> is the narrowest source that covers the actor:
  the explicit list, then ownership of a changed path, then \<open>anyone\<close>.
\<close>

theorem authorize_spec:
  "(\<exists>d. Authorize cfg inp = Inr d \<and> de_Authorized d \<and> de_Source d = src) = may_break_glass cfg inp src"
proof -
  define actor where "actor = login (TrimSpace (bi_Actor inp))"
  have src: "SourceInternalList \<noteq> SourceCodeowners" "SourceInternalList \<noteq> SourceAnyone" "SourceCodeowners \<noteq> SourceAnyone"
    by (simp_all add: SourceInternalList_def SourceCodeowners_def SourceAnyone_def)
  have has: "HasSource cfg" if "bg_Groups cfg = []" "\<not> bg_VCSBypass cfg"
      "(\<exists>e \<in> set (bg_InternalList cfg). entry_names (bi_TeamMembers inp) actor e) \<or> bg_Codeowners cfg \<or> bg_Anyone cfg"
    using that by (auto simp: HasSource_def)
  show ?thesis
    unfolding may_break_glass_def Let_def actor_def [symmetric]
    using has list_grant_Some [of "bi_TeamMembers inp" actor "bg_InternalList cfg"]
      ownsAny_Some [of "bi_OwnedPaths inp" actor "bi_TeamMembers inp"] src
    by (auto simp: Authorize_def Let_def actor_def [symmetric] denied_def granted_def split: option.splits)
qed

text \<open>Comment text that can stand between ASCII quotes.\<close>

definition quotable :: "char \<Rightarrow> bool" where
  "quotable c \<longleftrightarrow> CHR 0x20 \<le> c \<and> c \<le> CHR 0x7E \<and> c \<noteq> CHR 34"

lemma quotable_ascii: "quotable c \<Longrightarrow> ascii_char c"
  by (auto simp: quotable_def ascii_char_def less_eq_char_def)

lemma quotable_no_newline: "quotable c \<Longrightarrow> c \<noteq> CHR 10 \<and> c \<noteq> CHR 13"
  by (auto simp: quotable_def less_eq_char_def)

definition bg_comment :: "string \<Rightarrow> bool \<Rightarrow> string" where
  "bg_comment j force = ''/reeve breakglass '' @ [CHR 34] @ j @ [CHR 34] @ '' apply'' @ (if force then '' --force'' else '''')"

lemma crlf_id: "CHR 13 \<notin> set s \<Longrightarrow> crlf_to_lf s = s"
  by (induction s rule: crlf_to_lf.induct) auto

lemma Cut_absent: "CHR 10 \<notin> set s \<Longrightarrow> Cut s [CHR 10] = (s, [], False)"
  by (induction s) (auto simp: HasPrefix_def)

lemma split_at_quote_ascii:
  "list_all quotable j \<Longrightarrow>
   split_at_quote ascii_quote (map (\<lambda>c. [c]) (j @ [CHR 34] @ t)) = Some (j, t)"
proof (induction j)
  case Nil
  have "concat (map (\<lambda>c. [c]) t) = t" by (induction t) auto
  then show ?case by (simp add: ascii_quote_def)
next
  case (Cons c j)
  then show ?case by (simp add: ascii_quote_def quotable_def)
qed

lemma bg_comment_chars:
  assumes "list_all quotable j"
  shows "CHR 10 \<notin> set (bg_comment j force)" "CHR 13 \<notin> set (bg_comment j force)"
  using assms quotable_no_newline by (auto simp: bg_comment_def list_all_iff)

lemma parse_line:
  assumes j: "list_all quotable j" and f: "f = '''' \<or> f = '' --force''"
  shows "cutToken (''/reeve breakglass '' @ [CHR 34] @ j @ [CHR 34] @ '' apply'' @ f) ''/reeve''
           = Some ('' breakglass '' @ [CHR 34] @ j @ [CHR 34] @ '' apply'' @ f)"
    and "cutToken ('' breakglass '' @ [CHR 34] @ j @ [CHR 34] @ '' apply'' @ f) ''breakglass''
           = Some ('' '' @ [CHR 34] @ j @ [CHR 34] @ '' apply'' @ f)"
    and "TrimSpace ('' '' @ [CHR 34] @ j @ [CHR 34] @ '' apply'' @ f) = [CHR 34] @ j @ [CHR 34] @ '' apply'' @ f"
    and "TrimSpace (''/reeve breakglass '' @ [CHR 34] @ j @ [CHR 34] @ '' apply'' @ f)
           = ''/reeve breakglass '' @ [CHR 34] @ j @ [CHR 34] @ '' apply'' @ f"
proof -
  obtain t d where f': "[CHR 34] @ '' apply'' @ f = t @ [d]" "graph_char d"
    using f by (auto simp: graph_char_def less_eq_char_def intro: that)
  have g: "graph_char CHR 34" "graph_char CHR ''/''" "graph_char CHR ''b''" by code_simp+
  have e: "TrimSpace (c # s @ [CHR 34] @ '' apply'' @ f) = c # s @ [CHR 34] @ '' apply'' @ f" if "graph_char c" for c s
    using TrimSpace_graph [OF that _ f'(2), of "s @ [CHR 34] @ '' apply'' @ f" "c # s @ t"] f'(1) by simp
  have sp: "CHR 0x20 \<in> set ascii_spaces" by code_simp
  show 4: "TrimSpace (''/reeve breakglass '' @ [CHR 34] @ j @ [CHR 34] @ '' apply'' @ f)
      = ''/reeve breakglass '' @ [CHR 34] @ j @ [CHR 34] @ '' apply'' @ f"
    using e [OF g(2), of "''reeve breakglass '' @ [CHR 34] @ j"] by simp
  show "cutToken (''/reeve breakglass '' @ [CHR 34] @ j @ [CHR 34] @ '' apply'' @ f) ''/reeve''
      = Some ('' breakglass '' @ [CHR 34] @ j @ [CHR 34] @ '' apply'' @ f)"
    unfolding cutToken_def 4 Let_def by (simp add: HasPrefix_def)
  have 2: "TrimSpace ('' breakglass '' @ [CHR 34] @ j @ [CHR 34] @ '' apply'' @ f)
      = ''breakglass '' @ [CHR 34] @ j @ [CHR 34] @ '' apply'' @ f"
    using e [OF g(3), of "''reakglass '' @ [CHR 34] @ j"] TrimSpace_leading_space [OF sp] by simp
  show "cutToken ('' breakglass '' @ [CHR 34] @ j @ [CHR 34] @ '' apply'' @ f) ''breakglass''
      = Some ('' '' @ [CHR 34] @ j @ [CHR 34] @ '' apply'' @ f)"
    unfolding cutToken_def 2 Let_def by (simp add: HasPrefix_def)
  show "TrimSpace ('' '' @ [CHR 34] @ j @ [CHR 34] @ '' apply'' @ f) = [CHR 34] @ j @ [CHR 34] @ '' apply'' @ f"
    using e [OF g(1), of j] TrimSpace_leading_space [OF sp] by simp
qed

lemma parse_bg_comment:
  assumes j: "list_all quotable j" and ne: "TrimSpace j \<noteq> ''''"
  shows "ParseCommand (bg_comment j force) = Inr \<lparr>cm_Justification = TrimSpace j, cm_Force = force\<rparr>"
proof -
  define f where "f = (if force then '' --force'' else '''')"
  have f: "f = '''' \<or> f = '' --force''" by (simp add: f_def)
  have c: "bg_comment j force = ''/reeve breakglass '' @ [CHR 34] @ j @ [CHR 34] @ '' apply'' @ f"
    by (simp add: bg_comment_def f_def)
  have l: "fst (Cut (crlf_to_lf (bg_comment j force)) [CHR 10]) = bg_comment j force"
    by (simp add: crlf_id Cut_absent bg_comment_chars [OF j])
  have "list_all ascii_char ([CHR 34] @ j @ [CHR 34] @ '' apply'' @ f)"
  proof -
    have "list_all ascii_char j" using j quotable_ascii by (simp add: list_all_iff)
    moreover have "list_all ascii_char f" using f by (auto simp: ascii_char_def less_eq_char_def)
    moreover have "list_all ascii_char '' apply''" "ascii_char CHR 34" by code_simp+
    ultimately show ?thesis by simp
  qed
  from rune_split_ascii [OF this] have r: "rune_split ([CHR 34] @ j @ [CHR 34] @ '' apply'' @ f)
      = ascii_quote # map (\<lambda>c. [c]) (j @ [CHR 34] @ '' apply'' @ f)" by (simp add: ascii_quote_def)
  have q: "openQuotes ascii_quote = Some ascii_quote" by (simp add: openQuotes_def)
  have fl: "Fields ('' apply'' @ f) = (if force then [''apply'', ''--force''] else [''apply''])"
  proof -
    have "Fields '' apply'' = [''apply'']" "Fields '' apply --force'' = [''apply'', ''--force'']" by code_simp+
    then show ?thesis by (simp add: f_def)
  qed
  show ?thesis
    unfolding ParseCommand_def Let_def c l [unfolded c] parse_line [OF j f] option.case r list.case q
      split_at_quote_ascii [OF j] prod.case using ne
    by (simp add: fl parse_tail_def del: append_Cons)
qed

text \<open>
  The documented command is understood. The comment \<open>/reeve breakglass "<justification>" apply\<close>, with or
  without \<open>--force\<close>, and a justification of printable ASCII characters that is not blank, parses to that
  justification and that flag.
\<close>

theorem breakglass_command_roundtrip:
  assumes "list_all quotable j" and "TrimSpace j \<noteq> []"
  shows "ParseCommand (bg_comment j force) = Inr \<lparr>cm_Justification = TrimSpace j, cm_Force = force\<rparr>"
  using assms by (rule parse_bg_comment)

theorem breakglass_command_roundtrip_witness:
  "ParseCommand (bg_comment ''prod is down, fix LB'' True)
     = Inr \<lparr>cm_Justification = ''prod is down, fix LB'', cm_Force = True\<rparr>"
proof -
  have "list_all quotable ''prod is down, fix LB''" "TrimSpace ''prod is down, fix LB'' = ''prod is down, fix LB''"
    by code_simp+
  with breakglass_command_roundtrip [of "''prod is down, fix LB''" True] show ?thesis by simp
qed

end
