(* ===== verification/Freeze.thy ===== *)
theory Freeze
  imports GoStrings
begin

text \<open>
  Freeze windows, \<open>internal/core/freeze/freeze.go\<close>. Cron expressions are parsed by a third-party
  package: \<open>parse expr\<close> is its parser and gives the schedule's \<open>Next\<close> function (the first fire after
  a time), or an error. Globs are the parameter \<open>glob\<close>.
\<close>

record Window =
  fw_Name :: string
  fw_Cron :: string
  fw_Duration :: go_duration
  fw_Stacks :: "string list"

type_synonym schedule = "go_time \<Rightarrow> go_time"

definition maxFireScan :: nat where "maxFireScan = 10000"

text \<open>The forward walk: \<open>n\<close> steps are left.\<close>

fun fire_scan :: "schedule \<Rightarrow> go_time \<Rightarrow> nat \<Rightarrow> go_time \<Rightarrow> go_time \<Rightarrow> go_time" where
  "fire_scan nxt now 0 cur prev = prev"
| "fire_scan nxt now (Suc n) cur prev =
     (let t = nxt cur in if now < t then prev else fire_scan nxt now n t t)"

definition mostRecentFire ::
  "(string \<Rightarrow> string + schedule) \<Rightarrow> string \<Rightarrow> go_duration \<Rightarrow> go_time \<Rightarrow> string + go_time" where
  "mostRecentFire parse expr window now =
     (case parse expr of
        Inl e \<Rightarrow> Inl e
      | Inr nxt \<Rightarrow>
          if window \<le> 0 then Inr zero_time
          else Inr (fire_scan nxt now maxFireScan (now - window) zero_time))"

definition window_matches :: "(string \<Rightarrow> string \<Rightarrow> bool) \<Rightarrow> Window \<Rightarrow> string \<Rightarrow> bool" where
  "window_matches glob w ref \<longleftrightarrow> fw_Stacks w = [] \<or> list_ex (\<lambda>pat. glob pat ref) (fw_Stacks w)"

text \<open>\<open>Inl\<close> carries the failing window's name and the parser's error.\<close>

fun ActiveFor ::
  "(string \<Rightarrow> string \<Rightarrow> bool) \<Rightarrow> (string \<Rightarrow> string + schedule) \<Rightarrow> Window list \<Rightarrow> string \<Rightarrow> go_time
     \<Rightarrow> (string \<times> string) + string option" where
  "ActiveFor glob parse [] ref now = Inr None"
| "ActiveFor glob parse (w # ws) ref now =
     (if \<not> window_matches glob w ref then ActiveFor glob parse ws ref now
      else case mostRecentFire parse (fw_Cron w) (fw_Duration w) now of
             Inl e \<Rightarrow> Inl (fw_Name w, e)
           | Inr firing \<Rightarrow>
               if IsZero firing then ActiveFor glob parse ws ref now
               else if now < firing + fw_Duration w then Inr (Some (fw_Name w))
               else ActiveFor glob parse ws ref now)"

subsection \<open>The scan finds a fire exactly when there is one\<close>

text \<open>
  What is used of a schedule: \<open>Next\<close> is the first fire after its argument.
\<close>

definition is_schedule :: "schedule \<Rightarrow> go_time set \<Rightarrow> bool" where
  "is_schedule nxt F \<longleftrightarrow> (\<forall>t. t < nxt t \<and> nxt t \<in> F \<and> (\<forall>f \<in> F. t < f \<longrightarrow> nxt t \<le> f))"

lemma fire_scan_result:
  assumes "is_schedule nxt F" and "prev = dflt \<or> (prev \<in> F \<and> lo < prev \<and> prev \<le> now)" and "lo \<le> cur"
  shows "fire_scan nxt now n cur prev = dflt
     \<or> (fire_scan nxt now n cur prev \<in> F \<and> lo < fire_scan nxt now n cur prev \<and> fire_scan nxt now n cur prev \<le> now)"
  using assms
proof (induction n arbitrary: cur prev)
  case (Suc n)
  have n: "cur < nxt cur" "nxt cur \<in> F" using Suc.prems(1) by (auto simp: is_schedule_def)
  show ?case
  proof (cases "now < nxt cur")
    case True
    with Suc.prems(2) show ?thesis by auto
  next
    case False
    with n Suc.prems(3) have "nxt cur \<in> F \<and> lo < nxt cur \<and> nxt cur \<le> now" by auto
    with Suc.IH [of "nxt cur" "nxt cur"] Suc.prems(1,3) n False show ?thesis by (simp add: Let_def)
  qed
qed auto

lemma fire_scan_found:
  assumes "is_schedule nxt F" and "f \<in> F" and "lo < f" and "f \<le> now" and "zero_time \<le> lo" and "0 < n"
  shows "fire_scan nxt now n lo zero_time \<in> F \<and> lo < fire_scan nxt now n lo zero_time
       \<and> fire_scan nxt now n lo zero_time \<le> now"
proof -
  obtain m where n: "n = Suc m" using assms(6) by (cases n) auto
  have x: "lo < nxt lo" "nxt lo \<in> F" "nxt lo \<le> f" using assms(1-3) by (auto simp: is_schedule_def)
  then have "fire_scan nxt now n lo zero_time = fire_scan nxt now m (nxt lo) (nxt lo)"
    using assms(4) n by (simp add: Let_def)
  with fire_scan_result [OF assms(1), of "nxt lo" "nxt lo" lo now "nxt lo" m] x assms(4) show ?thesis by auto
qed

lemma mostRecentFire_frozen:
  assumes "parse expr = Inr nxt" and "is_schedule nxt F" and "zero_time \<le> now - window"
  shows "\<exists>firing. mostRecentFire parse expr window now = Inr firing
     \<and> (\<not> IsZero firing \<and> now < firing + window \<longleftrightarrow> (\<exists>f \<in> F. f \<le> now \<and> now < f + window))"
proof (cases "0 < window")
  case False
  then have "\<not> (\<exists>f \<in> F. f \<le> now \<and> now < f + window)" by auto
  with False assms(1) show ?thesis by (simp add: mostRecentFire_def IsZero_def)
next
  case True
  let ?r = "fire_scan nxt now maxFireScan (now - window) zero_time"
  have r: "?r = zero_time \<or> (?r \<in> F \<and> now - window < ?r \<and> ?r \<le> now)"
    using fire_scan_result [OF assms(2), of zero_time zero_time "now - window" now "now - window"] by simp
  have "\<not> IsZero ?r \<and> now < ?r + window" if "f \<in> F" "f \<le> now" "now < f + window" for f
  proof -
    have "now - window < ?r"
      using fire_scan_found [OF assms(2) that(1) _ that(2) assms(3), of maxFireScan] that(3)
      by (simp add: maxFireScan_def)
    with assms(3) show ?thesis by (auto simp: IsZero_def)
  qed
  with r True assms(1) show ?thesis by (auto simp: mostRecentFire_def IsZero_def)
qed

subsection \<open>Property\<close>

definition frozen_spec ::
  "(string \<Rightarrow> string \<Rightarrow> bool) \<Rightarrow> (string \<Rightarrow> go_time set) \<Rightarrow> Window list \<Rightarrow> string \<Rightarrow> go_time \<Rightarrow> bool" where
  "frozen_spec glob fires ws ref now \<longleftrightarrow>
     (\<exists>w \<in> set ws. window_matches glob w ref \<and> (\<exists>f \<in> fires (fw_Cron w). f \<le> now \<and> now < f + fw_Duration w))"

text \<open>
  C13. A stack is frozen exactly during its windows. When every window's cron expression parses to a schedule,
  \<open>ActiveFor\<close> reports a freeze exactly when some window that covers the stack fired at a time \<open>f\<close> with
  \<open>f \<le> now < f + duration\<close>. The bound of ten thousand scan steps never opens the gate, however
  often the schedule fires within its window.
\<close>

theorem freeze_exact:
  assumes "\<forall>w \<in> set ws. \<exists>nxt. parse (fw_Cron w) = Inr nxt \<and> is_schedule nxt (fires (fw_Cron w))"
    and "\<forall>w \<in> set ws. zero_time \<le> now - fw_Duration w"
  shows "\<exists>r. ActiveFor glob parse ws ref now = Inr r \<and> (r \<noteq> None \<longleftrightarrow> frozen_spec glob fires ws ref now)"
  using assms
proof (induction ws)
  case (Cons w ws)
  then obtain r where r: "ActiveFor glob parse ws ref now = Inr r" "r \<noteq> None \<longleftrightarrow> frozen_spec glob fires ws ref now"
    by auto
  from Cons.prems obtain nxt where n: "parse (fw_Cron w) = Inr nxt" "is_schedule nxt (fires (fw_Cron w))"
    "zero_time \<le> now - fw_Duration w" by auto
  from mostRecentFire_frozen [of parse "fw_Cron w", OF n] obtain firing where
    f: "mostRecentFire parse (fw_Cron w) (fw_Duration w) now = Inr firing"
    "\<not> IsZero firing \<and> now < firing + fw_Duration w \<longleftrightarrow> (\<exists>f \<in> fires (fw_Cron w). f \<le> now \<and> now < f + fw_Duration w)"
    by auto
  have "frozen_spec glob fires (w # ws) ref now \<longleftrightarrow>
      window_matches glob w ref \<and> \<not> IsZero firing \<and> now < firing + fw_Duration w \<or> frozen_spec glob fires ws ref now"
    using f(2) by (auto simp: frozen_spec_def)
  with r f(1) show ?case by auto
qed (simp add: frozen_spec_def)

definition hourly :: schedule where "hourly t = (t div hour + 1) * hour"

lemma hourly_schedule: "is_schedule hourly {k * hour | k. True}"
proof -
  have "t < hourly t" for t
  proof -
    have "t = hour * (t div hour) + t mod hour" "t mod hour < hour" by (simp_all add: pos_mod_bound)
    moreover have "hourly t = hour * (t div hour) + hour" unfolding hourly_def by (simp add: distrib_left mult.commute)
    ultimately show ?thesis by linarith
  qed
  moreover have "hourly t \<le> k * hour" if "t < k * hour" for t k
  proof -
    have "\<not> k \<le> t div hour"
    proof
      assume "k \<le> t div hour"
      then have "k * hour \<le> t div hour * hour" by (intro mult_right_mono) (simp_all add: less_imp_le)
      moreover have "t = t div hour * hour + t mod hour" "0 \<le> t mod hour" by simp_all
      ultimately show False using that by linarith
    qed
    then show ?thesis unfolding hourly_def by (intro mult_right_mono) (simp_all add: less_imp_le)
  qed
  ultimately show ?thesis unfolding is_schedule_def by (auto simp: hourly_def)
qed

definition sample_window :: Window where
  "sample_window = \<lparr>fw_Name = ''hourly'', fw_Cron = ''0 * * * *'', fw_Duration = minute, fw_Stacks = []\<rparr>"

theorem freeze_exact_witness:
  "\<exists>r. ActiveFor (\<lambda>_ _. False) (\<lambda>_. Inr hourly) [sample_window] ''api/prod'' (hour + second) = Inr r
     \<and> (r \<noteq> None) = frozen_spec (\<lambda>_ _. False) (\<lambda>_. {k * hour | k. True}) [sample_window] ''api/prod'' (hour + second)"
proof -
  have "zero_time \<le> hour + second - fw_Duration sample_window" by code_simp
  then show ?thesis
    using freeze_exact [of "[sample_window]" "\<lambda>_. Inr hourly" "\<lambda>_. {k * hour | k. True}" "hour + second"] hourly_schedule
    by simp
qed

end
