(* ===== verification/Discovery.thy ===== *)
theory Discovery
  imports GoStrings
begin

text \<open>
  Stack discovery and change mapping, \<open>internal/core/discovery\<close>: \<open>discovery.go\<close> and \<open>cluster.go\<close>.
  \<open>glob\<close> and \<open>pglob\<close> are doublestar's \<open>Match\<close> and \<open>PathMatch\<close>, third-party code; a malformed pattern
  matches nothing. Go's \<open>sort.Slice\<close> is the insertion sort of the prelude: which of two entries with
  equal keys comes first is left open by Go.
\<close>

subsection \<open>Data\<close>

record Stack =
  st_Project :: string
  st_Path :: string
  st_Name :: string
  st_Env :: string

definition stack_Ref :: "Stack \<Rightarrow> string" where "stack_Ref s = st_Project s @ ''/'' @ st_Name s"

record Declaration =
  dc_Project :: string
  dc_Path :: string
  dc_Pattern :: string
  dc_Stacks :: "string list"

record Filter =
  fl_PathPatterns :: "string list"
  fl_StackPatterns :: "string list"

record ChangeMapping =
  cg_IgnoreChanges :: "string list"
  cg_ExtraTriggers :: "(string \<times> string list) list"
  cg_Scope :: string

datatype AffectReason = ReasonMatched | ReasonDocsOnly | ReasonBroadened

record AffectedResult =
  af_Stacks :: "Stack list"
  af_Reason :: AffectReason
  af_Unmapped :: "string list"
  af_Matched :: "Stack list"

type_synonym globber = "string \<Rightarrow> string \<Rightarrow> bool"

definition ScopePulumiOnly :: string where "ScopePulumiOnly = ''pulumi_only''"

definition DefaultSkipGlobs :: "string list" where
  "DefaultSkipGlobs =
     [''**/*.md'', ''*.md'', ''**/*.markdown'', ''*.markdown'', ''**/*.adoc'', ''*.adoc'',
      ''**/*.asciidoc'', ''*.asciidoc'', ''**/*.rst'', ''*.rst'', ''**/*.txt'', ''*.txt'',
      ''**/LICENSE'', ''LICENSE'',
      ''**/*.png'', ''**/*.jpg'', ''**/*.jpeg'', ''**/*.gif'', ''**/*.svg'', ''**/*.webp'']"

subsection \<open>Paths of the configured root\<close>

definition cleanRepoPath :: "string \<Rightarrow> string" where
  "cleanRepoPath value0 =
     (let v = TrimSpace (map (\<lambda>c. if c = CHR 92 then CHR ''/'' else c) value0) in
      if v = '''' \<or> HasPrefix v ''/'' then ''''
      else let clean = path_Clean v in
           if clean = ''..'' \<or> HasPrefix clean ''../'' then '''' else TrimPrefix clean ''./'')"

definition scope_file :: "string \<Rightarrow> string \<Rightarrow> string option" where
  "scope_file root file0 =
     (let file = cleanRepoPath file0 in
      if file = '''' then None
      else if root = ''.'' then Some file
      else if file = root then Some ''.''
      else if HasPrefix file (root @ ''/'') then Some (TrimPrefix file (root @ ''/''))
      else None)"

definition ScopeChangedFiles :: "string list \<Rightarrow> string \<Rightarrow> string list" where
  "ScopeChangedFiles files root0 =
     (let root = cleanRepoPath root0; root = (if root = '''' then ''.'' else root)
      in List.map_filter (scope_file root) files)"

subsection \<open>Declared stacks\<close>

definition declared :: "globber \<Rightarrow> Stack \<Rightarrow> Declaration list \<Rightarrow> bool" where
  "declared glob s decls \<longleftrightarrow>
     list_ex (\<lambda>d. dc_Pattern d = '''' \<and> dc_Path d \<noteq> '''' \<and> dc_Path d = st_Path s \<and> st_Name s \<in> set (dc_Stacks d)) decls
     \<or> list_ex (\<lambda>d. dc_Pattern d \<noteq> '''' \<and> glob (dc_Pattern d) (st_Path s) \<and> st_Name s \<in> set (dc_Stacks d)) decls"

definition excluded :: "globber \<Rightarrow> Stack \<Rightarrow> Filter \<Rightarrow> bool" where
  "excluded glob s f \<longleftrightarrow>
     list_ex (\<lambda>p. glob p (st_Path s)) (fl_PathPatterns f) \<or> list_ex (\<lambda>p. glob p (stack_Ref s)) (fl_StackPatterns f)"

definition Resolve_stacks :: "globber \<Rightarrow> Stack list \<Rightarrow> Declaration list \<Rightarrow> Filter \<Rightarrow> Stack list" where
  "Resolve_stacks glob enumerated decls flt =
     insertion_sort (\<lambda>a b. stack_Ref a < stack_Ref b)
       (filter (\<lambda>s. declared glob s decls \<and> \<not> excluded glob s flt) enumerated)"

definition paths_of_ref :: "Stack list \<Rightarrow> string \<Rightarrow> string list" where
  "paths_of_ref stacks ref = map st_Path (filter (\<lambda>s. stack_Ref s = ref) stacks)"

text \<open>\<open>Some (ref, paths)\<close> is a \<open>DuplicateStackRefError\<close>: the first ambiguous reference in order.\<close>

definition ValidateUniqueRefs :: "Stack list \<Rightarrow> (string \<times> string list) option" where
  "ValidateUniqueRefs stacks =
     (let dups = filter (\<lambda>ref. 1 < length (paths_of_ref stacks ref)) (dedup_seen [] (map stack_Ref stacks))
      in case insertion_sort (<) dups of
           [] \<Rightarrow> None
         | ref # _ \<Rightarrow> Some (ref, insertion_sort (<) (paths_of_ref stacks ref)))"

subsection \<open>Changed files to stacks\<close>

definition matchesAny :: "globber \<Rightarrow> string list \<Rightarrow> string list \<Rightarrow> bool" where
  "matchesAny pglob patterns files = list_ex (\<lambda>pat. list_ex (pglob pat) files) patterns"

definition stackConfigName :: "string \<Rightarrow> string option" where
  "stackConfigName rel =
     (if Contains rel ''/'' then None
      else if rel = ''Pulumi.yaml'' \<or> rel = ''Pulumi.yml'' then None
      else if \<not> HasPrefix rel ''Pulumi.'' then None
      else let trimmed = TrimPrefix (TrimSuffix (TrimSuffix rel ''.yml'') ''.yaml'') ''Pulumi.'' in
           if trimmed = '''' \<or> trimmed = rel then None else Some trimmed)"

definition fileMatchesStack :: "Stack \<Rightarrow> string \<Rightarrow> bool" where
  "fileMatchesStack s f =
     (let stackPath = st_Path s; root = (stackPath = ''.'' \<or> stackPath = '''');
          pre = (if root then '''' else stackPath @ ''/'')
      in if \<not> root \<and> f \<noteq> stackPath \<and> \<not> HasPrefix f pre then False
         else let rel = (if root then f else TrimPrefix f pre) in
              case stackConfigName rel of Some nm \<Rightarrow> nm = st_Name s | None \<Rightarrow> True)"

definition intersectsPath :: "Stack \<Rightarrow> string list \<Rightarrow> bool" where
  "intersectsPath s changed = list_ex (fileMatchesStack s) changed"

text \<open>The extra triggers of a project, \<open>[]\<close> when it has none.\<close>

definition triggers_of :: "ChangeMapping \<Rightarrow> Stack \<Rightarrow> string list" where
  "triggers_of cm s = map_get (cg_ExtraTriggers cm) [] (st_Project s)"

definition markMatched :: "globber \<Rightarrow> Stack \<Rightarrow> string list \<Rightarrow> ChangeMapping \<Rightarrow> string list" where
  "markMatched pglob s filtered cm =
     filter (\<lambda>f. fileMatchesStack s f \<or> matchesAny pglob (triggers_of cm s) [f]) filtered"

definition stack_hit :: "globber \<Rightarrow> ChangeMapping \<Rightarrow> string list \<Rightarrow> Stack \<Rightarrow> bool" where
  "stack_hit pglob cm filtered s \<longleftrightarrow>
     intersectsPath s filtered \<or> matchesAny pglob (triggers_of cm s) filtered"

definition relevant_files :: "globber \<Rightarrow> string list \<Rightarrow> ChangeMapping \<Rightarrow> string list" where
  "relevant_files pglob changedFiles cm =
     filter (\<lambda>f. \<not> matchesAny pglob (DefaultSkipGlobs @ cg_IgnoreChanges cm) [f]) changedFiles"

definition AffectedDetailed :: "globber \<Rightarrow> Stack list \<Rightarrow> string list \<Rightarrow> ChangeMapping \<Rightarrow> AffectedResult" where
  "AffectedDetailed pglob stacks changedFiles cm =
     (let filtered = relevant_files pglob changedFiles cm in
      if filtered = [] then \<lparr>af_Stacks = [], af_Reason = ReasonDocsOnly, af_Unmapped = [], af_Matched = []\<rparr>
      else
        let out = filter (stack_hit pglob cm filtered) stacks;
            matched = concat (map (\<lambda>s. markMatched pglob s filtered cm) out);
            unmapped = filter (\<lambda>f. f \<notin> set matched) filtered
        in if unmapped \<noteq> [] \<and> cg_Scope cm \<noteq> ScopePulumiOnly
           then \<lparr>af_Stacks = stacks, af_Reason = ReasonBroadened, af_Unmapped = unmapped, af_Matched = out\<rparr>
           else \<lparr>af_Stacks = out, af_Reason = ReasonMatched, af_Unmapped = [], af_Matched = out\<rparr>)"

subsection \<open>Suggested declarations\<close>

text \<open>\<open>Cluster\<close>: the names per path, sorted; paths with one parent and the same names become a pattern.\<close>

definition names_of_path :: "Stack list \<Rightarrow> string \<Rightarrow> string list" where
  "names_of_path stacks p = insertion_sort (<) (dedup_seen [] (map st_Name (filter (\<lambda>s. st_Path s = p) stacks)))"

definition bucket_key :: "Stack list \<Rightarrow> string \<Rightarrow> string \<times> string" where
  "bucket_key stacks p =
     (let parent = path_Dir p; parent = (if parent = ''.'' then '''' else parent)
      in (parent, Join (names_of_path stacks p) '',''))"

definition key_less :: "string \<times> string \<Rightarrow> string \<times> string \<Rightarrow> bool" where
  "key_less a b = (if fst a \<noteq> fst b then fst a < fst b else snd a < snd b)"

definition project_of_path :: "Stack list \<Rightarrow> string \<Rightarrow> string" where
  "project_of_path stacks p = st_Project (last (filter (\<lambda>s. st_Path s = p) stacks))"

definition cluster_decl :: "Stack list \<Rightarrow> string list \<Rightarrow> string \<times> string \<Rightarrow> Declaration" where
  "cluster_decl stacks paths k =
     (let ps = insertion_sort (<) (filter (\<lambda>p. bucket_key stacks p = k) paths);
          names = Split_char CHR '','' (snd k)
      in if 2 \<le> length ps
         then \<lparr>dc_Project = '''', dc_Path = '''', dc_Pattern = (if fst k = '''' then ''*'' else fst k @ ''/*''),
               dc_Stacks = names\<rparr>
         else \<lparr>dc_Project = project_of_path stacks (hd ps), dc_Path = hd ps, dc_Pattern = '''', dc_Stacks = names\<rparr>)"

definition Cluster :: "Stack list \<Rightarrow> Declaration list" where
  "Cluster stacks =
     (let paths = dedup_seen [] (map st_Path stacks);
          keys = insertion_sort key_less (dedup_seen [] (map (bucket_key stacks) paths))
      in map (cluster_decl stacks paths) keys)"

subsection \<open>Properties\<close>

lemma matchesAny_append: "matchesAny pglob pats fs \<longleftrightarrow> (\<exists>f \<in> set fs. matchesAny pglob pats [f])"
  by (auto simp: matchesAny_def list_ex_iff)

text \<open>A stack is hit exactly when one of the files is marked as matched by it.\<close>

lemma stack_hit_marks: "stack_hit pglob cm fs s \<longleftrightarrow> markMatched pglob s fs cm \<noteq> []"
  unfolding stack_hit_def matchesAny_append [of pglob "triggers_of cm s" fs]
  by (auto simp: intersectsPath_def list_ex_iff markMatched_def filter_empty_conv)

definition file_hits :: "globber \<Rightarrow> ChangeMapping \<Rightarrow> string \<Rightarrow> Stack \<Rightarrow> bool" where
  "file_hits pglob cm f s \<longleftrightarrow> fileMatchesStack s f \<or> matchesAny pglob (triggers_of cm s) [f]"

lemma matched_files:
  assumes "f \<in> set fs"
  shows "f \<in> set (concat (map (\<lambda>s. markMatched pglob s fs cm) (filter (stack_hit pglob cm fs) stacks)))
     \<longleftrightarrow> (\<exists>s \<in> set stacks. file_hits pglob cm f s)"
proof -
  have "stack_hit pglob cm fs s" if "file_hits pglob cm f s" for s
    unfolding stack_hit_marks using that assms by (auto simp: markMatched_def file_hits_def filter_empty_conv)
  with assms show ?thesis by (auto simp: markMatched_def file_hits_def)
qed

text \<open>
  No change is lost. Every changed file that is not documentation and not ignored either has all the
  stacks it touches in the result or, when no stack claims it and the scope is not \<open>pulumi_only\<close>, makes the
  result every stack. The stacks that a file demonstrably touches are exactly \<open>Matched\<close>, also when
  the result was broadened, so an apply that uses \<open>Matched\<close> never widens. The reason is docs-only
  exactly when nothing relevant changed.
\<close>

theorem affected_complete:
  assumes "f \<in> set changed" and "\<not> matchesAny pglob (DefaultSkipGlobs @ cg_IgnoreChanges cm) [f]"
  shows "{s \<in> set stacks. file_hits pglob cm f s} \<subseteq> set (af_Stacks (AffectedDetailed pglob stacks changed cm))
    \<and> (cg_Scope cm \<noteq> ScopePulumiOnly \<and> {s \<in> set stacks. file_hits pglob cm f s} = {}
         \<longrightarrow> af_Stacks (AffectedDetailed pglob stacks changed cm) = stacks
             \<and> f \<in> set (af_Unmapped (AffectedDetailed pglob stacks changed cm)))
    \<and> set (af_Matched (AffectedDetailed pglob stacks changed cm))
        = {s \<in> set stacks. \<exists>g \<in> set (relevant_files pglob changed cm). file_hits pglob cm g s}
    \<and> af_Reason (AffectedDetailed pglob stacks changed cm) \<noteq> ReasonDocsOnly"
proof -
  let ?fs = "relevant_files pglob changed cm"
  have f: "f \<in> set ?fs" using assms by (simp add: relevant_files_def)
  then have ne: "?fs \<noteq> []" by auto
  have hit: "stack_hit pglob cm ?fs s \<longleftrightarrow> (\<exists>g \<in> set ?fs. file_hits pglob cm g s)" for s
    unfolding stack_hit_marks by (auto simp: markMatched_def file_hits_def filter_empty_conv)
  note m = matched_files [OF f, of pglob cm stacks]
  show ?thesis using ne f m hit by (auto simp: AffectedDetailed_def Let_def filter_empty_conv)
qed

definition sample_stack :: "string \<Rightarrow> string \<Rightarrow> Stack" where
  "sample_stack proj nm = \<lparr>st_Project = proj, st_Path = ''projects/'' @ proj, st_Name = nm, st_Env = nm\<rparr>"

definition sample_mapping :: ChangeMapping where
  "sample_mapping = \<lparr>cg_IgnoreChanges = [], cg_ExtraTriggers = [], cg_Scope = ''auto''\<rparr>"

definition exact_glob :: globber where "exact_glob pat s \<longleftrightarrow> pat = s"

theorem affected_complete_witness:
  "sample_stack ''api'' ''prod'' \<in> set (af_Stacks (AffectedDetailed exact_glob
     [sample_stack ''api'' ''prod'', sample_stack ''web'' ''prod''] [''projects/api/main.go''] sample_mapping))"
proof -
  have 1: "\<not> matchesAny exact_glob (DefaultSkipGlobs @ cg_IgnoreChanges sample_mapping) [''projects/api/main.go'']" by code_simp
  have 2: "file_hits exact_glob sample_mapping ''projects/api/main.go'' (sample_stack ''api'' ''prod'')" by code_simp
  from affected_complete [OF _ 1, of "[''projects/api/main.go'']" "[sample_stack ''api'' ''prod'', sample_stack ''web'' ''prod'']"] 2
  show ?thesis by auto
qed

lemma TrimSuffix_none: "\<not> HasSuffix s p \<Longrightarrow> TrimSuffix s p = s"
  by (simp add: TrimSuffix_def)

lemma config_name:
  assumes "n \<noteq> ''''" and "CHR ''/'' \<notin> set n"
  shows "stackConfigName (''Pulumi.'' @ n @ ''.yaml'') = Some n"
proof -
  let ?rel = "''Pulumi.'' @ n @ ''.yaml''"
  have "\<not> Contains ?rel ''/''" using assms(2) by (simp add: Contains_single)
  moreover have "\<not> HasSuffix ?rel ''.yml''" by (simp add: HasSuffix_def HasPrefix_def)
  then have "TrimSuffix (TrimSuffix ?rel ''.yml'') ''.yaml'' = ''Pulumi.'' @ n"
    using TrimSuffix_append [of "''Pulumi.'' @ n" "''.yaml''"] by (simp add: TrimSuffix_none)
  moreover have "TrimPrefix (''Pulumi.'' @ n) ''Pulumi.'' = n" by (rule TrimPrefix_append)
  moreover have "?rel \<noteq> ''Pulumi.yaml'' \<and> ?rel \<noteq> ''Pulumi.yml''" using assms(1) by (cases n) auto
  moreover have "HasPrefix ?rel ''Pulumi.''" by (rule HasPrefix_append)
  moreover have "n \<noteq> ?rel"
  proof
    assume "n = ?rel" then have "length n = length ?rel" by (rule arg_cong)
    then show False by simp
  qed
  ultimately show ?thesis using assms(1) unfolding stackConfigName_def Let_def by simp
qed

text \<open>
  A sibling's stack configuration is not this stack's business. In a directory that holds several stacks, a change to
  \<open>Pulumi.<name>.yaml\<close> touches the stack called \<open>name\<close> and no other stack of that directory.
\<close>

theorem sibling_config_ignored:
  assumes "n \<noteq> ''''" and "CHR ''/'' \<notin> set n" and "st_Path s \<noteq> ''''" and "st_Path s \<noteq> ''.''"
  shows "fileMatchesStack s (st_Path s @ ''/'' @ ''Pulumi.'' @ n @ ''.yaml'') \<longleftrightarrow> st_Name s = n"
proof -
  have "TrimPrefix (st_Path s @ ''/'' @ ''Pulumi.'' @ n @ ''.yaml'') (st_Path s @ ''/'') = ''Pulumi.'' @ n @ ''.yaml''"
    using TrimPrefix_append [of "st_Path s @ ''/''"] by simp
  moreover have "HasPrefix (st_Path s @ ''/'' @ ''Pulumi.'' @ n @ ''.yaml'') (st_Path s @ ''/'')"
    using HasPrefix_append [of "st_Path s @ ''/''"] by simp
  ultimately show ?thesis using assms config_name [OF assms(1,2)]
    unfolding fileMatchesStack_def Let_def by auto
qed

theorem sibling_config_ignored_witness:
  "\<not> fileMatchesStack (sample_stack ''api'' ''prod'') (''projects/api'' @ ''/'' @ ''Pulumi.'' @ ''dev'' @ ''.yaml'')
   \<and> fileMatchesStack (sample_stack ''api'' ''dev'') (''projects/api'' @ ''/'' @ ''Pulumi.'' @ ''dev'' @ ''.yaml'')"
  using sibling_config_ignored [of "''dev''" "sample_stack ''api'' ''prod''"]
    sibling_config_ignored [of "''dev''" "sample_stack ''api'' ''dev''"]
  by (simp add: sample_stack_def)

text \<open>
  A file named \<open>Pulumi.<anything>\<close> without a YAML extension, program code such as \<open>Pulumi.lock.json\<close>, is taken for
  the configuration of a stack of that name as well: it touches no stack of its directory, although
  every file that is not a stack's own YAML configuration is meant to be shared by all of them.
\<close>

theorem non_yaml_taken_for_config:
  "stackConfigName ''Pulumi.lock.json'' = Some ''lock.json''
   \<and> \<not> fileMatchesStack (sample_stack ''api'' ''prod'') ''projects/api/Pulumi.lock.json''"
  by (rule conjI; code_simp)

lemma insertion_sort_Nil [simp]: "insertion_sort lt xs = [] \<longleftrightarrow> xs = []"
  by (metis length_0_conv length_insertion_sort)

lemma insertion_sort_empty [simp]: "insertion_sort lt [] = []"
  by (simp add: insertion_sort_def)

lemma count_paths: "length (paths_of_ref stacks r) = count_list (map stack_Ref stacks) r"
  by (induction stacks) (auto simp: paths_of_ref_def)

lemma distinct_count: "distinct xs \<longleftrightarrow> (\<forall>x \<in> set xs. count_list xs x \<le> 1)"
proof (induction xs)
  case (Cons x xs)
  have z: "count_list xs x = 0 \<longleftrightarrow> x \<notin> set xs" by (simp add: count_list_0_iff)
  with Cons show ?case by (auto simp: le_Suc_eq)
qed simp

text \<open>
  Stack references are unique after validation: \<open>ValidateUniqueRefs\<close> accepts a list of stacks exactly when no two
  of them have the same \<open>project/stack\<close> reference, and otherwise names a reference that is ambiguous.
\<close>

theorem unique_refs:
  "(ValidateUniqueRefs stacks = None) = distinct (map stack_Ref stacks)
   \<and> {ref. \<exists>ps. ValidateUniqueRefs stacks = Some (ref, ps)} \<subseteq> {ref. 1 < count_list (map stack_Ref stacks) ref}"
proof -
  let ?d = "filter (\<lambda>ref. 1 < length (paths_of_ref stacks ref)) (dedup_seen [] (map stack_Ref stacks))"
  have "ValidateUniqueRefs stacks = None \<longleftrightarrow> insertion_sort (<) ?d = []"
    by (auto simp: ValidateUniqueRefs_def Let_def split: list.split)
  also have "\<dots> \<longleftrightarrow> distinct (map stack_Ref stacks)"
    unfolding distinct_count by (auto simp: filter_empty_conv count_paths not_less)
  finally have 1: "(ValidateUniqueRefs stacks = None) = distinct (map stack_Ref stacks)" .
  have "1 < count_list (map stack_Ref stacks) ref" if "ValidateUniqueRefs stacks = Some (ref, ps)" for ref ps
  proof -
    from that obtain rest where "insertion_sort (<) ?d = ref # rest"
      by (auto simp: ValidateUniqueRefs_def Let_def split: list.splits)
    then have "ref \<in> set (insertion_sort (<) ?d)" by simp
    then have "ref \<in> set ?d" by (simp only: set_insertion_sort)
    then show ?thesis by (simp add: count_paths)
  qed
  with 1 show ?thesis by blast
qed

end
