(* ===== verification/Codeowners.thy ===== *)
theory Codeowners
  imports GoStrings
begin

text \<open>
  The CODEOWNERS parser and resolver, \<open>internal/vcs/codeowners/parse.go\<close>. The glob matcher is the parameter
  \<open>glob\<close>. \<open>scan_lines\<close> is Go's \<open>bufio.Scanner\<close> with its default split function: it drops a trailing carriage return and,
  with the default buffer, stops for good at a line of 64 KiB or more.
\<close>

record OwnerRule =
  or_Pattern :: string
  or_Owners :: "string list"

definition scanner_max :: nat where "scanner_max = 65535"

definition drop_cr :: "string \<Rightarrow> string" where
  "drop_cr l = (if l \<noteq> [] \<and> last l = CHR 13 then butlast l else l)"

text \<open>The text after the final newline is a line only if it is not empty.\<close>

definition raw_lines :: "string \<Rightarrow> string list" where
  "raw_lines s = (let ls = Split_char CHR 10 s in if last ls = [] then butlast ls else ls)"

definition scan_lines :: "string \<Rightarrow> string list" where
  "scan_lines s = map drop_cr (takeWhile (\<lambda>l. length l \<le> scanner_max) (raw_lines s))"

text \<open>A decoded rune written back: an invalid byte becomes U+FFFD.\<close>

definition rune_text :: "string \<Rightarrow> string" where
  "rune_text r = (case r of [c] \<Rightarrow> if c \<le> CHR 0x7F then [c] else [CHR 0xEF, CHR 0xBF, CHR 0xBD] | _ \<Rightarrow> r)"

definition escapable :: "string \<Rightarrow> bool" where
  "escapable r \<longleftrightarrow> r = '' '' \<or> r = [CHR 9] \<or> r = ''#''"

definition flush :: "string \<Rightarrow> string list" where
  "flush cur = (if cur = '''' then [] else [cur])"

fun split_runes :: "string \<Rightarrow> string list \<Rightarrow> string list" where
  "split_runes cur [] = flush cur"
| "split_runes cur [r] =
     (if r = ''#'' then flush cur else if r = '' '' \<or> r = [CHR 9] then flush cur @ flush ''''
      else flush (cur @ rune_text r))"
| "split_runes cur (r # r' # rs) =
     (if r = [CHR 92] \<and> escapable r' then split_runes (cur @ r') rs
      else if r = ''#'' then flush cur
      else if r = '' '' \<or> r = [CHR 9] then flush cur @ split_runes '''' (r' # rs)
      else split_runes (cur @ rune_text r) (r' # rs))"

definition splitLine :: "string \<Rightarrow> string list" where
  "splitLine line = split_runes '''' (rune_split line)"

definition line_rule :: "string \<Rightarrow> OwnerRule option" where
  "line_rule line =
     (case splitLine line of [] \<Rightarrow> None | pat # owners \<Rightarrow> Some \<lparr>or_Pattern = pat, or_Owners = owners\<rparr>)"

definition Parse_owners :: "string \<Rightarrow> OwnerRule list" where
  "Parse_owners text = List.map_filter line_rule (scan_lines text)"

definition last_segment :: "string \<Rightarrow> string" where
  "last_segment p = last (Split_char CHR ''/'' p)"

definition owners_match :: "(string \<Rightarrow> string \<Rightarrow> bool) \<Rightarrow> string \<Rightarrow> string \<Rightarrow> bool" where
  "owners_match glob pattern0 p0 =
     (let p = TrimPrefix p0 ''/'' in
      if HasPrefix pattern0 ''!'' \<or> ContainsAny pattern0 ''[]'' then False
      else
        let dirOnly = HasSuffix pattern0 ''/'';
            pattern = TrimSuffix pattern0 ''/'';
            anchored = Contains pattern ''/'';
            pattern = TrimPrefix pattern ''/''
        in if pattern = '''' then False
           else
             let pattern = (if anchored then pattern else ''**/'' @ pattern) in
             if dirOnly then glob (pattern @ ''/**'') p
             else if glob pattern p then True
             else if \<not> ContainsAny (last_segment pattern) ''*?'' then glob (pattern @ ''/**'') p
             else False)"

text \<open>The last matching rule, and \<open>Resolve\<close>: the owned paths in the order of the changed files.\<close>

fun last_match :: "(string \<Rightarrow> string \<Rightarrow> bool) \<Rightarrow> OwnerRule list \<Rightarrow> string \<Rightarrow> OwnerRule option" where
  "last_match glob [] p = None"
| "last_match glob (r # rs) p =
     (case last_match glob rs p of
        Some x \<Rightarrow> Some x
      | None \<Rightarrow> if owners_match glob (or_Pattern r) p then Some r else None)"

fun Resolve_owners ::
  "(string \<Rightarrow> string \<Rightarrow> bool) \<Rightarrow> OwnerRule list \<Rightarrow> string list \<Rightarrow> (string \<times> string list) list
     \<Rightarrow> (string \<times> string list) list" where
  "Resolve_owners glob rules [] out = out"
| "Resolve_owners glob rules (p # ps) out =
     Resolve_owners glob rules ps
       (case last_match glob rules p of
          None \<Rightarrow> out
        | Some r \<Rightarrow> if or_Owners r \<noteq> [] then map_put p (or_Owners r) out else out)"

subsection \<open>Properties\<close>

lemma last_match_Some:
  "last_match glob rules p = Some r \<longleftrightarrow>
     (\<exists>xs ys. rules = xs @ r # ys \<and> owners_match glob (or_Pattern r) p
        \<and> (\<forall>y \<in> set ys. \<not> owners_match glob (or_Pattern y) p))"
proof (induction rules)
  case (Cons a rules)
  have none: "last_match glob rs p = None \<longleftrightarrow> (\<forall>y \<in> set rs. \<not> owners_match glob (or_Pattern y) p)" for rs
    by (induction rs) (auto split: option.split)
  show ?case
  proof (cases "last_match glob rules p")
    case (Some x)
    have "\<not> (\<forall>y \<in> set rules. \<not> owners_match glob (or_Pattern y) p)" using Some none by (metis option.distinct(1))
    with Some Cons.IH show ?thesis by (auto simp: Cons_eq_append_conv)
  next
    case None
    then have n: "\<forall>y \<in> set rules. \<not> owners_match glob (or_Pattern y) p" using none by blast
    then show ?thesis using None by (auto simp: Cons_eq_append_conv)
  qed
qed simp

text \<open>The owners the last matching rule gives a path; none when it names nobody.\<close>

definition owned_by :: "(string \<Rightarrow> string \<Rightarrow> bool) \<Rightarrow> OwnerRule list \<Rightarrow> string \<Rightarrow> string list \<Rightarrow> bool" where
  "owned_by glob rules p owners \<longleftrightarrow>
     owners \<noteq> [] \<and> (\<exists>xs r ys. rules = xs @ r # ys \<and> or_Owners r = owners \<and> owners_match glob (or_Pattern r) p
        \<and> (\<forall>y \<in> set ys. \<not> owners_match glob (or_Pattern y) p))"

lemma owned_by_last:
  "owned_by glob rules p owners \<longleftrightarrow> owners \<noteq> [] \<and> map_option or_Owners (last_match glob rules p) = Some owners"
  unfolding owned_by_def by (auto simp: last_match_Some)

lemma Resolve_owners_map:
  "map_of (Resolve_owners glob rules ps out) p =
     (if p \<in> set ps \<and> (\<exists>os. owned_by glob rules p os)
      then map_option or_Owners (last_match glob rules p) else map_of out p)"
proof (induction ps arbitrary: out)
  case (Cons q ps)
  show ?case
    by (simp only: Resolve_owners.simps Cons.IH)
      (auto simp: owned_by_last split: option.split if_splits)
qed simp

text \<open>
  The last matching rule decides alone. A changed path is owned by \<open>owners\<close> exactly when the last rule of the file whose
  pattern matches it lists these owners; a last match without owners leaves the path un-owned, whatever
  earlier rules say.
\<close>

theorem last_rule_wins:
  "(map_of (Resolve_owners glob rules changed []) p = Some owners)
     = (p \<in> set changed \<and> owned_by glob rules p owners)"
  unfolding Resolve_owners_map by (auto simp: owned_by_last split: if_splits)

text \<open>Writing an entry: every space, tab and hash of a token is escaped.\<close>

definition escape_token :: "string \<Rightarrow> string" where
  "escape_token tok = concat (map (\<lambda>c. if escapable [c] then [CHR 92, c] else [c]) tok)"

definition token_ok :: "string \<Rightarrow> bool" where
  "token_ok tok \<longleftrightarrow> tok \<noteq> '''' \<and> list_all ascii_char tok \<and> last tok \<noteq> CHR 92"

abbreviation runes :: "string \<Rightarrow> string list" where
  "runes s \<equiv> map (\<lambda>c. [c]) s"

lemma split_runes_plain:
  assumes "\<not> (r = [CHR 92] \<and> rs \<noteq> [] \<and> escapable (hd rs))" and "\<not> escapable r"
  shows "split_runes cur (r # rs) = split_runes (cur @ rune_text r) rs"
  using assms by (cases rs) (auto simp: escapable_def)

lemma split_runes_space: "split_runes cur ('' '' # rs) = flush cur @ split_runes '''' rs"
  by (cases rs) (simp_all add: flush_def)

lemma split_runes_token:
  assumes "list_all ascii_char tok" and "tok \<noteq> [] \<longrightarrow> last tok \<noteq> CHR 92"
    and "rest = [] \<or> hd rest = CHR '' ''"
  shows "split_runes cur (runes (escape_token tok @ rest)) = split_runes (cur @ tok) (runes rest)"
  using assms
proof (induction tok arbitrary: cur)
  case (Cons c tok)
  from Cons.prems have c: "ascii_char c" and tok: "list_all ascii_char tok" "tok \<noteq> [] \<longrightarrow> last tok \<noteq> CHR 92"
    by auto
  show ?case
  proof (cases "escapable [c]")
    case True
    then have "split_runes cur (runes (escape_token (c # tok) @ rest))
        = split_runes (cur @ [c]) (runes (escape_token tok @ rest))" by (simp add: escape_token_def)
    with Cons.IH [OF tok Cons.prems(3), of "cur @ [c]"] show ?thesis by simp
  next
    case False
    let ?rs = "runes (escape_token tok @ rest)"
    have "\<not> ([c] = [CHR 92] \<and> ?rs \<noteq> [] \<and> escapable (hd ?rs))"
    proof
      assume a: "[c] = [CHR 92] \<and> ?rs \<noteq> [] \<and> escapable (hd ?rs)"
      with Cons.prems(2) have "tok \<noteq> []" by auto
      then obtain d tok' where "tok = d # tok'" by (cases tok) auto
      with a show False by (cases "escapable [d]") (auto simp: escape_token_def escapable_def)
    qed
    from split_runes_plain [OF this False, of cur] have
      "split_runes cur (runes (escape_token (c # tok) @ rest)) = split_runes (cur @ [c]) ?rs"
      using False c by (simp add: escape_token_def rune_text_def ascii_char_def)
    with Cons.IH [OF tok Cons.prems(3), of "cur @ [c]"] show ?thesis by simp
  qed
qed (simp add: escape_token_def)

lemma split_runes_line:
  "list_all token_ok toks \<Longrightarrow> split_runes '''' (runes (Join (map escape_token toks) '' '')) = toks"
proof (induction toks)
  case (Cons t ts)
  then have ts: "list_all token_ok ts" and "token_ok t" by simp_all
  then have t: "list_all ascii_char t" "t \<noteq> []" "last t \<noteq> CHR 92" by (simp_all add: token_ok_def)
  show ?case
  proof (cases ts)
    case Nil
    with split_runes_token [of t "[]" "[]"] t show ?thesis by (simp add: flush_def)
  next
    case (Cons u us)
    let ?rest = "CHR '' '' # Join (map escape_token ts) '' ''"
    have "Join (map escape_token (t # ts)) '' '' = escape_token t @ ?rest" using Cons by simp
    with split_runes_token [of t ?rest "[]"] t Cons.IH [OF ts] show ?thesis
      by (simp add: split_runes_space flush_def)
  qed
qed (simp add: flush_def)

lemma ascii_escape: "list_all ascii_char t \<Longrightarrow> list_all ascii_char (escape_token t)"
  by (auto simp: escape_token_def list_all_iff ascii_char_def less_eq_char_def)

lemma ascii_Join: "list_all (list_all ascii_char) ts \<Longrightarrow> list_all ascii_char (Join ts '' '')"
  by (induction ts "'' ''" rule: Join.induct) (auto simp: ascii_char_def less_eq_char_def)

text \<open>
  Entries survive printing and parsing. A pattern and owners written on a line with their spaces, tabs and hashes
  escaped by a backslash are read back as they were, for non-empty ASCII tokens that do not end in a backslash.
\<close>

theorem entry_roundtrip:
  assumes "list_all token_ok toks"
  shows "splitLine (Join (map escape_token toks) '' '') = toks"
proof -
  have "list_all ascii_char (escape_token t)" if "t \<in> set toks" for t
    using assms that by (intro ascii_escape) (simp add: list_all_iff token_ok_def)
  then have "list_all (list_all ascii_char) (map escape_token toks)" by (simp add: list.pred_set)
  then have "rune_split (Join (map escape_token toks) '' '') = runes (Join (map escape_token toks) '' '')"
    by (intro rune_split_ascii ascii_Join)
  with split_runes_line [OF assms] show ?thesis by (simp add: splitLine_def)
qed

theorem entry_roundtrip_witness:
  "list_all token_ok [''docs/getting started.md'', ''@org/docs'']
   \<and> splitLine (Join (map escape_token [''docs/getting started.md'', ''@org/docs'']) '' '') = [''docs/getting started.md'', ''@org/docs'']"
proof -
  have "list_all token_ok [''docs/getting started.md'', ''@org/docs'']" by code_simp
  with entry_roundtrip [OF this] show ?thesis by simp
qed

end
