(* ===== verification/CommentApprovals.thy ===== *)
theory CommentApprovals
  imports Approvals
begin

text \<open>
  Approvals by comment, \<open>internal/vcs/github/comment_approvals.go\<close>: the pure core that turns issue comments into
  approvals, with its parsing of the command, its bot and association gates and the commit
  binding. Fetching the comments is the GitHub client's and not modelled.
\<close>

record IssueComment =
  ic_Login :: string
  ic_UserType :: string
  ic_Body :: string
  ic_AuthorAssociation :: string
  ic_CreatedAt :: go_time

record CommentApprovalConfig =
  cc_Command :: string
  cc_CommandPrefixes :: "string list"
  cc_AllowedAssociations :: "string list"

definition minShortSHA :: nat where "minShortSHA = 7"

definition resolveApprovedCommit :: "string \<Rightarrow> string \<Rightarrow> string \<times> bool" where
  "resolveApprovedCommit arg headSHA =
     (if arg = '''' then ('''', False)
      else if minShortSHA \<le> length arg \<and> HasPrefix (ToLower headSHA) (ToLower arg) then (headSHA, True)
      else (arg, True))"

definition parseCommentTrigger :: "CommentApprovalConfig \<Rightarrow> string list \<times> string" where
  "parseCommentTrigger cfg =
     (let command = TrimSpace (cc_Command cfg);
          command = (if command = '''' then DefaultCommentCommand else command);
          fields = Fields command;
          verb = (if 2 \<le> length fields then ToLower (fields ! 1) else ''approve'');
          st = (if 1 \<le> length fields then [fields ! 0] else [])
               @ filter (\<lambda>p. p \<noteq> '''') (map TrimSpace (cc_CommandPrefixes cfg));
          st = (if st = [] then [''/reeve''] else st)
      in (dedup_seen [] st, verb))"

definition first_line :: "string \<Rightarrow> string" where
  "first_line body = takeWhile (\<lambda>c. c \<noteq> CHR 10) body"

definition parseApproveCommand :: "string \<Rightarrow> string list \<Rightarrow> string \<Rightarrow> string option" where
  "parseApproveCommand body pres verb =
     (let fields = Fields (first_line body) in
      if length fields < 2 then None
      else if fields ! 0 \<notin> set pres \<or> \<not> EqualFold (fields ! 1) verb then None
      else if 3 \<le> length fields then Some (fields ! 2) else Some '''')"

definition normalizeAssociations :: "string list \<Rightarrow> string list" where
  "normalizeAssociations inp = filter (\<lambda>a. a \<noteq> '''') (map (\<lambda>a. ToUpper (TrimSpace a)) inp)"

definition associationAllowed :: "string \<Rightarrow> string list \<Rightarrow> bool" where
  "associationAllowed assoc allowed \<longleftrightarrow> allowed \<noteq> [] \<and> ToUpper (TrimSpace assoc) \<in> set allowed"

text \<open>The approval one comment stands for, if any.\<close>

definition comment_approval ::
  "string list \<Rightarrow> string \<Rightarrow> string list \<Rightarrow> string \<Rightarrow> IssueComment \<Rightarrow> Approval option" where
  "comment_approval pres verb allowed headSHA cm =
     (if ic_Login cm = '''' then None
      else if ic_UserType cm = ''Bot'' \<or> HasSuffix (ic_Login cm) ''[bot]'' then None
      else case parseApproveCommand (ic_Body cm) pres verb of
             None \<Rightarrow> None
           | Some shaArg \<Rightarrow>
               if \<not> associationAllowed (ic_AuthorAssociation cm) allowed then None
               else case resolveApprovedCommit shaArg headSHA of (sha, pinned) \<Rightarrow>
                      Some \<lparr>a_Source = SourcePRComment, a_Approver = ic_Login cm, a_SubmittedAt = ic_CreatedAt cm,
                            a_CommitSHA = sha, a_Pinned = pinned\<rparr>)"

text \<open>A later comment of the same login replaces the earlier one in place.\<close>

fun put_approval :: "Approval \<Rightarrow> Approval list \<Rightarrow> Approval list" where
  "put_approval ap [] = [ap]"
| "put_approval ap (x # xs) = (if a_Approver x = a_Approver ap then ap # xs else x # put_approval ap xs)"

fun comment_loop ::
  "string list \<Rightarrow> string \<Rightarrow> string list \<Rightarrow> string \<Rightarrow> IssueComment list \<Rightarrow> Approval list \<Rightarrow> Approval list" where
  "comment_loop pres verb allowed headSHA [] out = out"
| "comment_loop pres verb allowed headSHA (cm # cms) out =
     comment_loop pres verb allowed headSHA cms
       (case comment_approval pres verb allowed headSHA cm of None \<Rightarrow> out | Some ap \<Rightarrow> put_approval ap out)"

definition commentApprovals ::
  "IssueComment list \<Rightarrow> string list \<Rightarrow> string \<Rightarrow> string list \<Rightarrow> string \<Rightarrow> Approval list" where
  "commentApprovals comments pres verb allowed headSHA =
     comment_loop pres verb allowed headSHA comments []"

subsection \<open>Properties\<close>

text \<open>The last comment of a login that is an approval.\<close>

fun latest :: "(IssueComment \<Rightarrow> Approval option) \<Rightarrow> string \<Rightarrow> IssueComment list \<Rightarrow> Approval option" where
  "latest f u [] = None"
| "latest f u (cm # cms) =
     (case latest f u cms of
        Some ap \<Rightarrow> Some ap
      | None \<Rightarrow> (case f cm of Some ap \<Rightarrow> if a_Approver ap = u then Some ap else None | None \<Rightarrow> None))"

definition of_login :: "Approval list \<Rightarrow> string \<Rightarrow> Approval option" where
  "of_login out u = find (\<lambda>a. a_Approver a = u) out"

lemma put_approval_logins: "a_Approver ` set (put_approval ap out) = insert (a_Approver ap) (a_Approver ` set out)"
  by (induction ap out rule: put_approval.induct) auto

lemma put_approval_distinct:
  "distinct (map a_Approver out) \<Longrightarrow> distinct (map a_Approver (put_approval ap out))"
proof (induction ap out rule: put_approval.induct)
  case (2 ap x xs)
  have "a_Approver x \<notin> set (map a_Approver (put_approval ap xs))" if "a_Approver x \<noteq> a_Approver ap"
    using 2(2) that put_approval_logins [of ap xs] by simp
  with 2 show ?case by auto
qed simp

lemma of_login_put:
  "of_login (put_approval ap out) u = (if u = a_Approver ap then Some ap else of_login out u)"
  unfolding of_login_def by (induction ap out rule: put_approval.induct) auto

lemma comment_loop_latest:
  "of_login (comment_loop p v al h cms out) u =
     (case latest (comment_approval p v al h) u cms of Some ap \<Rightarrow> Some ap | None \<Rightarrow> of_login out u)"
  by (induction cms arbitrary: out) (auto simp: of_login_put split: option.split)

lemma comment_loop_distinct:
  "distinct (map a_Approver out) \<Longrightarrow> distinct (map a_Approver (comment_loop p v al h cms out))"
  by (induction cms arbitrary: out) (auto intro: put_approval_distinct split: option.split)

text \<open>
  One approval per person, the latest one. The result lists every login once, and what it holds for a login
  is exactly the last of that login's comments that is an approval: an older approval naming an
  outdated commit never shadows a newer one.
\<close>

theorem latest_comment_counts:
  "distinct (map a_Approver (commentApprovals cms p v al h))
   \<and> of_login (commentApprovals cms p v al h) u = latest (comment_approval p v al h) u cms"
  using comment_loop_distinct [of "[]" p v al h cms] comment_loop_latest [of p v al h cms "[]" u]
  by (simp add: commentApprovals_def of_login_def split: option.split)

lemma latest_from: "latest f u cms = Some ap \<Longrightarrow> \<exists>cm \<in> set cms. f cm = Some ap \<and> a_Approver ap = u"
  by (induction cms) (auto split: option.splits if_splits)

lemma of_login_member: "distinct (map a_Approver out) \<Longrightarrow> a \<in> set out \<Longrightarrow> of_login out (a_Approver a) = Some a"
  unfolding of_login_def by (induction out) force+

text \<open>
  Only authorised people approve, and only the commit they named. Every approval the comments give comes from a
  non-bot account whose association is in the allow list (an empty list allows nobody), and it is pinned to the head
  commit only when the comment named at least seven characters of that commit's hash; a bare
  command is never pinned.
\<close>

theorem comment_approvals_authorised:
  assumes "a \<in> set (commentApprovals cms pres verb allowed h)" and "h \<noteq> ''''"
  shows "\<exists>cm \<in> set cms. ic_Login cm = a_Approver a \<and> ic_UserType cm \<noteq> ''Bot'' \<and> \<not> HasSuffix (ic_Login cm) ''[bot]''
     \<and> ToUpper (TrimSpace (ic_AuthorAssociation cm)) \<in> set allowed
     \<and> (\<exists>arg. parseApproveCommand (ic_Body cm) pres verb = Some arg
         \<and> a_Pinned a = (arg \<noteq> '''')
         \<and> (a_CommitSHA a = h \<longrightarrow> arg = h \<or> 7 \<le> length arg \<and> HasPrefix (ToLower h) (ToLower arg)))"
proof -
  let ?out = "commentApprovals cms pres verb allowed h" and ?f = "comment_approval pres verb allowed h"
  have d: "distinct (map a_Approver ?out)"
    using comment_loop_distinct [of "[]"] by (simp add: commentApprovals_def)
  have "of_login ?out (a_Approver a) = Some a" by (rule of_login_member [OF d assms(1)])
  then have "latest ?f (a_Approver a) cms = Some a"
    using comment_loop_latest [of pres verb allowed h cms "[]" "a_Approver a"]
    by (simp add: commentApprovals_def of_login_def split: option.splits)
  from latest_from [OF this] obtain cm where cm: "cm \<in> set cms" "?f cm = Some a" by blast
  have "ic_Login cm = a_Approver a \<and> ic_UserType cm \<noteq> ''Bot'' \<and> \<not> HasSuffix (ic_Login cm) ''[bot]''
     \<and> ToUpper (TrimSpace (ic_AuthorAssociation cm)) \<in> set allowed
     \<and> (\<exists>arg. parseApproveCommand (ic_Body cm) pres verb = Some arg
         \<and> a_Pinned a = (arg \<noteq> '''')
         \<and> (a_CommitSHA a = h \<longrightarrow> arg = h \<or> 7 \<le> length arg \<and> HasPrefix (ToLower h) (ToLower arg)))"
    using cm(2) assms(2)
    by (auto simp: comment_approval_def associationAllowed_def resolveApprovedCommit_def minShortSHA_def
        split: if_splits option.splits)
  with cm(1) show ?thesis by blast
qed

definition sample_comment :: IssueComment where
  "sample_comment = \<lparr>ic_Login = ''bob'', ic_UserType = ''User'', ic_Body = ''/reeve approve abc1234'',
     ic_AuthorAssociation = ''MEMBER'', ic_CreatedAt = 0\<rparr>"

theorem comment_approvals_authorised_witness:
  "\<exists>a. a \<in> set (commentApprovals [sample_comment] [''/reeve''] ''approve'' [''MEMBER''] ''abc1234def'')
     \<and> a_CommitSHA a = ''abc1234def'' \<and> a_Pinned a"
proof -
  define a where "a = \<lparr>a_Source = ''pr_comment'', a_Approver = ''bob'', a_SubmittedAt = 0,
    a_CommitSHA = ''abc1234def'', a_Pinned = True\<rparr>"
  have "commentApprovals [sample_comment] [''/reeve''] ''approve'' [''MEMBER''] ''abc1234def''
      = [\<lparr>a_Source = ''pr_comment'', a_Approver = ''bob'', a_SubmittedAt = 0, a_CommitSHA = ''abc1234def'', a_Pinned = True\<rparr>]"
    by code_simp
  then have m: "a \<in> set (commentApprovals [sample_comment] [''/reeve''] ''approve'' [''MEMBER''] ''abc1234def'')"
    by (simp add: a_def)
  from comment_approvals_authorised [OF m] have "a_Pinned a" by (auto simp: a_def)
  with m show ?thesis by (auto simp: a_def)
qed

end
