(* ===== verification/DriftState.thy ===== *)
theory DriftState
  imports BlobStore
begin

text \<open>
  Drift state, \<open>internal/drift\<close>: \<open>state.go\<close> (classification of a check against the stored state, flap
  damping, fingerprints, the state store), \<open>suppressions.go\<close> and \<open>permanent.go\<close>.

  \<open>Outcome\<close> and \<open>Event\<close> are string types in Go and stay strings, since a state is read back from the
  bucket. The JSON codec is a pair of parameters; SHA-256 is the parameter \<open>sha\<close>, a function to the
  hexadecimal text; doublestar's \<open>Match\<close> is \<open>glob\<close>. \<open>ConsecutiveErrors\<close> is an \<^typ>\<open>int\<close>: the 64-bit
  counter goes up by one for each failed check.
\<close>

subsection \<open>Outcomes and events\<close>

type_synonym Outcome = string
type_synonym DriftEvent = string

definition OutcomeNoDrift :: Outcome where "OutcomeNoDrift = ''no_drift''"
definition OutcomeDriftDetected :: Outcome where "OutcomeDriftDetected = ''drift_detected''"
definition OutcomeError :: Outcome where "OutcomeError = ''error''"
definition OutcomeSkipped :: Outcome where "OutcomeSkipped = ''skipped_fresh''"

definition EventDriftDetected :: DriftEvent where "EventDriftDetected = ''drift_detected''"
definition EventDriftOngoing :: DriftEvent where "EventDriftOngoing = ''drift_ongoing''"
definition EventDriftResolved :: DriftEvent where "EventDriftResolved = ''drift_resolved''"
definition EventCheckFailed :: DriftEvent where "EventCheckFailed = ''check_failed''"
definition EventCheckRecovered :: DriftEvent where "EventCheckRecovered = ''check_recovered''"
definition EventNone :: DriftEvent where "EventNone = ''''"

lemmas outcome_names = OutcomeNoDrift_def OutcomeDriftDetected_def OutcomeError_def OutcomeSkipped_def
lemmas event_names = EventDriftDetected_def EventDriftOngoing_def EventDriftResolved_def
  EventCheckFailed_def EventCheckRecovered_def EventNone_def

lemma outcome_distinct [simp]:
  "OutcomeNoDrift \<noteq> OutcomeDriftDetected" "OutcomeDriftDetected \<noteq> OutcomeNoDrift"
  "OutcomeNoDrift \<noteq> OutcomeError" "OutcomeError \<noteq> OutcomeNoDrift"
  "OutcomeDriftDetected \<noteq> OutcomeError" "OutcomeError \<noteq> OutcomeDriftDetected"
  "OutcomeError \<noteq> OutcomeSkipped" "OutcomeSkipped \<noteq> OutcomeError"
  by (simp_all add: outcome_names)

lemma event_distinct [simp]:
  "EventDriftDetected \<noteq> EventDriftOngoing" "EventDriftOngoing \<noteq> EventDriftDetected"
  "EventDriftDetected \<noteq> EventDriftResolved" "EventDriftResolved \<noteq> EventDriftDetected"
  "EventDriftDetected \<noteq> EventCheckFailed" "EventCheckFailed \<noteq> EventDriftDetected"
  "EventDriftDetected \<noteq> EventNone" "EventNone \<noteq> EventDriftDetected"
  "EventDriftOngoing \<noteq> EventDriftResolved" "EventDriftResolved \<noteq> EventDriftOngoing"
  "EventDriftOngoing \<noteq> EventCheckFailed" "EventCheckFailed \<noteq> EventDriftOngoing"
  "EventDriftOngoing \<noteq> EventNone" "EventNone \<noteq> EventDriftOngoing"
  "EventDriftResolved \<noteq> EventCheckFailed" "EventCheckFailed \<noteq> EventDriftResolved"
  "EventDriftResolved \<noteq> EventNone" "EventNone \<noteq> EventDriftResolved"
  "EventCheckFailed \<noteq> EventNone" "EventNone \<noteq> EventCheckFailed"
  by (simp_all add: event_names)

definition KnownEventNames :: "string list" where
  "KnownEventNames = [EventDriftDetected, EventDriftOngoing, EventDriftResolved, EventCheckFailed, EventCheckRecovered]"

definition ParseEventName :: "string \<Rightarrow> DriftEvent \<times> bool" where
  "ParseEventName s =
     (if s \<in> {EventDriftDetected, EventDriftOngoing, EventDriftResolved, EventCheckFailed, EventCheckRecovered}
      then (s, True) else (EventNone, False))"

subsection \<open>State and classification\<close>

record DriftState =
  ds_Project :: string
  ds_Stack :: string
  ds_LastOutcome :: Outcome
  ds_LastCheckedAt :: go_time
  ds_LastSuccessfulAt :: go_time
  ds_OngoingSince :: go_time
  ds_Fingerprint :: string
  ds_ConsecutiveErrors :: int
  ds_LastNotifiedAt :: go_time

definition first_state :: "string \<Rightarrow> string \<Rightarrow> DriftState" where
  "first_state project stack =
     \<lparr>ds_Project = project, ds_Stack = stack, ds_LastOutcome = '''', ds_LastCheckedAt = zero_time,
      ds_LastSuccessfulAt = zero_time, ds_OngoingSince = zero_time, ds_Fingerprint = '''',
      ds_ConsecutiveErrors = 0, ds_LastNotifiedAt = zero_time\<rparr>"

record DriftResult =
  dr_Project :: string
  dr_Stack :: string
  dr_Outcome :: Outcome
  dr_Fingerprint :: string
  dr_CheckedAt :: go_time
  dr_ErrorMessage :: string

definition Classify :: "DriftState \<Rightarrow> DriftResult \<Rightarrow> DriftEvent \<times> DriftState" where
  "Classify prev cur =
     (let nxt = \<lparr>ds_Project = dr_Project cur, ds_Stack = dr_Stack cur, ds_LastOutcome = dr_Outcome cur,
                 ds_LastCheckedAt = dr_CheckedAt cur, ds_LastSuccessfulAt = ds_LastSuccessfulAt prev,
                 ds_OngoingSince = ds_OngoingSince prev, ds_Fingerprint = ds_Fingerprint prev,
                 ds_ConsecutiveErrors = ds_ConsecutiveErrors prev, ds_LastNotifiedAt = ds_LastNotifiedAt prev\<rparr>
      in if dr_Outcome cur = OutcomeError then
           (EventCheckFailed,
            nxt\<lparr>ds_LastOutcome := ds_LastOutcome prev, ds_ConsecutiveErrors := ds_ConsecutiveErrors prev + 1\<rparr>)
         else if dr_Outcome cur = OutcomeNoDrift then
           (if ds_LastOutcome prev = OutcomeDriftDetected then EventDriftResolved else EventNone,
            nxt\<lparr>ds_ConsecutiveErrors := 0, ds_LastSuccessfulAt := dr_CheckedAt cur, ds_Fingerprint := '''',
                ds_OngoingSince := zero_time\<rparr>)
         else if dr_Outcome cur = OutcomeDriftDetected then
           (let nxt = nxt\<lparr>ds_ConsecutiveErrors := 0, ds_LastSuccessfulAt := dr_CheckedAt cur,
                          ds_Fingerprint := dr_Fingerprint cur\<rparr>
            in if ds_LastOutcome prev \<noteq> OutcomeDriftDetected
               then (EventDriftDetected, nxt\<lparr>ds_OngoingSince := dr_CheckedAt cur\<rparr>)
               else (if dr_Fingerprint cur \<noteq> ds_Fingerprint prev then EventDriftDetected else EventDriftOngoing,
                     if IsZero (ds_OngoingSince prev) then nxt\<lparr>ds_OngoingSince := dr_CheckedAt cur\<rparr> else nxt))
         else (EventNone, nxt))"

text \<open>\<open>time.Time.Sub\<close> saturates at the ends of \<open>time.Duration\<close>.\<close>

definition maxDuration :: go_duration where "maxDuration = 2 ^ 63 - 1"
definition minDuration :: go_duration where "minDuration = - (2 ^ 63)"

definition time_Sub :: "go_time \<Rightarrow> go_time \<Rightarrow> go_duration" where
  "time_Sub t u = max minDuration (min maxDuration (t - u))"

definition dampNotification ::
  "DriftState \<Rightarrow> DriftEvent \<Rightarrow> go_time \<Rightarrow> go_duration \<Rightarrow> DriftEvent \<times> bool" where
  "dampNotification prev ev now renotify =
     (if ev = EventDriftDetected then
        if renotify > 0 \<and> \<not> IsZero (ds_LastNotifiedAt prev) \<and> time_Sub now (ds_LastNotifiedAt prev) < renotify
        then (EventNone, False) else (EventDriftDetected, True)
      else if ev = EventDriftOngoing then
        if renotify \<le> 0 then (EventDriftOngoing, False)
        else if IsZero (ds_LastNotifiedAt prev) \<or> time_Sub now (ds_LastNotifiedAt prev) \<ge> renotify
        then (EventDriftDetected, True) else (EventNone, False)
      else if ev = EventDriftResolved then
        if IsZero (ds_LastNotifiedAt prev) \<or> \<not> ds_LastNotifiedAt prev < ds_OngoingSince prev
        then (EventDriftResolved, False) else (EventNone, False)
      else (ev, False))"

text \<open>The insertion sort of \<open>Fingerprint\<close>, then one line per identifier into the hash.\<close>

definition fingerprint_text :: "string list \<Rightarrow> string" where
  "fingerprint_text urns = concat (map (\<lambda>u. u @ [CHR 10]) (insertion_sort (<) urns))"

definition Fingerprint :: "(string \<Rightarrow> string) \<Rightarrow> string list \<Rightarrow> string" where
  "Fingerprint sha urns = (if urns = [] then '''' else sha (fingerprint_text urns))"

subsection \<open>The state store\<close>

datatype StateErr = StateBlob BlobErr | StateDecode | StateEncode

definition state_key :: "string \<Rightarrow> string \<Rightarrow> string" where
  "state_key project stack = ''drift/state/'' @ project @ ''/'' @ stack @ ''.json''"

definition Load_state ::
  "('s, 'c) Store \<Rightarrow> ('c \<Rightarrow> DriftState option) \<Rightarrow> string \<Rightarrow> string \<Rightarrow> 's \<Rightarrow> 's \<times> (StateErr + DriftState)" where
  "Load_state B dec project stack s =
     (case s_Get B (state_key project stack) s of
        (s', Inl e) \<Rightarrow> (s', if e = ErrNotFound then Inr (first_state project stack) else Inl (StateBlob e))
      | (s', Inr (c, _)) \<Rightarrow> (s', case dec c of None \<Rightarrow> Inl StateDecode | Some st \<Rightarrow> Inr st))"

definition Save_state ::
  "('s, 'c) Store \<Rightarrow> (DriftState \<Rightarrow> 'c option) \<Rightarrow> DriftState \<Rightarrow> 's \<Rightarrow> 's \<times> StateErr option" where
  "Save_state B enc st s =
     (case enc st of
        None \<Rightarrow> (s, Some StateEncode)
      | Some c \<Rightarrow>
          (case s_Put B (state_key (ds_Project st) (ds_Stack st)) c s of
             (s', Inl e) \<Rightarrow> (s', Some (StateBlob e))
           | (s', Inr _) \<Rightarrow> (s', None)))"

subsection \<open>Suppressions\<close>

record Suppression =
  su_Project :: string
  su_Stack :: string
  su_Until :: go_time
  su_Reason :: string
  su_Creator :: string

definition su_Active :: "Suppression \<Rightarrow> go_time \<Rightarrow> bool" where
  "su_Active su now = (if IsZero (su_Until su) then False else now < su_Until su)"

definition suppression_key :: "string \<Rightarrow> string \<Rightarrow> string" where
  "suppression_key project stack = ''drift/suppressions/'' @ project @ ''/'' @ stack @ ''.json''"

definition su_Get ::
  "('s, 'c) Store \<Rightarrow> ('c \<Rightarrow> Suppression option) \<Rightarrow> string \<Rightarrow> string \<Rightarrow> 's \<Rightarrow> 's \<times> (StateErr + Suppression option)" where
  "su_Get B dec project stack s =
     (case s_Get B (suppression_key project stack) s of
        (s', Inl e) \<Rightarrow> (s', if e = ErrNotFound then Inr None else Inl (StateBlob e))
      | (s', Inr (c, _)) \<Rightarrow> (s', case dec c of None \<Rightarrow> Inl StateDecode | Some su \<Rightarrow> Inr (Some su)))"

definition su_Set ::
  "('s, 'c) Store \<Rightarrow> (Suppression \<Rightarrow> 'c option) \<Rightarrow> Suppression \<Rightarrow> 's \<Rightarrow> 's \<times> StateErr option" where
  "su_Set B enc su s =
     (case enc su of
        None \<Rightarrow> (s, Some StateEncode)
      | Some c \<Rightarrow>
          (case s_Put B (suppression_key (su_Project su) (su_Stack su)) c s of
             (s', Inl e) \<Rightarrow> (s', Some (StateBlob e))
           | (s', Inr _) \<Rightarrow> (s', None)))"

definition su_Clear :: "('s, 'c) Store \<Rightarrow> string \<Rightarrow> string \<Rightarrow> 's \<Rightarrow> 's \<times> BlobErr option" where
  "su_Clear B project stack s = s_Delete B (suppression_key project stack) s"

fun su_walk ::
  "('s, 'c) Store \<Rightarrow> ('c \<Rightarrow> Suppression option) \<Rightarrow> go_time \<Rightarrow> string list \<Rightarrow> 's \<Rightarrow> 's \<times> Suppression list" where
  "su_walk B dec now [] s = (s, [])"
| "su_walk B dec now (k # ks) s =
     (case s_Get B k s of
        (s', Inl _) \<Rightarrow> su_walk B dec now ks s'
      | (s', Inr (c, _)) \<Rightarrow>
          (case dec c of
             None \<Rightarrow> su_walk B dec now ks s'
           | Some su \<Rightarrow>
               (case su_walk B dec now ks s' of
                  (s'', out) \<Rightarrow> (s'', if su_Active su now then su # out else out))))"

definition su_List ::
  "('s, 'c) Store \<Rightarrow> ('c \<Rightarrow> Suppression option) \<Rightarrow> go_time \<Rightarrow> 's \<Rightarrow> 's \<times> (BlobErr + Suppression list)" where
  "su_List B dec now s =
     (case s_List B ''drift/suppressions'' s of
        (s', Inl e) \<Rightarrow> (s', Inl e)
      | (s', Inr ks) \<Rightarrow> (case su_walk B dec now ks s' of (s'', out) \<Rightarrow> (s'', Inr out)))"

record PermanentSuppression =
  ps_Stack :: string
  ps_Reason :: string
  ps_Until :: go_time

definition ps_active :: "PermanentSuppression \<Rightarrow> go_time \<Rightarrow> bool" where
  "ps_active p now \<longleftrightarrow> IsZero (ps_Until p) \<or> now < ps_Until p"

fun matchPermanentSuppression ::
  "(string \<Rightarrow> string \<Rightarrow> bool) \<Rightarrow> PermanentSuppression list \<Rightarrow> string \<Rightarrow> go_time \<Rightarrow> PermanentSuppression option" where
  "matchPermanentSuppression glob [] ref now = None"
| "matchPermanentSuppression glob (p # ps) ref now =
     (if \<not> ps_active p now then matchPermanentSuppression glob ps ref now
      else if glob (ps_Stack p) ref then Some p
      else matchPermanentSuppression glob ps ref now)"

subsection \<open>A sequence of checks\<close>

text \<open>The events and the final state of successive checks of one stack.\<close>

fun drift_run :: "DriftState \<Rightarrow> DriftResult list \<Rightarrow> DriftEvent list \<times> DriftState" where
  "drift_run s [] = ([], s)"
| "drift_run s (r # rs) =
     (case Classify s r of (e, s') \<Rightarrow> case drift_run s' rs of (es, s'') \<Rightarrow> (e # es, s''))"

text \<open>
  The reader of the events: \<open>Some b\<close> when they make sense, \<open>b\<close> telling whether an episode is open
  at the end. An episode opens with a detection; ongoing and resolved make sense in an open one only.
\<close>

fun follow :: "bool \<Rightarrow> DriftEvent list \<Rightarrow> bool option" where
  "follow opn [] = Some opn"
| "follow opn (e # es) =
     (if e = EventDriftDetected then follow True es
      else if e = EventDriftOngoing then (if opn then follow True es else None)
      else if e = EventDriftResolved then (if opn then follow False es else None)
      else follow opn es)"

text \<open>
  What the checks found, errors apart: since when the stack has been drifted without a clean check in between.
\<close>

fun drifted_since :: "go_time option \<Rightarrow> DriftResult list \<Rightarrow> go_time option" where
  "drifted_since since [] = since"
| "drifted_since since (r # rs) =
     drifted_since
       (if dr_Outcome r = OutcomeError then since
        else if dr_Outcome r = OutcomeNoDrift then None
        else case since of None \<Rightarrow> Some (dr_CheckedAt r) | Some t \<Rightarrow> Some t) rs"

definition checked :: "DriftResult \<Rightarrow> bool" where
  "checked r \<longleftrightarrow> dr_Outcome r \<in> {OutcomeError, OutcomeNoDrift, OutcomeDriftDetected} \<and> \<not> IsZero (dr_CheckedAt r)"

text \<open>The part of the state the events rest on, as the start of the open episode.\<close>

definition open_since :: "DriftState \<Rightarrow> go_time option" where
  "open_since s = (if ds_LastOutcome s = OutcomeDriftDetected then Some (ds_OngoingSince s) else None)"

definition tracks :: "DriftState \<Rightarrow> bool" where
  "tracks s \<longleftrightarrow> (if ds_LastOutcome s = OutcomeDriftDetected then \<not> IsZero (ds_OngoingSince s)
                  else ds_OngoingSince s = zero_time)"

lemma tracks_Classify: "tracks s \<Longrightarrow> checked r \<Longrightarrow> tracks (snd (Classify s r))"
  by (auto simp: tracks_def checked_def Classify_def Let_def)

lemma open_since_Classify:
  "tracks s \<Longrightarrow> checked r \<Longrightarrow> open_since (snd (Classify s r)) = drifted_since (open_since s) [r]"
  by (auto simp: tracks_def checked_def open_since_def Classify_def Let_def)

lemma follow_Classify:
  "checked r \<Longrightarrow> follow (open_since s \<noteq> None) (fst (Classify s r) # es)
     = follow (open_since (snd (Classify s r)) \<noteq> None) es"
  by (auto simp: checked_def open_since_def Classify_def Let_def)

lemma drift_run_follow:
  assumes "tracks s" and "list_all checked rs"
  shows "follow (open_since s \<noteq> None) (fst (drift_run s rs)) = Some (open_since (snd (drift_run s rs)) \<noteq> None)
       \<and> open_since (snd (drift_run s rs)) = drifted_since (open_since s) rs
       \<and> tracks (snd (drift_run s rs))"
  using assms
proof (induction rs arbitrary: s)
  case (Cons r rs)
  then have r: "checked r" and rs: "list_all checked rs" by auto
  obtain e s' where C: "Classify s r = (e, s')" by fastforce
  obtain es s'' where R: "drift_run s' rs = (es, s'')" by fastforce
  have "tracks s'" using tracks_Classify [OF Cons.prems(1) r] C by simp
  from Cons.IH [OF this rs] R have IH:
    "follow (open_since s' \<noteq> None) es = Some (open_since s'' \<noteq> None)"
    "open_since s'' = drifted_since (open_since s') rs" "tracks s''" by simp_all
  have "follow (open_since s \<noteq> None) (e # es) = Some (open_since s'' \<noteq> None)"
    using follow_Classify [OF r, of s es] C IH(1) by (simp only: fst_conv snd_conv)
  moreover have "open_since s' = drifted_since (open_since s) [r]"
    using open_since_Classify [OF Cons.prems(1) r] C by simp
  with IH(2) have "open_since s'' = drifted_since (open_since s) (r # rs)" by simp
  ultimately show ?case using IH(3) by (simp only: drift_run.simps C R prod.case fst_conv snd_conv)
qed simp

text \<open>
  C14. The events of successive checks of a stack, errors included, tell exactly whether the stack is
  drifted: a reader who opens an episode on \<open>drift_detected\<close> and closes it on \<open>drift_resolved\<close> never
  sees an event out of place, and at the end has an episode open exactly when the last check that
  reached a verdict found drift. \<open>OngoingSince\<close> then is the time of the check that opened the
  episode, however many checks failed in between.
\<close>

theorem events_track_drift:
  assumes "list_all checked rs"
  shows "follow False (fst (drift_run (first_state p st) rs)) = Some (drifted_since None rs \<noteq> None)
       \<and> ds_OngoingSince (snd (drift_run (first_state p st) rs))
           = (case drifted_since None rs of None \<Rightarrow> zero_time | Some t \<Rightarrow> t)"
proof -
  have t: "tracks (first_state p st)" and o: "open_since (first_state p st) = None"
    by (simp_all add: tracks_def open_since_def first_state_def outcome_names)
  from drift_run_follow [OF t assms] o
  have r: "follow False (fst (drift_run (first_state p st) rs)) = Some (drifted_since None rs \<noteq> None)"
    "open_since (snd (drift_run (first_state p st) rs)) = drifted_since None rs"
    "tracks (snd (drift_run (first_state p st) rs))" by simp_all
  from r(2,3) have "ds_OngoingSince (snd (drift_run (first_state p st) rs))
      = (case drifted_since None rs of None \<Rightarrow> zero_time | Some t \<Rightarrow> t)"
    by (cases "drifted_since None rs") (auto simp: open_since_def tracks_def split: if_splits)
  with r(1) show ?thesis by blast
qed

definition sample_check :: "Outcome \<Rightarrow> go_time \<Rightarrow> DriftResult" where
  "sample_check oc t = \<lparr>dr_Project = ''p'', dr_Stack = ''s'', dr_Outcome = oc, dr_Fingerprint = ''f'',
                       dr_CheckedAt = t, dr_ErrorMessage = ''''\<rparr>"

theorem events_track_drift_witness:
  "fst (drift_run (first_state ''p'' ''s'')
         [sample_check OutcomeDriftDetected 5, sample_check OutcomeError 6, sample_check OutcomeDriftDetected 7])
     = [EventDriftDetected, EventCheckFailed, EventDriftOngoing]
   \<and> ds_OngoingSince (snd (drift_run (first_state ''p'' ''s'')
         [sample_check OutcomeDriftDetected 5, sample_check OutcomeError 6, sample_check OutcomeDriftDetected 7])) = 5"
  using events_track_drift [of "[sample_check OutcomeDriftDetected 5, sample_check OutcomeError 6,
      sample_check OutcomeDriftDetected 7]" "''p''" "''s''"]
  by (simp add: checked_def sample_check_def IsZero_def zero_time_def second_def Classify_def Let_def
      first_state_def outcome_names event_names)

subsection \<open>Fingerprints\<close>

lemma insertion_sort_canonical:
  fixes us vs :: "string list"
  assumes "mset us = mset vs"
  shows "insertion_sort (<) us = insertion_sort (<) vs"
  using sorted_insertion_sort [of "\<lambda>u :: string. u" us] sorted_insertion_sort [of "\<lambda>u :: string. u" vs] assms
  by (metis list.map_ident mset_insertion_sort properties_for_sort)

lemma text_lines_inject:
  assumes "concat (map (\<lambda>u. u @ [CHR 10]) us) = concat (map (\<lambda>u. u @ [CHR 10]) vs)"
    and "\<forall>u \<in> set us. CHR 10 \<notin> set u" and "\<forall>v \<in> set vs. CHR 10 \<notin> set v"
  shows "us = vs"
  using assms
proof (induction us arbitrary: vs)
  case Nil
  then show ?case by (cases vs) auto
next
  case (Cons u us)
  then obtain v ws where vs: "vs = v # ws" by (cases vs) auto
  with Cons.prems sep_inject [of "CHR 10" u v "concat (map (\<lambda>u. u @ [CHR 10]) us)"
      "concat (map (\<lambda>u. u @ [CHR 10]) ws)"]
  have "u = v" "concat (map (\<lambda>u. u @ [CHR 10]) us) = concat (map (\<lambda>u. u @ [CHR 10]) ws)" by auto
  with Cons.IH [of ws] Cons.prems(2,3) vs show ?case by simp
qed

text \<open>
  Two drifted resource sets have the same fingerprint exactly when they hold the same identifiers
  equally often, in whatever order the engine lists them, as long as no identifier contains a line
  break and SHA-256 does not collide on the two texts.
\<close>

theorem fingerprint_identifies_set:
  assumes "us \<noteq> []" and "vs \<noteq> []"
    and "\<forall>u \<in> set us. CHR 10 \<notin> set u" and "\<forall>v \<in> set vs. CHR 10 \<notin> set v"
    and "sha (fingerprint_text us) = sha (fingerprint_text vs) \<Longrightarrow> fingerprint_text us = fingerprint_text vs"
  shows "Fingerprint sha us = Fingerprint sha vs \<longleftrightarrow> mset us = mset vs"
proof
  assume "Fingerprint sha us = Fingerprint sha vs"
  with assms(1,2,5) have "fingerprint_text us = fingerprint_text vs" by (simp add: Fingerprint_def)
  with assms(3,4) have "insertion_sort (<) us = insertion_sort (<) vs"
    unfolding fingerprint_text_def by (intro text_lines_inject) auto
  then show "mset us = mset vs" by (metis mset_insertion_sort)
next
  assume "mset us = mset vs"
  from insertion_sort_canonical [OF this] assms(1,2) show "Fingerprint sha us = Fingerprint sha vs"
    by (simp add: Fingerprint_def fingerprint_text_def)
qed

theorem fingerprint_identifies_set_witness:
  "Fingerprint rev [''b'', ''a''] = Fingerprint rev [''a'', ''b''] \<and> Fingerprint rev [''b''] \<noteq> Fingerprint rev [''a'']"
  using fingerprint_identifies_set [of "[''b'', ''a'']" "[''a'', ''b'']" rev]
    fingerprint_identifies_set [of "[''b'']" "[''a'']" rev]
  by simp

end
