(* ===== verification/DriftFilter.thy ===== *)
theory DriftFilter
  imports GoStrings
begin

text \<open>
  Drift-noise filtering, \<open>internal/drift/classify_filter.go\<close>: the wildcard matcher for resource
  types, addresses and property paths, the filter over a drift result and the recount after it.
  The data comes from \<open>internal/iac/preview.go\<close> and \<open>internal/core/summary/summary.go\<close>.
  A nil \<open>*Classification\<close> is \<^term>\<open>None\<close>.
\<close>

subsection \<open>Wildcards\<close>

text \<open>
  The loop of \<open>wildcardMatch\<close>; \<open>star\<close> is the pair \<open>(starPx, starSx)\<close>, \<^term>\<open>None\<close> while \<open>starPx\<close> is -1.
\<close>

function wildcard_loop :: "string \<Rightarrow> string \<Rightarrow> nat \<Rightarrow> nat \<Rightarrow> (nat \<times> nat) option \<Rightarrow> bool" where
  "wildcard_loop pattern s px sx star =
     (if sx < length s then
        if px < length pattern \<and> (pattern ! px = CHR ''?'' \<or> pattern ! px = s ! sx)
        then wildcard_loop pattern s (px + 1) (sx + 1) star
        else if px < length pattern \<and> pattern ! px = CHR ''*''
        then wildcard_loop pattern s (px + 1) sx (Some (px, sx))
        else case star of
               Some (starPx, starSx) \<Rightarrow>
                 wildcard_loop pattern s (starPx + 1) (starSx + 1) (Some (starPx, starSx + 1))
             | None \<Rightarrow> False
      else dropWhile (\<lambda>c. c = CHR ''*'') (drop px pattern) = [])"
  by pat_completeness auto
termination
proof (relation "measures
    [\<lambda>(p, s, px, sx, star). max (length p - px) (case star of None \<Rightarrow> 0 | Some (a, b) \<Rightarrow> length p - (a + 1)),
     \<lambda>(p, s, px, sx, star). case star of None \<Rightarrow> 0 | Some (a, b) \<Rightarrow> length s - b,
     \<lambda>(p, s, px, sx, star). length s - sx]", goal_cases)
qed (auto split: option.splits)

declare wildcard_loop.simps [simp del]

definition wildcardMatch :: "string \<Rightarrow> string \<Rightarrow> bool" where
  "wildcardMatch pattern s = wildcard_loop pattern s 0 0 None"

definition drift_matchesAny :: "string \<Rightarrow> string list \<Rightarrow> bool" where
  "drift_matchesAny s patterns \<longleftrightarrow> list_ex (\<lambda>p. wildcardMatch p s) patterns"

subsection \<open>The filter\<close>

record ResourceChange =
  rc_Address :: string
  rc_Type :: string
  rc_Op :: string
  rc_Paths :: "string list"
  rc_Category :: string

definition DriftOrphaned :: string where "DriftOrphaned = ''orphaned''"
definition DriftMissing :: string where "DriftMissing = ''missing''"

record IgnoreProperty =
  ip_ResourceType :: string
  ip_Properties :: "string list"

record Classification =
  cl_IgnoreProperties :: "IgnoreProperty list"
  cl_IgnoreResources :: "string list"
  cl_TreatOrphanedAsDrift :: bool
  cl_TreatMissingAsDrift :: bool

definition cl_empty :: "Classification option \<Rightarrow> bool" where
  "cl_empty copt =
     (case copt of None \<Rightarrow> True
      | Some c \<Rightarrow> cl_IgnoreProperties c = [] \<and> cl_IgnoreResources c = []
          \<and> cl_TreatOrphanedAsDrift c \<and> cl_TreatMissingAsDrift c)"

definition ignoredPropsFor :: "Classification \<Rightarrow> string \<Rightarrow> string list" where
  "ignoredPropsFor c typ =
     concat (map ip_Properties
       (filter (\<lambda>ip. ip_ResourceType ip = '''' \<or> wildcardMatch (ip_ResourceType ip) typ) (cl_IgnoreProperties c)))"

definition retainedPaths :: "Classification \<Rightarrow> ResourceChange \<Rightarrow> string list" where
  "retainedPaths c r =
     (let ignored = ignoredPropsFor c (rc_Type r) in
      if ignored = [] then rc_Paths r
      else filter (\<lambda>p. \<not> drift_matchesAny p ignored) (rc_Paths r))"

text \<open>The body of the loop of \<open>filter\<close>: what is appended, and whether \<open>removed\<close> is set.\<close>

definition filter_step :: "Classification \<Rightarrow> ResourceChange \<Rightarrow> ResourceChange option \<times> bool" where
  "filter_step c r =
     (if drift_matchesAny (rc_Address r) (cl_IgnoreResources c) then (None, True)
      else if \<not> cl_TreatOrphanedAsDrift c \<and> rc_Category r = DriftOrphaned then (None, True)
      else if \<not> cl_TreatMissingAsDrift c \<and> rc_Category r = DriftMissing then (None, True)
      else if rc_Op r = ''update'' \<and> 0 < length (rc_Paths r) then
        let remaining = retainedPaths c r in
        if length remaining = 0 then (None, True)
        else if length remaining \<noteq> length (rc_Paths r) then (Some (r\<lparr>rc_Paths := remaining\<rparr>), True)
        else (Some r, False)
      else (Some r, False))"

fun filter_loop :: "Classification \<Rightarrow> ResourceChange list \<Rightarrow> ResourceChange list \<times> bool" where
  "filter_loop c [] = ([], False)"
| "filter_loop c (r # rs) =
     (case filter_step c r of (k, rem) \<Rightarrow> case filter_loop c rs of (kept, removed) \<Rightarrow>
        ((case k of None \<Rightarrow> kept | Some r' \<Rightarrow> r' # kept), rem \<or> removed))"

definition filter_changes ::
  "Classification option \<Rightarrow> ResourceChange list \<Rightarrow> ResourceChange list \<times> bool" where
  "filter_changes copt resources =
     (if cl_empty copt \<or> resources = [] then (resources, False)
      else case copt of None \<Rightarrow> (resources, False) | Some c \<Rightarrow> filter_loop c resources)"

subsection \<open>Recounting\<close>

record Counts =
  ct_Add :: nat
  ct_Change :: nat
  ct_Delete :: nat
  ct_Replace :: nat

definition ct_Total :: "Counts \<Rightarrow> nat" where
  "ct_Total c = ct_Add c + ct_Change c + ct_Delete c + ct_Replace c"

definition zero_counts :: Counts where
  "zero_counts = \<lparr>ct_Add = 0, ct_Change = 0, ct_Delete = 0, ct_Replace = 0\<rparr>"

definition count_op :: "string \<Rightarrow> Counts \<Rightarrow> Counts" where
  "count_op op c =
     (if op = ''create'' then c\<lparr>ct_Add := ct_Add c + 1\<rparr>
      else if op = ''update'' then c\<lparr>ct_Change := ct_Change c + 1\<rparr>
      else if op = ''delete'' then c\<lparr>ct_Delete := ct_Delete c + 1\<rparr>
      else if op = ''replace'' then c\<lparr>ct_Replace := ct_Replace c + 1\<rparr>
      else c)"

definition applyCounts :: "ResourceChange list \<Rightarrow> Counts \<times> string list" where
  "applyCounts resources =
     (fold count_op (map rc_Op resources) zero_counts,
      filter (\<lambda>a. a \<noteq> '''') (map rc_Address resources))"

subsection \<open>The matcher decides the patterns' meaning\<close>

text \<open>The same loop on the remaining pattern and subject.\<close>

function wild_rest :: "string \<Rightarrow> string \<Rightarrow> (string \<times> string) option \<Rightarrow> bool" where
  "wild_rest p s star =
     (if s = [] then dropWhile (\<lambda>c. c = CHR ''*'') p = []
      else if p \<noteq> [] \<and> (hd p = CHR ''?'' \<or> hd p = hd s) then wild_rest (tl p) (tl s) star
      else if p \<noteq> [] \<and> hd p = CHR ''*'' then wild_rest (tl p) s (Some (tl p, s))
      else case star of Some (sp, ss) \<Rightarrow> wild_rest sp (tl ss) (Some (sp, tl ss)) | None \<Rightarrow> False)"
  by pat_completeness auto
termination
proof (relation "measures
    [\<lambda>(p, s, star). max (length p) (case star of None \<Rightarrow> 0 | Some (a, b) \<Rightarrow> length a),
     \<lambda>(p, s, star). case star of None \<Rightarrow> 0 | Some (a, b) \<Rightarrow> length b,
     \<lambda>(p, s, star). length s]", goal_cases)
  case (2 p s star)
  then show ?case by (cases p; cases s) (auto split: option.splits)
next
  case (3 p s star)
  then show ?case by (cases p) (auto split: option.splits)
next
  case (4 p s star x sp ss)
  then show ?case by (cases ss; cases s) (auto simp: less_max_iff_disj le_max_iff_disj max_def)
qed auto

declare wild_rest.simps [simp del]

lemma wildcard_loop_rest:
  "wildcard_loop p s px sx star
     = wild_rest (drop px p) (drop sx s) (map_option (\<lambda>(a, b). (drop (a + 1) p, drop b s)) star)"
proof (induction p s px sx star rule: wildcard_loop.induct)
  case (1 p s px sx star)
  let ?star = "map_option (\<lambda>(a, b). (drop (a + 1) p, drop b s)) star"
  have nil: "drop sx s = [] \<longleftrightarrow> \<not> sx < length s" "drop px p = [] \<longleftrightarrow> \<not> px < length p" by auto
  have hd: "sx < length s \<Longrightarrow> hd (drop sx s) = s ! sx" "px < length p \<Longrightarrow> hd (drop px p) = p ! px"
    by (simp_all add: hd_drop_conv_nth)
  have tl: "tl (drop n xs) = drop (n + 1) xs" for n and xs :: string by (simp add: drop_Suc tl_drop)
  show ?case
    unfolding wildcard_loop.simps [of p s px sx star] wild_rest.simps [of "drop px p" "drop sx s" ?star]
    using 1 by (cases star) (auto simp: nil hd tl split: prod.splits)
qed

text \<open>What a pattern means: \<open>*\<close> stands for any run of characters, \<open>?\<close> for one.\<close>

fun glob_matches :: "string \<Rightarrow> string \<Rightarrow> bool" where
  "glob_matches [] s \<longleftrightarrow> s = []"
| "glob_matches (c # p) [] \<longleftrightarrow> c = CHR ''*'' \<and> glob_matches p []"
| "glob_matches (c # p) (d # s) \<longleftrightarrow>
     (if c = CHR ''*'' then glob_matches p (d # s) \<or> glob_matches (c # p) s
      else (c = CHR ''?'' \<or> c = d) \<and> glob_matches p s)"

abbreviation star_of :: "string \<Rightarrow> string" where "star_of p \<equiv> CHR ''*'' # p"

lemma glob_nil: "glob_matches p [] \<longleftrightarrow> dropWhile (\<lambda>c. c = CHR ''*'') p = []"
  by (induction p) auto

lemma glob_star: "glob_matches (star_of p) s \<longleftrightarrow> (\<exists>k \<le> length s. glob_matches p (drop k s))"
proof (induction s)
  case (Cons d s)
  have "(\<exists>k \<le> length (d # s). glob_matches p (drop k (d # s)))
      \<longleftrightarrow> glob_matches p (d # s) \<or> (\<exists>k \<le> length s. glob_matches p (drop k s))" (is "?l \<longleftrightarrow> ?r")
  proof
    assume ?l
    then obtain k where "k \<le> Suc (length s)" "glob_matches p (drop k (d # s))" by auto
    then show ?r by (cases k) auto
  next
    assume ?r
    then show ?l
    proof
      assume "glob_matches p (d # s)" then show ?l by (intro exI [of _ 0]) simp
    next
      assume "\<exists>k \<le> length s. glob_matches p (drop k s)"
      then obtain k where "k \<le> length s" "glob_matches p (drop k s)" by blast
      then show ?l by (intro exI [of _ "Suc k"]) simp
    qed
  qed
  with Cons show ?case by simp
qed simp

lemma glob_star_suffix: "glob_matches (star_of p) (drop k s) \<Longrightarrow> glob_matches (star_of p) s"
  using glob_star [of p s] glob_star [of p "drop k s"]
  by (metis add.commute drop_drop drop_all glob_star le0 le_cases length_drop nat_le_linear drop_eq_Nil list.size(3))

text \<open>A run of literals and \<open>?\<close> consumes exactly its length.\<close>

definition literal :: "string \<Rightarrow> bool" where "literal l \<longleftrightarrow> CHR ''*'' \<notin> set l"

lemma glob_literal:
  "literal l \<Longrightarrow> glob_matches (l @ p) s \<Longrightarrow> length l \<le> length s \<and> glob_matches p (drop (length l) s)"
proof (induction l arbitrary: s)
  case (Cons c l)
  then show ?case by (cases s) (auto simp: literal_def)
qed simp

text \<open>
  Where the loop stands: since the last star it has passed the literals \<open>l\<close>. A second chance is
  the star taking at least one more character.
\<close>

definition star_ok :: "string \<Rightarrow> string \<Rightarrow> (string \<times> string) option \<Rightarrow> bool" where
  "star_ok p s star \<longleftrightarrow>
     (case star of None \<Rightarrow> True
      | Some (sp, ss) \<Rightarrow> CHR ''*'' \<notin> set ss
          \<and> (\<exists>l. literal l \<and> sp = l @ p \<and> length l \<le> length ss \<and> s = drop (length l) ss))"

definition second_chance :: "(string \<times> string) option \<Rightarrow> bool" where
  "second_chance star \<longleftrightarrow> (case star of None \<Rightarrow> False | Some (sp, ss) \<Rightarrow> glob_matches (star_of sp) (tl ss))"

text \<open>A star reached later takes over every match of an earlier one.\<close>

lemma second_chance_suffix:
  assumes "star_ok p s star" and "second_chance star"
  obtains k where "glob_matches p (drop k s)"
proof -
  from assms obtain sp ss where star: "star = Some (sp, ss)"
    and ch: "glob_matches (star_of sp) (tl ss)" by (cases star) (auto simp: second_chance_def)
  with assms(1) obtain l where l: "literal l" "sp = l @ p" "length l \<le> length ss" "s = drop (length l) ss"
    by (auto simp: star_ok_def)
  from ch obtain k where "glob_matches (l @ p) (drop k (tl ss))" using glob_star [of sp "tl ss"] l(2) by auto
  from glob_literal [OF l(1) this] have "glob_matches p (drop (length l) (drop k (tl ss)))" by blast
  moreover have "drop (length l) (drop k (tl ss)) = drop (Suc k) s" unfolding l(4)
    by (simp add: drop_Suc [symmetric] drop_drop add.commute)
  ultimately show thesis using that by metis
qed

lemma second_chance_star:
  assumes "star_ok (star_of q) s star" and "second_chance star"
  shows "glob_matches (star_of q) s"
  using second_chance_suffix [OF assms] glob_star_suffix by blast

lemma second_chance_nil:
  assumes "star_ok p [] star" and "second_chance star"
  shows "glob_matches p []"
  using second_chance_suffix [OF assms] by (metis drop_Nil)

lemma star_ok_step:
  assumes "star_ok (c # p) (d # s) star" and "c \<noteq> CHR ''*''"
  shows "star_ok p s star"
proof (cases star)
  case (Some x)
  then obtain sp ss where x: "star = Some (sp, ss)" by (cases x) auto
  with assms(1) obtain l where l: "literal l" "sp = l @ c # p" "length l \<le> length ss" "d # s = drop (length l) ss"
    and ss: "CHR ''*'' \<notin> set ss" by (auto simp: star_ok_def)
  from l(4) have "length l < length ss" "s = drop (Suc (length l)) ss"
    by (metis drop_eq_Nil linorder_not_le list.discI, metis drop_Suc list.sel(3) tl_drop)
  with l assms(2) have "literal (l @ [c]) \<and> sp = (l @ [c]) @ p \<and> length (l @ [c]) \<le> length ss
      \<and> s = drop (length (l @ [c])) ss" by (simp add: literal_def)
  with x ss show ?thesis unfolding star_ok_def by (simp only: option.case prod.case) blast
qed (simp add: star_ok_def)

lemma wild_rest_nil: "wild_rest p [] star \<longleftrightarrow> glob_matches p []"
  by (subst wild_rest.simps) (simp add: glob_nil)

lemma wild_rest_step: "c = CHR ''?'' \<or> c = d \<Longrightarrow> wild_rest (c # p) (d # s) star = wild_rest p s star"
  by (subst wild_rest.simps) simp

lemma wild_rest_star: "d \<noteq> CHR ''*'' \<Longrightarrow> wild_rest (star_of p) (d # s) star = wild_rest p (d # s) (Some (p, d # s))"
  by (subst wild_rest.simps) simp

lemma wild_rest_fail:
  "p = [] \<or> (\<exists>c p'. p = c # p' \<and> c \<noteq> CHR ''?'' \<and> c \<noteq> d \<and> c \<noteq> CHR ''*'') \<Longrightarrow>
   wild_rest p (d # s) star = (case star of None \<Rightarrow> False | Some (sp, ss) \<Rightarrow> wild_rest sp (tl ss) (Some (sp, tl ss)))"
  by (subst wild_rest.simps) (auto split: option.split)

lemma wild_rest_correct:
  assumes "CHR ''*'' \<notin> set s" and "star_ok p s star"
  shows "wild_rest p s star \<longleftrightarrow> glob_matches p s \<or> second_chance star"
  using assms
proof (induction p s star rule: wild_rest.induct)
  case (1 p s star)
  show ?case
  proof (cases s)
    case Nil
    with 1(5) second_chance_nil [of p star] show ?thesis by (auto simp: wild_rest_nil)
  next
    case (Cons d s')
    with 1(4) have d: "d \<noteq> CHR ''*''" "CHR ''*'' \<notin> set s'" by auto
    consider (step) c p' where "p = c # p'" "c = CHR ''?'' \<or> c = d"
      | (star) p' where "p = CHR ''*'' # p'"
      | (fail) "p = [] \<or> (\<exists>c p'. p = c # p' \<and> c \<noteq> CHR ''?'' \<and> c \<noteq> d \<and> c \<noteq> CHR ''*'')"
      by (cases p) auto
    then show ?thesis
    proof cases
      case step
      with d(1) have c: "c \<noteq> CHR ''*''" by auto
      from 1(5) star_ok_step [of c p' d s' star] step Cons c have ok: "star_ok p' s' star" by simp
      from 1(1) step Cons d(2) ok have "wild_rest p' s' star \<longleftrightarrow> glob_matches p' s' \<or> second_chance star" by simp
      with step Cons c show ?thesis by (simp add: wild_rest_step)
    next
      case star
      from d Cons have ok: "star_ok p' s (Some (p', s))"
        by (auto simp: star_ok_def literal_def intro!: exI [of _ "[]"])
      from 1(2) star Cons d 1(4) ok
      have IH: "wild_rest p' s (Some (p', s)) \<longleftrightarrow> glob_matches p' s \<or> second_chance (Some (p', s))" by simp
      have "glob_matches p s \<longleftrightarrow> glob_matches p' s \<or> second_chance (Some (p', s))"
        unfolding star Cons second_chance_def by simp
      moreover have "second_chance star \<Longrightarrow> glob_matches p s"
        using second_chance_star [of p' s star] 1(5) star by simp
      moreover have "wild_rest p s star = wild_rest p' s (Some (p', s))"
        using wild_rest_star [OF d(1)] star Cons by simp
      ultimately show ?thesis using IH by blast
    next
      case fail
      then have no: "\<not> glob_matches p s" using Cons by auto
      show ?thesis
      proof (cases star)
        case None
        with no Cons wild_rest_fail [OF fail, of s' star] show ?thesis by (simp add: second_chance_def)
      next
        case (Some x)
        then obtain sp ss where x: "star = Some (sp, ss)" by (cases x) auto
        with 1(5) Cons have ss: "CHR ''*'' \<notin> set ss" "ss \<noteq> []" by (auto simp: star_ok_def)
        then obtain e r where er: "ss = e # r" by (cases ss) auto
        with ss have ok: "star_ok sp r (Some (sp, r))" "CHR ''*'' \<notin> set r"
          by (auto simp: star_ok_def literal_def intro!: exI [of _ "[]"])
        have "wild_rest p s star \<longleftrightarrow> wild_rest sp r (Some (sp, r))"
          using wild_rest_fail [OF fail, of s' star] Cons x er by simp
        also have "\<dots> \<longleftrightarrow> glob_matches sp r \<or> second_chance (Some (sp, r))"
          using 1(3) fail Cons x er ok by auto
        also have "\<dots> \<longleftrightarrow> second_chance star"
          unfolding x er second_chance_def by (cases r) auto
        finally show ?thesis using no by blast
      qed
    qed
  qed
qed



text \<open>
  On a subject that itself contains a \<open>*\<close> the loop takes the pattern's star for a literal, since
  equality is tested first: the pattern \<open>*\<close>, which stands for everything, matches no text of two or
  more characters that starts with a \<open>*\<close>.
\<close>

theorem star_taken_literally:
  "glob_matches ''*'' (CHR ''*'' # c # s) \<and> \<not> wildcardMatch ''*'' (CHR ''*'' # c # s)"
proof
  have "glob_matches ''*'' t" for t by (induction t) auto
  then show "glob_matches ''*'' (CHR ''*'' # c # s)" .
  show "\<not> wildcardMatch ''*'' (CHR ''*'' # c # s)"
    by (simp add: wildcardMatch_def wildcard_loop.simps)
qed

subsection \<open>What the filter keeps\<close>

text \<open>
  The rule in the words of the configuration: a change counts unless its resource is ignored, its
  category is switched off, or it is an update all of whose changed properties are ignored.
\<close>

definition ignored_path :: "Classification \<Rightarrow> ResourceChange \<Rightarrow> string \<Rightarrow> bool" where
  "ignored_path c r p \<longleftrightarrow>
     (\<exists>ip \<in> set (cl_IgnoreProperties c).
        (ip_ResourceType ip = '''' \<or> wildcardMatch (ip_ResourceType ip) (rc_Type r))
        \<and> (\<exists>pat \<in> set (ip_Properties ip). wildcardMatch pat p))"

definition counts_as_drift :: "Classification \<Rightarrow> ResourceChange \<Rightarrow> bool" where
  "counts_as_drift c r \<longleftrightarrow>
     \<not> (\<exists>pat \<in> set (cl_IgnoreResources c). wildcardMatch pat (rc_Address r))
     \<and> (rc_Category r = DriftOrphaned \<longrightarrow> cl_TreatOrphanedAsDrift c)
     \<and> (rc_Category r = DriftMissing \<longrightarrow> cl_TreatMissingAsDrift c)
     \<and> (rc_Op r = ''update'' \<and> rc_Paths r \<noteq> [] \<longrightarrow> (\<exists>p \<in> set (rc_Paths r). \<not> ignored_path c r p))"

definition without_ignored :: "Classification \<Rightarrow> ResourceChange \<Rightarrow> ResourceChange" where
  "without_ignored c r =
     (if rc_Op r = ''update'' then r\<lparr>rc_Paths := filter (\<lambda>p. \<not> ignored_path c r p) (rc_Paths r)\<rparr> else r)"

lemma retainedPaths_eq: "retainedPaths c r = filter (\<lambda>p. \<not> ignored_path c r p) (rc_Paths r)"
proof -
  have "drift_matchesAny p (ignoredPropsFor c (rc_Type r)) \<longleftrightarrow> ignored_path c r p" for p
    by (auto simp: drift_matchesAny_def ignoredPropsFor_def ignored_path_def list_ex_iff)
  moreover have "ignoredPropsFor c (rc_Type r) = [] \<Longrightarrow> \<not> ignored_path c r p" for p
    by (auto simp: ignoredPropsFor_def ignored_path_def)
  ultimately show ?thesis by (auto simp: retainedPaths_def Let_def filter_id_conv)
qed

lemma length_filter_same: "length (filter P xs) = length xs \<longleftrightarrow> filter P xs = xs"
  by (metis filter_id_conv length_filter_less less_irrefl)

lemma filter_step_eq:
  "filter_step c r =
     (if counts_as_drift c r then Some (without_ignored c r) else None,
      \<not> counts_as_drift c r \<or> without_ignored c r \<noteq> r)"
proof -
  have ex: "(\<exists>p \<in> set (rc_Paths r). \<not> ignored_path c r p) \<longleftrightarrow> retainedPaths c r \<noteq> []"
    by (auto simp: retainedPaths_eq filter_empty_conv)
  have len: "length (retainedPaths c r) = length (rc_Paths r) \<longleftrightarrow> retainedPaths c r = rc_Paths r"
    by (simp add: retainedPaths_eq length_filter_same)
  have upd: "r\<lparr>rc_Paths := ps\<rparr> = r \<longleftrightarrow> ps = rc_Paths r" for ps by (cases r) auto
  have "counts_as_drift c r \<longleftrightarrow>
     \<not> drift_matchesAny (rc_Address r) (cl_IgnoreResources c)
     \<and> \<not> (\<not> cl_TreatOrphanedAsDrift c \<and> rc_Category r = DriftOrphaned)
     \<and> \<not> (\<not> cl_TreatMissingAsDrift c \<and> rc_Category r = DriftMissing)
     \<and> \<not> (rc_Op r = ''update'' \<and> rc_Paths r \<noteq> [] \<and> retainedPaths c r = [])"
    unfolding counts_as_drift_def ex by (auto simp: drift_matchesAny_def list_ex_iff)
  moreover have "without_ignored c r = (if rc_Op r = ''update'' then r\<lparr>rc_Paths := retainedPaths c r\<rparr> else r)"
    by (simp add: without_ignored_def retainedPaths_eq)
  moreover have "rc_Paths r = [] \<Longrightarrow> retainedPaths c r = []" by (simp add: retainedPaths_eq)
  ultimately show ?thesis by (auto simp: filter_step_def Let_def len upd)
qed

lemma filter_loop_eq:
  "filter_loop c rs = (map (without_ignored c) (filter (counts_as_drift c) rs),
                       \<not> list_all (\<lambda>r. counts_as_drift c r \<and> without_ignored c r = r) rs)"
  by (induction rs) (auto simp: filter_step_eq)

lemma without_ignored_idem:
  "ignored_path c (without_ignored c r) p = ignored_path c r p"
  "without_ignored c (without_ignored c r) = without_ignored c r"
proof -
  have 1: "ignored_path c (without_ignored c r) = ignored_path c r"
    by (simp add: ignored_path_def without_ignored_def fun_eq_iff)
  then show "ignored_path c (without_ignored c r) p = ignored_path c r p" by simp
  show "without_ignored c (without_ignored c r) = without_ignored c r"
    unfolding without_ignored_def [of c "without_ignored c r"] 1 by (simp add: without_ignored_def)
qed

lemma counts_without_ignored: "counts_as_drift c r \<Longrightarrow> counts_as_drift c (without_ignored c r)"
  unfolding counts_as_drift_def without_ignored_idem(1) by (auto simp: without_ignored_def)



lemma empty_classification_keeps:
  assumes "cl_empty (Some c)"
  shows "counts_as_drift c r" and "without_ignored c r = r"
proof -
  from assms have "\<not> ignored_path c r p" for p by (simp add: cl_empty_def ignored_path_def)
  with assms show "counts_as_drift c r" "without_ignored c r = r"
    by (auto simp: counts_as_drift_def without_ignored_def cl_empty_def intro: list.set_sel)
qed

lemma filter_changes_eq:
  "filter_changes (Some c) rs =
     (map (without_ignored c) (filter (counts_as_drift c) rs),
      map (without_ignored c) (filter (counts_as_drift c) rs) \<noteq> rs)"
proof -
  have all: "map (without_ignored c) (filter (counts_as_drift c) rs) = rs
      \<longleftrightarrow> list_all (\<lambda>r. counts_as_drift c r \<and> without_ignored c r = r) rs"
  proof (induction rs)
    case (Cons r rs)
    have "map (without_ignored c) (filter (counts_as_drift c) rs) \<noteq> r # rs"
      by (metis impossible_Cons length_filter_le length_map)
    with Cons show ?case by auto
  qed simp
  show ?thesis
  proof (cases "cl_empty (Some c) \<or> rs = []")
    case True
    then have "map (without_ignored c) (filter (counts_as_drift c) rs) = rs"
      unfolding all using empty_classification_keeps by (auto simp: list_all_iff)
    with True show ?thesis by (auto simp: filter_changes_def)
  next
    case False
    then show ?thesis by (simp add: filter_changes_def filter_loop_eq all)
  qed
qed

lemma filter_again:
  "map (without_ignored c) (filter (counts_as_drift c) (map (without_ignored c) (filter (counts_as_drift c) rs)))
     = map (without_ignored c) (filter (counts_as_drift c) rs)"
  by (induction rs) (auto simp: without_ignored_idem counts_without_ignored)

text \<open>
  The filter keeps exactly the changes that count as drift under the configuration, in their
  order and without the ignored property paths; it reports a removal exactly when it changed the
  list (so the counts are recomputed exactly then); and filtering its result again changes nothing.
\<close>

theorem filter_exact:
  "fst (filter_changes (Some c) rs) = map (without_ignored c) (filter (counts_as_drift c) rs)
   \<and> snd (filter_changes (Some c) rs) = (fst (filter_changes (Some c) rs) \<noteq> rs)
   \<and> filter_changes (Some c) (fst (filter_changes (Some c) rs)) = (fst (filter_changes (Some c) rs), False)"
  by (simp add: filter_changes_eq filter_again)

end
