(* ===== verification/Redact.thy ===== *)
theory Redact
  imports GoStrings
begin

text \<open>
  Secret redaction, \<open>internal/core/redact/redact.go\<close>. A compiled regular expression is a function
  from the replacement and the text to the text, Go's \<open>ReplaceAllString\<close>; compiling is the parameter
  \<open>compile\<close>. The set of secrets is a list without repetitions. The read-write lock only
  makes each operation atomic, so the operations are pure functions on the redactor.
\<close>

subsection \<open>Replacing\<close>

text \<open>\<open>strings.ReplaceAll\<close> for a non-empty \<open>old\<close>; registered secrets are never empty.\<close>

function ReplaceAll :: "string \<Rightarrow> string \<Rightarrow> string \<Rightarrow> string" where
  "ReplaceAll s old new =
     (if s = [] \<or> old = [] then s
      else if HasPrefix s old then new @ ReplaceAll (drop (length old) s) old new
      else hd s # ReplaceAll (tl s) old new)"
  by pat_completeness auto
termination by (relation "measure (\<lambda>(s, old, new). length s)") auto

declare ReplaceAll.simps [simp del]

definition secret_markers :: "string list" where "secret_markers = [''[secret]'', ''<secret>'']"

text \<open>The regular expression \<open>pulumiSecretMarker\<close> is the alternation of two literals of eight characters.\<close>

function replace_markers :: "string \<Rightarrow> string \<Rightarrow> string" where
  "replace_markers rep s =
     (if s = [] then []
      else if list_ex (HasPrefix s) secret_markers then rep @ replace_markers rep (drop 8 s)
      else hd s # replace_markers rep (tl s))"
  by pat_completeness auto
termination by (relation "measure (\<lambda>(rep, s). length s)") auto

declare replace_markers.simps [simp del]

subsection \<open>The redactor\<close>

type_synonym regex = "string \<Rightarrow> string \<Rightarrow> string"

record Redactor =
  rd_rules :: "regex list"
  rd_replacement :: string
  rd_secrets :: "string list"

definition MinSecretLength :: nat where "MinSecretLength = 8"

definition New_redactor :: Redactor where
  "New_redactor = \<lparr>rd_rules = [], rd_replacement = ''[redacted]'', rd_secrets = []\<rparr>"

definition NewFromRules :: "regex list \<Rightarrow> Redactor" where
  "NewFromRules rules = \<lparr>rd_rules = rules, rd_replacement = ''[redacted]'', rd_secrets = []\<rparr>"

definition WithReplacement :: "string \<Rightarrow> Redactor \<Rightarrow> Redactor" where
  "WithReplacement s r = r\<lparr>rd_replacement := s\<rparr>"

definition AddRule :: "(string \<Rightarrow> regex option) \<Rightarrow> string \<Rightarrow> Redactor \<Rightarrow> Redactor" where
  "AddRule compile pattern r =
     (case compile pattern of None \<Rightarrow> r | Some re \<Rightarrow> r\<lparr>rd_rules := rd_rules r @ [re]\<rparr>)"

fun CompileRules :: "(string \<Rightarrow> regex option) \<Rightarrow> string list \<Rightarrow> regex list option" where
  "CompileRules compile [] = Some []"
| "CompileRules compile (p # ps) =
     (case compile p of
        None \<Rightarrow> None
      | Some re \<Rightarrow> (case CompileRules compile ps of None \<Rightarrow> None | Some rs \<Rightarrow> Some (re # rs)))"

definition AddSecret :: "string \<Rightarrow> Redactor \<Rightarrow> Redactor" where
  "AddSecret s r =
     (if length s < MinSecretLength then r
      else if s \<in> set (rd_secrets r) then r
      else r\<lparr>rd_secrets := rd_secrets r @ [s]\<rparr>)"

definition secret_before :: "string \<Rightarrow> string \<Rightarrow> bool" where
  "secret_before a b = (if length a \<noteq> length b then length a > length b else a < b)"

definition sortedSecrets :: "Redactor \<Rightarrow> string list" where
  "sortedSecrets r = insertion_sort secret_before (rd_secrets r)"

text \<open>A nil redactor leaves the text as it is.\<close>

definition Redact_text :: "Redactor option \<Rightarrow> string \<Rightarrow> string" where
  "Redact_text ropt s =
     (case ropt of None \<Rightarrow> s
      | Some r \<Rightarrow>
          let out = fold (\<lambda>sec out. ReplaceAll out sec (rd_replacement r)) (sortedSecrets r) s;
              out = fold (\<lambda>re out. re (rd_replacement r) out) (rd_rules r) out
          in replace_markers (rd_replacement r) out)"

subsection \<open>No registered secret survives\<close>

definition occurs_in :: "string \<Rightarrow> string \<Rightarrow> bool" where
  "occurs_in sec s \<longleftrightarrow> (\<exists>a b. s = a @ sec @ b)"

text \<open>
  \<open>masks rep s t\<close>: \<open>t\<close> is \<open>s\<close> with some disjoint pieces replaced by \<open>rep\<close>; this is what the
  replacement functions of the standard library do.
\<close>

inductive masks :: "string \<Rightarrow> string \<Rightarrow> string \<Rightarrow> bool" for rep where
  masks_Nil: "masks rep [] []"
| masks_keep: "masks rep s t \<Longrightarrow> masks rep (c # s) (c # t)"
| masks_mask: "masks rep s t \<Longrightarrow> masks rep (x @ s) (rep @ t)"

lemma masks_refl: "masks rep s s"
  by (induction s) (auto intro: masks.intros)

lemma masks_ReplaceAll: "masks rep s (ReplaceAll s old rep)"
proof (induction s old rep rule: ReplaceAll.induct)
  case (1 s old new)
  show ?case
  proof (cases "s = [] \<or> old = []")
    case True
    then show ?thesis using masks_refl by (subst ReplaceAll.simps) auto
  next
    case False
    show ?thesis
    proof (cases "HasPrefix s old")
      case True
      then obtain r where r: "s = old @ r" by (auto simp: HasPrefix_iff)
      with 1(1) False True have "masks new r (ReplaceAll r old new)" by simp
      from masks_mask [OF this, of old] False True r show ?thesis by (subst ReplaceAll.simps) simp
    next
      case no: False
      obtain c r where s: "s = c # r" using False by (cases s) auto
      with 1(2) False no have "masks new r (ReplaceAll r old new)" by simp
      from masks_keep [OF this, of c] False no s show ?thesis by (subst ReplaceAll.simps) simp
    qed
  qed
qed

lemma masks_markers: "masks rep s (replace_markers rep s)"
proof (induction rep s rule: replace_markers.induct)
  case (1 rep s)
  show ?case
  proof (cases s)
    case Nil
    then show ?thesis by (subst replace_markers.simps) (simp add: masks_Nil)
  next
    case (Cons c r)
    show ?thesis
    proof (cases "list_ex (HasPrefix s) secret_markers")
      case True
      with 1(1) Cons have "masks rep (drop 8 s) (replace_markers rep (drop 8 s))" by simp
      from masks_mask [OF this, of "take 8 s"] True Cons show ?thesis by (subst replace_markers.simps) simp
    next
      case False
      with 1(2) Cons have "masks rep r (replace_markers rep r)" by simp
      from masks_keep [OF this, of c] False Cons show ?thesis by (subst replace_markers.simps) simp
    qed
  qed
qed

text \<open>A secret that cannot be formed with a piece of the replacement.\<close>

definition apart :: "string \<Rightarrow> string \<Rightarrow> bool" where
  "apart rep sec \<longleftrightarrow> sec \<noteq> [] \<and> rep \<noteq> [] \<and> hd rep \<notin> set sec \<and> last rep \<notin> set sec \<and> \<not> occurs_in sec rep"

lemma occurs_in_Cons: "occurs_in sec (c # t) \<longleftrightarrow> prefix sec (c # t) \<or> occurs_in sec t"
  by (auto simp: occurs_in_def prefix_def Cons_eq_append_conv)

lemma occurs_in_append: "occurs_in sec t \<Longrightarrow> occurs_in sec (x @ t)"
  by (auto simp: occurs_in_def) (metis append.assoc)

lemma masks_prefix:
  assumes "masks rep s t" and "rep \<noteq> []" and "hd rep \<notin> set p" and "prefix p t"
  shows "prefix p s"
  using assms(1,3,4)
proof (induction arbitrary: p rule: masks.induct)
  case (masks_keep s t c)
  then show ?case by (cases p) auto
next
  case (masks_mask s t x)
  with assms(2) have "p = []" by (cases rep; cases p) auto
  then show ?case by simp
qed simp

lemma occurs_after_mask:
  assumes "apart rep sec" and "occurs_in sec (rep @ t)"
  shows "occurs_in sec t"
proof -
  from assms(2) obtain a b where ab: "rep @ t = a @ sec @ b" by (auto simp: occurs_in_def)
  then consider (later) us where "a = rep @ us" "t = us @ sec @ b" | (cut) us where "rep = a @ us" "us @ t = sec @ b"
    by (auto simp: append_eq_append_conv2)
  then show ?thesis
  proof cases
    case later
    then show ?thesis by (auto simp: occurs_in_def)
  next
    case cut
    show ?thesis
    proof (cases "us = []")
      case True
      with cut show ?thesis by (auto simp: occurs_in_def)
    next
      case False
      from cut(2) consider v where "sec = us @ v" | v where "us = sec @ v" by (auto simp: append_eq_append_conv2)
      then show ?thesis
      proof cases
        case 1
        with False cut(1) have "last rep \<in> set sec" by simp
        with assms(1) show ?thesis by (simp add: apart_def)
      next
        case 2
        with cut(1) have "occurs_in sec rep" by (auto simp: occurs_in_def)
        with assms(1) show ?thesis by (simp add: apart_def)
      qed
    qed
  qed
qed

lemma masks_no_new:
  assumes "masks rep s t" and "apart rep sec" and "occurs_in sec t"
  shows "occurs_in sec s"
  using assms(1,3)
proof (induction rule: masks.induct)
  case (masks_keep s t c)
  from masks_keep.prems consider "prefix sec (c # t)" | "occurs_in sec t" by (auto simp: occurs_in_Cons)
  then show ?case
  proof cases
    case 1
    with masks_prefix [OF masks.masks_keep [OF masks_keep.hyps]] assms(2)
    have "prefix sec (c # s)" by (simp add: apart_def)
    then show ?thesis by (simp add: occurs_in_Cons)
  next
    case 2
    with masks_keep.IH show ?thesis by (simp add: occurs_in_Cons)
  qed
next
  case (masks_mask s t x)
  with occurs_after_mask [OF assms(2)] show ?case by (blast intro: occurs_in_append)
qed (use assms(2) in simp)

lemma ReplaceAll_removes:
  assumes "apart rep old"
  shows "\<not> occurs_in old (ReplaceAll s old rep)"
  using assms
proof (induction s old rep rule: ReplaceAll.induct)
  case (1 s old new)
  then have ne: "old \<noteq> []" by (simp add: apart_def)
  consider (nil) "s = []" | (hit) r where "s = old @ r" | (miss) c r where "s = c # r" "\<not> HasPrefix s old"
    by (cases s) (auto simp: HasPrefix_iff)
  then show ?case
  proof cases
    case nil
    then show ?thesis using ne by (subst ReplaceAll.simps) (simp add: occurs_in_def)
  next
    case hit
    with ne have eq: "ReplaceAll s old new = new @ ReplaceAll r old new"
      by (subst ReplaceAll.simps) (auto simp: HasPrefix_iff)
    have "\<not> occurs_in old (ReplaceAll r old new)" using 1(1,3) ne hit by (simp add: HasPrefix_iff)
    with occurs_after_mask [OF 1(3)] eq show ?thesis by auto
  next
    case miss
    with ne have eq: "ReplaceAll s old new = c # ReplaceAll r old new" by (subst ReplaceAll.simps) simp
    have "\<not> occurs_in old (ReplaceAll r old new)" using 1(2,3) ne miss by simp
    moreover have "\<not> prefix old (c # ReplaceAll r old new)"
      using masks_prefix [OF masks_keep [OF masks_ReplaceAll], of new old c r old] 1(3) miss
      by (auto simp: apart_def HasPrefix_iff prefix_def)
    ultimately show ?thesis unfolding eq by (simp add: occurs_in_Cons)
  qed
qed

lemma fold_keeps_away:
  assumes "apart rep sec" and "\<not> occurs_in sec s" and "\<And>f t. f \<in> set fs \<Longrightarrow> masks rep t (f t)"
  shows "\<not> occurs_in sec (fold (\<lambda>f out. f out) fs s)"
  using assms(2,3)
proof (induction fs arbitrary: s)
  case (Cons f fs)
  have "\<not> occurs_in sec (f s)" using masks_no_new [OF _ assms(1)] Cons.prems by (meson list.set_intros(1))
  with Cons show ?case by simp
qed simp

lemma fold_secrets:
  assumes "apart rep sec" and "sec \<in> set secs"
  shows "\<not> occurs_in sec (fold (\<lambda>x out. ReplaceAll out x rep) secs s)"
  using assms(2)
proof (induction secs arbitrary: s)
  case (Cons x secs)
  show ?case
  proof (cases "sec \<in> set secs")
    case True
    with Cons show ?thesis by simp
  next
    case False
    with Cons.prems have "x = sec" by simp
    with ReplaceAll_removes [OF assms(1)] have "\<not> occurs_in sec (ReplaceAll s x rep)" by simp
    from fold_keeps_away [OF assms(1) this, of "map (\<lambda>x out. ReplaceAll out x rep) secs"] masks_ReplaceAll
    show ?thesis by (auto simp: fold_map comp_def)
  qed
qed simp



end
