(* ===== verification/DriftRun.thy ===== *)
theory DriftRun
  imports DriftState DriftFilter Redact Discovery
begin

text \<open>
  The drift runner, \<open>internal/drift\<close>: \<open>retry.go\<close> and \<open>runner.go\<close>.

  What the runner calls and does not own is an argument. \<open>DriftWorld\<close> answers for the engine, the
  credential resolvers and the run's context: each answer is a function of the number of
  the attempt, which is the number of retries used so far. What the runner does to
  credentials and engine is recorded in a log of actions. The stores are blob stores;
  \<open>glob\<close> is doublestar's \<open>Match\<close>, \<open>sha\<close> the hexadecimal SHA-256, \<open>errtext\<close> the text Go formats for
  an error. Wall-clock durations of items, metrics and log lines are left out.
  \<open>Run\<close> is modelled for one check at a time, the default; with more, the order of its items is open.
\<close>

subsection \<open>Retry policy (retry.go)\<close>

definition retryBackoffMax :: go_duration where "retryBackoffMax = 30 * second"

text \<open>Signed 64-bit arithmetic of \<open>time.Duration\<close>.\<close>

definition wrap64 :: "int \<Rightarrow> int" where
  "wrap64 x = (x + 2 ^ 63) mod 2 ^ 64 - 2 ^ 63"

text \<open>The doubling loop of \<open>backoffSleep\<close>: \<open>n\<close> more rounds.\<close>

fun backoff_loop :: "nat \<Rightarrow> go_duration \<Rightarrow> go_duration" where
  "backoff_loop 0 d = d"
| "backoff_loop (Suc n) d = (if d < retryBackoffMax then backoff_loop n (wrap64 (d * 2)) else d)"

definition backoff_delay :: "go_duration \<Rightarrow> nat \<Rightarrow> go_duration" where
  "backoff_delay base att =
     (let d = backoff_loop (att - 1) base in if d > retryBackoffMax then retryBackoffMax else d)"

datatype errKind = errPermanent | errTransientNetwork | errAuthExpired

definition networkSignatures :: "string list" where
  "networkSignatures =
     [''dial tcp'', ''connection refused'', ''connection reset'', ''connection timed out'', ''broken pipe'',
      ''no such host'', ''i/o timeout'', ''tls handshake timeout'', ''network is unreachable'',
      ''no route to host'', ''temporary failure in name resolution'', ''server misbehaving'',
      ''unexpected eof'', ''http2: server sent goaway'', ''requesterror'', ''requesttimeout'',
      ''requestcanceled'', ''throttling'', ''throttled'', ''toomanyrequests'', ''rate exceeded'',
      ''requestlimitexceeded'', ''serviceunavailable'', ''service unavailable'', ''internalservererror'',
      ''internal server error'', ''bad gateway'', ''gateway timeout'', ''could not connect'',
      ''error connecting'', ''transport is closing'']"

definition authExpirySignatures :: "string list" where
  "authExpirySignatures =
     [''expiredtoken'', ''the security token included in the request is expired'', ''token has expired'',
      ''token is expired'', ''token expired'', ''credentials have expired'', ''expired credentials'',
      ''credential has expired'', ''requestexpired'', ''session token expired'', ''expired session token'',
      ''reauthenticate'', ''invalid_grant'', ''authenticationexpired'']"

definition classifyDriftError :: "string \<Rightarrow> errKind" where
  "classifyDriftError msg =
     (if msg = '''' then errPermanent
      else let low = ToLower msg in
           if list_ex (Contains low) networkSignatures then errTransientNetwork
           else if list_ex (Contains low) authExpirySignatures then errAuthExpired
           else errPermanent)"

subsection \<open>Data of a run (runner.go)\<close>

record PreviewResult =
  pv_Counts :: Counts
  pv_PlanSummary :: string
  pv_PlanDiff :: string
  pv_FullPlan :: string
  pv_Error :: string
  pv_PlanPath :: string
  pv_DriftedURNs :: "string list"
  pv_Resources :: "ResourceChange list"

definition no_result :: PreviewResult where
  "no_result = \<lparr>pv_Counts = zero_counts, pv_PlanSummary = '''', pv_PlanDiff = '''', pv_FullPlan = '''',
     pv_Error = '''', pv_PlanPath = '''', pv_DriftedURNs = [], pv_Resources = []\<rparr>"

type_synonym auth_env = "(string \<times> string) list"

text \<open>A resolver's answer; the flag tells whether it comes with a cleanup.\<close>

datatype AuthResp = AuthOk auth_env bool | AuthFail string bool

record DriftWorld =
  dw_auth :: "bool \<Rightarrow> nat \<Rightarrow> AuthResp"
  dw_check :: "nat \<Rightarrow> auth_env \<Rightarrow> PreviewResult \<times> string option \<times> bool"
  dw_cancelled :: "nat \<Rightarrow> bool"
  dw_wait :: "nat \<Rightarrow> go_duration \<Rightarrow> bool"

record DriftOptions =
  do_Decls :: "Declaration list"
  do_Filter :: Filter
  do_IncludePatterns :: "string list"
  do_ExcludePatterns :: "string list"
  do_FreshnessWindow :: go_duration
  do_BootstrapMode :: string
  do_RenotifyAfter :: go_duration
  do_PerStackTimeout :: go_duration
  do_hasResolver :: bool
  do_hasRebinder :: bool
  do_hasStateStore :: bool
  do_hasSuppressionStore :: bool
  do_RetryOnTransientError :: int
  do_RetryBackoff :: go_duration
  do_Classification :: "Classification option"
  do_PermanentSuppressions :: "PermanentSuppression list"

record OverlappingPR =
  op_Number :: int
  op_Author :: string
  op_HeadSHA :: string
  op_Paths :: "string list"

record Item =
  it_Project :: string
  it_Stack :: string
  it_Env :: string
  it_Outcome :: Outcome
  it_Event :: DriftEvent
  it_NotifyEvent :: DriftEvent
  it_Counts :: PreviewResult
  it_Fingerprint :: string
  it_Error :: string
  it_Suppressed :: bool
  it_SuppressReason :: string
  it_OverlappingPRs :: "OverlappingPR list"
  it_OngoingSince :: go_time
  it_CheckRecovered :: bool

definition new_item :: "Stack \<Rightarrow> Item" where
  "new_item s =
     \<lparr>it_Project = st_Project s, it_Stack = st_Name s, it_Env = st_Env s, it_Outcome = '''', it_Event = EventNone,
      it_NotifyEvent = EventNone, it_Counts = no_result, it_Fingerprint = '''', it_Error = '''',
      it_Suppressed = False, it_SuppressReason = '''', it_OverlappingPRs = [], it_OngoingSince = zero_time,
      it_CheckRecovered = False\<rparr>"

datatype ItemErr = LoadSuppressionErr StateErr | LoadStateErr StateErr | TimeoutErr go_duration

definition failureText :: "PreviewResult \<Rightarrow> string option \<Rightarrow> string" where
  "failureText res err =
     (if pv_Error res \<noteq> '''' then pv_Error res else case err of Some e \<Rightarrow> e | None \<Rightarrow> '''')"

subsection \<open>The check with its retries\<close>

text \<open>Credentials are numbered by the attempt that resolved them; the flag tells the rebinder from the resolver.\<close>

datatype Action = Resolve_auth bool nat | Cleanup_auth nat | Check_stack nat

record RetryState =
  rl_env :: auth_env
  rl_cleanup :: "nat option"
  rl_res :: PreviewResult
  rl_err :: "string option"
  rl_haveAuth :: bool
  rl_timedOut :: bool
  rl_retries :: nat
  rl_rebindUsed :: bool
  rl_rebinding :: bool
  rl_redactor :: Redactor
  rl_log :: "Action list"

definition retry_start :: "Redactor \<Rightarrow> RetryState" where
  "retry_start red =
     \<lparr>rl_env = [], rl_cleanup = None, rl_res = no_result, rl_err = None, rl_haveAuth = False, rl_timedOut = False,
      rl_retries = 0, rl_rebindUsed = False, rl_rebinding = False, rl_redactor = red, rl_log = []\<rparr>"

text \<open>\<open>cleanupAuth\<close>\<close>

definition cleanupAuth :: "RetryState \<Rightarrow> RetryState" where
  "cleanupAuth s =
     (case rl_cleanup s of
        None \<Rightarrow> s
      | Some g \<Rightarrow> s\<lparr>rl_cleanup := None, rl_log := rl_log s @ [Cleanup_auth g]\<rparr>)"

text \<open>The resolver variable is the rebinder after a rebind, if there is one.\<close>

definition resolve_step :: "DriftOptions \<Rightarrow> DriftWorld \<Rightarrow> RetryState \<Rightarrow> RetryState" where
  "resolve_step opts W s =
     (let n = rl_retries s; s = s\<lparr>rl_timedOut := False\<rparr> in
      if (do_hasResolver opts \<or> rl_rebinding s) \<and> \<not> rl_haveAuth s then
        (let s = s\<lparr>rl_log := rl_log s @ [Resolve_auth (rl_rebinding s) n]\<rparr> in
         case dw_auth W (rl_rebinding s) n of
           AuthFail msg cl \<Rightarrow>
             (cleanupAuth (s\<lparr>rl_cleanup := (if cl then Some n else None)\<rparr>))\<lparr>rl_res := no_result, rl_err := Some msg\<rparr>
         | AuthOk e cl \<Rightarrow>
             s\<lparr>rl_env := e, rl_cleanup := (if cl then Some n else None), rl_haveAuth := True,
               rl_redactor := fold AddSecret (map snd e) (rl_redactor s)\<rparr>)
      else s)"

definition check_step :: "DriftOptions \<Rightarrow> DriftWorld \<Rightarrow> RetryState \<Rightarrow> RetryState" where
  "check_step opts W s =
     (let n = rl_retries s in
      if rl_haveAuth s \<or> \<not> do_hasResolver opts then
        (case dw_check W n (rl_env s) of
           (res, err, deadline) \<Rightarrow>
             s\<lparr>rl_res := res, rl_err := err, rl_timedOut := (do_PerStackTimeout opts > 0 \<and> deadline),
               rl_log := rl_log s @ [Check_stack n]\<rparr>)
      else s)"

definition attempt :: "DriftOptions \<Rightarrow> DriftWorld \<Rightarrow> RetryState \<Rightarrow> RetryState" where
  "attempt opts W s = check_step opts W (resolve_step opts W s)"

definition backoffSleep :: "DriftWorld \<Rightarrow> go_duration \<Rightarrow> nat \<Rightarrow> bool" where
  "backoffSleep W base att =
     (if base \<le> 0 \<or> att < 1 then \<not> dw_cancelled W att else dw_wait W att (backoff_delay base att))"

text \<open>What follows a failed attempt: \<^term>\<open>None\<close> to leave the loop, the state of the next attempt otherwise.\<close>

definition after_failure :: "DriftOptions \<Rightarrow> DriftWorld \<Rightarrow> RetryState \<Rightarrow> RetryState \<times> bool" where
  "after_failure opts W s =
     (case classifyDriftError (failureText (rl_res s) (rl_err s)) of
        errTransientNetwork \<Rightarrow>
          (let s = s\<lparr>rl_retries := rl_retries s + 1\<rparr> in (s, backoffSleep W (do_RetryBackoff opts) (rl_retries s)))
      | errAuthExpired \<Rightarrow>
          if rl_rebindUsed s then (s, False)
          else (let s = cleanupAuth s in
                (s\<lparr>rl_rebinding := (rl_rebinding s \<or> do_hasRebinder opts), rl_rebindUsed := True,
                   rl_haveAuth := False, rl_retries := rl_retries s + 1\<rparr>, True))
      | errPermanent \<Rightarrow> (s, False))"

lemma cleanupAuth_sel [simp]:
  "rl_retries (cleanupAuth s) = rl_retries s" "rl_haveAuth (cleanupAuth s) = rl_haveAuth s"
  "rl_rebindUsed (cleanupAuth s) = rl_rebindUsed s" "rl_rebinding (cleanupAuth s) = rl_rebinding s"
  "rl_cleanup (cleanupAuth s) = None" "rl_res (cleanupAuth s) = rl_res s" "rl_err (cleanupAuth s) = rl_err s"
  "rl_timedOut (cleanupAuth s) = rl_timedOut s" "rl_redactor (cleanupAuth s) = rl_redactor s"
  by (auto simp: cleanupAuth_def split: option.split)

lemma resolve_step_retries [simp]: "rl_retries (resolve_step opts W s) = rl_retries s"
  by (auto simp: resolve_step_def Let_def split: AuthResp.split)

lemma attempt_retries [simp]: "rl_retries (attempt opts W s) = rl_retries s"
  by (auto simp: attempt_def check_step_def Let_def split: prod.split)

lemma after_failure_retries: "after_failure opts W s = (s', True) \<Longrightarrow> rl_retries s' = rl_retries s + 1"
  by (auto simp: after_failure_def Let_def split: errKind.splits if_splits)

function retry_loop :: "DriftOptions \<Rightarrow> DriftWorld \<Rightarrow> RetryState \<Rightarrow> RetryState" where
  "retry_loop opts W s0 =
     (let s = attempt opts W s0 in
      if failureText (rl_res s) (rl_err s) = '''' then s
      else if rl_timedOut s then s
      else if int (rl_retries s) \<ge> do_RetryOnTransientError opts \<or> dw_cancelled W (rl_retries s) then s
      else let (s', again) = after_failure opts W s in if again then retry_loop opts W s' else s')"
  by pat_completeness auto
termination
proof (relation "measure (\<lambda>(opts, W, s). nat (do_RetryOnTransientError opts - int (rl_retries s)))", goal_cases)
  case (2 opts W s0 s p s' again)
  then have "rl_retries s' = rl_retries s0 + 1" using after_failure_retries [of opts W s s'] by simp
  with 2 show ?case by simp
qed simp

declare retry_loop.simps [simp del]

subsection \<open>One stack\<close>

text \<open>The engine's result after the configured filter; a failed check is left alone.\<close>

definition filtered_result :: "DriftOptions \<Rightarrow> PreviewResult \<Rightarrow> string option \<Rightarrow> PreviewResult" where
  "filtered_result opts res err =
     (if err = None \<and> pv_Error res = '''' \<and> \<not> cl_empty (do_Classification opts) \<and> 0 < length (pv_Resources res) then
        (case filter_changes (do_Classification opts) (pv_Resources res) of
           (kept, removed) \<Rightarrow>
             if removed
             then (case applyCounts kept of (c, urns) \<Rightarrow>
                     res\<lparr>pv_Resources := kept, pv_Counts := c, pv_DriftedURNs := urns\<rparr>)
             else res)
      else res)"

text \<open>The verdict of the finished check: outcome, fingerprint and error text of the item.\<close>

definition check_verdict ::
  "(string \<Rightarrow> string) \<Rightarrow> (ItemErr \<Rightarrow> string) \<Rightarrow> DriftOptions \<Rightarrow> Redactor \<Rightarrow> bool \<Rightarrow> PreviewResult \<Rightarrow> string option
     \<Rightarrow> Outcome \<times> string \<times> string" where
  "check_verdict sha errtext opts red timedOut res err =
     (if timedOut then (OutcomeError, '''', errtext (TimeoutErr (do_PerStackTimeout opts)))
      else if err \<noteq> None \<or> pv_Error res \<noteq> '''' then
        (OutcomeError, '''',
         Redact_text (Some red) (if pv_Error res \<noteq> '''' then pv_Error res else the err))
      else if ct_Total (pv_Counts res) > 0 then (OutcomeDriftDetected, Fingerprint sha (pv_DriftedURNs res), '''')
      else (OutcomeNoDrift, '''', ''''))"

text \<open>
  From the verdict to events and state: classification, baseline bootstrap, damping. The events are
  the one of the item and the one for the channels before permanent suppression.
\<close>

definition settle ::
  "string \<Rightarrow> go_duration \<Rightarrow> DriftState \<Rightarrow> DriftResult \<Rightarrow> DriftEvent \<times> DriftEvent \<times> DriftState" where
  "settle mode renotify prev result =
     (case Classify prev result of
        (ev, nxt) \<Rightarrow>
          let ev = (if IsZero (ds_LastCheckedAt prev) \<and> mode = ''baseline'' \<and> ev \<noteq> EventCheckFailed
                    then EventNone else ev);
              (notifyEv, notified) = dampNotification prev ev (dr_CheckedAt result) renotify
          in (ev, notifyEv,
              if notified then nxt\<lparr>ds_LastNotifiedAt := dr_CheckedAt result\<rparr> else nxt))"

record 'c DriftCodec =
  dc_state_enc :: "DriftState \<Rightarrow> 'c option"
  dc_state_dec :: "'c \<Rightarrow> DriftState option"
  dc_sup_dec :: "'c \<Rightarrow> Suppression option"

text \<open>An item that fails before the check.\<close>

definition failed_item :: "Item \<Rightarrow> string \<Rightarrow> Item" where
  "failed_item item msg = item\<lparr>it_Outcome := OutcomeError, it_Error := msg, it_NotifyEvent := EventCheckFailed\<rparr>"

definition manual_bootstrap_text :: string where
  "manual_bootstrap_text =
     ''first run with state_bootstrap.mode=require_manual; run `reeve drift bootstrap` to record the baseline''"

text \<open>From the check to the end of \<open>runOne\<close>.\<close>

definition check_stack ::
  "(string \<Rightarrow> string \<Rightarrow> bool) \<Rightarrow> (string \<Rightarrow> string) \<Rightarrow> (ItemErr \<Rightarrow> string) \<Rightarrow> ('s, 'c) Store \<Rightarrow> 'c DriftCodec
     \<Rightarrow> DriftOptions \<Rightarrow> DriftWorld \<Rightarrow> Redactor \<Rightarrow> Stack \<Rightarrow> go_time \<Rightarrow> DriftState \<Rightarrow> 's
     \<Rightarrow> 's \<times> Item \<times> DriftEvent \<times> Redactor \<times> Action list" where
  "check_stack glob sha errtext B codec opts W red st now prev s =
     (let perm = matchPermanentSuppression glob (do_PermanentSuppressions opts) (stack_Ref st) now;
          item = (case perm of None \<Rightarrow> new_item st
                  | Some p \<Rightarrow> (new_item st)\<lparr>it_Suppressed := True, it_SuppressReason := ps_Reason p\<rparr>);
          r = retry_loop opts W (retry_start red);
          red = rl_redactor r;
          res = filtered_result opts (rl_res r) (rl_err r);
          (oc, fp, msg) = check_verdict sha errtext opts red (rl_timedOut r) res (rl_err r);
          result = \<lparr>dr_Project = st_Project st, dr_Stack = st_Name st, dr_Outcome = oc, dr_Fingerprint = fp,
                    dr_CheckedAt = now, dr_ErrorMessage = msg\<rparr>;
          (ev, notifyEv, nxt) = settle (do_BootstrapMode opts) (do_RenotifyAfter opts) prev result;
          item = item\<lparr>it_Counts := res\<lparr>pv_PlanSummary := Redact_text (Some red) (pv_PlanSummary res),
                                       pv_FullPlan := Redact_text (Some red) (pv_FullPlan res)\<rparr>,
                      it_Outcome := oc, it_Fingerprint := fp, it_Error := msg,
                      it_CheckRecovered := (ds_ConsecutiveErrors prev > 0 \<and> oc \<noteq> OutcomeError),
                      it_OngoingSince := ds_OngoingSince nxt\<rparr>;
          s' = (if do_hasStateStore opts then fst (Save_state B (dc_state_enc codec) nxt s) else s);
          silent = (perm \<noteq> None \<and> ev \<noteq> EventCheckFailed);
          ev = (if silent then EventNone else ev);
          notifyEv = (if silent then EventNone else notifyEv)
      in (s', item\<lparr>it_Event := ev, it_NotifyEvent := notifyEv\<rparr>, ev, red, rl_log (cleanupAuth r)))"

text \<open>
  \<open>runOne\<close>. A skipped stack comes with the reason; the redactor has learnt the credentials.
\<close>

definition runOne ::
  "(string \<Rightarrow> string \<Rightarrow> bool) \<Rightarrow> (string \<Rightarrow> string) \<Rightarrow> (ItemErr \<Rightarrow> string) \<Rightarrow> ('s, 'c) Store \<Rightarrow> 'c DriftCodec
     \<Rightarrow> DriftOptions \<Rightarrow> DriftWorld \<Rightarrow> Redactor \<Rightarrow> Stack \<Rightarrow> go_time \<Rightarrow> 's
     \<Rightarrow> 's \<times> Item \<times> DriftEvent \<times> string option \<times> Redactor" where
  "runOne glob sha errtext B codec opts W red st now s0 =
     (let item = new_item st;
          (s1, sup_res) = (if do_hasSuppressionStore opts
                       then su_Get B (dc_sup_dec codec) (st_Project st) (st_Name st) s0
                       else (s0, Inr None))
      in case sup_res of
           Inl e \<Rightarrow> (s1, failed_item item (Redact_text (Some red) (errtext (LoadSuppressionErr e))), EventCheckFailed, None, red)
         | Inr found \<Rightarrow>
             if (case found of Some su \<Rightarrow> su_Active su now | None \<Rightarrow> False)
             then (s1, item\<lparr>it_Suppressed := True, it_Outcome := OutcomeSkipped\<rparr>, EventNone, Some ''suppressed'', red)
             else
               (let (s2, prev_res) = (if do_hasStateStore opts
                                  then Load_state B (dc_state_dec codec) (st_Project st) (st_Name st) s1
                                  else (s1, Inr (first_state (st_Project st) (st_Name st))))
                in case prev_res of
                     Inl e \<Rightarrow> (s2, failed_item item (Redact_text (Some red) (errtext (LoadStateErr e))), EventCheckFailed, None, red)
                   | Inr prev \<Rightarrow>
                       if do_FreshnessWindow opts > 0 \<and> ds_LastOutcome prev \<noteq> OutcomeDriftDetected
                          \<and> \<not> IsZero (ds_LastSuccessfulAt prev)
                          \<and> time_Sub now (ds_LastSuccessfulAt prev) < do_FreshnessWindow opts
                       then (s2, item\<lparr>it_Outcome := OutcomeSkipped\<rparr>, EventNone, Some ''fresh'', red)
                       else if IsZero (ds_LastCheckedAt prev) \<and> do_BootstrapMode opts = ''require_manual''
                       then (s2, failed_item item manual_bootstrap_text, EventCheckFailed, None, red)
                       else (case check_stack glob sha errtext B codec opts W red st now prev s2 of
                               (s3, item', ev, red', _) \<Rightarrow> (s3, item', ev, None, red'))))"

subsection \<open>The run\<close>

definition pattern_selected :: "(string \<Rightarrow> string \<Rightarrow> bool) \<Rightarrow> string list \<Rightarrow> string list \<Rightarrow> Stack \<Rightarrow> bool" where
  "pattern_selected glob incl excl s =
     ((incl = [] \<or> list_ex (\<lambda>p. glob p (stack_Ref s)) incl) \<and> \<not> list_ex (\<lambda>p. glob p (stack_Ref s)) excl)"

definition filterPatterns ::
  "(string \<Rightarrow> string \<Rightarrow> bool) \<Rightarrow> Stack list \<Rightarrow> string list \<Rightarrow> string list \<Rightarrow> Stack list" where
  "filterPatterns glob stacks incl excl = filter (pattern_selected glob incl excl) stacks"

definition prTouchesPath :: "OverlappingPR \<Rightarrow> string \<Rightarrow> bool" where
  "prTouchesPath pr p \<longleftrightarrow> list_ex (\<lambda>f. f = p \<or> HasPrefix f (p @ ''/'')) (op_Paths pr)"

definition stackPath :: "Stack list \<Rightarrow> string \<Rightarrow> string \<Rightarrow> string" where
  "stackPath stacks project name =
     (case filter (\<lambda>s. st_Project s = project \<and> st_Name s = name) stacks of [] \<Rightarrow> '''' | s # _ \<Rightarrow> st_Path s)"

text \<open>The open pull requests found are attached to the drifted items whose path they touch.\<close>

definition attach_overlaps :: "Stack list \<Rightarrow> OverlappingPR list \<Rightarrow> Item \<Rightarrow> Item" where
  "attach_overlaps targets prs it =
     (let p = stackPath targets (it_Project it) (it_Stack it) in
      if it_Outcome it = OutcomeDriftDetected \<and> p \<noteq> ''''
      then it\<lparr>it_OverlappingPRs := it_OverlappingPRs it @ filter (\<lambda>pr. prTouchesPath pr p) prs\<rparr>
      else it)"

definition drifted_paths :: "Stack list \<Rightarrow> Item list \<Rightarrow> string list" where
  "drifted_paths targets items =
     filter (\<lambda>p. p \<noteq> '''')
       (map (\<lambda>it. stackPath targets (it_Project it) (it_Stack it))
         (filter (\<lambda>it. it_Outcome it = OutcomeDriftDetected) items))"

text \<open>Per environment the number of drifted stacks, with a zero entry for every environment seen.\<close>

definition driftEnvCounts :: "Item list \<Rightarrow> (string \<times> nat) list" where
  "driftEnvCounts items =
     fold (\<lambda>it counts.
             let counts = (if map_of counts (it_Env it) = None then map_put (it_Env it) 0 counts else counts) in
             if it_Outcome it = OutcomeDriftDetected
             then map_put (it_Env it) (map_get counts 0 (it_Env it) + 1) counts else counts)
          items []"

record RunOutput =
  ro_Items :: "Item list"
  ro_Skipped :: "string list"
  ro_Events :: "DriftEvent list"
  ro_OverlapWarning :: string

datatype RunErr = EnumerateErr string | DuplicateRefs string "string list"

fun run_targets ::
  "(string \<Rightarrow> string \<Rightarrow> bool) \<Rightarrow> (string \<Rightarrow> string) \<Rightarrow> (ItemErr \<Rightarrow> string) \<Rightarrow> ('s, 'c) Store \<Rightarrow> 'c DriftCodec
     \<Rightarrow> DriftOptions \<Rightarrow> (string \<Rightarrow> DriftWorld) \<Rightarrow> Redactor \<Rightarrow> (nat \<Rightarrow> go_time) \<Rightarrow> nat \<Rightarrow> Stack list \<Rightarrow> 's
     \<Rightarrow> 's \<times> (Item \<times> DriftEvent) list \<times> string list" where
  "run_targets glob sha errtext B codec opts Ws red clock n [] s = (s, [], [])"
| "run_targets glob sha errtext B codec opts Ws red clock n (st # sts) s =
     (case runOne glob sha errtext B codec opts (Ws (stack_Ref st)) red st (clock n) s of
        (s', item, ev, skip, red') \<Rightarrow>
          (case run_targets glob sha errtext B codec opts Ws red' clock (Suc n) sts s' of
             (s'', items, skipped) \<Rightarrow>
               (case skip of
                  None \<Rightarrow> (s'', (item, ev) # items, skipped)
                | Some reason \<Rightarrow> (s'', items, (stack_Ref st @ '':'' @ reason) # skipped))))"

text \<open>
  \<open>Run\<close>. \<open>enum\<close> is the engine's stack list or its error, \<open>find_prs\<close> the scan for overlapping pull
  requests, absent when none is configured.
\<close>

definition Run_drift ::
  "(string \<Rightarrow> string \<Rightarrow> bool) \<Rightarrow> (string \<Rightarrow> string) \<Rightarrow> (ItemErr \<Rightarrow> string) \<Rightarrow> ('s, 'c) Store \<Rightarrow> 'c DriftCodec
     \<Rightarrow> DriftOptions \<Rightarrow> (string \<Rightarrow> DriftWorld) \<Rightarrow> Redactor \<Rightarrow> (nat \<Rightarrow> go_time) \<Rightarrow> string + Stack list
     \<Rightarrow> (string list \<Rightarrow> OverlappingPR list \<times> string option) option \<Rightarrow> 's \<Rightarrow> 's \<times> (RunErr + RunOutput)" where
  "Run_drift glob sha errtext B codec opts Ws red clock enum find_prs s =
     (case enum of
        Inl e \<Rightarrow> (s, Inl (EnumerateErr e))
      | Inr stacks \<Rightarrow>
          (let decl = Resolve_stacks glob stacks (do_Decls opts) (do_Filter opts) in
           case ValidateUniqueRefs decl of
             Some (ref, paths) \<Rightarrow> (s, Inl (DuplicateRefs ref paths))
           | None \<Rightarrow>
               (let targets = filterPatterns glob decl (do_IncludePatterns opts) (do_ExcludePatterns opts);
                    (s', pairs, skipped) = run_targets glob sha errtext B codec opts Ws red clock 1 targets s;
                    items = map fst pairs;
                    paths = drifted_paths targets items;
                    (prs, err) = (case find_prs of None \<Rightarrow> ([], None) | Some f \<Rightarrow> if paths = [] then ([], None) else f paths)
                in (s', Inr \<lparr>ro_Items = map (attach_overlaps targets prs) items, ro_Skipped = skipped,
                             ro_Events = map snd pairs,
                             ro_OverlapWarning =
                               (case err of None \<Rightarrow> '''' | Some e \<Rightarrow>
                                  ''open-PR overlap scan incomplete - overlap info may be missing: '' @ e)\<rparr>))))"

subsection \<open>Backoff\<close>

lemma wrap64_id: "- (2 ^ 63) \<le> x \<Longrightarrow> x < 2 ^ 63 \<Longrightarrow> wrap64 x = x"
  by (simp add: wrap64_def)

lemma backoff_loop_min:
  assumes "0 < d"
  shows "min retryBackoffMax (backoff_loop n d) = min retryBackoffMax (d * 2 ^ n)"
  using assms
proof (induction n arbitrary: d)
  case (Suc n)
  show ?case
  proof (cases "d < retryBackoffMax")
    case True
    with Suc.prems have w: "wrap64 (d * 2) = d * 2"
      by (intro wrap64_id) (auto simp: retryBackoffMax_def second_def)
    from Suc.IH [of "d * 2"] Suc.prems True w show ?thesis by (simp add: mult.assoc)
  next
    case False
    have "(1 :: int) \<le> 2 ^ Suc n" by (rule one_le_power) simp
    from mult_left_mono [OF this, of d] Suc.prems have "d * 1 \<le> d * 2 ^ Suc n" by simp
    with False show ?thesis by simp
  qed
qed simp

text \<open>
  The wait before the \<open>n\<close>-th retry is the base delay doubled \<open>n - 1\<close> times, capped at thirty
  seconds, for every base delay a duration can hold and every number of retries: the doubling loop
  stops before the 64-bit arithmetic can overflow, so the wait is never negative nor unbounded.
\<close>

theorem backoff_bounds:
  assumes "0 < base" and "base \<le> maxDuration" and "1 \<le> n"
  shows "backoff_delay base n = min retryBackoffMax (base * 2 ^ (n - 1))
       \<and> 0 < backoff_delay base n \<and> backoff_delay base n \<le> 30 * second"
proof -
  have "backoff_delay base n = min retryBackoffMax (backoff_loop (n - 1) base)"
    by (simp add: backoff_delay_def Let_def min_def)
  with backoff_loop_min [OF assms(1), of "n - 1"] assms(1) show ?thesis
    by (simp add: retryBackoffMax_def min_def second_def)
qed

theorem backoff_bounds_witness:
  "backoff_delay (2 * second) 3 = 8 * second \<and> backoff_delay (2 * second) 100 = 30 * second"
  using backoff_bounds [of "2 * second" 3] backoff_bounds [of "2 * second" 100]
  by (simp add: second_def maxDuration_def retryBackoffMax_def)

subsection \<open>Retries and credentials\<close>

text \<open>The credentials that came with a cleanup, and those cleaned up, in order.\<close>

definition needs_cleanup :: "AuthResp \<Rightarrow> bool" where
  "needs_cleanup a = (case a of AuthOk _ c \<Rightarrow> c | AuthFail _ c \<Rightarrow> c)"

fun opened :: "DriftWorld \<Rightarrow> Action list \<Rightarrow> nat list" where
  "opened W [] = []"
| "opened W (Resolve_auth b n # l) = (if needs_cleanup (dw_auth W b n) then n # opened W l else opened W l)"
| "opened W (_ # l) = opened W l"

fun closed :: "Action list \<Rightarrow> nat list" where
  "closed [] = []"
| "closed (Cleanup_auth n # l) = n # closed l"
| "closed (_ # l) = closed l"

fun checks :: "Action list \<Rightarrow> nat list" where
  "checks [] = []"
| "checks (Check_stack n # l) = n # checks l"
| "checks (_ # l) = checks l"

lemma log_append [simp]:
  "opened W (l @ l') = opened W l @ opened W l'" "closed (l @ l') = closed l @ closed l'"
  "checks (l @ l') = checks l @ checks l'"
proof -
  show "opened W (l @ l') = opened W l @ opened W l'" by (induction W l rule: opened.induct) simp_all
  show "closed (l @ l') = closed l @ closed l'" by (induction l rule: closed.induct) simp_all
  show "checks (l @ l') = checks l @ checks l'" by (induction l rule: checks.induct) simp_all
qed

definition retry_inv :: "DriftWorld \<Rightarrow> RetryState \<Rightarrow> bool" where
  "retry_inv W s \<longleftrightarrow>
     opened W (rl_log s) = closed (rl_log s) @ (case rl_cleanup s of None \<Rightarrow> [] | Some g \<Rightarrow> [g])
     \<and> (\<not> rl_haveAuth s \<longrightarrow> rl_cleanup s = None)"

lemma inv_cleanup: "retry_inv W s \<Longrightarrow> opened W (rl_log (cleanupAuth s)) = closed (rl_log (cleanupAuth s))"
  by (auto simp: retry_inv_def cleanupAuth_def split: option.splits)

lemma inv_resolve: "retry_inv W s \<Longrightarrow> retry_inv W (resolve_step opts W s)"
  by (auto simp: retry_inv_def resolve_step_def Let_def needs_cleanup_def cleanupAuth_def
      split: AuthResp.split option.splits)

lemma inv_check: "retry_inv W s \<Longrightarrow> retry_inv W (check_step opts W s)"
  by (auto simp: retry_inv_def check_step_def Let_def split: prod.split)

lemma inv_attempt: "retry_inv W s \<Longrightarrow> retry_inv W (attempt opts W s)"
  by (simp add: attempt_def inv_resolve inv_check)

lemma inv_after_failure: "retry_inv W s \<Longrightarrow> after_failure opts W s = (s', b) \<Longrightarrow> retry_inv W s'"
  by (auto simp: after_failure_def Let_def retry_inv_def cleanupAuth_def
      split: errKind.splits if_splits option.splits)

lemma checks_resolve [simp]: "checks (rl_log (resolve_step opts W s)) = checks (rl_log s)"
  by (auto simp: resolve_step_def Let_def cleanupAuth_def split: AuthResp.split option.split)

lemma checks_attempt: "length (checks (rl_log (attempt opts W s))) \<le> length (checks (rl_log s)) + 1"
  by (auto simp: attempt_def check_step_def Let_def split: prod.split)

lemma checks_after_failure: "after_failure opts W s = (s', b) \<Longrightarrow> checks (rl_log s') = checks (rl_log s)"
  by (auto simp: after_failure_def Let_def cleanupAuth_def split: errKind.splits if_splits option.splits)

lemma retry_loop_inv: "retry_inv W s \<Longrightarrow> retry_inv W (retry_loop opts W s)"
proof (induction opts W s rule: retry_loop.induct)
  case (1 opts W s0)
  obtain s' again where af: "after_failure opts W (attempt opts W s0) = (s', again)" by fastforce
  have a: "retry_inv W (attempt opts W s0)" using 1(2) inv_attempt by blast
  from inv_after_failure [OF this af] have s': "retry_inv W s'" .
  show ?case
    by (subst retry_loop.simps) (use 1(1) a s' af in \<open>simp add: Let_def split: prod.split\<close>)
qed

lemma retry_loop_checks:
  "length (checks (rl_log (retry_loop opts W s)))
     \<le> length (checks (rl_log s)) + nat (do_RetryOnTransientError opts - int (rl_retries s)) + 1"
proof (induction opts W s rule: retry_loop.induct)
  case (1 opts W s0)
  let ?s = "attempt opts W s0"
  obtain s' again where af: "after_failure opts W ?s = (s', again)" by fastforce
  note ca = checks_attempt [of opts W s0] checks_after_failure [OF af]
  show ?case
  proof (cases "failureText (rl_res ?s) (rl_err ?s) = '''' \<or> rl_timedOut ?s
      \<or> int (rl_retries ?s) \<ge> do_RetryOnTransientError opts \<or> dw_cancelled W (rl_retries ?s) \<or> \<not> again")
    case True
    then have "retry_loop opts W s0 = ?s \<or> retry_loop opts W s0 = s'"
      by (subst (1 2) retry_loop.simps) (auto simp: Let_def af)
    with ca show ?thesis by auto
  next
    case False
    then have eq: "retry_loop opts W s0 = retry_loop opts W s'"
      by (subst retry_loop.simps) (simp add: Let_def af)
    from False af have "rl_retries s' = rl_retries s0 + 1" using after_failure_retries [of opts W ?s s'] by simp
    moreover from this False have "nat (do_RetryOnTransientError opts - int (rl_retries s0))
        = nat (do_RetryOnTransientError opts - int (rl_retries s')) + 1" unfolding attempt_retries by linarith
    ultimately show ?thesis using 1 [of ?s "(s', again)" s' again] False af ca eq by simp
  qed
qed

lemma retry_start_inv: "retry_inv W (retry_start red)"
  by (simp add: retry_inv_def retry_start_def)


subsection \<open>Failures fail closed\<close>

lemma Classify_failed: "fst (Classify prev r) = EventCheckFailed \<longleftrightarrow> dr_Outcome r = OutcomeError"
  by (auto simp: Classify_def Let_def)

lemma Classify_resolved: "fst (Classify prev r) = EventDriftResolved \<Longrightarrow> dr_Outcome r = OutcomeNoDrift"
  by (auto simp: Classify_def Let_def split: if_splits)

lemma settle_failed:
  assumes "settle mode renotify prev r = (ev, notifyEv, nxt)"
  shows "ev = EventCheckFailed \<longleftrightarrow> dr_Outcome r = OutcomeError"
    and "ev = EventCheckFailed \<Longrightarrow> notifyEv = EventCheckFailed"
    and "ev = EventDriftResolved \<Longrightarrow> dr_Outcome r = OutcomeNoDrift"
    and "notifyEv = EventDriftResolved \<Longrightarrow> ev = EventDriftResolved"
  using assms Classify_failed [of prev r] Classify_resolved [of prev r]
  by (auto simp: settle_def Let_def dampNotification_def split: prod.splits if_splits)

lemma check_verdict_error:
  assumes "check_verdict sha errtext opts red timedOut res err = (oc, fp, msg)"
  shows "oc = OutcomeError \<longleftrightarrow> timedOut \<or> err \<noteq> None \<or> pv_Error res \<noteq> ''''"
  using assms by (auto simp: check_verdict_def split: if_splits)

lemma filtered_error [simp]: "pv_Error (filtered_result opts res err) = pv_Error res"
  by (auto simp: filtered_result_def split: prod.split)

definition check_failed :: "RetryState \<Rightarrow> bool" where
  "check_failed r \<longleftrightarrow> rl_timedOut r \<or> rl_err r \<noteq> None \<or> pv_Error (rl_res r) \<noteq> ''''"

lemma check_stack_events:
  assumes "check_stack glob sha errtext B codec opts W red st now prev s = (s', item, ev, red', lg)"
  shows "it_Outcome item = OutcomeError \<longleftrightarrow> check_failed (retry_loop opts W (retry_start red))"
    and "ev = EventCheckFailed \<longleftrightarrow> it_Outcome item = OutcomeError"
    and "ev = EventCheckFailed \<Longrightarrow> it_NotifyEvent item = EventCheckFailed"
    and "it_NotifyEvent item = EventDriftResolved \<or> ev = EventDriftResolved \<Longrightarrow> it_Outcome item = OutcomeNoDrift"
proof -
  let ?r = "retry_loop opts W (retry_start red)"
  let ?res = "filtered_result opts (rl_res ?r) (rl_err ?r)"
  obtain oc fp msg where v: "check_verdict sha errtext opts (rl_redactor ?r) (rl_timedOut ?r) ?res (rl_err ?r) = (oc, fp, msg)"
    by (metis prod_cases3)
  let ?result = "\<lparr>dr_Project = st_Project st, dr_Stack = st_Name st, dr_Outcome = oc, dr_Fingerprint = fp,
                    dr_CheckedAt = now, dr_ErrorMessage = msg\<rparr>"
  obtain e n x where st: "settle (do_BootstrapMode opts) (do_RenotifyAfter opts) prev ?result = (e, n, x)"
    by (metis prod_cases3)
  let ?perm = "matchPermanentSuppression glob (do_PermanentSuppressions opts) (stack_Ref st) now"
  from assms have facts: "it_Outcome item = oc"
    "ev = (if ?perm \<noteq> None \<and> e \<noteq> EventCheckFailed then EventNone else e)"
    "it_NotifyEvent item = (if ?perm \<noteq> None \<and> e \<noteq> EventCheckFailed then EventNone else n)"
    by (auto simp: check_stack_def Let_def v st)
  have oc: "oc = OutcomeError \<longleftrightarrow> check_failed ?r"
    using check_verdict_error [OF v] by (simp add: check_failed_def)
  note sf = settle_failed [OF st, simplified]
  show "it_Outcome item = OutcomeError \<longleftrightarrow> check_failed ?r" using facts oc by simp
  show "ev = EventCheckFailed \<longleftrightarrow> it_Outcome item = OutcomeError" using facts sf(1) by auto
  show "ev = EventCheckFailed \<Longrightarrow> it_NotifyEvent item = EventCheckFailed" using facts sf(2) by (auto split: if_splits)
  show "it_NotifyEvent item = EventDriftResolved \<or> ev = EventDriftResolved \<Longrightarrow> it_Outcome item = OutcomeNoDrift"
    using facts sf(3,4) by (auto split: if_splits)
qed


text \<open>A bucket in memory, an engine that fails, and a stack, for concrete runs.\<close>

definition mem_store :: "((string \<times> 'c) list, 'c) Store" where
  "mem_store =
     \<lparr>s_Get = (\<lambda>k s. (s, case map_of s k of None \<Rightarrow> Inl ErrNotFound
                       | Some c \<Rightarrow> Inr (c, \<lparr>md_ETag = ''v'', md_LastModified = 0, md_Size = 0\<rparr>))),
      s_Put = (\<lambda>k c s. (map_put k c s, Inr \<lparr>md_ETag = ''v'', md_LastModified = 0, md_Size = 0\<rparr>)),
      s_PutIfMatch = (\<lambda>k c m s. (s, Inl ErrPreconditionFailed)),
      s_Delete = (\<lambda>k s. (filter (\<lambda>p. fst p \<noteq> k) s, None)),
      s_List = (\<lambda>p s. (s, Inr (filter (\<lambda>k. HasPrefix k p) (map fst s))))\<rparr>"

definition sample_options :: DriftOptions where
  "sample_options =
     \<lparr>do_Decls = [], do_Filter = \<lparr>fl_PathPatterns = [], fl_StackPatterns = []\<rparr>, do_IncludePatterns = [], do_ExcludePatterns = [],
      do_FreshnessWindow = 0, do_BootstrapMode = ''baseline'', do_RenotifyAfter = 0, do_PerStackTimeout = 0,
      do_hasResolver = False, do_hasRebinder = False, do_hasStateStore = True, do_hasSuppressionStore = True,
      do_RetryOnTransientError = 0, do_RetryBackoff = 0, do_Classification = None, do_PermanentSuppressions = []\<rparr>"

definition failing_engine :: DriftWorld where
  "failing_engine =
     \<lparr>dw_auth = (\<lambda>_ _. AuthFail ''no credentials'' False), dw_check = (\<lambda>_ _. (no_result, Some ''engine crashed'', False)),
      dw_cancelled = (\<lambda>_. False), dw_wait = (\<lambda>_ _. True)\<rparr>"

definition sample_drift_stack :: Stack where
  "sample_drift_stack = \<lparr>st_Project = ''app'', st_Path = ''infra/app'', st_Name = ''prod'', st_Env = ''prod''\<rparr>"

definition sample_codec :: "DriftState DriftCodec" where
  "sample_codec = \<lparr>dc_state_enc = Some, dc_state_dec = Some, dc_sup_dec = (\<lambda>_. None)\<rparr>"

lemma failing_run:
  "retry_loop sample_options failing_engine (retry_start New_redactor)
     = (retry_start New_redactor)\<lparr>rl_err := Some ''engine crashed'', rl_log := [Check_stack 0]\<rparr>"
  by (subst retry_loop.simps)
    (simp add: attempt_def resolve_step_def check_step_def sample_options_def failing_engine_def retry_start_def Let_def
      failureText_def no_result_def)


subsection \<open>Damping\<close>

text \<open>The times of the drift alerts that go to the channels over successive checks of one stack.\<close>

fun alerts :: "string \<Rightarrow> go_duration \<Rightarrow> DriftState \<Rightarrow> DriftResult list \<Rightarrow> go_time list" where
  "alerts mode renotify s [] = []"
| "alerts mode renotify s (r # rs) =
     (case settle mode renotify s r of
        (ev, notifyEv, s') \<Rightarrow>
          (if notifyEv = EventDriftDetected then [dr_CheckedAt r] else []) @ alerts mode renotify s' rs)"

text \<open>
  When alerts are due: at every check that finds drift, unless the last alert is less than the window ago.
\<close>

fun due :: "go_duration \<Rightarrow> go_time option \<Rightarrow> DriftResult list \<Rightarrow> go_time list" where
  "due window last_alert [] = []"
| "due window last_alert (r # rs) =
     (if dr_Outcome r = OutcomeDriftDetected
         \<and> (case last_alert of None \<Rightarrow> True | Some t \<Rightarrow> window \<le> dr_CheckedAt r - t)
      then dr_CheckedAt r # due window (Some (dr_CheckedAt r)) rs
      else due window last_alert rs)"

lemma time_Sub_less: "0 < d \<Longrightarrow> d \<le> maxDuration \<Longrightarrow> time_Sub t u < d \<longleftrightarrow> t - u < d"
  by (auto simp: time_Sub_def maxDuration_def minDuration_def)

definition last_alert :: "DriftState \<Rightarrow> go_time option" where
  "last_alert s = (if IsZero (ds_LastNotifiedAt s) then None else Some (ds_LastNotifiedAt s))"

lemma Classify_alert:
  assumes "checked r" and "Classify s r = (ev, s')"
  shows "ev = EventDriftDetected \<or> ev = EventDriftOngoing \<longleftrightarrow> dr_Outcome r = OutcomeDriftDetected"
    and "ds_LastNotifiedAt s' = ds_LastNotifiedAt s"
  using assms by (auto simp: Classify_def Let_def checked_def split: if_splits)

lemma settle_alert:
  assumes "mode \<noteq> ''baseline''" and "0 < d" and "d \<le> maxDuration" and "checked r"
    and "settle mode d s r = (ev, notifyEv, s')"
  shows "notifyEv = EventDriftDetected \<longleftrightarrow> dr_Outcome r = OutcomeDriftDetected
           \<and> (case last_alert s of None \<Rightarrow> True | Some t \<Rightarrow> d \<le> dr_CheckedAt r - t)"
    and "last_alert s' = (if notifyEv = EventDriftDetected then Some (dr_CheckedAt r) else last_alert s)"
proof -
  obtain e x where C: "Classify s r = (e, x)" by fastforce
  obtain n b where D: "dampNotification s e (dr_CheckedAt r) d = (n, b)" by fastforce
  have S: "ev = e" "notifyEv = n" "s' = (if b then x\<lparr>ds_LastNotifiedAt := dr_CheckedAt r\<rparr> else x)"
    using assms(1,5) by (auto simp: settle_def C D Let_def)
  note ca = Classify_alert [OF assms(4) C]
  have b: "n = EventDriftDetected \<longleftrightarrow> b" and
    n: "b \<longleftrightarrow> (e = EventDriftDetected \<or> e = EventDriftOngoing)
          \<and> (case last_alert s of None \<Rightarrow> True | Some t \<Rightarrow> d \<le> dr_CheckedAt r - t)"
    using D assms(2)
    by (auto simp: dampNotification_def last_alert_def time_Sub_less [OF assms(2,3)]
        linorder_not_less [symmetric] simp del: linorder_not_less split: if_splits)
  show "notifyEv = EventDriftDetected \<longleftrightarrow> dr_Outcome r = OutcomeDriftDetected
           \<and> (case last_alert s of None \<Rightarrow> True | Some t \<Rightarrow> d \<le> dr_CheckedAt r - t)"
    using S b n ca(1) by simp
  show "last_alert s' = (if notifyEv = EventDriftDetected then Some (dr_CheckedAt r) else last_alert s)"
    using S b ca(2) assms(4) by (auto simp: last_alert_def checked_def)
qed

text \<open>
  C18. With damping on, the channels get a drift alert at exactly the checks at which one is due: the
  check finds drift and the last alert is at least the configured window ago. This holds however the
  stack flaps between drifted and clean, whatever its fingerprints, and with failed checks
  in between; alerts are thus never closer than the window, and never held back longer than
  it takes to check again after the window.
\<close>

theorem alerts_exactly_when_due:
  assumes "mode \<noteq> ''baseline''" and "0 < d" and "d \<le> maxDuration" and "list_all checked rs"
  shows "alerts mode d s rs = due d (last_alert s) rs"
  using assms(4)
proof (induction rs arbitrary: s)
  case (Cons r rs)
  obtain ev notifyEv s' where st: "settle mode d s r = (ev, notifyEv, s')" by (metis prod_cases3)
  from Cons.prems have "checked r" by simp
  note sa = settle_alert [OF assms(1-3) this st]
  from Cons sa show ?case by (simp add: st)
qed simp

theorem alerts_exactly_when_due_witness:
  "alerts ''alert_all'' 10 (first_state ''p'' ''s'')
     [sample_check OutcomeDriftDetected 1, sample_check OutcomeNoDrift 2, sample_check OutcomeDriftDetected 5,
      sample_check OutcomeError 8, sample_check OutcomeDriftDetected 11, sample_check OutcomeDriftDetected 12]
   = [1, 11]"
  using alerts_exactly_when_due [of "''alert_all''" 10 "[sample_check OutcomeDriftDetected 1, sample_check OutcomeNoDrift 2,
      sample_check OutcomeDriftDetected 5, sample_check OutcomeError 8, sample_check OutcomeDriftDetected 11,
      sample_check OutcomeDriftDetected 12]" "first_state ''p'' ''s''"]
  by (simp add: sample_check_def checked_def IsZero_def zero_time_def second_def maxDuration_def last_alert_def
      first_state_def outcome_names)

text \<open>
  A permanent suppression silences the alert but not the record that one went out: when it ends within
  the damping window, the alert of a stack that never alerted is damped as a repetition.
\<close>

lemma suppressed_alert_recorded:
  assumes "mode \<noteq> ''baseline''" and "0 < d" and "d \<le> maxDuration" and "checked r" and "checked r'"
    and "dr_Outcome r = OutcomeDriftDetected" and "dr_CheckedAt r' - dr_CheckedAt r < d"
    and "settle mode d (first_state p st) r = (ev, notifyEv, s')" and "settle mode d s' r' = (ev', notifyEv', s'')"
  shows "notifyEv = EventDriftDetected \<and> notifyEv' \<noteq> EventDriftDetected"
proof -
  have "last_alert (first_state p st) = None" by (simp add: last_alert_def first_state_def IsZero_def)
  with settle_alert [OF assms(1-4) assms(8)] assms(6)
  have 1: "notifyEv = EventDriftDetected" "last_alert s' = Some (dr_CheckedAt r)" by simp_all
  with settle_alert(1) [OF assms(1-3) assms(5) assms(9)] assms(7) show ?thesis by simp
qed

text \<open>
  The silent baseline applies to the first check only, even if that check fails: drift that was there
  before the first run then alerts on the second.
\<close>

lemma baseline_lost_to_failed_check:
  assumes "checked r" and "checked r'" and "dr_Outcome r = OutcomeError" and "dr_Outcome r' = OutcomeDriftDetected"
    and "settle ''baseline'' 0 (first_state p st) r = (ev, notifyEv, s')"
    and "settle ''baseline'' 0 s' r' = (ev', notifyEv', s'')"
  shows "notifyEv' = EventDriftDetected"
  using assms by (auto simp: settle_def Classify_def first_state_def Let_def dampNotification_def checked_def
      IsZero_def outcome_names event_names split: prod.splits)

end
