(* ===== verification/PlainStore.thy ===== *)
theory PlainStore
  imports FileStore
begin

text \<open>
  The contract of a blob store for clients that own their keys: what a read returns after a write or a
  delete, and that a failed call loses nothing. Drift state and notification markers rely on it.
  It is stated for one process at a time; \<open>cas_store\<close> is the contract under concurrency.
\<close>

locale plain_store =
  fixes B :: "('s, 'c) Store"
    and cont :: "'s \<Rightarrow> string \<Rightarrow> 'c option"
    and keys_ok :: "string \<Rightarrow> bool"
  assumes put_ok: "keys_ok k \<Longrightarrow> s_Put B k c s = (s', Inr md) \<Longrightarrow> cont s' = (cont s)(k \<mapsto> c)"
    and put_err: "keys_ok k \<Longrightarrow> s_Put B k c s = (s', Inl e) \<Longrightarrow> cont s' = cont s"
    and get_cont: "keys_ok k \<Longrightarrow> s_Get B k s = (s', r) \<Longrightarrow> cont s' = cont s"
    and get_found: "keys_ok k \<Longrightarrow> s_Get B k s = (s', Inr (c, md)) \<Longrightarrow> cont s k = Some c"
    and get_missing: "keys_ok k \<Longrightarrow> s_Get B k s = (s', Inl ErrNotFound) \<Longrightarrow> cont s k = None"
    and delete_cont: "keys_ok k \<Longrightarrow> s_Delete B k s = (s', x) \<Longrightarrow>
        cont s' = cont s \<or> cont s' = (cont s)(k := None)"
    and delete_ok: "keys_ok k \<Longrightarrow> s_Delete B k s = (s', None) \<Longrightarrow> cont s' k = None"
    and list_cont: "s_List B p s = (s', y) \<Longrightarrow> cont s' = cont s"
begin

text \<open>A put is either done or leaves everything as it was.\<close>

lemma put_cases:
  assumes "keys_ok k" and "s_Put B k c s = (s', r)"
  obtains (ok) md where "r = Inr md" and "cont s' = (cont s)(k \<mapsto> c)"
    | (failed) e where "r = Inl e" and "cont s' = cont s"
  using assms put_ok put_err by (cases r) blast+

end

subsection \<open>The filesystem store\<close>

definition fs_cont :: "'b Disk \<Rightarrow> string \<Rightarrow> 'b list option" where
  "fs_cont d k = map_option f_data (map_of (d_files d) k)"

lemma fs_cont_files: "d_files d' = d_files d \<Longrightarrow> fs_cont d' = fs_cont d"
  by (simp add: fs_cont_def fun_eq_iff)

lemma fs_cont_begin [simp]: "fs_cont (begin_op d) = fs_cont d"
  by (rule fs_cont_files) (simp add: begin_op_def)

lemma fs_put_ok:
  assumes "canonical k" and "fs_Put sha k c d = (d', Inr md)"
  shows "fs_cont d' = (fs_cont d)(k \<mapsto> c)"
proof -
  from assms obtain flt where "writeAtomic sha flt (begin_op d) k c = (d', Inr md)"
    by (auto simp: fs_Put_def locked_def canonical_def Let_def split: if_splits)
  from writeAtomic_ok [OF this] have "map_of (d_files d') = (map_of (d_files d))(k \<mapsto> \<lparr>f_data = c, f_mtime = d_clock (begin_op d)\<rparr>)"
    by (simp add: begin_op_def)
  then show ?thesis by (auto simp: fs_cont_def fun_eq_iff)
qed

lemma fs_put_err: "fs_Put sha k c d = (d', Inl e) \<Longrightarrow> fs_cont d' = fs_cont d"
  unfolding fs_Put_def by (intro fs_cont_files, erule locked_failed) (rule writeAtomic_failed)

lemma fs_get_cont:
  assumes "canonical k" and "fs_Get sha k d = (d', r)"
  shows "fs_cont d' = fs_cont d"
    and "r = Inr (c, md) \<Longrightarrow> fs_cont d k = Some c" and "r = Inl ErrNotFound \<Longrightarrow> fs_cont d k = None"
proof -
  have files: "d_files (begin_op d) = d_files d" by (simp add: begin_op_def)
  from assms have d': "d' = begin_op d"
    by (auto simp: fs_Get_def fs_Get_with_def canonical_def Let_def split: sum.splits)
  then show "fs_cont d' = fs_cont d" by simp
  from assms show "r = Inr (c, md) \<Longrightarrow> fs_cont d k = Some c"
    by (auto simp: fs_Get_def fs_Get_with_def canonical_def Let_def Get_open_def Get_version_def fs_cont_def files
        split: sum.splits if_splits option.splits)
  from assms show "r = Inl ErrNotFound \<Longrightarrow> fs_cont d k = None"
    by (auto simp: fs_Get_def fs_Get_with_def canonical_def Let_def Get_open_def Get_version_def fs_cont_def files
        io_err_def versionForInfo_def readGeneration_def split: sum.splits if_splits option.splits)
qed

lemma fs_delete_cont:
  assumes "canonical k" and "fs_Delete sha k d = (d', x)"
  shows "fs_cont d' = fs_cont d \<or> fs_cont d' = (fs_cont d)(k := None)"
    and "x = None \<Longrightarrow> fs_cont d' k = None"
proof -
  have files: "d_files (begin_op d) = d_files d" by (simp add: begin_op_def)
  have rg: "removeGeneration sha flt e k = (e', y) \<Longrightarrow> d_files e' = d_files e" for flt e e' y
    by (auto simp: removeGeneration_def split: if_splits)
  have ro: "map_of (d_files e') = (map_of (d_files e))(k := None)" if "remove_object sha flt e k = Inr e'" for flt e e'
    using remove_object_Inr [OF that] by (auto simp: os_Remove_def fun_eq_iff split: if_splits)
  have "d_files d' = d_files d \<and> x \<noteq> None \<or> d_files d' = d_files d \<and> map_of (d_files d) k = None
      \<or> map_of (d_files d') = (map_of (d_files d))(k := None)"
    using assms
    by (auto simp: fs_Delete_def locked_def canonical_def Let_def files
        dest!: rg ro remove_object_missing split: prod.splits sum.splits if_splits)
  then show "fs_cont d' = fs_cont d \<or> fs_cont d' = (fs_cont d)(k := None)" "x = None \<Longrightarrow> fs_cont d' k = None"
    by (auto simp: fs_cont_def fun_eq_iff)
qed

interpretation pfs: plain_store "filesystem sha" fs_cont canonical
  for sha :: digest
proof
  fix k c s s' md e r x p y
  show "canonical k \<Longrightarrow> s_Put (filesystem sha) k c s = (s', Inr md) \<Longrightarrow> fs_cont s' = (fs_cont s)(k \<mapsto> c)"
    by (simp add: filesystem_def fs_put_ok)
  show "canonical k \<Longrightarrow> s_Put (filesystem sha) k c s = (s', Inl e) \<Longrightarrow> fs_cont s' = fs_cont s"
    by (simp add: filesystem_def fs_put_err)
  show "canonical k \<Longrightarrow> s_Get (filesystem sha) k s = (s', r) \<Longrightarrow> fs_cont s' = fs_cont s"
    using fs_get_cont(1) [of k sha s s' r] by (simp add: filesystem_def)
  show "canonical k \<Longrightarrow> s_Get (filesystem sha) k s = (s', Inr (c, md)) \<Longrightarrow> fs_cont s k = Some c"
    using fs_get_cont(2) [of k sha s s' "Inr (c, md)" c md] by (simp add: filesystem_def)
  show "canonical k \<Longrightarrow> s_Get (filesystem sha) k s = (s', Inl ErrNotFound) \<Longrightarrow> fs_cont s k = None"
    using fs_get_cont(3) [of k sha s s' "Inl ErrNotFound"] by (simp add: filesystem_def)
  show "canonical k \<Longrightarrow> s_Delete (filesystem sha) k s = (s', x) \<Longrightarrow>
      fs_cont s' = fs_cont s \<or> fs_cont s' = (fs_cont s)(k := None)"
    using fs_delete_cont(1) [of k sha s s' x] by (simp add: filesystem_def)
  show "canonical k \<Longrightarrow> s_Delete (filesystem sha) k s = (s', None) \<Longrightarrow> fs_cont s' k = None"
    using fs_delete_cont(2) [of k sha s s' None] by (simp add: filesystem_def)
  show "s_List (filesystem sha) p s = (s', y) \<Longrightarrow> fs_cont s' = fs_cont s"
    using list_state [of p s] by (auto simp: filesystem_def)
qed

end
