(* ===== verification/DriftPending.thy ===== *)
theory DriftPending
  imports DriftRun PlainStore
begin

text \<open>
  Delivery of drift events: \<open>internal/drift/notify.go\<close> and \<open>pending.go\<close> (payloads, undelivered markers,
  durable dispatch), \<open>internal/notify/dispatch.go\<close> and \<open>grouping.go\<close> (delivery to the channels), and
  the sequence in which \<open>cmd/reeve/drift.go\<close> calls them.

  A channel's \<open>Deliver\<close> is an argument: the outcome of the \<open>i\<close>-th payload offered to it. Channels run
  concurrently in Go and do not share state here, so their results are
  collected channel by channel. The PR part of a payload is not used by drift events.
  The JSON codec of a marker is a pair of parameters.
\<close>

subsection \<open>Payloads\<close>

record DriftPayload =
  dp_Project :: string
  dp_Stack :: string
  dp_Env :: string
  dp_Outcome :: string
  dp_Add :: nat
  dp_Change :: nat
  dp_Delete :: nat
  dp_Replace :: nat
  dp_PlanSummary :: string
  dp_Fingerprint :: string
  dp_Error :: string
  dp_RunID :: string

record Payload =
  pl_Event :: string
  pl_Drift :: "DriftPayload option"
  pl_Group :: "DriftPayload list"
  pl_GroupKey :: string

definition payloadFor :: "string \<Rightarrow> Item \<Rightarrow> string \<Rightarrow> Payload" where
  "payloadFor runID it ev =
     \<lparr>pl_Event = ev,
      pl_Drift = Some \<lparr>dp_Project = it_Project it, dp_Stack = it_Stack it, dp_Env = it_Env it, dp_Outcome = it_Outcome it,
        dp_Add = ct_Add (pv_Counts (it_Counts it)), dp_Change = ct_Change (pv_Counts (it_Counts it)),
        dp_Delete = ct_Delete (pv_Counts (it_Counts it)), dp_Replace = ct_Replace (pv_Counts (it_Counts it)),
        dp_PlanSummary = pv_PlanSummary (it_Counts it), dp_Fingerprint = it_Fingerprint it,
        dp_Error = it_Error it, dp_RunID = runID\<rparr>,
      pl_Group = [], pl_GroupKey = ''''\<rparr>"

definition NotifyPayloads :: "string \<Rightarrow> Item list \<Rightarrow> Payload list" where
  "NotifyPayloads runID items =
     concat (map (\<lambda>it.
       (if it_CheckRecovered it then [payloadFor runID it EventCheckRecovered] else [])
       @ (if it_NotifyEvent it = EventNone then [] else [payloadFor runID it (it_NotifyEvent it)])) items)"

subsection \<open>Undelivered markers\<close>

definition pendingPrefix :: string where "pendingPrefix = ''drift/pending-events''"

record pendingRecord =
  pr_Event :: string
  pr_Drift :: DriftPayload
  pr_RecordedAt :: go_time

definition pendingKey :: "string \<Rightarrow> string \<Rightarrow> string \<Rightarrow> string" where
  "pendingKey project stack event = pendingPrefix @ ''/'' @ project @ ''/'' @ stack @ ''/'' @ event @ ''.json''"

definition payload_key :: "Payload \<Rightarrow> DriftPayload \<Rightarrow> string" where
  "payload_key p d = pendingKey (dp_Project d) (dp_Stack d) (pl_Event p)"

definition pn_Save ::
  "('s, 'c) Store \<Rightarrow> (pendingRecord \<Rightarrow> 'c option) \<Rightarrow> go_time \<Rightarrow> Payload \<Rightarrow> 's \<Rightarrow> 's \<times> StateErr option" where
  "pn_Save B enc now p s =
     (case pl_Drift p of
        None \<Rightarrow> (s, None)
      | Some d \<Rightarrow>
          (case enc \<lparr>pr_Event = pl_Event p, pr_Drift = d, pr_RecordedAt = now\<rparr> of
             None \<Rightarrow> (s, Some StateEncode)
           | Some c \<Rightarrow>
               (case s_Put B (payload_key p d) c s of
                  (s', Inl e) \<Rightarrow> (s', Some (StateBlob e))
                | (s', Inr _) \<Rightarrow> (s', None))))"

definition pn_Clear :: "('s, 'c) Store \<Rightarrow> Payload \<Rightarrow> 's \<Rightarrow> 's \<times> BlobErr option" where
  "pn_Clear B p s =
     (case pl_Drift p of None \<Rightarrow> (s, None) | Some d \<Rightarrow> s_Delete B (payload_key p d) s)"

datatype PendingErr = ListErr BlobErr | ReadErr string BlobErr | DecodeErr string

fun pending_walk ::
  "('s, 'c) Store \<Rightarrow> ('c \<Rightarrow> pendingRecord option) \<Rightarrow> string list \<Rightarrow> 's \<Rightarrow> 's \<times> Payload list \<times> PendingErr list" where
  "pending_walk B dec [] s = (s, [], [])"
| "pending_walk B dec (k # ks) s =
     (if \<not> HasSuffix k ''.json'' then pending_walk B dec ks s
      else case s_Get B k s of
             (s1, Inl e) \<Rightarrow> (case pending_walk B dec ks s1 of (s2, out, errs) \<Rightarrow> (s2, out, ReadErr k e # errs))
           | (s1, Inr (c, _)) \<Rightarrow>
               (case pending_walk B dec ks s1 of (s2, out, errs) \<Rightarrow>
                  (case dec c of
                     None \<Rightarrow> (s2, out, DecodeErr k # errs)
                   | Some rec \<Rightarrow>
                       (s2, \<lparr>pl_Event = pr_Event rec, pl_Drift = Some (pr_Drift rec), pl_Group = [], pl_GroupKey = ''''\<rparr> # out, errs))))"

definition pn_List ::
  "('s, 'c) Store \<Rightarrow> ('c \<Rightarrow> pendingRecord option) \<Rightarrow> 's \<Rightarrow> 's \<times> Payload list \<times> PendingErr list" where
  "pn_List B dec s =
     (case s_List B pendingPrefix s of
        (s', Inl e) \<Rightarrow> (s', [], [ListErr e])
      | (s', Inr ks) \<Rightarrow> pending_walk B dec ks s')"

definition drift_key :: "Payload \<Rightarrow> string option" where
  "drift_key p = map_option (payload_key p) (pl_Drift p)"

definition MergePending :: "Payload list \<Rightarrow> Payload list \<Rightarrow> Payload list" where
  "MergePending pending current =
     (if pending = [] then current
      else let seen = List.map_filter drift_key current in
           filter (\<lambda>p. case drift_key p of None \<Rightarrow> False | Some k \<Rightarrow> k \<notin> set seen) pending @ current)"

subsection \<open>Delivery to the channels\<close>

definition GroupingNone :: string where "GroupingNone = ''none''"
definition GroupingByEnvironment :: string where "GroupingByEnvironment = ''by_environment''"

definition IsValidGroupingMode :: "string \<Rightarrow> bool" where
  "IsValidGroupingMode mode \<longleftrightarrow> mode = '''' \<or> mode \<in> {GroupingNone, GroupingByEnvironment}"

definition groupableEvent :: "string \<Rightarrow> bool" where
  "groupableEvent e \<longleftrightarrow> e \<in> {EventDriftDetected, EventDriftOngoing, EventDriftResolved}"

text \<open>The loop of \<open>GroupPayloads\<close>: \<open>index\<close> maps a group key to its position in \<open>out\<close>.\<close>

fun group_payloads :: "Payload list \<Rightarrow> (string \<times> nat) list \<Rightarrow> Payload list \<Rightarrow> Payload list" where
  "group_payloads out index [] = out"
| "group_payloads out index (p # ps) =
     (case pl_Drift p of
        None \<Rightarrow> group_payloads (out @ [p]) index ps
      | Some d \<Rightarrow>
          if \<not> groupableEvent (pl_Event p) then group_payloads (out @ [p]) index ps
          else let key = pl_Event p @ [CHR 0x00] @ dp_Env d in
               case map_of index key of
                 Some i \<Rightarrow> group_payloads (out[i := (out ! i)\<lparr>pl_Group := pl_Group (out ! i) @ [d]\<rparr>]) index ps
               | None \<Rightarrow> group_payloads (out @ [p\<lparr>pl_GroupKey := dp_Env d, pl_Group := [d]\<rparr>])
                           (map_put key (length out) index) ps)"

definition GroupPayloads :: "Payload list \<Rightarrow> string \<Rightarrow> Payload list" where
  "GroupPayloads payloads mode =
     (if mode = '''' \<or> mode = GroupingNone then payloads else group_payloads [] [] payloads)"

datatype DeliverRes = Delivered | DeliveryFailed string | DeliveryTimedOut

text \<open>
  A channel: its subscription, its grouping mode if it implements \<open>Grouper\<close>, what becomes of the
  \<open>i\<close>-th payload offered to it, and whether the run's context is cancelled by then.
\<close>

record Channel =
  ch_Name :: string
  ch_Subscribes :: "string list"
  ch_Grouping :: "string option"
  ch_Deliver :: "nat \<Rightarrow> Payload \<Rightarrow> DeliverRes"
  ch_Cancelled :: "nat \<Rightarrow> bool"

definition subscribed :: "string list \<Rightarrow> string \<Rightarrow> bool" where
  "subscribed subs ev \<longleftrightarrow> list_ex (\<lambda>w. w = ev) subs"

datatype DispatchErr = CtxErr string | DeliverErr string string string | TimeoutMsg string string

fun channel_run :: "Channel \<Rightarrow> nat \<Rightarrow> Payload list \<Rightarrow> Payload list \<times> DispatchErr list" where
  "channel_run ch i [] = ([], [])"
| "channel_run ch i (p # ps) =
     (if \<not> subscribed (ch_Subscribes ch) (pl_Event p) then channel_run ch i ps
      else if ch_Cancelled ch i then ([], [CtxErr (ch_Name ch)])
      else case ch_Deliver ch i p of
             DeliveryTimedOut \<Rightarrow> ([], [TimeoutMsg (ch_Name ch) (pl_Event p)])
           | DeliveryFailed e \<Rightarrow>
               (case channel_run ch (Suc i) ps of (ok, errs) \<Rightarrow> (ok, DeliverErr (ch_Name ch) (pl_Event p) e # errs))
           | Delivered \<Rightarrow> (case channel_run ch (Suc i) ps of (ok, errs) \<Rightarrow> (p # ok, errs)))"

definition channel_payloads :: "Channel \<Rightarrow> Payload list \<Rightarrow> Payload list" where
  "channel_payloads ch payloads =
     (case ch_Grouping ch of None \<Rightarrow> payloads | Some mode \<Rightarrow> GroupPayloads payloads mode)"

definition Dispatch :: "Channel list \<Rightarrow> Payload list \<Rightarrow> Payload list list \<times> DispatchErr list" where
  "Dispatch channels payloads =
     (let rs = map (\<lambda>ch. channel_run ch 0 (channel_payloads ch payloads)) channels
      in (map fst rs, concat (map snd rs)))"

subsection \<open>Durable dispatch\<close>

datatype DurableErr = PersistErr Payload StateErr | ClearErr Payload BlobErr | ChannelErr DispatchErr

fun save_all ::
  "('s, 'c) Store \<Rightarrow> (pendingRecord \<Rightarrow> 'c option) \<Rightarrow> go_time \<Rightarrow> Payload list \<Rightarrow> 's \<Rightarrow> 's \<times> DurableErr list" where
  "save_all B enc now [] s = (s, [])"
| "save_all B enc now (p # ps) s =
     (case pn_Save B enc now p s of
        (s1, err) \<Rightarrow> (case save_all B enc now ps s1 of
           (s2, errs) \<Rightarrow> (s2, (case err of None \<Rightarrow> errs | Some e \<Rightarrow> PersistErr p e # errs))))"

fun clear_all :: "('s, 'c) Store \<Rightarrow> Payload list \<Rightarrow> 's \<Rightarrow> 's \<times> DurableErr list" where
  "clear_all B [] s = (s, [])"
| "clear_all B (p # ps) s =
     (case pn_Clear B p s of
        (s1, err) \<Rightarrow> (case clear_all B ps s1 of
           (s2, errs) \<Rightarrow> (s2, (case err of None \<Rightarrow> errs | Some e \<Rightarrow> ClearErr p e # errs))))"

text \<open>The \<open>pending\<close> store is always given by the drift command. The result has what each channel took.\<close>

definition DispatchDurable ::
  "('s, 'c) Store \<Rightarrow> (pendingRecord \<Rightarrow> 'c option) \<Rightarrow> go_time \<Rightarrow> Channel list \<Rightarrow> Payload list \<Rightarrow> 's
     \<Rightarrow> 's \<times> DurableErr list \<times> Payload list list" where
  "DispatchDurable B enc now channels payloads s =
     (case save_all B enc now payloads s of
        (s1, errs) \<Rightarrow>
          (case Dispatch channels payloads of
             (taken, derrs) \<Rightarrow>
               if derrs = []
               then (case clear_all B payloads s1 of (s2, cerrs) \<Rightarrow> (s2, errs @ cerrs, taken))
               else (s1, errs @ map ChannelErr derrs, taken)))"

text \<open>The end of the drift command: leftovers are listed, merged and dispatched with the run's own.\<close>

definition deliver_run ::
  "('s, 'c) Store \<Rightarrow> (pendingRecord \<Rightarrow> 'c option) \<Rightarrow> ('c \<Rightarrow> pendingRecord option) \<Rightarrow> go_time \<Rightarrow> Channel list
     \<Rightarrow> string \<Rightarrow> Item list \<Rightarrow> 's \<Rightarrow> 's \<times> DurableErr list \<times> Payload list list" where
  "deliver_run B enc dec now channels runID items s =
     (if channels = [] then (s, [], [])
      else case pn_List B dec s of
             (s1, leftover, _) \<Rightarrow>
               DispatchDurable B enc now channels (MergePending leftover (NotifyPayloads runID items)) s1)"

subsection \<open>What the channels get\<close>

text \<open>A delivery carries a payload's news: the same event, with its stack as the subject or in the group.\<close>

definition covers_payload :: "Payload \<Rightarrow> Payload \<Rightarrow> bool" where
  "covers_payload q p \<longleftrightarrow>
     pl_Event q = pl_Event p
     \<and> (case pl_Drift p of None \<Rightarrow> pl_Drift q = None | Some d \<Rightarrow> pl_Drift q = Some d \<or> d \<in> set (pl_Group q))"

definition extends_payload :: "Payload \<Rightarrow> Payload \<Rightarrow> bool" where
  "extends_payload q p \<longleftrightarrow>
     pl_Event q = pl_Event p \<and> pl_Drift q = pl_Drift p \<and> set (pl_Group p) \<subseteq> set (pl_Group q)"

lemma extends_refl [simp]: "extends_payload q q"
  by (simp add: extends_payload_def)

lemma extends_trans: "extends_payload q p \<Longrightarrow> extends_payload p r \<Longrightarrow> extends_payload q r"
  by (auto simp: extends_payload_def)

lemma covers_self [simp]: "covers_payload p p"
  by (simp add: covers_payload_def split: option.split)

lemma extends_covers: "extends_payload q r \<Longrightarrow> covers_payload r p \<Longrightarrow> covers_payload q p"
  by (auto simp: extends_payload_def covers_payload_def split: option.splits)

definition index_ok :: "Payload list \<Rightarrow> (string \<times> nat) list \<Rightarrow> bool" where
  "index_ok out index \<longleftrightarrow>
     (\<forall>key i. map_of index key = Some i \<longrightarrow>
        i < length out \<and> groupableEvent (pl_Event (out ! i)) \<and> (\<exists>env. key = pl_Event (out ! i) @ [CHR 0x00] @ env))"

lemma groupable_no_nul: "groupableEvent e \<Longrightarrow> CHR 0x00 \<notin> set e"
  by (auto simp: groupableEvent_def event_names)

lemma group_key_event:
  assumes "index_ok out index" and "groupableEvent e" and "map_of index (e @ [CHR 0x00] @ env) = Some i"
  shows "i < length out \<and> pl_Event (out ! i) = e"
proof -
  from assms(1,3) obtain env' where i: "i < length out" "groupableEvent (pl_Event (out ! i))"
    "e @ [CHR 0x00] @ env = pl_Event (out ! i) @ [CHR 0x00] @ env'" unfolding index_ok_def by blast
  with sep_inject [of "CHR 0x00" e "pl_Event (out ! i)" env env'] groupable_no_nul assms(2) show ?thesis by simp
qed

lemma extends_update:
  assumes "i < length out" and "q \<in> set out"
  shows "\<exists>q' \<in> set (out[i := (out ! i)\<lparr>pl_Group := pl_Group (out ! i) @ [d]\<rparr>]). extends_payload q' q"
proof -
  from assms(2) obtain j where j: "j < length out" "q = out ! j" by (auto simp: in_set_conv_nth)
  show ?thesis
  proof (cases "j = i")
    case True
    with j assms(1) show ?thesis
      by (intro bexI [of _ "(out ! i)\<lparr>pl_Group := pl_Group (out ! i) @ [d]\<rparr>"]) (auto simp: extends_payload_def set_update_memI)
  next
    case False
    with j have "q \<in> set (out[i := x])" for x by (metis length_list_update nth_list_update_neq nth_mem)
    then show ?thesis by (intro bexI [of _ q]) auto
  qed
qed

lemma index_ok_update:
  "index_ok out index \<Longrightarrow> index_ok (out[i := (out ! i)\<lparr>pl_Group := g\<rparr>]) index"
  by (cases "i < length out") (auto simp: index_ok_def nth_list_update list_update_beyond)

lemma index_ok_snoc: "index_ok out index \<Longrightarrow> index_ok (out @ [p]) index"
  unfolding index_ok_def by (auto simp: nth_append dest: less_SucI)

lemma index_ok_new:
  assumes "index_ok out index" and "groupableEvent (pl_Event p)"
  shows "index_ok (out @ [p]) (map_put (pl_Event p @ [CHR 0x00] @ env) (length out) index)"
  using index_ok_snoc [OF assms(1), of p] assms(2) unfolding index_ok_def by (auto simp: nth_append)

lemma group_payloads_covers:
  assumes "index_ok out index"
  shows "(\<forall>q \<in> set out. \<exists>q' \<in> set (group_payloads out index ps). extends_payload q' q)
       \<and> (\<forall>p \<in> set ps. \<exists>q' \<in> set (group_payloads out index ps). covers_payload q' p)"
  using assms
proof (induction ps arbitrary: out index)
  case Nil
  then show ?case by (auto intro: extends_refl)
next
  case (Cons p ps)
  let ?R = "group_payloads out index (p # ps)"
  have step: ?case
    if R: "?R = group_payloads out' index' ps" and ok: "index_ok out' index'"
      and ext: "\<forall>q \<in> set out. \<exists>q' \<in> set out'. extends_payload q' q"
      and cov: "\<exists>q' \<in> set out'. covers_payload q' p" for out' index'
    using Cons.IH [OF ok] ext cov unfolding R
    by (metis extends_covers extends_trans set_ConsD)
  show ?case
  proof (cases "pl_Drift p")
    case None
    then show ?thesis
      by (intro step [of "out @ [p]" index]) (auto simp: index_ok_snoc [OF Cons.prems] intro: extends_refl)
  next
    case (Some d)
    show ?thesis
    proof (cases "groupableEvent (pl_Event p)")
      case False
      with Some show ?thesis
        by (intro step [of "out @ [p]" index]) (auto simp: index_ok_snoc [OF Cons.prems] intro: extends_refl)
    next
      case True
      let ?key = "pl_Event p @ [CHR 0x00] @ dp_Env d"
      show ?thesis
      proof (cases "map_of index ?key")
        case None
        let ?q = "p\<lparr>pl_GroupKey := dp_Env d, pl_Group := [d]\<rparr>"
        have "index_ok (out @ [?q]) (map_put ?key (length out) index)"
          using index_ok_new [OF Cons.prems, of ?q "dp_Env d"] True by simp
        moreover have "covers_payload ?q p" using Some by (simp add: covers_payload_def)
        ultimately show ?thesis using Some True None
          by (intro step [of "out @ [?q]" "map_put ?key (length out) index"]) (auto intro: extends_refl)
      next
        case (Some i)
        note at = group_key_event [OF Cons.prems True Some]
        let ?q = "(out ! i)\<lparr>pl_Group := pl_Group (out ! i) @ [d]\<rparr>"
        have "covers_payload ?q p" using at \<open>pl_Drift p = Some d\<close> by (simp add: covers_payload_def)
        moreover have "?q \<in> set (out[i := ?q])" using at by (simp add: set_update_memI)
        ultimately have "\<exists>q' \<in> set (out[i := ?q]). covers_payload q' p" by blast
        then show ?thesis using \<open>pl_Drift p = Some d\<close> True Some at extends_update
          by (intro step [of "out[i := ?q]" index]) (auto simp: index_ok_update [OF Cons.prems])
      qed
    qed
  qed
qed

lemma channel_payloads_cover:
  assumes "p \<in> set payloads"
  shows "\<exists>q \<in> set (channel_payloads ch payloads). covers_payload q p"
proof -
  have "\<exists>q \<in> set (group_payloads [] [] payloads). covers_payload q p"
    using group_payloads_covers [of "[]" "[]" payloads] assms by (simp add: index_ok_def)
  with assms show ?thesis
    by (auto simp: channel_payloads_def GroupPayloads_def split: option.split intro: covers_self)
qed

lemma channel_run_clean: "channel_run ch i ps = (ok, []) \<Longrightarrow> ok = filter (\<lambda>p. subscribed (ch_Subscribes ch) (pl_Event p)) ps"
  by (induction ch i ps arbitrary: ok rule: channel_run.induct)
    (auto split: if_splits DeliverRes.splits prod.splits)

lemma clean_dispatch_reaches_all:
  assumes "Dispatch channels payloads = (taken, [])" and "p \<in> set payloads" and "i < length channels"
    and "subscribed (ch_Subscribes (channels ! i)) (pl_Event p)"
  shows "\<exists>q \<in> set (taken ! i). covers_payload q p"
proof -
  let ?ch = "channels ! i"
  obtain ok errs where r: "channel_run ?ch 0 (channel_payloads ?ch payloads) = (ok, errs)" by fastforce
  from assms(1,3) have "taken ! i = fst (channel_run ?ch 0 (channel_payloads ?ch payloads))"
    "snd (channel_run ?ch 0 (channel_payloads ?ch payloads)) = []"
    by (auto simp: Dispatch_def Let_def)
  with r have "taken ! i = ok" "errs = []" by simp_all
  with channel_run_clean r have ok: "taken ! i = filter (\<lambda>p. subscribed (ch_Subscribes ?ch) (pl_Event p)) (channel_payloads ?ch payloads)"
    by metis
  from channel_payloads_cover [OF assms(2)] obtain q where "q \<in> set (channel_payloads ?ch payloads)" "covers_payload q p" by blast
  with ok assms(4) show ?thesis by (intro bexI [of _ q]) (auto simp: covers_payload_def)
qed

subsection \<open>At least once\<close>

text \<open>The marker at a key records a payload of the batch with that key.\<close>

definition marked ::
  "(pendingRecord \<Rightarrow> 'c option) \<Rightarrow> Payload list \<Rightarrow> (string \<Rightarrow> 'c option) \<Rightarrow> string \<Rightarrow> bool" where
  "marked enc payloads st k \<longleftrightarrow>
     (\<exists>p \<in> set payloads. \<exists>d t. pl_Drift p = Some d \<and> payload_key p d = k
        \<and> st k \<noteq> None \<and> st k = enc \<lparr>pr_Event = pl_Event p, pr_Drift = d, pr_RecordedAt = t\<rparr>)"

definition keys_good :: "(string \<Rightarrow> bool) \<Rightarrow> Payload list \<Rightarrow> bool" where
  "keys_good ok payloads \<longleftrightarrow> (\<forall>p \<in> set payloads. \<forall>d. pl_Drift p = Some d \<longrightarrow> ok (payload_key p d))"

lemma marked_mono: "marked enc ps st k \<Longrightarrow> set ps \<subseteq> set qs \<Longrightarrow> marked enc qs st k"
  unfolding marked_def by blast

context plain_store
begin

lemma save_one:
  assumes "pl_Drift p = Some d" and "keys_ok (payload_key p d)" and "pn_Save B enc now p s = (s', err)"
  shows "(err = None \<longrightarrow> marked enc [p] (cont s') (payload_key p d))
       \<and> (\<forall>k. k \<noteq> payload_key p d \<longrightarrow> cont s' k = cont s k)
       \<and> (err \<noteq> None \<longrightarrow> cont s' = cont s)"
proof (cases "enc \<lparr>pr_Event = pl_Event p, pr_Drift = d, pr_RecordedAt = now\<rparr>")
  case None
  with assms show ?thesis by (auto simp: pn_Save_def)
next
  case (Some c)
  obtain s1 r where put: "s_Put B (payload_key p d) c s = (s1, r)" by fastforce
  from assms(2) put show ?thesis
  proof (cases rule: put_cases)
    case (ok md)
    with assms Some put show ?thesis by (auto simp: pn_Save_def marked_def intro!: exI [of _ now])
  next
    case (failed e)
    with assms Some put show ?thesis by (auto simp: pn_Save_def)
  qed
qed

lemma save_all_marks:
  assumes "save_all B enc now ps s = (s', errs)" and "keys_good keys_ok ps"
  shows "(\<forall>k. marked enc qs (cont s) k \<longrightarrow> marked enc (qs @ ps) (cont s') k)
       \<and> (\<forall>p \<in> set ps. \<forall>d. pl_Drift p = Some d \<longrightarrow>
            marked enc (qs @ ps) (cont s') (payload_key p d) \<or> (\<exists>e. PersistErr p e \<in> set errs))"
  using assms
proof (induction ps arbitrary: s errs qs)
  case (Cons p ps)
  obtain s1 err where 1: "pn_Save B enc now p s = (s1, err)" by fastforce
  obtain errs1 where 2: "save_all B enc now ps s1 = (s', errs1)"
    and e: "errs = (case err of None \<Rightarrow> errs1 | Some x \<Rightarrow> PersistErr p x # errs1)"
    using Cons.prems(1) 1 by (auto split: prod.splits)
  have good: "keys_good keys_ok ps" using Cons.prems(2) by (simp add: keys_good_def)
  note IH = Cons.IH [OF 2 good, of "qs @ [p]"]
  have errs1: "set errs1 \<subseteq> set errs" using e by (cases err) auto
  show ?case
  proof (cases "pl_Drift p")
    case None
    then have "s1 = s" "err = None" using 1 by (auto simp: pn_Save_def)
    moreover have "marked enc qs (cont s) k \<Longrightarrow> marked enc (qs @ [p]) (cont s) k" for k
      by (rule marked_mono) auto
    ultimately show ?thesis using IH None errs1 by auto blast+
  next
    case (Some d)
    with Cons.prems(2) have "keys_ok (payload_key p d)" by (simp add: keys_good_def)
    note sv = save_one [OF Some this 1]
    have keep: "marked enc (qs @ [p]) (cont s1) k" if "marked enc qs (cont s) k" for k
    proof (cases "k = payload_key p d \<and> err = None")
      case True
      with sv show ?thesis by (auto intro: marked_mono)
    next
      case False
      with sv have "cont s1 k = cont s k" by auto
      with that have "marked enc qs (cont s1) k" by (simp add: marked_def)
      then show ?thesis by (rule marked_mono) auto
    qed
    have mine: "marked enc (qs @ [p]) (cont s1) (payload_key p d) \<or> (\<exists>x. err = Some x)"
      using sv by (cases err) (auto intro: marked_mono)
    have "marked enc (qs @ p # ps) (cont s') (payload_key p d) \<or> (\<exists>x. PersistErr p x \<in> set errs)"
      using mine IH e by (auto split: option.splits)
    moreover have "\<forall>k. marked enc qs (cont s) k \<longrightarrow> marked enc (qs @ p # ps) (cont s') k"
      using keep IH by auto
    moreover have "\<forall>q \<in> set ps. \<forall>d. pl_Drift q = Some d \<longrightarrow>
        marked enc (qs @ p # ps) (cont s') (payload_key q d) \<or> (\<exists>x. PersistErr q x \<in> set errs)"
      using IH errs1 by auto blast
    ultimately show ?thesis using Some by auto
  qed
qed (simp add: marked_def)

lemma dispatch_durable:
  assumes "DispatchDurable B enc now channels payloads s = (s', errs, taken)" and "keys_good keys_ok payloads"
    and "p \<in> set payloads" and "pl_Drift p = Some d"
  shows "(\<forall>i < length channels. subscribed (ch_Subscribes (channels ! i)) (pl_Event p) \<longrightarrow>
            (\<exists>q \<in> set (taken ! i). covers_payload q p))
       \<or> marked enc payloads (cont s') (payload_key p d)
       \<or> (\<exists>e. PersistErr p e \<in> set errs) \<and> (\<exists>e. ChannelErr e \<in> set errs)"
proof -
  obtain s1 serrs where sv: "save_all B enc now payloads s = (s1, serrs)" by fastforce
  obtain derrs where D: "Dispatch channels payloads = (taken, derrs)"
    and R: "derrs \<noteq> [] \<Longrightarrow> s' = s1 \<and> errs = serrs @ map ChannelErr derrs"
    using assms(1) sv by (auto simp: DispatchDurable_def split: prod.splits if_splits)
  show ?thesis
  proof (cases "derrs = []")
    case True
    with D clean_dispatch_reaches_all assms(3) show ?thesis by blast
  next
    case False
    with R have "s' = s1" "errs = serrs @ map ChannelErr derrs" by simp_all
    moreover from False have "\<exists>e. ChannelErr e \<in> set (map ChannelErr derrs)" by (cases derrs) auto
    moreover have "marked enc payloads (cont s1) (payload_key p d) \<or> (\<exists>e. PersistErr p e \<in> set serrs)"
      using save_all_marks [OF sv assms(2), of "[]"] assms(3,4) by simp
    ultimately show ?thesis by auto
  qed
qed

end


definition sample_payload :: Payload where
  "sample_payload =
     \<lparr>pl_Event = EventDriftDetected,
      pl_Drift = Some \<lparr>dp_Project = ''app'', dp_Stack = ''prod'', dp_Env = ''prod'', dp_Outcome = OutcomeDriftDetected,
        dp_Add = 0, dp_Change = 1, dp_Delete = 0, dp_Replace = 0, dp_PlanSummary = '''', dp_Fingerprint = ''f'',
        dp_Error = '''', dp_RunID = ''r''\<rparr>,
      pl_Group = [], pl_GroupKey = ''''\<rparr>"

definition deaf_channel :: Channel where
  "deaf_channel = \<lparr>ch_Name = ''slack'', ch_Subscribes = [EventDriftDetected], ch_Grouping = None,
                   ch_Deliver = (\<lambda>_ _. DeliveryFailed ''503''), ch_Cancelled = (\<lambda>_. False)\<rparr>"


end
