(* ===== verification/PreviewLookup.thy ===== *)
theory PreviewLookup
  imports Gates DriftState DriftFilter BlobKey PlainStore "HOL-Library.Product_Lexorder"
begin

text \<open>
  Run identities and the preview manifests an apply relies on: \<open>internal/run/identity.go\<close>,
  \<open>internal/run/preview_lookup.go\<close>, \<open>internal/run/applied_state.go\<close>, \<open>internal/run/sha_helper.go\<close>, the manifest type
  and its writer of \<open>internal/run/preview.go\<close>, and the summaries of \<open>internal/core/summary\<close>.

  The JSON codec is a pair of parameters; what is used of it is only what it returns on the objects
  that are read. A store that is nil in Go is \<open>None\<close>.
\<close>

subsection \<open>Summaries and manifests\<close>

definition StatusPlanned :: string where "StatusPlanned = ''planned''"
definition StatusNoOp :: string where "StatusNoOp = ''noop''"
definition StatusBlocked :: string where "StatusBlocked = ''blocked''"
definition StatusError :: string where "StatusError = ''error''"

record GateTrace =
  gt_Gate :: string
  gt_Outcome :: string
  gt_Reason :: GateReason

record StackSummary =
  ss_Project :: string
  ss_Stack :: string
  ss_Env :: string
  ss_Counts :: Counts
  ss_Status :: string
  ss_BlockedBy :: int
  ss_Error :: string
  ss_FullPlan :: string
  ss_PlanSummary :: string
  ss_PlanDiff :: string
  ss_DurationMS :: int
  ss_Gates :: "GateTrace list"
  ss_RequiredApprovers :: "string list"
  ss_PlanKey :: string

definition summary_Ref :: "StackSummary \<Rightarrow> string" where
  "summary_Ref s = ss_Project s @ ''/'' @ ss_Stack s"

definition no_counts :: Counts where
  "no_counts = \<lparr>ct_Add = 0, ct_Change = 0, ct_Delete = 0, ct_Replace = 0\<rparr>"

definition new_summary :: "string \<Rightarrow> string \<Rightarrow> string \<Rightarrow> StackSummary" where
  "new_summary project stack env =
     \<lparr>ss_Project = project, ss_Stack = stack, ss_Env = env, ss_Counts = no_counts, ss_Status = '''',
      ss_BlockedBy = 0, ss_Error = '''', ss_FullPlan = '''', ss_PlanSummary = '''', ss_PlanDiff = '''',
      ss_DurationMS = 0, ss_Gates = [], ss_RequiredApprovers = [], ss_PlanKey = ''''\<rparr>"

record manifest =
  mf_RunID :: string
  mf_PR :: int
  mf_CommitSHA :: string
  mf_Op :: string
  mf_CreatedAt :: string
  mf_Stacks :: "StackSummary list"

subsection \<open>Run identities\<close>

definition artifactSHA :: "string \<Rightarrow> string" where
  "artifactSHA commitSHA = (if commitSHA = '''' then ''unknown'' else commitSHA)"

definition shortSHA :: "string \<Rightarrow> string" where
  "shortSHA s = (if 7 \<le> length s then take 7 s else if s = '''' then ''unknown'' else s)"

definition runIdentity :: "string \<Rightarrow> int \<Rightarrow> int \<Rightarrow> string \<Rightarrow> string" where
  "runIdentity op runNumber runAttempt commitSHA =
     (if 0 < runAttempt
      then op @ ''-'' @ itoa runNumber @ ''-'' @ itoa runAttempt @ ''-'' @ artifactSHA commitSHA
      else op @ ''-'' @ itoa runNumber @ ''-'' @ artifactSHA commitSHA)"

text \<open>\<open>strconv.Atoi\<close>: an optional sign and decimal digits, within 64 bits.\<close>

definition decimal_value :: "string \<Rightarrow> int" where
  "decimal_value ds = foldl (\<lambda>v c. 10 * v + the (char_digit c)) 0 ds"

definition Atoi :: "string \<Rightarrow> int option" where
  "Atoi s =
     (let neg = HasPrefix s ''-'';
          ds = (if neg then TrimPrefix s ''-'' else TrimPrefix s ''+'');
          v = (if neg then - decimal_value ds else decimal_value ds)
      in if ds \<noteq> '''' \<and> list_all (\<lambda>c. char_digit c \<noteq> None) ds \<and> - (2 ^ 63) \<le> v \<and> v < 2 ^ 63 then Some v else None)"

definition previewRunOrder :: "string \<Rightarrow> string \<Rightarrow> (int \<times> int) option" where
  "previewRunOrder runID commitSHA =
     (let full = ''-'' @ artifactSHA commitSHA; abbr = ''-'' @ shortSHA commitSHA in
      if \<not> HasPrefix runID ''run-'' then None
      else if \<not> HasSuffix runID full \<and> \<not> HasSuffix runID abbr then None
      else
        let suff = (if HasSuffix runID full then full else abbr);
            parts = Split_char (CHR ''-'') (TrimSuffix (TrimPrefix runID ''run-'') suff)
        in if length parts < 1 \<or> 2 < length parts then None
           else case Atoi (parts ! 0) of
                  None \<Rightarrow> None
                | Some runNumber \<Rightarrow>
                    if runNumber < 0 then None
                    else if length parts = 1 then Some (runNumber, 0)
                    else (case Atoi (parts ! 1) of
                            None \<Rightarrow> None
                          | Some runAttempt \<Rightarrow>
                              if runAttempt \<le> 0 then None else Some (runNumber, runAttempt)))"

definition newerPreviewRunID :: "string \<Rightarrow> string \<Rightarrow> string \<Rightarrow> bool" where
  "newerPreviewRunID candidate current commitSHA =
     (case (previewRunOrder candidate commitSHA, previewRunOrder current commitSHA) of
        (Some (r, a), Some (r', a')) \<Rightarrow>
          if r \<noteq> r' then r > r' else if a \<noteq> a' then a > a' else candidate > current
      | _ \<Rightarrow> candidate > current)"

text \<open>The run a key may hold a preview of, and whether its name is bound to the commit.\<close>

definition previewManifestCandidate :: "string \<Rightarrow> string \<Rightarrow> string \<Rightarrow> (string \<times> bool) option" where
  "previewManifestCandidate key pre commitSHA =
     (if commitSHA = '''' \<or> \<not> HasPrefix key pre then None
      else case Cut (TrimPrefix key pre) ''/'' of (runID, rest, ok) \<Rightarrow>
        if \<not> ok \<or> rest \<noteq> ''manifest.json'' then None
        else if HasPrefix runID ''apply-'' \<or> HasPrefix runID ''refresh-'' then None
        else if HasPrefix runID ''run-'' then
          if HasSuffix runID (''-'' @ artifactSHA commitSHA) then Some (runID, True)
          else if HasSuffix runID (''-'' @ shortSHA commitSHA) then Some (runID, False)
          else None
        else Some (runID, False))"

subsection \<open>The newest preview of a commit\<close>

datatype SnapErr = ListManifests BlobErr | ReadManifest string BlobErr | DecodeManifest string
  | IdentityMismatch string | PRMismatch string int int | RunIDMismatch string string string
  | InvalidCreatedAt string string | InvalidStackRef string | DuplicateStack string string
  | InvalidStatus string string string

definition pr_prefix :: "int \<Rightarrow> string" where
  "pr_prefix pr = ''runs/pr-'' @ itoa pr @ ''/''"

text \<open>What one readable candidate contributes: an error, nothing, or a manifest and its time.\<close>

definition check_manifest ::
  "int \<Rightarrow> string \<Rightarrow> string \<Rightarrow> string \<Rightarrow> bool \<Rightarrow> manifest option \<Rightarrow> SnapErr + (manifest \<times> go_time) option" where
  "check_manifest prNumber commitSHA k runID bound decoded =
     (case decoded of
        None \<Rightarrow> if bound then Inl (DecodeManifest k) else Inr None
      | Some m \<Rightarrow>
          if mf_Op m \<noteq> ''preview'' \<or> mf_CommitSHA m \<noteq> commitSHA
          then (if bound then Inl (IdentityMismatch k) else Inr None)
          else if mf_PR m \<noteq> prNumber then Inl (PRMismatch k (mf_PR m) prNumber)
          else if mf_RunID m \<noteq> runID then Inl (RunIDMismatch k (mf_RunID m) runID)
          else (case parse_rfc3339 (mf_CreatedAt m) of
                  None \<Rightarrow> Inl (InvalidCreatedAt k (mf_CreatedAt m))
                | Some t \<Rightarrow> Inr (Some (m, t))))"

definition newer_manifest :: "string \<Rightarrow> manifest \<times> go_time \<Rightarrow> (manifest \<times> go_time) option \<Rightarrow> bool" where
  "newer_manifest commitSHA x best =
     (case best of
        None \<Rightarrow> True
      | Some (b, bt) \<Rightarrow>
          snd x > bt \<or> snd x = bt \<and> newerPreviewRunID (mf_RunID (fst x)) (mf_RunID b) commitSHA)"

fun newest_loop ::
  "('s, 'c) Store \<Rightarrow> ('c \<Rightarrow> manifest option) \<Rightarrow> int \<Rightarrow> string \<Rightarrow> string list \<Rightarrow> (manifest \<times> go_time) option \<Rightarrow> 's
     \<Rightarrow> 's \<times> (SnapErr + (manifest \<times> go_time) option)" where
  "newest_loop B dec prNumber commitSHA [] best s = (s, Inr best)"
| "newest_loop B dec prNumber commitSHA (k # ks) best s =
     (case previewManifestCandidate k (pr_prefix prNumber) commitSHA of
        None \<Rightarrow> newest_loop B dec prNumber commitSHA ks best s
      | Some (runID, bound) \<Rightarrow>
          (case s_Get B k s of
             (s', Inl e) \<Rightarrow>
               if bound then (s', Inl (ReadManifest k e))
               else newest_loop B dec prNumber commitSHA ks best s'
           | (s', Inr (c, _)) \<Rightarrow>
               (case check_manifest prNumber commitSHA k runID bound (dec c) of
                  Inl e \<Rightarrow> (s', Inl e)
                | Inr None \<Rightarrow> newest_loop B dec prNumber commitSHA ks best s'
                | Inr (Some x) \<Rightarrow>
                    newest_loop B dec prNumber commitSHA ks
                      (if newer_manifest commitSHA x best then Some x else best) s')))"

definition newestPreviewManifest ::
  "('s, 'c) Store \<Rightarrow> ('c \<Rightarrow> manifest option) \<Rightarrow> int \<Rightarrow> string \<Rightarrow> 's \<Rightarrow> 's \<times> (SnapErr + manifest option)" where
  "newestPreviewManifest B dec prNumber commitSHA s =
     (case s_List B (pr_prefix prNumber) s of
        (s', Inl e) \<Rightarrow> (s', Inl (ListManifests e))
      | (s', Inr keys) \<Rightarrow>
          (case newest_loop B dec prNumber commitSHA keys None s' of
             (s'', Inl e) \<Rightarrow> (s'', Inl e)
           | (s'', Inr best) \<Rightarrow> (s'', Inr (map_option fst best))))"

subsection \<open>The snapshot\<close>

record PreviewStatus =
  pv_Found :: bool
  pv_Age :: go_duration
  pv_Succeeded :: bool
  pv_HasChanges :: bool
  pv_ErrorMessage :: string
  pv_RunID :: string
  pv_Plan :: "StackSummary option"

definition no_preview :: PreviewStatus where
  "no_preview = \<lparr>pv_Found = False, pv_Age = 0, pv_Succeeded = False, pv_HasChanges = False, pv_ErrorMessage = '''',
     pv_RunID = '''', pv_Plan = None\<rparr>"

record PreviewSnapshot =
  sp_statuses :: "(string \<times> PreviewStatus) list"
  sp_stackCount :: nat
  sp_allSucceeded :: bool

definition no_snapshot :: PreviewSnapshot where
  "no_snapshot = \<lparr>sp_statuses = [], sp_stackCount = 0, sp_allSucceeded = False\<rparr>"

definition status_of :: "string \<Rightarrow> go_duration \<Rightarrow> StackSummary \<Rightarrow> PreviewStatus" where
  "status_of runID age ss =
     (let ok = (ss_Status ss = StatusPlanned \<or> ss_Status ss = StatusNoOp) in
      \<lparr>pv_Found = True, pv_Age = age, pv_Succeeded = ok, pv_HasChanges = 0 < ct_Total (ss_Counts ss),
       pv_ErrorMessage = (if ok then '''' else ss_Error ss), pv_RunID = runID, pv_Plan = Some ss\<rparr>)"

fun index_stacks ::
  "string \<Rightarrow> go_duration \<Rightarrow> StackSummary list \<Rightarrow> PreviewSnapshot \<Rightarrow> SnapErr + PreviewSnapshot" where
  "index_stacks runID age [] sp = Inr sp"
| "index_stacks runID age (ss # rest) sp =
     (let ref = summary_Ref ss in
      if TrimSpace (ss_Project ss) = '''' \<or> TrimSpace (ss_Stack ss) = '''' then Inl (InvalidStackRef runID)
      else if map_of (sp_statuses sp) ref \<noteq> None then Inl (DuplicateStack runID ref)
      else if ss_Status ss \<notin> {StatusPlanned, StatusNoOp, StatusError}
        then Inl (InvalidStatus runID (ss_Status ss) ref)
      else index_stacks runID age rest
             (sp\<lparr>sp_statuses := map_put ref (status_of runID age ss) (sp_statuses sp),
                 sp_allSucceeded := sp_allSucceeded sp \<and> pv_Succeeded (status_of runID age ss)\<rparr>))"

definition LoadPreviewSnapshot ::
  "('s, 'c) Store option \<Rightarrow> ('c \<Rightarrow> manifest option) \<Rightarrow> int \<Rightarrow> string \<Rightarrow> go_time \<Rightarrow> 's
     \<Rightarrow> 's \<times> (SnapErr + PreviewSnapshot)" where
  "LoadPreviewSnapshot store dec prNumber commitSHA now s =
     (case store of
        None \<Rightarrow> (s, Inr no_snapshot)
      | Some B \<Rightarrow>
          if prNumber = 0 then (s, Inr no_snapshot)
          else (case newestPreviewManifest B dec prNumber commitSHA s of
                  (s', Inl e) \<Rightarrow> (s', Inl e)
                | (s', Inr None) \<Rightarrow> (s', Inr no_snapshot)
                | (s', Inr (Some best)) \<Rightarrow>
                    (s', case parse_rfc3339 (mf_CreatedAt best) of
                           None \<Rightarrow> Inl (InvalidCreatedAt (mf_RunID best) (mf_CreatedAt best))
                         | Some createdAt \<Rightarrow>
                             index_stacks (mf_RunID best) (time_Sub now createdAt) (mf_Stacks best)
                               \<lparr>sp_statuses = [], sp_stackCount = length (mf_Stacks best),
                                sp_allSucceeded = (mf_Stacks best \<noteq> [])\<rparr>)))"

definition StackStatus :: "PreviewSnapshot \<Rightarrow> string \<Rightarrow> PreviewStatus" where
  "StackStatus sp ref = map_get (sp_statuses sp) no_preview ref"

definition StackRefs :: "PreviewSnapshot \<Rightarrow> string list option" where
  "StackRefs sp = (if sp_stackCount sp = 0 then None else Some (map fst (sp_statuses sp)))"

definition Succeeded :: "PreviewSnapshot \<Rightarrow> bool" where "Succeeded sp = sp_allSucceeded sp"

definition snapshot_or_empty :: "SnapErr + PreviewSnapshot \<Rightarrow> PreviewSnapshot" where
  "snapshot_or_empty r = (case r of Inl _ \<Rightarrow> no_snapshot | Inr sp \<Rightarrow> sp)"

definition result_err :: "'e + 'a \<Rightarrow> 'e option" where
  "result_err r = (case r of Inl e \<Rightarrow> Some e | Inr _ \<Rightarrow> None)"

definition PlanSucceededForPR ::
  "('s, 'c) Store option \<Rightarrow> ('c \<Rightarrow> manifest option) \<Rightarrow> int \<Rightarrow> string \<Rightarrow> go_time \<Rightarrow> 's
     \<Rightarrow> 's \<times> bool \<times> SnapErr option" where
  "PlanSucceededForPR store dec prNumber commitSHA now s =
     (case LoadPreviewSnapshot store dec prNumber commitSHA now s of
        (s', r) \<Rightarrow> (s', Succeeded (snapshot_or_empty r), result_err r))"

definition FindPreviewForStack ::
  "('s, 'c) Store option \<Rightarrow> ('c \<Rightarrow> manifest option) \<Rightarrow> int \<Rightarrow> string \<Rightarrow> string \<Rightarrow> go_time \<Rightarrow> 's
     \<Rightarrow> 's \<times> PreviewStatus \<times> SnapErr option" where
  "FindPreviewForStack store dec prNumber commitSHA stackRef now s =
     (case LoadPreviewSnapshot store dec prNumber commitSHA now s of
        (s', r) \<Rightarrow> (s', StackStatus (snapshot_or_empty r) stackRef, result_err r))"

definition PreviewedStackRefs ::
  "('s, 'c) Store option \<Rightarrow> ('c \<Rightarrow> manifest option) \<Rightarrow> int \<Rightarrow> string \<Rightarrow> go_time \<Rightarrow> 's
     \<Rightarrow> 's \<times> string list option \<times> SnapErr option" where
  "PreviewedStackRefs store dec prNumber commitSHA now s =
     (if store = None \<or> prNumber = 0 \<or> commitSHA = '''' then (s, None, None)
      else case LoadPreviewSnapshot store dec prNumber commitSHA now s of
             (s', r) \<Rightarrow> (s', StackRefs (snapshot_or_empty r), result_err r))"

subsection \<open>The selection is right\<close>

text \<open>
  \<open>bound_to\<close>: the key's name carries the full commit. \<open>preview_at\<close>: the object under a candidate key is a
  consistent preview manifest of the pull request and commit, created at \<open>t\<close>.
\<close>

definition bound_to :: "int \<Rightarrow> string \<Rightarrow> string \<Rightarrow> bool" where
  "bound_to pr sha k \<longleftrightarrow> (\<exists>runID. previewManifestCandidate k (pr_prefix pr) sha = Some (runID, True))"

definition preview_at ::
  "(string \<Rightarrow> 'c option) \<Rightarrow> ('c \<Rightarrow> manifest option) \<Rightarrow> int \<Rightarrow> string \<Rightarrow> string \<Rightarrow> manifest \<times> go_time \<Rightarrow> bool" where
  "preview_at C dec pr sha k x \<longleftrightarrow>
     (\<exists>runID b c. previewManifestCandidate k (pr_prefix pr) sha = Some (runID, b) \<and> C k = Some c
        \<and> dec c = Some (fst x) \<and> mf_Op (fst x) = ''preview'' \<and> mf_CommitSHA (fst x) = sha \<and> mf_PR (fst x) = pr
        \<and> mf_RunID (fst x) = runID \<and> parse_rfc3339 (mf_CreatedAt (fst x)) = Some (snd x))"

definition rank :: "string \<Rightarrow> manifest \<times> go_time \<Rightarrow> go_time \<times> (int \<times> int) \<times> string" where
  "rank sha x = (snd x, the (previewRunOrder (mf_RunID (fst x)) sha), mf_RunID (fst x))"

definition orderable :: "string \<Rightarrow> manifest \<times> go_time \<Rightarrow> bool" where
  "orderable sha x \<longleftrightarrow> previewRunOrder (mf_RunID (fst x)) sha \<noteq> None"

lemma newer_rank:
  "orderable sha x \<Longrightarrow> orderable sha y \<Longrightarrow> newer_manifest sha x (Some y) \<longleftrightarrow> rank sha y < rank sha x"
  by (cases y) (auto simp: orderable_def newer_manifest_def rank_def newerPreviewRunID_def less_prod_def')

lemma newer_time: "if newer_manifest sha x (Some y) then snd y \<le> snd x else snd x \<le> snd y"
  by (cases y) (auto simp: newer_manifest_def)

lemma check_manifest_Some:
  assumes "check_manifest pr sha k runID b (dec c) = Inr (Some x)"
    and "previewManifestCandidate k (pr_prefix pr) sha = Some (runID, b)" and "C k = Some c"
  shows "preview_at C dec pr sha k x"
  using assms by (cases x) (auto simp: check_manifest_def preview_at_def split: option.splits if_splits)

lemma check_manifest_bound: "check_manifest pr sha k runID True d \<noteq> Inr None"
  by (auto simp: check_manifest_def split: option.split)

lemma check_manifest_preview:
  "preview_at C dec pr sha k x \<Longrightarrow> previewManifestCandidate k (pr_prefix pr) sha = Some (runID, b) \<Longrightarrow> C k = Some c \<Longrightarrow>
   check_manifest pr sha k runID b (dec c) = Inr (Some x)"
  by (cases x) (auto simp: check_manifest_def preview_at_def)

lemma bound_candidate: "previewManifestCandidate k (pr_prefix pr) sha = Some (runID, b) \<Longrightarrow> bound_to pr sha k \<longleftrightarrow> b"
  by (auto simp: bound_to_def)

lemma preview_at_unique:
  assumes "preview_at C dec pr sha k x" and "preview_at C dec pr sha k y"
  shows "x = y"
proof -
  have parts: "\<exists>c. C k = Some c \<and> dec c = Some (fst z) \<and> parse_rfc3339 (mf_CreatedAt (fst z)) = Some (snd z)"
    if "preview_at C dec pr sha k z" for z
    using that unfolding preview_at_def by blast
  from parts [OF assms(1)] parts [OF assms(2)] show ?thesis by (auto simp: prod_eq_iff)
qed

lemma not_candidate:
  "previewManifestCandidate k (pr_prefix pr) sha = None \<Longrightarrow> \<not> bound_to pr sha k \<and> \<not> preview_at C dec pr sha k x"
  by (auto simp: bound_to_def preview_at_def)

text \<open>What a pass establishes, for a measure \<open>f\<close> of manifests.\<close>

definition selects ::
  "(string \<Rightarrow> 'c option) \<Rightarrow> ('c \<Rightarrow> manifest option) \<Rightarrow> int \<Rightarrow> string \<Rightarrow> (manifest \<times> go_time \<Rightarrow> 'r :: linorder)
     \<Rightarrow> string list \<Rightarrow> (manifest \<times> go_time) option \<Rightarrow> (manifest \<times> go_time) option \<Rightarrow> bool" where
  "selects C dec pr sha f keys best r \<longleftrightarrow>
     (\<forall>k\<in>set keys. bound_to pr sha k \<longrightarrow> (\<exists>x. preview_at C dec pr sha k x))
   \<and> (r = best \<or> (\<exists>k\<in>set keys. \<exists>x. r = Some x \<and> preview_at C dec pr sha k x))
   \<and> (\<forall>x. best = Some x \<or> (\<exists>k\<in>set keys. bound_to pr sha k \<and> preview_at C dec pr sha k x)
         \<longrightarrow> (\<exists>y. r = Some y \<and> f x \<le> f y))"

lemma selectsI:
  assumes "\<And>k. k \<in> set keys \<Longrightarrow> bound_to pr sha k \<Longrightarrow> \<exists>x. preview_at C dec pr sha k x"
    and "r \<noteq> best \<Longrightarrow> \<exists>k\<in>set keys. \<exists>x. r = Some x \<and> preview_at C dec pr sha k x"
    and "\<And>x. best = Some x \<Longrightarrow> \<exists>y. r = Some y \<and> f x \<le> f y"
    and "\<And>k x. k \<in> set keys \<Longrightarrow> bound_to pr sha k \<Longrightarrow> preview_at C dec pr sha k x \<Longrightarrow> \<exists>y. r = Some y \<and> f x \<le> f y"
  shows "selects C dec pr sha f keys best r"
  unfolding selects_def
proof (intro conjI ballI allI impI)
  show "r = best \<or> (\<exists>k\<in>set keys. \<exists>x. r = Some x \<and> preview_at C dec pr sha k x)"
    using assms(2) by (cases "r = best") simp_all
  fix x assume "best = Some x \<or> (\<exists>k\<in>set keys. bound_to pr sha k \<and> preview_at C dec pr sha k x)"
  then show "\<exists>y. r = Some y \<and> f x \<le> f y" by (elim disjE bexE conjE) (rule assms(3,4), assumption+)+
qed (rule assms(1))

lemma selects_bound:
  "selects C dec pr sha f ks best r \<Longrightarrow> best = Some x \<Longrightarrow> \<exists>y. r = Some y \<and> f x \<le> f y"
  unfolding selects_def by blast

lemma selects_bounds:
  assumes "selects C dec pr sha f ks best r" and "k \<in> set ks" "bound_to pr sha k" "preview_at C dec pr sha k x"
  shows "\<exists>y. r = Some y \<and> f x \<le> f y"
proof -
  have "\<exists>k\<in>set ks. bound_to pr sha k \<and> preview_at C dec pr sha k x" using assms by blast
  with assms(1) [unfolded selects_def, THEN conjunct2, THEN conjunct2, THEN spec, of x] show ?thesis by blast
qed

lemma selects_skip:
  "selects C dec pr sha f ks best r \<Longrightarrow> \<not> bound_to pr sha k \<Longrightarrow> selects C dec pr sha f (k # ks) best r"
  by (auto simp: selects_def simp del: split_paired_All split_paired_Ex)

lemma selects_weaken:
  assumes sel: "selects C dec pr sha f ks best' r" and at: "preview_at C dec pr sha k x"
    and y: "r = Some y" "f x \<le> f y" and best: "\<And>z. best = Some z \<Longrightarrow> f z \<le> f y" and "best' = best \<or> best' = Some x"
  shows "selects C dec pr sha f (k # ks) best r"
proof (rule selectsI)
  fix k' assume k': "k' \<in> set (k # ks)" and bound: "bound_to pr sha k'"
  show "\<exists>z. preview_at C dec pr sha k' z"
  proof (cases "k' = k")
    case True
    with at show ?thesis by (intro exI) simp
  next
    case False
    with k' have "k' \<in> set ks" by simp
    from bspec [OF sel [unfolded selects_def, THEN conjunct1] this] bound show ?thesis by (rule mp)
  qed
  show "\<exists>y. r = Some y \<and> f z \<le> f y" if "preview_at C dec pr sha k' z" for z
  proof (cases "k' = k")
    case True
    with that have "z = x" by (intro preview_at_unique [OF _ at]) simp
    with y show ?thesis by blast
  next
    case False
    with k' have "k' \<in> set ks" by simp
    from selects_bounds [OF sel this bound that] show ?thesis .
  qed
next
  assume "r \<noteq> best"
  then show "\<exists>k'\<in>set (k # ks). \<exists>z. r = Some z \<and> preview_at C dec pr sha k' z"
    using assms(1,2,6) by (auto simp: selects_def simp del: split_paired_All split_paired_Ex)
next
  show "\<exists>y. r = Some y \<and> f z \<le> f y" if "best = Some z" for z using best [OF that] y by blast
qed

lemma selects_take:
  assumes "selects C dec pr sha f ks (if newer_manifest sha x best then Some x else best) r"
    and "preview_at C dec pr sha k x"
    and "\<And>y. best = Some y \<Longrightarrow> if newer_manifest sha x (Some y) then f y \<le> f x else f x \<le> f y"
  shows "selects C dec pr sha f (k # ks) best r"
proof (cases "newer_manifest sha x best")
  case True
  then have sel: "selects C dec pr sha f ks (Some x) r" using assms(1) by simp
  from selects_bound [OF this refl] obtain y where y: "r = Some y" "f x \<le> f y" by blast
  have "f z \<le> f y" if "best = Some z" for z using assms(3) [OF that] True y that by auto
  with selects_weaken [OF sel assms(2) y] show ?thesis by blast
next
  case False
  then obtain z where z: "best = Some z" by (cases best) (auto simp: newer_manifest_def)
  from False assms(1) have sel: "selects C dec pr sha f ks best r" by simp
  from selects_bound [OF this z] obtain y where y: "r = Some y" "f z \<le> f y" by blast
  with False assms(3) z have "f x \<le> f y" by fastforce
  from selects_weaken [OF sel assms(2) y(1) this] y z show ?thesis by (metis option.inject)
qed

context plain_store
begin

text \<open>
  One pass over the candidates, for any measure \<open>f\<close> the comparison respects on the manifests \<open>P\<close>: what the loop
  keeps has the largest measure of all it saw.
\<close>

lemma newest_loop_selects:
  assumes "newest_loop B dec pr sha keys best s = (s', Inr r)" and "\<And>k. k \<in> set keys \<Longrightarrow> keys_ok k"
    and resp: "\<And>x y. P x \<Longrightarrow> P y \<Longrightarrow> if newer_manifest sha x (Some y) then f y \<le> f x else f x \<le> f y"
    and "\<And>k x. k \<in> set keys \<Longrightarrow> preview_at (cont s) dec pr sha k x \<Longrightarrow> P x" and "\<And>x. best = Some x \<Longrightarrow> P x"
  shows "selects (cont s) dec pr sha f keys best r"
  using assms(1,2,4,5)
proof (induction keys arbitrary: best s)
  case Nil
  then show ?case by (auto simp: selects_def)
next
  case (Cons k ks)
  note IH = Cons.IH and run = Cons.prems(1) and ok = Cons.prems(2) and P = Cons.prems(3,4)
  show ?case
  proof (cases "previewManifestCandidate k (pr_prefix pr) sha")
    case None
    with run have "newest_loop B dec pr sha ks best s = (s', Inr r)" by simp
    then have "selects (cont s) dec pr sha f ks best r" by (rule IH) (use ok P in auto)
    with None show ?thesis by (blast intro: selects_skip dest: not_candidate)
  next
    case (Some p)
    obtain runID b where cand: "previewManifestCandidate k (pr_prefix pr) sha = Some (runID, b)"
      using Some by (cases p) simp
    obtain s1 g where g: "s_Get B k s = (s1, g)" by (cases "s_Get B k s")
    have same: "cont s1 = cont s" using get_cont [OF _ g] ok by simp
    have IH1: "newest_loop B dec pr sha ks bst s1 = (s', Inr r) \<Longrightarrow> (\<And>x. bst = Some x \<Longrightarrow> P x) \<Longrightarrow>
        selects (cont s) dec pr sha f ks bst r" for bst
      by (rule IH [of bst s1, unfolded same]) (blast intro: ok P(1) list.set_intros)+
    show ?thesis
    proof (cases g)
      case (Inl e)
      with run cand g have "\<not> b" "newest_loop B dec pr sha ks best s1 = (s', Inr r)" by (auto split: if_splits)
      with IH1 P(2) show ?thesis by (auto intro!: selects_skip simp: bound_candidate [OF cand])
    next
      case (Inr cm)
      then obtain c md where c: "g = Inr (c, md)" by (cases cm) auto
      then have ck: "cont s k = Some c" using get_found g ok by simp
      show ?thesis
      proof (cases "check_manifest pr sha k runID b (dec c)")
        case (Inl e)
        with run cand g c show ?thesis by simp
      next
        case (Inr o1)
        show ?thesis
        proof (cases o1)
          case None
          then have "\<not> b" using Inr check_manifest_bound by (cases b) auto
          moreover have "newest_loop B dec pr sha ks best s1 = (s', Inr r)" using run cand g c Inr None by simp
          ultimately show ?thesis using IH1 P(2) by (auto intro!: selects_skip simp: bound_candidate [OF cand])
        next
          case (Some x)
          have at: "preview_at (cont s) dec pr sha k x"
            using check_manifest_Some [OF _ cand, where C = "cont s" and c = c and x = x] ck Inr Some by simp
          let ?best = "if newer_manifest sha x best then Some x else best"
          have "newest_loop B dec pr sha ks ?best s1 = (s', Inr r)" using run cand g c Inr Some by simp
          then have "selects (cont s) dec pr sha f ks ?best r"
            by (rule IH1) (use P at in \<open>auto split: if_splits\<close>)
          moreover have "if newer_manifest sha x (Some y) then f y \<le> f x else f x \<le> f y" if "best = Some y" for y
            by (rule resp [OF P(1) [OF list.set_intros(1) at] P(2) [OF that]])
          ultimately show ?thesis by (rule selects_take [OF _ at])
        qed
      qed
    qed
  qed
qed

end

context plain_store
begin

lemma newest_preview_selects:
  assumes run: "newestPreviewManifest B dec pr sha s = (s', Inr r)" and ls: "s_List B (pr_prefix pr) s = (s1, Inr keys)"
    and ok: "\<And>k. k \<in> set keys \<Longrightarrow> keys_ok k"
  obtains best where "r = map_option fst best" and "selects (cont s) dec pr sha snd keys None best"
    and "(\<And>k x. k \<in> set keys \<Longrightarrow> preview_at (cont s) dec pr sha k x \<Longrightarrow> orderable sha x) \<Longrightarrow>
         selects (cont s) dec pr sha (rank sha) keys None best"
proof -
  from run ls obtain best where loop: "newest_loop B dec pr sha keys None s1 = (s', Inr best)"
    and r: "r = map_option fst best"
    by (auto simp: newestPreviewManifest_def split: prod.splits sum.splits)
  have same: "cont s1 = cont s" by (rule list_cont [OF ls])
  have "selects (cont s1) dec pr sha snd keys None best"
    by (rule newest_loop_selects [OF loop ok, where P = "\<lambda>_. True"]) (simp_all add: newer_time)
  moreover have "selects (cont s1) dec pr sha (rank sha) keys None best"
    if "\<And>k x. k \<in> set keys \<Longrightarrow> preview_at (cont s) dec pr sha k x \<Longrightarrow> orderable sha x"
    by (rule newest_loop_selects [OF loop ok, where P = "orderable sha"])
      (use that in \<open>auto simp: same newer_rank not_less simp del: split_paired_All split_paired_Ex intro: less_imp_le\<close>)
  ultimately show thesis using r that unfolding same by blast
qed

end


subsection \<open>Run identities name their run\<close>

lemma decimal_value_append: "decimal_value (ds @ [c]) = 10 * decimal_value ds + the (char_digit c)"
  by (simp add: decimal_value_def)

lemma decimal_digits_correct:
  "0 \<le> n \<Longrightarrow> decimal_digits n \<noteq> [] \<and> list_all (\<lambda>c. char_digit c \<noteq> None) (decimal_digits n)
     \<and> decimal_value (decimal_digits n) = n"
proof (induction n rule: decimal_digits.induct)
  case (1 n)
  show ?case
  proof (cases "n < 10")
    case True
    with 1 show ?thesis by (subst (1 2 3) decimal_digits.simps) (simp add: decimal_value_def)
  next
    case False
    with 1 show ?thesis
      by (subst (1 2 3) decimal_digits.simps) (simp add: decimal_value_append)
  qed
qed

lemma digit_not_sep: "char_digit c \<noteq> None \<Longrightarrow> c \<noteq> CHR ''-'' \<and> c \<noteq> CHR ''+'' \<and> c \<noteq> CHR ''/''"
  by (auto simp: char_digit_def Let_def)

lemma itoa_plain:
  assumes "0 \<le> n"
  shows "itoa n \<noteq> ''''" and "CHR ''-'' \<notin> set (itoa n)" and "CHR ''+'' \<notin> set (itoa n)" and "CHR ''/'' \<notin> set (itoa n)"
  using decimal_digits_correct [OF assms] assms
  by (auto simp: itoa_def list_all_iff char_digit_def Let_def dest!: bspec)

lemma HasPrefix_single: "HasPrefix s [c] \<longleftrightarrow> (\<exists>r. s = c # r)"
  by (simp add: HasPrefix_iff)

lemma Atoi_itoa: "0 \<le> n \<Longrightarrow> n < 2 ^ 63 \<Longrightarrow> Atoi (itoa n) = Some n"
proof -
  assume n: "0 \<le> n" "n < 2 ^ 63"
  have "\<not> HasPrefix (itoa n) ''-''" "\<not> HasPrefix (itoa n) ''+''"
    using itoa_plain [OF n(1)] by (auto simp: HasPrefix_single)
  with n decimal_digits_correct [OF n(1)] show ?thesis by (simp add: Atoi_def Let_def itoa_def)
qed

lemma Cut_char: "c \<notin> set u \<Longrightarrow> Cut (u @ c # v) [c] = (u, v, True)"
  by (induction u) (auto simp: HasPrefix_single)

lemma previewRunOrder_parts:
  assumes "HasPrefix i ''run-''" and "HasSuffix i (''-'' @ artifactSHA sha)"
    and "Split_char (CHR ''-'') (TrimSuffix (TrimPrefix i ''run-'') (''-'' @ artifactSHA sha))
      = (if 0 < a then [itoa n, itoa a] else [itoa n])"
    and "0 \<le> n" "n < 2 ^ 63" "a < 2 ^ 63"
  shows "previewRunOrder i sha = Some (n, max 0 a)"
  using assms by (simp add: previewRunOrder_def Let_def Atoi_itoa)

lemma run_suffix: "runIdentity ''run'' n a sha =
  ''run-'' @ (itoa n @ (if 0 < a then ''-'' @ itoa a else '''')) @ ''-'' @ artifactSHA sha"
  by (simp add: runIdentity_def)

text \<open>
  A preview can always be found again. The identity a preview run gets from its run number, attempt and commit
  is read back to that run number and attempt when identities of the same commit are ordered, and the manifest key
  built from it is recognised as a candidate that is bound to the commit.
\<close>

theorem run_identity_roundtrip:
  assumes "0 \<le> n" and "n < 2 ^ 63" and "a < 2 ^ 63" and "sha \<noteq> ''''" and "CHR ''/'' \<notin> set sha"
  shows "previewRunOrder (runIdentity ''run'' n a sha) sha = Some (n, max 0 a)
    \<and> previewManifestCandidate (pr_prefix pr @ runIdentity ''run'' n a sha @ ''/manifest.json'') (pr_prefix pr) sha
      = Some (runIdentity ''run'' n a sha, True)"
proof
  let ?mid = "itoa n @ (if 0 < a then ''-'' @ itoa a else '''')"
  let ?id = "runIdentity ''run'' n a sha"
  have art: "artifactSHA sha = sha" using assms(4) by (simp add: artifactSHA_def)
  have id: "?id = ''run-'' @ ?mid @ ''-'' @ sha" by (simp only: run_suffix art)
  have suff: "HasSuffix ?id (''-'' @ sha)"
    unfolding HasSuffix_iff by (rule exI [of _ "''run-'' @ ?mid"]) (simp only: id append.assoc)
  have trim: "TrimSuffix (TrimPrefix ?id ''run-'') (''-'' @ sha) = ?mid"
    by (simp only: id TrimPrefix_append TrimSuffix_append)
  have parts: "Split_char (CHR ''-'') ?mid = (if 0 < a then [itoa n, itoa a] else [itoa n])"
    using itoa_plain [OF assms(1)] itoa_plain [of a]
    by (auto simp: Split_char_no_sep Split_char_append_sep)
  show "previewRunOrder ?id sha = Some (n, max 0 a)"
    by (rule previewRunOrder_parts) (unfold art trim parts, use assms suff in \<open>simp_all add: id HasPrefix_iff\<close>)
  show "previewManifestCandidate (pr_prefix pr @ ?id @ ''/manifest.json'') (pr_prefix pr) sha = Some (?id, True)"
  proof -
    have "CHR ''/'' \<notin> set ?id" unfolding id
      using assms(5) itoa_plain [OF assms(1)] itoa_plain [of a] by auto
    then have cut: "Cut (?id @ ''/manifest.json'') ''/'' = (?id, ''manifest.json'', True)" by (rule Cut_char)
    have "HasPrefix ?id ''run-''" "\<not> HasPrefix ?id ''apply-''" "\<not> HasPrefix ?id ''refresh-''"
      by (simp_all only: id) (simp_all add: HasPrefix_iff)
    then show ?thesis unfolding previewManifestCandidate_def TrimPrefix_append cut art using suff assms(4) by simp
  qed
qed

theorem run_identity_roundtrip_witness:
  "previewRunOrder (runIdentity ''run'' 12 2 ''abc'') ''abc'' = Some (12, 2)
   \<and> previewManifestCandidate (pr_prefix 7 @ runIdentity ''run'' 12 2 ''abc'' @ ''/manifest.json'') (pr_prefix 7) ''abc''
     = Some (runIdentity ''run'' 12 2 ''abc'', True)"
  using run_identity_roundtrip [of 12 2 "''abc''" 7] by simp

text \<open>A bucket with the previews of two runs of one commit, the second attempt of run 12 the newer.\<close>

definition sample_manifest :: "int \<Rightarrow> int \<Rightarrow> manifest" where
  "sample_manifest n a = \<lparr>mf_RunID = runIdentity ''run'' n a ''abc'', mf_PR = 7, mf_CommitSHA = ''abc'', mf_Op = ''preview'',
     mf_CreatedAt = ''2024-05-01T10:00:00Z'', mf_Stacks = [(new_summary ''api'' ''prod'' ''prod'')\<lparr>ss_Status := StatusPlanned\<rparr>]\<rparr>"

definition sample_bucket :: "manifest Disk" where
  "sample_bucket = \<lparr>d_files = [(''runs/pr-7/run-9-1-abc/manifest.json'', \<lparr>f_data = [sample_manifest 9 1], f_mtime = 0\<rparr>),
       (''runs/pr-7/run-12-2-abc/manifest.json'', \<lparr>f_data = [sample_manifest 12 2], f_mtime = 0\<rparr>)],
     d_dirs = [(''runs/pr-7'', \<lparr>fi_Size = 0, fi_ModTime = 0\<rparr>)], d_gens = [], d_rands = [], d_clock = 0, d_faults = []\<rparr>"

definition sample_decode :: "manifest list \<Rightarrow> manifest option" where
  "sample_decode c = (case c of [m] \<Rightarrow> Some m | _ \<Rightarrow> None)"

lemma sample_bucket_listing:
  "fs_List (pr_prefix 7) sample_bucket
   = (begin_op sample_bucket, Inr [''runs/pr-7/run-12-2-abc/manifest.json'', ''runs/pr-7/run-9-1-abc/manifest.json''])"
  by code_simp

lemma sample_bucket_newest:
  "snd (newestPreviewManifest (filesystem id_digest) sample_decode 7 ''abc'' sample_bucket) = Inr (Some (sample_manifest 12 2))"
  by code_simp

lemma sample_bucket_keys:
  "\<forall>k\<in>set [''runs/pr-7/run-12-2-abc/manifest.json'', ''runs/pr-7/run-9-1-abc/manifest.json'']. canonical k"
  by code_simp


text \<open>
  With an identity that does not have the program's form the comparison of identities has a cycle, so among manifests of
  the same second the listing order decides.
\<close>

lemma newer_run_id_cycle:
  "newerPreviewRunID ''run-10-abc'' ''run-9-abc'' ''abc'' \<and> newerPreviewRunID ''run-9-abc'' ''run-5x-abc'' ''abc''
   \<and> newerPreviewRunID ''run-5x-abc'' ''run-10-abc'' ''abc''"
  by code_simp

end
