(* ===== verification/GoDuration.thy ===== *)
theory GoDuration
  imports GoStrings
begin

text \<open>
  Go's \<open>time.ParseDuration\<close>: an optional sign and a sequence of decimal numbers, each with a unit, within the
  64 bits of a \<open>time.Duration\<close>. A fraction is scaled by exact arithmetic here; Go scales it in binary
  floating point, which can differ in the last nanosecond of long fractions.
\<close>

definition is_digit :: "char \<Rightarrow> bool" where "is_digit c \<longleftrightarrow> char_digit c \<noteq> None"

text \<open>\<open>leadingInt\<close>: the digits at the front, refused beyond \<open>2 ^ 63\<close>.\<close>

fun leadingInt :: "int \<Rightarrow> string \<Rightarrow> (int \<times> string) option" where
  "leadingInt x [] = Some (x, [])"
| "leadingInt x (c # s) =
     (case char_digit c of
        None \<Rightarrow> Some (x, c # s)
      | Some d \<Rightarrow>
          if x > 2 ^ 63 div 10 then None
          else if 10 * x + d > 2 ^ 63 then None
          else leadingInt (10 * x + d) s)"

text \<open>\<open>leadingFraction\<close>: digits that no longer fit are read and ignored.\<close>

fun leadingFraction :: "int \<Rightarrow> int \<Rightarrow> bool \<Rightarrow> string \<Rightarrow> int \<times> int \<times> string" where
  "leadingFraction x scale over [] = (x, scale, [])"
| "leadingFraction x scale over (c # s) =
     (case char_digit c of
        None \<Rightarrow> (x, scale, c # s)
      | Some d \<Rightarrow>
          if over then leadingFraction x scale True s
          else if x > (2 ^ 63 - 1) div 10 then leadingFraction x scale True s
          else if 10 * x + d > 2 ^ 63 then leadingFraction x scale True s
          else leadingFraction (10 * x + d) (10 * scale) False s)"

definition unitMap :: "(string \<times> go_duration) list" where
  "unitMap = [(''ns'', 1), (''us'', 1000), ([CHR 0xC2, CHR 0xB5, CHR ''s''], 1000), ([CHR 0xCE, CHR 0xBC, CHR ''s''], 1000),
     (''ms'', 1000000), (''s'', 1000000000), (''m'', 60 * 1000000000), (''h'', 3600 * 1000000000)]"

lemma leadingInt_length: "leadingInt x s = Some (v, r) \<Longrightarrow> length r \<le> length s"
  by (induction x s rule: leadingInt.induct) (auto split: option.splits if_splits)

lemma leadingFraction_length: "leadingFraction x sc ov s = (v, sc', r) \<Longrightarrow> length r \<le> length s"
  by (induction x sc ov s rule: leadingFraction.induct) (auto split: option.splits if_splits)

text \<open>One number with its unit: its nanoseconds and the rest of the text.\<close>

definition duration_term :: "string \<Rightarrow> (int \<times> string) option" where
  "duration_term s =
     (case leadingInt 0 s of
        None \<Rightarrow> None
      | Some (v, s1) \<Rightarrow>
          (let pre = (length s1 \<noteq> length s);
               dot = (s1 \<noteq> '''' \<and> hd s1 = CHR ''.'');
               (f, scale, s2) = (if dot then leadingFraction 0 1 False (tl s1) else (0, 1, s1));
               post = (dot \<and> length s2 \<noteq> length (tl s1));
               u = takeWhile (\<lambda>c. c \<noteq> CHR ''.'' \<and> \<not> is_digit c) s2;
               s3 = dropWhile (\<lambda>c. c \<noteq> CHR ''.'' \<and> \<not> is_digit c) s2
           in if \<not> pre \<and> \<not> post \<or> u = '''' then None
              else case map_of unitMap u of
                     None \<Rightarrow> None
                   | Some unit \<Rightarrow>
                       if v > 2 ^ 63 div unit then None
                       else let t = v * unit + (if 0 < f then f * unit div scale else 0)
                            in if t > 2 ^ 63 then None else Some (t, s3)))"

lemma duration_term_shorter:
  assumes "duration_term s = Some (t, r)"
  shows "length r < length s"
proof -
  from assms obtain v s1 where li: "leadingInt 0 s = Some (v, s1)" by (auto simp: duration_term_def split: option.splits)
  let ?dot = "s1 \<noteq> '''' \<and> hd s1 = CHR ''.''"
  obtain f sc s2 where s2: "(if ?dot then leadingFraction 0 1 False (tl s1) else (0, 1, s1)) = (f, sc, s2)" by (metis prod_cases3)
  let ?P = "\<lambda>c. c \<noteq> CHR ''.'' \<and> \<not> is_digit c"
  have "length s2 \<le> length s1"
    using s2 leadingFraction_length [of 0 1 False "tl s1"] by (auto split: if_splits simp: le_diff_conv intro: le_trans)
  moreover have "length s1 \<le> length s" using leadingInt_length [OF li] .
  moreover from assms li s2 have "takeWhile ?P s2 \<noteq> []" and r: "r = dropWhile ?P s2"
    by (auto simp: duration_term_def Let_def split: option.splits if_splits prod.splits)
  moreover from this(1) have "length (dropWhile ?P s2) < length s2"
    by (metis takeWhile_dropWhile_id length_append length_greater_0_conv less_add_same_cancel2)
  ultimately show ?thesis by simp
qed

function duration_sum :: "int \<Rightarrow> string \<Rightarrow> int option" where
  "duration_sum d s =
     (if s = '''' then Some d
      else if hd s \<noteq> CHR ''.'' \<and> \<not> is_digit (hd s) then None
      else case duration_term s of
             None \<Rightarrow> None
           | Some (t, r) \<Rightarrow>
                 let d1 = (d + t) mod 2 ^ 64 in if d1 > 2 ^ 63 then None else duration_sum d1 r)"
  by pat_completeness auto
termination by (relation "measure (length \<circ> snd)") (auto dest: duration_term_shorter)

declare duration_sum.simps [simp del]

definition ParseDuration :: "string \<Rightarrow> go_duration option" where
  "ParseDuration s0 =
     (let neg = (s0 \<noteq> '''' \<and> hd s0 = CHR ''-'');
          s = (if s0 \<noteq> '''' \<and> (hd s0 = CHR ''-'' \<or> hd s0 = CHR ''+'') then tl s0 else s0)
      in if s = ''0'' then Some 0
         else if s = '''' then None
         else case duration_sum 0 s of
                None \<Rightarrow> None
              | Some d \<Rightarrow> if neg then Some (- d) else if d > 2 ^ 63 - 1 then None else Some d)"

subsection \<open>A duration has no white space around it\<close>

lemma leadingInt_suffix: "leadingInt x s = Some (v, r) \<Longrightarrow> \<exists>p. s = p @ r"
proof (induction x s rule: leadingInt.induct)
  case (2 x c s)
  show ?case
  proof (cases "char_digit c")
    case None
    with 2 show ?thesis by simp
  next
    case (Some d)
    with 2 obtain p where "s = p @ r" by (auto split: if_splits)
    then have "c # s = (c # p) @ r" by simp
    then show ?thesis by blast
  qed
qed simp

lemma leadingFraction_suffix: "leadingFraction x sc ov s = (v, sc', r) \<Longrightarrow> \<exists>p. s = p @ r"
proof (induction x sc ov s rule: leadingFraction.induct)
  case (2 x sc ov c s)
  show ?case
  proof (cases "char_digit c")
    case None
    with 2 show ?thesis by simp
  next
    case (Some d)
    with 2 obtain p where "s = p @ r" by (auto split: if_splits)
    then have "c # s = (c # p) @ r" by simp
    then show ?thesis by blast
  qed
qed simp

lemma unit_last: "map_of unitMap u = Some n \<Longrightarrow> u \<noteq> [] \<and> graph_char (last u)"
proof -
  have "list_all (\<lambda>(u, n). u \<noteq> [] \<and> graph_char (last u)) unitMap" by code_simp
  then show "map_of unitMap u = Some n \<Longrightarrow> ?thesis" by (auto simp: list_all_iff dest!: map_of_SomeD)
qed

lemma duration_term_suffix:
  assumes "duration_term s = Some (t, r)"
  shows "\<exists>p u. s = p @ u @ r \<and> u \<noteq> [] \<and> graph_char (last u)"
proof -
  from assms obtain v s1 where li: "leadingInt 0 s = Some (v, s1)" by (auto simp: duration_term_def split: option.splits)
  let ?dot = "s1 \<noteq> '''' \<and> hd s1 = CHR ''.''" and ?P = "\<lambda>c. c \<noteq> CHR ''.'' \<and> \<not> is_digit c"
  obtain f sc s2 where s2: "(if ?dot then leadingFraction 0 1 False (tl s1) else (0, 1, s1)) = (f, sc, s2)" by (metis prod_cases3)
  from leadingInt_suffix [OF li] obtain p where p: "s = p @ s1" ..
  have "\<exists>q. s1 = q @ s2"
  proof (cases ?dot)
    case True
    with s2 obtain q where "tl s1 = q @ s2" using leadingFraction_suffix by (metis (full_types))
    with True have "s1 = (hd s1 # q) @ s2" by (metis append_Cons list.collapse)
    then show ?thesis by blast
  qed (use s2 in auto)
  then obtain q where q: "s1 = q @ s2" ..
  have u: "takeWhile ?P s2 \<noteq> [] \<and> graph_char (last (takeWhile ?P s2)) \<and> r = dropWhile ?P s2"
    using assms li s2 unit_last
    by (auto simp: duration_term_def Let_def split: option.splits if_splits prod.splits)
  have "s = (p @ q) @ takeWhile ?P s2 @ dropWhile ?P s2" using p q by simp
  with u show ?thesis by blast
qed

lemma duration_sum_ends: "duration_sum d s = Some x \<Longrightarrow> s \<noteq> [] \<Longrightarrow> graph_char (hd s) \<and> graph_char (last s)"
proof (induction d s rule: duration_sum.induct)
  case (1 d s)
  then obtain t r where hd: "hd s = CHR ''.'' \<or> is_digit (hd s)" and tm: "duration_term s = Some (t, r)"
    and rest: "duration_sum ((d + t) mod 2 ^ 64) r = Some x" and ok: "\<not> (d + t) mod 2 ^ 64 > 2 ^ 63"
    by (subst (asm) (2) duration_sum.simps) (auto simp: Let_def split: if_splits option.splits)
  have "graph_char (hd s)" using hd
    by (auto simp: is_digit_def char_digit_def Let_def graph_char_def less_eq_char_def split: if_splits)
  moreover obtain p u where s: "s = p @ u @ r" "u \<noteq> []" "graph_char (last u)" using duration_term_suffix [OF tm] by blast
  moreover have "r \<noteq> [] \<Longrightarrow> graph_char (last r)"
    using "1.IH" [OF \<open>s \<noteq> []\<close> _ tm] hd rest ok by auto
  ultimately show ?case by (cases "r = []") auto
qed

lemma ParseDuration_ends:
  assumes "ParseDuration v = Some d"
  shows "v \<noteq> [] \<and> graph_char (hd v) \<and> graph_char (last v)"
proof -
  have g: "graph_char CHR ''0''" "graph_char CHR ''-''" "graph_char CHR ''+''" by code_simp+
  let ?sgn = "v \<noteq> '''' \<and> (hd v = CHR ''-'' \<or> hd v = CHR ''+'')"
  let ?s = "if ?sgn then tl v else v"
  have "?s = ''0'' \<or> (?s \<noteq> [] \<and> (\<exists>x. duration_sum 0 ?s = Some x))"
    using assms by (auto simp: ParseDuration_def Let_def split: if_splits option.splits)
  then have s: "?s \<noteq> [] \<and> graph_char (hd ?s) \<and> graph_char (last ?s)"
    using g duration_sum_ends by auto
  show ?thesis
  proof (cases ?sgn)
    case True
    with s g show ?thesis by (auto simp: last_tl)
  next
    case False
    with s show ?thesis by auto
  qed
qed

lemma ParseDuration_TrimSpace: "ParseDuration v = Some d \<Longrightarrow> TrimSpace v = v"
proof -
  assume "ParseDuration v = Some d"
  note e = ParseDuration_ends [OF this]
  then show "TrimSpace v = v"
    using TrimSpace_graph [of "hd v" "tl v" "butlast v" "last v"] by simp
qed

lemma ParseDuration_samples:
  "ParseDuration ''4h'' = Some (4 * hour)" "ParseDuration ''1h30m'' = Some (90 * minute)" "ParseDuration ''0'' = Some 0"
  "ParseDuration ''15minutes'' = None" "ParseDuration '''' = None" "ParseDuration ''-1.5s'' = Some (- 1500000000)"
  by code_simp+

end
