(* ===== verification/RunConfig.thy ===== *)
theory RunConfig
  imports GoDuration Gates Approvals BreakGlass Freeze Discovery DriftPending
begin

text \<open>
  The configuration as the run pipelines see it: the schema types of \<open>internal/config/schemas\<close> that they
  read, the extraction of the components' settings (\<open>internal/run/config_extract.go\<close>, and
  \<open>declarationsFromConfig\<close> and \<open>changeMappingFromConfig\<close> of \<open>internal/run/preview.go\<close>), and the validation every
  configuration passes at load time (\<open>internal/config/loader.go\<close>, \<open>internal/config/durations.go\<close>).

  A Go pointer that may be nil is an option. YAML decoding produces these records and is not modelled; a
  map is an association list in the order Go happens to iterate it. Error messages are values that
  carry what the text quotes.
\<close>

subsection \<open>Schemas\<close>

record ApprovalSource =
  as_Type :: string
  as_Enabled :: "bool option"
  as_Command :: string

record ApprovalRuleYAML =
  ar_RequiredApprovals :: "int option"
  ar_Approvers :: "string list"
  ar_Codeowners :: "bool option"
  ar_RequireAllGroups :: "bool option"
  ar_DismissOnNewCommit :: "bool option"
  ar_Freshness :: string
  ar_AllowUnpinnedCommentApprovals :: "bool option"

record ApprovalsYAML =
  ay_Sources :: "ApprovalSource list"
  ay_Default :: ApprovalRuleYAML
  ay_Stacks :: "(string \<times> ApprovalRuleYAML) list"
  ay_AllowUnlistedApprovalsOnPublic :: bool

record PreconditionsYAML =
  py_RequireUpToDate :: "bool option"
  py_RequireChecksPassing :: "bool option"
  py_PreviewFreshness :: string
  py_PreviewMaxCommitsBehind :: int

record BreakGlassAuthorized =
  bh_InternalList :: "string list"
  bh_Codeowners :: bool
  bh_Anyone :: bool
  bh_VCSBypass :: bool
  bh_Groups :: "string list"

record BreakGlassYAML =
  by_Authorized :: BreakGlassAuthorized
  by_OverrideFreeze :: "bool option"
  by_RejectSelfAuthorization :: "bool option"

record FreezeWindowYAML =
  fy_Name :: string
  fy_Cron :: string
  fy_Duration :: string
  fy_Stacks :: "string list"

record ApplyConfig =
  ap_Trigger :: string
  ap_AllowForkPRs :: bool
  ap_AutoReady :: bool

record LockingConfig =
  lc_TTL :: string
  lc_ReaperInterval :: string

record CommentsConfig =
  co_Sort :: string
  co_Style :: string
  co_StackView :: string

record Shared =
  sh_BucketType :: string
  sh_Comments :: CommentsConfig
  sh_Locking :: LockingConfig
  sh_Approvals :: ApprovalsYAML
  sh_Preconditions :: PreconditionsYAML
  sh_FreezeWindows :: "FreezeWindowYAML list"
  sh_BreakGlass :: "BreakGlassYAML option"
  sh_Apply :: ApplyConfig
  sh_RetentionMaxAge :: string

record StackDecl =
  sd_Project :: string
  sd_Path :: string
  sd_Pattern :: string
  sd_Stacks :: "string list"

record ExcludeRule =
  ex_Pattern :: string
  ex_Stack :: string

record ExtraTrigger =
  et_Project :: string
  et_Paths :: "string list"

record ChangeMap =
  ch_IgnoreChanges :: "string list"
  ch_ExtraTriggers :: "ExtraTrigger list"
  ch_Scope :: string

record Execution =
  xe_MaxParallelStacks :: int
  xe_PreviewTimeout :: string
  xe_ApplyTimeout :: string

record PolicyHookYAML =
  hy_Name :: string
  hy_Command :: "string list"
  hy_OnFail :: string
  hy_Required :: "bool option"

record EngineState =
  es_AuthProvider :: string
  es_SecretsType :: string
  es_Passphrase :: string

record Engine =
  en_Type :: string
  en_State :: EngineState
  en_Stacks :: "StackDecl list"
  en_Exclude :: "ExcludeRule list"
  en_ChangeMapping :: ChangeMap
  en_Execution :: Execution
  en_PolicyHooks :: "PolicyHookYAML list"
  en_PlanLocking :: "bool option"

record ChannelYAML =
  cy_Type :: string
  cy_Name :: string
  cy_Enabled :: "bool option"
  cy_On :: "string list"
  cy_Grouping :: string

record DriftYAML =
  dy_TimeoutPerStack :: string
  dy_RenotifyAfter :: string
  dy_BaselineMaxAge :: string
  dy_FreshnessWindow :: string
  dy_Channels :: "ChannelYAML list"

record ProviderYAML =
  vy_Type :: string
  vy_Duration :: string
  vy_TTL :: string

record Config =
  cf_Shared :: "Shared option"
  cf_Engines :: "Engine list"
  cf_AuthProviders :: "(string \<times> ProviderYAML) list option"
  cf_Notifications :: "ChannelYAML list option"
  cf_Drift :: "DriftYAML option"

subsection \<open>Defaults the schemas resolve\<close>

definition ApplyTriggerComment :: string where "ApplyTriggerComment = ''comment''"
definition ApplyTriggerMerge :: string where "ApplyTriggerMerge = ''merge''"

definition TriggerMode :: "ApplyConfig \<Rightarrow> string" where
  "TriggerMode a = (if ap_Trigger a = ApplyTriggerMerge then ApplyTriggerMerge else ApplyTriggerComment)"

definition DefaultPreviewFreshness :: go_duration where "DefaultPreviewFreshness = 4 * hour"

definition ResolvedPreviewFreshness :: "PreconditionsYAML \<Rightarrow> go_duration \<times> bool" where
  "ResolvedPreviewFreshness p =
     (let v = TrimSpace (py_PreviewFreshness p) in
      if v = '''' then (DefaultPreviewFreshness, True)
      else case ParseDuration v of
             None \<Rightarrow> (0, False)
           | Some d \<Rightarrow> if d \<le> 0 then (0, False) else (d, True))"

definition opt_true :: "bool option \<Rightarrow> bool" where "opt_true x = (x = None \<or> x = Some True)"

definition IsRequired :: "PolicyHookYAML \<Rightarrow> bool" where "IsRequired h = opt_true (hy_Required h)"
definition IsEnabled :: "ChannelYAML \<Rightarrow> bool" where "IsEnabled c = opt_true (cy_Enabled c)"

definition EffectiveName :: "ChannelYAML \<Rightarrow> string" where
  "EffectiveName c = (if cy_Name c \<noteq> '''' then cy_Name c else cy_Type c)"

definition PlanLockingEnabled :: "Engine option \<Rightarrow> bool" where
  "PlanLockingEnabled e = (case e of None \<Rightarrow> True | Some en \<Rightarrow> opt_true (en_PlanLocking en))"

subsection \<open>Extraction\<close>

definition execTimeoutSec :: "Engine option \<Rightarrow> bool \<Rightarrow> int" where
  "execTimeoutSec e preview =
     (case e of
        None \<Rightarrow> 0
      | Some en \<Rightarrow>
          (let v = (if preview then xe_PreviewTimeout (en_Execution en) else xe_ApplyTimeout (en_Execution en)) in
           if v = '''' then 0
           else case ParseDuration v of
                  None \<Rightarrow> 0
                | Some d \<Rightarrow> if d \<le> 0 then 0 else d div second))"

definition PreviewTimeoutSec :: "Engine option \<Rightarrow> int" where "PreviewTimeoutSec e = execTimeoutSec e True"
definition ApplyTimeoutSec :: "Engine option \<Rightarrow> int" where "ApplyTimeoutSec e = execTimeoutSec e False"

definition no_gate_config :: GateConfig where
  "no_gate_config = \<lparr>c_RequireUpToDate = False, c_RequireChecksPassing = False, c_PreviewFreshness = 0,
     c_PreviewMaxCommitsBehind = 0, c_FailOnForkPRs = False\<rparr>"

definition toPreconditionsConfig :: "Shared option \<Rightarrow> GateConfig" where
  "toPreconditionsConfig s =
     (case s of
        None \<Rightarrow> no_gate_config
      | Some sh \<Rightarrow>
          (let p = sh_Preconditions sh in
           \<lparr>c_RequireUpToDate = (py_RequireUpToDate p = Some True),
            c_RequireChecksPassing = (py_RequireChecksPassing p = Some True),
            c_PreviewFreshness = (case ResolvedPreviewFreshness p of (d, enabled) \<Rightarrow> if enabled then d else 0),
            c_PreviewMaxCommitsBehind = py_PreviewMaxCommitsBehind p,
            c_FailOnForkPRs = (\<not> ap_AllowForkPRs (sh_Apply sh))\<rparr>))"

definition no_rules :: Rules where
  "no_rules = \<lparr>ru_RequiredApprovals = 0, ru_Approvers = [], ru_Codeowners = False, ru_RequireAllGroups = False,
     ru_DismissOnNewCommit = False, ru_AllowUnpinnedComments = False, ru_Freshness = 0,
     ru_AllowUnlistedApprovalsOnPublic = False, ru_TeamMembers = []\<rparr>"

definition toApprovalRule :: "ApprovalRuleYAML \<Rightarrow> Rules" where
  "toApprovalRule r =
     no_rules\<lparr>ru_Approvers := ar_Approvers r,
       ru_RequiredApprovals := (case ar_RequiredApprovals r of None \<Rightarrow> 0 | Some n \<Rightarrow> n),
       ru_Codeowners := (ar_Codeowners r = Some True),
       ru_RequireAllGroups := (ar_RequireAllGroups r = Some True),
       ru_DismissOnNewCommit := (ar_DismissOnNewCommit r = Some True),
       ru_AllowUnpinnedComments := (ar_AllowUnpinnedCommentApprovals r = Some True),
       ru_Freshness := (if ar_Freshness r = '''' then 0
                        else case ParseDuration (ar_Freshness r) of None \<Rightarrow> 0 | Some d \<Rightarrow> d)\<rparr>"

definition present_keys :: "ApprovalRuleYAML \<Rightarrow> string list" where
  "present_keys r =
     (if ar_RequiredApprovals r \<noteq> None then [''required_approvals''] else [])
   @ (if ar_Codeowners r \<noteq> None then [''codeowners''] else [])
   @ (if ar_RequireAllGroups r \<noteq> None then [''require_all_groups''] else [])
   @ (if ar_DismissOnNewCommit r \<noteq> None then [''dismiss_on_new_commit''] else [])
   @ (if ar_AllowUnpinnedCommentApprovals r \<noteq> None then [''allow_unpinned_comment_approvals''] else [])
   @ (if ar_Freshness r \<noteq> '''' then [''freshness''] else [])"

definition toApprovalsConfig :: "Shared option \<Rightarrow> ApprovalConfig" where
  "toApprovalsConfig s =
     (case s of
        None \<Rightarrow> \<lparr>ac_Sources = [], ac_Default = no_rules, ac_Stacks = []\<rparr>
      | Some sh \<Rightarrow>
          (let a = sh_Approvals sh; d = toApprovalRule (ay_Default a) in
           \<lparr>ac_Sources = map (\<lambda>src. \<lparr>sc_Type = as_Type src, sc_Enabled = (as_Enabled src = Some True),
                                      sc_Command = as_Command src\<rparr>) (ay_Sources a),
            ac_Default = d\<lparr>ru_DismissOnNewCommit := ru_DismissOnNewCommit d \<or> ar_DismissOnNewCommit (ay_Default a) = None,
                            ru_AllowUnlistedApprovalsOnPublic := ay_AllowUnlistedApprovalsOnPublic a\<rparr>,
            ac_Stacks = map (\<lambda>(pattern, r). \<lparr>sr_Pattern = pattern, sr_Rules = toApprovalRule r,
                                              sr_Present = present_keys r\<rparr>) (ay_Stacks a)\<rparr>))"

definition no_breakglass :: BGConfig where
  "no_breakglass = \<lparr>bg_Configured = False, bg_InternalList = [], bg_Codeowners = False, bg_Anyone = False,
     bg_VCSBypass = False, bg_Groups = [], bg_OverrideFreeze = False, bg_RejectSelfAuthorization = False\<rparr>"

definition toBreakGlassConfig :: "Shared option \<Rightarrow> BGConfig" where
  "toBreakGlassConfig s =
     (case s of
        None \<Rightarrow> no_breakglass
      | Some sh \<Rightarrow>
          (case sh_BreakGlass sh of
             None \<Rightarrow> no_breakglass
           | Some bg \<Rightarrow>
               (let au = by_Authorized bg in
                \<lparr>bg_Configured = True, bg_InternalList = bh_InternalList au, bg_Codeowners = bh_Codeowners au,
                 bg_Anyone = bh_Anyone au, bg_VCSBypass = bh_VCSBypass au, bg_Groups = bh_Groups au,
                 bg_OverrideFreeze = opt_true (by_OverrideFreeze bg),
                 bg_RejectSelfAuthorization = (by_RejectSelfAuthorization bg = Some True)\<rparr>)))"

text \<open>A window whose duration does not parse gets what \<open>ParseDuration\<close> returns with its error: zero.\<close>

definition toFreezeConfig :: "Shared option \<Rightarrow> Window list" where
  "toFreezeConfig s =
     (case s of
        None \<Rightarrow> []
      | Some sh \<Rightarrow>
          map (\<lambda>w. \<lparr>fw_Name = fy_Name w, fw_Cron = fy_Cron w,
                     fw_Duration = (case ParseDuration (fy_Duration w) of None \<Rightarrow> 0 | Some d \<Rightarrow> d),
                     fw_Stacks = fy_Stacks w\<rparr>) (sh_FreezeWindows sh))"

definition LockTTL :: "Shared option \<Rightarrow> go_duration" where
  "LockTTL s =
     (case s of
        None \<Rightarrow> 4 * hour
      | Some sh \<Rightarrow>
          if lc_TTL (sh_Locking sh) = '''' then 4 * hour
          else case ParseDuration (lc_TTL (sh_Locking sh)) of
                 None \<Rightarrow> 4 * hour
               | Some d \<Rightarrow> if 0 < d then d else 4 * hour)"

definition DefaultRetentionMaxAge :: string where "DefaultRetentionMaxAge = ''720h''"

definition resolveRetention :: "Shared option \<Rightarrow> go_duration \<times> bool" where
  "resolveRetention s =
     (let raw = (case s of
                   None \<Rightarrow> DefaultRetentionMaxAge
                 | Some sh \<Rightarrow> if sh_RetentionMaxAge sh \<noteq> '''' then sh_RetentionMaxAge sh else DefaultRetentionMaxAge);
          d = (case ParseDuration raw of
                 Some d \<Rightarrow> d
               | None \<Rightarrow> (case ParseDuration DefaultRetentionMaxAge of Some d \<Rightarrow> d | None \<Rightarrow> 0))
      in if d \<le> 0 then (0, False) else (d, True))"

definition declarationsFromConfig :: "Engine option \<Rightarrow> Declaration list \<times> Filter" where
  "declarationsFromConfig e =
     (case e of
        None \<Rightarrow> ([], \<lparr>fl_PathPatterns = [], fl_StackPatterns = []\<rparr>)
      | Some en \<Rightarrow>
          (map (\<lambda>s. \<lparr>dc_Project = sd_Project s, dc_Path = sd_Path s, dc_Pattern = sd_Pattern s, dc_Stacks = sd_Stacks s\<rparr>)
             (en_Stacks en),
           \<lparr>fl_PathPatterns = filter (\<lambda>p. p \<noteq> '''') (map ex_Pattern (en_Exclude en)),
            fl_StackPatterns = filter (\<lambda>p. p \<noteq> '''') (map ex_Stack (en_Exclude en))\<rparr>))"

definition add_trigger :: "ExtraTrigger \<Rightarrow> (string \<times> string list) list \<Rightarrow> (string \<times> string list) list" where
  "add_trigger t m = map_put (et_Project t) (map_get m [] (et_Project t) @ et_Paths t) m"

definition changeMappingFromConfig :: "Engine option \<Rightarrow> ChangeMapping" where
  "changeMappingFromConfig e =
     (case e of
        None \<Rightarrow> \<lparr>cg_IgnoreChanges = [], cg_ExtraTriggers = [], cg_Scope = ''''\<rparr>
      | Some en \<Rightarrow>
          \<lparr>cg_IgnoreChanges = ch_IgnoreChanges (en_ChangeMapping en),
           cg_ExtraTriggers = fold add_trigger (ch_ExtraTriggers (en_ChangeMapping en)) [],
           cg_Scope = ch_Scope (en_ChangeMapping en)\<rparr>)"

subsection \<open>Validation\<close>

datatype ConfigErr = NoEngine | MultipleEngines "string list" | NoShared | NoBucketType | BadTrigger string
  | FreshnessNotDuration string | FreshnessNotPositive string | InvalidDuration string string string
  | NotPositive string string string | ChannelTypeRequired string string | UnknownEvent string string string bool
  | UnknownGrouping string string string | NegativeParallel string | SourceTypeMissing | UnknownSource string
  | SourceEnabledMissing string

text \<open>
  \<open>ParseDurationExtended\<close> also accepts days and weeks; \<open>ext n unit\<close> is what \<open>strconv.ParseFloat\<close> makes of the
  number \<open>n\<close> times the unit, \<open>None\<close> when it does not parse or is negative.
\<close>

type_synonym float_units = "string \<Rightarrow> go_duration \<Rightarrow> go_duration option"

definition ParseDurationExtended :: "float_units \<Rightarrow> string \<Rightarrow> go_duration option" where
  "ParseDurationExtended ext s =
     (case ParseDuration s of
        Some d \<Rightarrow> Some d
      | None \<Rightarrow>
          (let n = TrimSuffix (TrimSuffix s ''d'') ''w'' in
           if HasSuffix s ''d'' then ext n (24 * hour)
           else if HasSuffix s ''w'' then ext n (7 * 24 * hour)
           else None))"

text \<open>The checks of one field, and the first error of a sequence of checks.\<close>

definition check_dur :: "string \<Rightarrow> string \<Rightarrow> string \<Rightarrow> ConfigErr option" where
  "check_dur fname field v =
     (if v = '''' then None else if ParseDuration v = None then Some (InvalidDuration fname field v) else None)"

definition check_pos :: "(string \<Rightarrow> go_duration option) \<Rightarrow> string \<Rightarrow> string \<Rightarrow> string \<Rightarrow> ConfigErr option" where
  "check_pos parse fname field v =
     (if v = '''' then None
      else case parse v of
             None \<Rightarrow> Some (InvalidDuration fname field v)
           | Some d \<Rightarrow> if d \<le> 0 then Some (NotPositive fname field v) else None)"

definition checkExtended :: "float_units \<Rightarrow> string \<Rightarrow> string \<Rightarrow> string \<Rightarrow> ConfigErr option" where
  "checkExtended ext fname field v =
     (if v = '''' then None
      else if ParseDurationExtended ext v = None then Some (InvalidDuration fname field v) else None)"

fun first_err :: "ConfigErr option list \<Rightarrow> ConfigErr option" where
  "first_err [] = None"
| "first_err (x # xs) = (case x of Some e \<Rightarrow> Some e | None \<Rightarrow> first_err xs)"

definition sortedKeys :: "(string \<times> 'v) list \<Rightarrow> string list" where
  "sortedKeys m = insertion_sort (<) (map fst m)"

definition shared_durations :: "Shared \<Rightarrow> ConfigErr option list" where
  "shared_durations s =
     [check_pos ParseDuration ''shared.yaml'' ''locking.ttl'' (lc_TTL (sh_Locking s)),
      check_pos ParseDuration ''shared.yaml'' ''locking.reaper_interval'' (lc_ReaperInterval (sh_Locking s)),
      check_dur ''shared.yaml'' ''retention.max_age'' (sh_RetentionMaxAge s),
      check_pos ParseDuration ''shared.yaml'' ''preconditions.preview_freshness'' (py_PreviewFreshness (sh_Preconditions s)),
      check_pos ParseDuration ''shared.yaml'' ''approvals.default.freshness'' (ar_Freshness (ay_Default (sh_Approvals s)))]
   @ map (\<lambda>p. check_pos ParseDuration ''shared.yaml'' (''approvals.stacks['' @ p @ ''].freshness'')
            (case map_of (ay_Stacks (sh_Approvals s)) p of None \<Rightarrow> '''' | Some r \<Rightarrow> ar_Freshness r))
       (sortedKeys (ay_Stacks (sh_Approvals s)))
   @ map (\<lambda>w. check_pos ParseDuration ''shared.yaml'' (''freeze_windows['' @ fy_Name w @ ''].duration'') (fy_Duration w))
       (sh_FreezeWindows s)"

definition engine_file :: "Engine \<Rightarrow> string" where
  "engine_file e = ''engine config (engine.type='' @ en_Type e @ '')''"

definition engine_durations :: "Engine \<Rightarrow> ConfigErr option list" where
  "engine_durations e =
     [check_pos ParseDuration (engine_file e) ''engine.execution.preview_timeout'' (xe_PreviewTimeout (en_Execution e)),
      check_pos ParseDuration (engine_file e) ''engine.execution.apply_timeout'' (xe_ApplyTimeout (en_Execution e))]"

definition drift_durations :: "float_units \<Rightarrow> DriftYAML \<Rightarrow> ConfigErr option list" where
  "drift_durations ext d =
     [check_pos ParseDuration ''drift.yaml'' ''freshness.window'' (dy_FreshnessWindow d),
      checkExtended ext ''drift.yaml'' ''behavior.state_bootstrap.baseline_max_age'' (dy_BaselineMaxAge d),
      check_pos (ParseDurationExtended ext) ''drift.yaml'' ''behavior.renotify_after'' (dy_RenotifyAfter d),
      check_pos (ParseDurationExtended ext) ''drift.yaml'' ''behavior.timeout_per_stack'' (dy_TimeoutPerStack d)]"

definition auth_durations :: "(string \<times> ProviderYAML) list \<Rightarrow> ConfigErr option list" where
  "auth_durations ps =
     concat (map (\<lambda>name. case map_of ps name of
                   None \<Rightarrow> []
                 | Some p \<Rightarrow> [check_dur ''auth.yaml'' (''providers['' @ name @ ''].duration'') (vy_Duration p),
                              check_dur ''auth.yaml'' (''providers['' @ name @ ''].ttl'') (vy_TTL p)])
       (sortedKeys ps))"

definition list_of_option :: "'a option \<Rightarrow> 'a list" where
  "list_of_option x = (case x of None \<Rightarrow> [] | Some y \<Rightarrow> [y])"

definition validateDurations :: "float_units \<Rightarrow> Config \<Rightarrow> ConfigErr option" where
  "validateDurations ext c =
     first_err (concat (map shared_durations (list_of_option (cf_Shared c)))
       @ concat (map engine_durations (cf_Engines c))
       @ concat (map (drift_durations ext) (list_of_option (cf_Drift c)))
       @ concat (map auth_durations (list_of_option (cf_AuthProviders c))))"

definition ValidChannelEvents :: "string list" where
  "ValidChannelEvents = [''planning'', ''plan'', ''ready'', ''approved'', ''applying'', ''applied'', ''failed'', ''blocked'',
     ''break_glass'', ''drift_detected'', ''drift_ongoing'', ''drift_resolved'', ''check_failed'', ''check_recovered'']"

definition ValidDriftChannelEvents :: "string list" where
  "ValidDriftChannelEvents = [''drift_detected'', ''drift_ongoing'', ''drift_resolved'', ''check_failed'', ''check_recovered'']"

definition IsValidChannelEvent :: "string \<Rightarrow> bool" where
  "IsValidChannelEvent name \<longleftrightarrow> name \<in> set ValidChannelEvents"

definition IsValidDriftChannelEvent :: "string \<Rightarrow> bool" where
  "IsValidDriftChannelEvent name \<longleftrightarrow> name \<in> set ValidDriftChannelEvents"

definition check_channel :: "string \<Rightarrow> bool \<Rightarrow> ChannelYAML \<Rightarrow> ConfigErr option list" where
  "check_channel fname driftOnly s =
     [if cy_Type s = '''' then Some (ChannelTypeRequired fname (EffectiveName s)) else None]
   @ map (\<lambda>ev. if driftOnly \<and> \<not> IsValidDriftChannelEvent ev \<or> \<not> driftOnly \<and> \<not> IsValidChannelEvent ev
               then Some (UnknownEvent fname (EffectiveName s) ev driftOnly) else None) (cy_On s)
   @ [if \<not> IsValidGroupingMode (cy_Grouping s)
      then Some (UnknownGrouping fname (EffectiveName s) (cy_Grouping s)) else None]"

definition validateChannels :: "Config \<Rightarrow> ConfigErr option" where
  "validateChannels c =
     first_err (concat (map (check_channel ''notifications.yaml'' False) (concat (list_of_option (cf_Notifications c))))
       @ concat (map (check_channel ''drift.yaml'' True) (concat (map dy_Channels (list_of_option (cf_Drift c))))))"

definition check_source :: "ApprovalSource \<Rightarrow> ConfigErr option" where
  "check_source s =
     (if as_Type s = '''' then Some SourceTypeMissing
      else if as_Type s \<noteq> SourcePRReview \<and> as_Type s \<noteq> SourcePRComment then Some (UnknownSource (as_Type s))
      else if as_Enabled s = None then Some (SourceEnabledMissing (as_Type s))
      else None)"

definition validateApprovalSources :: "Config \<Rightarrow> ConfigErr option" where
  "validateApprovalSources c =
     first_err (map check_source (concat (map (ay_Sources \<circ> sh_Approvals) (list_of_option (cf_Shared c)))))"

definition check_freshness :: "Shared \<Rightarrow> ConfigErr option" where
  "check_freshness s =
     (let v = TrimSpace (py_PreviewFreshness (sh_Preconditions s)) in
      if v = '''' \<or> v = ''0'' then None
      else case ParseDuration v of
             None \<Rightarrow> Some (FreshnessNotDuration v)
           | Some d \<Rightarrow> if d \<le> 0 then Some (FreshnessNotPositive v) else None)"

definition Validate :: "float_units \<Rightarrow> Config \<Rightarrow> ConfigErr option" where
  "Validate ext c =
     (if cf_Engines c = [] then Some NoEngine
      else if 1 < length (cf_Engines c) then Some (MultipleEngines (map en_Type (cf_Engines c)))
      else case cf_Shared c of
             None \<Rightarrow> Some NoShared
           | Some s \<Rightarrow>
               if sh_BucketType s = '''' then Some NoBucketType
               else if ap_Trigger (sh_Apply s) \<notin> {'''', ApplyTriggerComment, ApplyTriggerMerge}
                 then Some (BadTrigger (ap_Trigger (sh_Apply s)))
               else first_err ([check_freshness s, validateChannels c, validateDurations ext c]
                 @ map (\<lambda>e. if xe_MaxParallelStacks (en_Execution e) < 0 then Some (NegativeParallel (en_Type e)) else None)
                     (cf_Engines c)
                 @ [validateApprovalSources c]))"

subsection \<open>What validation guarantees\<close>

lemma first_err_None: "first_err xs = None \<longleftrightarrow> (\<forall>x\<in>set xs. x = None)"
  by (induction xs) (auto split: option.splits)

lemma check_pos_None: "check_pos parse f fl v = None \<longleftrightarrow> v = '''' \<or> (\<exists>d. parse v = Some d \<and> 0 < d)"
  by (auto simp: check_pos_def not_le split: option.splits if_splits)

text \<open>The number a set duration text denotes; the extractors see it, and never one of their fallbacks.\<close>

definition means :: "string \<Rightarrow> go_duration \<Rightarrow> go_duration \<Rightarrow> bool" where
  "means v d dflt \<longleftrightarrow> (if v = '''' then d = dflt else ParseDuration v = Some d \<and> 0 < d)"

lemma validate_parts:
  assumes "Validate ext c = None"
  obtains s e where "cf_Shared c = Some s" and "cf_Engines c = [e]"
    and "ap_Trigger (sh_Apply s) \<in> {'''', ApplyTriggerComment, ApplyTriggerMerge}"
    and "list_all (\<lambda>x. x = None) (shared_durations s)" and "list_all (\<lambda>x. x = None) (engine_durations e)"
    and "check_freshness s = None" and "list_all (\<lambda>x. check_source x = None) (ay_Sources (sh_Approvals s))"
proof -
  from assms have one: "cf_Engines c \<noteq> []" "\<not> 1 < length (cf_Engines c)"
    by (auto simp: Validate_def split: if_splits)
  then obtain e where e: "cf_Engines c = [e]" by (cases "cf_Engines c"; cases "tl (cf_Engines c)") auto
  from assms one obtain s where s: "cf_Shared c = Some s" by (auto simp: Validate_def split: option.splits if_splits)
  have "ap_Trigger (sh_Apply s) \<in> {'''', ApplyTriggerComment, ApplyTriggerMerge}"
    and parts: "\<forall>x\<in>{check_freshness s, validateDurations ext c, validateApprovalSources c}. x = None"
    using assms one s by (auto simp: Validate_def first_err_None simp del: first_err.simps split: if_splits)
  moreover from parts have "list_all (\<lambda>x. x = None) (shared_durations s)" "list_all (\<lambda>x. x = None) (engine_durations e)"
    "list_all (\<lambda>x. check_source x = None) (ay_Sources (sh_Approvals s))"
    using s e by (auto simp: validateDurations_def validateApprovalSources_def first_err_None list_of_option_def
        list_all_iff simp del: first_err.simps)
  ultimately show thesis using that [OF s e] by simp
qed

lemma set_duration_means: "check_pos ParseDuration f fl v = None \<Longrightarrow> \<exists>d. means v d dflt"
  by (auto simp: check_pos_None means_def)

lemma LockTTL_means: "means (lc_TTL (sh_Locking s)) d (4 * hour) \<Longrightarrow> LockTTL (Some s) = d"
  by (auto simp: LockTTL_def means_def split: if_splits)

lemma TrimSpace_Nil: "TrimSpace '''' = ''''"
  by code_simp

lemma freshness_means:
  assumes "means (py_PreviewFreshness p) d DefaultPreviewFreshness"
  shows "ResolvedPreviewFreshness p = (d, True)"
proof (cases "py_PreviewFreshness p = ''''")
  case True
  with assms show ?thesis by (simp add: ResolvedPreviewFreshness_def means_def TrimSpace_Nil)
next
  case False
  with assms have d: "ParseDuration (py_PreviewFreshness p) = Some d" "0 < d" by (simp_all add: means_def)
  from ParseDuration_TrimSpace [OF d(1)] d False show ?thesis by (simp add: ResolvedPreviewFreshness_def Let_def)
qed

lemma rule_freshness_means: "means (ar_Freshness r) d 0 \<Longrightarrow> ru_Freshness (toApprovalRule r) = d"
  by (auto simp: toApprovalRule_def means_def split: if_splits)

lemma window_means: "means (fy_Duration w) d 0 \<Longrightarrow> (case ParseDuration (fy_Duration w) of None \<Rightarrow> 0 | Some d \<Rightarrow> d) = d"
proof -
  have "ParseDuration '''' = None" by code_simp
  then show "means (fy_Duration w) d 0 \<Longrightarrow> ?thesis" by (auto simp: means_def split: if_splits)
qed

lemma set_sortedKeys [simp]: "set (sortedKeys m) = fst ` set m"
  by (simp add: sortedKeys_def)


definition sample_rule :: ApprovalRuleYAML where
  "sample_rule = \<lparr>ar_RequiredApprovals = None, ar_Approvers = [], ar_Codeowners = None, ar_RequireAllGroups = None,
     ar_DismissOnNewCommit = None, ar_Freshness = ''24h'', ar_AllowUnpinnedCommentApprovals = None\<rparr>"

definition sample_shared :: Shared where
  "sample_shared = \<lparr>sh_BucketType = ''s3'', sh_Comments = \<lparr>co_Sort = '''', co_Style = '''', co_StackView = ''''\<rparr>,
     sh_Locking = \<lparr>lc_TTL = ''15m'', lc_ReaperInterval = ''''\<rparr>,
     sh_Approvals = \<lparr>ay_Sources = [\<lparr>as_Type = ''pr_review'', as_Enabled = Some True, as_Command = ''''\<rparr>],
        ay_Default = sample_rule, ay_Stacks = [], ay_AllowUnlistedApprovalsOnPublic = False\<rparr>,
     sh_Preconditions = \<lparr>py_RequireUpToDate = Some True, py_RequireChecksPassing = Some True, py_PreviewFreshness = ''2h'',
        py_PreviewMaxCommitsBehind = 0\<rparr>,
     sh_FreezeWindows = [\<lparr>fy_Name = ''weekend'', fy_Cron = ''0 17 * * 5'', fy_Duration = ''65h'', fy_Stacks = []\<rparr>],
     sh_BreakGlass = None, sh_Apply = \<lparr>ap_Trigger = ''merge'', ap_AllowForkPRs = False, ap_AutoReady = False\<rparr>,
     sh_RetentionMaxAge = ''''\<rparr>"

definition sample_engine :: Engine where
  "sample_engine = \<lparr>en_Type = ''pulumi'', en_State = \<lparr>es_AuthProvider = '''', es_SecretsType = '''', es_Passphrase = ''''\<rparr>,
     en_Stacks = [], en_Exclude = [], en_ChangeMapping = \<lparr>ch_IgnoreChanges = [], ch_ExtraTriggers = [], ch_Scope = ''''\<rparr>,
     en_Execution = \<lparr>xe_MaxParallelStacks = 0, xe_PreviewTimeout = ''10m'', xe_ApplyTimeout = ''''\<rparr>,
     en_PolicyHooks = [], en_PlanLocking = None\<rparr>"

definition sample_config :: Config where
  "sample_config = \<lparr>cf_Shared = Some sample_shared, cf_Engines = [sample_engine], cf_AuthProviders = None,
     cf_Notifications = None, cf_Drift = None\<rparr>"

lemma sample_config_valid: "Validate (\<lambda>n u. None) sample_config = None"
  by code_simp


text \<open>
  A freeze window without a duration passes validation (an empty text is skipped) and never freezes anything.
\<close>

lemma window_without_duration_inactive:
  assumes "\<forall>w\<in>set ws. fw_Duration w = 0" and "\<forall>w\<in>set ws. \<exists>nxt. parse (fw_Cron w) = Inr nxt"
  shows "ActiveFor glob parse ws ref now = Inr None"
  using assms by (induction ws) (auto simp: mostRecentFire_def IsZero_def)

text \<open>
  Two rules of equal specificity that match one stack: which of them sets the number of approvals depends on the order
  the map is iterated in, and Go does not fix that order.
\<close>

definition star_glob :: "string \<Rightarrow> string \<Rightarrow> bool" where
  "star_glob pattern ref \<longleftrightarrow> pattern = ''api/*'' \<and> HasPrefix ref ''api/'' \<or> pattern = ''*/dev'' \<and> HasSuffix ref ''/dev''"

definition two_rules :: "(string \<times> ApprovalRuleYAML) list" where
  "two_rules = [(''api/*'', sample_rule\<lparr>ar_RequiredApprovals := Some 2\<rparr>), (''*/dev'', sample_rule\<lparr>ar_RequiredApprovals := Some 0\<rparr>)]"

definition with_stacks :: "(string \<times> ApprovalRuleYAML) list \<Rightarrow> Shared" where
  "with_stacks m = sample_shared\<lparr>sh_Approvals := (sh_Approvals sample_shared)\<lparr>ay_Stacks := m\<rparr>\<rparr>"

lemma rules_depend_on_map_order:
  "ru_RequiredApprovals (Resolve_rules star_glob (toApprovalsConfig (Some (with_stacks two_rules))) ''api/dev'') = 0
   \<and> ru_RequiredApprovals (Resolve_rules star_glob (toApprovalsConfig (Some (with_stacks (rev two_rules)))) ''api/dev'') = 2"
  by code_simp

end
