(* ===== verification/RunState.thy ===== *)
theory RunState
  imports RunConfig PreviewLookup
begin

text \<open>
  What a run keeps in the bucket beside its manifests, and the identity of the commit it works on:
  the applied marker (\<open>internal/run/applied_state.go\<close>), the pull-request head (\<open>internal/run/sha_helper.go\<close>, the pull
  request of \<open>internal/vcs/vcs.go\<close>), the changed files under the configured root (\<open>internal/run/change_scope.go\<close>), saved
  plans (\<open>internal/run/plan_artifacts.go\<close>) and the retention sweep (\<open>internal/run/gc.go\<close>).
\<close>

subsection \<open>The applied marker\<close>

record AppliedState =
  ad_CommitSHA :: string
  ad_RunID :: string
  ad_RunNumber :: int
  ad_AppliedAt :: string
  ad_PR :: int

definition appliedStateKey :: "int \<Rightarrow> string \<Rightarrow> string" where
  "appliedStateKey pr sha =
     (if pr = 0 then ''runs/local/applied/'' @ sha @ ''.json''
      else ''runs/pr-'' @ itoa pr @ ''/applied/'' @ sha @ ''.json'')"

datatype MarkErr = MarkEncode | MarkPut BlobErr

definition writeAppliedState ::
  "('s, 'c) Store option \<Rightarrow> (AppliedState \<Rightarrow> 'c option) \<Rightarrow> AppliedState \<Rightarrow> 's \<Rightarrow> 's \<times> MarkErr option" where
  "writeAppliedState store enc st s =
     (case store of
        None \<Rightarrow> (s, None)
      | Some B \<Rightarrow>
          if ad_CommitSHA st = '''' then (s, None)
          else case enc st of
                 None \<Rightarrow> (s, Some MarkEncode)
               | Some c \<Rightarrow>
                   (case s_Put B (appliedStateKey (ad_PR st) (ad_CommitSHA st)) c s of
                      (s', Inl e) \<Rightarrow> (s', Some (MarkPut e))
                    | (s', Inr _) \<Rightarrow> (s', None)))"

text \<open>Whatever goes wrong in the read counts as not applied.\<close>

definition readAppliedState ::
  "('s, 'c) Store option \<Rightarrow> ('c \<Rightarrow> AppliedState option) \<Rightarrow> int \<Rightarrow> string \<Rightarrow> 's \<Rightarrow> 's \<times> AppliedState option" where
  "readAppliedState store dec pr sha s =
     (case store of
        None \<Rightarrow> (s, None)
      | Some B \<Rightarrow>
          if sha = '''' then (s, None)
          else case s_Get B (appliedStateKey pr sha) s of
                 (s', Inl _) \<Rightarrow> (s', None)
               | (s', Inr (c, _)) \<Rightarrow> (s', dec c))"

subsection \<open>The head of the pull request\<close>

record VcsPR =
  vp_Number :: int
  vp_HeadSHA :: string
  vp_BaseRef :: string
  vp_Title :: string
  vp_Author :: string
  vp_IsFork :: bool
  vp_IsDraft :: bool
  vp_RepoPrivate :: bool

datatype HeadErr = ErrExpectedPRHeadInvalid | ErrPRHeadMismatch "(string \<times> string) option" | HeadUnavailable string

text \<open>
  A byte that is not a lower-case hexadecimal digit refuses the text, whatever rune it is part of; so does
  any text that lower-casing or trimming would change.
\<close>

definition hex_lower :: "char \<Rightarrow> bool" where
  "hex_lower c \<longleftrightarrow> c \<in> set ''0123456789abcdef''"

definition validateExpectedPRHead :: "string \<Rightarrow> HeadErr option" where
  "validateExpectedPRHead sha =
     (if sha = '''' then None
      else if length sha \<noteq> 40 \<or> sha \<noteq> ToLower sha \<or> TrimSpace sha \<noteq> sha then Some ErrExpectedPRHeadInvalid
      else if list_all hex_lower sha then None
      else Some ErrExpectedPRHeadInvalid)"

definition comparePRHead :: "VcsPR option \<Rightarrow> string \<Rightarrow> HeadErr option" where
  "comparePRHead pr expectedHead =
     (case pr of
        None \<Rightarrow> Some (ErrPRHeadMismatch None)
      | Some p \<Rightarrow>
          if vp_HeadSHA p = '''' then Some (ErrPRHeadMismatch None)
          else if vp_HeadSHA p \<noteq> expectedHead then Some (ErrPRHeadMismatch (Some (expectedHead, vp_HeadSHA p)))
          else None)"

definition VerifyExpectedPRHead :: "VcsPR option \<Rightarrow> string \<Rightarrow> HeadErr option" where
  "VerifyExpectedPRHead pr expectedHead =
     (case validateExpectedPRHead expectedHead of
        Some e \<Rightarrow> Some e
      | None \<Rightarrow> if expectedHead = '''' then None else comparePRHead pr expectedHead)"

text \<open>\<open>v\<close> is the outcome of \<open>GetPR\<close>, \<open>None\<close> when there is no client.\<close>

definition revalidatePRHead :: "(string + VcsPR option) option \<Rightarrow> int \<Rightarrow> string \<Rightarrow> HeadErr option" where
  "revalidatePRHead v prNumber expectedHead =
     (if expectedHead = '''' then None
      else case validateExpectedPRHead expectedHead of
             Some e \<Rightarrow> Some e
           | None \<Rightarrow>
               (case v of
                  None \<Rightarrow> Some (ErrPRHeadMismatch None)
                | Some r \<Rightarrow>
                    if prNumber = 0 then Some (ErrPRHeadMismatch None)
                    else (case r of
                            Inl e \<Rightarrow> Some (HeadUnavailable e)
                          | Inr pr \<Rightarrow> comparePRHead pr expectedHead)))"

definition resolvePR ::
  "(string + VcsPR option) option \<Rightarrow> int \<Rightarrow> string \<Rightarrow> string \<Rightarrow> HeadErr + string \<times> VcsPR option" where
  "resolvePR v prNumber sha expectedHead =
     (case validateExpectedPRHead expectedHead of
        Some e \<Rightarrow> Inl e
      | None \<Rightarrow>
          if v = None \<or> prNumber = 0
          then (if expectedHead \<noteq> '''' then Inl (ErrPRHeadMismatch None) else Inr (sha, None))
          else case the v of
                 Inl e \<Rightarrow> if expectedHead \<noteq> '''' then Inl (HeadUnavailable e) else Inr (sha, None)
               | Inr None \<Rightarrow>
                   if expectedHead \<noteq> '''' then Inl (HeadUnavailable ''empty PR response'') else Inr (sha, None)
               | Inr (Some pr) \<Rightarrow>
                   if expectedHead \<noteq> ''''
                   then (case comparePRHead (Some pr) expectedHead of
                           Some e \<Rightarrow> Inl e
                         | None \<Rightarrow> Inr (expectedHead, Some pr))
                   else if vp_HeadSHA pr = '''' \<or> vp_HeadSHA pr = sha then Inr (sha, Some pr)
                   else Inr (vp_HeadSHA pr, Some pr))"

definition run_scopeChangedFiles :: "string list \<Rightarrow> string \<Rightarrow> string list \<times> bool" where
  "run_scopeChangedFiles files repoPath =
     (let scoped = ScopeChangedFiles files repoPath in
      (scoped, repoPath \<noteq> '''' \<and> repoPath \<noteq> ''.'' \<and> files \<noteq> [] \<and> scoped = []))"

subsection \<open>Saved plans\<close>

definition maxPlanArtifactBytes :: nat where "maxPlanArtifactBytes = 64 * 2 ^ 20"

definition PlanArtifactKey :: "digest \<Rightarrow> int \<Rightarrow> string \<Rightarrow> string \<Rightarrow> string" where
  "PlanArtifactKey dig pr runID stackRef =
     (if pr = 0 then ''runs/local/'' @ runID @ ''/plans/'' @ SlugComponent dig stackRef ''stack'' @ ''.plan''
      else ''runs/pr-'' @ itoa pr @ ''/'' @ runID @ ''/plans/'' @ SlugComponent dig stackRef ''stack'' @ ''.plan'')"

datatype PlanErr = PlanFile string | PlanEmpty | PlanTooLarge nat | PlanBlob BlobErr

text \<open>\<open>plan\<close> is what the local file holds, or the error its \<open>stat\<close> or \<open>open\<close> returns.\<close>

definition PutPlanArtifact ::
  "digest \<Rightarrow> ('s, 'b list) Store option \<Rightarrow> int \<Rightarrow> string \<Rightarrow> string \<Rightarrow> string \<Rightarrow> (string + 'b list) \<Rightarrow> 's
     \<Rightarrow> 's \<times> (PlanErr + string)" where
  "PutPlanArtifact dig store pr runID stackRef path plan s =
     (case store of
        None \<Rightarrow> (s, Inr '''')
      | Some B \<Rightarrow>
          if path = '''' then (s, Inr '''')
          else case plan of
                 Inl e \<Rightarrow> (s, Inl (PlanFile e))
               | Inr bytes \<Rightarrow>
                   if bytes = [] then (s, Inl PlanEmpty)
                   else if maxPlanArtifactBytes < length bytes then (s, Inl (PlanTooLarge (length bytes)))
                   else let key = PlanArtifactKey dig pr runID stackRef in
                        case s_Put B key bytes s of
                          (s', Inl e) \<Rightarrow> (s', Inl (PlanBlob e))
                        | (s', Inr _) \<Rightarrow> (s', Inr key))"

text \<open>
  \<open>None\<close> is the empty path of a call without store or key. \<open>local\<close> is the error the temporary file may
  raise. On every error after its creation the file is removed again, so only a success leaves one.
\<close>

definition FetchPlanArtifact ::
  "('s, 'b list) Store option \<Rightarrow> string option \<Rightarrow> string \<Rightarrow> 's \<Rightarrow> 's \<times> (PlanErr + 'b list option)" where
  "FetchPlanArtifact store local key s =
     (case store of
        None \<Rightarrow> (s, Inr None)
      | Some B \<Rightarrow>
          if key = '''' then (s, Inr None)
          else case s_Get B key s of
                 (s', Inl e) \<Rightarrow> (s', Inl (PlanBlob e))
               | (s', Inr (bytes, _)) \<Rightarrow>
                   (s', case local of
                          Some e \<Rightarrow> Inl (PlanFile e)
                        | None \<Rightarrow>
                            if maxPlanArtifactBytes < length bytes then Inl (PlanTooLarge (length bytes))
                            else if bytes = [] then Inl PlanEmpty
                            else Inr (Some bytes)))"

subsection \<open>Retention\<close>

definition retentionPrefix :: string where "retentionPrefix = ''runs/''"

record 's RetentionStore =
  rt_ListMetadata :: "string \<Rightarrow> 's \<Rightarrow> 's \<times> (BlobErr + ListedObject list)"
  rt_DeleteIfMatch :: "string \<Rightarrow> string \<Rightarrow> 's \<Rightarrow> 's \<times> BlobErr option"

datatype GcErr = RetentionUnsupported | GcBlob BlobErr

text \<open>The errors that stop a sweep; the adapters report these sentinels with their text.\<close>

definition stops_sweep :: "BlobErr \<Rightarrow> bool" where
  "stops_sweep e \<longleftrightarrow>
     e \<in> {ErrIO ''context canceled'', ErrIO ''context deadline exceeded'',
          ErrIO ''bucket does not enforce conditional deletes'', ErrIO ''conditional-delete capability probe failed''}"

fun prune_loop ::
  "'s RetentionStore \<Rightarrow> int \<Rightarrow> ListedObject list \<Rightarrow> nat \<Rightarrow> 's \<Rightarrow> 's \<times> nat \<times> GcErr option" where
  "prune_loop R cutoff [] deleted s = (s, deleted, None)"
| "prune_loop R cutoff (ob # obs) deleted s =
     (if lo_LastModified ob = 0 \<or> lo_Version ob = '''' then prune_loop R cutoff obs deleted s
      else if lo_LastModified ob \<ge> cutoff then prune_loop R cutoff obs deleted s
      else case rt_DeleteIfMatch R (lo_Key ob) (lo_Version ob) s of
             (s', Some e) \<Rightarrow>
               if stops_sweep e then (s', deleted, Some (GcBlob e)) else prune_loop R cutoff obs deleted s'
           | (s', None) \<Rightarrow> prune_loop R cutoff obs (deleted + 1) s')"

text \<open>\<open>Some None\<close> is a store without metadata listing and conditional deletes.\<close>

definition PruneRunArtifacts ::
  "'s RetentionStore option option \<Rightarrow> go_duration \<Rightarrow> go_time \<Rightarrow> 's \<Rightarrow> 's \<times> nat \<times> GcErr option" where
  "PruneRunArtifacts store maxAge now s =
     (if store = None \<or> maxAge \<le> 0 then (s, 0, None)
      else case the store of
             None \<Rightarrow> (s, 0, Some RetentionUnsupported)
           | Some R \<Rightarrow>
               (case rt_ListMetadata R retentionPrefix s of
                  (s', Inl e) \<Rightarrow> (s', 0, Some (GcBlob e))
                | (s', Inr objects) \<Rightarrow> prune_loop R ((now - maxAge) div second) objects 0 s'))"

definition PruneConfiguredRunArtifacts ::
  "'s RetentionStore option option \<Rightarrow> Shared option \<Rightarrow> go_time \<Rightarrow> 's \<Rightarrow> 's \<times> nat \<times> bool \<times> GcErr option" where
  "PruneConfiguredRunArtifacts store sh now s =
     (case resolveRetention sh of
        (maxAge, enabled) \<Rightarrow>
          if \<not> enabled then (s, 0, False, None)
          else case PruneRunArtifacts store maxAge now s of (s', n, e) \<Rightarrow> (s', n, True, e))"

definition fs_retention :: "digest \<Rightarrow> 'b Disk RetentionStore" where
  "fs_retention sha = \<lparr>rt_ListMetadata = ListMetadata sha, rt_DeleteIfMatch = DeleteIfMatch sha\<rparr>"

subsection \<open>A sweep spares what is recent or not a run artifact\<close>

lemma delete_if_files:
  assumes "DeleteIfMatch sha k v d = (d', r)" and "canonical k"
  shows "d_files d' = d_files d \<or> d_files d' = map_del k (d_files d)"
proof -
  have rg: "removeGeneration sha flt e k = (e', y) \<Longrightarrow> d_files e' = d_files e" for flt e e' y
    by (auto simp: removeGeneration_def split: if_splits)
  have ro: "d_files e' = d_files e \<or> d_files e' = map_del k (d_files e)" if "remove_object sha flt e k = Inr e'" for flt e e'
    using remove_object_Inr [OF that] by (auto simp: os_Remove_def split: if_splits)
  have "d_files (begin_op d) = d_files d" by (simp add: begin_op_def)
  with assms show ?thesis
    by (auto simp: DeleteIfMatch_def locked_def canonical_def Let_def dest!: rg ro
        split: prod.splits sum.splits if_splits)
qed

lemma listed_objects:
  assumes "append_all sha flt d ps out = Inr res"
  shows "\<forall>ob\<in>set res. ob \<in> set out \<or> (\<exists>p\<in>set ps. listedObject sha flt d p = Inr ob)"
  using assms
proof (induction ps arbitrary: out)
  case (Cons p ps)
  show ?case
  proof (cases "listedObject sha flt d p")
    case (Inl e)
    with Cons show ?thesis by (auto simp: appendListedObject_def split: if_splits)
  next
    case (Inr ob)
    with Cons.prems have "append_all sha flt d ps (out @ [ob]) = Inr res" by (simp add: appendListedObject_def)
    from Cons.IH [OF this] Inr show ?thesis by auto
  qed
qed simp

lemma listed_file:
  "listedObject sha flt d p = Inr ob \<Longrightarrow> map_of (d_files d) p = Some f \<Longrightarrow>
   lo_Key ob = p \<and> lo_LastModified ob = f_mtime f div second"
  by (auto simp: listedObject_def inspectKey_def os_Stat_def split: if_splits sum.splits option.splits)

definition run_artifact :: "string \<Rightarrow> bool" where
  "run_artifact k \<longleftrightarrow> k = ''runs'' \<or> HasPrefix k ''runs/''"

lemma runs_start: "list_start retentionPrefix = Inr ''runs''"
  by code_simp

lemma retention_listing:
  assumes "ListMetadata sha retentionPrefix d = (d', Inr objects)" and "ob \<in> set objects"
  shows "run_artifact (lo_Key ob) \<and> (\<exists>f. map_of (d_files d) (lo_Key ob) = Some f \<and> lo_LastModified ob = f_mtime f div second)"
proof -
  have files: "d_files (begin_op d) = d_files d" by (simp add: begin_op_def)
  let ?flt = "cur_faults d" and ?d = "begin_op d"
  from assms(1) consider (single) "map_of (d_files d) ''runs'' \<noteq> None" "appendListedObject sha ?flt ?d ''runs'' [] = Inr objects"
    | (empty) "objects = []" | (walk) "append_all sha ?flt ?d (walk_keys ?d ''runs'') [] = Inr objects"
    by (auto simp: ListMetadata_def Let_def runs_start files split: if_splits)
  then show ?thesis
  proof cases
    case single
    with assms(2) have "listedObject sha ?flt ?d ''runs'' = Inr ob"
      by (auto simp: appendListedObject_def split: sum.splits if_splits)
    with single(1) listed_file show ?thesis unfolding files [symmetric] by (force simp: run_artifact_def)
  next
    case walk
    from listed_objects [OF this] assms(2) obtain p where p: "p \<in> set (walk_keys ?d ''runs'')"
      and ob: "listedObject sha ?flt ?d p = Inr ob" by auto
    from p have "p \<in> fst ` set (d_files d)" and u: "under ''runs'' p" by (auto simp: walk_keys_def files)
    then obtain f where "map_of (d_files ?d) p = Some f" by (metis files map_of_eq_None_iff not_None_eq)
    with listed_file [OF ob] u show ?thesis by (auto simp: files run_artifact_def under_def)
  qed (use assms(2) in simp)
qed

lemma prune_loop_files:
  assumes "prune_loop (fs_retention sha) cutoff obs n d = (d', m, err)"
    and "\<forall>ob\<in>set obs. canonical (lo_Key ob)"
  shows "map_of (d_files d') k = map_of (d_files d) k
    \<or> map_of (d_files d') k = None \<and> (\<exists>ob\<in>set obs. lo_Key ob = k \<and> lo_LastModified ob < cutoff)"
  using assms
proof (induction obs arbitrary: n d)
  case (Cons ob obs)
  show ?case
  proof (cases "lo_LastModified ob = 0 \<or> lo_Version ob = '''' \<or> lo_LastModified ob \<ge> cutoff")
    case True
    with Cons.prems have "prune_loop (fs_retention sha) cutoff obs n d = (d', m, err)" by (auto split: if_splits)
    from Cons.IH [OF this] Cons.prems(2) show ?thesis by auto
  next
    case False
    obtain d1 r where del: "DeleteIfMatch sha (lo_Key ob) (lo_Version ob) d = (d1, r)" by (meson surj_pair)
    have step: "map_of (d_files d1) k = map_of (d_files d) k \<or> map_of (d_files d1) k = None \<and> lo_Key ob = k"
      using delete_if_files [OF del] Cons.prems(2) by (auto split: if_splits)
    from Cons.prems(1) False del consider "d' = d1" | n' where "prune_loop (fs_retention sha) cutoff obs n' d1 = (d', m, err)"
      by (auto simp: fs_retention_def split: option.splits if_splits)
    then show ?thesis
    proof cases
      case 1
      with step False show ?thesis by auto
    next
      case 2
      from Cons.IH [OF this(1)] Cons.prems(2) step False show ?thesis by auto
    qed
  qed
qed simp


text \<open>A bucket with an old manifest, a recent one and an old lock.\<close>

definition aged_bucket :: "char Disk" where
  "aged_bucket = \<lparr>d_files = [(''runs/pr-1/run-1-a/manifest.json'', \<lparr>f_data = ''old'', f_mtime = second\<rparr>),
       (''runs/pr-2/run-2-b/manifest.json'', \<lparr>f_data = ''new'', f_mtime = 900 * second\<rparr>),
       (''locks/api/prod.json'', \<lparr>f_data = ''lock'', f_mtime = second\<rparr>)],
     d_dirs = [(''runs'', \<lparr>fi_Size = 0, fi_ModTime = 0\<rparr>)], d_gens = [], d_rands = [], d_clock = 0, d_faults = []\<rparr>"

lemma aged_bucket_sweep:
  "PruneRunArtifacts (Some (Some (fs_retention id_digest))) (500 * second) (1000 * second) aged_bucket
   = (aged_bucket\<lparr>d_files := tl (d_files aged_bucket)\<rparr>, 1, None)"
  by code_simp


subsection \<open>The head a run works on\<close>

lemma hex_text:
  assumes "list_all hex_lower sha"
  shows "ToLower sha = sha \<and> TrimSpace sha = sha"
proof
  have h: "list_all (\<lambda>c. to_lower_char c = c \<and> graph_char c) ''0123456789abcdef''" by code_simp
  then have c: "\<forall>c\<in>set sha. to_lower_char c = c \<and> graph_char c"
    using assms unfolding list_all_iff hex_lower_def by blast
  then show "ToLower sha = sha" by (simp add: ToLower_def map_idI)
  show "TrimSpace sha = sha"
  proof (cases sha)
    case Nil
    then show ?thesis by (simp add: TrimSpace_Nil)
  next
    case (Cons x xs)
    have "TrimSpace (x # xs) = x # xs"
    proof (rule TrimSpace_graph)
      show "x # xs = butlast (x # xs) @ [last (x # xs)]" by (rule append_butlast_last_id [symmetric]) simp
      show "graph_char x" "graph_char (last (x # xs))" using c Cons last_in_set [of sha] by auto
    qed
    with Cons show ?thesis by simp
  qed
qed

text \<open>
  A run is bound to the commit that was checked out. An expected head is accepted exactly when it is empty or forty
  lower-case hexadecimal digits; when one is given, the run goes on only if the pull request's current head is that very
  commit, and it then works on it; without one it works on the pull request's head when that is known, else on
  the given commit.
\<close>

theorem run_bound_to_head:
  "(validateExpectedPRHead e = None \<longleftrightarrow> e = '''' \<or> length e = 40 \<and> list_all hex_lower e)
   \<and> (e \<noteq> '''' \<longrightarrow>
        (resolvePR v n sha e = Inr (sha', p) \<longleftrightarrow>
           validateExpectedPRHead e = None \<and> n \<noteq> 0 \<and> sha' = e
           \<and> (\<exists>pr. v = Some (Inr (Some pr)) \<and> vp_HeadSHA pr = e \<and> p = Some pr))
      \<and> (revalidatePRHead v n e = None \<longleftrightarrow>
           validateExpectedPRHead e = None \<and> n \<noteq> 0 \<and> (\<exists>pr. v = Some (Inr (Some pr)) \<and> vp_HeadSHA pr = e)))
   \<and> (e = '''' \<longrightarrow>
        (\<exists>q. resolvePR v n sha e =
           Inr (if n \<noteq> 0 \<and> (\<exists>pr. v = Some (Inr (Some pr)) \<and> vp_HeadSHA pr \<noteq> '''')
                then vp_HeadSHA (the (projr (the v))) else sha, q)))"
proof (intro conjI impI)
  show "validateExpectedPRHead e = None \<longleftrightarrow> e = '''' \<or> length e = 40 \<and> list_all hex_lower e"
    using hex_text [of e] by (auto simp: validateExpectedPRHead_def)
next
  assume "e \<noteq> ''''"
  then show "resolvePR v n sha e = Inr (sha', p) \<longleftrightarrow>
      validateExpectedPRHead e = None \<and> n \<noteq> 0 \<and> sha' = e
      \<and> (\<exists>pr. v = Some (Inr (Some pr)) \<and> vp_HeadSHA pr = e \<and> p = Some pr)"
    by (auto simp: resolvePR_def comparePRHead_def split: option.splits sum.splits if_splits)
next
  assume "e \<noteq> ''''"
  then show "revalidatePRHead v n e = None \<longleftrightarrow>
      validateExpectedPRHead e = None \<and> n \<noteq> 0 \<and> (\<exists>pr. v = Some (Inr (Some pr)) \<and> vp_HeadSHA pr = e)"
    by (auto simp: revalidatePRHead_def comparePRHead_def split: option.splits sum.splits if_splits)
next
  assume e: "e = ''''"
  show "\<exists>q. resolvePR v n sha e =
      Inr (if n \<noteq> 0 \<and> (\<exists>pr. v = Some (Inr (Some pr)) \<and> vp_HeadSHA pr \<noteq> '''')
           then vp_HeadSHA (the (projr (the v))) else sha, q)"
    using e by (cases v) (auto simp: resolvePR_def validateExpectedPRHead_def split: option.splits sum.splits)
qed

definition sample_head :: string where "sample_head = ''0123456789abcdef0123456789abcdef01234567''"

definition sample_vcs_pr :: VcsPR where
  "sample_vcs_pr = \<lparr>vp_Number = 7, vp_HeadSHA = sample_head, vp_BaseRef = ''main'', vp_Title = ''t'', vp_Author = ''alice'',
     vp_IsFork = False, vp_IsDraft = False, vp_RepoPrivate = True\<rparr>"

theorem run_bound_to_head_witness:
  "resolvePR (Some (Inr (Some sample_vcs_pr))) 7 ''merge'' sample_head = Inr (sample_head, Some sample_vcs_pr)
   \<and> resolvePR (Some (Inr (Some sample_vcs_pr))) 7 ''merge'' '''' = Inr (sample_head, Some sample_vcs_pr)"
proof
  have ok: "validateExpectedPRHead sample_head = None" by code_simp
  have ne: "sample_head \<noteq> ''''" by (simp add: sample_head_def)
  show "resolvePR (Some (Inr (Some sample_vcs_pr))) 7 ''merge'' sample_head = Inr (sample_head, Some sample_vcs_pr)"
    using run_bound_to_head [of sample_head "Some (Inr (Some sample_vcs_pr))" 7 "''merge''" sample_head "Some sample_vcs_pr"] ok ne
    by (auto simp: sample_vcs_pr_def)
  show "resolvePR (Some (Inr (Some sample_vcs_pr))) 7 ''merge'' '''' = Inr (sample_head, Some sample_vcs_pr)"
    by code_simp
qed

end
