(* ===== verification/RunRecords.thy ===== *)
theory RunRecords
  imports LockStore PreviewLookup
begin

text \<open>
  The durable records of a run in the shared bucket: the write-once audit log (\<open>internal/audit/audit.go\<close>) and the
  per-commit timeline that concurrent runs append to (\<open>internal/run/timeline.go\<close>, its comment rendering apart).
  Both are clients of the conditional-write contract \<open>cas_store\<close>; the JSON codecs are parameters.
\<close>

subsection \<open>The audit log\<close>

record AuditStack =
  au_Ref :: string
  au_Env :: string
  au_Status :: string
  au_Counts :: Counts
  au_DurationMS :: int
  au_Error :: string

record AuditBreakGlass =
  ab_Justification :: string
  ab_AuthorizedVia :: string
  ab_OverriddenGates :: "string list"
  ab_AuthorizingConfigModified :: bool
  ab_AuthorizingPathsModified :: "string list"

record AuditEntry =
  ae_SchemaVersion :: int
  ae_RunID :: string
  ae_Op :: string
  ae_StartedAt :: string
  ae_FinishedAt :: string
  ae_Actor :: string
  ae_PR :: int
  ae_CommitSHA :: string
  ae_Repo :: string
  ae_RunURL :: string
  ae_Outcome :: string
  ae_Stacks :: "AuditStack list"
  ae_DurationMS :: int
  ae_BreakGlass :: "AuditBreakGlass option"

definition SchemaVersion :: int where "SchemaVersion = 1"

datatype AuditErr = AuditProbe ProbeErr | AuditStartedAt string | AuditEncode | AuditBlob BlobErr

definition audit_key :: "go_time \<Rightarrow> string \<Rightarrow> string" where
  "audit_key started runID =
     (case civil_of_days (started div (24 * hour)) of
        (y, m, d) \<Rightarrow> ''audit/'' @ pad_int 4 y @ ''/'' @ pad_int 2 m @ ''/'' @ pad_int 2 d @ ''/'' @ runID @ ''.json'')"

text \<open>\<open>Writer.Write\<close>: \<open>p\<close> is the writer's probe, \<open>rnd\<close> and \<open>bodies\<close> what the probe sends.\<close>

definition audit_Write ::
  "('s, 'c) Store \<Rightarrow> string option \<Rightarrow> 'c \<times> 'c \<times> 'c \<times> 'c \<Rightarrow> (AuditEntry \<Rightarrow> 'c option) \<Rightarrow> AuditEntry \<Rightarrow> CASProbe \<Rightarrow> 's
     \<Rightarrow> 's \<times> CASProbe \<times> AuditErr option" where
  "audit_Write B rnd bodies enc e p s =
     (case Ensure B rnd bodies p s of
        (s1, p1, Some err) \<Rightarrow> (s1, p1, Some (AuditProbe err))
      | (s1, p1, None) \<Rightarrow>
          (let e1 = (if ae_SchemaVersion e = 0 then e\<lparr>ae_SchemaVersion := SchemaVersion\<rparr> else e) in
           case parse_rfc3339 (ae_StartedAt e1) of
             None \<Rightarrow> (s1, p1, Some (AuditStartedAt (ae_StartedAt e1)))
           | Some started \<Rightarrow>
               (case enc e1 of
                  None \<Rightarrow> (s1, p1, Some AuditEncode)
                | Some c \<Rightarrow>
                    (case s_PutIfMatch B (audit_key started (ae_RunID e1)) c '''' s1 of
                       (s2, Inl err) \<Rightarrow> (s2, p1, Some (AuditBlob err))
                     | (s2, Inr _) \<Rightarrow> (s2, p1, None)))))"

subsection \<open>The timeline\<close>

record TimelineEntry =
  te_Icon :: string
  te_Label :: string
  te_Detail :: string

record Timeline =
  tl_pr :: int
  tl_sha :: string
  tl_enabled :: bool
  tl_entries :: "TimelineEntry list"

definition newApplyTimeline :: "int \<Rightarrow> string \<Rightarrow> Timeline" where
  "newApplyTimeline pr sha = \<lparr>tl_pr = pr, tl_sha = sha, tl_enabled = 0 < pr, tl_entries = []\<rparr>"

definition applyTimelineKey :: "int \<Rightarrow> string \<Rightarrow> string" where
  "applyTimelineKey pr sha =
     (if pr = 0 then ''runs/local/timeline/'' @ shortSHA sha @ ''.json''
      else ''runs/pr-'' @ itoa pr @ ''/timeline/'' @ shortSHA sha @ ''.json'')"

definition timeline_loadState ::
  "('s, 'c) Store \<Rightarrow> ('c \<Rightarrow> TimelineEntry list option) \<Rightarrow> string \<Rightarrow> 's \<Rightarrow> 's \<times> (TimelineEntry list \<times> string) option" where
  "timeline_loadState B dec key s =
     (case s_Get B key s of
        (s', Inl e) \<Rightarrow> (s', if e = ErrNotFound then Some ([], '''') else None)
      | (s', Inr (c, md)) \<Rightarrow> (s', case dec c of None \<Rightarrow> None | Some es \<Rightarrow> Some (es, md_ETag md)))"

text \<open>\<open>n\<close> attempts are left; \<open>mine\<close> is this run's own list, used when the state cannot be stored.\<close>

fun persist_loop ::
  "('s, 'c) Store \<Rightarrow> ('c \<Rightarrow> TimelineEntry list option) \<Rightarrow> (TimelineEntry list \<Rightarrow> 'c option) \<Rightarrow> string
     \<Rightarrow> TimelineEntry list \<Rightarrow> TimelineEntry \<Rightarrow> nat \<Rightarrow> 's \<Rightarrow> 's \<times> TimelineEntry list" where
  "persist_loop B dec enc key mine e 0 s = (s, mine @ [e])"
| "persist_loop B dec enc key mine e (Suc n) s =
     (case timeline_loadState B dec key s of
        (s1, None) \<Rightarrow> (s1, mine @ [e])
      | (s1, Some (es, etag)) \<Rightarrow>
          (case enc (es @ [e]) of
             None \<Rightarrow> (s1, mine @ [e])
           | Some c \<Rightarrow>
               (case s_PutIfMatch B key c etag s1 of
                  (s2, Inr _) \<Rightarrow> (s2, es @ [e])
                | (s2, Inl err) \<Rightarrow>
                    if err \<noteq> ErrPreconditionFailed then (s2, mine @ [e])
                    else persist_loop B dec enc key mine e n s2)))"

definition timeline_persist ::
  "('s, 'c) Store option \<Rightarrow> ('c \<Rightarrow> TimelineEntry list option) \<Rightarrow> (TimelineEntry list \<Rightarrow> 'c option) \<Rightarrow> TimelineEntry
     \<Rightarrow> Timeline \<Rightarrow> 's \<Rightarrow> 's \<times> TimelineEntry list" where
  "timeline_persist store dec enc e t s =
     (case store of
        None \<Rightarrow> (s, tl_entries t @ [e])
      | Some B \<Rightarrow> persist_loop B dec enc (applyTimelineKey (tl_pr t) (tl_sha t)) (tl_entries t) e 3 s)"

definition timeline_add ::
  "('s, 'c) Store option \<Rightarrow> ('c \<Rightarrow> TimelineEntry list option) \<Rightarrow> (TimelineEntry list \<Rightarrow> 'c option) \<Rightarrow> TimelineEntry
     \<Rightarrow> Timeline \<Rightarrow> 's \<Rightarrow> 's \<times> Timeline" where
  "timeline_add store dec enc e t s =
     (if \<not> tl_enabled t then (s, t)
      else case timeline_persist store dec enc e t s of (s', es) \<Rightarrow> (s', t\<lparr>tl_entries := es\<rparr>))"

subsection \<open>Written once, appended to without loss\<close>

context cas_store
begin

lemma audit_created:
  assumes "audit_Write B rnd bodies enc e p s = (s', p', None)" and "inv s"
    and "\<forall>sfx. rnd = Some sfx \<longrightarrow> keys_ok (casProbePrefix @ sfx)" and "\<And>t. parse_rfc3339 (ae_StartedAt e) = Some t \<Longrightarrow> keys_ok (audit_key t (ae_RunID e))"
  obtains t started c v where "evolves s t" and "evolves t s'" and "parse_rfc3339 (ae_StartedAt e) = Some started"
    and "obj t (audit_key started (ae_RunID e)) = None"
    and "obj s' = (obj t)(audit_key started (ae_RunID e) \<mapsto> (v, c))"
    and "enc (if ae_SchemaVersion e = 0 then e\<lparr>ae_SchemaVersion := SchemaVersion\<rparr> else e) = Some c"
proof -
  let ?e = "if ae_SchemaVersion e = 0 then e\<lparr>ae_SchemaVersion := SchemaVersion\<rparr> else e"
  have same: "ae_StartedAt ?e = ae_StartedAt e" "ae_RunID ?e = ae_RunID e" by simp_all
  obtain s1 p1 err where en: "Ensure B rnd bodies p s = (s1, p1, err)" by (metis prod_cases3)
  from ensure_keeps [OF assms(2,3) en] have s1: "inv s1" "evolves s s1" by simp_all
  from assms(1) en obtain started c md where parts: "parse_rfc3339 (ae_StartedAt e) = Some started" "enc ?e = Some c"
    "s_PutIfMatch B (audit_key started (ae_RunID e)) c '''' s1 = (s', Inr md)"
    by (auto simp: audit_Write_def Let_def same split: option.splits prod.splits sum.splits)
  from put_law [OF s1(1) assms(4) [OF parts(1)] parts(3)] obtain t where "evolves s1 t" "evolves t s'"
    "obj t (audit_key started (ae_RunID e)) = None" "obj s' = (obj t)(audit_key started (ae_RunID e) \<mapsto> (md_ETag md, c))"
    by auto
  with that parts s1(2) evolves_trans show thesis by blast
qed

text \<open>Adding an entry either appends it to what is stored at that moment or leaves the bucket to the other processes.\<close>

lemma persist_appends:
  assumes "persist_loop B dec enc key mine e n s = (s', es)" and "inv s" and "keys_ok key"
    and "\<And>l c. enc l = Some c \<Longrightarrow> dec c = Some l"
  shows "inv s' \<and> evolves s s'
    \<and> (es = mine @ [e]
       \<or> (\<exists>t old c v. es = old @ [e] \<and> evolves s t \<and> evolves t s'
            \<and> (case obj t key of None \<Rightarrow> old = [] | Some (u, c0) \<Rightarrow> dec c0 = Some old)
            \<and> obj s' = (obj t)(key \<mapsto> (v, c)) \<and> dec c = Some es))"
  using assms(1,2)
proof (induction n arbitrary: s)
  case 0
  then show ?case by (simp add: evolves_refl)
next
  case (Suc n)
  obtain s1 g where g: "s_Get B key s = (s1, g)" by (meson surj_pair)
  from get_law [OF Suc.prems(2) assms(3) g] have s1: "inv s1" "evolves s s1" by simp_all
  show ?case
  proof (cases "snd (timeline_loadState B dec key s)")
    case None
    then have "timeline_loadState B dec key s = (s1, None)"
      using g by (auto simp: timeline_loadState_def split: sum.splits)
    with Suc.prems s1 show ?thesis by auto
  next
    case (Some x)
    obtain old etag where x: "x = (old, etag)" by (cases x)
    have ld: "timeline_loadState B dec key s = (s1, Some (old, etag))"
      using g Some x by (auto simp: timeline_loadState_def split: sum.splits)
    have stored: "etag = '''' \<and> old = [] \<and> obj s1 key = None \<or> (\<exists>c0. obj s1 key = Some (etag, c0) \<and> dec c0 = Some old)"
      using ld g get_law [OF Suc.prems(2) assms(3) g]
      by (auto simp: timeline_loadState_def split: sum.splits if_splits option.splits)
    show ?thesis
    proof (cases "enc (old @ [e])")
      case None
      with Suc.prems ld s1 show ?thesis by auto
    next
      case (Some c)
      obtain s2 w where w: "s_PutIfMatch B key c etag s1 = (s2, w)" by (meson surj_pair)
      note pl = put_law [OF s1(1) assms(3) w]
      then have s2: "inv s2" "evolves s s2" using s1(2) evolves_trans by blast+
      show ?thesis
      proof (cases w)
        case (Inl err)
        show ?thesis
        proof (cases "err = ErrPreconditionFailed")
          case True
          with Suc.prems ld Some w Inl have "persist_loop B dec enc key mine e n s2 = (s', es)" by simp
          note ih = Suc.IH [OF this s2(1)]
          then have "inv s'" "evolves s s'" using s2(2) evolves_trans by blast+
          moreover have "evolves s u" if "evolves s2 u" for u using s2(2) that evolves_trans by blast
          ultimately show ?thesis using ih by metis
        next
          case False
          with Suc.prems ld Some w Inl have "s' = s2" "es = mine @ [e]" by simp_all
          with s2 show ?thesis by simp
        qed
      next
        case (Inr md)
        then have fin: "s' = s2" "es = old @ [e]" using Suc.prems ld Some w by auto
        from pl Inr obtain t where t: "evolves s1 t" "inv t" "evolves t s2"
          "if etag = '''' then obj t key = None else \<exists>c'. obj t key = Some (etag, c')"
          "obj s2 = (obj t)(key \<mapsto> (md_ETag md, c))" by auto
        have "case obj t key of None \<Rightarrow> old = [] | Some (u, c0) \<Rightarrow> dec c0 = Some old"
        proof (cases "etag = ''''")
          case True
          with stored version_nonempty [OF s1(1)] t(4) show ?thesis by auto
        next
          case False
          with stored obtain c0 where c0: "obj s1 key = Some (etag, c0)" "dec c0 = Some old" by auto
          from False t(4) obtain c' where c': "obj t key = Some (etag, c')" by auto
          from version_law [OF s1(1) t(1) c0(1) c'] c0 c' show ?thesis by simp
        qed
        moreover have "dec c = Some es" using assms(4) [OF Some] fin by simp
        moreover have "evolves s t" using s1(2) t(1) evolves_trans by blast
        ultimately show ?thesis using fin t(3,5) s2 by metis
      qed
    qed
  qed
qed

end

text \<open>
  The audit log is write-once. Whatever the other processes do to the bucket in the meantime, a write that
  reports success created its entry: at the instant of the write no object was stored under the run's key, the write
  stored the encoded entry there, and touched no other object. A second entry for the same run and day is therefore refused,
  never written over the first.
\<close>

theorem audit_write_once:
  assumes "audit_Write (shared (filesystem dig)) rnd bodies enc e p w = (w', p', None)"
    and "world_inv (fs_inv dig U) (disk_evolves dig U) w" and "\<forall>sfx. rnd = Some sfx \<longrightarrow> key_in U (casProbePrefix @ sfx)"
    and "\<forall>t. parse_rfc3339 (ae_StartedAt e) = Some t \<longrightarrow> key_in U (audit_key t (ae_RunID e))"
  shows "\<exists>d started c v.
     disk_evolves dig U (fst w) d \<and> parse_rfc3339 (ae_StartedAt e) = Some started
     \<and> fs_obj dig U d (audit_key started (ae_RunID e)) = None
     \<and> fs_obj dig U (fst w') = (fs_obj dig U d)(audit_key started (ae_RunID e) \<mapsto> (v, c))
     \<and> enc (if ae_SchemaVersion e = 0 then e\<lparr>ae_SchemaVersion := SchemaVersion\<rparr> else e) = Some c"
  by (rule sfs.audit_created [OF assms(1,2,3)]) (use assms(4) in \<open>auto simp: world_evolves_def\<close>)

definition sample_entry :: AuditEntry where
  "sample_entry = \<lparr>ae_SchemaVersion = 0, ae_RunID = ''apply-1-abc'', ae_Op = ''apply'', ae_StartedAt = ''2024-05-01T10:00:00Z'',
     ae_FinishedAt = ''2024-05-01T10:01:00Z'', ae_Actor = ''alice'', ae_PR = 7, ae_CommitSHA = ''abc'', ae_Repo = ''o/r'', ae_RunURL = '''',
     ae_Outcome = ''success'', ae_Stacks = [], ae_DurationMS = 0, ae_BreakGlass = None\<rparr>"

definition audit_world :: "AuditEntry world" where
  "audit_world = (\<lparr>d_files = [], d_dirs = [], d_gens = [], d_rands = [gen_n CHR ''a'', gen_n CHR ''b''], d_clock = 0,
     d_faults = []\<rparr>, [])"

definition audit_U :: "string set" where "audit_U = {''audit/2024/05/01/apply-1-abc.json''}"

lemma sample_entry_key:
  "parse_rfc3339 (ae_StartedAt sample_entry) = Some 1714557600000000000
   \<and> audit_key 1714557600000000000 (ae_RunID sample_entry) = ''audit/2024/05/01/apply-1-abc.json''
   \<and> canonical ''audit/2024/05/01/apply-1-abc.json''"
  by code_simp

theorem audit_write_once_witness:
  "\<exists>w' c v. audit_Write (shared (filesystem id_digest)) None ([], [], [], []) (\<lambda>e. Some [e]) sample_entry
        \<lparr>cp_probed = True, cp_err = None\<rparr> audit_world = (w', \<lparr>cp_probed = True, cp_err = None\<rparr>, None)
     \<and> fs_obj id_digest audit_U (fst w') ''audit/2024/05/01/apply-1-abc.json'' = Some (v, c)"
proof -
  let ?p = "\<lparr>cp_probed = True, cp_err = None\<rparr>"
  let ?r = "audit_Write (shared (filesystem id_digest)) None ([], [], [], []) (\<lambda>e. Some [e]) sample_entry ?p audit_world"
  have "snd ?r = (?p, None)" by code_simp
  then obtain w' where r: "?r = (w', ?p, None)" by (cases ?r) auto
  have i: "world_inv (fs_inv id_digest audit_U) (disk_evolves id_digest audit_U) audit_world"
    by (simp add: world_inv_def env_ok_def fs_inv_def audit_world_def audit_U_def gen_n_def)
  have k: "\<forall>t. parse_rfc3339 (ae_StartedAt sample_entry) = Some t \<longrightarrow> key_in audit_U (audit_key t (ae_RunID sample_entry))"
    using sample_entry_key by (auto simp: key_in_def audit_U_def)
  from audit_write_once [OF r i _ k] sample_entry_key obtain d c v where
    "fs_obj id_digest audit_U (fst w') = (fs_obj id_digest audit_U d)(''audit/2024/05/01/apply-1-abc.json'' \<mapsto> (v, c))"
    by auto
  with r show ?thesis by auto
qed

text \<open>
  Concurrent runs of one commit never lose each other's timeline entries. An entry that is added is either appended to
  exactly the entries stored at the instant of the write, with nothing else changed, or kept only in this run's memory,
  whatever other processes write in between.
\<close>

theorem timeline_append_lossless:
  assumes "timeline_add (Some (shared (filesystem dig))) dec enc e t w = (w', t')" and "tl_enabled t"
    and "world_inv (fs_inv dig U) (disk_evolves dig U) w" and "key_in U (applyTimelineKey (tl_pr t) (tl_sha t))"
    and "\<forall>l c. enc l = Some c \<longrightarrow> dec c = Some l"
  shows "tl_entries t' = tl_entries t @ [e] \<and> disk_evolves dig U (fst w) (fst w')
    \<or> (\<exists>d old c v. tl_entries t' = old @ [e] \<and> disk_evolves dig U (fst w) d
         \<and> (case fs_obj dig U d (applyTimelineKey (tl_pr t) (tl_sha t)) of
              None \<Rightarrow> old = [] | Some (u, c0) \<Rightarrow> dec c0 = Some old)
         \<and> fs_obj dig U (fst w') = (fs_obj dig U d)(applyTimelineKey (tl_pr t) (tl_sha t) \<mapsto> (v, c))
         \<and> dec c = Some (old @ [e]))"
proof -
  let ?key = "applyTimelineKey (tl_pr t) (tl_sha t)"
  from assms(1,2) have run: "persist_loop (shared (filesystem dig)) dec enc ?key (tl_entries t) e 3 w = (w', tl_entries t')"
    by (auto simp: timeline_add_def timeline_persist_def split: prod.splits)
  have codec: "enc l = Some c \<Longrightarrow> dec c = Some l" for l c using assms(5) by blast
  show ?thesis using sfs.persist_appends [OF run assms(3,4) codec] unfolding world_evolves_def by metis
qed

theorem timeline_append_lossless_witness:
  "\<exists>w' t'. timeline_add (Some (shared (filesystem id_digest))) (\<lambda>c. Some c) Some \<lparr>te_Icon = '''', te_Label = ''applied'', te_Detail = ''''\<rparr>
        (newApplyTimeline 7 ''abc'') (\<lparr>d_files = [], d_dirs = [], d_gens = [], d_rands = [gen_n CHR ''a''], d_clock = 0, d_faults = []\<rparr>, [])
      = (w', t') \<and> (\<exists>old. tl_entries t' = old @ [\<lparr>te_Icon = '''', te_Label = ''applied'', te_Detail = ''''\<rparr>])"
proof -
  let ?e = "\<lparr>te_Icon = '''', te_Label = ''applied'', te_Detail = ''''\<rparr>" and ?U = "{''runs/pr-7/timeline/abc.json''}"
  let ?w = "(\<lparr>d_files = [], d_dirs = [], d_gens = [], d_rands = [gen_n CHR ''a''], d_clock = 0, d_faults = []\<rparr>, []) :: TimelineEntry world"
  let ?r = "timeline_add (Some (shared (filesystem id_digest))) (\<lambda>c. Some c) Some ?e (newApplyTimeline 7 ''abc'') ?w"
  obtain w' t' where r: "?r = (w', t')" by (meson surj_pair)
  have i: "world_inv (fs_inv id_digest ?U) (disk_evolves id_digest ?U) ?w"
    by (simp add: world_inv_def env_ok_def fs_inv_def gen_n_def)
  have "applyTimelineKey 7 ''abc'' = ''runs/pr-7/timeline/abc.json'' \<and> canonical ''runs/pr-7/timeline/abc.json''" by code_simp
  then have k: "key_in ?U (applyTimelineKey (tl_pr (newApplyTimeline 7 ''abc'')) (tl_sha (newApplyTimeline 7 ''abc'')))"
    by (simp add: key_in_def newApplyTimeline_def)
  have on: "tl_enabled (newApplyTimeline 7 ''abc'')" by (simp add: newApplyTimeline_def)
  from timeline_append_lossless [OF r on i k] have "\<exists>old. tl_entries t' = old @ [?e]" by auto
  with r show ?thesis by blast
qed

end
