(* ===== verification/Policy.thy ===== *)
theory Policy
  imports RunConfig PreviewLookup Redact
begin

text \<open>
  Policy hooks: \<open>internal/policy/hooks.go\<close> and \<open>internal/run/policy_helper.go\<close>. The operating system is a parameter:
  whether a command is on the path, whether the child environment can be prepared, and what a command prints
  and exits with. The Markdown section of the results is not modelled.
\<close>

datatype FailMode = FailBlock | FailWarn

record Hook =
  hk_Name :: string
  hk_Command :: "string list"
  hk_OnFail :: FailMode
  hk_Required :: bool

record PolicyContext =
  px_PlanJSONPath :: string
  px_StackName :: string
  px_Project :: string
  px_Env :: string

record PolicyResult =
  po_Name :: string
  po_Outcome :: string
  po_ExitCode :: int
  po_Stdout :: string
  po_Stderr :: string
  po_Error :: string

text \<open>
  \<open>ps_err\<close>: \<open>None\<close> for exit status zero, else the exit code when the process ran (\<open>exec.ExitError\<close>) and the error text.
\<close>

record ProcRes =
  ps_stdout :: string
  ps_stderr :: string
  ps_err :: "(int option \<times> string) option"

record PolicyHost =
  ph_LookPath :: "string \<Rightarrow> bool"
  ph_EnvErr :: "string option"
  ph_exec :: "string list \<Rightarrow> ProcRes"
  ph_planFile :: "StackSummary \<Rightarrow> string + string"

definition expand :: "string \<Rightarrow> PolicyContext \<Rightarrow> string" where
  "expand s c =
     ReplaceAll (ReplaceAll (ReplaceAll (ReplaceAll s ''{{plan_json}}'' (px_PlanJSONPath c))
       ''{{stack_name}}'' (px_StackName c)) ''{{project}}'' (px_Project c)) ''{{env}}'' (px_Env c)"

definition hookFailure :: "string \<Rightarrow> string option \<Rightarrow> Redactor option \<Rightarrow> string" where
  "hookFailure stderr0 err r =
     (let se = TrimSpace stderr0 in
      case err of
        Some e \<Rightarrow> if se \<noteq> '''' then se @ '' ('' @ Redact_text r e @ '')'' else Redact_text r e
      | None \<Rightarrow> if se \<noteq> '''' then se else ''hook failed with no output'')"

definition failed_outcome :: "Hook \<Rightarrow> string" where
  "failed_outcome h = (case hk_OnFail h of FailWarn \<Rightarrow> ''warn'' | FailBlock \<Rightarrow> ''fail'')"

definition failedResult :: "Hook \<Rightarrow> string \<Rightarrow> Redactor option \<Rightarrow> PolicyResult" where
  "failedResult h err r =
     \<lparr>po_Name = hk_Name h, po_Outcome = failed_outcome h, po_ExitCode = - 1, po_Stdout = '''', po_Stderr = '''',
      po_Error = Redact_text r err\<rparr>"

definition skippedResult :: "Hook \<Rightarrow> string \<Rightarrow> PolicyResult" where
  "skippedResult h msg =
     \<lparr>po_Name = hk_Name h, po_Outcome = ''skipped'', po_ExitCode = 0, po_Stdout = '''', po_Stderr = '''', po_Error = msg\<rparr>"

definition exit_code :: "ProcRes \<Rightarrow> int" where
  "exit_code p = (case ps_err p of None \<Rightarrow> 0 | Some (Some n, _) \<Rightarrow> n | Some (None, _) \<Rightarrow> - 1)"

definition Run_hook :: "PolicyHost \<Rightarrow> Hook \<Rightarrow> PolicyContext \<Rightarrow> Redactor option \<Rightarrow> PolicyResult" where
  "Run_hook H h tc r =
     (let args = map (\<lambda>a. expand a tc) (hk_Command h) in
      if args = [] then skippedResult h ''empty command''
      else if \<not> hk_Required h \<and> \<not> ph_LookPath H (hd args)
        then skippedResult h ''command not found (required=false)''
      else case ph_EnvErr H of
             Some e \<Rightarrow> failedResult h (''prepare child environment: '' @ e) r
           | None \<Rightarrow>
               (let p = ph_exec H args; out = Redact_text r (ps_stdout p); errOut = Redact_text r (ps_stderr p);
                    code = exit_code p
                in \<lparr>po_Name = hk_Name h, po_Outcome = (if code = 0 then ''pass'' else failed_outcome h), po_ExitCode = code,
                    po_Stdout = out, po_Stderr = errOut,
                    po_Error = (if code = 0 then ''''
                                else case ps_err p of
                                       None \<Rightarrow> '''' | Some (_, e) \<Rightarrow> hookFailure errOut (Some e) r)\<rparr>))"

definition Aggregate :: "PolicyResult list \<Rightarrow> bool \<times> PolicyResult list" where
  "Aggregate results = (list_all (\<lambda>r. po_Outcome r \<noteq> ''fail'') results, results)"

definition HooksFromEngine :: "Engine option \<Rightarrow> Hook list" where
  "HooksFromEngine e =
     (case e of
        None \<Rightarrow> []
      | Some en \<Rightarrow>
          map (\<lambda>h. \<lparr>hk_Name = hy_Name h, hk_Command = hy_Command h,
                     hk_OnFail = (if hy_OnFail h = ''warn'' then FailWarn else FailBlock), hk_Required = IsRequired h\<rparr>)
            (en_PolicyHooks en))"

text \<open>The plan file is written first; its error is the third component.\<close>

definition RunPolicyForStack ::
  "PolicyHost \<Rightarrow> Hook list \<Rightarrow> Stack \<Rightarrow> StackSummary \<Rightarrow> Redactor option \<Rightarrow> bool \<times> PolicyResult list \<times> string option" where
  "RunPolicyForStack H hooks s ss r =
     (if hooks = [] then (True, [], None)
      else case ph_planFile H ss of
             Inl e \<Rightarrow> (False, [], Some e)
           | Inr path \<Rightarrow>
               (let tc = \<lparr>px_PlanJSONPath = path, px_StackName = st_Name s, px_Project = st_Project s, px_Env = st_Env s\<rparr>;
                    results = map (\<lambda>h. Run_hook H h tc r) hooks
                in (list_all (\<lambda>res. po_Outcome res \<noteq> ''fail'') results, results, None)))"

subsection \<open>When the policy passes\<close>

text \<open>The hooks that do not run at all, and those that ran and exited with zero.\<close>

definition hook_skipped :: "PolicyHost \<Rightarrow> PolicyContext \<Rightarrow> Hook \<Rightarrow> bool" where
  "hook_skipped H tc h \<longleftrightarrow>
     hk_Command h = [] \<or> \<not> hk_Required h \<and> \<not> ph_LookPath H (expand (hd (hk_Command h)) tc)"

definition hook_ran_clean :: "PolicyHost \<Rightarrow> PolicyContext \<Rightarrow> Hook \<Rightarrow> bool" where
  "hook_ran_clean H tc h \<longleftrightarrow> ph_EnvErr H = None \<and> exit_code (ph_exec H (map (\<lambda>a. expand a tc) (hk_Command h))) = 0"

lemma hook_outcome:
  "po_Outcome (Run_hook H h tc r) \<noteq> ''fail'' \<longleftrightarrow> hk_OnFail h = FailWarn \<or> hook_skipped H tc h \<or> hook_ran_clean H tc h"
proof -
  have hd: "hk_Command h \<noteq> [] \<Longrightarrow> hd (map (\<lambda>a. expand a tc) (hk_Command h)) = expand (hd (hk_Command h)) tc"
    by (cases "hk_Command h") auto
  show ?thesis
    by (cases "hk_OnFail h")
      (auto simp: Run_hook_def Let_def skippedResult_def failedResult_def failed_outcome_def hook_skipped_def
        hook_ran_clean_def hd split: option.splits)
qed

text \<open>
  The policy gate is decided by the blocking hooks. With hooks configured and the plan file written, the policy passes exactly
  when every hook that blocks on failure either exited with zero or was skipped; a hook is skipped
  only when its command is empty or when it is optional and its program is not found. When the plan file cannot be written the
  policy does not pass.
\<close>

theorem policy_passes_iff:
  "fst (RunPolicyForStack H hooks s ss r) \<longleftrightarrow>
     hooks = []
     \<or> (\<exists>path. ph_planFile H ss = Inr path
          \<and> list_all (\<lambda>h. hk_OnFail h = FailWarn
               \<or> hook_skipped H \<lparr>px_PlanJSONPath = path, px_StackName = st_Name s, px_Project = st_Project s, px_Env = st_Env s\<rparr> h
               \<or> hook_ran_clean H \<lparr>px_PlanJSONPath = path, px_StackName = st_Name s, px_Project = st_Project s, px_Env = st_Env s\<rparr> h)
              hooks)"
  by (auto simp: RunPolicyForStack_def Let_def hook_outcome list_all_iff split: sum.splits)

text \<open>A required blocking hook without a command is skipped, and the gate passes.\<close>

lemma empty_hook_passes:
  "fst (RunPolicyForStack H [\<lparr>hk_Name = n, hk_Command = [], hk_OnFail = FailBlock, hk_Required = True\<rparr>] s ss r)
   \<longleftrightarrow> (\<exists>path. ph_planFile H ss = Inr path)"
  by (auto simp: RunPolicyForStack_def Let_def Run_hook_def skippedResult_def split: sum.splits)

end
