(* ===== verification/ApplyStack.thy ===== *)
theory ApplyStack
  imports RunState RunRecords Policy LockStore Gates Approvals BreakGlass Freeze Codeowners CommentApprovals
begin

text \<open>
  One stack of an apply run: the loop body of \<open>Apply\<close> in \<open>internal/run/apply.go\<close>, the gate inputs of
  \<open>gate_inputs.go\<close> it evaluates, and the small helpers around it. The world record holds the answers of
  everything outside the repository: the code host, the engine, the credential providers, the clock, the
  process context. The answers given while a stack is processed are functions of the stack; references are
  unique in a run, so every call may answer differently. The log lists the calls that matter in the order
  they are made.
\<close>

subsection \<open>Data\<close>

type_synonym env = "(string \<times> string) list"

record 'b ApplyOpts =
  xo_Cwd :: string
  xo_Env :: env
  xo_TimeoutSec :: int
  xo_Plan :: "'b list option"
  xo_Refresh :: bool

record ApplyResult =
  re_Counts :: Counts
  re_Output :: string
  re_Error :: string
  re_DurationMS :: int

record ('s, 'b) ApplyInput =
  in_PRNumber :: int
  in_CommitSHA :: string
  in_ExpectedHeadSHA :: string
  in_RunNumber :: int
  in_RunAttempt :: int
  in_CIRunID :: int
  in_CIRunURL :: string
  in_SelfCheckNames :: "string list"
  in_RepoRoot :: string
  in_RepoPath :: string
  in_RepoFull :: string
  in_Actor :: string
  in_SavedPlans :: bool
  in_Config :: "Engine option"
  in_Shared :: "Shared option"
  in_Notifications :: bool
  in_Blob :: "('s, 'b list) Store option"
  in_Locks :: "('s, 'b list) LockEnv"
  in_AuditWriter :: "('s, 'b list) Store option"
  in_TriggerSource :: string
  in_Force :: bool
  in_Refresh :: bool
  in_CommentApproval :: CommentApprovalConfig
  in_BreakGlass :: "string option"

text \<open>The formatted messages, with their arguments; \<open>wd_text\<close> below is the text \<open>fmt\<close> makes of them.\<close>

datatype Msg = MsgAlreadyApplied string int string | MsgScopeBound nat string "string list"
  | MsgScopeReconstructed nat "string list" | MsgScopeBroadened "string list" string
  | MsgOutsideRoot string | MsgDocsOnly | MsgNoPlan string | MsgSnapErr SnapErr
  | MsgRefused BGErr | MsgDenied string "BGTrace list" | MsgAuthorized string string string "string list"
  | MsgSamePR int string string | MsgLockErr LSErr | MsgFreezeErr string string | MsgGate GateReason
  | MsgPolicies "PolicyResult list" | MsgNoPlanArtifact string string | MsgPlanFetch string string PlanErr | MsgManifest MarkErr

datatype Moment = AtStart | AtSnapshot | AtGates | AtIntent | AtRender | AtManifest | AtMarker | AtAudit

record 'b ApplyWorld =
  wd_pr :: "string + VcsPR"
  wd_pr_again :: "string + VcsPR option"
  wd_stacks :: "string + Stack list"
  wd_changed :: "string + string list"
  wd_checks :: "string \<Rightarrow> int \<Rightarrow> string list \<Rightarrow> string + bool \<times> string list"
  wd_behind :: "string \<Rightarrow> string \<Rightarrow> string + int"
  wd_reviews :: "PR \<Rightarrow> string + Approval list"
  wd_comments :: "PR \<Rightarrow> CommentApprovalConfig \<Rightarrow> string + Approval list"
  wd_codeowners :: "string + string"
  wd_team :: "string \<Rightarrow> string + string list"
  wd_exec_env :: "string + env"
  wd_cancelled :: "Stack \<Rightarrow> string option"
  wd_policy :: "Stack \<Rightarrow> PolicyHost"
  wd_state_auth :: "Stack \<Rightarrow> string + env"
  wd_login :: "Stack \<Rightarrow> env \<Rightarrow> string option"
  wd_auth :: "Stack \<Rightarrow> string + env"
  wd_plan_temp :: "Stack \<Rightarrow> string option"
  wd_engine :: "Stack \<Rightarrow> 'b ApplyOpts \<Rightarrow> string + ApplyResult"
  wd_beats :: "Stack \<Rightarrow> nat"
  wd_comment :: "StackSummary list \<Rightarrow> string option"
  wd_clock :: "Moment \<Rightarrow> go_time"
  wd_text :: "Msg \<Rightarrow> string"
  wd_glob :: globber
  wd_pglob :: globber
  wd_oglob :: globber
  wd_rglob :: globber
  wd_fglob :: globber
  wd_cron :: "string \<Rightarrow> string + schedule"
  wd_compile :: "string \<Rightarrow> regex option"
  wd_manifest_of :: "'b list \<Rightarrow> manifest option"
  wd_of_manifest :: "manifest \<Rightarrow> 'b list option"
  wd_marker_of :: "'b list \<Rightarrow> AppliedState option"
  wd_of_marker :: "AppliedState \<Rightarrow> 'b list option"
  wd_timeline_of :: "'b list \<Rightarrow> TimelineEntry list option"
  wd_of_timeline :: "TimelineEntry list \<Rightarrow> 'b list option"
  wd_of_audit :: "AuditEntry \<Rightarrow> 'b list option"
  wd_probe_rnd :: "string option"
  wd_probe_bodies :: "'b list \<times> 'b list \<times> 'b list \<times> 'b list"

datatype 'b Act = ActIntent string | ActNotify string | ActAcquire Stack bool | ActPolicy Stack
  | ActStateAuth Stack | ActLogin Stack | ActAuth Stack | ActEngine Stack "'b ApplyOpts" | ActAuthCleanup Stack
  | ActRelease Stack | ActManifest | ActSweep | ActMarker | ActComment | ActAudit string

record ('s, 'b) ApplyState =
  ax_lock :: "'s LockState"
  ax_probe :: CASProbe
  ax_tl :: Timeline
  ax_log :: "'b Act list"

record ('s, 'b) LoopState = "('s, 'b) ApplyState" +
  al_summaries :: "StackSummary list"
  al_anyBlocked :: bool
  al_overridden :: "string list"
  al_stateEnv :: env
  al_stateAuth :: bool
  al_login :: bool

definition act :: "'b Act \<Rightarrow> ('s, 'b, 'z) ApplyState_scheme \<Rightarrow> ('s, 'b, 'z) ApplyState_scheme" where
  "act a x = x\<lparr>ax_log := ax_log x @ [a]\<rparr>"

text \<open>A timeline entry; the icons are emoji, given by their UTF-8 bytes.\<close>

definition icon :: "nat list \<Rightarrow> string" where "icon = map char_of"

definition event ::
  "'b ApplyWorld \<Rightarrow> ('s, 'b) ApplyInput \<Rightarrow> nat list \<Rightarrow> string \<Rightarrow> string \<Rightarrow> ('s, 'b, 'z) ApplyState_scheme
     \<Rightarrow> ('s, 'b, 'z) ApplyState_scheme" where
  "event W ai ic label detail x =
     (case timeline_add (in_Blob ai) (wd_timeline_of W) (wd_of_timeline W)
             \<lparr>te_Icon = icon ic, te_Label = label, te_Detail = detail\<rparr> (ax_tl x) (w_store (ax_lock x)) of
        (s', t') \<Rightarrow> x\<lparr>ax_lock := (ax_lock x)\<lparr>w_store := s'\<rparr>, ax_tl := t'\<rparr>)"

subsection \<open>Helpers\<close>

definition BuildRedactor :: "'b ApplyWorld \<Rightarrow> Redactor" where
  "BuildRedactor W =
     fold (AddRule (wd_compile W))
       [''AKIA[0-9A-Z]{16}'', ''ASIA[0-9A-Z]{16}'', ''aws_secret_access_key'' @ [CHR 0x5C] @ ''s*='' @ [CHR 0x5C] @ ''s*[A-Za-z0-9/+=]+'',
        ''ghp_[A-Za-z0-9]{36,}'', ''gho_[A-Za-z0-9]{36,}'', ''ghs_[A-Za-z0-9]{36,}'', ''xox[baprs]-[A-Za-z0-9-]+'']
       New_redactor"

definition mergeEnv :: "env \<Rightarrow> env \<Rightarrow> env" where
  "mergeEnv base over = fold (\<lambda>(k, v) m. map_put k v m) over (fold (\<lambda>(k, v) m. map_put k v m) base [])"

definition absJoin :: "string \<Rightarrow> string \<Rightarrow> string" where
  "absJoin root rel = (if rel = '''' \<or> rel = ''.'' then root else root @ ''/'' @ rel)"

fun gate_name :: "GateID \<Rightarrow> string" where
  "gate_name GateUpToDate = ''up_to_date''"
| "gate_name GateChecksGreen = ''checks_green''"
| "gate_name GatePreviewFresh = ''preview_fresh''"
| "gate_name GatePreviewOK = ''preview_succeeded''"
| "gate_name GatePolicy = ''policy''"
| "gate_name GateApprovals = ''approvals''"
| "gate_name GateLock = ''lock_acquirable''"
| "gate_name GateFreeze = ''not_in_freeze''"
| "gate_name GateFork = ''fork_pr_policy''"
| "gate_name GateDraft = ''not_draft_pr''"

fun outcome_name :: "GateOutcome \<Rightarrow> string" where
  "outcome_name OutcomePass = ''pass''"
| "outcome_name OutcomeFail = ''fail''"
| "outcome_name OutcomeWarning = ''warn''"
| "outcome_name Gates.OutcomeSkipped = ''skipped''"

definition gatesToTrace :: "Result \<Rightarrow> GateTrace list" where
  "gatesToTrace r =
     map (\<lambda>g. \<lparr>gt_Gate = gate_name (g_Gate g), gt_Outcome = outcome_name (g_Outcome g), gt_Reason = g_Reason g\<rparr>) (r_Gates r)"

definition failedStackRefs :: "StackSummary list \<Rightarrow> string list" where
  "failedStackRefs ss = map summary_Ref (filter (\<lambda>s. ss_Status s = StatusError) ss)"

definition aggregateOutcome :: "StackSummary list \<Rightarrow> bool \<Rightarrow> string" where
  "aggregateOutcome ss anyBlocked =
     (if \<exists>s \<in> set ss. ss_Status s = StatusError then ''failed''
      else if anyBlocked then ''blocked''
      else ''success'')"

definition toAuditStacks :: "StackSummary list \<Rightarrow> AuditStack list" where
  "toAuditStacks ss =
     insertion_sort (\<lambda>a b. au_Ref a < au_Ref b)
       (map (\<lambda>s. \<lparr>au_Ref = summary_Ref s, au_Env = ss_Env s, au_Status = ss_Status s, au_Counts = ss_Counts s,
                  au_DurationMS = ss_DurationMS s, au_Error = ss_Error s\<rparr>) ss)"

definition scopeDelta :: "Stack list \<Rightarrow> Stack list \<Rightarrow> string list" where
  "scopeDelta mapped bound =
     insertion_sort (<) (filter (\<lambda>r. r \<notin> stack_Ref ` set bound) (map stack_Ref mapped))"

subsection \<open>Gate inputs\<close>

record gateInputs =
  gi_ChecksGreen :: bool
  gi_FailingChecks :: "string list"
  gi_ChecksErr :: "string option"
  gi_Behind :: int
  gi_CompareErr :: "string option"
  gi_ApprovalsCfg :: ApprovalConfig
  gi_ApprovalPR :: PR
  gi_RawApprovals :: "Approval list"
  gi_Codeowners :: "(string \<times> string list) list"

datatype GatherErr = ListApprovals string | ListCommentApprovals string | FetchCodeowners string

definition UpToDate :: "gateInputs \<Rightarrow> bool" where "UpToDate g \<longleftrightarrow> gi_Behind g = 0"

definition approval_pr :: "('s, 'b) ApplyInput \<Rightarrow> VcsPR \<Rightarrow> string \<Rightarrow> string list \<Rightarrow> PR" where
  "approval_pr ai pr sha changed =
     \<lparr>pr_Number = in_PRNumber ai, pr_HeadSHA = (if vp_HeadSHA pr = '''' then sha else vp_HeadSHA pr),
      pr_Author = vp_Author pr, pr_BaseRef = '''', pr_IsFork = False, pr_RepoPrivate = False, pr_OpenedAt = zero_time,
      pr_Changed = changed\<rparr>"

definition gather_reviews :: "'b ApplyWorld \<Rightarrow> ApprovalConfig \<Rightarrow> PR \<Rightarrow> GatherErr + Approval list" where
  "gather_reviews W cfg apr =
     (if PRReviewEnabled cfg
      then (case wd_reviews W apr of Inl e \<Rightarrow> Inl (ListApprovals e) | Inr aa \<Rightarrow> Inr aa)
      else Inr [])"

definition gather_comments ::
  "'b ApplyWorld \<Rightarrow> ApprovalConfig \<Rightarrow> CommentApprovalConfig \<Rightarrow> PR \<Rightarrow> GatherErr + Approval list" where
  "gather_comments W cfg cc apr =
     (if PRCommentEnabled cfg
      then (case wd_comments W apr (if cc_Command cc = '''' then cc\<lparr>cc_Command := CommentCommand cfg\<rparr> else cc) of
              Inl e \<Rightarrow> Inl (ListCommentApprovals e) | Inr aa \<Rightarrow> Inr aa)
      else Inr [])"

definition gatherGateInputs ::
  "'b ApplyWorld \<Rightarrow> ('s, 'b) ApplyInput \<Rightarrow> VcsPR \<Rightarrow> string \<Rightarrow> string list \<Rightarrow> GatherErr + gateInputs" where
  "gatherGateInputs W ai pr sha changed =
     (let cfg = toApprovalsConfig (in_Shared ai);
          apr = approval_pr ai pr sha changed;
          (green, failing, cerr) =
            (case wd_checks W sha (in_CIRunID ai) (in_SelfCheckNames ai) of
               Inl e \<Rightarrow> (False, [], Some e) | Inr (ok, fs) \<Rightarrow> (ok, fs, None));
          (behind, berr) =
            (case wd_behind W (vp_BaseRef pr) sha of Inl e \<Rightarrow> (-1, Some e) | Inr n \<Rightarrow> (n, None))
      in case gather_reviews W cfg apr of
           Inl e \<Rightarrow> Inl e
         | Inr reviews \<Rightarrow>
             (case gather_comments W cfg (in_CommentApproval ai) apr of
                Inl e \<Rightarrow> Inl e
              | Inr comments \<Rightarrow>
                  (case wd_codeowners W of
                     Inl e \<Rightarrow> Inl (FetchCodeowners e)
                   | Inr content \<Rightarrow>
                       Inr \<lparr>gi_ChecksGreen = green, gi_FailingChecks = failing, gi_ChecksErr = cerr, gi_Behind = behind,
                            gi_CompareErr = berr, gi_ApprovalsCfg = cfg, gi_ApprovalPR = apr,
                            gi_RawApprovals = MergeApprovals [reviews, comments],
                            gi_Codeowners =
                              (if content = '''' then []
                               else Resolve_owners (wd_oglob W) (Parse_owners content) changed [])\<rparr>)))"

text \<open>The source iterates over a map here; only the set of names matters to the team expansion.\<close>

definition codeownerApprovers :: "(string \<times> string list) list \<Rightarrow> string list" where
  "codeownerApprovers resolved = dedup_seen [] (concat (map snd resolved))"

subsection \<open>The gates of one stack\<close>

text \<open>What the run has resolved before the loop. \<open>cx_history\<close> is the redacted reason of a failed snapshot load.\<close>

record ApplyCtx =
  cx_pr :: VcsPR
  cx_sha :: string
  cx_runID :: string
  cx_snapshot :: PreviewSnapshot
  cx_history :: "string option"
  cx_gi :: gateInputs
  cx_teams :: teams
  cx_bg :: "Decision option"
  cx_touched :: "string list"
  cx_execEnv :: env
  cx_planLocking :: bool

definition stack_rules :: "'b ApplyWorld \<Rightarrow> ApplyCtx \<Rightarrow> Stack \<Rightarrow> Rules" where
  "stack_rules W cx s =
     (Resolve_rules (wd_rglob W) (gi_ApprovalsCfg (cx_gi cx)) (stack_Ref s))\<lparr>ru_TeamMembers := cx_teams cx\<rparr>"

definition approvals_satisfied :: "'b ApplyWorld \<Rightarrow> ('s, 'b) ApplyInput \<Rightarrow> ApplyCtx \<Rightarrow> Stack \<Rightarrow> bool" where
  "approvals_satisfied W ai cx s =
     rs_Satisfied (Evaluate_approvals (stack_rules W cx s) (gi_RawApprovals (cx_gi cx))
       \<lparr>pr_Number = in_PRNumber ai, pr_HeadSHA = pr_HeadSHA (gi_ApprovalPR (cx_gi cx)), pr_Author = vp_Author (cx_pr cx),
        pr_BaseRef = '''', pr_IsFork = False, pr_RepoPrivate = vp_RepoPrivate (cx_pr cx), pr_OpenedAt = zero_time, pr_Changed = []\<rparr>
       (gi_Codeowners (cx_gi cx)) (vp_Author (cx_pr cx)) (wd_clock W AtGates))"

definition freeze_state :: "'b ApplyWorld \<Rightarrow> ('s, 'b) ApplyInput \<Rightarrow> Stack \<Rightarrow> bool \<times> string" where
  "freeze_state W ai s =
     (case ActiveFor (wd_fglob W) (wd_cron W) (toFreezeConfig (in_Shared ai)) (stack_Ref s) (wd_clock W AtGates) of
        Inl (name, e) \<Rightarrow> (True, ''freeze evaluation failed: '' @ wd_text W (MsgFreezeErr name e))
      | Inr (Some name) \<Rightarrow> (True, name)
      | Inr None \<Rightarrow> (False, ''''))"

definition gate_inputs ::
  "'b ApplyWorld \<Rightarrow> ('s, 'b) ApplyInput \<Rightarrow> ApplyCtx \<Rightarrow> Stack \<Rightarrow> bool \<Rightarrow> int \<Rightarrow> GateInputs" where
  "gate_inputs W ai cx s acquired blockedBy =
     (let prev = StackStatus (cx_snapshot cx) (stack_Ref s) in
      \<lparr>i_StackRef = stack_Ref s, i_PRIsFork = vp_IsFork (cx_pr cx), i_PRIsDraft = vp_IsDraft (cx_pr cx),
       i_ForkOptInAllowed = (case in_Shared ai of None \<Rightarrow> False | Some sh \<Rightarrow> ap_AllowForkPRs (sh_Apply sh)),
       i_UpToDate = UpToDate (cx_gi cx), i_CommitsBehind = gi_Behind (cx_gi cx), i_ChecksGreen = gi_ChecksGreen (cx_gi cx),
       i_HasFreshPreview = pv_Found prev, i_PreviewAge = pv_Age prev, i_PreviewSucceeded = pv_Succeeded prev,
       i_PolicyPassed = None, i_ApprovalsSatisfied = approvals_satisfied W ai cx s, i_LockAcquirable = acquired,
       i_LockBlockedByPR = blockedBy, i_InFreeze = fst (freeze_state W ai s), i_FreezeName = snd (freeze_state W ai s),
       i_BreakGlass = (cx_bg cx \<noteq> None), i_BreakGlassOverrideFreeze = bg_OverrideFreeze (toBreakGlassConfig (in_Shared ai)),
       i_PreviewHistoryUnavailable = (cx_history cx \<noteq> None),
       i_PreviewHistoryError = (case cx_history cx of Some r \<Rightarrow> r | None \<Rightarrow> '''')\<rparr>)"

text \<open>The policy verdict of a stack whose other gates pass; without a preview plan it is a failure.\<close>

definition policy_verdict ::
  "'b ApplyWorld \<Rightarrow> ('s, 'b) ApplyInput \<Rightarrow> ApplyCtx \<Rightarrow> Stack \<Rightarrow> StackSummary \<Rightarrow> bool \<times> PolicyResult list" where
  "policy_verdict W ai cx s ss =
     (let plan = pv_Plan (StackStatus (cx_snapshot cx) (stack_Ref s)) in
      case RunPolicyForStack (wd_policy W s) (HooksFromEngine (in_Config ai)) s (case plan of Some p \<Rightarrow> p | None \<Rightarrow> ss)
             (Some (BuildRedactor W)) of
        (ok, results, err) \<Rightarrow> (ok \<and> plan \<noteq> None \<and> err = None, results))"

text \<open>The two evaluations; the last component tells whether the hooks ran.\<close>

definition evaluate_stack ::
  "'b ApplyWorld \<Rightarrow> ('s, 'b) ApplyInput \<Rightarrow> ApplyCtx \<Rightarrow> Stack \<Rightarrow> bool \<Rightarrow> int \<Rightarrow> StackSummary \<Rightarrow> Result \<times> StackSummary \<times> bool" where
  "evaluate_stack W ai cx s acquired blockedBy ss =
     (let cfg = toPreconditionsConfig (in_Shared ai);
          inp = gate_inputs W ai cx s acquired blockedBy;
          res = Evaluate_gates cfg inp
      in if r_Blocked res \<or> HooksFromEngine (in_Config ai) = [] then (res, ss, False)
         else case policy_verdict W ai cx s ss of
                (passed, results) \<Rightarrow>
                  (Evaluate_gates cfg (inp\<lparr>i_PolicyPassed := Some passed\<rparr>),
                   if results = [] then ss else ss\<lparr>ss_FullPlan := ss_FullPlan ss @ wd_text W (MsgPolicies results)\<rparr>,
                   True))"

subsection \<open>Credentials, plan, engine\<close>

definition holder_of :: "('s, 'b) ApplyInput \<Rightarrow> ApplyCtx \<Rightarrow> Holder" where
  "holder_of ai cx =
     \<lparr>h_PR = in_PRNumber ai, h_CommitSHA = cx_sha cx, h_RunID = cx_runID cx, h_Actor = in_Actor ai, h_AcquiredAt = '''',
      h_ExpiresAt = '''', h_Promoted = False\<rparr>"

definition releaseLockOrLog ::
  "('s, 'b) ApplyInput \<Rightarrow> ApplyCtx \<Rightarrow> Stack \<Rightarrow> ('s, 'b, 'z) ApplyState_scheme \<Rightarrow> ('s, 'b, 'z) ApplyState_scheme" where
  "releaseLockOrLog ai cx s x =
     act (ActRelease s)
       (x\<lparr>ax_lock := fst (ls_Release (in_Locks ai) (st_Project s) (st_Name s) (in_PRNumber ai) (cx_runID cx)
                           (LockTTL (in_Shared ai)) (ax_lock x))\<rparr>)"

definition record_stack :: "StackSummary \<Rightarrow> ('s, 'b) LoopState \<Rightarrow> ('s, 'b) LoopState" where
  "record_stack ss x = x\<lparr>al_summaries := al_summaries x @ [ss]\<rparr>"

definition fail_stack ::
  "('s, 'b) ApplyInput \<Rightarrow> ApplyCtx \<Rightarrow> Stack \<Rightarrow> StackSummary \<Rightarrow> string \<Rightarrow> ('s, 'b) LoopState \<Rightarrow> ('s, 'b) LoopState" where
  "fail_stack ai cx s ss msg x =
     record_stack (ss\<lparr>ss_Status := StatusError, ss_Error := msg\<rparr>) (releaseLockOrLog ai cx s x)"

definition state_auth_step ::
  "'b ApplyWorld \<Rightarrow> ApplyCtx \<Rightarrow> Stack \<Rightarrow> ('s, 'b) LoopState \<Rightarrow> ('s, 'b) LoopState \<times> string option" where
  "state_auth_step W cx s x =
     (if al_stateAuth x then (x, None)
      else let x1 = act (ActStateAuth s) x in
           case wd_state_auth W s of
             Inl e \<Rightarrow> (x1, Some e)
           | Inr env \<Rightarrow> (x1\<lparr>al_stateEnv := mergeEnv (cx_execEnv cx) env, al_stateAuth := True\<rparr>, None))"

definition login_step ::
  "'b ApplyWorld \<Rightarrow> Stack \<Rightarrow> ('s, 'b) LoopState \<Rightarrow> ('s, 'b) LoopState \<times> string option" where
  "login_step W s x =
     (if al_login x then (x, None)
      else let x1 = act (ActLogin s) x in
           case wd_login W s (al_stateEnv x) of
             Some e \<Rightarrow> (x1, Some e)
           | None \<Rightarrow> (x1\<lparr>al_login := True\<rparr>, None))"

text \<open>The saved plan of the preview, \<open>None\<close> for a fresh plan; a plan that cannot be used is reported.\<close>

definition fetch_plan ::
  "'b ApplyWorld \<Rightarrow> ('s, 'b) ApplyInput \<Rightarrow> ApplyCtx \<Rightarrow> Stack \<Rightarrow> ('s, 'b) LoopState \<Rightarrow> ('s, 'b) LoopState \<times> 'b list option" where
  "fetch_plan W ai cx s x =
     (if \<not> cx_planLocking cx then (x, None)
      else
        let key = (case pv_Plan (StackStatus (cx_snapshot cx) (stack_Ref s)) of None \<Rightarrow> '''' | Some p \<Rightarrow> ss_PlanKey p) in
        if key = '''' then
          (event W ai [226, 154, 160, 239, 184, 143] ''plan lock unavailable''
             (wd_text W (MsgNoPlanArtifact (stack_Ref s) (shortSHA (cx_sha cx)))) x, None)
        else
          case FetchPlanArtifact (in_Blob ai) (wd_plan_temp W s) key (w_store (ax_lock x)) of
            (s', r) \<Rightarrow>
              (let x1 = x\<lparr>ax_lock := (ax_lock x)\<lparr>w_store := s'\<rparr>\<rparr> in
               case r of
                 Inl e \<Rightarrow>
                   (event W ai [226, 154, 160, 239, 184, 143] ''plan lock unavailable''
                      (wd_text W (MsgPlanFetch (stack_Ref s) key e)) x1, None)
               | Inr plan \<Rightarrow> (x1, plan)))"

definition engine_opts ::
  "('s, 'b) ApplyInput \<Rightarrow> Stack \<Rightarrow> env \<Rightarrow> 'b list option \<Rightarrow> 'b ApplyOpts" where
  "engine_opts ai s env plan =
     \<lparr>xo_Cwd = absJoin (in_RepoRoot ai) (st_Path s), xo_Env = env, xo_TimeoutSec = ApplyTimeoutSec (in_Config ai),
      xo_Plan = plan, xo_Refresh = in_Refresh ai\<rparr>"

text \<open>The engine call, with the lease renewals that happen while it runs.\<close>

definition call_engine ::
  "'b ApplyWorld \<Rightarrow> ('s, 'b) ApplyInput \<Rightarrow> ApplyCtx \<Rightarrow> Stack \<Rightarrow> 'b ApplyOpts \<Rightarrow> ('s, 'b) LoopState
     \<Rightarrow> ('s, 'b) LoopState \<times> (string + ApplyResult)" where
  "call_engine W ai cx s opts x =
     (let lk = (heartbeat_tick (in_Locks ai) (st_Project s) (st_Name s) (holder_of ai cx) (LockTTL (in_Shared ai)) ^^ wd_beats W s)
                 (ax_lock x)
      in (act (ActAuthCleanup s) (act (ActEngine s opts) (x\<lparr>ax_lock := lk\<rparr>)), wd_engine W s opts))"

definition applied_summary :: "Redactor \<Rightarrow> StackSummary \<Rightarrow> ApplyResult \<Rightarrow> StackSummary" where
  "applied_summary r ss res =
     (let ss1 = ss\<lparr>ss_Counts := re_Counts res, ss_DurationMS := re_DurationMS res, ss_FullPlan := Redact_text (Some r) (re_Output res)\<rparr> in
      if re_Error res \<noteq> '''' then ss1\<lparr>ss_Status := StatusError, ss_Error := Redact_text (Some r) (re_Error res)\<rparr>
      else if ct_Total (re_Counts res) = 0 then ss1\<lparr>ss_Status := StatusNoOp\<rparr>
      else ss1\<lparr>ss_Status := StatusPlanned\<rparr>)"

definition run_engine ::
  "'b ApplyWorld \<Rightarrow> ('s, 'b) ApplyInput \<Rightarrow> ApplyCtx \<Rightarrow> Stack \<Rightarrow> StackSummary \<Rightarrow> env \<Rightarrow> ('s, 'b) LoopState \<Rightarrow> ('s, 'b) LoopState" where
  "run_engine W ai cx s ss env x =
     (let env1 = mergeEnv (al_stateEnv x) env;
          r = fold AddSecret (map snd env1) (BuildRedactor W)
      in case fetch_plan W ai cx s x of
           (x1, plan) \<Rightarrow>
             (case call_engine W ai cx s (engine_opts ai s env1 plan) x1 of
                (x2, Inl e) \<Rightarrow> fail_stack ai cx s ss (Redact_text (Some r) e) x2
              | (x2, Inr res) \<Rightarrow> record_stack (applied_summary r ss res) (releaseLockOrLog ai cx s x2)))"

text \<open>What follows the gates of a stack whose lock is held.\<close>

definition apply_gated ::
  "'b ApplyWorld \<Rightarrow> ('s, 'b) ApplyInput \<Rightarrow> ApplyCtx \<Rightarrow> Stack \<Rightarrow> StackSummary \<Rightarrow> ('s, 'b) LoopState \<Rightarrow> ('s, 'b) LoopState" where
  "apply_gated W ai cx s ss x =
     (let red = Redact_text (Some (BuildRedactor W)) in
      case state_auth_step W cx s x of
        (x1, Some e) \<Rightarrow> fail_stack ai cx s ss (red e) x1
      | (x1, None) \<Rightarrow>
          (case login_step W s x1 of
             (x2, Some e) \<Rightarrow> fail_stack ai cx s ss (red e) x2
           | (x2, None) \<Rightarrow>
               (let x3 = act (ActAuth s) x2 in
                case wd_auth W s of
                  Inl e \<Rightarrow> fail_stack ai cx s ss (red e) x3
                | Inr env \<Rightarrow> run_engine W ai cx s ss env x3)))"

subsection \<open>One stack, and the loop\<close>

definition blocked_by :: "bool \<Rightarrow> Lock \<Rightarrow> int" where
  "blocked_by acquired l =
     (if acquired then 0 else case l_Holder l of None \<Rightarrow> 0 | Some h \<Rightarrow> h_PR h)"

definition held_by_same_pr :: "'b ApplyWorld \<Rightarrow> ('s, 'b) ApplyInput \<Rightarrow> Lock \<Rightarrow> string" where
  "held_by_same_pr W ai l =
     wd_text W
       (case l_Holder l of
          None \<Rightarrow> MsgSamePR (in_PRNumber ai) ''unknown'' ''unknown''
        | Some h \<Rightarrow> MsgSamePR (in_PRNumber ai) (h_RunID h) (if h_ExpiresAt h = '''' then ''unknown'' else h_ExpiresAt h))"

definition add_overridden :: "GateID list \<Rightarrow> string list \<Rightarrow> string list" where
  "add_overridden gs seen = fold (\<lambda>g os. if gate_name g \<in> set os then os else os @ [gate_name g]) gs seen"

definition gate_and_apply ::
  "'b ApplyWorld \<Rightarrow> ('s, 'b) ApplyInput \<Rightarrow> ApplyCtx \<Rightarrow> Stack \<Rightarrow> StackSummary \<Rightarrow> Lock \<Rightarrow> bool \<Rightarrow> ('s, 'b) LoopState
     \<Rightarrow> ('s, 'b) LoopState" where
  "gate_and_apply W ai cx s ss l acquired x =
     (case evaluate_stack W ai cx s acquired (blocked_by acquired l) ss of
        (res, ss1, hooked) \<Rightarrow>
          (let x1 = (if hooked then act (ActPolicy s) x else x);
               x2 = x1\<lparr>al_overridden := add_overridden (r_Overridden res) (al_overridden x1)\<rparr>;
               ss2 = ss1\<lparr>ss_Gates := gatesToTrace res, ss_BlockedBy := blocked_by acquired l\<rparr>
           in if r_Blocked res
              then record_stack (ss2\<lparr>ss_Status := StatusBlocked\<rparr>)
                     ((if acquired then releaseLockOrLog ai cx s x2 else x2)\<lparr>al_anyBlocked := True\<rparr>)
              else apply_gated W ai cx s ss2 x2))"

definition apply_stack ::
  "'b ApplyWorld \<Rightarrow> ('s, 'b) ApplyInput \<Rightarrow> ApplyCtx \<Rightarrow> Stack \<Rightarrow> ('s, 'b) LoopState \<Rightarrow> ('s, 'b) LoopState" where
  "apply_stack W ai cx s x =
     (let ss = new_summary (st_Project s) (st_Name s) (st_Env s) in
      case wd_cancelled W s of
        Some e \<Rightarrow>
          record_stack (ss\<lparr>ss_Status := StatusError, ss_Error := ''run cancelled before this stack was applied: '' @ e\<rparr>) x
      | None \<Rightarrow>
          (case ls_TryAcquire (in_Locks ai) (st_Project s) (st_Name s) (holder_of ai cx) (LockTTL (in_Shared ai)) (ax_lock x) of
             (lk, l, acquired, err) \<Rightarrow>
               (let x1 = act (ActAcquire s (acquired \<and> err = None)) (x\<lparr>ax_lock := lk\<rparr>) in
                if err = Some (LSLock ErrHeldBySamePR)
                then record_stack (ss\<lparr>ss_Status := StatusBlocked, ss_Error := held_by_same_pr W ai l\<rparr>) (x1\<lparr>al_anyBlocked := True\<rparr>)
                else case err of
                       Some e \<Rightarrow>
                         record_stack
                           (ss\<lparr>ss_Status := StatusError, ss_Error := Redact_text (Some (BuildRedactor W)) (wd_text W (MsgLockErr e))\<rparr>) x1
                     | None \<Rightarrow> gate_and_apply W ai cx s ss l acquired x1)))"

fun apply_loop ::
  "'b ApplyWorld \<Rightarrow> ('s, 'b) ApplyInput \<Rightarrow> ApplyCtx \<Rightarrow> Stack list \<Rightarrow> ('s, 'b) LoopState \<Rightarrow> ('s, 'b) LoopState" where
  "apply_loop W ai cx [] x = x"
| "apply_loop W ai cx (s # ss) x = apply_loop W ai cx ss (apply_stack W ai cx s x)"

subsection \<open>One lock at a time, around everything a stack does\<close>

text \<open>
  An observer of the log that remembers which lock the run holds. Acquiring while a lock is held, releasing
  another one, and touching a stack without holding its lock are violations, \<open>None\<close>. Actions of the run as a
  whole need no lock to be held.
\<close>

fun acts_on :: "'b Act \<Rightarrow> Stack option" where
  "acts_on (ActPolicy s) = Some s"
| "acts_on (ActStateAuth s) = Some s"
| "acts_on (ActLogin s) = Some s"
| "acts_on (ActAuth s) = Some s"
| "acts_on (ActEngine s opts) = Some s"
| "acts_on (ActAuthCleanup s) = Some s"
| "acts_on _ = None"

fun lock_step :: "'b Act \<Rightarrow> Stack option \<Rightarrow> Stack option option" where
  "lock_step (ActAcquire s got) h = (if h = None then Some (if got then Some s else None) else None)"
| "lock_step (ActRelease s) h = (if h = Some s then Some None else None)"
| "lock_step a h = (if h = acts_on a then Some h else None)"

fun lock_run :: "'b Act list \<Rightarrow> Stack option \<Rightarrow> Stack option option" where
  "lock_run [] h = Some h"
| "lock_run (a # as) h = Option.bind (lock_step a h) (lock_run as)"

definition held :: "('s, 'b, 'z) ApplyState_scheme \<Rightarrow> Stack option option" where
  "held x = lock_run (ax_log x) None"

lemma lock_run_snoc: "lock_run (as @ [a]) h = Option.bind (lock_run as h) (lock_step a)"
  by (induction as arbitrary: h) (auto split: bind_split)

lemma held_act [simp]: "held (act a x) = Option.bind (held x) (lock_step a)"
  by (simp add: held_def act_def lock_run_snoc)

lemma log_simps [simp]:
  "ax_log (act a x) = ax_log x @ [a]" "ax_log (event W ai ic lb dt x) = ax_log x"
  "ax_log (record_stack ss y) = ax_log y" "ax_log (releaseLockOrLog ai cx s x) = ax_log x @ [ActRelease s]"
  by (simp_all add: act_def event_def record_stack_def releaseLockOrLog_def split: prod.split)

lemma held_cong: "ax_log x = ax_log y \<Longrightarrow> held x = held y"
  by (simp add: held_def)

lemma held_simps [simp]:
  "held (event W ai ic lb dt x) = held x" "held (record_stack ss y) = held y"
  "held (releaseLockOrLog ai cx s x) = Option.bind (held x) (\<lambda>h. if h = Some s then Some None else None)"
  "held (x\<lparr>ax_lock := lk\<rparr>) = held x" "held (y\<lparr>al_anyBlocked := b\<rparr>) = held y" "held (y\<lparr>al_overridden := os\<rparr>) = held y"
  "held (y\<lparr>al_stateEnv := env, al_stateAuth := b\<rparr>) = held y" "held (y\<lparr>al_login := b\<rparr>) = held y"
  by (simp_all add: held_def lock_run_snoc cong: bind_option_cong)

lemma held_fail [simp]: "held (fail_stack ai cx s ss msg x) = Option.bind (held x) (\<lambda>h. if h = Some s then Some None else None)"
  by (simp add: fail_stack_def)

lemma held_fetch_plan [simp]: "held (fst (fetch_plan W ai cx s x)) = held x"
  by (simp add: fetch_plan_def Let_def split: prod.split sum.split option.split)

lemma held_run_engine:
  "held x = Some (Some s) \<Longrightarrow> held (run_engine W ai cx s ss env x) = Some None"
  by (cases "fetch_plan W ai cx s x")
    (use held_fetch_plan [of W ai cx s x] in \<open>simp add: run_engine_def call_engine_def Let_def split: sum.split\<close>)

lemma held_state_auth: "held x = Some (Some s) \<Longrightarrow> held (fst (state_auth_step W cx s x)) = Some (Some s)"
  by (simp add: state_auth_step_def Let_def split: sum.split)

lemma held_login: "held x = Some (Some s) \<Longrightarrow> held (fst (login_step W s x)) = Some (Some s)"
  by (simp add: login_step_def Let_def split: option.split)

lemma held_apply_gated:
  assumes "held x = Some (Some s)"
  shows "held (apply_gated W ai cx s ss x) = Some None"
proof -
  obtain x1 e1 where 1: "state_auth_step W cx s x = (x1, e1)" by fastforce
  obtain x2 e2 where 2: "login_step W s x1 = (x2, e2)" by fastforce
  have h: "held x1 = Some (Some s)" "held x2 = Some (Some s)"
    using held_state_auth [OF assms, of W cx] held_login [of x1 s W] 1 2 by simp_all
  show ?thesis
    using 1 2 h held_run_engine [of "act (ActAuth s) x2" s W ai cx ss]
    by (simp add: apply_gated_def Let_def split: option.split sum.split)
qed

text \<open>Only a stack whose lock was acquired passes its gates.\<close>

lemma unblocked_acquired:
  assumes "evaluate_stack W ai cx s acquired n ss = (res, ss1, hooked)" and "\<not> r_Blocked res \<or> hooked"
  shows "acquired"
proof -
  have "\<not> r_Blocked (Evaluate_gates cfg inp) \<Longrightarrow> i_LockAcquirable inp" for cfg inp
    by (metis (mono_tags) Evaluate_eq Result.select_convs(3) UNIV_I all_gates gate_fails_simps(8))
  from this [of _ "gate_inputs W ai cx s acquired n"] show ?thesis
    using assms by (auto simp: evaluate_stack_def gate_inputs_def Let_def split: if_splits prod.splits)
qed

lemma held_gate_and_apply:
  assumes "held x = Some (if acquired then Some s else None)"
  shows "held (gate_and_apply W ai cx s ss l acquired x) = Some None"
proof -
  obtain res ss1 hooked where e: "evaluate_stack W ai cx s acquired (blocked_by acquired l) ss = (res, ss1, hooked)"
    by (cases "evaluate_stack W ai cx s acquired (blocked_by acquired l) ss")
  show ?thesis
    using assms unblocked_acquired [OF e] e
    by (auto simp: gate_and_apply_def Let_def intro!: held_apply_gated)
qed

lemma held_apply_stack:
  assumes "held x = Some None"
  shows "held (apply_stack W ai cx s x) = Some None"
proof -
  obtain lk l acquired err where
    a: "ls_TryAcquire (in_Locks ai) (st_Project s) (st_Name s) (holder_of ai cx) (LockTTL (in_Shared ai)) (ax_lock x)
        = (lk, l, acquired, err)"
    by (cases "ls_TryAcquire (in_Locks ai) (st_Project s) (st_Name s) (holder_of ai cx) (LockTTL (in_Shared ai)) (ax_lock x)")
  have no_lock: "\<not> (acquired \<and> err = None)" if "err \<noteq> None" using that by simp
  show ?thesis
    using a assms no_lock
    by (auto simp: apply_stack_def Let_def intro!: held_gate_and_apply split: option.split)
qed

lemma held_apply_loop: "held x = Some None \<Longrightarrow> held (apply_loop W ai cx ss x) = Some None"
  by (induction ss arbitrary: x) (simp_all add: held_apply_stack)

subsection \<open>The engine runs on cleared stacks only\<close>

text \<open>
  What has to hold of a stack for the engine to run on it: the preconditions of the gates, spelled out over
  the inputs of the run.
\<close>

definition cleared :: "'b ApplyWorld \<Rightarrow> ('s, 'b) ApplyInput \<Rightarrow> ApplyCtx \<Rightarrow> Stack \<Rightarrow> bool" where
  "cleared W ai cx s \<longleftrightarrow>
     (let cfg = toPreconditionsConfig (in_Shared ai); prev = StackStatus (cx_snapshot cx) (stack_Ref s);
          emergency = (cx_bg cx \<noteq> None); lost = (cx_bg cx \<noteq> None \<and> cx_history cx \<noteq> None) in
      \<not> vp_IsDraft (cx_pr cx)
      \<and> (vp_IsFork (cx_pr cx) \<longrightarrow> (\<exists>sh. in_Shared ai = Some sh \<and> ap_AllowForkPRs (sh_Apply sh)))
      \<and> (c_RequireUpToDate cfg \<longrightarrow>
           gi_Behind (cx_gi cx) = 0 \<or> 0 < c_PreviewMaxCommitsBehind cfg \<and> gi_Behind (cx_gi cx) \<le> c_PreviewMaxCommitsBehind cfg)
      \<and> (c_RequireChecksPassing cfg \<longrightarrow> gi_ChecksGreen (cx_gi cx))
      \<and> (pv_Succeeded prev \<or> lost)
      \<and> (c_PreviewFreshness cfg = 0 \<or> pv_Found prev \<and> pv_Age prev \<le> c_PreviewFreshness cfg \<or> lost)
      \<and> (approvals_satisfied W ai cx s \<or> emergency)
      \<and> (\<not> fst (freeze_state W ai s) \<or> emergency \<and> bg_OverrideFreeze (toBreakGlassConfig (in_Shared ai)))
      \<and> (HooksFromEngine (in_Config ai) = [] \<or> fst (policy_verdict W ai cx s (new_summary (st_Project s) (st_Name s) (st_Env s)))))"

lemma passing_gates: "\<not> r_Blocked (Evaluate_gates cfg inp) \<Longrightarrow> \<not> gate_fails cfg inp g"
  by (simp add: Evaluate_eq all_gates)

lemma policy_gate: "\<not> gate_fails cfg inp GatePolicy \<Longrightarrow> i_PolicyPassed inp \<noteq> Some False"
  by (simp add: gate_fails_simps)

lemma cleared_gates:
  assumes "\<not> r_Blocked (Evaluate_gates (toPreconditionsConfig (in_Shared ai)) (gate_inputs W ai cx s acquired n))"
    and "HooksFromEngine (in_Config ai) = []
         \<or> fst (policy_verdict W ai cx s (new_summary (st_Project s) (st_Name s) (st_Env s)))"
  shows "cleared W ai cx s"
proof -
  note p = passing_gates [OF assms(1)]
  show ?thesis
    using p [of GateDraft] p [of GateFork] p [of GateUpToDate] p [of GateChecksGreen] p [of GatePreviewOK]
      p [of GatePreviewFresh] p [of GateApprovals] p [of GateFreeze] assms(2)
    by (auto simp: cleared_def gate_fails_simps gate_inputs_def Let_def UpToDate_def split: option.splits)
qed

text \<open>The verdict of the second evaluation rests on the first one and on the policy.\<close>

lemma evaluate_cleared:
  assumes "evaluate_stack W ai cx s acquired n (new_summary (st_Project s) (st_Name s) (st_Env s)) = (res, ss1, hooked)"
    and "\<not> r_Blocked res"
  shows "cleared W ai cx s"
proof -
  let ?cfg = "toPreconditionsConfig (in_Shared ai)" and ?inp = "gate_inputs W ai cx s acquired n"
  let ?v = "policy_verdict W ai cx s (new_summary (st_Project s) (st_Name s) (st_Env s))"
  show ?thesis
  proof (cases "r_Blocked (Evaluate_gates ?cfg ?inp) \<or> HooksFromEngine (in_Config ai) = []")
    case True
    then have "res = Evaluate_gates ?cfg ?inp" "HooksFromEngine (in_Config ai) = []"
      using assms by (auto simp: evaluate_stack_def Let_def)
    then show ?thesis using cleared_gates assms(2) by metis
  next
    case False
    then have "res = Evaluate_gates ?cfg (?inp\<lparr>i_PolicyPassed := Some (fst ?v)\<rparr>)"
      using assms(1) by (simp add: evaluate_stack_def Let_def split: prod.splits)
    then have "fst ?v" using policy_gate [OF passing_gates] assms(2) by fastforce
    then show ?thesis using cleared_gates False by metis
  qed
qed

definition engine_runs :: "'b Act list \<Rightarrow> (Stack \<times> 'b ApplyOpts) set" where
  "engine_runs as = {(s, opts). ActEngine s opts \<in> set as}"

lemma engine_runs_simps [simp]:
  "engine_runs [] = {}" "engine_runs (as @ bs) = engine_runs as \<union> engine_runs bs"
  "engine_runs (a # as) = (case a of ActEngine s opts \<Rightarrow> insert (s, opts) (engine_runs as) | _ \<Rightarrow> engine_runs as)"
  by (auto simp: engine_runs_def split: Act.split)

text \<open>
  What one stack contributes: it is cleared if the engine ran; and unless its summary is an error or the run
  is blocked, the engine ran and reported no error.
\<close>

definition stack_done ::
  "'b ApplyWorld \<Rightarrow> ('s, 'b) ApplyInput \<Rightarrow> ApplyCtx \<Rightarrow> Stack \<Rightarrow> ('s, 'b) LoopState \<Rightarrow> ('s, 'b) LoopState \<Rightarrow> bool" where
  "stack_done W ai cx s x y \<longleftrightarrow>
     (\<exists>runs ss. engine_runs (ax_log y) = engine_runs (ax_log x) \<union> runs \<and> runs \<subseteq> {s} \<times> UNIV
        \<and> al_summaries y = al_summaries x @ [ss] \<and> (al_anyBlocked x \<longrightarrow> al_anyBlocked y)
        \<and> summary_Ref ss = stack_Ref s \<and> (runs \<noteq> {} \<longrightarrow> cleared W ai cx s)
        \<and> (ss_Status ss = StatusError \<or> al_anyBlocked y
           \<or> (\<exists>opts res. (s, opts) \<in> runs \<and> wd_engine W s opts = Inr res \<and> re_Error res = '''')))"

lemma stack_doneI:
  assumes "engine_runs (ax_log y) = engine_runs (ax_log x) \<union> runs" "runs \<subseteq> {s} \<times> UNIV"
    and "al_summaries y = al_summaries x @ [ss]" "al_anyBlocked x \<longrightarrow> al_anyBlocked y" "summary_Ref ss = stack_Ref s"
    and "runs \<noteq> {} \<longrightarrow> cleared W ai cx s"
    and "ss_Status ss = StatusError \<or> al_anyBlocked y
         \<or> (\<exists>opts res. (s, opts) \<in> runs \<and> wd_engine W s opts = Inr res \<and> re_Error res = '''')"
  shows "stack_done W ai cx s x y"
  using assms unfolding stack_done_def by blast

lemma summary_simps [simp]:
  "al_summaries (act a y) = al_summaries y" "al_summaries (event W ai ic lb dt y) = al_summaries y"
  "al_summaries (releaseLockOrLog ai cx s y) = al_summaries y" "al_summaries (record_stack ss y) = al_summaries y @ [ss]"
  "al_anyBlocked (act a y) = al_anyBlocked y" "al_anyBlocked (event W ai ic lb dt y) = al_anyBlocked y"
  "al_anyBlocked (releaseLockOrLog ai cx s y) = al_anyBlocked y" "al_anyBlocked (record_stack ss y) = al_anyBlocked y"
  by (simp_all add: act_def event_def releaseLockOrLog_def record_stack_def split: prod.split)

lemma ref_simps [simp]:
  "summary_Ref (new_summary p n e) = p @ ''/'' @ n" "summary_Ref (ss\<lparr>ss_Status := st\<rparr>) = summary_Ref ss"
  "summary_Ref (ss\<lparr>ss_Error := er\<rparr>) = summary_Ref ss" "summary_Ref (ss\<lparr>ss_Gates := gs\<rparr>) = summary_Ref ss"
  "summary_Ref (ss\<lparr>ss_BlockedBy := n'\<rparr>) = summary_Ref ss" "summary_Ref (ss\<lparr>ss_FullPlan := f\<rparr>) = summary_Ref ss"
  "summary_Ref (applied_summary r ss res) = summary_Ref ss"
  by (simp_all add: summary_Ref_def new_summary_def applied_summary_def Let_def)

definition quiet :: "('s, 'b) LoopState \<Rightarrow> ('s, 'b) LoopState \<Rightarrow> bool" where
  "quiet x y \<longleftrightarrow> engine_runs (ax_log y) = engine_runs (ax_log x) \<and> al_summaries y = al_summaries x
     \<and> al_anyBlocked y = al_anyBlocked x"

lemma quiet_trans: "quiet x y \<Longrightarrow> quiet y z \<Longrightarrow> quiet x z"
  by (simp add: quiet_def)

lemma quiet_steps:
  "quiet x (fst (state_auth_step W cx s x))" "quiet x (fst (login_step W s x))" "quiet x (fst (fetch_plan W ai cx s x))"
  by (simp_all add: quiet_def state_auth_step_def login_step_def fetch_plan_def Let_def
        split: sum.split option.split prod.split)

lemma done_fail:
  "quiet x y \<Longrightarrow> summary_Ref ss = stack_Ref s \<Longrightarrow> stack_done W ai cx s x (fail_stack ai cx s ss msg y)"
  by (rule stack_doneI [where runs = "{}" and ss = "ss\<lparr>ss_Status := StatusError, ss_Error := msg\<rparr>"])
    (simp_all add: quiet_def fail_stack_def)

lemma applied_status:
  "ss_Status (applied_summary r ss res) = StatusError \<or> re_Error res = ''''"
  by (simp add: applied_summary_def Let_def)

lemma done_engine:
  assumes "quiet x y" "summary_Ref ss = stack_Ref s" "cleared W ai cx s"
  shows "stack_done W ai cx s x (run_engine W ai cx s ss env y)"
proof -
  obtain y1 plan where f: "fetch_plan W ai cx s y = (y1, plan)" by fastforce
  have q: "quiet x y1" using quiet_trans [OF assms(1) quiet_steps(3)] f by (metis fst_conv)
  define opts where "opts = engine_opts ai s (mergeEnv (al_stateEnv y) env) plan"
  define r where "r = fold AddSecret (map snd (mergeEnv (al_stateEnv y) env)) (BuildRedactor W)"
  note defs = run_engine_def call_engine_def Let_def opts_def [symmetric] r_def [symmetric]
  show ?thesis
  proof (cases "wd_engine W s opts")
    case (Inl e)
    let ?ss = "ss\<lparr>ss_Status := StatusError, ss_Error := Redact_text (Some r) e\<rparr>"
    from Inl f q assms show ?thesis
      by (simp add: defs, intro stack_doneI [where runs = "{(s, opts)}" and ss = ?ss]) (auto simp: quiet_def fail_stack_def)
  next
    case (Inr res)
    let ?ss = "applied_summary r ss res"
    from Inr f q assms applied_status [of r ss res] show ?thesis
      by (simp add: defs, intro stack_doneI [where runs = "{(s, opts)}" and ss = ?ss]) (auto simp: quiet_def)
  qed
qed

lemma done_gated:
  assumes "quiet x y" "summary_Ref ss = stack_Ref s" "cleared W ai cx s"
  shows "stack_done W ai cx s x (apply_gated W ai cx s ss y)"
proof -
  obtain y1 e1 where 1: "state_auth_step W cx s y = (y1, e1)" by fastforce
  obtain y2 e2 where 2: "login_step W s y1 = (y2, e2)" by fastforce
  have q1: "quiet x y1" using quiet_trans [OF assms(1) quiet_steps(1)] 1 by (metis fst_conv)
  have q2: "quiet x y2" using quiet_trans [OF q1 quiet_steps(2)] 2 by (metis fst_conv)
  have q3: "quiet x (act (ActAuth s) y2)" using q2 by (simp add: quiet_def)
  show ?thesis
    using 1 2 q1 q2 q3 assms(2,3)
    by (simp add: apply_gated_def Let_def done_fail done_engine split: option.split sum.split)
qed

lemma done_gates:
  assumes "quiet x y"
  shows "stack_done W ai cx s x
           (gate_and_apply W ai cx s (new_summary (st_Project s) (st_Name s) (st_Env s)) l acquired y)"
proof -
  let ?ss = "new_summary (st_Project s) (st_Name s) (st_Env s)"
  obtain res ss1 hooked where e: "evaluate_stack W ai cx s acquired (blocked_by acquired l) ?ss = (res, ss1, hooked)"
    by (cases "evaluate_stack W ai cx s acquired (blocked_by acquired l) ?ss")
  have ref: "summary_Ref ss1 = stack_Ref s"
    using e by (auto simp: evaluate_stack_def stack_Ref_def Let_def split: if_splits prod.splits)
  show ?thesis
  proof (cases "r_Blocked res")
    case True
    with e ref assms show ?thesis
      by (intro stack_doneI [where runs = "{}" and ss = "ss1\<lparr>ss_Gates := gatesToTrace res,
              ss_BlockedBy := blocked_by acquired l, ss_Status := StatusBlocked\<rparr>"])
        (auto simp: gate_and_apply_def Let_def quiet_def)
  next
    case False
    define y2 where "y2 = (let y1 = (if hooked then act (ActPolicy s) y else y) in
      y1\<lparr>al_overridden := add_overridden (r_Overridden res) (al_overridden y1)\<rparr>)"
    have "quiet x y2" using assms by (simp add: y2_def quiet_def Let_def)
    with evaluate_cleared [OF e False] ref e False show ?thesis
      by (cases hooked) (auto simp: gate_and_apply_def Let_def y2_def intro!: done_gated)
  qed
qed

lemma done_stack: "stack_done W ai cx s x (apply_stack W ai cx s x)"
proof -
  obtain lk l acquired err where
    a: "ls_TryAcquire (in_Locks ai) (st_Project s) (st_Name s) (holder_of ai cx) (LockTTL (in_Shared ai)) (ax_lock x)
        = (lk, l, acquired, err)"
    by (cases "ls_TryAcquire (in_Locks ai) (st_Project s) (st_Name s) (holder_of ai cx) (LockTTL (in_Shared ai)) (ax_lock x)")
  define y where "y = act (ActAcquire s (acquired \<and> err = None)) (x\<lparr>ax_lock := lk\<rparr>)"
  have q: "quiet x y" by (simp add: y_def quiet_def)
  consider e where "wd_cancelled W s = Some e" | "wd_cancelled W s = None" "err = None"
    | e where "wd_cancelled W s = None" "err = Some e" by (cases "wd_cancelled W s"; cases err) auto
  then show ?thesis
  proof cases
    case 2
    with a done_gates [OF q] show ?thesis by (simp add: apply_stack_def Let_def y_def)
  qed (use a in \<open>auto simp: apply_stack_def Let_def stack_Ref_def intro!: stack_doneI [where runs = "{}"]\<close>)
qed

text \<open>The whole loop.\<close>

lemma loop_runs:
  "engine_runs (ax_log (apply_loop W ai cx ss x))
     \<subseteq> engine_runs (ax_log x) \<union> {(s, opts). s \<in> set ss \<and> cleared W ai cx s}"
proof (induction ss arbitrary: x)
  case (Cons s ss)
  have "engine_runs (ax_log (apply_stack W ai cx s x)) \<subseteq> engine_runs (ax_log x) \<union> {(s', opts). s' = s \<and> cleared W ai cx s}"
    using done_stack [of W ai cx s x] unfolding stack_done_def by fastforce
  with Cons [of "apply_stack W ai cx s x"] show ?case by fastforce
qed simp

lemma loop_grows:
  "engine_runs (ax_log x) \<subseteq> engine_runs (ax_log (apply_loop W ai cx ss x))
   \<and> set (al_summaries x) \<subseteq> set (al_summaries (apply_loop W ai cx ss x))
   \<and> (al_anyBlocked x \<longrightarrow> al_anyBlocked (apply_loop W ai cx ss x))"
proof (induction ss arbitrary: x)
  case (Cons s ss)
  have "engine_runs (ax_log x) \<subseteq> engine_runs (ax_log (apply_stack W ai cx s x))"
    "set (al_summaries x) \<subseteq> set (al_summaries (apply_stack W ai cx s x))"
    "al_anyBlocked x \<longrightarrow> al_anyBlocked (apply_stack W ai cx s x)"
    using done_stack [of W ai cx s x] unfolding stack_done_def by auto
  with Cons [of "apply_stack W ai cx s x"] show ?case by auto
qed simp

lemma loop_refs:
  "map summary_Ref (al_summaries (apply_loop W ai cx ss x)) = map summary_Ref (al_summaries x) @ map stack_Ref ss"
proof (induction ss arbitrary: x)
  case (Cons s ss)
  have "map summary_Ref (al_summaries (apply_stack W ai cx s x)) = map summary_Ref (al_summaries x) @ [stack_Ref s]"
    using done_stack [of W ai cx s x] unfolding stack_done_def by auto
  with Cons [of "apply_stack W ai cx s x"] show ?case by simp
qed simp

lemma loop_clean:
  assumes "\<not> al_anyBlocked (apply_loop W ai cx ss x)"
    and "\<forall>m \<in> set (al_summaries (apply_loop W ai cx ss x)). ss_Status m \<noteq> StatusError" and "s \<in> set ss"
  shows "\<exists>opts res. (s, opts) \<in> engine_runs (ax_log (apply_loop W ai cx ss x)) \<and> wd_engine W s opts = Inr res
           \<and> re_Error res = ''''"
  using assms
proof (induction ss arbitrary: x)
  case (Cons t ss)
  let ?y = "apply_stack W ai cx t x"
  show ?case
  proof (cases "s \<in> set ss")
    case False
    then have "s = t" using Cons.prems by simp
    obtain runs m where r: "engine_runs (ax_log ?y) = engine_runs (ax_log x) \<union> runs" "m \<in> set (al_summaries ?y)"
      "ss_Status m = StatusError \<or> al_anyBlocked ?y
       \<or> (\<exists>opts res. (t, opts) \<in> runs \<and> wd_engine W t opts = Inr res \<and> re_Error res = '''')"
      using done_stack [of W ai cx t x] unfolding stack_done_def by fastforce
    then show ?thesis
      using loop_grows [of ?y W ai cx ss] Cons.prems \<open>s = t\<close> by (simp; blast)
  qed (use Cons in simp)
qed simp

text \<open>The loop only appends to the log, and writes no marker.\<close>

definition extends_log :: "('s, 'b) LoopState \<Rightarrow> ('s, 'b) LoopState \<Rightarrow> bool" where
  "extends_log x y \<longleftrightarrow> (\<exists>as. ax_log y = ax_log x @ as \<and> ActMarker \<notin> set as)"

lemma ext_refl: "extends_log x x"
  by (simp add: extends_log_def)

lemma ext_trans: "extends_log x y \<Longrightarrow> extends_log y z \<Longrightarrow> extends_log x z"
  by (auto simp: extends_log_def)

lemma ext_steps:
  "extends_log x (fst (state_auth_step W cx s x))" "extends_log x (fst (login_step W s x))"
  "extends_log x (fst (fetch_plan W ai cx s x))" "extends_log x (fst (call_engine W ai cx s opts x))"
  "extends_log x (fail_stack ai cx s ss msg x)" "extends_log x (record_stack ss (releaseLockOrLog ai cx s x))"
  "extends_log x (act (ActAuth s) x)"
  by (simp_all add: extends_log_def state_auth_step_def login_step_def fetch_plan_def call_engine_def fail_stack_def Let_def
        split: sum.split option.split prod.split)

lemma ext_engine: "extends_log x (run_engine W ai cx s ss env x)"
proof -
  obtain x1 plan where 1: "fetch_plan W ai cx s x = (x1, plan)" by fastforce
  obtain x2 r where 2: "call_engine W ai cx s (engine_opts ai s (mergeEnv (al_stateEnv x) env) plan) x1 = (x2, r)" by fastforce
  have "extends_log x x2" using ext_steps(3,4) ext_trans 1 2 by (metis fst_conv)
  then show ?thesis
    using 1 2 by (cases r) (auto simp: run_engine_def Let_def intro: ext_trans [OF _ ext_steps(5)] ext_trans [OF _ ext_steps(6)])
qed

lemma ext_gated: "extends_log x (apply_gated W ai cx s ss x)"
proof -
  obtain x1 e1 where 1: "state_auth_step W cx s x = (x1, e1)" by fastforce
  obtain x2 e2 where 2: "login_step W s x1 = (x2, e2)" by fastforce
  have x: "extends_log x x1" "extends_log x x2" "extends_log x (act (ActAuth s) x2)"
    using ext_steps(1,2,7) ext_trans 1 2 by (metis fst_conv)+
  show ?thesis
    using 1 2 x
    by (auto simp: apply_gated_def Let_def intro: ext_trans [OF _ ext_steps(5)] ext_trans [OF _ ext_engine]
          split: option.split sum.split)
qed

lemma ext_gates:
  assumes "extends_log x y"
  shows "extends_log x (gate_and_apply W ai cx s ss l acquired y)"
proof -
  obtain res ss1 hooked where e: "evaluate_stack W ai cx s acquired (blocked_by acquired l) ss = (res, ss1, hooked)"
    by (cases "evaluate_stack W ai cx s acquired (blocked_by acquired l) ss")
  define z where "z = (let y1 = (if hooked then act (ActPolicy s) y else y) in
    y1\<lparr>al_overridden := add_overridden (r_Overridden res) (al_overridden y1)\<rparr>)"
  have z: "extends_log x z" using assms by (auto simp: extends_log_def z_def Let_def)
  show ?thesis
  proof (cases "r_Blocked res")
    case True
    with e assms show ?thesis by (auto simp: gate_and_apply_def Let_def extends_log_def)
  next
    case False
    with e have "\<exists>ss'. gate_and_apply W ai cx s ss l acquired y = apply_gated W ai cx s ss' z"
      by (auto simp: gate_and_apply_def z_def Let_def)
    with ext_trans [OF z ext_gated] show ?thesis by metis
  qed
qed

lemma ext_stack: "extends_log x (apply_stack W ai cx s x)"
proof -
  obtain lk l acquired err where
    a: "ls_TryAcquire (in_Locks ai) (st_Project s) (st_Name s) (holder_of ai cx) (LockTTL (in_Shared ai)) (ax_lock x)
        = (lk, l, acquired, err)"
    by (cases "ls_TryAcquire (in_Locks ai) (st_Project s) (st_Name s) (holder_of ai cx) (LockTTL (in_Shared ai)) (ax_lock x)")
  have y: "extends_log x (act (ActAcquire s b) (x\<lparr>ax_lock := lk\<rparr>))" for b by (simp add: extends_log_def)
  with a ext_gates [OF y] show ?thesis
    by (simp add: apply_stack_def Let_def extends_log_def split: option.split)
qed

lemma ext_loop: "extends_log x (apply_loop W ai cx ss x)"
  by (induction ss arbitrary: x) (auto simp: ext_refl intro: ext_trans ext_stack)

end
