(* ===== verification/ApplyRun.thy ===== *)
theory ApplyRun
  imports ApplyStack
begin

text \<open>
  A whole apply run, \<open>Apply\<close> of \<open>internal/run/apply.go\<close>: what happens before the stack loop
  (\<open>prepare\<close>: trigger, head, preview snapshot, applied marker, scope, gate inputs, break-glass), and the
  terminal reporting after it (\<open>finish_run\<close>). Go returns an output and an error; a result here is that pair.
  Durations, the rendered comment body, telemetry and annotations are not modelled; the terminal context
  that outlives a cancellation only bounds time.
\<close>

subsection \<open>Results\<close>

record ApplyOutput =
  ou_Stacks :: "StackSummary list"
  ou_RunID :: string
  ou_Blocked :: bool
  ou_Failed :: bool
  ou_FailedStacks :: "string list"

datatype ApplyErr = NoJustification | GetPRFailed string | HeadFailed HeadErr | SnapshotFailed SnapErr
  | EnumerateFailed string | DuplicateRefs "string \<times> string list" | ChangedFailed string | GatherFailed GatherErr
  | ChecksFailed string | CompareFailed string | BreakGlassRefused BGErr | BreakGlassDenied "BGTrace list"
  | NoAuditWriter | IntentFailed AuditErr | ExecEnvFailed string | PersistFailed "MarkErr option" "string option"

type_synonym ('s, 'b, 'a) step = "('s, 'b) ApplyState \<times> ((ApplyErr option \<times> ApplyOutput option) + 'a)"

definition fails :: "ApplyErr \<Rightarrow> (ApplyErr option \<times> ApplyOutput option) + 'a" where
  "fails e = Inl (Some e, None)"

definition skips :: "string \<Rightarrow> (ApplyErr option \<times> ApplyOutput option) + 'a" where
  "skips runID =
     Inl (None, Some \<lparr>ou_Stacks = [], ou_RunID = runID, ou_Blocked = False, ou_Failed = False, ou_FailedStacks = []\<rparr>)"

definition run_id :: "('s, 'b) ApplyInput \<Rightarrow> string \<Rightarrow> string" where
  "run_id ai sha = runIdentity ''apply'' (in_RunNumber ai) (in_RunAttempt ai) sha"

subsection \<open>Trigger, head, preview snapshot\<close>

definition trigger_matches :: "('s, 'b) ApplyInput \<Rightarrow> bool" where
  "trigger_matches ai \<longleftrightarrow>
     in_BreakGlass ai \<noteq> None
     \<or> (if in_TriggerSource ai = '''' then ApplyTriggerComment else in_TriggerSource ai)
       = (case in_Shared ai of None \<Rightarrow> ApplyTriggerComment | Some sh \<Rightarrow> TriggerMode (sh_Apply sh))"

definition resolve_head :: "'b ApplyWorld \<Rightarrow> ('s, 'b) ApplyInput \<Rightarrow> ApplyErr + VcsPR \<times> string" where
  "resolve_head W ai =
     (case wd_pr W of
        Inl e \<Rightarrow> Inl (GetPRFailed e)
      | Inr pr \<Rightarrow>
          (case validateExpectedPRHead (in_ExpectedHeadSHA ai) of
             Some e \<Rightarrow> Inl (HeadFailed e)
           | None \<Rightarrow>
               if in_ExpectedHeadSHA ai \<noteq> ''''
               then (case comparePRHead (Some pr) (in_ExpectedHeadSHA ai) of
                       Some e \<Rightarrow> Inl (HeadFailed e)
                     | None \<Rightarrow> Inr (pr, in_ExpectedHeadSHA ai))
               else Inr (pr, if vp_HeadSHA pr \<noteq> '''' then vp_HeadSHA pr else in_CommitSHA ai)))"

definition load_snapshot ::
  "'b ApplyWorld \<Rightarrow> ('s, 'b) ApplyInput \<Rightarrow> string \<Rightarrow> ('s, 'b) ApplyState \<Rightarrow> ('s, 'b, PreviewSnapshot \<times> string option) step" where
  "load_snapshot W ai sha x =
     (case LoadPreviewSnapshot (in_Blob ai) (wd_manifest_of W) (in_PRNumber ai) sha (wd_clock W AtSnapshot) (w_store (ax_lock x)) of
        (s', r) \<Rightarrow>
          (x\<lparr>ax_lock := (ax_lock x)\<lparr>w_store := s'\<rparr>\<rparr>,
           case r of
             Inr snap \<Rightarrow> Inr (snap, None)
           | Inl e \<Rightarrow>
               if in_BreakGlass ai = None then fails (SnapshotFailed e)
               else Inr (no_snapshot, Some (Redact_text (Some (BuildRedactor W)) (wd_text W (MsgSnapErr e))))))"

definition already_applied ::
  "'b ApplyWorld \<Rightarrow> ('s, 'b) ApplyInput \<Rightarrow> string \<Rightarrow> ('s, 'b) ApplyState \<Rightarrow> ('s, 'b) ApplyState \<times> AppliedState option" where
  "already_applied W ai sha x =
     (if in_Force ai then (x, None)
      else case readAppliedState (in_Blob ai) (wd_marker_of W) (in_PRNumber ai) sha (w_store (ax_lock x)) of
             (s', prior) \<Rightarrow> (x\<lparr>ax_lock := (ax_lock x)\<lparr>w_store := s'\<rparr>\<rparr>, prior))"

subsection \<open>Scope\<close>

definition bind_scope :: "Stack list \<Rightarrow> AffectedResult \<Rightarrow> PreviewSnapshot \<Rightarrow> Stack list" where
  "bind_scope decl mapped snap =
     (case StackRefs snap of
        Some refs \<Rightarrow> filter (\<lambda>s. stack_Ref s \<in> set refs) decl
      | None \<Rightarrow> if af_Reason mapped = ReasonBroadened then af_Matched mapped else af_Stacks mapped)"

definition scope_event ::
  "'b ApplyWorld \<Rightarrow> ('s, 'b) ApplyInput \<Rightarrow> string \<Rightarrow> AffectedResult \<Rightarrow> PreviewSnapshot \<Rightarrow> string option \<Rightarrow> Stack list
     \<Rightarrow> ('s, 'b) ApplyState \<Rightarrow> ('s, 'b) ApplyState" where
  "scope_event W ai sha mapped snap hist target x =
     (if StackRefs snap \<noteq> None then
        let dropped = scopeDelta (af_Stacks mapped) target in
        if dropped = [] then x
        else event W ai [240, 159, 142, 175] ''scope bound to plan'' (wd_text W (MsgScopeBound (length target) (shortSHA sha) dropped)) x
      else if af_Reason mapped = ReasonBroadened then
        if hist \<noteq> None
        then event W ai [226, 154, 160, 239, 184, 143] ''scope reconstructed''
               (wd_text W (MsgScopeReconstructed (length (af_Matched mapped)) (af_Unmapped mapped))) x
        else event W ai [240, 159, 147, 161] ''scope broadened'' (wd_text W (MsgScopeBroadened (af_Unmapped mapped) (shortSHA sha))) x
      else x)"

definition skip_reason :: "('s, 'b) ApplyInput \<Rightarrow> string \<Rightarrow> AffectedResult \<Rightarrow> bool \<Rightarrow> Msg" where
  "skip_reason ai sha mapped allOutside =
     (if allOutside then MsgOutsideRoot (in_RepoPath ai)
      else if af_Reason mapped = ReasonDocsOnly then MsgDocsOnly
      else MsgNoPlan (shortSHA sha))"

definition declared_stacks :: "'b ApplyWorld \<Rightarrow> ('s, 'b) ApplyInput \<Rightarrow> Stack list \<Rightarrow> Stack list" where
  "declared_stacks W ai enum =
     (case declarationsFromConfig (in_Config ai) of (decls, flt) \<Rightarrow> Resolve_stacks (wd_glob W) enum decls flt)"

definition resolve_scope ::
  "'b ApplyWorld \<Rightarrow> ('s, 'b) ApplyInput \<Rightarrow> string \<Rightarrow> PreviewSnapshot \<Rightarrow> string option \<Rightarrow> ('s, 'b) ApplyState
     \<Rightarrow> ('s, 'b, Stack list \<times> string list) step" where
  "resolve_scope W ai sha snap hist x =
     (case wd_stacks W of
        Inl e \<Rightarrow> (x, fails (EnumerateFailed e))
      | Inr enum \<Rightarrow>
          (let decl = declared_stacks W ai enum in
           case ValidateUniqueRefs decl of
             Some dup \<Rightarrow> (x, fails (DuplicateRefs dup))
           | None \<Rightarrow>
               (case wd_changed W of
                  Inl e \<Rightarrow> (x, fails (ChangedFailed e))
                | Inr files \<Rightarrow>
                    (case run_scopeChangedFiles files (in_RepoPath ai) of
                       (changed, allOutside) \<Rightarrow>
                         (let mapped = AffectedDetailed (wd_pglob W) decl changed (changeMappingFromConfig (in_Config ai));
                              target = bind_scope decl mapped snap;
                              x1 = scope_event W ai sha mapped snap hist target x
                          in if target = []
                             then (event W ai [226, 143, 173, 239, 184, 143] ''skipped''
                                     (wd_text W (skip_reason ai sha mapped allOutside)) x1, skips (run_id ai sha))
                             else (x1, Inr (target, changed)))))))"

subsection \<open>Break-glass\<close>

text \<open>\<open>errors.Is (err, blob.ErrPreconditionFailed)\<close>, which also looks inside a wrapped probe error.\<close>

fun precondition_failed :: "AuditErr \<Rightarrow> bool" where
  "precondition_failed (AuditBlob e) \<longleftrightarrow> e = ErrPreconditionFailed"
| "precondition_failed (AuditProbe (Wrapped st e)) \<longleftrightarrow> e = Some ErrPreconditionFailed"
| "precondition_failed _ \<longleftrightarrow> False"

definition write_audit ::
  "'b ApplyWorld \<Rightarrow> ('s, 'b list) Store \<Rightarrow> AuditEntry \<Rightarrow> ('s, 'b, 'z) ApplyState_scheme
     \<Rightarrow> ('s, 'b, 'z) ApplyState_scheme \<times> AuditErr option" where
  "write_audit W B e x =
     (case audit_Write B (wd_probe_rnd W) (wd_probe_bodies W) (wd_of_audit W) e (ax_probe x) (w_store (ax_lock x)) of
        (s', p', err) \<Rightarrow> (x\<lparr>ax_lock := (ax_lock x)\<lparr>w_store := s'\<rparr>, ax_probe := p'\<rparr>, err))"

definition audit_entry ::
  "'b ApplyWorld \<Rightarrow> ('s, 'b) ApplyInput \<Rightarrow> string \<Rightarrow> string \<Rightarrow> Moment \<Rightarrow> string \<Rightarrow> AuditEntry" where
  "audit_entry W ai sha runID fin outcome =
     \<lparr>ae_SchemaVersion = 0, ae_RunID = runID, ae_Op = ''apply'', ae_StartedAt = fmt_rfc3339 (wd_clock W AtStart),
      ae_FinishedAt = fmt_rfc3339 (wd_clock W fin), ae_Actor = in_Actor ai, ae_PR = in_PRNumber ai, ae_CommitSHA = sha,
      ae_Repo = in_RepoFull ai, ae_RunURL = in_CIRunURL ai, ae_Outcome = outcome, ae_Stacks = [], ae_DurationMS = 0,
      ae_BreakGlass = None\<rparr>"

definition break_glass_record :: "string \<Rightarrow> Decision \<Rightarrow> string list \<Rightarrow> string list \<Rightarrow> AuditBreakGlass" where
  "break_glass_record just dec gates touched =
     \<lparr>ab_Justification = just, ab_AuthorizedVia = de_Source dec, ab_OverriddenGates = gates,
      ab_AuthorizingConfigModified = (touched \<noteq> []), ab_AuthorizingPathsModified = touched\<rparr>"

definition intent_entry ::
  "'b ApplyWorld \<Rightarrow> ('s, 'b) ApplyInput \<Rightarrow> string \<Rightarrow> string \<Rightarrow> Decision \<Rightarrow> string list \<Rightarrow> AuditEntry" where
  "intent_entry W ai sha just dec touched =
     (audit_entry W ai sha (run_id ai sha @ ''-intent'') AtIntent ''break_glass_intent'')
       \<lparr>ae_BreakGlass := Some (break_glass_record just dec [] touched)\<rparr>"

definition write_intent ::
  "'b ApplyWorld \<Rightarrow> ('s, 'b) ApplyInput \<Rightarrow> string \<Rightarrow> string \<Rightarrow> Decision \<Rightarrow> string list \<Rightarrow> ('s, 'b) ApplyState
     \<Rightarrow> ('s, 'b, Decision option \<times> string list) step" where
  "write_intent W ai sha just dec touched x =
     (case in_AuditWriter ai of
        None \<Rightarrow> (x, fails NoAuditWriter)
      | Some B \<Rightarrow>
          (case write_audit W B (intent_entry W ai sha just dec touched) (act (ActIntent (run_id ai sha @ ''-intent'')) x) of
             (x1, None) \<Rightarrow> (x1, Inr (Some dec, touched))
           | (x1, Some e) \<Rightarrow>
               if precondition_failed e then (x1, Inr (Some dec, touched))
               else (event W ai [226, 155, 148] ''break-glass refused''
                       ''intent audit entry could not be written; refusing to apply'' x1, fails (IntentFailed e))))"

definition bg_inputs :: "('s, 'b) ApplyInput \<Rightarrow> gateInputs \<Rightarrow> teams \<Rightarrow> string list \<Rightarrow> BGInputs" where
  "bg_inputs ai gi teams changed =
     \<lparr>bi_Actor = in_Actor ai, bi_OwnedPaths = gi_Codeowners gi, bi_TeamMembers = teams,
      bi_AuthorizingPathsTouched = AuthorizingPathsTouched changed\<rparr>"

definition announce_override ::
  "'b ApplyWorld \<Rightarrow> ('s, 'b) ApplyInput \<Rightarrow> string \<Rightarrow> Decision \<Rightarrow> string list \<Rightarrow> string option \<Rightarrow> ('s, 'b) ApplyState
     \<Rightarrow> ('s, 'b) ApplyState" where
  "announce_override W ai just dec touched hist x =
     (let x1 = event W ai [240, 159, 154, 168] ''break-glass override''
                 (wd_text W (MsgAuthorized (in_Actor ai) (de_Source dec) just touched)) x in
      case hist of
        None \<Rightarrow> x1
      | Some reason \<Rightarrow>
          event W ai [226, 154, 160, 239, 184, 143] ''preview history unavailable''
            (''continuing under authorized break-glass: '' @ reason) x1)"

definition break_glass_step ::
  "'b ApplyWorld \<Rightarrow> ('s, 'b) ApplyInput \<Rightarrow> string \<Rightarrow> gateInputs \<Rightarrow> teams \<Rightarrow> string list \<Rightarrow> string option \<Rightarrow> ('s, 'b) ApplyState
     \<Rightarrow> ('s, 'b, Decision option \<times> string list) step" where
  "break_glass_step W ai sha gi teams changed hist x =
     (case in_BreakGlass ai of
        None \<Rightarrow> (x, Inr (None, []))
      | Some just \<Rightarrow>
          (let touched = AuthorizingPathsTouched changed in
           case Authorize (toBreakGlassConfig (in_Shared ai)) (bg_inputs ai gi teams changed) of
             Inl e \<Rightarrow> (event W ai [226, 155, 148] ''break-glass refused'' (wd_text W (MsgRefused e)) x, fails (BreakGlassRefused e))
           | Inr dec \<Rightarrow>
               if \<not> de_Authorized dec
               then (event W ai [226, 155, 148] ''break-glass denied'' (wd_text W (MsgDenied (in_Actor ai) (de_Trace dec))) x,
                     fails (BreakGlassDenied (de_Trace dec)))
               else write_intent W ai sha just dec touched (announce_override W ai just dec touched hist x)))"

subsection \<open>Everything before the loop\<close>

definition team_rules :: "'b ApplyWorld \<Rightarrow> ('s, 'b) ApplyInput \<Rightarrow> gateInputs \<Rightarrow> Stack list \<Rightarrow> Rules list" where
  "team_rules W ai gi target =
     (let bgl = bg_InternalList (toBreakGlassConfig (in_Shared ai)); co = codeownerApprovers (gi_Codeowners gi) in
      map (\<lambda>s. Resolve_rules (wd_rglob W) (gi_ApprovalsCfg gi) (stack_Ref s)) target
      @ (if in_BreakGlass ai \<noteq> None \<and> bgl \<noteq> [] then [no_rules\<lparr>ru_Approvers := bgl\<rparr>] else [])
      @ (if co \<noteq> [] then [no_rules\<lparr>ru_Approvers := co\<rparr>] else []))"

definition read_gates ::
  "'b ApplyWorld \<Rightarrow> ('s, 'b) ApplyInput \<Rightarrow> VcsPR \<Rightarrow> string \<Rightarrow> Stack list \<Rightarrow> string list \<Rightarrow> ApplyErr + gateInputs \<times> teams" where
  "read_gates W ai pr sha target changed =
     (case gatherGateInputs W ai pr sha changed of
        Inl e \<Rightarrow> Inl (GatherFailed e)
      | Inr gi \<Rightarrow>
          (case gi_ChecksErr gi of
             Some e \<Rightarrow> Inl (ChecksFailed e)
           | None \<Rightarrow>
               (case gi_CompareErr gi of
                  Some e \<Rightarrow> Inl (CompareFailed e)
                | None \<Rightarrow>
                    let teams = fst (ExpandTeams (Some (wd_team W)) (team_rules W ai gi target)) in
                    (case revalidatePRHead (Some (wd_pr_again W)) (in_PRNumber ai) (in_ExpectedHeadSHA ai) of
                       Some e \<Rightarrow> Inl (HeadFailed e)
                     | None \<Rightarrow> Inr (gi, teams)))))"

definition notify_start :: "('s, 'b) ApplyInput \<Rightarrow> Decision option \<Rightarrow> ('s, 'b) ApplyState \<Rightarrow> ('s, 'b) ApplyState" where
  "notify_start ai bg x =
     (if 0 < in_PRNumber ai \<and> in_Notifications ai
      then act (ActNotify ''applying'') (act (ActNotify (if bg \<noteq> None then ''break_glass'' else ''approved'')) x)
      else x)"

definition enter_loop ::
  "'b ApplyWorld \<Rightarrow> ('s, 'b) ApplyInput \<Rightarrow> VcsPR \<Rightarrow> string \<Rightarrow> PreviewSnapshot \<Rightarrow> string option \<Rightarrow> gateInputs \<Rightarrow> teams
     \<Rightarrow> Decision option \<Rightarrow> string list \<Rightarrow> ('s, 'b) ApplyState \<Rightarrow> ('s, 'b, ApplyCtx) step" where
  "enter_loop W ai pr sha snap hist gi teams bg touched x =
     (let x1 = notify_start ai bg x in
      case wd_exec_env W of
        Inl e \<Rightarrow> (x1, fails (ExecEnvFailed e))
      | Inr env \<Rightarrow>
          (if in_Refresh ai
           then event W ai [240, 159, 148, 132] ''refresh requested''
                  ''state is reconciled with live infrastructure before this apply; the applied change set is computed after the refresh, so it is not the plan the PR previewed'' x1
           else x1,
           Inr \<lparr>cx_pr = pr, cx_sha = sha, cx_runID = run_id ai sha, cx_snapshot = snap, cx_history = hist, cx_gi = gi,
                cx_teams = teams, cx_bg = bg, cx_touched = touched, cx_execEnv = env,
                cx_planLocking = (in_Blob ai \<noteq> None \<and> \<not> in_Refresh ai \<and> PlanLockingEnabled (in_Config ai) \<and> in_SavedPlans ai)\<rparr>))"

definition authorize_run ::
  "'b ApplyWorld \<Rightarrow> ('s, 'b) ApplyInput \<Rightarrow> VcsPR \<Rightarrow> string \<Rightarrow> PreviewSnapshot \<Rightarrow> string option \<Rightarrow> Stack list \<Rightarrow> string list
     \<Rightarrow> ('s, 'b) ApplyState \<Rightarrow> ('s, 'b, ApplyCtx \<times> Stack list) step" where
  "authorize_run W ai pr sha snap hist target changed x =
     (case read_gates W ai pr sha target changed of
        Inl e \<Rightarrow> (x, fails e)
      | Inr (gi, teams) \<Rightarrow>
          (case break_glass_step W ai sha gi teams changed hist x of
             (x1, Inl r) \<Rightarrow> (x1, Inl r)
           | (x1, Inr (bg, touched)) \<Rightarrow>
               (case enter_loop W ai pr sha snap hist gi teams bg touched x1 of
                  (x2, Inl r) \<Rightarrow> (x2, Inl r)
                | (x2, Inr cx) \<Rightarrow> (x2, Inr (cx, target)))))"

definition select_stacks ::
  "'b ApplyWorld \<Rightarrow> ('s, 'b) ApplyInput \<Rightarrow> VcsPR \<Rightarrow> string \<Rightarrow> PreviewSnapshot \<Rightarrow> string option \<Rightarrow> ('s, 'b) ApplyState
     \<Rightarrow> ('s, 'b, ApplyCtx \<times> Stack list) step" where
  "select_stacks W ai pr sha snap hist x =
     (case already_applied W ai sha x of
        (x1, Some prior) \<Rightarrow>
          (event W ai [226, 143, 173, 239, 184, 143] ''skipped''
             (wd_text W (MsgAlreadyApplied (shortSHA sha) (ad_RunNumber prior) (ad_AppliedAt prior))) x1, skips (run_id ai sha))
      | (x1, None) \<Rightarrow>
          (case resolve_scope W ai sha snap hist x1 of
             (x2, Inl r) \<Rightarrow> (x2, Inl r)
           | (x2, Inr (target, changed)) \<Rightarrow> authorize_run W ai pr sha snap hist target changed x2))"

definition prepare ::
  "'b ApplyWorld \<Rightarrow> ('s, 'b) ApplyInput \<Rightarrow> ('s, 'b) ApplyState \<Rightarrow> ('s, 'b, ApplyCtx \<times> Stack list) step" where
  "prepare W ai x =
     (if (case in_BreakGlass ai of None \<Rightarrow> False | Some just \<Rightarrow> TrimSpace just = '''') then (x, fails NoJustification)
      else if \<not> trigger_matches ai then (x, skips (run_id ai (in_CommitSHA ai)))
      else case resolve_head W ai of
             Inl e \<Rightarrow> (x, fails e)
           | Inr (pr, sha) \<Rightarrow>
               (let x1 = event W ai [240, 159, 154, 128] ''apply starting'' ''''
                           (x\<lparr>ax_tl := newApplyTimeline (in_PRNumber ai) sha\<rparr>) in
                case load_snapshot W ai sha x1 of
                  (x2, Inl r) \<Rightarrow> (x2, Inl r)
                | (x2, Inr (snap, hist)) \<Rightarrow> select_stacks W ai pr sha snap hist x2))"

subsection \<open>Terminal reporting\<close>

definition writeApplyManifest ::
  "'b ApplyWorld \<Rightarrow> ('s, 'b) ApplyInput \<Rightarrow> ApplyCtx \<Rightarrow> StackSummary list \<Rightarrow> ('s, 'b, 'z) ApplyState_scheme
     \<Rightarrow> ('s, 'b, 'z) ApplyState_scheme \<times> MarkErr option" where
  "writeApplyManifest W ai cx stacks x =
     (case in_Blob ai of
        None \<Rightarrow> (x, None)
      | Some B \<Rightarrow>
          (case wd_of_manifest W \<lparr>mf_RunID = cx_runID cx, mf_PR = in_PRNumber ai, mf_CommitSHA = cx_sha cx, mf_Op = ''apply'',
                                   mf_CreatedAt = fmt_rfc3339 (wd_clock W AtManifest), mf_Stacks = stacks\<rparr> of
             None \<Rightarrow> (x, Some MarkEncode)
           | Some data \<Rightarrow>
               (let key = (if in_PRNumber ai = 0 then ''runs/local/'' @ cx_runID cx @ ''/manifest.json''
                           else ''runs/pr-'' @ itoa (in_PRNumber ai) @ ''/'' @ cx_runID cx @ ''/manifest.json'') in
                case s_Put B key data (w_store (ax_lock x)) of
                  (s', r) \<Rightarrow>
                    (act ActManifest (x\<lparr>ax_lock := (ax_lock x)\<lparr>w_store := s'\<rparr>\<rparr>),
                     case r of Inl e \<Rightarrow> Some (MarkPut e) | Inr _ \<Rightarrow> None))))"

definition changedStacksDetail :: "StackSummary list \<Rightarrow> string" where
  "changedStacksDetail ss =
     (let refs = map summary_Ref (filter (\<lambda>s. ss_Status s = StatusPlanned) ss) in
      if refs = [] then ''no changes'' else itoa (int (length refs)) @ '' stack(s): '' @ Join refs '', '')"

definition failedStacksDetail :: "StackSummary list \<Rightarrow> string" where
  "failedStacksDetail ss = Join (failedStackRefs ss) '', ''"

definition blockedStacksDetail :: "'b ApplyWorld \<Rightarrow> StackSummary list \<Rightarrow> string" where
  "blockedStacksDetail W ss =
     Join
       (map (\<lambda>s. case find (\<lambda>g. gt_Outcome g = ''fail'') (ss_Gates s) of
                    None \<Rightarrow> summary_Ref s
                  | Some g \<Rightarrow> let reason = wd_text W (MsgGate (gt_Reason g)) in
                              if reason = '''' then summary_Ref s else summary_Ref s @ '' ('' @ reason @ '')'')
          (filter (\<lambda>s. ss_Status s = StatusBlocked) ss)) '', ''"

definition mark_applied ::
  "'b ApplyWorld \<Rightarrow> ('s, 'b) ApplyInput \<Rightarrow> ApplyCtx \<Rightarrow> ('s, 'b, 'z) ApplyState_scheme \<Rightarrow> ('s, 'b, 'z) ApplyState_scheme" where
  "mark_applied W ai cx x =
     (let x1 = (if 0 < in_PRNumber ai
                then act ActSweep (x\<lparr>ax_lock := fst (UnlockPRAll (in_Locks ai) (in_PRNumber ai) (cx_runID cx)
                                                       (LockTTL (in_Shared ai)) True (ax_lock x))\<rparr>)
                else x)
      in act ActMarker
           (x1\<lparr>ax_lock := (ax_lock x1)\<lparr>w_store :=
              fst (writeAppliedState (in_Blob ai) (wd_of_marker W)
                     \<lparr>ad_CommitSHA = cx_sha cx, ad_RunID = cx_runID cx, ad_RunNumber = in_RunNumber ai,
                      ad_AppliedAt = fmt_rfc3339 (wd_clock W AtMarker), ad_PR = in_PRNumber ai\<rparr> (w_store (ax_lock x1)))\<rparr>\<rparr>))"

definition report_outcome ::
  "'b ApplyWorld \<Rightarrow> ('s, 'b) ApplyInput \<Rightarrow> ApplyCtx \<Rightarrow> ('s, 'b) LoopState \<Rightarrow> ('s, 'b) LoopState" where
  "report_outcome W ai cx x =
     (let ss = al_summaries x; outcome = aggregateOutcome ss (al_anyBlocked x) in
      if outcome = ''failed'' then event W ai [240, 159, 148, 180] ''failed'' (failedStacksDetail ss) x
      else if outcome = ''blocked'' then event W ai [240, 159, 148, 146] ''blocked'' (blockedStacksDetail W ss) x
      else mark_applied W ai cx (event W ai [226, 156, 133] ''applied'' (changedStacksDetail ss) x))"

definition final_entry ::
  "'b ApplyWorld \<Rightarrow> ('s, 'b) ApplyInput \<Rightarrow> ApplyCtx \<Rightarrow> ('s, 'b) LoopState \<Rightarrow> AuditEntry" where
  "final_entry W ai cx x =
     (audit_entry W ai (cx_sha cx) (cx_runID cx) AtAudit (aggregateOutcome (al_summaries x) (al_anyBlocked x)))
       \<lparr>ae_Stacks := toAuditStacks (al_summaries x),
        ae_DurationMS := (wd_clock W AtAudit - wd_clock W AtStart) div 1000000,
        ae_BreakGlass := (case (cx_bg cx, in_BreakGlass ai) of
                            (Some dec, Some just) \<Rightarrow> Some (break_glass_record just dec (al_overridden x) (cx_touched cx))
                          | _ \<Rightarrow> None)\<rparr>"

definition apply_event :: "StackSummary list \<Rightarrow> bool \<Rightarrow> string" where
  "apply_event ss blocked =
     (if \<exists>s \<in> set ss. ss_Status s = StatusError then ''failed'' else if blocked then ''blocked'' else ''applied'')"

definition finish_run ::
  "'b ApplyWorld \<Rightarrow> ('s, 'b) ApplyInput \<Rightarrow> ApplyCtx \<Rightarrow> ('s, 'b) LoopState
     \<Rightarrow> ('s, 'b) LoopState \<times> ApplyErr option \<times> ApplyOutput option" where
  "finish_run W ai cx x =
     (let ss = al_summaries x;
          (x1, merr) = writeApplyManifest W ai cx ss x;
          x2 = (case merr of
                  None \<Rightarrow> x1
                | Some e \<Rightarrow> event W ai [226, 154, 160, 239, 184, 143] ''manifest persistence failed'' (wd_text W (MsgManifest e)) x1);
          x3 = report_outcome W ai cx x2;
          (x4, cerr) = (if 0 < in_PRNumber ai then (act ActComment x3, wd_comment W ss) else (x3, None));
          x5 = (if 0 < in_PRNumber ai \<and> in_Notifications ai then act (ActNotify (apply_event ss (al_anyBlocked x4))) x4 else x4);
          x6 = (case in_AuditWriter ai of
                  None \<Rightarrow> x5
                | Some B \<Rightarrow> fst (write_audit W B (final_entry W ai cx x5) (act (ActAudit (cx_runID cx)) x5)));
          refs = failedStackRefs ss
      in (x6, if merr = None \<and> cerr = None then None else Some (PersistFailed merr cerr),
          Some \<lparr>ou_Stacks = ss, ou_RunID = cx_runID cx, ou_Blocked = al_anyBlocked x6, ou_Failed = (refs \<noteq> []),
                ou_FailedStacks = refs\<rparr>))"

definition loop_start :: "ApplyCtx \<Rightarrow> ('s, 'b) ApplyState \<Rightarrow> ('s, 'b) LoopState" where
  "loop_start cx x =
     \<lparr>ax_lock = ax_lock x, ax_probe = ax_probe x, ax_tl = ax_tl x, ax_log = ax_log x, al_summaries = [],
      al_anyBlocked = False, al_overridden = [], al_stateEnv = cx_execEnv cx, al_stateAuth = False, al_login = False\<rparr>"

definition Apply ::
  "'b ApplyWorld \<Rightarrow> ('s, 'b) ApplyInput \<Rightarrow> ('s, 'b) ApplyState \<Rightarrow> ('s, 'b) ApplyState \<times> ApplyErr option \<times> ApplyOutput option" where
  "Apply W ai x =
     (case prepare W ai x of
        (x1, Inl r) \<Rightarrow> (x1, r)
      | (x1, Inr (cx, target)) \<Rightarrow>
          (case finish_run W ai cx (apply_loop W ai cx target (loop_start cx x1)) of
             (x2, r) \<Rightarrow> (ApplyState.truncate x2, r)))"

subsection \<open>The log around the loop\<close>

lemma ev_simps [simp]:
  "ax_log (fst (write_audit W B e x)) = ax_log x" "ax_log (notify_start ai bg z) =
     (if 0 < in_PRNumber ai \<and> in_Notifications ai
      then ax_log z @ [ActNotify (if bg \<noteq> None then ''break_glass'' else ''approved''), ActNotify ''applying''] else ax_log z)"
  by (simp_all add: write_audit_def notify_start_def split: prod.split)

lemma announce_log [simp]: "ax_log (announce_override W ai just dec touched hist x) = ax_log x"
  by (simp add: announce_override_def Let_def split: option.split)

lemma summaries_audit [simp]:
  "al_summaries (fst (write_audit W B e y)) = al_summaries y" "al_anyBlocked (fst (write_audit W B e y)) = al_anyBlocked y"
  by (simp_all add: write_audit_def split: prod.split)

text \<open>The actions before the loop: an intent entry of a break-glass run, then notifications.\<close>

definition preamble :: "'b Act list \<Rightarrow> bool" where
  "preamble as \<longleftrightarrow> (\<forall>a \<in> set as. (\<exists>r. a = ActIntent r) \<or> (\<exists>e. a = ActNotify e))"

lemma lock_run_append: "lock_run (as @ bs) h = Option.bind (lock_run as h) (lock_run bs)"
  by (induction as arbitrary: h) (auto split: bind_split)

lemma preamble_run: "preamble as \<Longrightarrow> lock_run as None = Some None"
  by (induction as) (auto simp: preamble_def)

lemma preamble_engine: "preamble as \<Longrightarrow> engine_runs as = {}"
  by (induction as) (auto simp: preamble_def)

lemma log_of_event: "event W ai ic lb dt x = x1 \<Longrightarrow> ax_log x1 = ax_log x"
  by auto

lemma scope_log: "ax_log (fst (resolve_scope W ai sha snap hist x)) = ax_log x"
  by (simp add: resolve_scope_def scope_event_def Let_def split: sum.split option.split prod.split)

lemma applied_log: "ax_log (fst (already_applied W ai sha x)) = ax_log x"
  by (simp add: already_applied_def split: prod.split)

lemma snapshot_log: "ax_log (fst (load_snapshot W ai sha x)) = ax_log x"
  by (simp add: load_snapshot_def split: prod.split)

lemma intent_log:
  "ax_log (fst (write_intent W ai sha just dec touched x)) \<in>
     {ax_log x, ax_log x @ [ActIntent (run_id ai sha @ ''-intent'')]}"
proof (cases "in_AuditWriter ai")
  case (Some B)
  let ?x = "act (ActIntent (run_id ai sha @ ''-intent'')) x"
  obtain y e where "write_audit W B (intent_entry W ai sha just dec touched) ?x = (y, e)" by fastforce
  with Some ev_simps(1) [of W B "intent_entry W ai sha just dec touched" ?x] show ?thesis
    by (auto simp: write_intent_def split: option.split)
qed (simp add: write_intent_def)

lemma break_glass_log:
  "ax_log (fst (break_glass_step W ai sha gi teams changed hist x)) \<in>
     {ax_log x, ax_log x @ [ActIntent (run_id ai sha @ ''-intent'')]}"
proof -
  have "ax_log (fst (write_intent W ai sha just dec touched z)) \<in> {ax_log x, ax_log x @ [ActIntent (run_id ai sha @ ''-intent'')]}"
    if "ax_log z = ax_log x" for just dec touched z
    using intent_log [of W ai sha just dec touched z] that by simp
  then show ?thesis by (simp add: break_glass_step_def Let_def split: option.split sum.split)
qed

definition recorded :: "AuditErr option \<Rightarrow> bool" where
  "recorded err \<longleftrightarrow> (case err of None \<Rightarrow> True | Some e \<Rightarrow> precondition_failed e)"

lemma intent_Inr:
  assumes "write_intent W ai sha just dec touched x = (x1, Inr q)"
  obtains B err where "q = (Some dec, touched)" "in_AuditWriter ai = Some B"
    "write_audit W B (intent_entry W ai sha just dec touched) (act (ActIntent (run_id ai sha @ ''-intent'')) x) = (x1, err)"
    "recorded err"
proof (cases "in_AuditWriter ai")
  case (Some B)
  obtain y err where
    w: "write_audit W B (intent_entry W ai sha just dec touched) (act (ActIntent (run_id ai sha @ ''-intent'')) x) = (y, err)"
    by fastforce
  then have "q = (Some dec, touched) \<and> y = x1 \<and> recorded err"
    using assms Some by (auto simp: write_intent_def fails_def recorded_def split: option.splits if_splits)
  with that Some w show ?thesis by blast
qed (use assms in \<open>simp add: write_intent_def fails_def\<close>)

lemma break_glass_Inr:
  assumes "break_glass_step W ai sha gi teams changed hist x = (x1, Inr (bg, touched))" and "in_BreakGlass ai = Some just"
  obtains dec B z err where
    "Authorize (toBreakGlassConfig (in_Shared ai)) (bg_inputs ai gi teams changed) = Inr dec" "de_Authorized dec"
    "bg = Some dec" "touched = AuthorizingPathsTouched changed" "in_AuditWriter ai = Some B" "ax_log z = ax_log x"
    "write_audit W B (intent_entry W ai sha just dec touched) (act (ActIntent (run_id ai sha @ ''-intent'')) z) = (x1, err)"
    "recorded err" "ax_log x1 = ax_log x @ [ActIntent (run_id ai sha @ ''-intent'')]"
proof -
  obtain dec where a: "Authorize (toBreakGlassConfig (in_Shared ai)) (bg_inputs ai gi teams changed) = Inr dec" "de_Authorized dec"
    using assms by (auto simp: break_glass_step_def Let_def fails_def split: sum.splits if_splits)
  let ?z = "announce_override W ai just dec (AuthorizingPathsTouched changed) hist x"
  have "write_intent W ai sha just dec (AuthorizingPathsTouched changed) ?z = (x1, Inr (bg, touched))"
    using assms a by (simp add: break_glass_step_def Let_def)
  then obtain B err where
    "(bg, touched) = (Some dec, AuthorizingPathsTouched changed)" "in_AuditWriter ai = Some B"
    "write_audit W B (intent_entry W ai sha just dec (AuthorizingPathsTouched changed))
       (act (ActIntent (run_id ai sha @ ''-intent'')) ?z) = (x1, err)" "recorded err"
    by (rule intent_Inr)
  moreover from this(3) have "ax_log x1 = ax_log x @ [ActIntent (run_id ai sha @ ''-intent'')]"
    by (metis (no_types) announce_log ev_simps(1) fst_conv log_simps(1))
  ultimately show ?thesis using that [of dec B ?z err] a by simp
qed

text \<open>What a run that reaches the loop has established.\<close>

lemma authorize_Inr:
  assumes "authorize_run W ai pr sha snap hist target changed x = (x2, Inr (cx, target'))"
  obtains gi teams x1 bg touched where
    "read_gates W ai pr sha target changed = Inr (gi, teams)"
    "break_glass_step W ai sha gi teams changed hist x = (x1, Inr (bg, touched))"
    "target' = target" "cx_pr cx = pr" "cx_sha cx = sha" "cx_runID cx = run_id ai sha" "cx_snapshot cx = snap"
    "cx_history cx = hist" "cx_gi cx = gi" "cx_teams cx = teams" "cx_bg cx = bg" "cx_touched cx = touched"
    "ax_log x2 = ax_log (notify_start ai bg x1)"
  using assms
  by (auto simp: authorize_run_def enter_loop_def Let_def fails_def split: sum.splits prod.splits if_splits)

lemma authorize_log:
  "\<exists>as. ax_log (fst (authorize_run W ai pr sha snap hist target changed x)) = ax_log x @ as \<and> preamble as
     \<and> (in_BreakGlass ai = None \<longrightarrow> (\<forall>r. ActIntent r \<notin> set as))
     \<and> (in_BreakGlass ai \<noteq> None \<longrightarrow> as = [] \<or> hd as = ActIntent (run_id ai sha @ ''-intent''))"
proof (cases "read_gates W ai pr sha target changed")
  case (Inr p)
  then obtain gi teams where g: "read_gates W ai pr sha target changed = Inr (gi, teams)" by (cases p) simp
  obtain x1 r where b: "break_glass_step W ai sha gi teams changed hist x = (x1, r)" by fastforce
  let ?i = "ActIntent (run_id ai sha @ ''-intent'')"
  have l: "ax_log x1 \<in> {ax_log x, ax_log x @ [?i]}"
    using break_glass_log [of W ai sha gi teams changed hist x] b by simp
  have n: "in_BreakGlass ai = None \<Longrightarrow> ax_log x1 = ax_log x"
    using b by (simp add: break_glass_step_def)
  have i: "in_BreakGlass ai \<noteq> None \<Longrightarrow> r = Inr q \<Longrightarrow> ax_log x1 = ax_log x @ [?i]" for q
    using b break_glass_Inr [of W ai sha gi teams changed hist x x1 "fst q" "snd q"] by (metis option.exhaust prod.collapse)
  show ?thesis
    using g b l n i
    by (auto simp: authorize_run_def enter_loop_def Let_def preamble_def split: sum.split prod.split if_splits)
qed (simp add: authorize_run_def preamble_def)

lemma scope_Inr:
  assumes "resolve_scope W ai sha snap hist x = (x1, Inr (target, changed))"
  obtains enum files where "wd_stacks W = Inr enum" "ValidateUniqueRefs (declared_stacks W ai enum) = None"
    "wd_changed W = Inr files" "changed = fst (run_scopeChangedFiles files (in_RepoPath ai))"
    "target = bind_scope (declared_stacks W ai enum)
       (AffectedDetailed (wd_pglob W) (declared_stacks W ai enum) changed (changeMappingFromConfig (in_Config ai))) snap" "target \<noteq> []"
  using assms by (auto simp: resolve_scope_def Let_def fails_def skips_def split: sum.splits option.splits prod.splits if_splits)

lemma snapshot_Inr:
  assumes "load_snapshot W ai sha x = (x1, Inr (snap, hist))"
  shows "hist \<noteq> None \<Longrightarrow> in_BreakGlass ai \<noteq> None \<and> snap = no_snapshot"
    and "hist = None \<Longrightarrow> \<exists>s. snd (LoadPreviewSnapshot (in_Blob ai) (wd_manifest_of W) (in_PRNumber ai) sha (wd_clock W AtSnapshot) s) = Inr snap"
  using assms by (auto simp: load_snapshot_def fails_def split: prod.splits sum.splits if_splits) (metis snd_conv)

lemma prepare_Inr:
  assumes "prepare W ai x = (x4, Inr (cx, target))"
  obtains x1 x2 x3 changed where "trigger_matches ai" "resolve_head W ai = Inr (cx_pr cx, cx_sha cx)"
    "\<forall>just. in_BreakGlass ai = Some just \<longrightarrow> TrimSpace just \<noteq> ''''"
    "load_snapshot W ai (cx_sha cx) x1 = (x2, Inr (cx_snapshot cx, cx_history cx))"
    "already_applied W ai (cx_sha cx) x2 = (x3, None)"
    "\<exists>z. resolve_scope W ai (cx_sha cx) (cx_snapshot cx) (cx_history cx) x3 = (z, Inr (target, changed))
       \<and> authorize_run W ai (cx_pr cx) (cx_sha cx) (cx_snapshot cx) (cx_history cx) target changed z = (x4, Inr (cx, target))"
proof -
  let ?just = "case in_BreakGlass ai of None \<Rightarrow> False | Some just \<Rightarrow> TrimSpace just = ''''"
  obtain pr sha where h: "\<not> ?just" "trigger_matches ai" "resolve_head W ai = Inr (pr, sha)"
    using assms by (auto simp: prepare_def fails_def skips_def split: sum.splits if_splits)
  define x1 where "x1 = event W ai [240, 159, 154, 128] ''apply starting'' ''''
    (x\<lparr>ax_tl := newApplyTimeline (in_PRNumber ai) sha\<rparr>)"
  obtain x2 snap hist where s: "load_snapshot W ai sha x1 = (x2, Inr (snap, hist))"
    "select_stacks W ai pr sha snap hist x2 = (x4, Inr (cx, target))"
    using assms h by (auto simp: prepare_def Let_def x1_def [symmetric] split: prod.splits sum.splits)
  obtain x3 z changed target' where a: "already_applied W ai sha x2 = (x3, None)"
    "resolve_scope W ai sha snap hist x3 = (z, Inr (target', changed))"
    "authorize_run W ai pr sha snap hist target' changed z = (x4, Inr (cx, target))"
    using s(2) by (auto simp: select_stacks_def skips_def split: prod.splits option.splits sum.splits)
  have "target' = target" "cx_pr cx = pr" "cx_sha cx = sha" "cx_snapshot cx = snap" "cx_history cx = hist"
    using a(3) by (auto elim: authorize_Inr)
  with that [of x1 x2 x3 changed] h s a show ?thesis by (auto split: option.splits)
qed

lemma prepare_log:
  "\<exists>as. ax_log (fst (prepare W ai x)) = ax_log x @ as \<and> preamble as
     \<and> (in_BreakGlass ai = None \<longrightarrow> (\<forall>r. ActIntent r \<notin> set as))
     \<and> (in_BreakGlass ai \<noteq> None \<longrightarrow>
          as = [] \<or> (\<exists>pr sha. resolve_head W ai = Inr (pr, sha) \<and> hd as = ActIntent (run_id ai sha @ ''-intent'')))"
    (is "?P (prepare W ai x)")
proof (cases "(case in_BreakGlass ai of None \<Rightarrow> False | Some just \<Rightarrow> TrimSpace just = '''') \<or> \<not> trigger_matches ai
    \<or> (\<exists>e. resolve_head W ai = Inl e)")
  case True
  then show ?thesis by (auto simp: prepare_def preamble_def)
next
  case False
  then obtain pr sha where h: "resolve_head W ai = Inr (pr, sha)" by (metis sum.exhaust surj_pair)
  define x1 where "x1 = event W ai [240, 159, 154, 128] ''apply starting'' ''''
    (x\<lparr>ax_tl := newApplyTimeline (in_PRNumber ai) sha\<rparr>)"
  obtain x2 r where s: "load_snapshot W ai sha x1 = (x2, r)" by fastforce
  have 2: "ax_log x2 = ax_log x" using snapshot_log [of W ai sha x1] s by (simp add: x1_def)
  have nil: "?P (y, q)" if "ax_log y = ax_log x" for y and q :: "(ApplyErr option \<times> ApplyOutput option) + ApplyCtx \<times> Stack list"
    using that by (simp add: preamble_def)
  have sel: "?P (select_stacks W ai pr sha snap hist x2)" for snap hist
  proof -
    obtain x3 prior where a: "already_applied W ai sha x2 = (x3, prior)" by fastforce
    obtain z q where c: "resolve_scope W ai sha snap hist x3 = (z, q)" by fastforce
    have "ax_log x3 = ax_log x" "ax_log z = ax_log x"
      using applied_log [of W ai sha x2] scope_log [of W ai sha snap hist x3] a c 2 by simp_all
    then show ?thesis
      using a c nil authorize_log [of W ai pr sha snap hist _ _ z] h
      by (cases prior; cases q) (fastforce simp: select_stacks_def)+
  qed
  show ?thesis
    using False h s sel nil 2
    by (cases r) (auto simp: prepare_def Let_def x1_def [symmetric])
qed

definition closing :: "'b Act list \<Rightarrow> bool" where
  "closing as \<longleftrightarrow> (\<forall>a \<in> set as. a \<in> {ActManifest, ActSweep, ActMarker, ActComment} \<or> (\<exists>e. a = ActNotify e) \<or> (\<exists>r. a = ActAudit r))"

lemma closing_run: "closing as \<Longrightarrow> lock_run as None = Some None"
  by (induction as) (auto simp: closing_def)

lemma closing_engine: "closing as \<Longrightarrow> engine_runs as = {}"
  by (induction as) (auto simp: closing_def)

lemma manifest_log:
  fixes x :: "('s, 'b) LoopState"
  shows "ax_log (fst (writeApplyManifest W ai cx ss x)) \<in> {ax_log x, ax_log x @ [ActManifest]}"
    and "al_summaries (fst (writeApplyManifest W ai cx ss x)) = al_summaries x"
    and "al_anyBlocked (fst (writeApplyManifest W ai cx ss x)) = al_anyBlocked x"
  by (simp_all add: writeApplyManifest_def Let_def split: option.split prod.split)

lemma report_log:
  "\<exists>as. ax_log (report_outcome W ai cx x) = ax_log x @ as \<and> closing as
     \<and> (ActMarker \<in> set as \<longrightarrow> \<not> al_anyBlocked x \<and> (\<forall>m \<in> set (al_summaries x). ss_Status m \<noteq> StatusError))"
  by (auto simp: report_outcome_def mark_applied_def aggregateOutcome_def closing_def Let_def)

lemma finish_report:
  "\<exists>x2 as bs. ax_log (fst (finish_run W ai cx x)) = ax_log (report_outcome W ai cx x2) @ bs \<and> closing bs \<and> ActMarker \<notin> set bs
     \<and> ax_log x2 = ax_log x @ as \<and> closing as \<and> ActMarker \<notin> set as \<and> al_summaries x2 = al_summaries x
     \<and> al_anyBlocked x2 = al_anyBlocked x"
proof -
  obtain x1 merr where m: "writeApplyManifest W ai cx (al_summaries x) x = (x1, merr)" by fastforce
  define x2 where "x2 = (case merr of None \<Rightarrow> x1
    | Some e \<Rightarrow> event W ai [226, 154, 160, 239, 184, 143] ''manifest persistence failed'' (wd_text W (MsgManifest e)) x1)"
  have "\<exists>as. ax_log x2 = ax_log x @ as \<and> closing as \<and> ActMarker \<notin> set as"
    "al_summaries x2 = al_summaries x" "al_anyBlocked x2 = al_anyBlocked x"
    using manifest_log [of W ai cx "al_summaries x" x] m by (auto simp: x2_def closing_def split: option.split)
  moreover have "\<exists>bs. ax_log (fst (finish_run W ai cx x)) = ax_log (report_outcome W ai cx x2) @ bs \<and> closing bs \<and> ActMarker \<notin> set bs"
    by (simp add: finish_run_def m x2_def [symmetric] Let_def closing_def split: option.split prod.split)
  ultimately show ?thesis by blast
qed

lemma finish_log:
  "\<exists>as. ax_log (fst (finish_run W ai cx x)) = ax_log x @ as \<and> closing as
     \<and> (ActMarker \<in> set as \<longrightarrow> \<not> al_anyBlocked x \<and> (\<forall>m \<in> set (al_summaries x). ss_Status m \<noteq> StatusError))"
proof -
  obtain x2 as bs where f: "ax_log (fst (finish_run W ai cx x)) = ax_log (report_outcome W ai cx x2) @ bs" "closing bs"
    "ActMarker \<notin> set bs" "ax_log x2 = ax_log x @ as" "closing as" "ActMarker \<notin> set as" "al_summaries x2 = al_summaries x"
    "al_anyBlocked x2 = al_anyBlocked x"
    using finish_report by blast
  then show ?thesis using report_log [of W ai cx x2] by (fastforce simp: closing_def)
qed

text \<open>The log of a whole run: what precedes the loop, the loop, the terminal reporting.\<close>

lemma truncate_log [simp]: "ax_log (ApplyState.truncate x) = ax_log x"
  by (simp add: ApplyState.truncate_def)

lemma Apply_stopped: "prepare W ai x = (x1, Inl r) \<Longrightarrow> Apply W ai x = (x1, r)"
  by (simp add: Apply_def)

lemma Apply_log:
  assumes "prepare W ai x = (x1, Inr (cx, target))"
  obtains as where "ax_log (fst (Apply W ai x)) = ax_log (apply_loop W ai cx target (loop_start cx x1)) @ as" "closing as"
    "ActMarker \<in> set as \<longrightarrow> \<not> al_anyBlocked (apply_loop W ai cx target (loop_start cx x1))
       \<and> (\<forall>m \<in> set (al_summaries (apply_loop W ai cx target (loop_start cx x1))). ss_Status m \<noteq> StatusError)"
proof -
  let ?y = "apply_loop W ai cx target (loop_start cx x1)"
  have "ax_log (fst (Apply W ai x)) = ax_log (fst (finish_run W ai cx ?y))"
    using assms by (simp add: Apply_def split: prod.split)
  with finish_log [of W ai cx ?y] that show ?thesis by metis
qed

subsection \<open>Properties\<close>

text \<open>
  C2. The lock discipline of an apply. In the sequence of actions of a run, whatever the stores, the code host, the engine
  and the credential providers answer, a lock is acquired only while no other is held, every lock that was acquired is
  released before the next stack is looked at and before the run reports, nothing else is ever released, and policy hooks,
  credentials and the engine are used for a stack only while the run holds the lock of that stack.
\<close>

theorem apply_lock_discipline:
  "lock_run (ax_log (fst (Apply W ai (x\<lparr>ax_log := []\<rparr>)))) None = Some None"
proof -
  let ?x = "x\<lparr>ax_log := []\<rparr>"
  obtain x1 r where p: "prepare W ai ?x = (x1, r)" by fastforce
  have pre: "lock_run (ax_log x1) None = Some None"
    using prepare_log [of W ai ?x] p by (auto simp: preamble_run)
  show ?thesis
  proof (cases r)
    case (Inl q)
    with p pre show ?thesis by (simp add: Apply_stopped)
  next
    case (Inr q)
    then obtain cx target where p': "prepare W ai ?x = (x1, Inr (cx, target))" using p by (cases q) simp
    from p' obtain as where "ax_log (fst (Apply W ai ?x)) = ax_log (apply_loop W ai cx target (loop_start cx x1)) @ as"
      "closing as" by (rule Apply_log)
    then show ?thesis
      using held_apply_loop [of "loop_start cx x1" W ai cx target] pre
      by (simp add: held_def loop_start_def lock_run_append closing_run)
  qed
qed

lemma affected_subset:
  "set (af_Stacks (AffectedDetailed pglob ss files cm)) \<subseteq> set ss" "set (af_Matched (AffectedDetailed pglob ss files cm)) \<subseteq> set ss"
  by (auto simp: AffectedDetailed_def Let_def)

lemma bind_scope_subset: "set (bind_scope ss (AffectedDetailed pglob ss files cm) snap) \<subseteq> set ss"
  using affected_subset by (auto simp: bind_scope_def split: option.splits if_splits)

lemma engine_prepared:
  assumes "ax_log x = []" and "ActEngine s opts \<in> set (ax_log (fst (Apply W ai x)))"
  obtains x1 cx target where "prepare W ai x = (x1, Inr (cx, target))" "s \<in> set target" "cleared W ai cx s"
proof -
  obtain x1 r where p: "prepare W ai x = (x1, r)" by fastforce
  have none: "engine_runs (ax_log x1) = {}"
    using prepare_log [of W ai x] p assms(1) by (auto simp: preamble_engine)
  show ?thesis
  proof (cases r)
    case (Inl q)
    with p none assms(2) show ?thesis by (auto simp: Apply_stopped engine_runs_def)
  next
    case (Inr q)
    then obtain cx target where p': "prepare W ai x = (x1, Inr (cx, target))" using p by (cases q) simp
    from p' obtain as where "ax_log (fst (Apply W ai x)) = ax_log (apply_loop W ai cx target (loop_start cx x1)) @ as"
      "closing as" by (rule Apply_log)
    then have "(s, opts) \<in> engine_runs (ax_log (apply_loop W ai cx target (loop_start cx x1)))"
      using assms(2) by (auto simp: engine_runs_def closing_def)
    then have "s \<in> set target" "cleared W ai cx s"
      using loop_runs [of W ai cx target "loop_start cx x1"] none by (auto simp: loop_start_def)
    with p' that show ?thesis by blast
  qed
qed

text \<open>
  C1. What the engine may touch. When the engine is run on a stack, the trigger of the run matches the configured mode or it
  is a break-glass run, the commit is the head of the pull request, the stack is declared, its gates are clear (no draft, no
  forbidden fork, up to date, checks green, approved, not frozen, policy passed, each unless configured off or overridden by
  break-glass), and either the newest preview stored for exactly this commit covers the stack and succeeded, or the preview
  history could not be read and the run is a break-glass run restricted to stacks the changed files map to.
\<close>

theorem engine_only_on_cleared_stacks:
  assumes "ax_log x = []" and "ActEngine s opts \<in> set (ax_log (fst (Apply W ai x)))"
  shows "\<exists>x1 cx target enum. prepare W ai x = (x1, Inr (cx, target)) \<and> s \<in> set target \<and> cleared W ai cx s
      \<and> trigger_matches ai \<and> resolve_head W ai = Inr (cx_pr cx, cx_sha cx)
      \<and> wd_stacks W = Inr enum \<and> s \<in> set (declared_stacks W ai enum)
      \<and> (pv_Succeeded (StackStatus (cx_snapshot cx) (stack_Ref s))
           \<and> (\<exists>b. snd (LoadPreviewSnapshot (in_Blob ai) (wd_manifest_of W) (in_PRNumber ai) (cx_sha cx) (wd_clock W AtSnapshot) b)
                  = Inr (cx_snapshot cx))
         \<or> in_BreakGlass ai \<noteq> None \<and> cx_history cx \<noteq> None
           \<and> (\<exists>files. wd_changed W = Inr files
                \<and> (let mapped = AffectedDetailed (wd_pglob W) (declared_stacks W ai enum)
                                  (fst (run_scopeChangedFiles files (in_RepoPath ai))) (changeMappingFromConfig (in_Config ai))
                   in s \<in> set (if af_Reason mapped = ReasonBroadened then af_Matched mapped else af_Stacks mapped))))"
proof -
  from assms obtain x1 cx target where p: "prepare W ai x = (x1, Inr (cx, target))" "s \<in> set target" "cleared W ai cx s"
    by (rule engine_prepared)
  from p(1) obtain y1 y2 y3 changed z where h: "trigger_matches ai" "resolve_head W ai = Inr (cx_pr cx, cx_sha cx)"
    "load_snapshot W ai (cx_sha cx) y1 = (y2, Inr (cx_snapshot cx, cx_history cx))"
    and c: "resolve_scope W ai (cx_sha cx) (cx_snapshot cx) (cx_history cx) y3 = (z, Inr (target, changed))"
    by (rule prepare_Inr) blast
  from c obtain enum files where e: "wd_stacks W = Inr enum" "wd_changed W = Inr files"
    "changed = fst (run_scopeChangedFiles files (in_RepoPath ai))" "target = bind_scope (declared_stacks W ai enum)
       (AffectedDetailed (wd_pglob W) (declared_stacks W ai enum) changed (changeMappingFromConfig (in_Config ai))) (cx_snapshot cx)"
    by (rule scope_Inr)
  have d: "s \<in> set (declared_stacks W ai enum)" using e p(2) bind_scope_subset by blast
  show ?thesis
  proof (cases "pv_Succeeded (StackStatus (cx_snapshot cx) (stack_Ref s))")
    case True
    then have "cx_snapshot cx \<noteq> no_snapshot"
      by (auto simp: StackStatus_def no_snapshot_def no_preview_def map_get_def)
    then have "cx_history cx = None" using snapshot_Inr(1) [OF h(3)] by blast
    with True p h(1,2) e d snapshot_Inr(2) [OF h(3)] show ?thesis by blast
  next
    case False
    then have l: "cx_history cx \<noteq> None" using p(3) by (auto simp: cleared_def Let_def)
    then have "in_BreakGlass ai \<noteq> None" "StackRefs (cx_snapshot cx) = None"
      using snapshot_Inr(1) [OF h(3)] by (simp_all add: StackRefs_def no_snapshot_def)
    with p h(1,2) e d l show ?thesis by (auto simp: bind_scope_def Let_def)
  qed
qed

text \<open>
  C4. The applied marker, which makes later runs of the commit skip it, is written only by a run that applied everything: the
  run had at least one target, and on every target, all its gates clear, the engine was run and reported no error.
\<close>

theorem applied_marker_only_when_clean:
  assumes "ax_log x = []" and "ActMarker \<in> set (ax_log (fst (Apply W ai x)))"
  shows "\<exists>x1 cx target. prepare W ai x = (x1, Inr (cx, target)) \<and> target \<noteq> []
      \<and> (\<forall>s \<in> set target. cleared W ai cx s
           \<and> (\<exists>opts res. ActEngine s opts \<in> set (ax_log (fst (Apply W ai x))) \<and> wd_engine W s opts = Inr res \<and> re_Error res = ''''))"
proof -
  obtain x1 r where p: "prepare W ai x = (x1, r)" by fastforce
  have pre: "ActMarker \<notin> set (ax_log x1)" "engine_runs (ax_log x1) = {}"
    using prepare_log [of W ai x] p assms(1) by (auto simp: preamble_def preamble_engine)
  then obtain cx target where p': "prepare W ai x = (x1, Inr (cx, target))"
    using p assms(2) by (cases r) (auto simp: Apply_stopped)
  define y where "y = apply_loop W ai cx target (loop_start cx x1)"
  from p' obtain as where as: "ax_log (fst (Apply W ai x)) = ax_log y @ as"
    "ActMarker \<in> set as \<longrightarrow> \<not> al_anyBlocked y \<and> (\<forall>m \<in> set (al_summaries y). ss_Status m \<noteq> StatusError)"
    unfolding y_def by (rule Apply_log)
  have m: "\<not> al_anyBlocked y" "\<forall>m \<in> set (al_summaries y). ss_Status m \<noteq> StatusError"
    using as assms(2) ext_loop [of "loop_start cx x1" W ai cx target] pre
    by (auto simp: y_def loop_start_def extends_log_def)
  have "\<exists>opts res. (s, opts) \<in> engine_runs (ax_log y) \<and> wd_engine W s opts = Inr res \<and> re_Error res = ''''"
    and "cleared W ai cx s" if "s \<in> set target" for s
  proof -
    show e: "\<exists>opts res. (s, opts) \<in> engine_runs (ax_log y) \<and> wd_engine W s opts = Inr res \<and> re_Error res = ''''"
      using loop_clean [OF m(1) [unfolded y_def] m(2) [unfolded y_def] that] by (simp add: y_def)
    then show "cleared W ai cx s"
      using loop_runs [of W ai cx target "loop_start cx x1"] pre(2) by (auto simp: y_def loop_start_def)
  qed
  moreover have "target \<noteq> []" using p' by (rule prepare_Inr) (auto elim: scope_Inr)
  ultimately show ?thesis using p' as(1) by (fastforce simp: engine_runs_def)
qed

text \<open>
  C5. An emergency leaves its trace first. The first action of a break-glass run, before any lock, credential, policy or engine
  call, is the audit entry of its intent: the justification is not blank, the actor was authorised by the configured sources,
  and the run goes on only if the audit store accepted the entry or answered with a failed precondition. A run without an audit
  writer or authorisation does nothing at all.
\<close>

theorem break_glass_recorded_first:
  fixes x :: "('s, 'b) ApplyState"
  assumes "ax_log x = []" and "in_BreakGlass ai = Some just" and "ActAcquire s got \<in> set (ax_log (fst (Apply W ai x)))"
  shows "TrimSpace just \<noteq> ''''
    \<and> (\<exists>pr sha gi teams changed dec B z. resolve_head W ai = Inr (pr, sha)
         \<and> hd (ax_log (fst (Apply W ai x))) = ActIntent (run_id ai sha @ ''-intent'')
         \<and> Authorize (toBreakGlassConfig (in_Shared ai)) (bg_inputs ai gi teams changed) = Inr dec \<and> de_Authorized dec
         \<and> in_AuditWriter ai = Some B
         \<and> recorded (snd (write_audit W B (intent_entry W ai sha just dec (AuthorizingPathsTouched changed)) (z :: ('s, 'b) ApplyState))))"
proof -
  obtain x1 r where p: "prepare W ai x = (x1, r)" by fastforce
  have pre: "preamble (ax_log x1)" using prepare_log [of W ai x] p assms(1) by auto
  then obtain cx target where p': "prepare W ai x = (x1, Inr (cx, target))"
    using p assms(3) by (cases r) (auto simp: Apply_stopped preamble_def)
  from p' obtain changed y where h: "resolve_head W ai = Inr (cx_pr cx, cx_sha cx)"
    "\<forall>just. in_BreakGlass ai = Some just \<longrightarrow> TrimSpace just \<noteq> ''''"
    and a: "authorize_run W ai (cx_pr cx) (cx_sha cx) (cx_snapshot cx) (cx_history cx) target changed y = (x1, Inr (cx, target))"
    by (rule prepare_Inr) blast
  from a obtain gi teams y1 bg touched where
    b: "break_glass_step W ai (cx_sha cx) gi teams changed (cx_history cx) y = (y1, Inr (bg, touched))"
    and n: "ax_log x1 = ax_log (notify_start ai bg y1)"
    by (rule authorize_Inr)
  from b assms(2) obtain dec B z err where
    d: "Authorize (toBreakGlassConfig (in_Shared ai)) (bg_inputs ai gi teams changed) = Inr dec" "de_Authorized dec"
    "touched = AuthorizingPathsTouched changed" "in_AuditWriter ai = Some B"
    "write_audit W B (intent_entry W ai (cx_sha cx) just dec touched) (act (ActIntent (run_id ai (cx_sha cx) @ ''-intent'')) z) = (y1, err)"
    "recorded err" "ax_log y1 = ax_log y @ [ActIntent (run_id ai (cx_sha cx) @ ''-intent'')]"
    by (rule break_glass_Inr)
  have "ax_log x1 \<noteq> []" using n d(7) by (simp split: if_splits)
  then have hd1: "hd (ax_log x1) = ActIntent (run_id ai (cx_sha cx) @ ''-intent'')" "ax_log x1 \<noteq> []"
    using prepare_log [of W ai x] p' assms(1,2) h(1) by auto
  from p' obtain as where "ax_log (fst (Apply W ai x)) = ax_log (apply_loop W ai cx target (loop_start cx x1)) @ as"
    by (rule Apply_log)
  then have "hd (ax_log (fst (Apply W ai x))) = hd (ax_log x1)"
    using ext_loop [of "loop_start cx x1" W ai cx target] hd1(2) by (auto simp: extends_log_def loop_start_def)
  with h d hd1 assms(2) show ?thesis by (metis snd_conv)
qed

text \<open>
  The reading of a failed precondition as "already recorded" is wider than meant: a store on which the probe of
  conditional writes itself fails that way lets the run go on with nothing recorded.
\<close>

lemma intent_not_recorded:
  assumes "in_AuditWriter ai = Some B" and "\<not> cp_probed (ax_probe x)" and "wd_probe_rnd W = Some rnd"
    and "\<And>k c v b. s_PutIfMatch B k c v b = (b, Inl ErrPreconditionFailed)"
  shows "snd (write_intent W ai sha just dec touched x) = Inr (Some dec, touched)"
proof -
  obtain b' where "Ensure B (Some rnd) (wd_probe_bodies W) (ax_probe x) (w_store (ax_lock x))
      = (b', ax_probe x, Some (Wrapped ProbeCreate (Some ErrPreconditionFailed)))"
    using assms(2,4)
    by (cases "wd_probe_bodies W"; cases "s_Delete B (casProbePrefix @ rnd) (w_store (ax_lock x))")
      (simp add: Ensure_def probeConditionalWrites_def probe_steps_def)
  with assms(1,3) show ?thesis by (simp add: write_intent_def write_audit_def audit_Write_def act_def)
qed

text \<open>A pull request that already waits for a stack fails there instead of being reported as blocked.\<close>

lemma waiting_stack_fails:
  assumes "wd_cancelled W s = None"
    and "ls_TryAcquire (in_Locks ai) (st_Project s) (st_Name s) (holder_of ai cx) (LockTTL (in_Shared ai)) (ax_lock x)
         = (lk, l, False, Some (LSLock ErrAlreadyQueued))"
  shows "ss_Status (last (al_summaries (apply_stack W ai cx s x))) = StatusError"
  using assms by (simp add: apply_stack_def Let_def)

subsection \<open>A run\<close>

text \<open>
  A break-glass run against a store that accepts every write, remembers nothing and cannot be listed: the preview history
  is unavailable, the stack is the one the changed file maps to.
\<close>

definition some_meta :: Metadata where "some_meta = \<lparr>md_ETag = ''1'', md_LastModified = 0, md_Size = 1\<rparr>"

definition answer1 :: "'a \<Rightarrow> 'x \<Rightarrow> 'a" where "answer1 a x = a"
definition answer2 :: "'a \<Rightarrow> 'x \<Rightarrow> 'y \<Rightarrow> 'a" where "answer2 a x y = a"
definition answer3 :: "'a \<Rightarrow> 'x \<Rightarrow> 'y \<Rightarrow> 'z \<Rightarrow> 'a" where "answer3 a x y z = a"
definition answer4 :: "'a \<Rightarrow> 'w \<Rightarrow> 'x \<Rightarrow> 'y \<Rightarrow> 'z \<Rightarrow> 'a" where "answer4 a w x y z = a"
definition ticking :: "nat \<Rightarrow> go_time" where "ticking n = int n * second"

definition demo_store :: "(unit, char list) Store" where
  "demo_store =
     \<lparr>s_Get = answer2 ((), Inl ErrNotFound), s_Put = answer3 ((), Inr some_meta), s_PutIfMatch = answer4 ((), Inr some_meta),
      s_Delete = answer2 ((), None), s_List = answer2 ((), Inl (ErrIO ''list''))\<rparr>"

definition demo_stack :: Stack where
  "demo_stack = \<lparr>st_Project = ''api'', st_Path = ''api'', st_Name = ''prod'', st_Env = ''prod''\<rparr>"

definition demo_result :: ApplyResult where
  "demo_result = \<lparr>re_Counts = no_counts, re_Output = '''', re_Error = '''', re_DurationMS = 0\<rparr>"

definition demo_world :: "char ApplyWorld" where
  "demo_world =
     \<lparr>wd_pr = Inr \<lparr>vp_Number = 7, vp_HeadSHA = ''abc'', vp_BaseRef = ''main'', vp_Title = '''', vp_Author = ''alice'', vp_IsFork = False,
                   vp_IsDraft = False, vp_RepoPrivate = True\<rparr>,
      wd_pr_again = Inl '''', wd_stacks = Inr [demo_stack], wd_changed = Inr [''api/main.go''],
      wd_checks = answer3 (Inr (True, [])), wd_behind = answer2 (Inr 0), wd_reviews = answer1 (Inr []),
      wd_comments = answer2 (Inr []), wd_codeowners = Inr '''', wd_team = answer1 (Inl ''''), wd_exec_env = Inr [],
      wd_cancelled = answer1 None,
      wd_policy = answer1 \<lparr>ph_LookPath = answer1 False, ph_EnvErr = None, ph_exec = answer1 undefined, ph_planFile = answer1 (Inl '''')\<rparr>,
      wd_state_auth = answer1 (Inr []), wd_login = answer2 None, wd_auth = answer1 (Inr []), wd_plan_temp = answer1 None,
      wd_engine = answer2 (Inr demo_result), wd_beats = answer1 1, wd_comment = answer1 None,
      wd_clock = answer1 1714558200000000000, wd_text = answer1 '''', wd_glob = answer2 False, wd_pglob = answer2 False,
      wd_oglob = answer2 False, wd_rglob = answer2 False, wd_fglob = answer2 False, wd_cron = answer1 (Inl ''''),
      wd_compile = answer1 None, wd_manifest_of = answer1 None, wd_of_manifest = answer1 (Some ''m''), wd_marker_of = answer1 None,
      wd_of_marker = answer1 (Some ''m''), wd_timeline_of = answer1 None, wd_of_timeline = answer1 (Some ''t''),
      wd_of_audit = answer1 (Some ''a''), wd_probe_rnd = None, wd_probe_bodies = ([], [], [], [])\<rparr>"

definition demo_shared :: Shared where
  "demo_shared = sample_shared\<lparr>sh_FreezeWindows := [], sh_Apply := \<lparr>ap_Trigger = '''', ap_AllowForkPRs = False, ap_AutoReady = False\<rparr>,
     sh_BreakGlass := Some \<lparr>by_Authorized = \<lparr>bh_InternalList = [''carol''], bh_Codeowners = False, bh_Anyone = False,
        bh_VCSBypass = False, bh_Groups = []\<rparr>, by_OverrideFreeze = None, by_RejectSelfAuthorization = None\<rparr>\<rparr>"

definition demo_engine :: Engine where
  "demo_engine = sample_engine\<lparr>en_Stacks := [\<lparr>sd_Project = ''api'', sd_Path = ''api'', sd_Pattern = '''', sd_Stacks = [''prod'']\<rparr>]\<rparr>"

definition demo_input :: "(unit, char) ApplyInput" where
  "demo_input =
     \<lparr>in_PRNumber = 7, in_CommitSHA = '''', in_ExpectedHeadSHA = '''', in_RunNumber = 13, in_RunAttempt = 1, in_CIRunID = 0,
      in_CIRunURL = '''', in_SelfCheckNames = [], in_RepoRoot = ''/w'', in_RepoPath = '''', in_RepoFull = ''o/r'', in_Actor = ''carol'',
      in_SavedPlans = False, in_Config = Some demo_engine, in_Shared = Some demo_shared, in_Notifications = False,
      in_Blob = Some demo_store,
      in_Locks = \<lparr>e_store = demo_store, e_MaxRetries = 5, e_clock = ticking, e_marshal = answer1 ''l'', e_unmarshal = answer1 None,
                  e_sha = zero_digest, e_probe_rnd = None, e_probe_bodies = ([], [], [], [])\<rparr>,
      in_AuditWriter = Some demo_store, in_TriggerSource = '''', in_Force = False, in_Refresh = False,
      in_CommentApproval = \<lparr>cc_Command = '''', cc_CommandPrefixes = [], cc_AllowedAssociations = []\<rparr>,
      in_BreakGlass = Some ''database is down''\<rparr>"

definition demo_start :: "(unit, char) ApplyState" where
  "demo_start =
     \<lparr>ax_lock = \<lparr>w_store = (), w_cas = \<lparr>cp_probed = True, cp_err = None\<rparr>, w_ticks = 0\<rparr>,
      ax_probe = \<lparr>cp_probed = True, cp_err = None\<rparr>,
      ax_tl = \<lparr>tl_pr = 0, tl_sha = '''', tl_enabled = False, tl_entries = []\<rparr>, ax_log = []\<rparr>"

lemmas demo_defs = demo_world_def demo_input_def demo_store_def demo_start_def answer1_def answer2_def answer3_def answer4_def

definition demo_pr :: VcsPR where
  "demo_pr = \<lparr>vp_Number = 7, vp_HeadSHA = ''abc'', vp_BaseRef = ''main'', vp_Title = '''', vp_Author = ''alice'', vp_IsFork = False,
     vp_IsDraft = False, vp_RepoPrivate = True\<rparr>"

lemma unit_event [simp]: "ax_lock (event W ai ic lb dt (x :: (unit, 'b, 'z) ApplyState_scheme)) = ax_lock x"
  "ax_probe (event W ai ic lb dt (x :: (unit, 'b, 'z) ApplyState_scheme)) = ax_probe x"
  by (simp_all add: event_def split: prod.split)

lemma demo_head: "resolve_head demo_world demo_input = Inr (demo_pr, ''abc'')"
  by (simp add: resolve_head_def demo_defs demo_pr_def validateExpectedPRHead_def)

lemma demo_snapshot: "load_snapshot demo_world demo_input sha x = (x, Inr (no_snapshot, Some (Redact_text (Some (BuildRedactor demo_world)) '''')))"
  by (simp add: load_snapshot_def LoadPreviewSnapshot_def newestPreviewManifest_def demo_defs)

lemma demo_not_applied: "already_applied demo_world demo_input sha x = (x, None)"
  by (simp add: already_applied_def readAppliedState_def demo_defs)

lemma demo_mapped:
  "run_scopeChangedFiles [''api/main.go''] '''' = ([''api/main.go''], False)"
  "declared_stacks demo_world demo_input [demo_stack] = [demo_stack]"
  "ValidateUniqueRefs [demo_stack] = None"
  "af_Stacks (AffectedDetailed (wd_pglob demo_world) [demo_stack] [''api/main.go''] (changeMappingFromConfig (Some demo_engine))) = [demo_stack]"
  "af_Reason (AffectedDetailed (wd_pglob demo_world) [demo_stack] [''api/main.go''] (changeMappingFromConfig (Some demo_engine))) = ReasonMatched"
  by code_simp+

lemma demo_scope:
  "resolve_scope demo_world demo_input sha no_snapshot h x = (x, Inr ([demo_stack], [''api/main.go'']))"
proof -
  have "wd_stacks demo_world = Inr [demo_stack]" "wd_changed demo_world = Inr [''api/main.go'']" "in_RepoPath demo_input = ''''"
    "in_Config demo_input = Some demo_engine" by (simp_all add: demo_defs)
  then show ?thesis
    using demo_mapped by (simp add: resolve_scope_def bind_scope_def scope_event_def StackRefs_def no_snapshot_def Let_def)
qed

lemma demo_gates: "\<exists>gi. read_gates demo_world demo_input demo_pr ''abc'' [demo_stack] [''api/main.go''] = Inr (gi, [])
   \<and> gi_Behind gi = 0 \<and> gi_ChecksGreen gi \<and> gi_Codeowners gi = []"
proof -
  have "(case read_gates demo_world demo_input demo_pr ''abc'' [demo_stack] [''api/main.go''] of
     Inl _ \<Rightarrow> False | Inr (gi, teams) \<Rightarrow> teams = [] \<and> gi_Behind gi = 0 \<and> gi_ChecksGreen gi \<and> gi_Codeowners gi = [])" by code_simp
  then show ?thesis by (auto split: sum.splits prod.splits)
qed

lemma demo_authorized:
  "\<exists>dec. Authorize (toBreakGlassConfig (Some demo_shared)) \<lparr>bi_Actor = ''carol'', bi_OwnedPaths = [], bi_TeamMembers = [],
      bi_AuthorizingPathsTouched = []\<rparr> = Inr dec \<and> de_Authorized dec"
proof -
  have "(case Authorize (toBreakGlassConfig (Some demo_shared)) \<lparr>bi_Actor = ''carol'', bi_OwnedPaths = [], bi_TeamMembers = [],
      bi_AuthorizingPathsTouched = []\<rparr> of Inl _ \<Rightarrow> False | Inr dec \<Rightarrow> de_Authorized dec)" by code_simp
  then show ?thesis by (auto split: sum.splits)
qed

lemma demo_touched: "AuthorizingPathsTouched [''api/main.go''] = []" by code_simp

lemma demo_started: "parse_rfc3339 (fmt_rfc3339 (wd_clock demo_world AtStart)) = Some 1714558200000000000"
  by code_simp

lemma demo_audit:
  assumes "cp_probed (ax_probe x)" "cp_err (ax_probe x) = None" "ae_StartedAt e = fmt_rfc3339 (wd_clock demo_world AtStart)"
  shows "\<exists>y. write_audit demo_world demo_store e x = (y, None) \<and> ax_lock y = ax_lock x \<and> ax_log y = ax_log x \<and> ax_probe y = ax_probe x"
  using assms demo_started
  by (simp add: write_audit_def audit_Write_def Ensure_cached demo_store_def demo_world_def answer1_def answer4_def)

lemma announce_unit [simp]:
  "ax_lock (announce_override W ai just dec touched hist (x :: (unit, 'b) ApplyState)) = ax_lock x"
  "ax_probe (announce_override W ai just dec touched hist (x :: (unit, 'b) ApplyState)) = ax_probe x"
  by (simp_all add: announce_override_def Let_def split: option.split)

lemma demo_fields:
  "in_BreakGlass demo_input = Some ''database is down''" "in_AuditWriter demo_input = Some demo_store"
  "in_Shared demo_input = Some demo_shared" "in_Actor demo_input = ''carol''" "in_PRNumber demo_input = 7"
  "in_Notifications demo_input = False" "in_Refresh demo_input = False" "in_SavedPlans demo_input = False"
  "in_Config demo_input = Some demo_engine" "wd_exec_env demo_world = Inr []" "wd_cancelled demo_world s = None"
  "wd_state_auth demo_world s = Inr []" "wd_login demo_world s env = None" "wd_auth demo_world s = Inr []"
  "wd_engine demo_world s opts = Inr demo_result"
  by (simp_all add: demo_defs)

lemma demo_bg:
  fixes x :: "(unit, char) ApplyState"
  assumes "cp_probed (ax_probe x)" "cp_err (ax_probe x) = None" "gi_Codeowners gi = []"
  shows "\<exists>y dec. break_glass_step demo_world demo_input sha gi [] [''api/main.go''] h x = (y, Inr (Some dec, []))
     \<and> ax_lock y = ax_lock x \<and> ax_log y = ax_log x @ [ActIntent (run_id demo_input sha @ ''-intent'')]"
proof -
  obtain dec where d: "Authorize (toBreakGlassConfig (Some demo_shared)) \<lparr>bi_Actor = ''carol'', bi_OwnedPaths = [],
      bi_TeamMembers = [], bi_AuthorizingPathsTouched = []\<rparr> = Inr dec" "de_Authorized dec"
    using demo_authorized by blast
  let ?i = "act (ActIntent (run_id demo_input sha @ ''-intent''))
    (announce_override demo_world demo_input ''database is down'' dec [] h x)"
  have "ax_probe ?i = ax_probe x" "ax_lock ?i = ax_lock x" by (simp_all add: act_def)
  moreover have "ae_StartedAt (intent_entry demo_world demo_input sha ''database is down'' dec []) = fmt_rfc3339 (wd_clock demo_world AtStart)"
    by (simp add: intent_entry_def audit_entry_def)
  ultimately obtain y where "write_audit demo_world demo_store (intent_entry demo_world demo_input sha ''database is down'' dec []) ?i = (y, None)"
    "ax_lock y = ax_lock x" "ax_log y = ax_log ?i"
    using demo_audit [of ?i "intent_entry demo_world demo_input sha ''database is down'' dec []"] assms by auto
  with d assms(3) show ?thesis
    by (simp add: break_glass_step_def bg_inputs_def demo_fields demo_touched write_intent_def Let_def)
qed

lemma demo_prepare:
  "\<exists>x1 cx. prepare demo_world demo_input demo_start = (x1, Inr (cx, [demo_stack])) \<and> ax_lock x1 = ax_lock demo_start
     \<and> ax_log x1 = [ActIntent (run_id demo_input ''abc'' @ ''-intent'')]
     \<and> cx_sha cx = ''abc'' \<and> cx_runID cx = run_id demo_input ''abc'' \<and> cx_bg cx \<noteq> None \<and> cx_history cx \<noteq> None
     \<and> cx_snapshot cx = no_snapshot \<and> cx_pr cx = demo_pr \<and> gi_Behind (cx_gi cx) = 0 \<and> gi_ChecksGreen (cx_gi cx)
     \<and> \<not> cx_planLocking cx"
proof -
  obtain gi where g: "read_gates demo_world demo_input demo_pr ''abc'' [demo_stack] [''api/main.go''] = Inr (gi, [])"
    "gi_Behind gi = 0" "gi_ChecksGreen gi" "gi_Codeowners gi = []"
    using demo_gates by blast
  define x where "x = event demo_world demo_input [240, 159, 154, 128] ''apply starting'' ''''
    (demo_start\<lparr>ax_tl := newApplyTimeline 7 ''abc''\<rparr>)"
  have "cp_probed (ax_probe x)" "cp_err (ax_probe x) = None" by (simp_all add: x_def demo_start_def)
  with demo_bg [OF _ _ g(4), of x] obtain y dec where
    b: "break_glass_step demo_world demo_input ''abc'' gi [] [''api/main.go'']
      (Some (Redact_text (Some (BuildRedactor demo_world)) '''')) x = (y, Inr (Some dec, []))"
    "ax_lock y = ax_lock x" "ax_log y = ax_log x @ [ActIntent (run_id demo_input ''abc'' @ ''-intent'')]"
    by metis
  have x: "ax_lock x = ax_lock demo_start" "ax_log x = []" by (simp_all add: x_def demo_start_def)
  have t: "trigger_matches demo_input" "TrimSpace ''database is down'' = ''database is down''"
    by (simp add: trigger_matches_def demo_fields) code_simp
  show ?thesis
    using t g b x demo_scope
    by (simp add: prepare_def demo_head demo_snapshot demo_not_applied select_stacks_def authorize_run_def enter_loop_def
          notify_start_def demo_fields x_def [symmetric] Let_def)
qed

lemma demo_acquire:
  "\<exists>lk l. ls_TryAcquire (in_Locks demo_input) ''api'' ''prod'' \<lparr>h_PR = 7, h_CommitSHA = ''abc'', h_RunID = ''apply-13-1-abc'',
     h_Actor = ''carol'', h_AcquiredAt = '''', h_ExpiresAt = '''', h_Promoted = False\<rparr> (LockTTL (Some demo_shared)) (ax_lock demo_start)
   = (lk, l, True, None)"
proof -
  have "(case ls_TryAcquire (in_Locks demo_input) ''api'' ''prod'' \<lparr>h_PR = 7, h_CommitSHA = ''abc'', h_RunID = ''apply-13-1-abc'',
     h_Actor = ''carol'', h_AcquiredAt = '''', h_ExpiresAt = '''', h_Promoted = False\<rparr> (LockTTL (Some demo_shared)) (ax_lock demo_start)
   of (lk, l, got, err) \<Rightarrow> got \<and> err = None)" by code_simp
  then show ?thesis by (auto split: prod.splits)
qed

lemma demo_config:
  "HooksFromEngine (Some demo_engine) = []" "toFreezeConfig (Some demo_shared) = []"
  "run_id demo_input ''abc'' = ''apply-13-1-abc''" "st_Project demo_stack = ''api''" "st_Name demo_stack = ''prod''"
  by code_simp+

lemma demo_evaluate:
  assumes "cx_bg cx \<noteq> None" "cx_history cx \<noteq> None" "cx_pr cx = demo_pr" "gi_Behind (cx_gi cx) = 0" "gi_ChecksGreen (cx_gi cx)"
  shows "\<exists>res. evaluate_stack demo_world demo_input cx demo_stack True n ss = (res, ss, False) \<and> \<not> r_Blocked res"
proof -
  let ?cfg = "toPreconditionsConfig (Some demo_shared)" and ?inp = "gate_inputs demo_world demo_input cx demo_stack True n"
  have "\<not> gate_fails ?cfg ?inp g" for g
    by (cases g) (use assms in \<open>auto simp: gate_fails_simps gate_inputs_def Let_def UpToDate_def demo_pr_def freeze_state_def
      demo_config demo_fields\<close>)
  then show ?thesis by (simp add: evaluate_stack_def Evaluate_eq demo_config demo_fields Let_def)
qed

lemma demo_stack_runs:
  assumes "cx_bg cx \<noteq> None" "cx_history cx \<noteq> None" "cx_pr cx = demo_pr" "gi_Behind (cx_gi cx) = 0" "gi_ChecksGreen (cx_gi cx)"
    and "\<not> cx_planLocking cx" "cx_sha cx = ''abc''" "cx_runID cx = run_id demo_input ''abc''"
    and "ax_lock x = ax_lock demo_start" "\<not> al_stateAuth x" "\<not> al_login x"
  shows "\<exists>opts m. ActEngine demo_stack opts \<in> set (ax_log (apply_stack demo_world demo_input cx demo_stack x))
     \<and> ActAcquire demo_stack True \<in> set (ax_log (apply_stack demo_world demo_input cx demo_stack x))
     \<and> al_anyBlocked (apply_stack demo_world demo_input cx demo_stack x) = al_anyBlocked x
     \<and> al_summaries (apply_stack demo_world demo_input cx demo_stack x) = al_summaries x @ [m] \<and> ss_Status m = StatusNoOp"
proof -
  have h: "holder_of demo_input cx = \<lparr>h_PR = 7, h_CommitSHA = ''abc'', h_RunID = ''apply-13-1-abc'', h_Actor = ''carol'',
      h_AcquiredAt = '''', h_ExpiresAt = '''', h_Promoted = False\<rparr>"
    using assms by (simp add: holder_of_def demo_fields demo_config)
  obtain lk l where a: "ls_TryAcquire (in_Locks demo_input) ''api'' ''prod'' (holder_of demo_input cx) (LockTTL (Some demo_shared)) (ax_lock x)
      = (lk, l, True, None)"
    using demo_acquire h assms(9) by metis
  let ?ss = "new_summary ''api'' ''prod'' (st_Env demo_stack)"
  obtain res where e: "evaluate_stack demo_world demo_input cx demo_stack True 0 ?ss = (res, ?ss, False)" "\<not> r_Blocked res"
    using demo_evaluate [OF assms(1-5)] by blast
  have z: "ct_Total no_counts = 0" by (simp add: ct_Total_def no_counts_def)
  from a e z assms(6,10,11) show ?thesis
    by (simp add: apply_stack_def demo_fields demo_config gate_and_apply_def blocked_by_def apply_gated_def state_auth_step_def
          login_step_def run_engine_def fetch_plan_def call_engine_def record_stack_def releaseLockOrLog_def act_def
          applied_summary_def demo_result_def Let_def) blast
qed

lemma demo_run:
  "\<exists>opts. ActEngine demo_stack opts \<in> set (ax_log (fst (Apply demo_world demo_input demo_start)))
     \<and> ActAcquire demo_stack True \<in> set (ax_log (fst (Apply demo_world demo_input demo_start)))
     \<and> ActMarker \<in> set (ax_log (fst (Apply demo_world demo_input demo_start)))"
proof -
  obtain x1 cx where p: "prepare demo_world demo_input demo_start = (x1, Inr (cx, [demo_stack]))" "ax_lock x1 = ax_lock demo_start"
     "cx_sha cx = ''abc''" "cx_runID cx = run_id demo_input ''abc''" "cx_bg cx \<noteq> None" "cx_history cx \<noteq> None"
     "cx_snapshot cx = no_snapshot" "cx_pr cx = demo_pr" "gi_Behind (cx_gi cx) = 0" "gi_ChecksGreen (cx_gi cx)"
     "\<not> cx_planLocking cx"
    using demo_prepare by blast
  define y where "y = apply_loop demo_world demo_input cx [demo_stack] (loop_start cx x1)"
  have "ax_lock (loop_start cx x1) = ax_lock demo_start" "\<not> al_stateAuth (loop_start cx x1)" "\<not> al_login (loop_start cx x1)"
    "al_summaries (loop_start cx x1) = []" "\<not> al_anyBlocked (loop_start cx x1)"
    using p by (simp_all add: loop_start_def)
  with demo_stack_runs [of cx "loop_start cx x1"] p obtain opts m where
    y: "ActEngine demo_stack opts \<in> set (ax_log y)" "ActAcquire demo_stack True \<in> set (ax_log y)" "\<not> al_anyBlocked y"
      "al_summaries y = [m]" "ss_Status m = StatusNoOp"
    by (auto simp: y_def)
  have "aggregateOutcome [m] False = ''success''"
    using y(5) by (simp add: aggregateOutcome_def StatusNoOp_def StatusError_def)
  with y have "ActMarker \<in> set (ax_log (report_outcome demo_world demo_input cx z))"
    if "al_summaries z = [m]" "\<not> al_anyBlocked z" for z
    using that by (simp add: report_outcome_def mark_applied_def Let_def)
  with y(3,4) have "ActMarker \<in> set (ax_log (fst (finish_run demo_world demo_input cx y)))"
    using finish_report [of demo_world demo_input cx y] by (metis Un_iff set_append)
  with p y finish_log [of demo_world demo_input cx y] show ?thesis
    by (auto simp: Apply_def y_def split: prod.split)
qed

theorem engine_only_on_cleared_stacks_witness:
  "\<exists>x1 cx target. prepare demo_world demo_input demo_start = (x1, Inr (cx, target)) \<and> demo_stack \<in> set target
     \<and> cleared demo_world demo_input cx demo_stack"
proof -
  obtain opts where "ActEngine demo_stack opts \<in> set (ax_log (fst (Apply demo_world demo_input demo_start)))"
    using demo_run by blast
  from engine_only_on_cleared_stacks [OF _ this] show ?thesis by (auto simp: demo_start_def)
qed

theorem applied_marker_only_when_clean_witness:
  "\<exists>x1 cx target. prepare demo_world demo_input demo_start = (x1, Inr (cx, target)) \<and> target \<noteq> []"
  using applied_marker_only_when_clean [of demo_start demo_world demo_input] demo_run by (auto simp: demo_start_def)

theorem break_glass_recorded_first_witness:
  "\<exists>sha. hd (ax_log (fst (Apply demo_world demo_input demo_start))) = ActIntent (run_id demo_input sha @ ''-intent'')"
  using break_glass_recorded_first [of demo_start demo_input "''database is down''" demo_stack True demo_world] demo_run
  by (auto simp: demo_start_def demo_fields)

end
