(* ===== verification/RenderText.thy ===== *)
theory RenderText
  imports PreviewLookup Redact
begin

text \<open>
  What the comment renderers share: the trim options of \<open>internal/core/render/trim.go\<close>, the cells, icons, markers and
  orderings of \<open>internal/core/render/preview.go\<close>, and the error block. A renderer returns the bytes the Go builder ends
  up with, so lengths are byte lengths, as in the size checks; a glyph outside ASCII is spelled as its UTF-8 bytes.
  The message of a gate is kept structured, \<open>txt\<close> is its wording.
\<close>

subsection \<open>Glyphs\<close>

definition nl :: string where "nl = [CHR 0x0A]"
definition fence :: string where "fence = ''```''"
definition mdot :: string where "mdot = [CHR 0xC2, CHR 0xB7]"
definition plusminus :: string where "plusminus = [CHR 0xC2, CHR 0xB1]"
definition ellipsis :: string where "ellipsis = [CHR 0xE2, CHR 0x80, CHR 0xA6]"
definition zero_width :: string where "zero_width = [CHR 0xE2, CHR 0x80, CHR 0x8B]"
definition em_dash :: string where "em_dash = [CHR 0xE2, CHR 0x80, CHR 0x94]"
definition warning_sign :: string where "warning_sign = [CHR 0xE2, CHR 0x9A, CHR 0xA0, CHR 0xEF, CHR 0xB8, CHR 0x8F]"
definition info_sign :: string where "info_sign = [CHR 0xE2, CHR 0x84, CHR 0xB9, CHR 0xEF, CHR 0xB8, CHR 0x8F]"
definition stopwatch :: string where "stopwatch = [CHR 0xE2, CHR 0x8F, CHR 0xB1]"
definition heavy_plus :: string where "heavy_plus = [CHR 0xE2, CHR 0x9E, CHR 0x95]"
definition heavy_minus :: string where "heavy_minus = [CHR 0xE2, CHR 0x9E, CHR 0x96]"
definition cycle_arrows :: string where "cycle_arrows = [CHR 0xF0, CHR 0x9F, CHR 0x94, CHR 0x84]"
definition repeat_arrows :: string where "repeat_arrows = [CHR 0xF0, CHR 0x9F, CHR 0x94, CHR 0x81]"
definition people :: string where "people = [CHR 0xF0, CHR 0x9F, CHR 0x91, CHR 0xA5]"
definition key_lock :: string where "key_lock = [CHR 0xF0, CHR 0x9F, CHR 0x94, CHR 0x90]"
definition padlock :: string where "padlock = [CHR 0xF0, CHR 0x9F, CHR 0x94, CHR 0x92]"
definition siren :: string where "siren = [CHR 0xF0, CHR 0x9F, CHR 0x9A, CHR 0xA8]"
definition check_mark :: string where "check_mark = [CHR 0xE2, CHR 0x9C, CHR 0x85]"
definition cross_mark :: string where "cross_mark = [CHR 0xE2, CHR 0x9D, CHR 0x8C]"
definition pause_sign :: string where "pause_sign = [CHR 0xE2, CHR 0x8F, CHR 0xB8]"
definition red_circle :: string where "red_circle = [CHR 0xF0, CHR 0x9F, CHR 0x94, CHR 0xB4]"
definition yellow_circle :: string where "yellow_circle = [CHR 0xF0, CHR 0x9F, CHR 0x9F, CHR 0xA1]"
definition green_circle :: string where "green_circle = [CHR 0xF0, CHR 0x9F, CHR 0x9F, CHR 0xA2]"
definition white_circle :: string where "white_circle = [CHR 0xE2, CHR 0x9A, CHR 0xAA]"

subsection \<open>What a renderer is asked to leave out, and what it reports as left out\<close>

record renderOpts =
  rr_FullPlan :: bool
  rr_Diff :: bool
  rr_Summary :: bool
  rr_errorBudget :: int
  rr_keepStacks :: "string list option"
  rr_tableLimit :: int
  rr_part :: int
  rr_partsTotal :: int
  rr_suppressTable :: bool
  rr_tableStacks :: "StackSummary list option"
  rr_stackParts :: "(string \<times> int) list"
  rr_commentLimit :: int
  rr_note :: string

definition no_opts :: renderOpts where
  "no_opts = \<lparr>rr_FullPlan = False, rr_Diff = False, rr_Summary = False, rr_errorBudget = 0, rr_keepStacks = None,
              rr_tableLimit = 0, rr_part = 0, rr_partsTotal = 0, rr_suppressTable = False, rr_tableStacks = None,
              rr_stackParts = [], rr_commentLimit = 0, rr_note = ''''\<rparr>"

record Trim =
  tm_FullPlan :: bool
  tm_Diff :: bool
  tm_Summary :: bool
  tm_Errors :: bool
  tm_Sections :: int
  tm_Rows :: int

definition no_trim :: Trim where
  "no_trim = \<lparr>tm_FullPlan = False, tm_Diff = False, tm_Summary = False, tm_Errors = False, tm_Sections = 0, tm_Rows = 0\<rparr>"

definition Lost :: "Trim \<Rightarrow> bool" where
  "Lost t \<longleftrightarrow> tm_Diff t \<or> tm_Summary t \<or> tm_Errors t \<or> tm_Sections t > 0 \<or> tm_Rows t > 0"

definition tableSource :: "renderOpts \<Rightarrow> StackSummary list \<Rightarrow> StackSummary list" where
  "tableSource o1 own = (case rr_tableStacks o1 of None \<Rightarrow> own | Some all \<Rightarrow> all)"

definition paginated :: "renderOpts \<Rightarrow> bool" where
  "paginated o1 \<longleftrightarrow> rr_partsTotal o1 > 1"

definition writePartHeader :: "renderOpts \<Rightarrow> string" where
  "writePartHeader o1 =
     (if \<not> paginated o1 then ''''
      else ''**Part '' @ itoa (rr_part o1) @ '' of '' @ itoa (rr_partsTotal o1) @ ''.**'' @
           (if rr_part o1 > 1 then '' The stack table is on part 1.''
            else '' Per-stack detail continues in the comments below.'') @ nl @ nl)"

definition partCell :: "renderOpts \<Rightarrow> string \<Rightarrow> string" where
  "partCell o1 ref =
     (let part = map_get (rr_stackParts o1) 0 ref in if part > 0 then ''part '' @ itoa part else ''run log'')"

definition sectionRendered :: "renderOpts \<Rightarrow> string \<Rightarrow> bool" where
  "sectionRendered o1 ref = (case rr_keepStacks o1 of None \<Rightarrow> True | Some keep \<Rightarrow> ref \<in> set keep)"

definition error_cut_note :: string where
  "error_cut_note = nl @ ellipsis @ '' error truncated; see the run log.''"

definition clampError :: "renderOpts \<Rightarrow> string \<Rightarrow> string" where
  "clampError o1 msg =
     (if rr_errorBudget o1 \<le> 0 \<or> int (length msg) \<le> rr_errorBudget o1 then msg
      else take (nat (rr_errorBudget o1 - int (length error_cut_note))) msg @ error_cut_note)"

definition writeDroppedSectionNote :: "int \<Rightarrow> string" where
  "writeDroppedSectionNote dropped =
     (if dropped = 0 then ''''
      else ''---'' @ nl @ nl @ ''> '' @ warning_sign @ '' **'' @ itoa dropped @ '' ''
           @ (if dropped = 1 then ''stack'' else ''stacks'')
           @ '' omitted** from the per-stack detail above to fit GitHub''
           @ [CHR 0x27] @ ''s comment size limit. They remain in the table; their full detail is in the run log.'' @ nl @ nl)"

definition writeHiddenRowNote :: "int \<Rightarrow> int \<Rightarrow> string" where
  "writeHiddenRowNote hidden columns =
     (if hidden = 0 then ''''
      else ''| _+'' @ itoa hidden @ '' more stacks - see the run log_ |'' @ concat (replicate (nat (columns - 1)) '' |'') @ nl)"

subsection \<open>The rows of the table\<close>

definition StackViewChanged :: string where "StackViewChanged = ''changed''"
definition StackViewAll :: string where "StackViewAll = ''all''"

definition tableStacks :: "StackSummary list \<Rightarrow> string \<Rightarrow> StackSummary list" where
  "tableStacks stacks view =
     (if view \<noteq> StackViewChanged then stacks else filter (\<lambda>s. ss_Status s \<noteq> StatusNoOp) stacks)"

type_synonym stackOrder = "StackSummary list \<Rightarrow> string \<Rightarrow> StackSummary list"

definition tableRows ::
  "stackOrder \<Rightarrow> StackSummary list \<Rightarrow> string \<Rightarrow> string \<Rightarrow> int \<Rightarrow> StackSummary list \<times> int" where
  "tableRows order stacks view sortMode limit =
     (let rows = order (tableStacks stacks view) sortMode in
      if limit > 0 \<and> int (length rows) > limit then (take (nat limit) rows, int (length rows) - limit) else (rows, 0))"

definition sectionRefs :: "stackOrder \<Rightarrow> StackSummary list \<Rightarrow> string \<Rightarrow> string list" where
  "sectionRefs order stacks sortMode =
     map summary_Ref (filter (\<lambda>s. ss_Status s \<noteq> StatusNoOp) (order stacks sortMode))"

text \<open>
  \<open>sort.SliceStable\<close> over the rank of the status, then the reference; a status the map does not name has rank 0.
  \<open>sort.Slice\<close> leaves the order of equal references open, here it is the input's.
\<close>

definition grouped_less :: "(string \<times> int) list \<Rightarrow> StackSummary \<Rightarrow> StackSummary \<Rightarrow> bool" where
  "grouped_less ranks a b =
     (if map_get ranks 0 (ss_Status a) \<noteq> map_get ranks 0 (ss_Status b)
      then map_get ranks 0 (ss_Status a) < map_get ranks 0 (ss_Status b)
      else summary_Ref a < summary_Ref b)"

definition order_by_rank :: "(string \<times> int) list \<Rightarrow> stackOrder" where
  "order_by_rank ranks ss mode =
     (if mode = ''alphabetical'' then insertion_sort (\<lambda>a b. summary_Ref a < summary_Ref b) ss
      else insertion_sort (grouped_less ranks) ss)"

definition preview_rank :: "(string \<times> int) list" where
  "preview_rank = [(StatusBlocked, 0), (StatusPlanned, 1), (StatusError, 2), (StatusNoOp, 3)]"

definition sorted_stacks :: stackOrder where
  "sorted_stacks = order_by_rank preview_rank"

definition apply_rank :: "(string \<times> int) list" where
  "apply_rank = [(StatusError, 0), (StatusBlocked, 1), (StatusPlanned, 2), (StatusNoOp, 3)]"

definition sortApply :: stackOrder where
  "sortApply = order_by_rank apply_rank"

lemma mset_order_by_rank [simp]: "mset (order_by_rank ranks ss mode) = mset ss"
  by (simp add: order_by_rank_def)

lemma set_order_by_rank [simp]: "set (order_by_rank ranks ss mode) = set ss"
  by (simp add: order_by_rank_def)

lemma order_keeps [simp]:
  "set (sorted_stacks ss mode) = set ss" "mset (sorted_stacks ss mode) = mset ss" "set (sortApply ss mode) = set ss"
  by (simp_all add: sorted_stacks_def sortApply_def)

subsection \<open>The omission phrase\<close>

definition omittedPhrase :: "Trim \<Rightarrow> string \<Rightarrow> bool \<Rightarrow> string" where
  "omittedPhrase t label silentFullPlan =
     (let dropped = (if tm_FullPlan t \<and> \<not> silentFullPlan then [label] else [])
                    @ (if tm_Diff t then [''per-stack diff''] else []) @ (if tm_Summary t then [''plan summaries''] else []);
          phrase = Join dropped '', '';
          shortened = (if tm_Errors t then [''errors shortened''] else [])
                      @ (if tm_Sections t > 0 then [''some stack detail''] else [])
                      @ (if tm_Rows t > 0 then [''some table rows''] else [])
      in if shortened \<noteq> [] then (if phrase \<noteq> '''' then phrase @ ''; '' else phrase) @ Join shortened ''; '' else phrase)"

subsection \<open>Cells, icons and markers\<close>

definition Marker :: string where "Marker = ''<!-- reeve:pr-comment:v1 -->''"
definition StyleSection :: string where "StyleSection = ''section''"

definition render_shortSHA :: "string \<Rightarrow> string" where
  "render_shortSHA sha = (if length sha > 7 then take 7 sha else sha)"

definition DashboardMarker :: "string \<Rightarrow> string \<Rightarrow> string" where
  "DashboardMarker style commitSHA =
     (if style \<noteq> StyleSection then Marker else ''<!-- reeve:pr-comment:v1:'' @ render_shortSHA commitSHA @ '' -->'')"

definition githubCommentMaxLen :: int where "githubCommentMaxLen = 65000"
definition perStackErrorBudget :: int where "perStackErrorBudget = 2000"

definition envOrDash :: "string \<Rightarrow> string" where
  "envOrDash env = (if env = '''' then ''-'' else env)"

definition statusCell :: "StackSummary \<Rightarrow> string" where
  "statusCell s =
     (if ss_Status s = StatusBlocked then
        (if ss_BlockedBy s > 0 then padlock @ '' blocked by #'' @ itoa (ss_BlockedBy s) else padlock @ '' blocked'')
      else if ss_Status s = StatusError then red_circle @ '' error''
      else if ss_Status s = StatusNoOp then mdot @ '' no-op''
      else if ss_Status s = StatusPlanned then check_mark @ '' planned''
      else ss_Status s)"

definition applyStatusCell :: "StackSummary \<Rightarrow> string" where
  "applyStatusCell s =
     (if ss_Status s = StatusError then red_circle @ '' failed''
      else if ss_Status s = StatusNoOp then mdot @ '' no-op''
      else if ss_Status s = StatusBlocked then
        (if ss_BlockedBy s > 0 then padlock @ '' blocked by #'' @ itoa (ss_BlockedBy s) else padlock @ '' blocked'')
      else if ss_Status s = StatusPlanned then check_mark @ '' applied''
      else ss_Status s)"

definition gateIcon :: "string \<Rightarrow> string" where
  "gateIcon outcome =
     (if outcome = ''pass'' then check_mark else if outcome = ''fail'' then cross_mark
      else if outcome = ''warn'' then warning_sign else if outcome = ''skipped'' then pause_sign else mdot)"

definition overallIcon :: "StackSummary list \<Rightarrow> string" where
  "overallIcon ss =
     (if list_ex (\<lambda>s. ss_Status s = StatusError) ss then red_circle
      else if list_ex (\<lambda>s. ss_Status s = StatusBlocked) ss then yellow_circle
      else if list_ex (\<lambda>s. ss_Status s = StatusPlanned \<and> ct_Total (ss_Counts s) > 0) ss then green_circle
      else white_circle)"

definition runRef :: "int \<Rightarrow> string \<Rightarrow> string" where
  "runRef runNumber url =
     (if url \<noteq> '''' then ''[run #'' @ itoa runNumber @ ''](''  @ url @ '')'' else ''run #'' @ itoa runNumber)"

definition truncationNote :: "string \<Rightarrow> string" where
  "truncationNote url =
     ''Output trimmed to fit GitHub'' @ [CHR 0x27] @ ''s 65,536-char comment limit.''
     @ (if url \<noteq> '''' then '' See the [full run output]('' @ url @ '') for the complete plan.'' else '''')"

definition omission_note :: "string \<Rightarrow> string \<Rightarrow> string" where
  "omission_note url omitted = truncationNote url @ '' (omitted: '' @ omitted @ '')''"

definition note_line :: "renderOpts \<Rightarrow> string" where
  "note_line o1 = (if rr_note o1 \<noteq> '''' then ''> '' @ warning_sign @ '' '' @ rr_note o1 @ nl @ nl else '''')"

definition duration_bit :: "int \<Rightarrow> string" where
  "duration_bit secs = (if secs > 0 then '' '' @ mdot @ '' '' @ stopwatch @ '' '' @ itoa secs @ ''s'' else '''')"

subsection \<open>The error block\<close>

definition trim_right_nl :: "string \<Rightarrow> string" where
  "trim_right_nl s = rev (dropWhile (\<lambda>c. c = CHR 0x0A) (rev s))"

definition split_fence :: string where
  "split_fence = ''`'' @ zero_width @ ''`'' @ zero_width @ ''`''"

definition escape_fences :: "string \<Rightarrow> string" where
  "escape_fences msg = ReplaceAll msg fence split_fence"

definition writeError :: "string \<Rightarrow> string" where
  "writeError msg0 =
     (let msg = trim_right_nl msg0 in
      if msg = '''' then ''''
      else if \<not> Contains msg nl then ''  **Error:** '' @ msg @ nl @ nl
      else ''  **Error:**'' @ nl @ nl @ fence @ nl @ escape_fences msg @ nl @ fence @ nl @ nl)"

text \<open>Content in a fence of its own, closed on a line of its own.\<close>

definition end_line :: "string \<Rightarrow> string" where
  "end_line s = (if HasSuffix s nl then s else s @ nl)"

definition fenced_details :: "string \<Rightarrow> string \<Rightarrow> string \<Rightarrow> string" where
  "fenced_details title opening content =
     ''<details><summary>'' @ title @ ''</summary>'' @ nl @ nl @ opening @ nl @ end_line content
     @ fence @ nl @ nl @ ''</details>'' @ nl @ nl"

definition gate_trace :: "(GateReason \<Rightarrow> string) \<Rightarrow> string \<Rightarrow> GateTrace list \<Rightarrow> string" where
  "gate_trace txt ref gates =
     (if gates = [] then ''''
      else key_lock @ '' '' @ ref @ '' apply gates:'' @ nl
           @ concat (map (\<lambda>g. ''  '' @ gateIcon (gt_Outcome g) @ '' '' @ gt_Gate g @ '': '' @ txt (gt_Reason g) @ nl) gates) @ nl)"

end
