(* ===== verification/RenderBoards.thy ===== *)
theory RenderBoards
  imports RenderText
begin

text \<open>
  The three comment bodies: the preview board (\<open>internal/core/render/preview.go\<close>), the apply board
  (\<open>internal/core/render/apply.go\<close>) and the refresh comment (\<open>internal/core/render/refresh.go\<close>), and what they have
  in common, stated as the contract \<open>comment_renderer\<close> the trim ladder relies on.
\<close>

subsection \<open>Sections and tables\<close>

text \<open>The loop over the ordered stacks: no-ops have no section, a section left out is counted.\<close>

fun section_loop :: "renderOpts \<Rightarrow> (StackSummary \<Rightarrow> string) \<Rightarrow> StackSummary list \<Rightarrow> int \<Rightarrow> string" where
  "section_loop o1 f [] dropped = writeDroppedSectionNote dropped"
| "section_loop o1 f (s # ss) dropped =
     (if ss_Status s = StatusNoOp then section_loop o1 f ss dropped
      else if \<not> sectionRendered o1 (summary_Ref s) then section_loop o1 f ss (dropped + 1)
      else f s @ section_loop o1 f ss dropped)"

definition int_cell :: "nat \<Rightarrow> string" where "int_cell n = itoa (int n) @ '' | ''"

definition counts_cells :: "StackSummary \<Rightarrow> string" where
  "counts_cells s =
     int_cell (ct_Add (ss_Counts s)) @ int_cell (ct_Change (ss_Counts s))
     @ int_cell (ct_Delete (ss_Counts s)) @ int_cell (ct_Replace (ss_Counts s))"

definition stack_cells :: "StackSummary \<Rightarrow> string" where
  "stack_cells s = ''| '' @ summary_Ref s @ '' | '' @ envOrDash (ss_Env s) @ '' | '' @ counts_cells s"

definition detail_cell :: "renderOpts \<Rightarrow> StackSummary \<Rightarrow> string" where
  "detail_cell o1 s = (if paginated o1 then '' | '' @ partCell o1 (summary_Ref s) else '''') @ '' |'' @ nl"

definition rule_row :: "nat \<Rightarrow> string" where
  "rule_row columns = ''|'' @ concat (replicate columns ''---|'') @ nl"

definition section_title :: "string \<Rightarrow> StackSummary \<Rightarrow> string" where
  "section_title cell s =
     ''---'' @ nl @ nl @ ''### '' @ summary_Ref s @ '' '' @ mdot @ '' '' @ envOrDash (ss_Env s) @ '' '' @ mdot @ '' '' @ cell @ nl @ nl"

definition counts_title :: "StackSummary \<Rightarrow> string" where
  "counts_title s =
     ''Summary ('' @ itoa (int (ct_Add (ss_Counts s))) @ '' add, '' @ itoa (int (ct_Change (ss_Counts s))) @ '' change, ''
     @ itoa (int (ct_Delete (ss_Counts s))) @ '' delete, '' @ itoa (int (ct_Replace (ss_Counts s))) @ '' replace)''"

subsection \<open>The preview board\<close>

record PreviewInput =
  rp_Op :: string
  rp_RunNumber :: int
  rp_CommitSHA :: string
  rp_DurationSec :: int
  rp_CIRunURL :: string
  rp_Stacks :: "StackSummary list"
  rp_SortMode :: string
  rp_StackView :: string
  rp_Notice :: string
  rp_Style :: string

definition plural_stacks :: "int \<Rightarrow> string" where
  "plural_stacks n = (if n = 1 then ''stack'' else ''stacks'')"

definition writeHeader :: "PreviewInput \<Rightarrow> string" where
  "writeHeader i =
     (let n = int (length (filter (\<lambda>s. ss_Status s \<noteq> StatusNoOp) (rp_Stacks i))) in
      ''## '' @ overallIcon (rp_Stacks i) @ '' reeve '' @ mdot @ '' '' @ (if rp_Op i = '''' then ''preview'' else rp_Op i)
      @ '' '' @ mdot @ '' '' @ runRef (rp_RunNumber i) (rp_CIRunURL i) @ '' '' @ mdot @ '' [commit ''
      @ render_shortSHA (rp_CommitSHA i) @ '']'' @ nl @ nl
      @ ''**'' @ itoa n @ '' '' @ plural_stacks n @ '' changed**'' @ duration_bit (rp_DurationSec i) @ nl @ nl)"

definition preview_columns :: string where
  "preview_columns =
     ''| Stack | Env | '' @ heavy_plus @ '' Add | '' @ cycle_arrows @ '' Change | '' @ heavy_minus @ '' Delete | ''
     @ repeat_arrows @ '' Replace | Status''"

definition preview_row :: "renderOpts \<Rightarrow> StackSummary \<Rightarrow> string" where
  "preview_row o1 s = stack_cells s @ statusCell s @ detail_cell o1 s"

definition table_legend :: string where
  "table_legend =
     ''<sub>Legend: `+` create '' @ mdot @ '' `~` update in place '' @ mdot @ '' `-` delete '' @ mdot @ '' `''
     @ plusminus @ ''` replace (delete & recreate)</sub>'' @ nl @ nl"

definition writeTable :: "PreviewInput \<Rightarrow> renderOpts \<Rightarrow> string" where
  "writeTable i o1 =
     (if rp_Stacks i = [] then ''_No stacks affected by this change._'' @ nl @ nl
      else case tableRows sorted_stacks (tableSource o1 (rp_Stacks i)) (rp_StackView i) (rp_SortMode i) (rr_tableLimit o1) of
        (rows, hidden) \<Rightarrow>
          if rows = [] \<and> hidden = 0 then ''_No stacks with changes._'' @ nl @ nl
          else preview_columns @ (if paginated o1 then '' | Detail |'' @ nl @ rule_row 8 else '' |'' @ nl @ rule_row 7)
               @ concat (map (preview_row o1) rows)
               @ writeHiddenRowNote hidden (if paginated o1 then 8 else 7)
               @ nl @ table_legend
               @ (if list_ex (\<lambda>s. ct_Replace (ss_Counts s) > 0) rows
                  then warning_sign @ '' Replacements detected - review carefully.'' @ nl @ nl else ''''))"

definition preview_summary :: "StackSummary \<Rightarrow> string" where
  "preview_summary s =
     ''<details><summary>'' @ counts_title s @ ''</summary>'' @ nl @ nl @ fence @ ''diff'' @ nl @ ss_PlanSummary s @ nl
     @ fence @ nl @ nl @ ''</details>'' @ nl @ nl"

definition preview_section :: "(GateReason \<Rightarrow> string) \<Rightarrow> renderOpts \<Rightarrow> StackSummary \<Rightarrow> string" where
  "preview_section txt o1 s =
     section_title (statusCell s) s
     @ (if ss_Status s = StatusBlocked \<and> ss_BlockedBy s > 0 then ''  Queued behind #'' @ itoa (ss_BlockedBy s) @ ''.'' @ nl @ nl else '''')
     @ writeError (clampError o1 (ss_Error s))
     @ (if ss_RequiredApprovers s \<noteq> []
        then people @ '' **Required approvers:** '' @ Join (ss_RequiredApprovers s) '', '' @ nl @ nl else '''')
     @ (if ss_PlanSummary s \<noteq> '''' \<and> rr_Summary o1 then preview_summary s else '''')
     @ (if ss_PlanDiff s \<noteq> '''' \<and> rr_Diff o1 then fenced_details ''Diff'' (fence @ ''diff'') (ss_PlanDiff s) else '''')
     @ (if ss_FullPlan s \<noteq> '''' \<and> rr_FullPlan o1 then fenced_details ''Full plan output'' fence (ss_FullPlan s) else '''')
     @ gate_trace txt (summary_Ref s) (ss_Gates s)"

definition writeSections :: "(GateReason \<Rightarrow> string) \<Rightarrow> PreviewInput \<Rightarrow> renderOpts \<Rightarrow> string" where
  "writeSections txt i o1 = section_loop o1 (preview_section txt o1) (sorted_stacks (rp_Stacks i) (rp_SortMode i)) 0"

text \<open>Everything after the marker's line, then the whole body.\<close>

definition previewBody :: "(GateReason \<Rightarrow> string) \<Rightarrow> PreviewInput \<Rightarrow> renderOpts \<Rightarrow> string" where
  "previewBody txt i o1 =
     writeHeader i @ note_line o1
     @ (if rp_Notice i \<noteq> '''' then ''> '' @ info_sign @ '' '' @ rp_Notice i @ nl @ nl else '''')
     @ writePartHeader o1 @ (if rr_suppressTable o1 then '''' else writeTable i o1) @ writeSections txt i o1"

definition renderPreview :: "(GateReason \<Rightarrow> string) \<Rightarrow> PreviewInput \<Rightarrow> renderOpts \<Rightarrow> string" where
  "renderPreview txt i o1 = DashboardMarker (rp_Style i) (rp_CommitSHA i) @ nl @ previewBody txt i o1"

subsection \<open>The apply board\<close>

record BreakGlassNote =
  bn_Actor :: string
  bn_Justification :: string
  bn_AuthorizedVia :: string
  bn_Overridden :: "string list"
  bn_ConfigModifiedInPR :: bool

record ApplyBoard =
  rb_RunNumber :: int
  rb_CommitSHA :: string
  rb_DurationSec :: int
  rb_CIRunURL :: string
  rb_Stacks :: "StackSummary list"
  rb_SortMode :: string
  rb_Style :: string
  rb_StackView :: string
  rb_BreakGlass :: "BreakGlassNote option"

definition BreakGlassMarker :: string where "BreakGlassMarker = ''<!-- reeve:break-glass:v1 -->''"
definition breakGlassJustificationBudget :: nat where "breakGlassJustificationBudget = 4000"

definition justification_cut_note :: string where
  "justification_cut_note = nl @ ellipsis @ '' justification truncated; see the run log.''"

text \<open>The cut moves back to the start of a rune; \<open>cont\<close> is the negation of \<open>utf8.RuneStart\<close>.\<close>

fun rune_start_before :: "string \<Rightarrow> nat \<Rightarrow> nat" where
  "rune_start_before msg 0 = 0"
| "rune_start_before msg (Suc k) = (if cont (msg ! Suc k) then rune_start_before msg k else Suc k)"

definition clampJustification :: "string \<Rightarrow> string" where
  "clampJustification msg =
     (if length msg \<le> breakGlassJustificationBudget then msg
      else take (rune_start_before msg (breakGlassJustificationBudget - length justification_cut_note)) msg
           @ justification_cut_note)"

definition renderBreakGlassNote :: "BreakGlassNote \<Rightarrow> string" where
  "renderBreakGlassNote n =
     BreakGlassMarker @ nl @ ''> [!WARNING]'' @ nl
     @ ''> ### '' @ siren @ '' BREAK-GLASS APPLY '' @ em_dash @ '' emergency override'' @ nl
     @ ''> This run was forced past reeve'' @ [CHR 0x27] @ ''s normal gates. Review it after the fire is out.'' @ nl @ ''>'' @ nl
     @ ''> **Actor:** @'' @ TrimPrefix (bn_Actor n) ''@'' @ '' '' @ mdot @ '' **Authorized via:** `'' @ bn_AuthorizedVia n @ ''`''
     @ '' '' @ mdot @ '' **Overridden gates:** ''
     @ (if bn_Overridden n \<noteq> [] then Join (map (\<lambda>g. ''`'' @ g @ ''`'') (bn_Overridden n)) '', ''
        else ''none (all gates would have passed)'') @ nl
     @ (if bn_ConfigModifiedInPR n
        then ''>'' @ nl @ ''> '' @ warning_sign @ '' **The break-glass config or CODEOWNERS was modified in this same PR.**''
             @ '' Authorization is head-resolved by design '' @ em_dash @ '' verify the change was legitimate.'' @ nl
        else '''')
     @ ''>'' @ nl @ ''> **Justification:**'' @ nl
     @ concat (map (\<lambda>l. ''> > '' @ l @ nl)
                 (Split_char (CHR 0x0A) (TrimSpace (clampJustification (bn_Justification n))))) @ nl"

definition headline_part :: "int \<Rightarrow> string \<Rightarrow> string list" where
  "headline_part n label = (if n > 0 then [itoa n @ '' '' @ plural_stacks n @ '' '' @ label] else [])"

definition status_count :: "string \<Rightarrow> StackSummary list \<Rightarrow> int" where
  "status_count st ss = int (length (filter (\<lambda>s. ss_Status s = st) ss))"

definition applyHeadline :: "StackSummary list \<Rightarrow> string" where
  "applyHeadline ss =
     (if ss = [] then ''No stacks applied''
      else let failed = status_count StatusError ss; blocked = status_count StatusBlocked ss; noop = status_count StatusNoOp ss;
               applied = int (length ss) - failed - blocked - noop
           in Join (headline_part failed ''failed'' @ headline_part blocked ''blocked'' @ headline_part applied ''applied''
                    @ headline_part noop ''unchanged'') ('' '' @ mdot @ '' ''))"

definition duration_cell :: "StackSummary \<Rightarrow> string" where
  "duration_cell s = (if ss_DurationMS s > 0 then itoa (ss_DurationMS s div 1000) @ ''s'' else '''')"

definition apply_row :: "renderOpts \<Rightarrow> StackSummary \<Rightarrow> string" where
  "apply_row o1 s = stack_cells s @ duration_cell s @ '' | '' @ applyStatusCell s @ detail_cell o1 s"

definition apply_columns :: string where
  "apply_columns =
     ''| Stack | Env | '' @ heavy_plus @ '' Add | '' @ cycle_arrows @ '' Change | '' @ heavy_minus @ '' Delete | ''
     @ repeat_arrows @ '' Replace | Duration | Status''"

text \<open>The apply and the refresh comment share the shape of the table and of the sections.\<close>

definition apply_table :: "string \<Rightarrow> StackSummary list \<Rightarrow> string \<Rightarrow> string \<Rightarrow> renderOpts \<Rightarrow> string" where
  "apply_table columns stacks view sortMode o1 =
     (case tableRows sortApply (tableSource o1 stacks) view sortMode (rr_tableLimit o1) of
        (rows, hidden) \<Rightarrow>
          columns @ (if paginated o1 then '' | Detail |'' @ nl @ rule_row 9 else '' |'' @ nl @ rule_row 8)
          @ concat (map (apply_row o1) rows)
          @ writeHiddenRowNote hidden (if paginated o1 then 9 else 8) @ nl)"

definition blocked_reason :: "(GateReason \<Rightarrow> string) \<Rightarrow> StackSummary \<Rightarrow> string" where
  "blocked_reason txt s =
     (if ss_Status s = StatusBlocked
      then case filter (\<lambda>g. gt_Outcome g = ''fail'') (ss_Gates s) of
             [] \<Rightarrow> ''''
           | g # _ \<Rightarrow> ''**Blocked:** '' @ txt (gt_Reason g) @ '' (`'' @ gt_Gate g @ ''`)'' @ nl @ nl
      else '''')"

definition plain_details :: "string \<Rightarrow> string \<Rightarrow> string" where
  "plain_details title content =
     ''<details><summary>'' @ title @ ''</summary>'' @ nl @ nl @ content @ nl @ nl @ ''</details>'' @ nl @ nl"

definition outcome_section ::
  "(GateReason \<Rightarrow> string) \<Rightarrow> (StackSummary \<Rightarrow> string) \<Rightarrow> string \<Rightarrow> renderOpts \<Rightarrow> StackSummary \<Rightarrow> string" where
  "outcome_section txt summary_title output_title o1 s =
     section_title (applyStatusCell s) s @ blocked_reason txt s @ writeError (clampError o1 (ss_Error s))
     @ (if ss_PlanSummary s \<noteq> '''' \<and> rr_Summary o1 then plain_details (summary_title s) (ss_PlanSummary s) else '''')
     @ (if ss_FullPlan s \<noteq> '''' \<and> rr_FullPlan o1 then fenced_details output_title fence (ss_FullPlan s) else '''')"

definition applyBody :: "(GateReason \<Rightarrow> string) \<Rightarrow> ApplyBoard \<Rightarrow> renderOpts \<Rightarrow> string" where
  "applyBody txt i o1 =
     ''## '' @ (if rb_BreakGlass i \<noteq> None then siren else overallIcon (rb_Stacks i)) @ '' reeve '' @ mdot @ '' apply '' @ mdot
     @ '' '' @ runRef (rb_RunNumber i) (rb_CIRunURL i) @ '' '' @ mdot @ '' [commit '' @ render_shortSHA (rb_CommitSHA i) @ '']'' @ nl @ nl
     @ (case rb_BreakGlass i of None \<Rightarrow> '''' | Some n \<Rightarrow> renderBreakGlassNote n)
     @ ''**'' @ applyHeadline (rb_Stacks i) @ ''**'' @ duration_bit (rb_DurationSec i) @ nl @ nl
     @ writePartHeader o1 @ note_line o1
     @ (if rb_Stacks i = [] then ''''
        else (if rr_suppressTable o1 then ''''
              else apply_table apply_columns (rb_Stacks i) (rb_StackView i) (rb_SortMode i) o1)
             @ section_loop o1 (outcome_section txt counts_title ''Full apply output'' o1)
                 (sortApply (tableStacks (rb_Stacks i) StackViewAll) (rb_SortMode i)) 0)"

definition renderApply :: "(GateReason \<Rightarrow> string) \<Rightarrow> ApplyBoard \<Rightarrow> renderOpts \<Rightarrow> string" where
  "renderApply txt i o1 = DashboardMarker (rb_Style i) (rb_CommitSHA i) @ nl @ applyBody txt i o1"

subsection \<open>The refresh comment\<close>

record RefreshBoard =
  rf_RunNumber :: int
  rf_CommitSHA :: string
  rf_DurationSec :: int
  rf_CIRunURL :: string
  rf_DryRun :: bool
  rf_Stacks :: "StackSummary list"
  rf_SortMode :: string
  rf_StackView :: string

definition RefreshMarker :: string where "RefreshMarker = ''<!-- reeve:refresh:v1 -->''"

definition refresh_columns :: string where
  "refresh_columns =
     ''| Stack | Env | '' @ heavy_plus @ '' Added to state | '' @ cycle_arrows @ '' Updated | '' @ heavy_minus @ '' Dropped | ''
     @ repeat_arrows @ '' Replaced | Duration | Status''"

definition refresh_banner :: "bool \<Rightarrow> string" where
  "refresh_banner dryRun =
     ''> [!NOTE]'' @ nl
     @ (if dryRun
        then ''> Read-only. Counts are what a refresh **would** reconcile between engine state and live infrastructure.''
             @ '' No state was written and no infrastructure was touched.''
        else ''> Counts are **state reconciliation**, not infrastructure change. A delete here means the resource was already''
             @ '' gone from the provider and has been dropped from state '' @ em_dash @ '' reeve destroyed nothing.'')
     @ nl @ nl"

definition refreshBody :: "(GateReason \<Rightarrow> string) \<Rightarrow> RefreshBoard \<Rightarrow> renderOpts \<Rightarrow> string" where
  "refreshBody txt i o1 =
     ''## '' @ overallIcon (rf_Stacks i) @ '' reeve '' @ mdot @ '' '' @ (if rf_DryRun i then ''refresh (dry run)'' else ''refresh'')
     @ '' '' @ mdot @ '' '' @ runRef (rf_RunNumber i) (rf_CIRunURL i) @ '' '' @ mdot @ '' [commit ''
     @ render_shortSHA (rf_CommitSHA i) @ '']'' @ nl @ nl
     @ refresh_banner (rf_DryRun i)
     @ ''**'' @ itoa (int (length (rf_Stacks i))) @ '' '' @ plural_stacks (int (length (rf_Stacks i))) @ '' refreshed**''
     @ duration_bit (rf_DurationSec i) @ nl @ nl
     @ writePartHeader o1 @ note_line o1
     @ (if rf_Stacks i = [] then ''_No stacks refreshed._'' @ nl
        else (if rr_suppressTable o1 then ''''
              else apply_table refresh_columns (rf_Stacks i) (rf_StackView i) (rf_SortMode i) o1)
             @ section_loop o1 (outcome_section txt (\<lambda>_. ''Reconciled resources'') ''Full refresh output'' o1)
                 (sortApply (tableStacks (rf_Stacks i) StackViewAll) (rf_SortMode i)) 0)"

definition renderRefresh :: "(GateReason \<Rightarrow> string) \<Rightarrow> RefreshBoard \<Rightarrow> renderOpts \<Rightarrow> string" where
  "renderRefresh txt i o1 = RefreshMarker @ nl @ refreshBody txt i o1"

end
