(* ===== verification/TrimLadder.thy ===== *)
theory TrimLadder
  imports RenderBoards
begin

text \<open>
  The trim ladder of \<open>internal/core/render/trim.go\<close>: what a comment that is too long gives up, rung by rung, and what the
  run log (\<open>internal/run/trim_log.go\<close>) takes over. The ladder is the client of the contract \<open>comment_renderer\<close>; the
  preview, apply and refresh boards provide it.
\<close>

subsection \<open>The binary searches\<close>

function bin_search :: "(int \<Rightarrow> bool) \<Rightarrow> int \<Rightarrow> int \<Rightarrow> int" where
  "bin_search fits lo hi =
     (if lo < hi
      then let mid = (lo + hi + 1) div 2 in if fits mid then bin_search fits mid hi else bin_search fits lo (mid - 1)
      else lo)"
  by pat_completeness auto
termination by (relation "measure (\<lambda>(fits, lo, hi). nat (hi - lo))") auto

declare bin_search.simps [simp del]

definition fitSections :: "(renderOpts \<Rightarrow> string) \<Rightarrow> renderOpts \<Rightarrow> string list \<Rightarrow> int \<Rightarrow> string list \<times> int" where
  "fitSections render base refs limit =
     (let n = bin_search (\<lambda>n. int (length (render (base\<lparr>rr_keepStacks := Some (take (nat n) refs)\<rparr>))) \<le> limit) 0 (int (length refs))
      in (take (nat n) refs, int (length refs) - n))"

definition fitTable :: "(renderOpts \<Rightarrow> string) \<Rightarrow> renderOpts \<Rightarrow> int \<Rightarrow> int \<Rightarrow> int \<times> int" where
  "fitTable render base nrows limit =
     (let lo = bin_search (\<lambda>n. int (length (render (base\<lparr>rr_tableLimit := n\<rparr>))) \<le> limit) 1 nrows
      in if int (length (render (base\<lparr>rr_tableLimit := lo\<rparr>))) > limit then (lo, nrows) else (lo, nrows - lo))"

subsection \<open>The ladder\<close>

text \<open>A rung's gates layered onto the caller's options.\<close>

definition with_base :: "renderOpts \<Rightarrow> renderOpts \<Rightarrow> renderOpts" where
  "with_base base o1 =
     base\<lparr>rr_FullPlan := rr_FullPlan o1, rr_Diff := rr_Diff o1, rr_Summary := rr_Summary o1,
          rr_errorBudget := rr_errorBudget o1, rr_keepStacks := rr_keepStacks o1, rr_tableLimit := rr_tableLimit o1,
          rr_note := rr_note o1\<rparr>"

definition noteFor :: "(string \<Rightarrow> string) \<Rightarrow> string \<Rightarrow> bool \<Rightarrow> Trim \<Rightarrow> string" where
  "noteFor note label silent t =
     (let phrase = omittedPhrase t label silent in if phrase = '''' then '''' else note phrase)"

definition comment_limit :: "renderOpts \<Rightarrow> int" where
  "comment_limit base = (if rr_commentLimit base \<le> 0 then githubCommentMaxLen else rr_commentLimit base)"

text \<open>Rung 6: table rows.\<close>

definition rows_rung ::
  "(renderOpts \<Rightarrow> string) \<Rightarrow> (Trim \<Rightarrow> string) \<Rightarrow> int \<Rightarrow> int \<Rightarrow> Trim \<Rightarrow> renderOpts \<Rightarrow> string \<times> Trim" where
  "rows_rung render note_for nrows limit t5 rung =
     (case fitTable render (rung\<lparr>rr_note := note_for (t5\<lparr>tm_Rows := nrows\<rparr>)\<rparr>) nrows limit of
        (rows, droppedRows) \<Rightarrow>
          let t6 = t5\<lparr>tm_Rows := droppedRows\<rparr> in (render (rung\<lparr>rr_tableLimit := rows, rr_note := note_for t6\<rparr>), t6))"

text \<open>Rung 5: whole sections.\<close>

definition low_rungs ::
  "(renderOpts \<Rightarrow> string) \<Rightarrow> (Trim \<Rightarrow> string) \<Rightarrow> string list \<Rightarrow> int \<Rightarrow> int \<Rightarrow> Trim \<Rightarrow> string \<times> Trim" where
  "low_rungs render note_for refs nrows limit t4 =
     (let rung = no_opts\<lparr>rr_errorBudget := perStackErrorBudget, rr_note := note_for (t4\<lparr>tm_Sections := int (length refs)\<rparr>)\<rparr>
      in case fitSections render rung refs limit of
        (keep, droppedSections) \<Rightarrow>
          let t5 = t4\<lparr>tm_Sections := droppedSections\<rparr>;
              rung5 = rung\<lparr>rr_keepStacks := Some keep, rr_note := (if droppedSections > 0 then note_for t5 else rr_note rung)\<rparr>
          in if int (length (render rung5)) \<le> limit then (render rung5, t5)
             else rows_rung render note_for nrows limit t5 rung5)"

definition descendWithBase ::
  "(renderOpts \<Rightarrow> string) \<Rightarrow> (string \<Rightarrow> string) \<Rightarrow> stackOrder \<Rightarrow> StackSummary list \<Rightarrow> string \<Rightarrow> string \<Rightarrow> string \<Rightarrow> bool
     \<Rightarrow> renderOpts \<Rightarrow> string \<times> Trim" where
  "descendWithBase render0 note order stacks view sortMode label silent base =
     (let limit = comment_limit base;
          render = (\<lambda>o1. render0 (with_base base o1));
          fits = (\<lambda>o1. int (length (render o1)) \<le> limit);
          note_for = noteFor note label silent;
          o0 = no_opts\<lparr>rr_FullPlan := True, rr_Diff := True, rr_Summary := True\<rparr>;
          t1 = no_trim\<lparr>tm_FullPlan := True\<rparr>;
          o1 = no_opts\<lparr>rr_Diff := True, rr_Summary := True, rr_note := note_for t1\<rparr>;
          t2 = t1\<lparr>tm_Diff := True\<rparr>;
          o2 = no_opts\<lparr>rr_Summary := True, rr_note := note_for t2\<rparr>;
          t3 = t2\<lparr>tm_Summary := True\<rparr>;
          o3 = no_opts\<lparr>rr_note := note_for t3\<rparr>;
          t4 = t3\<lparr>tm_Errors := True\<rparr>;
          o4 = no_opts\<lparr>rr_errorBudget := perStackErrorBudget, rr_note := note_for t4\<rparr>
      in if fits o0 then (render o0, no_trim)
         else if fits o1 then (render o1, t1)
         else if fits o2 then (render o2, t2)
         else if fits o3 then (render o3, t3)
         else if fits o4 then (render o4, t4)
         else low_rungs render note_for (sectionRefs order stacks sortMode) (int (length (tableStacks stacks view))) limit t4)"

definition descend ::
  "(renderOpts \<Rightarrow> string) \<Rightarrow> (string \<Rightarrow> string) \<Rightarrow> stackOrder \<Rightarrow> StackSummary list \<Rightarrow> string \<Rightarrow> string \<Rightarrow> string \<Rightarrow> bool
     \<Rightarrow> string \<times> Trim" where
  "descend render note order stacks view sortMode label silent =
     descendWithBase render note order stacks view sortMode label silent no_opts"

definition PreviewTrimmed :: "(GateReason \<Rightarrow> string) \<Rightarrow> PreviewInput \<Rightarrow> string \<times> Trim" where
  "PreviewTrimmed txt i =
     descend (renderPreview txt i) (omission_note (rp_CIRunURL i)) sorted_stacks (rp_Stacks i) (rp_StackView i)
       (rp_SortMode i) ''full plan output'' True"

definition ApplyTrimmed :: "(GateReason \<Rightarrow> string) \<Rightarrow> ApplyBoard \<Rightarrow> string \<times> Trim" where
  "ApplyTrimmed txt i =
     descend (renderApply txt i) (omission_note (rb_CIRunURL i)) sortApply (rb_Stacks i) (rb_StackView i)
       (rb_SortMode i) ''full apply output'' False"

definition RefreshTrimmed :: "(GateReason \<Rightarrow> string) \<Rightarrow> RefreshBoard \<Rightarrow> string \<times> Trim" where
  "RefreshTrimmed txt i =
     descend (renderRefresh txt i) (omission_note (rf_CIRunURL i)) sortApply (rf_Stacks i) (rf_StackView i)
       (rf_SortMode i) ''full refresh output'' False"

subsection \<open>The run log\<close>

datatype TrimLog =
    LogTrimmed string Trim
  | LogError string string string
  | LogDiff string string string
  | LogSummary string string string
  | LogOutput string string string

definition log_stack :: "string \<Rightarrow> Trim \<Rightarrow> StackSummary \<Rightarrow> TrimLog list" where
  "log_stack op t s =
     (if ss_Error s \<noteq> '''' \<and> (tm_Errors t \<or> tm_Sections t > 0 \<or> tm_Rows t > 0) then [LogError op (summary_Ref s) (ss_Error s)] else [])
     @ (if ss_PlanDiff s \<noteq> '''' \<and> tm_Diff t then [LogDiff op (summary_Ref s) (ss_PlanDiff s)] else [])
     @ (if ss_PlanSummary s \<noteq> '''' \<and> tm_Summary t then [LogSummary op (summary_Ref s) (ss_PlanSummary s)] else [])
     @ (if ss_FullPlan s \<noteq> '''' \<and> op \<noteq> ''preview'' \<and> tm_FullPlan t then [LogOutput op (summary_Ref s) (ss_FullPlan s)] else [])"

definition logTrimmed :: "string \<Rightarrow> StackSummary list \<Rightarrow> Trim \<Rightarrow> TrimLog list" where
  "logTrimmed op stacks t =
     (if \<not> Lost t \<and> \<not> (tm_FullPlan t \<and> op \<noteq> ''preview'') then []
      else LogTrimmed op t # concat (map (log_stack op t) stacks))"

subsection \<open>The contract of a renderer, and what the ladder makes of it\<close>

locale comment_renderer =
  fixes render :: "renderOpts \<Rightarrow> string" and banner :: "string \<Rightarrow> string" and order :: stackOrder
    and stacks :: "StackSummary list" and sortMode :: string
  assumes note_mono: "length a \<le> length b \<Longrightarrow> length (render (o1\<lparr>rr_note := a\<rparr>)) \<le> length (render (o1\<lparr>rr_note := b\<rparr>))"
    and note_shown: "sublist (note_line o1) (render o1)"
    and keep_all: "render (o1\<lparr>rr_keepStacks := Some (sectionRefs order stacks sortMode)\<rparr>) = render (o1\<lparr>rr_keepStacks := None\<rparr>)"
    and wording_mono: "length a \<le> length b \<Longrightarrow> length (banner a) \<le> length (banner b)"
    and wording_nonempty: "banner a \<noteq> ''''"
    and error_shown: "s \<in> set stacks \<Longrightarrow> ss_Status s \<noteq> StatusNoOp \<Longrightarrow> sectionRendered o1 (summary_Ref s)
      \<Longrightarrow> sublist (writeError (clampError o1 (ss_Error s))) (render o1)"
    and summary_shown: "s \<in> set stacks \<Longrightarrow> ss_Status s \<noteq> StatusNoOp \<Longrightarrow> sectionRendered o1 (summary_Ref s)
      \<Longrightarrow> rr_Summary o1 \<Longrightarrow> sublist (ss_PlanSummary s) (render o1)"
    and output_shown: "s \<in> set stacks \<Longrightarrow> ss_Status s \<noteq> StatusNoOp \<Longrightarrow> sectionRendered o1 (summary_Ref s)
      \<Longrightarrow> rr_FullPlan o1 \<Longrightarrow> sublist (ss_FullPlan s) (render o1)"

locale diff_renderer = comment_renderer +
  assumes diff_shown: "s \<in> set stacks \<Longrightarrow> ss_Status s \<noteq> StatusNoOp \<Longrightarrow> sectionRendered o1 (summary_Ref s)
      \<Longrightarrow> rr_Diff o1 \<Longrightarrow> sublist (ss_PlanDiff s) (render o1)"

lemma bin_search_result: "bin_search fits lo hi = lo \<or> fits (bin_search fits lo hi)"
proof (induction fits lo hi rule: bin_search.induct)
  case (1 fits lo hi)
  then show ?case
    by (cases "lo < hi"; cases "fits ((lo + hi + 1) div 2)")
      (simp_all add: bin_search.simps [of fits lo hi] Let_def, metis)
qed

lemma bin_search_range: "lo \<le> bin_search fits lo hi \<and> bin_search fits lo hi \<le> max lo hi"
proof (induction fits lo hi rule: bin_search.induct)
  case (1 fits lo hi)
  show ?case
  proof (cases "lo < hi")
    case True
    let ?mid = "(lo + hi + 1) div 2"
    have "lo < ?mid" "?mid \<le> hi" using True by simp_all
    with 1 True show ?thesis
      by (cases "fits ?mid") (simp_all add: bin_search.simps [of fits lo hi] Let_def)
  qed (simp add: bin_search.simps [of fits lo hi])
qed

lemma opts_commute: "o1\<lparr>rr_note := n, rr_tableLimit := k\<rparr> = o1\<lparr>rr_tableLimit := k, rr_note := n\<rparr>"
  by simp

lemma with_base_simps [simp]:
  "rr_note (with_base base o1) = rr_note o1" "rr_FullPlan (with_base base o1) = rr_FullPlan o1"
  "rr_Diff (with_base base o1) = rr_Diff o1" "rr_Summary (with_base base o1) = rr_Summary o1"
  "rr_errorBudget (with_base base o1) = rr_errorBudget o1" "rr_keepStacks (with_base base o1) = rr_keepStacks o1"
  "rr_tableLimit (with_base base o1) = rr_tableLimit o1"
  "with_base base (o1\<lparr>rr_note := n\<rparr>) = (with_base base o1)\<lparr>rr_note := n\<rparr>"
  "with_base base (o1\<lparr>rr_keepStacks := k\<rparr>) = (with_base base o1)\<lparr>rr_keepStacks := k\<rparr>"
  by (simp_all add: with_base_def)

lemma with_base_note [simp]: "note_line (with_base base o1) = note_line o1"
  by (auto simp: note_line_def)

lemma with_base_clamp [simp]: "clampError (with_base base o1) msg = clampError o1 msg"
  by (auto simp: clampError_def)

lemma with_no_opts: "with_base no_opts o1 = no_opts\<lparr>rr_FullPlan := rr_FullPlan o1, rr_Diff := rr_Diff o1,
    rr_Summary := rr_Summary o1, rr_errorBudget := rr_errorBudget o1, rr_keepStacks := rr_keepStacks o1,
    rr_tableLimit := rr_tableLimit o1, rr_note := rr_note o1\<rparr>"
  by (simp add: with_base_def)

lemma no_opts_simps [simp]:
  "\<not> rr_FullPlan no_opts" "\<not> rr_Diff no_opts" "\<not> rr_Summary no_opts" "rr_errorBudget no_opts = 0"
  "rr_keepStacks no_opts = None" "rr_tableLimit no_opts = 0" "rr_note no_opts = ''''"
  by (simp_all add: no_opts_def)

lemma no_trim_simps [simp]:
  "\<not> tm_FullPlan no_trim" "\<not> tm_Diff no_trim" "\<not> tm_Summary no_trim" "\<not> tm_Errors no_trim"
  "tm_Sections no_trim = 0" "tm_Rows no_trim = 0"
  by (simp_all add: no_trim_def)

lemma phrase_more_sections:
  "tm_Sections t \<le> 0 \<Longrightarrow>
     length (omittedPhrase t label silent) \<le> length (omittedPhrase (t\<lparr>tm_Sections := n\<rparr>) label silent)"
  by (cases "tm_Errors t"; cases "n > 0"; cases "tm_Rows t > 0"; simp add: omittedPhrase_def Let_def)

lemma phrase_more_rows:
  "a \<le> b \<Longrightarrow>
     length (omittedPhrase (t\<lparr>tm_Rows := a\<rparr>) label silent) \<le> length (omittedPhrase (t\<lparr>tm_Rows := b\<rparr>) label silent)"
  by (cases "tm_Errors t"; cases "tm_Sections t > 0"; cases "a > 0"; cases "b > 0"; simp add: omittedPhrase_def Let_def)

lemma phrase_cong:
  "(a > 0) = (b > 0) \<Longrightarrow>
     omittedPhrase (t\<lparr>tm_Sections := a, tm_Rows := k\<rparr>) label silent = omittedPhrase (t\<lparr>tm_Sections := b, tm_Rows := k\<rparr>) label silent"
  by (simp add: omittedPhrase_def)

text \<open>What a report says of the options a body was rendered under.\<close>

definition honest :: "(Trim \<Rightarrow> string) \<Rightarrow> Trim \<Rightarrow> renderOpts \<Rightarrow> bool" where
  "honest note_for t o1 \<longleftrightarrow>
     rr_note o1 = note_for t \<and> (tm_FullPlan t \<or> rr_FullPlan o1) \<and> (tm_Diff t \<or> rr_Diff o1) \<and> (tm_Summary t \<or> rr_Summary o1)
     \<and> (tm_Errors t \<or> rr_errorBudget o1 \<le> 0)
     \<and> (rr_keepStacks o1 = None \<or> tm_Sections t > 0 \<and> tm_Errors t \<and> tm_Diff t \<and> tm_Summary t \<and> tm_FullPlan t)"

definition floor_opts :: "string \<Rightarrow> renderOpts" where
  "floor_opts n = no_opts\<lparr>rr_errorBudget := perStackErrorBudget, rr_keepStacks := Some [], rr_tableLimit := 1, rr_note := n\<rparr>"

context comment_renderer
begin

lemma noteFor_mono:
  "length (omittedPhrase s label silent) \<le> length (omittedPhrase t label silent)
   \<Longrightarrow> length (noteFor banner label silent s) \<le> length (noteFor banner label silent t)"
  using wording_mono by (auto simp: noteFor_def Let_def)

lemma based: "comment_renderer (\<lambda>o1. render (with_base base o1)) banner order stacks sortMode"
proof
  fix a b :: string and o1
  show "length a \<le> length b \<Longrightarrow>
      length (render (with_base base (o1\<lparr>rr_note := a\<rparr>))) \<le> length (render (with_base base (o1\<lparr>rr_note := b\<rparr>)))"
    using note_mono [of a b "with_base base o1"] by simp
  show "sublist (note_line o1) (render (with_base base o1))"
    using note_shown [of "with_base base o1"] by simp
  show "render (with_base base (o1\<lparr>rr_keepStacks := Some (sectionRefs order stacks sortMode)\<rparr>))
      = render (with_base base (o1\<lparr>rr_keepStacks := None\<rparr>))"
    using keep_all [of "with_base base o1"] by simp
  show "length a \<le> length b \<Longrightarrow> length (banner a) \<le> length (banner b)" by (rule wording_mono)
  show "banner a \<noteq> ''''" by (rule wording_nonempty)
next
  fix s o1
  assume s: "s \<in> set stacks" "ss_Status s \<noteq> StatusNoOp" "sectionRendered o1 (summary_Ref s)"
  then have r: "sectionRendered (with_base base o1) (summary_Ref s)" by (simp add: sectionRendered_def)
  show "sublist (writeError (clampError o1 (ss_Error s))) (render (with_base base o1))"
    using error_shown [OF s(1,2) r] by simp
  show "rr_Summary o1 \<Longrightarrow> sublist (ss_PlanSummary s) (render (with_base base o1))"
    using summary_shown [OF s(1,2) r] by simp
  show "rr_FullPlan o1 \<Longrightarrow> sublist (ss_FullPlan s) (render (with_base base o1))"
    using output_shown [OF s(1,2) r] by simp
qed

end

context comment_renderer
begin

lemma rows_rung_result:
  assumes "rows_rung render (noteFor banner label silent) nrows limit t5 rung = (body, t)"
  obtains lo d where "t = t5\<lparr>tm_Rows := d\<rparr>" "body = render (rung\<lparr>rr_tableLimit := lo, rr_note := noteFor banner label silent t\<rparr>)"
    "int (length body) \<le> limit \<or> lo = 1 \<and> d = nrows"
proof -
  let ?N = "noteFor banner label silent"
  define m where "m = ?N (t5\<lparr>tm_Rows := nrows\<rparr>)"
  define fits where "fits = (\<lambda>k. int (length (render (rung\<lparr>rr_note := m, rr_tableLimit := k\<rparr>))) \<le> limit)"
  define lo where "lo = bin_search fits 1 nrows"
  have lo: "1 \<le> lo" "lo = 1 \<or> fits lo"
    using bin_search_range [of 1 fits nrows] bin_search_result [of fits 1 nrows] by (simp_all add: lo_def)
  define d where "d = (if fits lo then nrows - lo else nrows)"
  have "fitTable render (rung\<lparr>rr_note := m\<rparr>) nrows limit = (lo, d)"
    by (simp add: fitTable_def fits_def [symmetric] lo_def [symmetric] Let_def d_def) (simp add: fits_def)
  then have t: "t = t5\<lparr>tm_Rows := d\<rparr>" and b: "body = render (rung\<lparr>rr_tableLimit := lo, rr_note := ?N t\<rparr>)"
    using assms by (auto simp: rows_rung_def m_def Let_def)
  have "int (length body) \<le> limit" if "fits lo"
  proof -
    have "length (?N t) \<le> length m"
      using noteFor_mono phrase_more_rows [of d nrows] lo(1) that by (simp add: t m_def d_def)
    then have "length body \<le> length (render (rung\<lparr>rr_note := m, rr_tableLimit := lo\<rparr>))"
      using note_mono [of _ m "rung\<lparr>rr_tableLimit := lo\<rparr>"] by (simp add: b opts_commute)
    with that show ?thesis by (simp add: fits_def opts_commute)
  qed
  with lo(2) show thesis by (intro that [OF t b]) (auto simp: d_def)
qed

text \<open>Rung 5 keeps a non-empty prefix only when it fits, and then drops something.\<close>

lemma low_rungs_result:
  fixes label silent t4
  defines "N \<equiv> noteFor banner label silent" and "refs \<equiv> sectionRefs order stacks sortMode"
  defines "R \<equiv> (\<lambda>keep. no_opts\<lparr>rr_errorBudget := perStackErrorBudget, rr_keepStacks := Some keep,
                                rr_note := N (t4\<lparr>tm_Sections := int (length refs)\<rparr>)\<rparr>)"
  assumes "\<not> int (length (render (no_opts\<lparr>rr_errorBudget := perStackErrorBudget, rr_note := N t4\<rparr>))) \<le> limit"
    and "tm_Sections t4 = 0"
  obtains keep d where
    "low_rungs render N refs nrows limit t4 =
       (if int (length (render (R keep))) \<le> limit then (render (R keep), t4\<lparr>tm_Sections := d\<rparr>)
        else rows_rung render N nrows limit (t4\<lparr>tm_Sections := d\<rparr>) (R keep))"
    "d > 0 \<or> refs = [] \<and> d = 0" "\<And>k. d > 0 \<Longrightarrow> N (t4\<lparr>tm_Sections := d, tm_Rows := k\<rparr>) = N (t4\<lparr>tm_Sections := int (length refs), tm_Rows := k\<rparr>)"
    "refs = [] \<or> keep = [] \<or> int (length (render (R keep))) \<le> limit" "refs = [] \<Longrightarrow> keep = []"
proof -
  define fits where "fits = (\<lambda>n. int (length (render (R (take (nat n) refs)))) \<le> limit)"
  define n where "n = bin_search fits 0 (int (length refs))"
  have n: "0 \<le> n" "n \<le> int (length refs)" "n = 0 \<or> fits n"
    using bin_search_range [of 0 fits "int (length refs)"] bin_search_result [of fits 0 "int (length refs)"] by (auto simp: n_def)
  let ?d = "int (length refs) - n" and ?keep = "take (nat n) refs"
  have same: "N (t4\<lparr>tm_Sections := ?d, tm_Rows := k\<rparr>) = N (t4\<lparr>tm_Sections := int (length refs), tm_Rows := k\<rparr>)"
    if "?d > 0" for k
    using that n(1) phrase_cong [of ?d "int (length refs)" k t4 label silent]
    by (cases refs) (simp_all add: N_def noteFor_def)
  have full: "\<not> fits (int (length refs))"
  proof
    assume f: "fits (int (length refs))"
    have "length (N t4) \<le> length (N (t4\<lparr>tm_Sections := int (length refs)\<rparr>))"
      using noteFor_mono phrase_more_sections [of t4] assms(5) by (simp add: N_def)
    then have "length (render (no_opts\<lparr>rr_errorBudget := perStackErrorBudget, rr_note := N t4\<rparr>))
        \<le> length (render ((R [])\<lparr>rr_keepStacks := None\<rparr>))"
      using note_mono [of "N t4" _ "no_opts\<lparr>rr_errorBudget := perStackErrorBudget\<rparr>"] by (simp add: R_def no_opts_def)
    also have "\<dots> = length (render (R refs))" using keep_all [of "R []"] by (simp add: R_def refs_def no_opts_def)
    finally show False using f assms(4) by (simp add: fits_def)
  qed
  then have d: "?d > 0 \<or> refs = [] \<and> ?d = 0" using n by (cases "n = int (length refs)") auto
  have keep: "fitSections render (no_opts\<lparr>rr_errorBudget := perStackErrorBudget, rr_note := N (t4\<lparr>tm_Sections := int (length refs)\<rparr>)\<rparr>)
      refs limit = (?keep, ?d)"
    by (simp add: fitSections_def n_def fits_def R_def no_opts_def Let_def)
  have "low_rungs render N refs nrows limit t4 =
       (if int (length (render (R ?keep))) \<le> limit then (render (R ?keep), t4\<lparr>tm_Sections := ?d\<rparr>)
        else rows_rung render N nrows limit (t4\<lparr>tm_Sections := ?d\<rparr>) (R ?keep))"
    using same [of "tm_Rows t4"]
    by (cases "?d > 0") (simp_all add: low_rungs_def keep Let_def, simp_all add: R_def no_opts_def)
  moreover have "refs = [] \<or> ?keep = [] \<or> int (length (render (R ?keep))) \<le> limit" using n(3) by (auto simp: fits_def)
  ultimately show thesis using d same that by auto
qed

end

context comment_renderer
begin

lemma low_rungs_final:
  assumes "low_rungs render (noteFor banner label silent) (sectionRefs order stacks sortMode) nrows limit t4 = (body, t)"
    and big: "\<not> int (length (render (no_opts\<lparr>rr_errorBudget := perStackErrorBudget, rr_note := noteFor banner label silent t4\<rparr>))) \<le> limit"
    and t4: "tm_FullPlan t4" "tm_Diff t4" "tm_Summary t4" "tm_Errors t4" "tm_Sections t4 = 0"
  shows "(\<exists>o1. body = render o1 \<and> honest (noteFor banner label silent) t o1)
    \<and> (int (length body) \<le> limit \<or> body = render (floor_opts (noteFor banner label silent t)))"
proof -
  let ?N = "noteFor banner label silent" and ?refs = "sectionRefs order stacks sortMode"
  let ?R = "\<lambda>keep. no_opts\<lparr>rr_errorBudget := perStackErrorBudget, rr_keepStacks := Some keep,
              rr_note := ?N (t4\<lparr>tm_Sections := int (length ?refs)\<rparr>)\<rparr>"
  from low_rungs_result [OF big t4(5), of nrows] obtain keep d where low:
    "low_rungs render ?N ?refs nrows limit t4 =
       (if int (length (render (?R keep))) \<le> limit then (render (?R keep), t4\<lparr>tm_Sections := d\<rparr>)
        else rows_rung render ?N nrows limit (t4\<lparr>tm_Sections := d\<rparr>) (?R keep))"
    and d: "d > 0 \<or> ?refs = [] \<and> d = 0"
    and same: "\<And>k. d > 0 \<Longrightarrow> ?N (t4\<lparr>tm_Sections := d, tm_Rows := k\<rparr>) = ?N (t4\<lparr>tm_Sections := int (length ?refs), tm_Rows := k\<rparr>)"
    and keep: "?refs = [] \<or> keep = [] \<or> int (length (render (?R keep))) \<le> limit" "?refs = [] \<Longrightarrow> keep = []"
    by blast
  have honest: "\<exists>o2. render o1 = render o2 \<and> honest ?N s o2"
    if "rr_keepStacks o1 = Some keep" "rr_errorBudget o1 = perStackErrorBudget" "rr_note o1 = ?N s" "s = t4\<lparr>tm_Sections := d, tm_Rows := k\<rparr>"
    for o1 s k
  proof (cases "d > 0")
    case True
    with that t4 have "honest ?N s o1" by (simp add: honest_def)
    then show ?thesis by blast
  next
    case False
    with d keep(2) that(1) have e: "o1 = o1\<lparr>rr_keepStacks := Some ?refs\<rparr>" by simp
    have "honest ?N s (o1\<lparr>rr_keepStacks := None\<rparr>)" using that t4 by (simp add: honest_def)
    then show ?thesis using e keep_all [of o1] by metis
  qed
  show ?thesis
  proof (cases "int (length (render (?R keep))) \<le> limit")
    case True
    with assms(1) low have b: "body = render (?R keep)" "t = t4\<lparr>tm_Sections := d, tm_Rows := tm_Rows t4\<rparr>" by auto
    have "rr_note (?R keep) = ?N t" using d same [of "tm_Rows t4"] b(2) t4(5) by auto
    with True b honest [OF _ _ _ b(2), of "?R keep"] show ?thesis by auto
  next
    case False
    with assms(1) low have "rows_rung render ?N nrows limit (t4\<lparr>tm_Sections := d\<rparr>) (?R keep) = (body, t)" by simp
    then obtain lo k where b: "t = t4\<lparr>tm_Sections := d\<rparr>\<lparr>tm_Rows := k\<rparr>" "body = render ((?R keep)\<lparr>rr_tableLimit := lo, rr_note := ?N t\<rparr>)"
      "int (length body) \<le> limit \<or> lo = 1 \<and> k = nrows"
      by (rule rows_rung_result)
    have "keep = []" using keep False by blast
    then have "(?R keep)\<lparr>rr_tableLimit := lo, rr_note := ?N t\<rparr> = floor_opts (?N t)" if "lo = 1"
      using that by (simp add: floor_opts_def no_opts_def)
    moreover have "\<exists>o2. body = render o2 \<and> honest ?N t o2" unfolding b(2) by (rule honest) (simp_all add: b(1))
    ultimately show ?thesis using b(2,3) by auto
  qed
qed

lemma no_trim_note: "noteFor word label silent no_trim = ''''"
  by (simp add: noteFor_def omittedPhrase_def)

lemma rung:
  assumes "(if int (length (r o1)) \<le> limit then (r o1, s) else rest) = (body, t)" and "honest N s o1"
    and "\<exists>o1. body = r o1 \<and> honest N t o1 \<and> int (length body) \<le> limit \<Longrightarrow> Q"
    and "rest = (body, t) \<Longrightarrow> \<not> int (length (r o1)) \<le> limit \<Longrightarrow> Q"
  shows Q
proof (cases "int (length (r o1)) \<le> limit")
  case True
  with assms(1) have "body = r o1" "t = s" by simp_all
  with assms(2,3) True show Q by blast
next
  case False
  with assms(1,4) show Q by simp
qed

text \<open>What comes out of the ladder was rendered under options the report is honest about, and fits or is the floor.\<close>

lemma descend_base_result:
  assumes "descendWithBase render banner order stacks view sortMode label silent base = (body, t)"
  shows "\<exists>o1. body = render (with_base base o1) \<and> honest (noteFor banner label silent) t o1"
    and "int (length body) \<le> comment_limit base \<or> body = render (with_base base (floor_opts (noteFor banner label silent t)))"
proof -
  let ?r = "\<lambda>o1. render (with_base base o1)" and ?N = "noteFor banner label silent"
  let ?t4 = "no_trim\<lparr>tm_FullPlan := True, tm_Diff := True, tm_Summary := True, tm_Errors := True\<rparr>"
  let ?low = "low_rungs ?r ?N (sectionRefs order stacks sortMode) (int (length (tableStacks stacks view))) (comment_limit base) ?t4"
  have "(\<exists>o1. body = ?r o1 \<and> honest ?N t o1)
      \<and> (int (length body) \<le> comment_limit base \<or> body = ?r (floor_opts (?N t)))"
  proof -
    have "(\<exists>o1. body = ?r o1 \<and> honest ?N t o1 \<and> int (length body) \<le> comment_limit base)
        \<or> ?low = (body, t) \<and> \<not> int (length (?r (no_opts\<lparr>rr_errorBudget := perStackErrorBudget, rr_note := ?N ?t4\<rparr>))) \<le> comment_limit base"
      using assms unfolding descendWithBase_def Let_def
      by (elim rung [where r = ?r and N = ?N]) (simp_all add: honest_def no_trim_note)
    then show ?thesis
      using comment_renderer.low_rungs_final [OF based, of base label silent "int (length (tableStacks stacks view))" "comment_limit base" ?t4 body t]
      by auto
  qed
  then show "\<exists>o1. body = ?r o1 \<and> honest ?N t o1"
    and "int (length body) \<le> comment_limit base \<or> body = ?r (floor_opts (?N t))" by blast+
qed

end

subsection \<open>The boards provide the contract\<close>

lemma sublist_mid: "sublist b (a @ b @ c)"
  by (simp add: sublist_appendI)

lemma sublist_left: "sublist x b \<Longrightarrow> sublist x (a @ b)" and sublist_right: "sublist x a \<Longrightarrow> sublist x (a @ b)"
  by (auto simp: sublist_def) (metis append_assoc)+

lemma section_loop_shown:
  "s \<in> set ss \<Longrightarrow> ss_Status s \<noteq> StatusNoOp \<Longrightarrow> sectionRendered o1 (summary_Ref s) \<Longrightarrow> sublist x (f s)
   \<Longrightarrow> sublist x (section_loop o1 f ss d)"
proof (induction o1 f ss d rule: section_loop.induct)
  case (2 o1 f s' ss d)
  then show ?case by (cases "s = s'") (auto intro: sublist_left sublist_right)
qed simp

lemma section_loop_cong:
  "(\<And>s. s \<in> set ss \<Longrightarrow> ss_Status s \<noteq> StatusNoOp \<Longrightarrow> sectionRendered o1 (summary_Ref s) = sectionRendered o2 (summary_Ref s))
   \<Longrightarrow> section_loop o1 f ss d = section_loop o2 f ss d"
  by (induction o1 f ss d rule: section_loop.induct) auto

text \<open>The options a renderer reads beside the note and the kept sections.\<close>

lemma option_reads [simp]:
  "tableSource (o1\<lparr>rr_note := n\<rparr>) own = tableSource o1 own" "tableSource (o1\<lparr>rr_keepStacks := k\<rparr>) own = tableSource o1 own"
  "paginated (o1\<lparr>rr_note := n\<rparr>) = paginated o1" "paginated (o1\<lparr>rr_keepStacks := k\<rparr>) = paginated o1"
  "writePartHeader (o1\<lparr>rr_note := n\<rparr>) = writePartHeader o1" "writePartHeader (o1\<lparr>rr_keepStacks := k\<rparr>) = writePartHeader o1"
  "partCell (o1\<lparr>rr_note := n\<rparr>) = partCell o1" "partCell (o1\<lparr>rr_keepStacks := k\<rparr>) = partCell o1"
  "sectionRendered (o1\<lparr>rr_note := n\<rparr>) = sectionRendered o1"
  "clampError (o1\<lparr>rr_note := n\<rparr>) = clampError o1" "clampError (o1\<lparr>rr_keepStacks := k\<rparr>) = clampError o1"
  by (simp_all add: tableSource_def paginated_def writePartHeader_def partCell_def sectionRendered_def clampError_def fun_eq_iff)

lemma row_reads [simp]:
  "detail_cell (o1\<lparr>rr_note := n\<rparr>) = detail_cell o1" "detail_cell (o1\<lparr>rr_keepStacks := k\<rparr>) = detail_cell o1"
  by (simp_all add: detail_cell_def fun_eq_iff)

lemma line_reads [simp]:
  "preview_row (o1\<lparr>rr_note := n\<rparr>) = preview_row o1" "preview_row (o1\<lparr>rr_keepStacks := k\<rparr>) = preview_row o1"
  "apply_row (o1\<lparr>rr_note := n\<rparr>) = apply_row o1" "apply_row (o1\<lparr>rr_keepStacks := k\<rparr>) = apply_row o1"
  by (simp_all add: preview_row_def apply_row_def fun_eq_iff)

lemma limit_reads:
  "rr_tableLimit (o1\<lparr>rr_note := n\<rparr>) = rr_tableLimit o1" "rr_tableLimit (o1\<lparr>rr_keepStacks := k\<rparr>) = rr_tableLimit o1"
  by simp_all

lemma table_reads [simp]:
  "writeTable i (o1\<lparr>rr_note := n\<rparr>) = writeTable i o1" "writeTable i (o1\<lparr>rr_keepStacks := k\<rparr>) = writeTable i o1"
  "apply_table c ss v m (o1\<lparr>rr_note := n\<rparr>) = apply_table c ss v m o1"
  "apply_table c ss v m (o1\<lparr>rr_keepStacks := k\<rparr>) = apply_table c ss v m o1"
  by (simp_all only: writeTable_def apply_table_def option_reads line_reads limit_reads)

lemma section_reads [simp]:
  "preview_section txt (o1\<lparr>rr_note := n\<rparr>) = preview_section txt o1" "preview_section txt (o1\<lparr>rr_keepStacks := k\<rparr>) = preview_section txt o1"
  "outcome_section txt a b (o1\<lparr>rr_note := n\<rparr>) = outcome_section txt a b o1"
  "outcome_section txt a b (o1\<lparr>rr_keepStacks := k\<rparr>) = outcome_section txt a b o1"
  by (simp_all add: preview_section_def outcome_section_def fun_eq_iff)

lemma section_loop_note [simp]: "section_loop (o1\<lparr>rr_note := n\<rparr>) f ss d = section_loop o1 f ss d"
  by (rule section_loop_cong) simp

lemma section_loop_all:
  "set ss = set stacks \<Longrightarrow> section_loop (o1\<lparr>rr_keepStacks := Some (map summary_Ref (filter (\<lambda>s. ss_Status s \<noteq> StatusNoOp) ss))\<rparr>) f ss d
   = section_loop (o1\<lparr>rr_keepStacks := None\<rparr>) f ss d"
  by (rule section_loop_cong) (simp add: sectionRendered_def)

lemma note_line_mono: "length a \<le> length b \<Longrightarrow> length (note_line (o1\<lparr>rr_note := a\<rparr>)) \<le> length (note_line (o1\<lparr>rr_note := b\<rparr>))"
  by (auto simp: note_line_def)

lemma note_line_keep [simp]: "note_line (o1\<lparr>rr_keepStacks := k\<rparr>) = note_line o1"
  by (simp add: note_line_def)

lemma omission_note_laws: "length a \<le> length b \<Longrightarrow> length (omission_note u a) \<le> length (omission_note u b)" "omission_note u a \<noteq> ''''"
  by (simp_all add: omission_note_def)

lemma end_line_shown [simp]: "sublist x (end_line x)"
  by (auto simp: end_line_def intro: sublist_right)

lemma wrapped_shown [simp]:
  "sublist x (fenced_details title opening x)" "sublist x (plain_details title x)" "sublist (ss_PlanSummary s) (preview_summary s)"
  unfolding fenced_details_def plain_details_def preview_summary_def
  by (((rule sublist_right, (simp; fail)) | rule sublist_left)+)+

lemma preview_section_shown:
  "sublist (writeError (clampError o1 (ss_Error s))) (preview_section txt o1 s)"
  "rr_Summary o1 \<Longrightarrow> sublist (ss_PlanSummary s) (preview_section txt o1 s)"
  "rr_Diff o1 \<Longrightarrow> sublist (ss_PlanDiff s) (preview_section txt o1 s)"
  "rr_FullPlan o1 \<Longrightarrow> sublist (ss_FullPlan s) (preview_section txt o1 s)"
  unfolding preview_section_def
  by (((rule sublist_right, (simp; fail)) | rule sublist_left)+)+

lemma outcome_section_shown:
  "sublist (writeError (clampError o1 (ss_Error s))) (outcome_section txt a b o1 s)"
  "rr_Summary o1 \<Longrightarrow> sublist (ss_PlanSummary s) (outcome_section txt a b o1 s)"
  "rr_FullPlan o1 \<Longrightarrow> sublist (ss_FullPlan s) (outcome_section txt a b o1 s)"
  unfolding outcome_section_def
  by (((rule sublist_right, (simp; fail)) | rule sublist_left | (simp; fail))+)+

lemma preview_sections_shown:
  assumes "s \<in> set (rp_Stacks i)" "ss_Status s \<noteq> StatusNoOp" "sectionRendered o1 (summary_Ref s)"
    and "sublist x (preview_section txt o1 s)"
  shows "sublist x (previewBody txt i o1)"
  unfolding previewBody_def writeSections_def
  by (rule sublist_left)+ (use assms in \<open>auto intro: section_loop_shown\<close>)

interpretation pvb: diff_renderer "previewBody tx i" "omission_note (rp_CIRunURL i)" sorted_stacks "rp_Stacks i" "rp_SortMode i"
  for tx :: "GateReason \<Rightarrow> string" and i :: PreviewInput
proof
  fix a b :: string and o1
  show "length a \<le> length b \<Longrightarrow> length (previewBody tx i (o1\<lparr>rr_note := a\<rparr>)) \<le> length (previewBody tx i (o1\<lparr>rr_note := b\<rparr>))"
    using note_line_mono [of a b o1] by (simp add: previewBody_def writeSections_def cong: if_cong)
  show "sublist (note_line o1) (previewBody tx i o1)"
    unfolding previewBody_def by ((rule sublist_right, rule sublist_order.order_refl) | rule sublist_left)+
  show "previewBody tx i (o1\<lparr>rr_keepStacks := Some (sectionRefs sorted_stacks (rp_Stacks i) (rp_SortMode i))\<rparr>)
      = previewBody tx i (o1\<lparr>rr_keepStacks := None\<rparr>)"
    by (simp add: previewBody_def writeSections_def sectionRefs_def section_loop_all [where stacks = "rp_Stacks i"] cong: if_cong)
qed (auto simp: omission_note_laws preview_section_shown intro!: preview_sections_shown)

lemma outcome_sections_shown:
  assumes "s \<in> set ss" "ss_Status s \<noteq> StatusNoOp" "sectionRendered o1 (summary_Ref s)"
    and "sublist x (outcome_section tx a b o1 s)"
  shows "sublist x (section_loop o1 (outcome_section tx a b o1) (sortApply (tableStacks ss StackViewAll) m) 0)"
  using assms by (intro section_loop_shown [of s]) (simp_all add: tableStacks_def StackViewAll_def StackViewChanged_def)

lemma outcome_loop_all:
  "section_loop (o1\<lparr>rr_keepStacks := Some (sectionRefs sortApply ss m)\<rparr>) f (sortApply (tableStacks ss StackViewAll) m) d
   = section_loop (o1\<lparr>rr_keepStacks := None\<rparr>) f (sortApply (tableStacks ss StackViewAll) m) d"
  by (simp add: tableStacks_def StackViewAll_def StackViewChanged_def sectionRefs_def section_loop_all [where stacks = ss])

lemma in_set_nonempty: "s \<in> set ss \<Longrightarrow> ss \<noteq> []"
  by auto

interpretation apb: comment_renderer "applyBody tx i" "omission_note (rb_CIRunURL i)" sortApply "rb_Stacks i" "rb_SortMode i"
  for tx :: "GateReason \<Rightarrow> string" and i :: ApplyBoard
proof
  fix a b :: string and o1
  show "length a \<le> length b \<Longrightarrow> length (applyBody tx i (o1\<lparr>rr_note := a\<rparr>)) \<le> length (applyBody tx i (o1\<lparr>rr_note := b\<rparr>))"
    using note_line_mono [of a b o1] by (simp add: applyBody_def cong: if_cong)
  show "sublist (note_line o1) (applyBody tx i o1)"
    unfolding applyBody_def by ((rule sublist_right, rule sublist_order.order_refl) | rule sublist_left)+
  show "applyBody tx i (o1\<lparr>rr_keepStacks := Some (sectionRefs sortApply (rb_Stacks i) (rb_SortMode i))\<rparr>)
      = applyBody tx i (o1\<lparr>rr_keepStacks := None\<rparr>)"
    by (simp add: applyBody_def outcome_loop_all cong: if_cong)
next
  fix s o1 x
  assume s: "s \<in> set (rb_Stacks i)" "ss_Status s \<noteq> StatusNoOp" "sectionRendered o1 (summary_Ref s)"
  have shown: "sublist x (applyBody tx i o1)" if "sublist x (outcome_section tx counts_title ''Full apply output'' o1 s)" for x
    unfolding applyBody_def
    by (rule sublist_left)+ (simp add: in_set_nonempty [OF s(1)] sublist_left outcome_sections_shown [OF s that])
  show "sublist (writeError (clampError o1 (ss_Error s))) (applyBody tx i o1)"
    "rr_Summary o1 \<Longrightarrow> sublist (ss_PlanSummary s) (applyBody tx i o1)"
    "rr_FullPlan o1 \<Longrightarrow> sublist (ss_FullPlan s) (applyBody tx i o1)"
    by (simp_all add: shown outcome_section_shown)
qed (simp_all add: omission_note_laws)

interpretation rfb: comment_renderer "refreshBody tx i" "omission_note (rf_CIRunURL i)" sortApply "rf_Stacks i" "rf_SortMode i"
  for tx :: "GateReason \<Rightarrow> string" and i :: RefreshBoard
proof
  fix a b :: string and o1
  show "length a \<le> length b \<Longrightarrow> length (refreshBody tx i (o1\<lparr>rr_note := a\<rparr>)) \<le> length (refreshBody tx i (o1\<lparr>rr_note := b\<rparr>))"
    using note_line_mono [of a b o1] by (simp add: refreshBody_def cong: if_cong)
  show "sublist (note_line o1) (refreshBody tx i o1)"
    unfolding refreshBody_def by ((rule sublist_right, rule sublist_order.order_refl) | rule sublist_left)+
  show "refreshBody tx i (o1\<lparr>rr_keepStacks := Some (sectionRefs sortApply (rf_Stacks i) (rf_SortMode i))\<rparr>)
      = refreshBody tx i (o1\<lparr>rr_keepStacks := None\<rparr>)"
    by (simp add: refreshBody_def outcome_loop_all cong: if_cong)
next
  fix s o1 x
  assume s: "s \<in> set (rf_Stacks i)" "ss_Status s \<noteq> StatusNoOp" "sectionRendered o1 (summary_Ref s)"
  have shown: "sublist x (refreshBody tx i o1)"
    if "sublist x (outcome_section tx (\<lambda>_. ''Reconciled resources'') ''Full refresh output'' o1 s)" for x
    unfolding refreshBody_def
    by (rule sublist_left)+ (simp add: in_set_nonempty [OF s(1)] sublist_left outcome_sections_shown [OF s that])
  show "sublist (writeError (clampError o1 (ss_Error s))) (refreshBody tx i o1)"
    "rr_Summary o1 \<Longrightarrow> sublist (ss_PlanSummary s) (refreshBody tx i o1)"
    "rr_FullPlan o1 \<Longrightarrow> sublist (ss_FullPlan s) (refreshBody tx i o1)"
    by (simp_all add: shown outcome_section_shown)
qed (simp_all add: omission_note_laws)

text \<open>A marker in front changes none of the laws.\<close>

context comment_renderer
begin

lemma marked: "comment_renderer (\<lambda>o1. m @ render o1) banner order stacks sortMode"
  by unfold_locales
    (auto simp: note_mono keep_all wording_mono wording_nonempty intro: sublist_left note_shown error_shown summary_shown output_shown)

end

context diff_renderer
begin

lemma diff_marked: "diff_renderer (\<lambda>o1. m @ render o1) banner order stacks sortMode"
  by (intro diff_renderer.intro marked diff_renderer_axioms.intro) (auto intro: sublist_left diff_shown)

end

lemma marked_boards:
  "renderPreview tx p = (\<lambda>o1. (DashboardMarker (rp_Style p) (rp_CommitSHA p) @ nl) @ previewBody tx p o1)"
  "renderApply tx a = (\<lambda>o1. (DashboardMarker (rb_Style a) (rb_CommitSHA a) @ nl) @ applyBody tx a o1)"
  "renderRefresh tx r = (\<lambda>o1. (RefreshMarker @ nl) @ refreshBody tx r o1)"
  by (simp_all add: fun_eq_iff renderPreview_def renderApply_def renderRefresh_def)

interpretation pv: diff_renderer "renderPreview tx i" "omission_note (rp_CIRunURL i)" sorted_stacks "rp_Stacks i" "rp_SortMode i"
  for tx :: "GateReason \<Rightarrow> string" and i :: PreviewInput
  unfolding marked_boards by (rule pvb.diff_marked)

interpretation ap: comment_renderer "renderApply tx i" "omission_note (rb_CIRunURL i)" sortApply "rb_Stacks i" "rb_SortMode i"
  for tx :: "GateReason \<Rightarrow> string" and i :: ApplyBoard
  unfolding marked_boards by (rule apb.marked)

interpretation rf: comment_renderer "renderRefresh tx i" "omission_note (rf_CIRunURL i)" sortApply "rf_Stacks i" "rf_SortMode i"
  for tx :: "GateReason \<Rightarrow> string" and i :: RefreshBoard
  unfolding marked_boards by (rule rfb.marked)

subsection \<open>Comments fit, and nothing is left out silently\<close>

lemma preview_descends: "descendWithBase (renderPreview txt i) (omission_note (rp_CIRunURL i)) sorted_stacks (rp_Stacks i) (rp_StackView i)
    (rp_SortMode i) ''full plan output'' True no_opts = PreviewTrimmed txt i"
  by (simp add: PreviewTrimmed_def descend_def)

lemma apply_descends: "descendWithBase (renderApply txt i) (omission_note (rb_CIRunURL i)) sortApply (rb_Stacks i) (rb_StackView i)
    (rb_SortMode i) ''full apply output'' False no_opts = ApplyTrimmed txt i"
  by (simp add: ApplyTrimmed_def descend_def)

lemma refresh_descends: "descendWithBase (renderRefresh txt i) (omission_note (rf_CIRunURL i)) sortApply (rf_Stacks i) (rf_StackView i)
    (rf_SortMode i) ''full refresh output'' False no_opts = RefreshTrimmed txt i"
  by (simp add: RefreshTrimmed_def descend_def)

lemma with_floor [simp]: "with_base no_opts (floor_opts n) = floor_opts n"
  by (simp add: floor_opts_def with_base_def no_opts_def)

lemma full_limit [simp]: "comment_limit no_opts = githubCommentMaxLen"
  by (simp add: comment_limit_def no_opts_def)

definition report_line :: "string \<Rightarrow> string \<Rightarrow> bool \<Rightarrow> Trim \<Rightarrow> string" where
  "report_line url label silent t = note_line (no_opts\<lparr>rr_note := noteFor (omission_note url) label silent t\<rparr>)"

context comment_renderer
begin

lemma told:
  assumes "descendWithBase render banner order stacks view sortMode label silent no_opts = (body, t)"
  shows "sublist (note_line (no_opts\<lparr>rr_note := noteFor banner label silent t\<rparr>)) body"
proof -
  from descend_base_result(1) [OF assms] obtain o1 where "body = render (with_base no_opts o1)" "rr_note o1 = noteFor banner label silent t"
    unfolding honest_def by blast
  with note_shown [of "with_base no_opts o1"] show ?thesis by (auto simp: note_line_def)
qed

lemma section_kept_or_logged:
  assumes h: "honest note_for t o1" and s: "s \<in> set stacks" "ss_Status s \<noteq> StatusNoOp" and own: "s \<in> set own"
  shows "sublist (writeError (ss_Error s)) (render o1) \<or> LogError op (summary_Ref s) (ss_Error s) \<in> set (logTrimmed op own t)"
    and "sublist (ss_PlanSummary s) (render o1) \<or> LogSummary op (summary_Ref s) (ss_PlanSummary s) \<in> set (logTrimmed op own t)"
    and "op \<noteq> ''preview'' \<Longrightarrow>
      sublist (ss_FullPlan s) (render o1) \<or> LogOutput op (summary_Ref s) (ss_FullPlan s) \<in> set (logTrimmed op own t)"
proof -
  have logged: "x \<in> set (log_stack op t s) \<Longrightarrow> Lost t \<or> tm_FullPlan t \<and> op \<noteq> ''preview'' \<Longrightarrow> x \<in> set (logTrimmed op own t)" for x
    using own by (auto simp: logTrimmed_def)
  have keep: "sectionRendered o1 (summary_Ref s)" if "rr_keepStacks o1 = None" using that by (simp add: sectionRendered_def)
  show "sublist (writeError (ss_Error s)) (render o1) \<or> LogError op (summary_Ref s) (ss_Error s) \<in> set (logTrimmed op own t)"
  proof (cases "tm_Errors t \<and> ss_Error s \<noteq> ''''")
    case True
    then show ?thesis by - (rule disjI2, rule logged, auto simp: log_stack_def Lost_def)
  next
    case False
    then consider "ss_Error s = ''''" | "\<not> tm_Errors t" by blast
    then show ?thesis
    proof cases
      case 2
      with h have "rr_keepStacks o1 = None" "rr_errorBudget o1 \<le> 0" by (auto simp: honest_def)
      with error_shown [OF s keep] show ?thesis by (simp add: clampError_def)
    qed (simp add: writeError_def trim_right_nl_def)
  qed
  show "sublist (ss_PlanSummary s) (render o1) \<or> LogSummary op (summary_Ref s) (ss_PlanSummary s) \<in> set (logTrimmed op own t)"
  proof (cases "tm_Summary t \<and> ss_PlanSummary s \<noteq> ''''")
    case True
    then show ?thesis by - (rule disjI2, rule logged, auto simp: log_stack_def Lost_def)
  next
    case False
    then consider "ss_PlanSummary s = ''''" | "\<not> tm_Summary t" by blast
    then show ?thesis using h summary_shown [OF s keep] by cases (auto simp: honest_def)
  qed
  assume op: "op \<noteq> ''preview''"
  show "sublist (ss_FullPlan s) (render o1) \<or> LogOutput op (summary_Ref s) (ss_FullPlan s) \<in> set (logTrimmed op own t)"
  proof (cases "tm_FullPlan t \<and> ss_FullPlan s \<noteq> ''''")
    case True
    with op show ?thesis by - (rule disjI2, rule logged, auto simp: log_stack_def Lost_def)
  next
    case False
    then consider "ss_FullPlan s = ''''" | "\<not> tm_FullPlan t" by blast
    then show ?thesis using h output_shown [OF s keep] by cases (auto simp: honest_def)
  qed
qed

end

context diff_renderer
begin

lemma diff_kept_or_logged:
  assumes h: "honest note_for t o1" and s: "s \<in> set stacks" "ss_Status s \<noteq> StatusNoOp" and "s \<in> set own"
  shows "sublist (ss_PlanDiff s) (render o1) \<or> LogDiff op (summary_Ref s) (ss_PlanDiff s) \<in> set (logTrimmed op own t)"
proof (cases "tm_Diff t \<and> ss_PlanDiff s \<noteq> ''''")
  case True
  with assms(4) show ?thesis by (force simp: logTrimmed_def log_stack_def Lost_def)
next
  case False
  then consider "ss_PlanDiff s = ''''" | "\<not> tm_Diff t" by blast
  then show ?thesis
  proof cases
    case 2
    with h have "rr_Diff o1" "rr_keepStacks o1 = None" by (auto simp: honest_def)
    then show ?thesis using diff_shown [OF s, of o1] by (simp add: sectionRendered_def)
  qed simp
qed

end

lemma honest_base [simp]: "honest note_for t (with_base base o1) = honest note_for t o1"
  by (simp add: honest_def)

text \<open>
  C24. Comments fit and say what they leave out. The preview, the apply and the refresh comment stay within the size limit,
  except that a comment whose fixed parts are oversize comes out as the floor of the ladder: no section, one table row. Each
  comment carries the line naming what its report says was dropped.
\<close>

theorem comments_fit_and_tell:
  "(int (length (fst (PreviewTrimmed tx p))) \<le> githubCommentMaxLen
      \<or> fst (PreviewTrimmed tx p) = renderPreview tx p (floor_opts (noteFor (omission_note (rp_CIRunURL p)) ''full plan output'' True (snd (PreviewTrimmed tx p)))))
   \<and> (int (length (fst (ApplyTrimmed tx a))) \<le> githubCommentMaxLen
      \<or> fst (ApplyTrimmed tx a) = renderApply tx a (floor_opts (noteFor (omission_note (rb_CIRunURL a)) ''full apply output'' False (snd (ApplyTrimmed tx a)))))
   \<and> (int (length (fst (RefreshTrimmed tx r))) \<le> githubCommentMaxLen
      \<or> fst (RefreshTrimmed tx r) = renderRefresh tx r (floor_opts (noteFor (omission_note (rf_CIRunURL r)) ''full refresh output'' False (snd (RefreshTrimmed tx r)))))
   \<and> sublist (report_line (rp_CIRunURL p) ''full plan output'' True (snd (PreviewTrimmed tx p))) (fst (PreviewTrimmed tx p))
   \<and> sublist (report_line (rb_CIRunURL a) ''full apply output'' False (snd (ApplyTrimmed tx a))) (fst (ApplyTrimmed tx a))
   \<and> sublist (report_line (rf_CIRunURL r) ''full refresh output'' False (snd (RefreshTrimmed tx r))) (fst (RefreshTrimmed tx r))"
proof -
  note pd = trans [OF preview_descends [of tx p] surjective_pairing]
  note ad = trans [OF apply_descends [of tx a] surjective_pairing]
  note rd = trans [OF refresh_descends [of tx r] surjective_pairing]
  show ?thesis
    using pv.descend_base_result(2) [OF pd] ap.descend_base_result(2) [OF ad] rf.descend_base_result(2) [OF rd]
      pv.told [OF pd] ap.told [OF ad] rf.told [OF rd]
    by (simp add: report_line_def)
qed

text \<open>
  Nothing a reviewer reads is lost. For every stack of a preview that is not a no-op, its error block, its plan summary
  and its diff are each in the comment or in the run log; for an apply, its error block, its summary and the engine's output.
\<close>

theorem content_kept_or_logged:
  assumes "s \<in> set (rp_Stacks p)" "ss_Status s \<noteq> StatusNoOp" "PreviewTrimmed tx p = (pbody, pt)"
    and "s' \<in> set (rb_Stacks a)" "ss_Status s' \<noteq> StatusNoOp" "ApplyTrimmed tx a = (abody, at)"
  shows "(sublist (writeError (ss_Error s)) pbody
           \<or> LogError ''preview'' (summary_Ref s) (ss_Error s) \<in> set (logTrimmed ''preview'' (rp_Stacks p) pt))
    \<and> (sublist (ss_PlanSummary s) pbody
           \<or> LogSummary ''preview'' (summary_Ref s) (ss_PlanSummary s) \<in> set (logTrimmed ''preview'' (rp_Stacks p) pt))
    \<and> (sublist (ss_PlanDiff s) pbody
           \<or> LogDiff ''preview'' (summary_Ref s) (ss_PlanDiff s) \<in> set (logTrimmed ''preview'' (rp_Stacks p) pt))
    \<and> (sublist (writeError (ss_Error s')) abody
           \<or> LogError ''apply'' (summary_Ref s') (ss_Error s') \<in> set (logTrimmed ''apply'' (rb_Stacks a) at))
    \<and> (sublist (ss_PlanSummary s') abody
           \<or> LogSummary ''apply'' (summary_Ref s') (ss_PlanSummary s') \<in> set (logTrimmed ''apply'' (rb_Stacks a) at))
    \<and> (sublist (ss_FullPlan s') abody
           \<or> LogOutput ''apply'' (summary_Ref s') (ss_FullPlan s') \<in> set (logTrimmed ''apply'' (rb_Stacks a) at))"
proof -
  obtain p1 where p: "pbody = renderPreview tx p p1" "honest (noteFor (omission_note (rp_CIRunURL p)) ''full plan output'' True) pt p1"
    using pv.descend_base_result(1) [OF trans [OF preview_descends assms(3)]] honest_base by blast
  obtain a1 where a: "abody = renderApply tx a a1" "honest (noteFor (omission_note (rb_CIRunURL a)) ''full apply output'' False) at a1"
    using ap.descend_base_result(1) [OF trans [OF apply_descends assms(6)]] honest_base by blast
  show ?thesis
    using pv.section_kept_or_logged(1,2) [OF p(2) assms(1,2,1)] pv.diff_kept_or_logged [OF p(2) assms(1,2,1)]
      ap.section_kept_or_logged [OF a(2) assms(4,5,4), where op = "''apply''"] unfolding p(1) a(1) by simp
qed

definition demo_failed :: StackSummary where
  "demo_failed = (new_summary ''web'' ''prod'' ''prod'')
     \<lparr>ss_Status := StatusError, ss_Error := ''exit status 1'', ss_PlanSummary := ''+ bucket'', ss_PlanDiff := ''+ bucket'',
      ss_FullPlan := ''updating''\<rparr>"

definition demo_preview :: PreviewInput where
  "demo_preview = \<lparr>rp_Op = ''preview'', rp_RunNumber = 7, rp_CommitSHA = ''0123456789'', rp_DurationSec = 3, rp_CIRunURL = '''',
     rp_Stacks = [demo_failed], rp_SortMode = '''', rp_StackView = '''', rp_Notice = '''', rp_Style = ''''\<rparr>"

definition demo_board :: ApplyBoard where
  "demo_board = \<lparr>rb_RunNumber = 7, rb_CommitSHA = ''0123456789'', rb_DurationSec = 3, rb_CIRunURL = '''', rb_Stacks = [demo_failed],
     rb_SortMode = '''', rb_Style = '''', rb_StackView = '''', rb_BreakGlass = None\<rparr>"

lemma content_kept_or_logged_witness:
  "(sublist ''+ bucket'' (fst (PreviewTrimmed (\<lambda>_. '''') demo_preview))
      \<or> LogDiff ''preview'' ''web/prod'' ''+ bucket'' \<in> set (logTrimmed ''preview'' [demo_failed] (snd (PreviewTrimmed (\<lambda>_. '''') demo_preview))))
   \<and> (sublist ''updating'' (fst (ApplyTrimmed (\<lambda>_. '''') demo_board))
      \<or> LogOutput ''apply'' ''web/prod'' ''updating'' \<in> set (logTrimmed ''apply'' [demo_failed] (snd (ApplyTrimmed (\<lambda>_. '''') demo_board))))"
proof -
  have "ss_Status demo_failed \<noteq> StatusNoOp" "summary_Ref demo_failed = ''web/prod''" "rp_Stacks demo_preview = [demo_failed]"
    "rb_Stacks demo_board = [demo_failed]" "ss_PlanDiff demo_failed = ''+ bucket''" "ss_FullPlan demo_failed = ''updating''"
    by (simp_all add: demo_failed_def demo_preview_def demo_board_def new_summary_def summary_Ref_def StatusError_def StatusNoOp_def)
  then show ?thesis
    using content_kept_or_logged [OF _ _ surjective_pairing _ _ surjective_pairing,
        of demo_failed demo_preview demo_failed demo_board "\<lambda>_. ''''"] by simp
qed

subsection \<open>The error block keeps its fence\<close>

lemma split_fence_plain: "CHR 0x0A \<notin> set fence" "CHR 0x0A \<notin> set split_fence"
  by (simp_all add: fence_def split_fence_def zero_width_def)

lemma Split_char_prefix:
  "c \<notin> set p \<Longrightarrow> Split_char c (p @ s) = (p @ hd (Split_char c s)) # tl (Split_char c s)"
  by (induction p) auto

lemma fence_prefix_line: "HasPrefix s fence \<longleftrightarrow> HasPrefix (hd (Split_char (CHR 0x0A) s)) fence"
proof
  assume "HasPrefix s fence"
  then obtain r where "s = fence @ r" by (auto simp: HasPrefix_iff)
  then show "HasPrefix (hd (Split_char (CHR 0x0A) s)) fence"
    by (simp add: Split_char_prefix split_fence_plain HasPrefix_append)
next
  have "\<exists>r. s = hd (Split_char c s) @ r" for c by (induction c s rule: Split_char.induct) (auto split: list.splits)
  moreover assume "HasPrefix (hd (Split_char (CHR 0x0A) s)) fence"
  ultimately show "HasPrefix s fence" by (metis HasPrefix_iff append.assoc)
qed

lemma escape_step:
  "escape_fences [] = []"
  "HasPrefix s fence \<Longrightarrow> escape_fences s = split_fence @ escape_fences (drop 3 s)"
  "\<not> HasPrefix (d # s) fence \<Longrightarrow> escape_fences (d # s) = d # escape_fences s"
  by (simp add: escape_fences_def ReplaceAll.simps [of "[]"])
    (auto simp: escape_fences_def ReplaceAll.simps [of s] ReplaceAll.simps [of "d # s"] fence_def HasPrefix_iff)

text \<open>Escaping works line by line.\<close>

lemma escape_lines: "Split_char (CHR 0x0A) (escape_fences s) = map escape_fences (Split_char (CHR 0x0A) s)"
proof (induction s rule: length_induct)
  case (1 s)
  show ?case
  proof (cases "HasPrefix s fence")
    case True
    then obtain r where r: "s = fence @ r" by (auto simp: HasPrefix_iff)
    moreover have "drop 3 s = r" "length r < length s" by (simp_all add: r fence_def)
    moreover obtain l ls where "Split_char (CHR 0x0A) r = l # ls" by (cases "Split_char (CHR 0x0A) r") auto
    moreover have "escape_fences (fence @ l) = split_fence @ escape_fences l"
      by (subst escape_step(2)) (simp_all add: HasPrefix_iff fence_def)
    ultimately show ?thesis using 1 True by (simp add: escape_step(2) Split_char_prefix split_fence_plain)
  next
    case False
    show ?thesis
    proof (cases s)
      case (Cons d r)
      obtain l ls where l: "Split_char (CHR 0x0A) r = l # ls" by (cases "Split_char (CHR 0x0A) r") auto
      have "\<not> HasPrefix (d # l) fence" if "d \<noteq> CHR 0x0A" using False fence_prefix_line [of s] that by (simp add: Cons l)
      with False Cons 1 l show ?thesis by (auto simp: escape_step)
    qed (simp add: escape_step)
  qed
qed

lemma fence_tick: "HasPrefix (escape_fences s) ''`'' \<Longrightarrow> HasPrefix s ''`''"
  by (cases s; cases "HasPrefix s fence") (auto simp: escape_step HasPrefix_iff fence_def)

lemma escaped_no_fence: "\<not> HasPrefix (escape_fences s) fence"
proof
  assume h: "HasPrefix (escape_fences s) fence"
  show False
  proof (cases "HasPrefix s fence")
    case True
    with h show False by (auto simp: escape_step HasPrefix_iff split_fence_def zero_width_def fence_def)
  next
    case False
    with h obtain d r where s: "s = d # r" by (cases s) (auto simp: escape_step HasPrefix_iff fence_def)
    with h False have d: "d = CHR ''`''" and r: "HasPrefix (escape_fences r) ''``''"
      by (auto simp: escape_step HasPrefix_iff fence_def)
    have "\<not> HasPrefix r fence" using r by (auto simp: escape_step HasPrefix_iff split_fence_def zero_width_def)
    moreover obtain r' where "r = CHR ''`'' # r'" using fence_tick [of r] r by (auto simp: HasPrefix_iff)
    ultimately have "HasPrefix (escape_fences r') ''`''" "r = CHR ''`'' # r'" using r by (auto simp: escape_step HasPrefix_iff)
    then have "HasPrefix s fence" using fence_tick [of r'] by (auto simp: s d HasPrefix_iff fence_def)
    with False show False by simp
  qed
qed

lemma escape_spaces: "dropWhile (\<lambda>c. c = CHR '' '') (escape_fences s) = escape_fences (dropWhile (\<lambda>c. c = CHR '' '') s)"
proof (induction s)
  case (Cons d r)
  show ?case
  proof (cases "d = CHR '' ''")
    case True
    then show ?thesis using Cons by (simp add: escape_step HasPrefix_iff fence_def)
  next
    case False
    then show ?thesis by (cases "HasPrefix (d # r) fence") (simp_all add: escape_step split_fence_def)
  qed
qed (simp add: escape_step)

text \<open>
  An error cannot leave its block. A stack error of several lines is written between two fences, and whatever its text, no
  line in between opens, after any indentation, with a fence, so none can close the block and have the rest rendered as markup.
\<close>

theorem error_fence_safe:
  assumes "Contains (trim_right_nl msg) nl"
  shows "\<exists>inner. writeError msg = ''  **Error:**'' @ nl @ nl @ fence @ nl @ inner @ nl @ fence @ nl @ nl
    \<and> list_all (\<lambda>l. \<not> HasPrefix (dropWhile (\<lambda>c. c = CHR '' '') l) fence) (Split_char (CHR 0x0A) inner)"
proof (intro exI conjI)
  show "writeError msg = ''  **Error:**'' @ nl @ nl @ fence @ nl @ escape_fences (trim_right_nl msg) @ nl @ fence @ nl @ nl"
    using assms by (cases "trim_right_nl msg = []") (simp_all add: writeError_def nl_def Let_def)
  show "list_all (\<lambda>l. \<not> HasPrefix (dropWhile (\<lambda>c. c = CHR '' '') l) fence)
      (Split_char (CHR 0x0A) (escape_fences (trim_right_nl msg)))"
    by (simp add: escape_lines list_all_iff escape_spaces escaped_no_fence)
qed

lemma error_fence_safe_witness:
  "\<exists>inner. writeError (''a'' @ nl @ fence @ nl @ ''![x](y)'') = ''  **Error:**'' @ nl @ nl @ fence @ nl @ inner @ nl @ fence @ nl @ nl
    \<and> list_all (\<lambda>l. \<not> HasPrefix (dropWhile (\<lambda>c. c = CHR '' '') l) fence) (Split_char (CHR 0x0A) inner)"
  by (rule error_fence_safe) (simp add: trim_right_nl_def nl_def fence_def Contains_single)

text \<open>A diff is not escaped: one of its lines can close its block.\<close>

lemma diff_closes_its_fence:
  "\<exists>before after. fenced_details ''Diff'' (fence @ ''diff'') (fence @ nl @ ''![x](y)'')
     = before @ fence @ ''diff'' @ nl @ fence @ nl @ ''![x](y)'' @ after"
  by (intro exI [of _ "''<details><summary>Diff</summary>'' @ nl @ nl"]
      exI [of _ "nl @ fence @ nl @ nl @ ''</details>'' @ nl @ nl"]) (simp add: fenced_details_def end_line_def HasSuffix_def HasPrefix_def nl_def fence_def)

text \<open>The preview renders, and keeps, failed stacks last but for no-ops.\<close>

lemma preview_keeps_failures_last:
  "map summary_Ref (sorted_stacks
       [(new_summary ''p'' ''bad'' '''')\<lparr>ss_Status := StatusError\<rparr>, (new_summary ''p'' ''good'' '''')\<lparr>ss_Status := StatusPlanned\<rparr>] '''')
     = [''p/good'', ''p/bad'']"
  by code_simp

end
