(* ===== verification/Overflow.thy ===== *)
theory Overflow
  imports TrimLadder
begin

text \<open>
  Boards that continue into further comments: \<open>internal/core/render/overflow.go\<close> splits the stacks into parts and renders
  them, \<open>internal/run/overflow.go\<close> posts them. The VCS is a pair of oracles, what it answers to writing a part and to
  deleting stale ones; what is written, deleted and logged is the list of actions.
\<close>

subsection \<open>Configuration and markers\<close>

record OverflowConfig =
  oc_Mode :: string
  oc_Split :: string
  oc_MaxParts :: int

definition overflow_enabled :: "OverflowConfig \<Rightarrow> bool" where
  "overflow_enabled c \<longleftrightarrow> oc_Mode c = ''continue''"

definition splitMode :: "OverflowConfig \<Rightarrow> string" where
  "splitMode c = (if oc_Split c = ''stack'' \<or> oc_Split c = ''group'' then oc_Split c else ''divided'')"

definition maxParts :: "OverflowConfig \<Rightarrow> int" where
  "maxParts c = (if oc_MaxParts c > 0 then oc_MaxParts c else 10)"

definition marker_end :: string where "marker_end = '' -->''"

definition PartMarkerPrefix :: "string \<Rightarrow> string" where
  "PartMarkerPrefix boardMarker = TrimSuffix boardMarker marker_end"

definition PartMarker :: "string \<Rightarrow> int \<Rightarrow> string" where
  "PartMarker boardMarker part =
     (if part \<le> 1 then boardMarker else TrimSuffix boardMarker marker_end @ '':part'' @ itoa part @ marker_end)"

subsection \<open>Splitting\<close>

type_synonym fits_fn = "StackSummary list \<Rightarrow> int \<Rightarrow> int \<Rightarrow> bool"

fun distribute_loop :: "nat \<Rightarrow> nat \<Rightarrow> nat \<Rightarrow> nat \<Rightarrow> 'a list \<Rightarrow> 'a list list" where
  "distribute_loop 0 k base extra items = []"
| "distribute_loop (Suc n) k base extra items =
     (let size = (if k < extra then base + 1 else base)
      in take size items # distribute_loop n (k + 1) base extra (drop size items))"

definition distribute :: "'a list \<Rightarrow> nat \<Rightarrow> 'a list list" where
  "distribute items n =
     (if n \<le> 1 then [items] else distribute_loop n 0 (length items div n) (length items mod n) items)"

fun all_fit :: "fits_fn \<Rightarrow> int \<Rightarrow> int \<Rightarrow> StackSummary list list \<Rightarrow> bool" where
  "all_fit fits k parts [] = True"
| "all_fit fits k parts (g # gs) = (fits g k parts \<and> all_fit fits (k + 1) parts gs)"

text \<open>One pass of packing against a guessed number of parts.\<close>

fun pack ::
  "fits_fn \<Rightarrow> int \<Rightarrow> int \<Rightarrow> StackSummary list list \<Rightarrow> StackSummary list \<Rightarrow> StackSummary list \<Rightarrow> StackSummary list list" where
  "pack fits limit parts groups cur [] = (if cur \<noteq> [] then groups @ [cur] else groups)"
| "pack fits limit parts groups cur (s # ss) =
     (let trial = cur @ [s] in
      if cur \<noteq> [] \<and> \<not> fits trial (int (length groups) + 1) parts
      then if int (length groups) + 1 \<ge> limit then groups @ [cur]
           else pack fits limit parts (groups @ [cur]) [s] ss
      else pack fits limit parts groups trial ss)"

text \<open>The pass is repeated with the number of parts it found, at most \<open>maxParts + 1\<close> times.\<close>

fun capacity_loop :: "nat \<Rightarrow> fits_fn \<Rightarrow> int \<Rightarrow> int \<Rightarrow> StackSummary list \<Rightarrow> StackSummary list list" where
  "capacity_loop 0 fits limit parts ordered = pack fits limit parts [] [] ordered"
| "capacity_loop (Suc n) fits limit parts ordered =
     (let groups = pack fits limit parts [] [] ordered in
      if length groups \<le> 1 \<or> int (length groups) = parts then groups
      else capacity_loop n fits limit (int (length groups)) ordered)"

definition splitByCapacity :: "StackSummary list \<Rightarrow> int \<Rightarrow> fits_fn \<Rightarrow> StackSummary list list" where
  "splitByCapacity ordered limit fits = capacity_loop (nat (limit + 1)) fits limit 1 ordered"

function divided_loop :: "nat \<Rightarrow> StackSummary list \<Rightarrow> int \<Rightarrow> fits_fn \<Rightarrow> StackSummary list list" where
  "divided_loop parts ordered limit fits =
     (if int parts \<le> limit
      then let groups = distribute ordered parts in
           if all_fit fits 1 (int parts) groups then groups else divided_loop (parts + 1) ordered limit fits
      else splitByCapacity ordered limit fits)"
  by pat_completeness auto
termination by (relation "measure (\<lambda>(parts, ordered, limit, fits). nat (limit + 1 - int parts))") auto

declare divided_loop.simps [simp del]

definition splitDivided :: "StackSummary list \<Rightarrow> int \<Rightarrow> fits_fn \<Rightarrow> StackSummary list list" where
  "splitDivided ordered limit fits = divided_loop 1 ordered limit fits"

fun group_loop ::
  "StackSummary list \<Rightarrow> int \<Rightarrow> fits_fn \<Rightarrow> string list \<Rightarrow> StackSummary list list \<Rightarrow> StackSummary list list" where
  "group_loop ordered limit fits [] groups = groups"
| "group_loop ordered limit fits (st # sts) groups =
     (let b = filter (\<lambda>s. ss_Status s = st) ordered in
      if b = [] then group_loop ordered limit fits sts groups
      else if fits b (int (length groups) + 1) 0 then group_loop ordered limit fits sts (groups @ [b])
      else group_loop ordered limit fits sts (groups @ splitByCapacity b (limit - int (length groups)) fits))"

definition group_order :: "string list" where
  "group_order = [StatusError, StatusBlocked, StatusPlanned, StatusNoOp]"

definition splitByGroup :: "StackSummary list \<Rightarrow> string \<Rightarrow> int \<Rightarrow> fits_fn \<Rightarrow> StackSummary list list" where
  "splitByGroup stacks sortMode limit fits =
     (let groups = group_loop (sorted_stacks stacks sortMode) limit fits group_order []
      in if int (length groups) > limit then take (nat limit) groups else groups)"

definition splitStacks :: "StackSummary list \<Rightarrow> string \<Rightarrow> string \<Rightarrow> int \<Rightarrow> fits_fn \<Rightarrow> StackSummary list list" where
  "splitStacks stacks mode sortMode limit fits =
     (if mode = ''group'' then splitByGroup stacks sortMode limit fits
      else if mode = ''stack'' then splitByCapacity (sorted_stacks stacks sortMode) limit fits
      else splitDivided (sorted_stacks stacks sortMode) limit fits)"

subsection \<open>Pagination\<close>

definition overCapNote :: "int \<Rightarrow> string" where
  "overCapNote n =
     nl @ ''---'' @ nl @ nl @ ''> '' @ warning_sign @ '' **'' @ itoa n @ '' '' @ plural_stacks n
     @ '' omitted** past the comment limit for this board. Their detail is in the run log.'' @ nl"

record BoardRenderer =
  br_render :: "StackSummary list \<Rightarrow> renderOpts \<Rightarrow> string"
  br_descend :: "StackSummary list \<Rightarrow> renderOpts \<Rightarrow> string \<times> Trim"
  br_keepFullPlan :: bool
  br_sortMode :: string

record Part =
  bp_Ordinal :: int
  bp_Marker :: string
  bp_Body :: string
  bp_Trim :: Trim
  bp_Stacks :: "string list"
  bp_OmittedStacks :: "string list"

definition part_budget :: "StackSummary list \<Rightarrow> int \<Rightarrow> int \<Rightarrow> int" where
  "part_budget stacks part parts =
     (if part = parts \<or> parts = 0 then githubCommentMaxLen - int (length (overCapNote (int (length stacks))))
      else githubCommentMaxLen)"

definition partOpts ::
  "BoardRenderer \<Rightarrow> StackSummary list \<Rightarrow> int \<Rightarrow> string \<Rightarrow> int \<Rightarrow> int \<Rightarrow> renderOpts" where
  "partOpts r stacks limit marker part parts =
     no_opts\<lparr>rr_FullPlan := br_keepFullPlan r, rr_Diff := True, rr_Summary := True, rr_part := part, rr_partsTotal := parts,
             rr_suppressTable := (part > 1),
             rr_commentLimit := part_budget stacks part (if parts = 0 then limit else parts)
               - (int (length (PartMarker marker part)) - int (length marker)),
             rr_tableStacks := (if part = 1 then Some stacks else None),
             rr_stackParts := (if part = 1 then map (\<lambda>s. (summary_Ref s, limit)) stacks else [])\<rparr>"

definition part_fits :: "BoardRenderer \<Rightarrow> StackSummary list \<Rightarrow> int \<Rightarrow> string \<Rightarrow> fits_fn" where
  "part_fits r stacks limit marker g part parts =
     (let o1 = partOpts r stacks limit marker part parts in int (length (br_render r g o1)) \<le> rr_commentLimit o1)"

text \<open>\<open>strings.Replace(s, old, new, 1)\<close> for a non-empty \<open>old\<close>.\<close>

fun replace_first :: "string \<Rightarrow> string \<Rightarrow> string \<Rightarrow> string" where
  "replace_first old new [] = []"
| "replace_first old new (c # s) =
     (if HasPrefix (c # s) old then new @ drop (length old) (c # s) else c # replace_first old new s)"

text \<open>The continuation each stack's detail is on; a later group overwrites, 0 is none.\<close>

fun place_groups :: "int \<Rightarrow> StackSummary list list \<Rightarrow> (string \<times> int) list \<Rightarrow> (string \<times> int) list" where
  "place_groups k [] m = m"
| "place_groups k (g # gs) m = place_groups (k + 1) gs (fold (\<lambda>s m. map_put (summary_Ref s) k m) g m)"

definition placed_refs :: "StackSummary list list \<Rightarrow> string list" where
  "placed_refs groups = map summary_Ref (concat groups)"

definition omitted_refs :: "StackSummary list \<Rightarrow> StackSummary list list \<Rightarrow> string list" where
  "omitted_refs stacks groups = filter (\<lambda>ref. ref \<notin> set (placed_refs groups)) (map summary_Ref stacks)"

text \<open>The options a part is finally rendered under: the real continuations replace the widest ones.\<close>

definition final_opts ::
  "BoardRenderer \<Rightarrow> StackSummary list \<Rightarrow> int \<Rightarrow> string \<Rightarrow> StackSummary list list \<Rightarrow> int \<Rightarrow> renderOpts" where
  "final_opts r stacks limit marker groups part =
     (partOpts r stacks limit marker part (int (length groups)))
       \<lparr>rr_stackParts := place_groups 1 groups (fold (\<lambda>s m. map_put (summary_Ref s) 0 m) stacks [])\<rparr>"

definition build_part ::
  "BoardRenderer \<Rightarrow> StackSummary list \<Rightarrow> int \<Rightarrow> string \<Rightarrow> StackSummary list list \<Rightarrow> int \<Rightarrow> StackSummary list \<Rightarrow> Part" where
  "build_part r stacks limit marker groups part g =
     (let parts = int (length groups);
          overCap = int (length stacks) - int (length (concat groups));
          o1 = final_opts r stacks limit marker groups part;
          body0 = br_render r g o1;
          (body1, t) = (if int (length body0) > rr_commentLimit o1 then br_descend r g o1
                        else (body0, no_trim\<lparr>tm_FullPlan := \<not> br_keepFullPlan r\<rparr>));
          capped = (part = parts \<and> overCap > 0);
          body2 = (if capped then body1 @ overCapNote overCap else body1)
      in \<lparr>bp_Ordinal = part, bp_Marker = PartMarker marker part,
          bp_Body = replace_first marker (PartMarker marker part) body2, bp_Trim = t, bp_Stacks = map summary_Ref g,
          bp_OmittedStacks = (if capped then omitted_refs stacks groups else [])\<rparr>)"

fun build_parts ::
  "BoardRenderer \<Rightarrow> StackSummary list \<Rightarrow> int \<Rightarrow> string \<Rightarrow> StackSummary list list \<Rightarrow> int \<Rightarrow> StackSummary list list \<Rightarrow> Part list" where
  "build_parts r stacks limit marker groups k [] = []"
| "build_parts r stacks limit marker groups k (g # gs) =
     build_part r stacks limit marker groups k g # build_parts r stacks limit marker groups (k + 1) gs"

text \<open>The empty list stands for Go's nil: the board fits one comment.\<close>

definition board_groups :: "BoardRenderer \<Rightarrow> StackSummary list \<Rightarrow> OverflowConfig \<Rightarrow> string \<Rightarrow> StackSummary list list" where
  "board_groups r stacks cfg marker =
     splitStacks stacks (splitMode cfg) (br_sortMode r) (maxParts cfg) (part_fits r stacks (maxParts cfg) marker)"

definition paginate :: "BoardRenderer \<Rightarrow> StackSummary list \<Rightarrow> OverflowConfig \<Rightarrow> string \<Rightarrow> Part list" where
  "paginate r stacks cfg marker =
     (let groups = board_groups r stacks cfg marker
      in if length groups \<le> 1 then [] else build_parts r stacks (maxParts cfg) marker groups 1 groups)"

definition preview_board :: "(GateReason \<Rightarrow> string) \<Rightarrow> PreviewInput \<Rightarrow> BoardRenderer" where
  "preview_board txt i =
     \<lparr>br_render = (\<lambda>ss. renderPreview txt (i\<lparr>rp_Stacks := ss\<rparr>)),
      br_descend = (\<lambda>ss. descendWithBase (renderPreview txt (i\<lparr>rp_Stacks := ss\<rparr>)) (omission_note (rp_CIRunURL i)) sorted_stacks
                           ss (rp_StackView i) (rp_SortMode i) ''full plan output'' True),
      br_keepFullPlan = False, br_sortMode = rp_SortMode i\<rparr>"

definition apply_board :: "(GateReason \<Rightarrow> string) \<Rightarrow> ApplyBoard \<Rightarrow> BoardRenderer" where
  "apply_board txt i =
     \<lparr>br_render = (\<lambda>ss. renderApply txt (i\<lparr>rb_Stacks := ss\<rparr>)),
      br_descend = (\<lambda>ss. descendWithBase (renderApply txt (i\<lparr>rb_Stacks := ss\<rparr>)) (omission_note (rb_CIRunURL i)) sortApply
                           ss (rb_StackView i) (rb_SortMode i) ''full apply output'' False),
      br_keepFullPlan = True, br_sortMode = rb_SortMode i\<rparr>"

definition refresh_board :: "(GateReason \<Rightarrow> string) \<Rightarrow> RefreshBoard \<Rightarrow> BoardRenderer" where
  "refresh_board txt i =
     \<lparr>br_render = (\<lambda>ss. renderRefresh txt (i\<lparr>rf_Stacks := ss\<rparr>)),
      br_descend = (\<lambda>ss. descendWithBase (renderRefresh txt (i\<lparr>rf_Stacks := ss\<rparr>)) (omission_note (rf_CIRunURL i)) sortApply
                           ss (rf_StackView i) (rf_SortMode i) ''full refresh output'' False),
      br_keepFullPlan = True, br_sortMode = rf_SortMode i\<rparr>"

definition PreviewParts :: "(GateReason \<Rightarrow> string) \<Rightarrow> PreviewInput \<Rightarrow> OverflowConfig \<Rightarrow> string \<Rightarrow> Part list" where
  "PreviewParts txt i cfg marker =
     (if \<not> overflow_enabled cfg then [] else paginate (preview_board txt i) (rp_Stacks i) cfg marker)"

definition ApplyParts :: "(GateReason \<Rightarrow> string) \<Rightarrow> ApplyBoard \<Rightarrow> OverflowConfig \<Rightarrow> string \<Rightarrow> Part list" where
  "ApplyParts txt i cfg marker =
     (if \<not> overflow_enabled cfg then [] else paginate (apply_board txt i) (rb_Stacks i) cfg marker)"

definition RefreshParts :: "(GateReason \<Rightarrow> string) \<Rightarrow> RefreshBoard \<Rightarrow> OverflowConfig \<Rightarrow> string \<Rightarrow> Part list" where
  "RefreshParts txt i cfg marker =
     (if \<not> overflow_enabled cfg then [] else paginate (refresh_board txt i) (rf_Stacks i) cfg marker)"

subsection \<open>Posting\<close>

datatype BoardAct =
    LogAct TrimLog
  | Upsert string string
  | Post string
  | DeleteStale string nat

record Vcs =
  vc_Upsert :: "string \<Rightarrow> string \<Rightarrow> string option"
  vc_Post :: "string \<Rightarrow> string option"
  vc_canDelete :: bool

definition stacksByRef :: "StackSummary list \<Rightarrow> string list \<Rightarrow> StackSummary list" where
  "stacksByRef all refs = filter (\<lambda>s. summary_Ref s \<in> set refs) all"

definition logOmittedPartStacks :: "string \<Rightarrow> StackSummary list \<Rightarrow> TrimLog list" where
  "logOmittedPartStacks op stacks =
     (if stacks = [] then []
      else logTrimmed op stacks
             \<lparr>tm_FullPlan = True, tm_Diff = True, tm_Summary = True, tm_Errors = True,
              tm_Sections = int (length stacks), tm_Rows = 0\<rparr>)"

definition part_log :: "string \<Rightarrow> StackSummary list \<Rightarrow> Part \<Rightarrow> TrimLog list" where
  "part_log op stacks p =
     (if Lost (bp_Trim p) \<or> tm_FullPlan (bp_Trim p) \<and> op \<noteq> ''preview''
      then logTrimmed op (stacksByRef stacks (bp_Stacks p)) (bp_Trim p) else [])
     @ logOmittedPartStacks op (stacksByRef stacks (bp_OmittedStacks p))"

definition first_error :: "string option \<Rightarrow> string option \<Rightarrow> string option" where
  "first_error a b = (if a = None then b else a)"

fun post_parts :: "string \<Rightarrow> StackSummary list \<Rightarrow> (Part \<Rightarrow> BoardAct \<times> string option) \<Rightarrow> Part list \<Rightarrow> string option
    \<Rightarrow> BoardAct list \<times> string option" where
  "post_parts op stacks write [] err = ([], err)"
| "post_parts op stacks write (p # ps) err =
     (case write p of (a, e) \<Rightarrow>
        (case post_parts op stacks write ps (first_error err e) of
           (acts, err') \<Rightarrow> (map LogAct (part_log op stacks p) @ a # acts, err')))"

definition deleteStaleParts :: "Vcs \<Rightarrow> string \<Rightarrow> nat \<Rightarrow> BoardAct list" where
  "deleteStaleParts v marker keep = (if vc_canDelete v then [DeleteStale (PartMarkerPrefix marker) keep] else [])"

definition postBoard :: "Vcs \<Rightarrow> string \<Rightarrow> Part list \<Rightarrow> string \<Rightarrow> StackSummary list \<Rightarrow> BoardAct list \<times> string option" where
  "postBoard v op parts marker stacks =
     (case post_parts op stacks (\<lambda>p. (Upsert (bp_Body p) (bp_Marker p), vc_Upsert v (bp_Body p) (bp_Marker p))) parts None of
        (acts, err) \<Rightarrow> (acts @ deleteStaleParts v marker (length parts), err))"

definition postSingleBoard :: "Vcs \<Rightarrow> string \<Rightarrow> string \<Rightarrow> BoardAct list \<times> string option" where
  "postSingleBoard v body marker =
     (case vc_Upsert v body marker of
        Some e \<Rightarrow> ([Upsert body marker], Some e)
      | None \<Rightarrow> (Upsert body marker # deleteStaleParts v marker 1, None))"

definition postAppendBoard :: "Vcs \<Rightarrow> string \<Rightarrow> Part list \<Rightarrow> StackSummary list \<Rightarrow> BoardAct list \<times> string option" where
  "postAppendBoard v op parts stacks = post_parts op stacks (\<lambda>p. (Post (bp_Body p), vc_Post v (bp_Body p))) parts None"

subsection \<open>Splitting loses and repeats nothing, and keeps to the cap\<close>

lemma distribute_loop_prefix: "\<exists>r. items = concat (distribute_loop n k base extra items) @ r"
proof (induction n arbitrary: k items)
  case (Suc n)
  define size where "size = (if k < extra then base + 1 else base)"
  from Suc [of "drop size items" "k + 1"] obtain r where
    r: "drop size items = concat (distribute_loop n (k + 1) base extra (drop size items)) @ r" by blast
  have "items = take size items @ drop size items" by simp
  also note r
  finally have "items = concat (distribute_loop (Suc n) k base extra items) @ r" by (simp add: size_def [symmetric])
  then show ?case by blast
qed simp

lemma length_loop: "length (distribute_loop n k base extra items) = n"
  by (induction n arbitrary: k items) (simp_all add: Let_def)

lemma length_distribute: "length (distribute items n) = max 1 n"
  by (simp add: distribute_def length_loop)

lemma mset_distribute: "mset (concat (distribute items n)) \<subseteq># mset items"
proof -
  have "\<exists>r. items = concat (distribute items n) @ r"
    using distribute_loop_prefix [of items n 0] by (cases "n \<le> 1") (simp_all add: distribute_def)
  then obtain r where r: "items = concat (distribute items n) @ r" by blast
  then have "mset items = mset (concat (distribute items n)) + mset r" by (metis mset_append)
  then show ?thesis by simp
qed

lemma pack_prefix: "\<exists>r. concat groups @ cur @ ss = concat (pack fits limit parts groups cur ss) @ r"
proof (induction fits limit parts groups cur ss rule: pack.induct)
  case (2 fits limit parts groups cur s ss)
  then show ?case by (auto simp: Let_def)
qed simp

lemma length_pack: "int (length groups) + 1 \<le> limit \<Longrightarrow> int (length (pack fits limit parts groups cur ss)) \<le> limit"
  by (induction fits limit parts groups cur ss rule: pack.induct) (auto simp: Let_def)

lemma mset_pack: "mset (concat (pack fits limit parts [] [] ss)) \<subseteq># mset ss"
proof -
  from pack_prefix [of "[]" "[]" ss fits limit parts] obtain r where "ss = concat (pack fits limit parts [] [] ss) @ r" by auto
  then have "mset ss = mset (concat (pack fits limit parts [] [] ss)) + mset r" by (metis mset_append)
  then show ?thesis by simp
qed

lemma capacity_loop_result:
  "mset (concat (capacity_loop n fits limit parts ss)) \<subseteq># mset ss"
  "1 \<le> limit \<Longrightarrow> int (length (capacity_loop n fits limit parts ss)) \<le> limit"
  by (induction n arbitrary: parts) (auto simp: mset_pack length_pack Let_def)

lemma divided_loop_result:
  "mset (concat (divided_loop parts ss limit fits)) \<subseteq># mss \<and>
   (1 \<le> limit \<longrightarrow> 1 \<le> parts \<longrightarrow> int (length (divided_loop parts ss limit fits)) \<le> limit)" if "mset ss = mss"
  using that
proof (induction parts ss limit fits rule: divided_loop.induct)
  case (1 parts ss limit fits)
  then show ?case
    by (auto simp: divided_loop.simps [of parts ss limit fits] Let_def mset_distribute length_distribute splitByCapacity_def
        capacity_loop_result)
qed

lemma filter_status_split:
  "st \<notin> set sts \<Longrightarrow> filter_mset (\<lambda>s. f s = st) M + filter_mset (\<lambda>s. f s \<in> set sts) M = filter_mset (\<lambda>s. f s \<in> set (st # sts)) M"
  by (induction M) auto

lemma division_loop_result:
  "distinct sts \<Longrightarrow> mset (concat (group_loop ordered limit fits sts groups))
     \<subseteq># mset (concat groups) + filter_mset (\<lambda>s. ss_Status s \<in> set sts) (mset ordered)"
proof (induction sts arbitrary: groups)
  case (Cons st sts)
  let ?b = "filter (\<lambda>s. ss_Status s = st) ordered"
  let ?rest = "filter_mset (\<lambda>s. ss_Status s \<in> set sts) (mset ordered)"
  have split: "mset ?b + ?rest = filter_mset (\<lambda>s. ss_Status s \<in> set (st # sts)) (mset ordered)"
    using Cons.prems filter_status_split [of st sts ss_Status "mset ordered"] by simp
  have step: "mset (concat (group_loop ordered limit fits sts (groups @ gs))) \<subseteq># mset (concat groups) + (mset ?b + ?rest)"
    if "mset (concat gs) \<subseteq># mset ?b" for gs
  proof -
    have "mset (concat (group_loop ordered limit fits sts (groups @ gs))) \<subseteq># mset (concat (groups @ gs)) + ?rest"
      using Cons.IH [of "groups @ gs"] Cons.prems by simp
    also have "\<dots> \<subseteq># mset (concat groups) + (mset ?b + ?rest)" using that by (simp add: add.assoc)
    finally show ?thesis .
  qed
  show ?case
    using step [of "[]"] step [of "[?b]"] step [of "splitByCapacity ?b (limit - int (length groups)) fits"]
    by (simp add: Let_def split splitByCapacity_def capacity_loop_result(1) del: mset_filter set_simps)
qed simp

text \<open>No stack is on two parts, and there are at most as many parts as the cap.\<close>

lemma splitStacks_result:
  assumes "1 \<le> limit"
  shows "mset (concat (splitStacks stacks mode sortMode limit fits)) \<subseteq># mset stacks"
    and "int (length (splitStacks stacks mode sortMode limit fits)) \<le> limit"
proof -
  have "mset (concat (group_loop (sorted_stacks stacks sortMode) limit fits group_order [])) \<subseteq># mset stacks"
    using division_loop_result [of group_order "sorted_stacks stacks sortMode" limit fits "[]"]
      multiset_filter_subset [of "\<lambda>s. ss_Status s \<in> set group_order" "mset stacks"]
    by (auto simp: group_order_def StatusError_def StatusBlocked_def StatusPlanned_def StatusNoOp_def intro: subset_mset.order_trans)
  moreover have "mset (concat (take k gs)) \<subseteq># mset (concat gs)" for k and gs :: "StackSummary list list"
    by (subst (2) append_take_drop_id [of k gs, symmetric]) (simp only: concat_append mset_append, simp)
  ultimately show "mset (concat (splitStacks stacks mode sortMode limit fits)) \<subseteq># mset stacks"
    using capacity_loop_result(1) [of _ fits limit 1 "sorted_stacks stacks sortMode"]
      divided_loop_result [of "sorted_stacks stacks sortMode" "mset stacks" 1 limit fits]
    by (auto simp: splitStacks_def splitByGroup_def splitByCapacity_def splitDivided_def Let_def intro: subset_mset.order_trans)
  show "int (length (splitStacks stacks mode sortMode limit fits)) \<le> limit"
    using assms capacity_loop_result(2) [of limit _ fits 1 "sorted_stacks stacks sortMode"]
      divided_loop_result [of "sorted_stacks stacks sortMode" "mset stacks" 1 limit fits]
    by (auto simp: splitStacks_def splitByGroup_def splitByCapacity_def splitDivided_def Let_def)
qed

subsection \<open>Every stack is accounted for\<close>

lemma build_parts_stacks: "map bp_Stacks (build_parts r stacks limit marker groups k gs) = map (map summary_Ref) gs"
  by (induction gs arbitrary: k) (simp_all add: build_part_def Let_def split: prod.split)

lemma build_parts_set:
  "set (build_parts r stacks limit marker groups k gs)
   = (\<lambda>j. build_part r stacks limit marker groups (k + int j) (gs ! j)) ` {..<length gs}"
proof (induction gs arbitrary: k)
  case (Cons g gs)
  have "{..<length (g # gs)} = insert 0 (Suc ` {..<length gs})" by (auto simp: image_iff less_Suc_eq_0_disj)
  then show ?case using Cons [of "k + 1"] by (simp add: image_image algebra_simps)
qed simp

lemma not_placed_over_cap:
  assumes "mset (concat groups) \<subseteq># mset stacks" "s \<in> set stacks" "s \<notin> set (concat groups)"
  shows "length (concat groups) < length stacks"
proof -
  have "mset (concat groups) \<noteq> mset stacks" using assms(2,3) by (metis set_mset_mset)
  with assms(1) have "mset (concat groups) \<subset># mset stacks" by (simp add: subset_mset.less_le)
  then show ?thesis using mset_subset_size by fastforce
qed

definition last_part :: "BoardRenderer \<Rightarrow> StackSummary list \<Rightarrow> int \<Rightarrow> string \<Rightarrow> StackSummary list list \<Rightarrow> Part" where
  "last_part r stacks limit marker groups =
     build_part r stacks limit marker groups (int (length groups)) (last groups)"

lemma last_part_built: "groups \<noteq> [] \<Longrightarrow> last_part r stacks limit marker groups \<in> set (build_parts r stacks limit marker groups 1 groups)"
  by (auto simp: build_parts_set last_part_def last_conv_nth image_iff of_nat_diff Suc_leI intro!: bexI [of _ "length groups - 1"])

lemma omitted_of_part: "set (bp_OmittedStacks (build_part r stacks limit marker groups k g)) \<subseteq> summary_Ref ` set stacks"
  by (auto simp: build_part_def Let_def omitted_refs_def split: prod.splits)

lemma omitted_of_last:
  assumes "mset (concat groups) \<subseteq># mset stacks" "s \<in> set stacks" "summary_Ref s \<notin> set (placed_refs groups)"
  shows "summary_Ref s \<in> set (bp_OmittedStacks (last_part r stacks limit marker groups))"
proof -
  have "s \<notin> set (concat groups)" using assms(3) by (auto simp: placed_refs_def)
  from not_placed_over_cap [OF assms(1,2) this] show ?thesis
    using assms(2,3) by (auto simp: last_part_def build_part_def Let_def omitted_refs_def split: prod.split)
qed

lemma paginate_groups:
  assumes "paginate r stacks cfg marker \<noteq> []"
  defines "groups \<equiv> board_groups r stacks cfg marker"
  shows "mset (concat groups) \<subseteq># mset stacks" "int (length groups) \<le> maxParts cfg" "length groups > 1"
    "paginate r stacks cfg marker = build_parts r stacks (maxParts cfg) marker groups 1 groups"
proof -
  have "1 \<le> maxParts cfg" by (simp add: maxParts_def)
  from splitStacks_result [OF this] show "mset (concat groups) \<subseteq># mset stacks" "int (length groups) \<le> maxParts cfg"
    by (simp_all add: groups_def board_groups_def)
  show "length groups > 1" "paginate r stacks cfg marker = build_parts r stacks (maxParts cfg) marker groups 1 groups"
    using assms by (auto simp: paginate_def Let_def split: if_splits)
qed


subsection \<open>Every part fits\<close>

lemma length_decimal_digits: "0 \<le> n \<Longrightarrow> n < 10 ^ Suc k \<Longrightarrow> length (decimal_digits n) \<le> Suc k"
proof (induction k arbitrary: n)
  case (Suc k)
  then have "n div 10 < 10 ^ Suc k" by auto
  with Suc show ?case by (cases "n < 10") (simp_all add: decimal_digits.simps [of n])
qed (simp add: decimal_digits.simps)

lemma decimal_digits_mono: "a \<le> b \<Longrightarrow> 0 \<le> a \<Longrightarrow> length (decimal_digits a) \<le> length (decimal_digits b)"
proof (induction b arbitrary: a rule: decimal_digits.induct)
  case (1 b)
  show ?case
  proof (cases "a < 10 \<or> b < 10")
    case True
    with 1 have "length (decimal_digits a) = 1" by (auto simp: decimal_digits.simps [of a])
    then show ?thesis by (simp add: decimal_digits.simps [of b])
  next
    case False
    with 1(1) [of "a div 10"] 1(2,3) have "length (decimal_digits (a div 10)) \<le> length (decimal_digits (b div 10))"
      by (simp add: zdiv_mono1 pos_imp_zdiv_nonneg_iff)
    with False show ?thesis by (simp add: decimal_digits.simps [of a] decimal_digits.simps [of b])
  qed
qed

lemma length_replace_first:
  "length old \<le> length new \<Longrightarrow> length (replace_first old new s) \<le> length s + (length new - length old)"
proof (induction old new s rule: replace_first.induct)
  case (2 old new c s)
  show ?case
  proof (cases "HasPrefix (c # s) old")
    case True
    then have "length old \<le> length (c # s)" by (auto simp: HasPrefix_iff dest!: arg_cong [where f = length])
    with True 2(2) show ?thesis by simp
  qed (use 2 in simp)
qed simp

lemma replace_first_here: "old \<noteq> [] \<Longrightarrow> replace_first old new (old @ s) = new @ s"
  by (cases old) (simp_all add: HasPrefix_def)

lemma part_marker_length:
  "length marker \<le> length (PartMarker marker part)"
  "1 \<le> part \<Longrightarrow> part < 10 ^ 9 \<Longrightarrow> length (PartMarker marker part) \<le> length marker + 18"
proof -
  show "length marker \<le> length (PartMarker marker part)"
    by (auto simp: PartMarker_def TrimSuffix_def marker_end_def)
  show "length (PartMarker marker part) \<le> length marker + 18" if "1 \<le> part" "part < 10 ^ 9"
  proof -
    have "length (decimal_digits part) \<le> 9" using that length_decimal_digits [of part 8] by simp
    then show ?thesis using that by (auto simp: PartMarker_def TrimSuffix_def marker_end_def itoa_def)
  qed
qed

lemma over_cap_note_length:
  "1 \<le> a \<Longrightarrow> a \<le> b \<Longrightarrow> length (overCapNote a) \<le> length (overCapNote b)"
  "0 \<le> b \<Longrightarrow> b < 10 ^ 9 \<Longrightarrow> length (overCapNote b) \<le> 200"
proof -
  show "length (overCapNote a) \<le> length (overCapNote b)" if "1 \<le> a" "a \<le> b"
    using decimal_digits_mono [of a b] that by (auto simp: overCapNote_def itoa_def plural_stacks_def)
  show "length (overCapNote b) \<le> 200" if "0 \<le> b" "b < 10 ^ 9"
  proof -
    have "length (decimal_digits b) \<le> 9" using that length_decimal_digits [of b 8] by simp
    then show ?thesis using that by (simp add: overCapNote_def itoa_def plural_stacks_def nl_def warning_sign_def decimal_digits.simps [of 1])
  qed
qed

lemma build_part_cases:
  fixes r stacks limit marker groups part g
  defines "p \<equiv> build_part r stacks limit marker groups part g" and "o1 \<equiv> final_opts r stacks limit marker groups part"
    and "overCap \<equiv> int (length stacks) - int (length (concat groups))"
  obtains body where
    "bp_Body p = replace_first marker (PartMarker marker part)
       (body @ (if part = int (length groups) \<and> overCap > 0 then overCapNote overCap else ''''))"
    "body = br_render r g o1 \<and> int (length body) \<le> rr_commentLimit o1 \<and> bp_Trim p = no_trim\<lparr>tm_FullPlan := \<not> br_keepFullPlan r\<rparr>
     \<or> br_descend r g o1 = (body, bp_Trim p)"
proof (cases "int (length (br_render r g o1)) > rr_commentLimit o1")
  case True
  obtain body t where "br_descend r g o1 = (body, t)" by (cases "br_descend r g o1")
  with True show thesis
    by (intro that [of body])
      (simp_all add: p_def build_part_def Let_def o1_def [symmetric] overCap_def [symmetric])
next
  case False
  then show thesis
    by (intro that [of "br_render r g o1"])
      (simp_all add: p_def build_part_def Let_def o1_def [symmetric] overCap_def [symmetric])
qed

definition fits_or_floor :: "BoardRenderer \<Rightarrow> StackSummary list \<Rightarrow> renderOpts \<Rightarrow> string \<Rightarrow> bool" where
  "fits_or_floor r g o1 body \<longleftrightarrow>
     int (length body) \<le> comment_limit o1 \<or> (\<exists>n. body = br_render r g (with_base o1 (floor_opts n)))"

lemma part_limit:
  assumes "1 \<le> part" "part \<le> int (length groups)" "int (length groups) < 10 ^ 9" "int (length stacks) < 10 ^ 9"
  shows "comment_limit (final_opts r stacks limit marker groups part) = rr_commentLimit (final_opts r stacks limit marker groups part)"
    and "rr_commentLimit (final_opts r stacks limit marker groups part)
       + (if part = int (length groups) then int (length (overCapNote (int (length stacks)))) else 0)
       + (int (length (PartMarker marker part)) - int (length marker)) = githubCommentMaxLen"
proof -
  have g: "int (length groups) \<noteq> 0" using assms(1,2) by linarith
  then show "rr_commentLimit (final_opts r stacks limit marker groups part)
       + (if part = int (length groups) then int (length (overCapNote (int (length stacks)))) else 0)
       + (int (length (PartMarker marker part)) - int (length marker)) = githubCommentMaxLen"
    by (auto simp: final_opts_def partOpts_def part_budget_def)
  moreover have "int (length (overCapNote (int (length stacks)))) \<le> 200" "int (length (PartMarker marker part)) - int (length marker) \<le> 18"
    using over_cap_note_length(2) [of "int (length stacks)"] part_marker_length(2) [of part marker] assms by simp_all
  ultimately show "comment_limit (final_opts r stacks limit marker groups part) = rr_commentLimit (final_opts r stacks limit marker groups part)"
    by (auto simp: comment_limit_def githubCommentMaxLen_def split: if_splits)
qed

lemma part_fits_limit:
  assumes p: "1 \<le> part" "part \<le> int (length groups)" "int (length groups) < 10 ^ 9" "int (length stacks) < 10 ^ 9"
    and d: "\<And>body t. br_descend r g (final_opts r stacks limit marker groups part) = (body, t)
      \<Longrightarrow> fits_or_floor r g (final_opts r stacks limit marker groups part) body"
  shows "int (length (bp_Body (build_part r stacks limit marker groups part g))) \<le> githubCommentMaxLen
    \<or> (\<exists>n. int (length (br_render r g (with_base (final_opts r stacks limit marker groups part) (floor_opts n))))
          > rr_commentLimit (final_opts r stacks limit marker groups part))"
proof -
  let ?o = "final_opts r stacks limit marker groups part" and ?PM = "PartMarker marker part"
  let ?over = "int (length stacks) - int (length (concat groups))"
  let ?cap = "if part = int (length groups) \<and> ?over > 0 then overCapNote ?over else ''''"
  obtain body where b: "bp_Body (build_part r stacks limit marker groups part g) = replace_first marker ?PM (body @ ?cap)"
    "body = br_render r g ?o \<and> int (length body) \<le> rr_commentLimit ?o \<and>
       bp_Trim (build_part r stacks limit marker groups part g) = no_trim\<lparr>tm_FullPlan := \<not> br_keepFullPlan r\<rparr>
     \<or> br_descend r g ?o = (body, bp_Trim (build_part r stacks limit marker groups part g))"
    by (rule build_part_cases)
  have cap: "int (length ?cap) \<le> (if part = int (length groups) then int (length (overCapNote (int (length stacks)))) else 0)"
    using over_cap_note_length(1) [of ?over "int (length stacks)"] by auto
  have "int (length (replace_first marker ?PM (body @ ?cap))) \<le> int (length (body @ ?cap)) + (int (length ?PM) - int (length marker))"
    using length_replace_first [OF part_marker_length(1) [of marker part], of "body @ ?cap"] part_marker_length(1) [of marker part]
    by linarith
  then have fit: "int (length (bp_Body (build_part r stacks limit marker groups part g))) \<le> githubCommentMaxLen"
    if "int (length body) \<le> rr_commentLimit ?o"
    using that cap part_limit(2) [OF p, of r limit marker] b(1) by simp
  show ?thesis
  proof (cases "int (length body) \<le> rr_commentLimit ?o")
    case False
    with b(2) d have "fits_or_floor r g ?o body" by blast
    with False obtain n where "body = br_render r g (with_base ?o (floor_opts n))"
      by (auto simp: fits_or_floor_def part_limit(1) [OF p])
    with False have "int (length (br_render r g (with_base ?o (floor_opts n)))) > rr_commentLimit ?o" by simp
    then show ?thesis by blast
  qed (simp add: fit)
qed

lemma boards_descend:
  assumes "r = preview_board tx i \<or> r = apply_board tx a \<or> r = refresh_board tx f" and "br_descend r g o1 = (body, t)"
  shows "fits_or_floor r g o1 body"
  using assms(1)
proof (elim disjE)
  assume r: "r = preview_board tx i"
  show ?thesis
    using pv.descend_base_result(2) [of tx "i\<lparr>rp_Stacks := g\<rparr>" "rp_StackView i" "''full plan output''" True o1 body t] assms(2)
    by (auto simp: fits_or_floor_def r preview_board_def)
next
  assume r: "r = apply_board tx a"
  show ?thesis
    using ap.descend_base_result(2) [of tx "a\<lparr>rb_Stacks := g\<rparr>" "rb_StackView a" "''full apply output''" False o1 body t] assms(2)
    by (auto simp: fits_or_floor_def r apply_board_def)
next
  assume r: "r = refresh_board tx f"
  show ?thesis
    using rf.descend_base_result(2) [of tx "f\<lparr>rf_Stacks := g\<rparr>" "rf_StackView f" "''full refresh output''" False o1 body t] assms(2)
    by (auto simp: fits_or_floor_def r refresh_board_def)
qed

text \<open>
  Every comment of a paginated board fits. Each part's body, its own marker and the note on omitted stacks included, is
  within the size limit, unless even the floor of the trim ladder over that part's stacks is above the part's limit.
\<close>

theorem board_parts_fit:
  assumes "r = preview_board tx i \<or> r = apply_board tx a \<or> r = refresh_board tx f"
    and "p \<in> set (paginate r stacks cfg marker)" and "maxParts cfg < 10 ^ 9" "int (length stacks) < 10 ^ 9"
  shows "int (length (bp_Body p)) \<le> githubCommentMaxLen
    \<or> (\<exists>g n. bp_Stacks p = map summary_Ref g
        \<and> (let o1 = final_opts r stacks (maxParts cfg) marker (board_groups r stacks cfg marker) (bp_Ordinal p)
           in int (length (br_render r g (with_base o1 (floor_opts n)))) > rr_commentLimit o1))"
proof -
  define groups where "groups = board_groups r stacks cfg marker"
  have ne: "paginate r stacks cfg marker \<noteq> []" using assms(2) by auto
  note g = paginate_groups [OF ne, folded groups_def]
  from assms(2) obtain j where j: "j < length groups"
    "p = build_part r stacks (maxParts cfg) marker groups (1 + int j) (groups ! j)"
    by (auto simp: g(4) build_parts_set)
  have k: "1 \<le> 1 + int j" "1 + int j \<le> int (length groups)" "int (length groups) < 10 ^ 9" using j(1) g(2) assms(3) by simp_all
  have "bp_Stacks p = map summary_Ref (groups ! j)" "bp_Ordinal p = 1 + int j"
    by (simp_all add: j(2) build_part_def Let_def split: prod.split)
  moreover have "int (length (bp_Body p)) \<le> githubCommentMaxLen
      \<or> (\<exists>n. int (length (br_render r (groups ! j) (with_base (final_opts r stacks (maxParts cfg) marker groups (1 + int j)) (floor_opts n))))
            > rr_commentLimit (final_opts r stacks (maxParts cfg) marker groups (1 + int j)))"
    unfolding j(2) by (rule part_fits_limit [OF k assms(4)]) (rule boards_descend [OF assms(1)])
  ultimately show ?thesis unfolding Let_def groups_def [symmetric] by metis
qed

subsection \<open>What is posted keeps the content\<close>

lemma posted_acts:
  "set (fst (post_parts op stacks write parts err))
   = (\<Union>p \<in> set parts. insert (fst (write p)) (LogAct ` set (part_log op stacks p)))"
proof (induction parts arbitrary: err)
  case (Cons p ps)
  obtain a e where w: "write p = (a, e)" by (cases "write p")
  obtain acts e2 where r: "post_parts op stacks write ps (first_error err e) = (acts, e2)"
    by (cases "post_parts op stacks write ps (first_error err e)")
  with Cons [of "first_error err e"] show ?case by (auto simp: w)
qed simp

lemma dashboard_nonempty: "DashboardMarker style sha \<noteq> []"
  by (simp add: DashboardMarker_def Marker_def)

lemma preview_part_body:
  fixes tx i stacks limit groups part g
  defines "marker \<equiv> DashboardMarker (rp_Style i) (rp_CommitSHA i)"
  defines "p \<equiv> build_part (preview_board tx i) stacks limit marker groups part g"
  shows "\<exists>o2 rest. bp_Body p = PartMarker marker part @ nl @ previewBody tx (i\<lparr>rp_Stacks := g\<rparr>) o2 @ rest
    \<and> honest (noteFor (omission_note (rp_CIRunURL i)) ''full plan output'' True) (bp_Trim p) o2"
proof -
  let ?N = "noteFor (omission_note (rp_CIRunURL i)) ''full plan output'' True"
  let ?r = "preview_board tx i" and ?o = "final_opts (preview_board tx i) stacks limit marker groups part"
  obtain body rest where b: "bp_Body p = replace_first marker (PartMarker marker part) (body @ rest)"
    "body = br_render ?r g ?o \<and> bp_Trim p = no_trim\<lparr>tm_FullPlan := True\<rparr> \<or> br_descend ?r g ?o = (body, bp_Trim p)"
    unfolding p_def by (rule build_part_cases [of ?r stacks limit marker groups part g]) (auto simp: preview_board_def)
  have "\<exists>o2. body = renderPreview tx (i\<lparr>rp_Stacks := g\<rparr>) o2 \<and> honest ?N (bp_Trim p) o2"
    using b(2)
  proof
    assume "body = br_render ?r g ?o \<and> bp_Trim p = no_trim\<lparr>tm_FullPlan := True\<rparr>"
    moreover have "honest ?N (no_trim\<lparr>tm_FullPlan := True\<rparr>) ?o"
      by (simp add: honest_def final_opts_def partOpts_def noteFor_def omittedPhrase_def)
    ultimately show ?thesis by (auto simp: preview_board_def)
  next
    assume "br_descend ?r g ?o = (body, bp_Trim p)"
    then show ?thesis
      using pv.descend_base_result(1) [of tx "i\<lparr>rp_Stacks := g\<rparr>" "rp_StackView i" "''full plan output''" True ?o body "bp_Trim p"]
        honest_base by (auto simp: preview_board_def)
  qed
  then obtain o2 where o2: "body = renderPreview tx (i\<lparr>rp_Stacks := g\<rparr>) o2" "honest ?N (bp_Trim p) o2" by blast
  have "bp_Body p = PartMarker marker part @ nl @ previewBody tx (i\<lparr>rp_Stacks := g\<rparr>) o2 @ rest"
    using b(1) replace_first_here [of marker "PartMarker marker part" "nl @ previewBody tx (i\<lparr>rp_Stacks := g\<rparr>) o2 @ rest"]
    by (simp add: o2(1) renderPreview_def marker_def dashboard_nonempty)
  with o2(2) show ?thesis by blast
qed

text \<open>A text reaches the reader when a comment is written that contains it, or it is written to the run log.\<close>

definition reaches :: "BoardAct list \<Rightarrow> string \<Rightarrow> TrimLog \<Rightarrow> bool" where
  "reaches acts x l \<longleftrightarrow> (\<exists>b m. Upsert b m \<in> set acts \<and> sublist x b) \<or> LogAct l \<in> set acts"

lemma reaches_part:
  assumes "p \<in> set parts" "sublist x (bp_Body p) \<or> l \<in> set (part_log op stacks p)"
  shows "reaches (fst (postBoard v op parts marker stacks)) x l"
proof -
  let ?W = "\<lambda>p. (Upsert (bp_Body p) (bp_Marker p), vc_Upsert v (bp_Body p) (bp_Marker p))"
  have "set (fst (post_parts op stacks ?W parts None)) \<subseteq> set (fst (postBoard v op parts marker stacks))"
    by (auto simp: postBoard_def split: prod.split)
  moreover have "Upsert (bp_Body p) (bp_Marker p) \<in> set (fst (post_parts op stacks ?W parts None))"
    "l \<in> set (part_log op stacks p) \<Longrightarrow> LogAct l \<in> set (fst (post_parts op stacks ?W parts None))"
    using assms(1) by (auto simp: posted_acts)
  ultimately show ?thesis using assms(2) by (auto simp: reaches_def)
qed

lemma omitted_log:
  assumes "s \<in> set stacks" "summary_Ref s \<in> set (bp_OmittedStacks p)"
  shows "ss_Error s \<noteq> '''' \<Longrightarrow> LogError op (summary_Ref s) (ss_Error s) \<in> set (part_log op stacks p)"
    and "ss_PlanSummary s \<noteq> '''' \<Longrightarrow> LogSummary op (summary_Ref s) (ss_PlanSummary s) \<in> set (part_log op stacks p)"
    and "ss_PlanDiff s \<noteq> '''' \<Longrightarrow> LogDiff op (summary_Ref s) (ss_PlanDiff s) \<in> set (part_log op stacks p)"
proof -
  have s: "s \<in> set (stacksByRef stacks (bp_OmittedStacks p))" using assms by (simp add: stacksByRef_def)
  then have "stacksByRef stacks (bp_OmittedStacks p) \<noteq> []" by auto
  then have "x \<in> set (part_log op stacks p)"
    if "x \<in> set (log_stack op \<lparr>tm_FullPlan = True, tm_Diff = True, tm_Summary = True, tm_Errors = True,
          tm_Sections = int (length (stacksByRef stacks (bp_OmittedStacks p))), tm_Rows = 0\<rparr> s)" for x
    using that s by (auto simp: part_log_def logOmittedPartStacks_def logTrimmed_def Lost_def)
  then show "ss_Error s \<noteq> '''' \<Longrightarrow> LogError op (summary_Ref s) (ss_Error s) \<in> set (part_log op stacks p)"
    "ss_PlanSummary s \<noteq> '''' \<Longrightarrow> LogSummary op (summary_Ref s) (ss_PlanSummary s) \<in> set (part_log op stacks p)"
    "ss_PlanDiff s \<noteq> '''' \<Longrightarrow> LogDiff op (summary_Ref s) (ss_PlanDiff s) \<in> set (part_log op stacks p)"
    by (simp_all add: log_stack_def)
qed

lemma part_log_trim: "l \<in> set (logTrimmed op (stacksByRef stacks (bp_Stacks p)) (bp_Trim p)) \<Longrightarrow> l \<in> set (part_log op stacks p)"
  by (auto simp: part_log_def logTrimmed_def split: if_splits)

lemma placed_part:
  assumes "paginate r stacks cfg marker \<noteq> []" "distinct (map summary_Ref stacks)" "s \<in> set stacks"
    and "summary_Ref s \<in> set (placed_refs (board_groups r stacks cfg marker))"
  obtains g k where "s \<in> set g"
    "build_part r stacks (maxParts cfg) marker (board_groups r stacks cfg marker) k g \<in> set (paginate r stacks cfg marker)"
proof -
  define groups where "groups = board_groups r stacks cfg marker"
  note g = paginate_groups [OF assms(1), folded groups_def]
  obtain s' where s': "s' \<in> set (concat groups)" "summary_Ref s' = summary_Ref s"
    using assms(4) unfolding placed_refs_def groups_def [symmetric] set_map by (metis imageE)
  moreover have "set (concat groups) \<subseteq> set stacks" using g(1) by (metis set_mset_mono set_mset_mset)
  ultimately have "s' = s" using assms(2,3) by (auto simp: distinct_map dest: inj_onD)
  with s' obtain j where "j < length groups" "s \<in> set (groups ! j)" by (auto simp: in_set_conv_nth [of _ groups])
  then show thesis using that by (auto simp: g(4) build_parts_set groups_def [symmetric])
qed


subsection \<open>A board of two comments\<close>

definition big_stack :: "string \<Rightarrow> StackSummary" where
  "big_stack name = (new_summary ''web'' name name)\<lparr>ss_Status := StatusPlanned, ss_PlanDiff := replicate 70000 CHR ''+''\<rparr>"

definition big_input :: PreviewInput where
  "big_input = \<lparr>rp_Op = ''preview'', rp_RunNumber = 7, rp_CommitSHA = ''0123456789'', rp_DurationSec = 3, rp_CIRunURL = '''',
     rp_Stacks = [big_stack ''dev'', big_stack ''prod''], rp_SortMode = ''alphabetical'', rp_StackView = '''', rp_Notice = '''', rp_Style = ''''\<rparr>"

definition big_overflow :: OverflowConfig where
  "big_overflow = \<lparr>oc_Mode = ''continue'', oc_Split = ''stack'', oc_MaxParts = 0\<rparr>"

definition no_text :: "GateReason \<Rightarrow> string" where "no_text r = ''''"

lemma big_too_long: "\<not> part_fits (preview_board no_text big_input) ss 10 Marker [big_stack ''dev'', big_stack ''prod''] k n"
proof -
  let ?g = "[big_stack ''dev'', big_stack ''prod'']" and ?o = "partOpts (preview_board no_text big_input) ss 10 Marker k n"
  have "sublist (ss_PlanDiff (big_stack ''dev'')) (renderPreview no_text (big_input\<lparr>rp_Stacks := ?g\<rparr>) ?o)"
    by (rule pv.diff_shown) (simp_all add: big_stack_def StatusPlanned_def StatusNoOp_def sectionRendered_def partOpts_def)
  then have "70000 \<le> length (renderPreview no_text (big_input\<lparr>rp_Stacks := ?g\<rparr>) ?o)"
    by (auto simp: big_stack_def dest!: sublist_length_le)
  moreover have "rr_commentLimit ?o \<le> githubCommentMaxLen"
    using part_marker_length(1) [of Marker k] by (simp add: partOpts_def part_budget_def)
  ultimately show ?thesis by (simp add: part_fits_def Let_def preview_board_def githubCommentMaxLen_def)
qed

lemma big_groups: "board_groups (preview_board no_text big_input) (rp_Stacks big_input) big_overflow Marker
    = [[big_stack ''dev''], [big_stack ''prod'']]"
proof -
  have order: "sorted_stacks (rp_Stacks big_input) ''alphabetical'' = [big_stack ''dev'', big_stack ''prod'']"
    by (simp add: sorted_stacks_def order_by_rank_def insertion_sort_def big_input_def big_stack_def summary_Ref_def new_summary_def)
  define F where "F = part_fits (preview_board no_text big_input) (rp_Stacks big_input) 10 Marker"
  have two: "pack F 10 n [] [] [big_stack ''dev'', big_stack ''prod''] = [[big_stack ''dev''], [big_stack ''prod'']]" for n
    using big_too_long by (simp add: F_def Let_def)
  have "board_groups (preview_board no_text big_input) (rp_Stacks big_input) big_overflow Marker
      = splitByCapacity (sorted_stacks (rp_Stacks big_input) ''alphabetical'') 10 F"
  proof -
    have "br_sortMode (preview_board no_text big_input) = ''alphabetical''" by (simp add: preview_board_def big_input_def)
    then show ?thesis by (simp add: board_groups_def splitStacks_def splitMode_def big_overflow_def maxParts_def F_def)
  qed
  also have "\<dots> = capacity_loop (Suc (Suc 9)) F 10 1 [big_stack ''dev'', big_stack ''prod'']"
    by (simp only: splitByCapacity_def order) simp
  also have "\<dots> = [[big_stack ''dev''], [big_stack ''prod'']]" by (simp only: capacity_loop.simps two Let_def) simp
  finally show ?thesis .
qed

lemma big_parts: "paginate (preview_board no_text big_input) (rp_Stacks big_input) big_overflow Marker \<noteq> []"
  by (simp add: paginate_def big_groups Let_def)

lemma board_parts_fit_witness:
  "int (length (bp_Body (hd (paginate (preview_board no_text big_input) (rp_Stacks big_input) big_overflow Marker)))) \<le> githubCommentMaxLen
    \<or> (\<exists>g n. bp_Stacks (hd (paginate (preview_board no_text big_input) (rp_Stacks big_input) big_overflow Marker)) = map summary_Ref g
        \<and> (let o1 = final_opts (preview_board no_text big_input) (rp_Stacks big_input) (maxParts big_overflow) Marker
                      (board_groups (preview_board no_text big_input) (rp_Stacks big_input) big_overflow Marker)
                      (bp_Ordinal (hd (paginate (preview_board no_text big_input) (rp_Stacks big_input) big_overflow Marker)))
           in int (length (br_render (preview_board no_text big_input) g (with_base o1 (floor_opts n)))) > rr_commentLimit o1))"
  by (rule board_parts_fit [OF disjI1 [OF refl] hd_in_set [OF big_parts]])
    (simp_all add: maxParts_def big_overflow_def big_input_def)


end
