(* ===== verification/AuthBinding.thy ===== *)
theory AuthBinding
  imports GoStrings
begin

text \<open>
  Which credential providers a stack gets, \<open>internal/auth/binding.go\<close>: bindings match stacks and run modes, more
  specific bindings override the providers of more general ones scope by scope, and local runs substitute providers.
  \<open>glob\<close> is doublestar's \<open>Match\<close>, third-party code; a malformed pattern matches nothing. The raw YAML fields a
  declaration carries for its adapter are left out: nothing here reads them.
\<close>

subsection \<open>Data\<close>

type_synonym Mode = string

definition ModePreview :: Mode where "ModePreview = ''preview''"
definition ModeApply :: Mode where "ModeApply = ''apply''"
definition ModeDrift :: Mode where "ModeDrift = ''drift''"

record Binding =
  bd_StackPattern :: string
  bd_Mode :: Mode
  bd_Providers :: "string list"
  bd_Override :: "string list"
  bd_Local :: "string list"

record ProviderDecl =
  pd_Name :: string
  pd_Type :: string

record ResolveOpts =
  rz_Local :: bool
  rz_LocalProviders :: "string list"

type_synonym decls = "string \<Rightarrow> ProviderDecl option"

text \<open>The \<open>out\<close> slice and the \<open>seen\<close> map of a resolution.\<close>

type_synonym resolved = "string list \<times> string set"

datatype BindingErr =
    LocalUndeclared string
  | LocalCIOnly string string
  | BindingUndeclared string
  | Conflict string Mode string string string

subsection \<open>Scopes\<close>

definition IsCIOnlyType :: "string \<Rightarrow> bool" where
  "IsCIOnlyType t \<longleftrightarrow> t \<in> {''aws_oidc'', ''gcp_wif'', ''azure_federated''}"

definition scopeOfType :: "string \<Rightarrow> string" where
  "scopeOfType t =
     (if t \<in> {''aws_oidc'', ''aws_profile'', ''aws_sso''} then ''aws''
      else if t \<in> {''gcp_wif'', ''gcloud_adc''} then ''gcp''
      else if t = ''azure_federated'' then ''azure''
      else if t = ''github_app'' then ''github-identity''
      else ''other:'' @ t)"

text \<open>The name up to its first dash, unless it starts with one.\<close>

definition name_root :: "string \<Rightarrow> string" where
  "name_root a =
     (case Cut a ''-'' of (before, _, found) \<Rightarrow> if found \<and> before \<noteq> '''' then before else a)"

definition sameScope :: "decls \<Rightarrow> string \<Rightarrow> string \<Rightarrow> bool" where
  "sameScope ds a b =
     (case (ds a, ds b) of
        (Some da, Some db) \<Rightarrow> scopeOfType (pd_Type da) = scopeOfType (pd_Type db)
      | _ \<Rightarrow> name_root a = name_root b)"

definition replaceScope :: "decls \<Rightarrow> string \<Rightarrow> resolved \<Rightarrow> resolved" where
  "replaceScope ds repl r =
     (let out = filter (\<lambda>x. \<not> sameScope ds x repl) (fst r);
          seen = snd r - set (filter (\<lambda>x. sameScope ds x repl) (fst r)) in
      if repl \<in> seen then (out, seen) else (out @ [repl], insert repl seen))"

subsection \<open>Order of the bindings\<close>

definition pattern_specificity :: "string \<Rightarrow> int" where
  "pattern_specificity p = sum_list (map (\<lambda>r. if r = ''*'' \<or> r = ''?'' then - 2 else 1) (rune_split p))"

definition moreSpecific :: "Binding \<Rightarrow> Binding \<Rightarrow> bool" where
  "moreSpecific a b =
     (if (bd_Mode a = '''') \<noteq> (bd_Mode b = '''') then bd_Mode a \<noteq> ''''
      else pattern_specificity (bd_StackPattern b) < pattern_specificity (bd_StackPattern a))"

text \<open>
  One round of the outer loop: the entry sinks past the more specific ones before it. The entries before it are
  held nearest first.
\<close>

fun sink :: "Binding \<Rightarrow> Binding list \<Rightarrow> Binding list" where
  "sink b [] = [b]"
| "sink b (a # before) = (if moreSpecific a b then a # sink b before else b # a # before)"

definition sortBindings :: "Binding list \<Rightarrow> Binding list" where
  "sortBindings bs = rev (fold sink bs [])"

definition matches :: "(string \<Rightarrow> string \<Rightarrow> bool) \<Rightarrow> Binding \<Rightarrow> string \<Rightarrow> Mode \<Rightarrow> bool" where
  "matches glob b ref mode \<longleftrightarrow>
     (bd_Mode b = '''' \<or> bd_Mode b = mode) \<and> (bd_StackPattern b = '''' \<or> glob (bd_StackPattern b) ref)"

subsection \<open>Resolution\<close>

definition add_provider :: "string \<Rightarrow> resolved \<Rightarrow> resolved" where
  "add_provider p r = (if p \<in> snd r then r else (fst r @ [p], insert p (snd r)))"

definition visit :: "decls \<Rightarrow> Binding \<Rightarrow> resolved \<Rightarrow> resolved" where
  "visit ds b r = fold add_provider (bd_Providers b) (fold (replaceScope ds) (bd_Override b) r)"

definition ResolveWithOpts ::
  "(string \<Rightarrow> string \<Rightarrow> bool) \<Rightarrow> Binding list \<Rightarrow> decls \<Rightarrow> string \<Rightarrow> Mode \<Rightarrow> ResolveOpts \<Rightarrow> string list" where
  "ResolveWithOpts glob bs ds ref mode opts =
     (let matched = filter (\<lambda>b. matches glob b ref mode) (sortBindings bs);
          r = fold (visit ds) matched ([], {}) in
      if \<not> rz_Local opts then fst r
      else let r = fold (\<lambda>b. fold (replaceScope ds) (bd_Local b)) matched r in
           fst (fold (replaceScope ds) (rz_LocalProviders opts) r))"

definition ResolveWithDecls ::
  "(string \<Rightarrow> string \<Rightarrow> bool) \<Rightarrow> Binding list \<Rightarrow> decls \<Rightarrow> string \<Rightarrow> Mode \<Rightarrow> string list" where
  "ResolveWithDecls glob bs ds ref mode =
     ResolveWithOpts glob bs ds ref mode \<lparr>rz_Local = False, rz_LocalProviders = []\<rparr>"

definition Resolve :: "(string \<Rightarrow> string \<Rightarrow> bool) \<Rightarrow> Binding list \<Rightarrow> string \<Rightarrow> Mode \<Rightarrow> string list" where
  "Resolve glob bs ref mode = ResolveWithDecls glob bs (\<lambda>_. None) ref mode"

subsection \<open>Validation\<close>

definition check_local :: "decls \<Rightarrow> string \<Rightarrow> BindingErr option" where
  "check_local ds n =
     (case ds n of
        None \<Rightarrow> Some (LocalUndeclared n)
      | Some d \<Rightarrow> if IsCIOnlyType (pd_Type d) then Some (LocalCIOnly n (pd_Type d)) else None)"

text \<open>The loop over the resolved names, with the \<open>typeSeen\<close> map.\<close>

fun check_names :: "decls \<Rightarrow> string \<Rightarrow> Mode \<Rightarrow> (string \<rightharpoonup> string) \<Rightarrow> string list \<Rightarrow> BindingErr option" where
  "check_names ds stack mode seen [] = None"
| "check_names ds stack mode seen (n # names) =
     (case ds n of
        None \<Rightarrow> Some (BindingUndeclared n)
      | Some d \<Rightarrow>
          let scope = scopeOfType (pd_Type d) in
          (case seen scope of
             Some prev \<Rightarrow>
               if prev \<noteq> n then Some (Conflict stack mode scope prev n)
               else check_names ds stack mode (seen(scope \<mapsto> n)) names
           | None \<Rightarrow> check_names ds stack mode (seen(scope \<mapsto> n)) names))"

fun first_fault :: "'e option list \<Rightarrow> 'e option" where
  "first_fault [] = None"
| "first_fault (None # es) = first_fault es"
| "first_fault (Some e # es) = Some e"

definition auth_Validate ::
  "(string \<Rightarrow> string \<Rightarrow> bool) \<Rightarrow> Binding list \<Rightarrow> decls \<Rightarrow> string list \<Rightarrow> BindingErr option" where
  "auth_Validate glob bs ds stacks =
     first_fault
       (map (check_local ds) (concat (map bd_Local bs)) @
        map (\<lambda>(stack, mode). check_names ds stack mode Map.empty (ResolveWithDecls glob bs ds stack mode))
          (List.product stacks [ModePreview, ModeApply, ModeDrift]))"

section \<open>The order of the bindings\<close>

lemma moreSpecific_irrefl [simp]: "\<not> moreSpecific b b"
  by (simp add: moreSpecific_def)

lemma moreSpecific_asym: "moreSpecific a b \<Longrightarrow> \<not> moreSpecific b a"
  by (auto simp: moreSpecific_def split: if_splits)

lemma moreSpecific_weak: "\<not> moreSpecific a b \<Longrightarrow> \<not> moreSpecific b c \<Longrightarrow> \<not> moreSpecific a c"
  by (auto simp: moreSpecific_def split: if_splits)

lemma mset_sink [simp]: "mset (sink b before) = add_mset b (mset before)"
  by (induction b before rule: sink.induct) auto

lemma mset_sortBindings [simp]: "mset (sortBindings bs) = mset bs"
proof -
  have "mset (fold sink bs acc) = mset bs + mset acc" for acc by (induction bs arbitrary: acc) auto
  then show ?thesis by (simp add: sortBindings_def)
qed

lemma set_sortBindings [simp]: "set (sortBindings bs) = set bs"
  using mset_sortBindings by (metis set_mset_mset)

lemma set_sink [simp]: "set (sink b before) = insert b (set before)"
  by (induction b before rule: sink.induct) auto

lemma sorted_sink:
  "sorted_wrt (\<lambda>a b. \<not> moreSpecific b a) before \<Longrightarrow> sorted_wrt (\<lambda>a b. \<not> moreSpecific b a) (sink b before)"
proof (induction b before rule: sink.induct)
  case (2 b a before)
  show ?case
  proof (cases "moreSpecific a b")
    case True
    with 2 show ?thesis by (auto dest: moreSpecific_asym)
  next
    case False
    then have "\<not> moreSpecific y b" if "\<not> moreSpecific y a" for y using moreSpecific_weak that by blast
    with False 2(2) show ?thesis by simp
  qed
qed simp

lemma sorted_sortBindings: "sorted_wrt (\<lambda>a b. \<not> moreSpecific a b) (sortBindings bs)"
proof -
  have "sorted_wrt (\<lambda>a b. \<not> moreSpecific b a) acc \<Longrightarrow> sorted_wrt (\<lambda>a b. \<not> moreSpecific b a) (fold sink bs acc)"
    for acc by (induction bs arbitrary: acc) (auto intro: sorted_sink)
  from this [of "[]"] show ?thesis by (simp add: sortBindings_def sorted_wrt_rev)
qed

section \<open>Resolution\<close>

lemma sameScope_refl [simp]: "sameScope ds a a"
  by (simp add: sameScope_def split: option.splits)

lemma sameScope_declared:
  "ds a = Some da \<Longrightarrow> ds b = Some db \<Longrightarrow> sameScope ds a b \<longleftrightarrow> scopeOfType (pd_Type da) = scopeOfType (pd_Type db)"
  by (simp add: sameScope_def)

text \<open>The invariant of the two variables: \<open>seen\<close> is what \<open>out\<close> holds, and nothing is in it twice.\<close>

definition resolved_ok :: "resolved \<Rightarrow> bool" where
  "resolved_ok r \<longleftrightarrow> distinct (fst r) \<and> snd r = set (fst r)"

lemma replaceScope_ok [intro]: "resolved_ok r \<Longrightarrow> resolved_ok (replaceScope ds x r)"
  by (auto simp: resolved_ok_def replaceScope_def Let_def)

lemma add_provider_ok [intro]: "resolved_ok r \<Longrightarrow> resolved_ok (add_provider p r)"
  by (auto simp: resolved_ok_def add_provider_def)

lemma fold_ok: "(\<And>x r. x \<in> set xs \<Longrightarrow> resolved_ok r \<Longrightarrow> resolved_ok (f x r)) \<Longrightarrow> resolved_ok r \<Longrightarrow> resolved_ok (fold f xs r)"
  by (induction xs arbitrary: r) auto

lemma visit_ok [intro]: "resolved_ok r \<Longrightarrow> resolved_ok (visit ds b r)"
  by (auto simp: visit_def intro!: fold_ok)

lemma replaceScope_out:
  "resolved_ok r \<Longrightarrow> fst (replaceScope ds x r) = filter (\<lambda>y. \<not> sameScope ds y x) (fst r) @ [x]"
  by (auto simp: resolved_ok_def replaceScope_def Let_def)

text \<open>
  Replacing scope by scope: of what was there, the scopes not named stay, and of the replacements the last of
  each scope.
\<close>

fun keep_last :: "decls \<Rightarrow> string list \<Rightarrow> string list" where
  "keep_last ds [] = []"
| "keep_last ds (x # xs) = (if \<exists>y \<in> set xs. sameScope ds x y then [] else [x]) @ keep_last ds xs"

lemma set_keep_last: "set (keep_last ds xs) \<subseteq> set xs"
  by (induction ds xs rule: keep_last.induct) auto

lemma fold_replaceScope:
  "resolved_ok r \<Longrightarrow> fst (fold (replaceScope ds) xs r)
     = filter (\<lambda>y. \<forall>x \<in> set xs. \<not> sameScope ds y x) (fst r) @ keep_last ds xs"
proof (induction xs arbitrary: r)
  case (Cons x xs)
  from Cons.IH [OF replaceScope_ok [OF Cons.prems]] Cons.prems show ?case by (simp add: replaceScope_out conj_commute)
qed simp

definition matched :: "(string \<Rightarrow> string \<Rightarrow> bool) \<Rightarrow> Binding list \<Rightarrow> string \<Rightarrow> Mode \<Rightarrow> Binding list" where
  "matched glob bs ref mode = filter (\<lambda>b. matches glob b ref mode) (sortBindings bs)"

lemma visits_ok: "resolved_ok (fold (visit ds) ms ([], {}))"
  by (rule fold_ok, erule visit_ok) (simp add: resolved_ok_def)

lemma ResolveWithDecls_eq: "ResolveWithDecls glob bs ds ref mode = fst (fold (visit ds) (matched glob bs ref mode) ([], {}))"
  by (simp add: ResolveWithDecls_def ResolveWithOpts_def matched_def Let_def)

lemma fold_concat_lists: "fold (\<lambda>b. fold f (g b)) bs r = fold f (concat (map g bs)) r"
  by (induction bs arbitrary: r) auto

lemma ResolveWithOpts_eq:
  "ResolveWithOpts glob bs ds ref mode opts =
     (if \<not> rz_Local opts then ResolveWithDecls glob bs ds ref mode
      else fst (fold (replaceScope ds) (concat (map bd_Local (matched glob bs ref mode)) @ rz_LocalProviders opts)
             (fold (visit ds) (matched glob bs ref mode) ([], {}))))"
  by (simp add: ResolveWithDecls_eq ResolveWithOpts_def matched_def Let_def fold_concat_lists)

lemma distinct_ResolveWithDecls: "distinct (ResolveWithDecls glob bs ds ref mode)"
  using visits_ok by (simp add: ResolveWithDecls_eq resolved_ok_def)

lemma fold_add_set: "set (fst (fold add_provider ps r)) \<subseteq> set (fst r) \<union> set ps"
proof (induction ps arbitrary: r)
  case (Cons p ps)
  have "set (fst (add_provider p r)) \<subseteq> insert p (set (fst r))" by (simp add: add_provider_def subset_insertI)
  with Cons.IH [of "add_provider p r"] show ?case by auto
qed simp

lemma visit_overridden:
  assumes "resolved_ok r" and "o1 \<in> set (bd_Override b)" and "sameScope ds x o1" and "x \<in> set (fst (visit ds b r))"
  shows "x \<in> set (bd_Override b @ bd_Providers b)"
proof -
  have "x \<in> set (fst (fold (replaceScope ds) (bd_Override b) r)) \<union> set (bd_Providers b)"
    using assms(4) fold_add_set unfolding visit_def by fast
  then show ?thesis using assms(1-3) set_keep_last [of ds "bd_Override b"] by (auto simp: fold_replaceScope)
qed

lemma visit_new: "resolved_ok r \<Longrightarrow> set (fst (visit ds b r)) \<subseteq> set (fst r) \<union> set (bd_Override b @ bd_Providers b)"
  using fold_add_set [of "bd_Providers b" "fold (replaceScope ds) (bd_Override b) r"] set_keep_last [of ds "bd_Override b"]
  by (fastforce simp: visit_def fold_replaceScope)

lemma visits_new:
  "resolved_ok r \<Longrightarrow> set (fst (fold (visit ds) bs r)) \<subseteq> set (fst r) \<union> (\<Union>b \<in> set bs. set (bd_Override b @ bd_Providers b))"
proof (induction bs arbitrary: r)
  case (Cons b bs)
  have "set (fst (fold (visit ds) bs (visit ds b r)))
    \<subseteq> set (fst (visit ds b r)) \<union> (\<Union>b \<in> set bs. set (bd_Override b @ bd_Providers b))"
    using Cons by blast
  with visit_new [OF Cons.prems] show ?case by fastforce
qed simp

section \<open>Validation\<close>

definition scope_of :: "decls \<Rightarrow> string \<Rightarrow> string" where
  "scope_of ds n = (case ds n of None \<Rightarrow> '''' | Some d \<Rightarrow> scopeOfType (pd_Type d))"

lemma check_names_result:
  "check_names ds stack mode seen names = None \<longleftrightarrow>
     (\<forall>n \<in> set names. ds n \<noteq> None \<and> (\<forall>p. seen (scope_of ds n) = Some p \<longrightarrow> p = n)) \<and>
     (\<forall>n \<in> set names. \<forall>m \<in> set names. scope_of ds n = scope_of ds m \<longrightarrow> n = m)"
proof (induction ds stack mode seen names rule: check_names.induct)
  case (2 ds stack mode seen n names)
  show ?case
  proof (cases "ds n")
    case (Some d)
    then have s: "scopeOfType (pd_Type d) = scope_of ds n" by (simp add: scope_of_def)
    consider (other) p where "seen (scope_of ds n) = Some p" "p \<noteq> n" | (same) "seen (scope_of ds n) = Some n"
      | (none) "seen (scope_of ds n) = None" by (cases "seen (scope_of ds n)") auto
    then show ?thesis
    proof cases
      case other
      with Some s show ?thesis by auto
    next
      case same
      have "check_names ds stack mode (seen(scope_of ds n \<mapsto> n)) names = None \<longleftrightarrow>
          (\<forall>m \<in> set names. ds m \<noteq> None \<and> (\<forall>p. (seen(scope_of ds n \<mapsto> n)) (scope_of ds m) = Some p \<longrightarrow> p = m)) \<and>
          (\<forall>m \<in> set names. \<forall>k \<in> set names. scope_of ds m = scope_of ds k \<longrightarrow> m = k)"
        by (rule 2(2) [OF Some s [symmetric] same]) simp
      with same Some s show ?thesis by (simp only: check_names.simps option.case Let_def if_False simp_thms) auto
    next
      case none
      have "check_names ds stack mode (seen(scope_of ds n \<mapsto> n)) names = None \<longleftrightarrow>
          (\<forall>m \<in> set names. ds m \<noteq> None \<and> (\<forall>p. (seen(scope_of ds n \<mapsto> n)) (scope_of ds m) = Some p \<longrightarrow> p = m)) \<and>
          (\<forall>m \<in> set names. \<forall>k \<in> set names. scope_of ds m = scope_of ds k \<longrightarrow> m = k)"
        by (rule 2(1) [OF Some s [symmetric] none])
      with none Some s show ?thesis by (simp only: check_names.simps option.case Let_def if_False simp_thms) auto
    qed
  qed auto
qed simp

lemma first_fault_None: "first_fault es = None \<longleftrightarrow> (\<forall>e \<in> set es. e = None)"
  by (induction es rule: first_fault.induct) auto

definition unambiguous :: "decls \<Rightarrow> string list \<Rightarrow> bool" where
  "unambiguous ds names \<longleftrightarrow> (\<forall>n \<in> set names. ds n \<noteq> None) \<and> distinct (map (scope_of ds) names)"

lemma check_names_unambiguous:
  "distinct names \<Longrightarrow> check_names ds stack mode Map.empty names = None \<longleftrightarrow> unambiguous ds names"
  by (auto simp: check_names_result unambiguous_def distinct_map inj_on_def)

lemma auth_Validate_None:
  "auth_Validate glob bs ds stacks = None \<longleftrightarrow>
     (\<forall>b \<in> set bs. \<forall>n \<in> set (bd_Local b). \<exists>d. ds n = Some d \<and> \<not> IsCIOnlyType (pd_Type d)) \<and>
     (\<forall>stack \<in> set stacks. \<forall>mode \<in> {ModePreview, ModeApply, ModeDrift}.
        unambiguous ds (ResolveWithDecls glob bs ds stack mode))"
proof -
  have l: "check_local ds n = None \<longleftrightarrow> (\<exists>d. ds n = Some d \<and> \<not> IsCIOnlyType (pd_Type d))" for n
    by (auto simp: check_local_def split: option.splits)
  have n: "check_names ds stack mode Map.empty (ResolveWithDecls glob bs ds stack mode) = None
      \<longleftrightarrow> unambiguous ds (ResolveWithDecls glob bs ds stack mode)" for stack mode
    by (rule check_names_unambiguous [OF distinct_ResolveWithDecls])
  show ?thesis by (simp add: auth_Validate_def first_fault_None ball_Un l n)
qed

lemma unambiguous_replaced:
  assumes "unambiguous ds names" and "\<forall>x \<in> set xs. ds x \<noteq> None"
  shows "unambiguous ds (filter (\<lambda>y. \<forall>x \<in> set xs. \<not> sameScope ds y x) names @ keep_last ds xs)"
proof -
  have same: "sameScope ds a b \<longleftrightarrow> scope_of ds a = scope_of ds b" if "ds a \<noteq> None" "ds b \<noteq> None" for a b
    using that by (auto simp: sameScope_def scope_of_def)
  have kept: "distinct (map (scope_of ds) (keep_last ds xs))" using assms(2)
  proof (induction xs)
    case (Cons x xs)
    then show ?case using set_keep_last [of ds xs] same by fastforce
  qed simp
  with assms set_keep_last [of ds xs] same show ?thesis
    by (auto simp: unambiguous_def distinct_map_filter) (metis in_mono)+
qed

section \<open>What a stack gets\<close>

text \<open>
  An override takes effect on every more general binding: if a binding that matches the stack overrides a
  credential scope, every resolved provider of that scope is named by a matching binding that is not more
  general than the overriding one. No provider of a broader pattern stays active beside its override.
\<close>

theorem override_beats_general:
  assumes "c \<in> set bs" and "matches glob c ref mode" and "o1 \<in> set (bd_Override c)"
    and "x \<in> set (ResolveWithDecls glob bs ds ref mode)" and "sameScope ds x o1"
  shows "\<exists>b \<in> set bs. matches glob b ref mode \<and> x \<in> set (bd_Override b @ bd_Providers b) \<and> \<not> moreSpecific c b"
proof -
  have "c \<in> set (matched glob bs ref mode)" using assms(1,2) by (simp add: matched_def)
  then obtain as zs where ms: "matched glob bs ref mode = as @ c # zs" by (meson split_list)
  have "sorted_wrt (\<lambda>a b. \<not> moreSpecific a b) (matched glob bs ref mode)"
    unfolding matched_def by (rule sorted_wrt_filter [OF sorted_sortBindings])
  with ms have later: "\<forall>b \<in> set zs. \<not> moreSpecific c b" by (simp add: sorted_wrt_append)
  have ok: "resolved_ok (fold (visit ds) as ([], {}))" by (rule visits_ok)
  from assms(4) have "x \<in> set (fst (fold (visit ds) zs (visit ds c (fold (visit ds) as ([], {})))))"
    by (simp add: ResolveWithDecls_eq ms)
  with visits_new [OF visit_ok [OF ok]]
  have "x \<in> set (fst (visit ds c (fold (visit ds) as ([], {})))) \<or> (\<exists>b \<in> set zs. x \<in> set (bd_Override b @ bd_Providers b))"
    by blast
  with visit_overridden [OF ok assms(3,5)] obtain b where
    b: "b = c \<or> b \<in> set zs" "x \<in> set (bd_Override b @ bd_Providers b)" by blast
  then have "b \<in> set (matched glob bs ref mode)" and "\<not> moreSpecific c b" using ms later by auto
  with b show ?thesis by (auto simp: matched_def)
qed

text \<open>
  C0. In a local run the \<open>local\<close> lists of the matching bindings and then the command-line providers replace what
  the same resolution yields in CI, scope by scope: every provider whose scope none of them names stays, in
  order, and of the substitutes exactly the last one of each scope is active.
\<close>

theorem local_substitution_exact:
  "ResolveWithOpts glob bs ds ref mode \<lparr>rz_Local = True, rz_LocalProviders = cli\<rparr> =
     (let subst = concat (map bd_Local (matched glob bs ref mode)) @ cli in
      filter (\<lambda>y. \<forall>x \<in> set subst. \<not> sameScope ds y x) (ResolveWithDecls glob bs ds ref mode) @ keep_last ds subst)"
  by (simp only: ResolveWithOpts_eq ResolveWithDecls_eq fold_replaceScope [OF visits_ok] Let_def) simp

text \<open>
  The bindings the linter accepts are unambiguous: for every listed stack and every mode each active provider
  is declared and no two of them share a credential scope, in CI and, when the command line names declared
  providers only, in a local run.
\<close>

theorem validated_bindings_unambiguous:
  assumes "auth_Validate glob bs ds stacks = None" and "ref \<in> set stacks"
    and "mode \<in> {ModePreview, ModeApply, ModeDrift}" and "\<forall>x \<in> set (rz_LocalProviders opts). ds x \<noteq> None"
  shows "unambiguous ds (ResolveWithOpts glob bs ds ref mode opts)"
proof (cases "rz_Local opts")
  case True
  define subst where "subst = concat (map bd_Local (matched glob bs ref mode)) @ rz_LocalProviders opts"
  have "\<forall>x \<in> set subst. ds x \<noteq> None" using assms(1,4) by (fastforce simp: subst_def matched_def auth_Validate_None)
  moreover have "unambiguous ds (ResolveWithDecls glob bs ds ref mode)" using assms by (auto simp: auth_Validate_None)
  ultimately have "unambiguous ds (filter (\<lambda>y. \<forall>x \<in> set subst. \<not> sameScope ds y x)
      (ResolveWithDecls glob bs ds ref mode) @ keep_last ds subst)" by (rule unambiguous_replaced [rotated])
  with True show ?thesis
    by (simp only: ResolveWithOpts_eq ResolveWithDecls_eq fold_replaceScope [OF visits_ok] flip: subst_def) simp
next
  case False
  with assms show ?thesis by (auto simp: ResolveWithOpts_eq auth_Validate_None)
qed

section \<open>Concrete bindings\<close>

text \<open>
  A broad binding with an AWS and a Google provider, and a payments binding that overrides the AWS one and
  substitutes a local profile.
\<close>

definition demo_bindings :: "Binding list" where
  "demo_bindings =
     [\<lparr>bd_StackPattern = ''prod/pay'', bd_Mode = '''', bd_Providers = [], bd_Override = [''strict''], bd_Local = [''laptop'']\<rparr>,
      \<lparr>bd_StackPattern = ''prod/*'', bd_Mode = '''', bd_Providers = [''legacy'', ''gcp''], bd_Override = [], bd_Local = []\<rparr>]"

definition demo_decls :: decls where
  "demo_decls = map_of (map (\<lambda>(n, t). (n, \<lparr>pd_Name = n, pd_Type = t\<rparr>))
     [(''legacy'', ''aws_oidc''), (''strict'', ''aws_oidc''), (''gcp'', ''gcp_wif''), (''laptop'', ''aws_profile''),
      (''env1'', ''env_passthrough''), (''env2'', ''env_passthrough'')])"

definition demo_glob :: "string \<Rightarrow> string \<Rightarrow> bool" where
  "demo_glob p r \<longleftrightarrow> p = r \<or> p = ''prod/*'' \<and> HasPrefix r ''prod/''"

lemma demo_resolution:
  "ResolveWithDecls demo_glob demo_bindings demo_decls ''prod/pay'' ModeApply = [''gcp'', ''strict'']"
  "ResolveWithDecls demo_glob demo_bindings demo_decls ''prod/web'' ModeApply = [''legacy'', ''gcp'']"
  by code_simp+

theorem override_beats_general_witness:
  "\<exists>b \<in> set demo_bindings. matches demo_glob b ''prod/pay'' ModeApply
      \<and> ''strict'' \<in> set (bd_Override b @ bd_Providers b) \<and> \<not> moreSpecific (hd demo_bindings) b"
proof (rule override_beats_general [where ?o1.0 = "''strict''"])
  show "hd demo_bindings \<in> set demo_bindings" by (simp add: demo_bindings_def)
  show "matches demo_glob (hd demo_bindings) ''prod/pay'' ModeApply" by code_simp
  show "''strict'' \<in> set (bd_Override (hd demo_bindings))" by (simp add: demo_bindings_def)
  show "''strict'' \<in> set (ResolveWithDecls demo_glob demo_bindings demo_decls ''prod/pay'' ModeApply)"
    by (simp add: demo_resolution)
  show "sameScope demo_decls ''strict'' ''strict''" by simp
qed

theorem validated_bindings_unambiguous_witness:
  "unambiguous demo_decls (ResolveWithOpts demo_glob demo_bindings demo_decls ''prod/pay'' ModeApply
     \<lparr>rz_Local = True, rz_LocalProviders = [''gcp'']\<rparr>)"
proof (rule validated_bindings_unambiguous)
  show "auth_Validate demo_glob demo_bindings demo_decls [''prod/pay'', ''prod/web''] = None" by code_simp
  show "''prod/pay'' \<in> set [''prod/pay'', ''prod/web'']" by simp
  show "ModeApply \<in> {ModePreview, ModeApply, ModeDrift}" by simp
  show "\<forall>x \<in> set (rz_LocalProviders \<lparr>rz_Local = True, rz_LocalProviders = [''gcp'']\<rparr>). demo_decls x \<noteq> None"
    by (simp add: demo_decls_def)
qed

text \<open>
  Providers outside the cloud scopes get a scope of their own type, so two of them on one stack are a conflict,
  although the comment in \<open>scopeOfType\<close> says several are allowed.
\<close>

lemma two_passthrough_rejected:
  "auth_Validate demo_glob
     [\<lparr>bd_StackPattern = ''prod/*'', bd_Mode = '''', bd_Providers = [''env1'', ''env2''], bd_Override = [], bd_Local = []\<rparr>]
     demo_decls [''prod/web'']
   = Some (Conflict ''prod/web'' ModePreview ''other:env_passthrough'' ''env1'' ''env2'')"
  by code_simp

end
