(* ===== verification/Providers.thy ===== *)
theory Providers
  imports AuthBinding RunConfig PreviewLookup
begin

text \<open>
  Credential providers, \<open>internal/auth\<close>: the checks every exchange passes (\<open>exchange.go\<close>), the adapters of
  \<open>internal/auth/providers\<close> and \<open>internal/auth/githuboidc\<close>, and their construction from the configuration
  (\<open>factory/factory.go\<close>). The outside is the record \<open>Cloud\<close>: environment variables, the home directory, temporary
  directories, the clock, HTTP requests with their status and body, the calls into the vendors' SDKs, and the JSON
  decoders with the fields the source's structs name. A cleanup function of a credential is the directory it removes.
\<close>

subsection \<open>Credentials and the checks of an exchange\<close>

record Credential =
  crd_Env :: "(string \<times> string) list"
  crd_Kind :: string
  crd_Source :: string
  crd_ExpiresAt :: go_time
  crd_Cleanup :: "string option"

datatype ExchangeErr = ErrNoToken | ErrNoExpiry | ErrNoExpiryIn int | ErrExpired go_time

definition MaxExpiresInSeconds :: int where "MaxExpiresInSeconds = (2 ^ 63 - 1) div second"

definition ValidateExchange :: "string \<Rightarrow> go_time \<Rightarrow> go_time \<Rightarrow> ExchangeErr option" where
  "ValidateExchange token expiresAt now =
     (if token = '''' then Some ErrNoToken
      else if IsZero expiresAt then Some ErrNoExpiry
      else if \<not> now < expiresAt then Some (ErrExpired expiresAt)
      else None)"

definition ExpiresInToTime :: "int \<Rightarrow> go_time \<Rightarrow> ExchangeErr + go_time" where
  "ExpiresInToTime seconds now =
     (if seconds \<le> 0 \<or> MaxExpiresInSeconds < seconds then Inl (ErrNoExpiryIn seconds)
      else Inr (now + wrap64 (seconds * second)))"

text \<open>\<open>RefuseLocalInCI\<close> of \<open>provider.go\<close>: true when it refuses.\<close>

definition RefuseLocalInCI :: "string \<Rightarrow> string \<Rightarrow> bool" where
  "RefuseLocalInCI providerType envCI \<longleftrightarrow>
     providerType \<in> {''aws_profile'', ''aws_sso'', ''gcloud_adc''} \<and> (envCI = ''true'' \<or> envCI = ''1'')"

subsection \<open>The outside\<close>

datatype ReqBody = NoBody | FormBody "(string \<times> string) list" | LifetimeBody string string

record Request =
  hr_Post :: bool
  hr_URL :: string
  hr_Bearer :: string
  hr_Body :: ReqBody

record STSCreds =
  ts_AccessKeyId :: string
  ts_SecretAccessKey :: string
  ts_SessionToken :: string
  ts_Expiration :: go_time

datatype JVal = JString string | JOther

record Cloud =
  cw_LookupEnv :: "string \<Rightarrow> string option"
  cw_UserHomeDir :: "string + string"
  cw_MkdirTemp :: "string + string"
  cw_WriteCreds :: "string \<Rightarrow> string \<Rightarrow> string option"
  cw_Now :: go_time
  cw_Do :: "Request \<Rightarrow> string + int \<times> string"
  cw_AddAudience :: "string \<Rightarrow> string \<Rightarrow> string + string"
  cw_AssumeRole :: "string \<Rightarrow> string \<Rightarrow> string \<Rightarrow> string \<Rightarrow> int \<Rightarrow> string + STSCreds option"
  cw_GetSecretValue :: "string \<Rightarrow> string \<Rightarrow> string + string"
  cw_GetParameter :: "string \<Rightarrow> string \<Rightarrow> string + string"
  cw_GetVaultSecret :: "string \<Rightarrow> string \<Rightarrow> string + string"
  cw_SignJWT :: "int \<Rightarrow> string \<Rightarrow> string + string"
  cw_DecodeOIDC :: "string \<Rightarrow> string + string"
  cw_DecodeSTS :: "string \<Rightarrow> string + string"
  cw_DecodeIAM :: "string \<Rightarrow> string + string \<times> string"
  cw_DecodeAzure :: "string \<Rightarrow> string + string \<times> int"
  cw_DecodeGitHub :: "string \<Rightarrow> string + string \<times> go_time"
  cw_DecodeSecret :: "string \<Rightarrow> string option"
  cw_DecodeObject :: "string \<Rightarrow> (string \<times> JVal) list option"

definition Getenv :: "Cloud \<Rightarrow> string \<Rightarrow> string" where
  "Getenv C k = (case cw_LookupEnv C k of None \<Rightarrow> '''' | Some v \<Rightarrow> v)"

definition path_Join :: "string list \<Rightarrow> string" where
  "path_Join elems =
     (let es = filter (\<lambda>e. e \<noteq> '''') elems in if es = [] then '''' else path_Clean (Join es ''/''))"

datatype EnvMapErr = WholeObject string | NotObject string string | FieldMissing string string | FieldNotString string string

datatype ProvErr =
    NotInActions string
  | HostErr string
  | EmptyOIDCToken
  | BadStatus string int string
  | IncompleteSTS
  | Exchange ExchangeErr
  | BadExpireTime string
  | RefusedInCI string
  | NoHome string string
  | NotAcknowledged string
  | EmptySecretVar string
  | NoAccessToken
  | UnexpectedPayload
  | EmptyPayload
  | BadBase64
  | EnvMapErr string EnvMapErr

definition wrap_err :: "('e \<Rightarrow> ProvErr) \<Rightarrow> 'e + 'a \<Rightarrow> ProvErr + 'a" where
  "wrap_err f r = (case r of Inl e \<Rightarrow> Inl (f e) | Inr x \<Rightarrow> Inr x)"

definition bind_sum :: "'e + 'a \<Rightarrow> ('a \<Rightarrow> 'e + 'b) \<Rightarrow> 'e + 'b" where
  "bind_sum r f = (case r of Inl e \<Rightarrow> Inl e | Inr x \<Rightarrow> f x)"

definition check_exchange :: "string \<Rightarrow> go_time \<Rightarrow> go_time \<Rightarrow> 'a \<Rightarrow> ProvErr + 'a" where
  "check_exchange token expiresAt now x =
     (case ValidateExchange token expiresAt now of Some e \<Rightarrow> Inl (Exchange e) | None \<Rightarrow> Inr x)"

subsection \<open>The GitHub Actions identity token\<close>

definition Fetch :: "Cloud \<Rightarrow> string \<Rightarrow> string \<Rightarrow> ProvErr + string" where
  "Fetch C audience provider =
     (let endpoint = Getenv C ''ACTIONS_ID_TOKEN_REQUEST_URL'';
          tok = Getenv C ''ACTIONS_ID_TOKEN_REQUEST_TOKEN'' in
      if endpoint = '''' \<or> tok = '''' then Inl (NotInActions provider)
      else bind_sum (if audience = '''' then Inr endpoint else wrap_err HostErr (cw_AddAudience C endpoint audience)) (\<lambda>url.
        bind_sum (wrap_err HostErr (cw_Do C \<lparr>hr_Post = False, hr_URL = url, hr_Bearer = tok, hr_Body = NoBody\<rparr>))
          (\<lambda>(status, body).
            if status \<noteq> 200 then Inl (BadStatus ''oidc token service'' status (take 4096 body))
            else bind_sum (wrap_err HostErr (cw_DecodeOIDC C body)) (\<lambda>v.
              if v = '''' then Inl EmptyOIDCToken else Inr v))))"

subsection \<open>Secrets mapped to variables\<close>

definition isJSONObject :: "Cloud \<Rightarrow> string \<Rightarrow> bool" where
  "isJSONObject C raw \<longleftrightarrow> cw_DecodeObject C raw \<noteq> None"

definition extractJSONField :: "Cloud \<Rightarrow> string \<Rightarrow> string \<Rightarrow> string \<Rightarrow> EnvMapErr + string" where
  "extractJSONField C envKey raw field =
     (case cw_DecodeObject C raw of
        None \<Rightarrow> Inl (NotObject envKey field)
      | Some obj \<Rightarrow>
          (case map_of obj field of
             None \<Rightarrow> Inl (FieldMissing envKey field)
           | Some JOther \<Rightarrow> Inl (FieldNotString envKey field)
           | Some (JString s) \<Rightarrow> Inr s))"

fun applyEnvMap :: "Cloud \<Rightarrow> (string \<times> string) list \<Rightarrow> string \<Rightarrow> EnvMapErr + (string \<times> string) list" where
  "applyEnvMap C [] v = Inr []"
| "applyEnvMap C ((envKey, field) # m) v =
     bind_sum
       (if field = '''' then if isJSONObject C v then Inl (WholeObject envKey) else Inr v
        else extractJSONField C envKey v field)
       (\<lambda>x. bind_sum (applyEnvMap C m v) (\<lambda>out. Inr ((envKey, x) # out)))"

subsection \<open>Base64 (base64.go and \<open>base64StdDecode\<close>)\<close>

definition b64_std :: string where
  "b64_std = ''ABCDEFGHIJKLMNOPQRSTUVWXYZabcdefghijklmnopqrstuvwxyz0123456789+/''"

definition b64_url :: string where
  "b64_url = ''ABCDEFGHIJKLMNOPQRSTUVWXYZabcdefghijklmnopqrstuvwxyz0123456789-_''"

fun index_of :: "char \<Rightarrow> string \<Rightarrow> nat option" where
  "index_of c [] = None"
| "index_of c (d # ds) = (if c = d then Some 0 else map_option Suc (index_of c ds))"

definition byte_of :: "nat \<Rightarrow> char" where "byte_of n = char_of (n mod 256)"

text \<open>
  Go's decoder, on the input without line breaks: groups of four, the last one with one or two padding
  characters. The bits behind a padded group's last byte are not checked.
\<close>

fun b64_groups :: "string \<Rightarrow> string \<Rightarrow> string option" where
  "b64_groups alpha [] = Some []"
| "b64_groups alpha (a # b # c # d # rest) =
     (case (index_of a alpha, index_of b alpha) of
        (Some x, Some y) \<Rightarrow>
          if c = CHR ''='' \<and> d = CHR ''='' then
            if rest = [] then Some [byte_of (4 * x + y div 16)] else None
          else
            (case index_of c alpha of
               None \<Rightarrow> None
             | Some z \<Rightarrow>
                 if d = CHR ''='' then
                   if rest = [] then Some [byte_of (4 * x + y div 16), byte_of (16 * y + z div 4)] else None
                 else
                   (case index_of d alpha of
                      None \<Rightarrow> None
                    | Some w \<Rightarrow>
                        map_option (\<lambda>r. byte_of (4 * x + y div 16) # byte_of (16 * y + z div 4) # byte_of (64 * z + w) # r)
                          (b64_groups alpha rest)))
      | _ \<Rightarrow> None)"
| "b64_groups alpha s = None"

definition DecodeString :: "string \<Rightarrow> string \<Rightarrow> string option" where
  "DecodeString alpha s = b64_groups alpha (filter (\<lambda>c. c \<noteq> CHR 10 \<and> c \<noteq> CHR 13) s)"

definition stdB64Decode :: "string \<Rightarrow> string option" where "stdB64Decode s = DecodeString b64_std s"
definition urlB64Decode :: "string \<Rightarrow> string option" where "urlB64Decode s = DecodeString b64_url s"

definition base64StdDecode :: "string \<Rightarrow> ProvErr + string" where
  "base64StdDecode s0 =
     (let s = TrimSpace s0 in
      if s = '''' then Inl EmptyPayload
      else
        let padded = (if length s mod 4 \<noteq> 0 then s @ replicate (4 - length s mod 4) (CHR ''='') else s) in
        case stdB64Decode padded of
          Some out \<Rightarrow> Inr out
        | None \<Rightarrow> (case urlB64Decode padded of Some out \<Rightarrow> Inr out | None \<Rightarrow> Inl BadBase64))"

subsection \<open>The adapters\<close>

datatype ProviderInst =
    AWSOIDC string string string string string go_duration
  | GCPWIF string string string string go_duration
  | AzureFederated string string string string string go_duration
  | GitHubApp string int int string
  | AWSSecretsManager string string string "(string \<times> string) list" go_duration
  | AWSSSMParameter string string string "(string \<times> string) list"
  | GCPSecretManager string string "(string \<times> string) list"
  | AzureKeyVault string string string "(string \<times> string) list"
  | GitHubSecret string string "(string \<times> string) list"
  | AWSProfile string string string
  | AWSSSO string string string
  | GcloudADC string
  | EnvPassthrough string "(string \<times> string) list" bool

fun inst_Name :: "ProviderInst \<Rightarrow> string" where
  "inst_Name (AWSOIDC n _ _ _ _ _) = n"
| "inst_Name (GCPWIF n _ _ _ _) = n"
| "inst_Name (AzureFederated n _ _ _ _ _) = n"
| "inst_Name (GitHubApp n _ _ _) = n"
| "inst_Name (AWSSecretsManager n _ _ _ _) = n"
| "inst_Name (AWSSSMParameter n _ _ _) = n"
| "inst_Name (GCPSecretManager n _ _) = n"
| "inst_Name (AzureKeyVault n _ _ _) = n"
| "inst_Name (GitHubSecret n _ _) = n"
| "inst_Name (AWSProfile n _ _) = n"
| "inst_Name (AWSSSO n _ _) = n"
| "inst_Name (GcloudADC n) = n"
| "inst_Name (EnvPassthrough n _ _) = n"

fun inst_Type :: "ProviderInst \<Rightarrow> string" where
  "inst_Type (AWSOIDC _ _ _ _ _ _) = ''aws_oidc''"
| "inst_Type (GCPWIF _ _ _ _ _) = ''gcp_wif''"
| "inst_Type (AzureFederated _ _ _ _ _ _) = ''azure_federated''"
| "inst_Type (GitHubApp _ _ _ _) = ''github_app''"
| "inst_Type (AWSSecretsManager _ _ _ _ _) = ''aws_secrets_manager''"
| "inst_Type (AWSSSMParameter _ _ _ _) = ''aws_ssm_parameter''"
| "inst_Type (GCPSecretManager _ _ _) = ''gcp_secret_manager''"
| "inst_Type (AzureKeyVault _ _ _ _) = ''azure_key_vault''"
| "inst_Type (GitHubSecret _ _ _) = ''github_secret''"
| "inst_Type (AWSProfile _ _ _) = ''aws_profile''"
| "inst_Type (AWSSSO _ _ _) = ''aws_sso''"
| "inst_Type (GcloudADC _) = ''gcloud_adc''"
| "inst_Type (EnvPassthrough _ _ _) = ''env_passthrough''"

text \<open>\<open>int(d.Seconds())\<close>: whole seconds, towards zero.\<close>

definition whole_seconds :: "go_duration \<Rightarrow> int" where
  "whole_seconds d = (if d < 0 then - ((- d) div second) else d div second)"

definition region_env :: "string \<Rightarrow> (string \<times> string) list" where
  "region_env region =
     (if region = '''' then [] else [(''AWS_REGION'', region), (''AWS_DEFAULT_REGION'', region)])"

definition credential :: "(string \<times> string) list \<Rightarrow> string \<Rightarrow> string \<Rightarrow> go_time \<Rightarrow> Credential" where
  "credential env kind source expiresAt =
     \<lparr>crd_Env = env, crd_Kind = kind, crd_Source = source, crd_ExpiresAt = expiresAt, crd_Cleanup = None\<rparr>"

definition awsoidc_Acquire ::
  "Cloud \<Rightarrow> string \<Rightarrow> string \<Rightarrow> string \<Rightarrow> string \<Rightarrow> string \<Rightarrow> go_duration \<Rightarrow> ProvErr + Credential" where
  "awsoidc_Acquire C name roleARN sessionName region audience duration =
     bind_sum (Fetch C audience ''aws_oidc'') (\<lambda>token.
     bind_sum (wrap_err HostErr (cw_AssumeRole C region roleARN sessionName token (whole_seconds duration))) (\<lambda>out.
       case out of
         None \<Rightarrow> Inl IncompleteSTS
       | Some c \<Rightarrow>
           if ts_AccessKeyId c = '''' \<or> ts_SecretAccessKey c = '''' then Inl IncompleteSTS
           else check_exchange (ts_SessionToken c) (ts_Expiration c) (cw_Now C)
             (credential
               ([(''AWS_ACCESS_KEY_ID'', ts_AccessKeyId c), (''AWS_SECRET_ACCESS_KEY'', ts_SecretAccessKey c),
                 (''AWS_SESSION_TOKEN'', ts_SessionToken c)] @ region_env region)
               ''aws-sts'' name (ts_Expiration c))))"

definition exchangeSTS :: "Cloud \<Rightarrow> string \<Rightarrow> string \<Rightarrow> ProvErr + string" where
  "exchangeSTS C oidcToken wip =
     bind_sum (wrap_err HostErr (cw_Do C
       \<lparr>hr_Post = True, hr_URL = ''https://sts.googleapis.com/v1/token'', hr_Bearer = '''',
        hr_Body = FormBody
          [(''audience'', ''//iam.googleapis.com/'' @ wip),
           (''grant_type'', ''urn:ietf:params:oauth:grant-type:token-exchange''),
           (''requested_token_type'', ''urn:ietf:params:oauth:token-type:access_token''),
           (''scope'', ''https://www.googleapis.com/auth/cloud-platform''),
           (''subject_token_type'', ''urn:ietf:params:oauth:token-type:jwt''),
           (''subject_token'', oidcToken)]\<rparr>)) (\<lambda>(status, body).
       if status \<noteq> 200 then Inl (BadStatus ''sts'' status body) else wrap_err HostErr (cw_DecodeSTS C body))"

definition generateSAAccessToken :: "Cloud \<Rightarrow> string \<Rightarrow> string \<Rightarrow> go_duration \<Rightarrow> ProvErr + string \<times> go_time" where
  "generateSAAccessToken C stsToken sa ttl =
     bind_sum (wrap_err HostErr (cw_Do C
       \<lparr>hr_Post = True,
        hr_URL = ''https://iamcredentials.googleapis.com/v1/projects/-/serviceAccounts/'' @ sa @ '':generateAccessToken'',
        hr_Bearer = stsToken,
        hr_Body = LifetimeBody ''https://www.googleapis.com/auth/cloud-platform'' (itoa (whole_seconds ttl) @ ''s'')\<rparr>))
       (\<lambda>(status, rbody).
         if status \<noteq> 200 then Inl (BadStatus ''iamcredentials'' status rbody)
         else bind_sum (wrap_err HostErr (cw_DecodeIAM C rbody)) (\<lambda>(token, expireTime).
           case (if expireTime = '''' then Some zero_time else parse_rfc3339 expireTime) of
             None \<Rightarrow> Inl (BadExpireTime expireTime)
           | Some expiresAt \<Rightarrow> check_exchange token expiresAt (cw_Now C) (token, expiresAt)))"

text \<open>The directories it removes again, and the path and directory of the file.\<close>

definition writeAmbientCreds :: "Cloud \<Rightarrow> string \<Rightarrow> string \<Rightarrow> string list \<times> (ProvErr + string \<times> string)" where
  "writeAmbientCreds C name accessToken =
     (case cw_MkdirTemp C of
        Inl e \<Rightarrow> ([], Inl (HostErr e))
      | Inr dir \<Rightarrow>
          let path = path_Join [dir, ''reeve-'' @ name @ ''.json''] in
          case cw_WriteCreds C path accessToken of
            Some e \<Rightarrow> ([dir], Inl (HostErr e))
          | None \<Rightarrow> ([], Inr (path, dir)))"

definition gcpwif_Acquire ::
  "Cloud \<Rightarrow> string \<Rightarrow> string \<Rightarrow> string \<Rightarrow> string \<Rightarrow> go_duration \<Rightarrow> string list \<times> (ProvErr + Credential)" where
  "gcpwif_Acquire C name wip sa audience duration =
     (case bind_sum (Fetch C audience ''gcp_wif'') (\<lambda>oidcToken.
             bind_sum (exchangeSTS C oidcToken wip) (\<lambda>stsToken. generateSAAccessToken C stsToken sa duration)) of
        Inl e \<Rightarrow> ([], Inl e)
      | Inr (saToken, expiresAt) \<Rightarrow>
          (case writeAmbientCreds C name saToken of
             (gone, Inl e) \<Rightarrow> (gone, Inl e)
           | (gone, Inr (credPath, credDir)) \<Rightarrow>
               (gone, Inr (credential
                  [(''GOOGLE_APPLICATION_CREDENTIALS'', credPath), (''CLOUDSDK_AUTH_ACCESS_TOKEN'', saToken),
                   (''GOOGLE_OAUTH_ACCESS_TOKEN'', saToken)] ''gcp-sa'' name expiresAt
                  \<lparr>crd_Cleanup := Some credDir\<rparr>))))"

definition tokenExchange :: "Cloud \<Rightarrow> string \<Rightarrow> string \<Rightarrow> string \<Rightarrow> ProvErr + string \<times> go_time" where
  "tokenExchange C tenant clientID assertion =
     bind_sum (wrap_err HostErr (cw_Do C
       \<lparr>hr_Post = True, hr_URL = ''https://login.microsoftonline.com/'' @ tenant @ ''/oauth2/v2.0/token'', hr_Bearer = '''',
        hr_Body = FormBody
          [(''grant_type'', ''client_credentials''), (''client_id'', clientID),
           (''client_assertion_type'', ''urn:ietf:params:oauth:client-assertion-type:jwt-bearer''),
           (''client_assertion'', assertion), (''scope'', ''https://management.azure.com/.default'')]\<rparr>))
       (\<lambda>(status, body).
         if status \<noteq> 200 then Inl (BadStatus ''azure token exchange'' status body)
         else bind_sum (wrap_err HostErr (cw_DecodeAzure C body)) (\<lambda>(token, expiresIn).
           bind_sum (wrap_err Exchange (ExpiresInToTime expiresIn (cw_Now C))) (\<lambda>expiresAt.
             check_exchange token expiresAt (cw_Now C) (token, expiresAt))))"

definition azurefed_Acquire ::
  "Cloud \<Rightarrow> string \<Rightarrow> string \<Rightarrow> string \<Rightarrow> string \<Rightarrow> string \<Rightarrow> ProvErr + Credential" where
  "azurefed_Acquire C name tenantID clientID subscriptionID audience =
     bind_sum (Fetch C audience ''azure_federated'') (\<lambda>oidc.
     bind_sum (tokenExchange C tenantID clientID oidc) (\<lambda>(token, expiresAt).
       Inr (credential
         [(''AZURE_TENANT_ID'', tenantID), (''AZURE_CLIENT_ID'', clientID), (''AZURE_SUBSCRIPTION_ID'', subscriptionID),
          (''ARM_TENANT_ID'', tenantID), (''ARM_CLIENT_ID'', clientID), (''ARM_SUBSCRIPTION_ID'', subscriptionID),
          (''AZURE_ACCESS_TOKEN'', token), (''ARM_ACCESS_TOKEN'', token), (''AZURE_USE_OIDC'', ''true'')]
         ''azure-aad'' name expiresAt)))"

definition githubapp_Acquire :: "Cloud \<Rightarrow> string \<Rightarrow> int \<Rightarrow> int \<Rightarrow> string \<Rightarrow> ProvErr + Credential" where
  "githubapp_Acquire C name appID installationID key =
     bind_sum (wrap_err HostErr (cw_SignJWT C appID key)) (\<lambda>signed.
     bind_sum (wrap_err HostErr (cw_Do C
       \<lparr>hr_Post = True, hr_URL = ''https://api.github.com/app/installations/'' @ itoa installationID @ ''/access_tokens'',
        hr_Bearer = signed, hr_Body = NoBody\<rparr>)) (\<lambda>(status, body).
       if status \<noteq> 201 then Inl (BadStatus ''github app token'' status body)
       else bind_sum (wrap_err HostErr (cw_DecodeGitHub C body)) (\<lambda>(token, expiresAt).
         check_exchange token expiresAt (cw_Now C) (credential [(''GITHUB_TOKEN'', token)] ''github-app'' name expiresAt))))"

definition mapped_secret ::
  "Cloud \<Rightarrow> string \<Rightarrow> (string \<times> string) list \<Rightarrow> string \<Rightarrow> string \<Rightarrow> string \<Rightarrow> go_time \<Rightarrow> ProvErr + Credential" where
  "mapped_secret C what envMap v kind name expiresAt =
     bind_sum (wrap_err (EnvMapErr what) (applyEnvMap C envMap v)) (\<lambda>env. Inr (credential env kind name expiresAt))"

definition gcpsecret_Acquire :: "Cloud \<Rightarrow> string \<Rightarrow> string \<Rightarrow> (string \<times> string) list \<Rightarrow> ProvErr + Credential" where
  "gcpsecret_Acquire C name secretName envMap =
     (let token = Getenv C ''CLOUDSDK_AUTH_ACCESS_TOKEN'' in
      if token = '''' then Inl NoAccessToken
      else bind_sum (wrap_err HostErr (cw_Do C
        \<lparr>hr_Post = False, hr_URL = ''https://secretmanager.googleapis.com/v1/'' @ secretName @ '':access'',
         hr_Bearer = token, hr_Body = NoBody\<rparr>)) (\<lambda>(status, body).
        if status \<noteq> 200 then Inl (BadStatus ''secretmanager'' status body)
        else case cw_DecodeSecret C body of
               None \<Rightarrow> Inl UnexpectedPayload
             | Some payload \<Rightarrow>
                 if payload = '''' then Inl UnexpectedPayload
                 else bind_sum (base64StdDecode payload) (\<lambda>decoded.
                   mapped_secret C secretName envMap decoded ''gcp-secret'' name (cw_Now C + hour))))"

definition local_profile :: "Cloud \<Rightarrow> string \<Rightarrow> string \<Rightarrow> string \<Rightarrow> string \<Rightarrow> string \<Rightarrow> ProvErr + Credential" where
  "local_profile C type0 kind name profile region =
     (if RefuseLocalInCI type0 (Getenv C ''CI'') then Inl (RefusedInCI type0)
      else Inr (credential ((''AWS_PROFILE'', profile) # region_env region) kind name zero_time))"

definition gcloud_Acquire :: "Cloud \<Rightarrow> string \<Rightarrow> ProvErr + Credential" where
  "gcloud_Acquire C name =
     (if RefuseLocalInCI ''gcloud_adc'' (Getenv C ''CI'') then Inl (RefusedInCI ''gcloud_adc'')
      else case cw_UserHomeDir C of
             Inl e \<Rightarrow> Inl (NoHome name e)
           | Inr home \<Rightarrow>
               Inr (credential
                 [(''GOOGLE_APPLICATION_CREDENTIALS'',
                   path_Join [home, ''.config'', ''gcloud'', ''application_default_credentials.json''])]
                 ''gcloud-adc'' name zero_time))"

definition passthrough_Acquire :: "Cloud \<Rightarrow> string \<Rightarrow> (string \<times> string) list \<Rightarrow> bool \<Rightarrow> ProvErr + Credential" where
  "passthrough_Acquire C name envVars understand =
     (if \<not> understand then Inl (NotAcknowledged name)
      else Inr (credential
        (List.map_filter (\<lambda>(engineKey, hostKey). map_option (Pair engineKey) (cw_LookupEnv C hostKey)) envVars)
        ''env-passthrough'' name zero_time))"

definition github_secret_Acquire :: "Cloud \<Rightarrow> string \<Rightarrow> string \<Rightarrow> (string \<times> string) list \<Rightarrow> ProvErr + Credential" where
  "github_secret_Acquire C name envVar envMap =
     (let v = Getenv C envVar in
      if v = '''' then Inl (EmptySecretVar envVar)
      else mapped_secret C envVar (if envMap = [] then [(envVar, '''')] else envMap) v ''github-secret'' name zero_time)"

definition aws_secret_Acquire ::
  "Cloud \<Rightarrow> string \<Rightarrow> string \<Rightarrow> string \<Rightarrow> (string \<times> string) list \<Rightarrow> go_duration \<Rightarrow> ProvErr + Credential" where
  "aws_secret_Acquire C n secretID region envMap ttl =
     bind_sum (wrap_err HostErr (cw_GetSecretValue C region secretID)) (\<lambda>v.
       mapped_secret C secretID envMap v ''aws-secret'' n (cw_Now C + (if ttl = 0 then hour else ttl)))"

definition aws_ssm_Acquire ::
  "Cloud \<Rightarrow> string \<Rightarrow> string \<Rightarrow> string \<Rightarrow> (string \<times> string) list \<Rightarrow> ProvErr + Credential" where
  "aws_ssm_Acquire C n parameter region envMap =
     bind_sum (wrap_err HostErr (cw_GetParameter C region parameter)) (\<lambda>v.
       mapped_secret C parameter envMap v ''aws-ssm'' n (cw_Now C + hour))"

definition key_vault_Acquire ::
  "Cloud \<Rightarrow> string \<Rightarrow> string \<Rightarrow> string \<Rightarrow> (string \<times> string) list \<Rightarrow> ProvErr + Credential" where
  "key_vault_Acquire C n vaultName secretName envMap =
     bind_sum (wrap_err HostErr (cw_GetVaultSecret C (''https://'' @ vaultName @ ''.vault.azure.net'') secretName)) (\<lambda>v.
       mapped_secret C secretName envMap v ''azure-kv'' n (cw_Now C + hour))"

definition aws_profile_Acquire :: "Cloud \<Rightarrow> string \<Rightarrow> string \<Rightarrow> string \<Rightarrow> ProvErr + Credential" where
  "aws_profile_Acquire C = local_profile C ''aws_profile'' ''aws-profile''"

definition aws_sso_Acquire :: "Cloud \<Rightarrow> string \<Rightarrow> string \<Rightarrow> string \<Rightarrow> ProvErr + Credential" where
  "aws_sso_Acquire C = local_profile C ''aws_sso'' ''aws-sso''"

text \<open>\<open>Acquire\<close> of the instance: the directories removed on the way, and the credential.\<close>

fun Acquire :: "Cloud \<Rightarrow> ProviderInst \<Rightarrow> string list \<times> (ProvErr + Credential)" where
  "Acquire C (AWSOIDC n role session region audience d) = ([], awsoidc_Acquire C n role session region audience d)"
| "Acquire C (GCPWIF n wip sa audience d) = gcpwif_Acquire C n wip sa audience d"
| "Acquire C (AzureFederated n tenant client subscription audience d) =
     ([], azurefed_Acquire C n tenant client subscription audience)"
| "Acquire C (GitHubApp n appID instID key) = ([], githubapp_Acquire C n appID instID key)"
| "Acquire C (AWSSecretsManager n secretID region envMap ttl) = ([], aws_secret_Acquire C n secretID region envMap ttl)"
| "Acquire C (AWSSSMParameter n parameter region envMap) = ([], aws_ssm_Acquire C n parameter region envMap)"
| "Acquire C (GCPSecretManager n secretName envMap) = ([], gcpsecret_Acquire C n secretName envMap)"
| "Acquire C (AzureKeyVault n vaultName secretName envMap) = ([], key_vault_Acquire C n vaultName secretName envMap)"
| "Acquire C (GitHubSecret n envVar envMap) = ([], github_secret_Acquire C n envVar envMap)"
| "Acquire C (AWSProfile n profile region) = ([], aws_profile_Acquire C n profile region)"
| "Acquire C (AWSSSO n profile region) = ([], aws_sso_Acquire C n profile region)"
| "Acquire C (GcloudADC n) = ([], gcloud_Acquire C n)"
| "Acquire C (EnvPassthrough n envVars understand) = ([], passthrough_Acquire C n envVars understand)"

subsection \<open>Construction from the configuration (factory.go)\<close>

text \<open>
  A YAML number or string as it decodes into \<open>any\<close>; a finite \<open>float64\<close> is \<open>m * 2^e\<close>.
\<close>

datatype GoFloat = FNaN | FInf bool | FFin int int

datatype AnyVal = AnyNil | AnyInt int | AnyFloat GoFloat | AnyString string | AnyOther

record AuthProviderYAML = ProviderYAML +
  vy_RoleARN :: string
  vy_SessionName :: string
  vy_Region :: string
  vy_WorkloadIdentityProvider :: string
  vy_ServiceAccount :: string
  vy_TenantID :: string
  vy_ClientID :: string
  vy_SubscriptionID :: string
  vy_AudienceOverride :: string
  vy_SecretID :: string
  vy_Parameter :: string
  vy_GCPName :: string
  vy_VaultName :: string
  vy_SecretName :: string
  vy_EnvMap :: "(string \<times> string) list"
  vy_AppID :: AnyVal
  vy_InstallationID :: AnyVal
  vy_PrivateKey :: string
  vy_Profile :: string
  vy_EnvVars :: "(string \<times> string) list"
  vy_IUnderstandThisIsDangerous :: bool
  vy_EnvVar :: string

record BindingYAML =
  byl_Stack :: string
  byl_Mode :: string
  byl_Providers :: "string list"
  byl_Override :: "string list"
  byl_Local :: "string list"

record AuthYAML =
  ath_Providers :: "(string \<times> AuthProviderYAML) list"
  ath_Bindings :: "BindingYAML list"

datatype IdErr = IdRequired | IdNotInteger | IdOutOfRange | IdUnsupported

datatype FactoryErr =
    BadDuration string
  | BadTTL string
  | AppIdErr IdErr
  | InstallationIdErr IdErr
  | KeyRequired
  | KeyUnreadable string
  | KeyUnrecognised
  | UnknownType string
  | DuplicateName string

definition parseDurationOrZero :: "string \<Rightarrow> go_duration option" where
  "parseDurationOrZero s = (if s = '''' then Some 0 else ParseDuration s)"

definition parseInt64String :: "string \<Rightarrow> IdErr + int" where
  "parseInt64String s = (case Atoi (TrimSpace s) of None \<Rightarrow> Inl IdNotInteger | Some n \<Rightarrow> Inr n)"

text \<open>
  \<open>math.MaxInt64\<close> compared with a \<open>float64\<close> is \<open>2^63\<close>, its nearest float. The conversion of a float outside
  \<open>int64\<close> is left open by Go: \<open>oob\<close>.
\<close>

fun anyToInt64 :: "int \<Rightarrow> AnyVal \<Rightarrow> IdErr + int" where
  "anyToInt64 oob AnyNil = Inl IdRequired"
| "anyToInt64 oob (AnyInt n) = Inr n"
| "anyToInt64 oob (AnyFloat FNaN) = Inl IdNotInteger"
| "anyToInt64 oob (AnyFloat (FInf _)) = Inl IdOutOfRange"
| "anyToInt64 oob (AnyFloat (FFin m e)) =
     (if e < 0 \<and> m mod 2 ^ nat (- e) \<noteq> 0 then Inl IdNotInteger
      else let t = (if e < 0 then m div 2 ^ nat (- e) else m * 2 ^ nat e) in
           if 2 ^ 63 < t \<or> t < - (2 ^ 63) then Inl IdOutOfRange
           else if t < 2 ^ 63 then Inr t else Inr oob)"
| "anyToInt64 oob (AnyString s) = parseInt64String s"
| "anyToInt64 oob AnyOther = Inl IdUnsupported"

text \<open>The file system: whether a path exists, and what reading it gives.\<close>

definition loadPrivateKey :: "(string \<Rightarrow> bool) \<Rightarrow> (string \<Rightarrow> string + string) \<Rightarrow> string \<Rightarrow> FactoryErr + string" where
  "loadPrivateKey exists read src =
     (if src = '''' then Inl KeyRequired
      else if 10 < length src \<and> take 11 src = ''-----BEGIN '' then Inr src
      else if exists src then (case read src of Inl e \<Rightarrow> Inl (KeyUnreadable e) | Inr b \<Rightarrow> Inr b)
      else case stdB64Decode src of None \<Rightarrow> Inl KeyUnrecognised | Some b \<Rightarrow> Inr b)"

text \<open>The constructors of the adapters with their defaults.\<close>

definition or_default :: "'a \<Rightarrow> 'a \<Rightarrow> 'a \<Rightarrow> 'a" where "or_default zero d x = (if x = zero then d else x)"

definition new_awsoidc :: "string \<Rightarrow> string \<Rightarrow> string \<Rightarrow> string \<Rightarrow> string \<Rightarrow> go_duration \<Rightarrow> ProviderInst" where
  "new_awsoidc name roleARN sessionName region audience duration =
     AWSOIDC name roleARN (or_default '''' ''reeve'' sessionName) region
       (or_default '''' ''sts.amazonaws.com'' audience) (or_default 0 hour duration)"

definition new_gcpwif :: "string \<Rightarrow> string \<Rightarrow> string \<Rightarrow> string \<Rightarrow> go_duration \<Rightarrow> ProviderInst" where
  "new_gcpwif name wip sa audience duration =
     GCPWIF name wip sa (or_default '''' (''//iam.googleapis.com/'' @ wip) audience) (or_default 0 hour duration)"

definition new_azurefed :: "string \<Rightarrow> string \<Rightarrow> string \<Rightarrow> string \<Rightarrow> string \<Rightarrow> go_duration \<Rightarrow> ProviderInst" where
  "new_azurefed name tenant client subscription audience duration =
     AzureFederated name tenant client subscription (or_default '''' ''api://AzureADTokenExchange'' audience)
       (or_default 0 hour duration)"

definition build_github_app ::
  "int \<Rightarrow> (string \<Rightarrow> bool) \<Rightarrow> (string \<Rightarrow> string + string) \<Rightarrow> string \<Rightarrow> AuthProviderYAML \<Rightarrow> FactoryErr + ProviderInst" where
  "build_github_app oob exists read name d =
     (case anyToInt64 oob (vy_AppID d) of
        Inl e \<Rightarrow> Inl (AppIdErr e)
      | Inr appID \<Rightarrow>
          (case anyToInt64 oob (vy_InstallationID d) of
             Inl e \<Rightarrow> Inl (InstallationIdErr e)
           | Inr instID \<Rightarrow>
               (case loadPrivateKey exists read (vy_PrivateKey d) of
                  Inl e \<Rightarrow> Inl e
                | Inr key \<Rightarrow> Inr (GitHubApp name appID instID key))))"

definition buildOne ::
  "int \<Rightarrow> (string \<Rightarrow> bool) \<Rightarrow> (string \<Rightarrow> string + string) \<Rightarrow> string \<Rightarrow> AuthProviderYAML \<Rightarrow> FactoryErr + ProviderInst" where
  "buildOne oob exists read name d =
     (case parseDurationOrZero (vy_Duration d) of
        None \<Rightarrow> Inl (BadDuration (vy_Duration d))
      | Some dur \<Rightarrow>
     (case parseDurationOrZero (vy_TTL d) of
        None \<Rightarrow> Inl (BadTTL (vy_TTL d))
      | Some ttl \<Rightarrow>
          let t = vy_Type d in
          if t = ''aws_oidc'' then
            Inr (new_awsoidc name (vy_RoleARN d) (vy_SessionName d) (vy_Region d) (vy_AudienceOverride d) dur)
          else if t = ''gcp_wif'' then
            Inr (new_gcpwif name (vy_WorkloadIdentityProvider d) (vy_ServiceAccount d) (vy_AudienceOverride d) dur)
          else if t = ''azure_federated'' then
            Inr (new_azurefed name (vy_TenantID d) (vy_ClientID d) (vy_SubscriptionID d) (vy_AudienceOverride d) dur)
          else if t = ''github_app'' then build_github_app oob exists read name d
          else if t = ''aws_secrets_manager'' then
            Inr (AWSSecretsManager name (vy_SecretID d) (vy_Region d) (vy_EnvMap d) ttl)
          else if t = ''aws_ssm_parameter'' then Inr (AWSSSMParameter name (vy_Parameter d) (vy_Region d) (vy_EnvMap d))
          else if t = ''gcp_secret_manager'' then Inr (GCPSecretManager name (vy_GCPName d) (vy_EnvMap d))
          else if t = ''azure_key_vault'' then Inr (AzureKeyVault name (vy_VaultName d) (vy_SecretName d) (vy_EnvMap d))
          else if t = ''github_secret'' then Inr (GitHubSecret name (vy_EnvVar d) (vy_EnvMap d))
          else if t = ''aws_profile'' then Inr (AWSProfile name (vy_Profile d) (vy_Region d))
          else if t = ''aws_sso'' then Inr (AWSSSO name (vy_Profile d) (vy_Region d))
          else if t = ''gcloud_adc'' then Inr (GcloudADC name)
          else if t = ''env_passthrough'' then Inr (EnvPassthrough name (vy_EnvVars d) (vy_IUnderstandThisIsDangerous d))
          else Inl (UnknownType t)))"

subsection \<open>The registry\<close>

type_synonym Registry = "(string \<times> ProviderInst) list"

definition Register :: "Registry \<Rightarrow> ProviderInst \<Rightarrow> Registry option" where
  "Register r p = (case map_of r (inst_Name p) of Some _ \<Rightarrow> None | None \<Rightarrow> Some (map_put (inst_Name p) p r))"

definition registry_Get :: "Registry \<Rightarrow> string \<Rightarrow> ProviderInst option" where
  "registry_Get r name = map_of r name"

fun build_loop ::
  "int \<Rightarrow> (string \<Rightarrow> bool) \<Rightarrow> (string \<Rightarrow> string + string) \<Rightarrow> Registry \<Rightarrow> (string \<times> AuthProviderYAML) list
     \<Rightarrow> (string \<times> FactoryErr) + Registry" where
  "build_loop oob exists read r [] = Inr r"
| "build_loop oob exists read r ((name, decl) # ps) =
     (case buildOne oob exists read name decl of
        Inl e \<Rightarrow> Inl (name, e)
      | Inr p \<Rightarrow> (case Register r p of
                    None \<Rightarrow> Inl (name, DuplicateName name)
                  | Some r' \<Rightarrow> build_loop oob exists read r' ps))"

definition Build ::
  "int \<Rightarrow> (string \<Rightarrow> bool) \<Rightarrow> (string \<Rightarrow> string + string) \<Rightarrow> AuthYAML option \<Rightarrow> (string \<times> FactoryErr) + Registry" where
  "Build oob exists read cfg = (case cfg of None \<Rightarrow> Inr [] | Some c \<Rightarrow> build_loop oob exists read [] (ath_Providers c))"

subsection \<open>The lint of the section\<close>

datatype LintErr =
    NeedsAcknowledgement string
  | NeedsEnvMap string string
  | LintDuration string string
  | LintTTL string string
  | LintBinding BindingErr

definition lint_provider :: "string \<times> AuthProviderYAML \<Rightarrow> LintErr option" where
  "lint_provider = (\<lambda>(name, d).
     if vy_Type d = ''env_passthrough'' \<and> \<not> vy_IUnderstandThisIsDangerous d then Some (NeedsAcknowledgement name)
     else if vy_Type d \<in> {''aws_secrets_manager'', ''aws_ssm_parameter'', ''gcp_secret_manager'', ''azure_key_vault''}
         \<and> vy_EnvMap d = [] then Some (NeedsEnvMap name (vy_Type d))
     else if vy_Duration d \<noteq> '''' \<and> ParseDuration (vy_Duration d) = None then Some (LintDuration name (vy_Duration d))
     else if vy_TTL d \<noteq> '''' \<and> ParseDuration (vy_TTL d) = None then Some (LintTTL name (vy_TTL d))
     else None)"

definition bindings_of :: "AuthYAML \<Rightarrow> Binding list" where
  "bindings_of cfg =
     map (\<lambda>b. \<lparr>bd_StackPattern = byl_Stack b, bd_Mode = byl_Mode b, bd_Providers = byl_Providers b,
               bd_Override = byl_Override b, bd_Local = byl_Local b\<rparr>) (ath_Bindings cfg)"

definition decls_of :: "AuthYAML \<Rightarrow> decls" where
  "decls_of cfg n = map_option (\<lambda>d. \<lparr>pd_Name = n, pd_Type = vy_Type d\<rparr>) (map_of (ath_Providers cfg) n)"

definition ValidateLint :: "(string \<Rightarrow> string \<Rightarrow> bool) \<Rightarrow> AuthYAML option \<Rightarrow> string list \<Rightarrow> LintErr option" where
  "ValidateLint glob cfg stackRefs =
     (case cfg of
        None \<Rightarrow> None
      | Some c \<Rightarrow>
          (case first_fault (map lint_provider (ath_Providers c)) of
             Some e \<Rightarrow> Some e
           | None \<Rightarrow> map_option LintBinding (auth_Validate glob (bindings_of c) (decls_of c) stackRefs)))"

section \<open>Exchanges\<close>

lemma expires_in_exact:
  "ExpiresInToTime s now = Inr t \<longleftrightarrow> 0 < s \<and> s * second < 2 ^ 63 \<and> t = now + s * second"
proof -
  have m: "MaxExpiresInSeconds < s \<longleftrightarrow> \<not> s * second < 2 ^ 63" if "0 < s"
    using that by (auto simp: MaxExpiresInSeconds_def second_def)
  have w: "wrap64 (s * second) = s * second" if "0 < s" "s * second < 2 ^ 63"
    using that by (intro wrap64_id) (auto simp: second_def)
  show ?thesis using m w by (auto simp: ExpiresInToTime_def)
qed

lemma bind_sum_simps [simp]: "bind_sum (Inr x) f = f x" "bind_sum (Inl e) f = Inl e"
  by (simp_all add: bind_sum_def)

lemma bind_sum_Inr [simp]: "bind_sum r f = Inr y \<longleftrightarrow> (\<exists>x. r = Inr x \<and> f x = Inr y)"
  by (auto simp: bind_sum_def split: sum.splits)

lemma wrap_err_Inr [simp]: "wrap_err f r = Inr x \<longleftrightarrow> r = Inr x"
  by (auto simp: wrap_err_def split: sum.splits)

definition live :: "go_time \<Rightarrow> string \<Rightarrow> go_time \<Rightarrow> bool" where
  "live now token expiresAt \<longleftrightarrow> token \<noteq> '''' \<and> expiresAt \<noteq> zero_time \<and> now < expiresAt"

lemma check_exchange_Inr [simp]: "check_exchange token e now x = Inr y \<longleftrightarrow> live now token e \<and> y = x"
  by (auto simp: check_exchange_def ValidateExchange_def live_def IsZero_def split: if_splits)

text \<open>The variable that carries the token of a federated provider.\<close>

fun token_var :: "ProviderInst \<Rightarrow> string option" where
  "token_var (AWSOIDC _ _ _ _ _ _) = Some ''AWS_SESSION_TOKEN''"
| "token_var (GCPWIF _ _ _ _ _) = Some ''GOOGLE_OAUTH_ACCESS_TOKEN''"
| "token_var (AzureFederated _ _ _ _ _ _) = Some ''ARM_ACCESS_TOKEN''"
| "token_var (GitHubApp _ _ _ _) = Some ''GITHUB_TOKEN''"
| "token_var _ = None"

lemma token_not_fetched: "token_var p = Some k \<Longrightarrow> inst_Type p \<in> {''aws_oidc'', ''gcp_wif'', ''azure_federated'', ''github_app''}"
  by (cases p) auto

text \<open>
  C27. A federated provider (AWS, Google, Azure, GitHub App) that succeeds hands out a live credential: the token
  variable is set to a non-empty token, and the expiry is present and in the future, so no short-lived token is
  ever advertised as one without an expiry.
\<close>

theorem federated_credentials_live:
  assumes "Acquire C p = (gone, Inr c)" and "token_var p = Some k"
  shows "\<exists>token. map_of (crd_Env c) k = Some token \<and> live (cw_Now C) token (crd_ExpiresAt c)"
  using assms
  by (cases p) (auto simp: awsoidc_Acquire_def gcpwif_Acquire_def azurefed_Acquire_def tokenExchange_def githubapp_Acquire_def
      generateSAAccessToken_def credential_def region_env_def split: option.splits if_splits sum.splits prod.splits)

section \<open>Secrets\<close>

text \<open>What a field of a secret may yield.\<close>

definition exports :: "Cloud \<Rightarrow> string \<Rightarrow> string \<Rightarrow> string \<Rightarrow> bool" where
  "exports C v field x \<longleftrightarrow>
     (if field = '''' then x = v \<and> cw_DecodeObject C v = None
      else \<exists>obj. cw_DecodeObject C v = Some obj \<and> map_of obj field = Some (JString x))"

lemma extract_exports: "field \<noteq> '''' \<Longrightarrow> extractJSONField C k v field = Inr x \<Longrightarrow> exports C v field x"
  by (auto simp: exports_def extractJSONField_def split: option.splits JVal.splits)

lemma whole_exports: "\<not> isJSONObject C v \<Longrightarrow> exports C v '''' v"
  by (simp add: exports_def isJSONObject_def)

text \<open>
  The mapping of a secret to variables fails closed: it sets the configured variables and no others, and every
  value is either the named string field of the secret object, or, where no field is named, the whole secret,
  which then is not a JSON object. A credential bundle is never exported wholesale.
\<close>

theorem secret_export_fails_closed:
  assumes "applyEnvMap C m v = Inr env"
  shows "list_all2 (\<lambda>(k, field) (k', x). k' = k \<and> exports C v field x) m env"
  using assms
  by (induction C m v arbitrary: env rule: applyEnvMap.induct)
    (auto split: if_splits intro: extract_exports whole_exports)

section \<open>Base64\<close>

text \<open>The encoder of RFC 4648 as the reference: groups of three bytes, the last one padded or not.\<close>

definition sextet :: "string \<Rightarrow> nat \<Rightarrow> char" where "sextet alpha n = alpha ! (n mod 64)"

fun b64_encode :: "string \<Rightarrow> bool \<Rightarrow> string \<Rightarrow> string" where
  "b64_encode alpha padded [] = []"
| "b64_encode alpha padded [a] =
     (let x = of_char a in
      [sextet alpha (x div 4), sextet alpha (16 * x)] @ (if padded then ''=='' else ''''))"
| "b64_encode alpha padded [a, b] =
     (let x = of_char a; y = of_char b in
      [sextet alpha (x div 4), sextet alpha (16 * x + y div 16), sextet alpha (4 * y)] @ (if padded then ''='' else ''''))"
| "b64_encode alpha padded (a # b # c # rest) =
     (let x = of_char a; y = of_char b; z = of_char c in
      [sextet alpha (x div 4), sextet alpha (16 * x + y div 16), sextet alpha (4 * y + z div 64), sextet alpha z]
        @ b64_encode alpha padded rest)"

text \<open>What decoding relies on in an alphabet.\<close>

definition b64_alphabet :: "string \<Rightarrow> bool" where
  "b64_alphabet alpha \<longleftrightarrow> length alpha = 64 \<and> distinct alpha \<and> list_all graph_char alpha \<and> CHR ''='' \<notin> set alpha"

lemma b64_alphabets [simp]: "b64_alphabet b64_std" "b64_alphabet b64_url"
  by code_simp+

lemma index_of_nth: "distinct alpha \<Longrightarrow> i < length alpha \<Longrightarrow> index_of (alpha ! i) alpha = Some i"
proof (induction alpha arbitrary: i)
  case (Cons d ds)
  then show ?case by (cases i) (auto simp: nth_mem)
qed simp

lemma index_of_mem: "index_of c alpha = Some i \<Longrightarrow> c \<in> set alpha"
  by (induction c alpha arbitrary: i rule: index_of.induct) (auto split: if_splits)

lemma index_sextet [simp]: "b64_alphabet alpha \<Longrightarrow> index_of (sextet alpha n) alpha = Some (n mod 64)"
  by (simp add: b64_alphabet_def sextet_def index_of_nth)

lemma sextet_in: "b64_alphabet alpha \<Longrightarrow> sextet alpha n \<in> set alpha"
  by (simp add: b64_alphabet_def sextet_def)

lemma sextet_not_pad [simp]: "b64_alphabet alpha \<Longrightarrow> sextet alpha n \<noteq> CHR ''=''"
  using sextet_in [of alpha n] by (auto simp: b64_alphabet_def)

lemma sextet_graph: "b64_alphabet alpha \<Longrightarrow> graph_char (sextet alpha n)"
  using sextet_in [of alpha n] by (auto simp: b64_alphabet_def list_all_iff)

lemma shift_mod:
  fixes x v :: nat
  shows "v < 16 \<Longrightarrow> (16 * x + v) mod 64 = 16 * (x mod 4) + v" "v < 4 \<Longrightarrow> (4 * x + v) mod 64 = 4 * (x mod 16) + v"
  using mod_mult2_eq [of "16 * x + v" 16 4] mod_mult2_eq [of "4 * x + v" 4 16] by simp_all

lemma byte_bits:
  fixes x y z :: nat
  assumes "x < 256" "y < 256" "z < 256"
  shows "(4 * (x div 4 mod 64) + (16 * x + y div 16) mod 64 div 16) mod 256 = x"
    and "(16 * ((16 * x + y div 16) mod 64) + (4 * y + z div 64) mod 64 div 4) mod 256 = y"
    and "(64 * ((4 * y + z div 64) mod 64) + z mod 64) mod 256 = z"
proof -
  have v: "y div 16 < 16" "z div 64 < 4" "x div 4 < 64" using assms by auto
  have "4 * (x div 4) + x mod 4 = x" by simp
  with v assms show "(4 * (x div 4 mod 64) + (16 * x + y div 16) mod 64 div 16) mod 256 = x"
    by (simp add: shift_mod)
  have "16 * ((16 * x + y div 16) mod 64) + (4 * y + z div 64) mod 64 div 4 = 256 * (x mod 4) + (16 * (y div 16) + y mod 16)"
    using v by (simp add: shift_mod)
  then have "16 * ((16 * x + y div 16) mod 64) + (4 * y + z div 64) mod 64 div 4 = 256 * (x mod 4) + y" by simp
  then show "(16 * ((16 * x + y div 16) mod 64) + (4 * y + z div 64) mod 64 div 4) mod 256 = y" using assms by simp
  have "64 * ((4 * y + z div 64) mod 64) + z mod 64 = 256 * (y mod 16) + (64 * (z div 64) + z mod 64)"
    using v by (simp add: shift_mod)
  then have "64 * ((4 * y + z div 64) mod 64) + z mod 64 = 256 * (y mod 16) + z" by simp
  then show "(64 * ((4 * y + z div 64) mod 64) + z mod 64) mod 256 = z" using assms by simp
qed

lemma of_char_less [simp]: "(of_char c :: nat) < 256"
  using of_char_mod_256 [of c, where ?'a = nat] by (metis mod_less_divisor zero_less_numeral)

lemma byte_chars:
  "byte_of (4 * (of_char a div 4 mod 64) + (16 * of_char a + of_char b div 16) mod 64 div 16) = a"
  "byte_of (16 * ((16 * of_char a + of_char b div 16) mod 64) + (4 * of_char b + of_char c div 64) mod 64 div 4) = b"
  "byte_of (64 * ((4 * of_char b + of_char c div 64) mod 64) + of_char c mod 64) = c"
  using byte_bits [of "of_char a" "of_char b" "of_char c"] by (simp_all only: byte_of_def of_char_less char_of_char)

lemma last_chars:
  "byte_of (4 * (of_char a div 4 mod 64) + 16 * of_char a mod 64 div 16) = a"
  "byte_of (16 * ((16 * of_char a + of_char b div 16) mod 64) + 4 * of_char b mod 64 div 4) = b"
proof -
  have z: "of_char (CHR 0x00) = (0 :: nat)" by simp
  show "byte_of (4 * (of_char a div 4 mod 64) + 16 * of_char a mod 64 div 16) = a"
    using byte_chars(1) [of a "CHR 0x00"] by (simp only: z div_0 add_0_right)
  show "byte_of (16 * ((16 * of_char a + of_char b div 16) mod 64) + 4 * of_char b mod 64 div 4) = b"
    using byte_chars(2) [of a b "CHR 0x00"] by (simp only: z div_0 add_0_right)
qed

lemma groups_encode: "b64_alphabet alpha \<Longrightarrow> b64_groups alpha (b64_encode alpha True s) = Some s"
  by (induction alpha True s rule: b64_encode.induct)
    (simp_all add: Let_def byte_chars last_chars)

text \<open>A text both alphabets can read means the same in both.\<close>

lemma index_agree: "index_of c b64_std = Some i \<Longrightarrow> index_of c b64_url = Some j \<Longrightarrow> i = j"
proof -
  have "list_all (\<lambda>c. index_of c b64_url = None \<or> index_of c b64_url = index_of c b64_std) b64_std" by code_simp
  moreover assume a: "index_of c b64_std = Some i" and "index_of c b64_url = Some j"
  moreover have "c \<in> set b64_std" using a by (rule index_of_mem)
  ultimately show "i = j" unfolding list_all_iff by (metis option.distinct(1) option.inject)
qed

lemma groups_same:
  assumes "\<And>c i j. index_of c alpha = Some i \<Longrightarrow> index_of c beta = Some j \<Longrightarrow> i = j"
    and "b64_groups alpha s = Some a" and "b64_groups beta s = Some b"
  shows "a = b"
  using assms
proof (induction alpha s arbitrary: a b rule: b64_groups.induct)
  case (2 alpha p q r t rest)
  have ag: "index_of c beta = None \<or> index_of c beta = index_of c alpha \<or> index_of c alpha = None" for c
    using 2(2) by (metis not_None_eq)
  from 2(3) obtain x y where xy: "index_of p alpha = Some x" "index_of q alpha = Some y"
    by (auto split: option.splits)
  with 2(4) ag [of p] ag [of q] have xy': "index_of p beta = Some x" "index_of q beta = Some y"
    by (auto split: option.splits)
  show ?case
  proof (cases "r = CHR ''='' \<and> t = CHR ''=''")
    case True
    with 2(3,4) xy xy' show ?thesis by (simp split: if_splits)
  next
    case False
    with 2(3) xy obtain z where z: "index_of r alpha = Some z" by (simp split: option.splits)
    with False 2(4) xy' ag [of r] have z': "index_of r beta = Some z" by (auto simp del: de_Morgan_conj split: option.splits)
    show ?thesis
    proof (cases "t = CHR ''=''")
      case True
      with False 2(3,4) xy xy' z z' show ?thesis by (simp split: if_splits)
    next
      case t: False
      with False 2(3) xy z obtain w a' where w: "index_of t alpha = Some w" "b64_groups alpha rest = Some a'"
        "a = byte_of (4 * x + y div 16) # byte_of (16 * y + z div 4) # byte_of (64 * z + w) # a'"
        by (auto simp del: de_Morgan_conj split: option.splits)
      with t False 2(4) xy' z' ag [of t] obtain b' where b': "index_of t beta = Some w" "b64_groups beta rest = Some b'"
        "b = byte_of (4 * x + y div 16) # byte_of (16 * y + z div 4) # byte_of (64 * z + w) # b'"
        by (auto simp del: de_Morgan_conj split: option.splits)
      have "a' = b'" using 2(1) [OF refl xy False z t w(1) 2(2) w(2) b'(2)] .
      with w b' show ?thesis by simp
    qed
  qed
qed auto

lemma groups_agree: "b64_groups b64_std s = Some a \<Longrightarrow> b64_groups b64_url s = Some b \<Longrightarrow> a = b"
  using groups_same [OF index_agree] .

definition pad4 :: "string \<Rightarrow> string" where
  "pad4 s = (if length s mod 4 \<noteq> 0 then s @ replicate (4 - length s mod 4) (CHR ''='') else s)"

lemma pad4_encode: "pad4 (b64_encode alpha padded s) = b64_encode alpha True s"
proof (induction alpha padded s rule: b64_encode.induct)
  case (4 alpha padded a b c rest)
  then show ?case by (auto simp: Let_def pad4_def split: if_splits)
qed (auto simp: Let_def pad4_def numeral_2_eq_2)

lemma encode_graph: "b64_alphabet alpha \<Longrightarrow> list_all graph_char (b64_encode alpha padded s)"
proof -
  have "graph_char (CHR ''='')" by code_simp
  then show "b64_alphabet alpha \<Longrightarrow> list_all graph_char (b64_encode alpha padded s)"
    by (induction alpha padded s rule: b64_encode.induct) (auto simp: Let_def sextet_graph)
qed

lemma TrimSpace_all_graph: "list_all graph_char s \<Longrightarrow> TrimSpace s = s"
proof (cases s rule: rev_cases)
  case Nil
  moreover have "TrimSpace [] = []" by code_simp
  ultimately show ?thesis by simp
next
  case (snoc t d)
  moreover assume "list_all graph_char s"
  ultimately show ?thesis using TrimSpace_graph [of "hd s" "tl s" t d] by (cases t) auto
qed

lemma decode_graph: "list_all graph_char s \<Longrightarrow> DecodeString alpha s = b64_groups alpha s"
proof -
  have "\<not> graph_char (CHR 10)" "\<not> graph_char (CHR 13)" by code_simp+
  moreover assume "list_all graph_char s"
  ultimately have "filter (\<lambda>c. c \<noteq> CHR 10 \<and> c \<noteq> CHR 13) s = s" by (auto simp: list_all_iff intro!: filter_True)
  then show ?thesis by (simp add: DecodeString_def)
qed

text \<open>
  C28. A non-empty secret payload decodes to its bytes in each of the four forms the proto3 JSON mapping allows:
  standard or URL-safe alphabet, padded or not.
\<close>

theorem secret_payload_roundtrip:
  assumes "alpha = b64_std \<or> alpha = b64_url" and "s \<noteq> ''''"
  shows "base64StdDecode (b64_encode alpha padded s) = Inr s"
proof -
  have al: "b64_alphabet alpha" using assms(1) by auto
  have ne: "b64_encode alpha padded s \<noteq> ''''" using assms(2) by (cases "(alpha, padded, s)" rule: b64_encode.cases) (auto simp: Let_def)
  have trim: "TrimSpace (b64_encode alpha padded s) = b64_encode alpha padded s"
    by (rule TrimSpace_all_graph [OF encode_graph [OF al]])
  have dec: "DecodeString beta (b64_encode alpha True s) = b64_groups beta (b64_encode alpha True s)" for beta
    by (rule decode_graph [OF encode_graph [OF al]])
  have r: "base64StdDecode (b64_encode alpha padded s) =
      (case b64_groups b64_std (b64_encode alpha True s) of Some out \<Rightarrow> Inr out
       | None \<Rightarrow> (case b64_groups b64_url (b64_encode alpha True s) of Some out \<Rightarrow> Inr out | None \<Rightarrow> Inl BadBase64))"
    using ne by (simp only: base64StdDecode_def trim Let_def stdB64Decode_def urlB64Decode_def if_False
        pad4_def [symmetric] pad4_encode dec)
  show ?thesis
    using assms(1) groups_encode [OF al, of s] groups_agree [of "b64_encode alpha True s"]
    by (auto simp: r split: option.splits)
qed

theorem secret_payload_roundtrip_witness:
  "base64StdDecode (b64_encode b64_url False ''s3cret?'') = Inr ''s3cret?''"
  by (rule secret_payload_roundtrip) simp_all

section \<open>Artefacts on disk\<close>

text \<open>
  The credential file of the Google provider is never orphaned: once its temporary directory exists, either the
  call fails and removes the directory itself, or the credential's cleanup removes it.
\<close>

lemma ambient_credentials_owned:
  assumes "cw_MkdirTemp C = Inr dir"
    and "bind_sum (Fetch C audience ''gcp_wif'') (\<lambda>oidcToken.
           bind_sum (exchangeSTS C oidcToken wip) (\<lambda>stsToken. generateSAAccessToken C stsToken sa d)) = Inr x"
  shows "case gcpwif_Acquire C name wip sa audience d of
           (gone, Inl e) \<Rightarrow> gone = [dir]
         | (gone, Inr c) \<Rightarrow> gone = [] \<and> crd_Cleanup c = Some dir"
  using assms
  by (auto simp: gcpwif_Acquire_def writeAmbientCreds_def Let_def credential_def split: sum.splits option.splits prod.splits)

section \<open>Construction\<close>

lemma buildOne_named: "buildOne oob exists read name d = Inr p \<Longrightarrow> inst_Name p = name \<and> inst_Type p = vy_Type d"
  by (auto simp: buildOne_def Let_def new_awsoidc_def new_gcpwif_def new_azurefed_def build_github_app_def
      split: option.splits if_splits sum.splits)

lemma build_loop_registered:
  assumes "build_loop oob exists read r ps = Inr r'"
  shows "(\<forall>n p. map_of r n = Some p \<longrightarrow> map_of r' n = Some p) \<and>
    (\<forall>(n, d) \<in> set ps. \<exists>p. map_of r' n = Some p \<and> inst_Name p = n \<and> inst_Type p = vy_Type d) \<and>
    dom (map_of r') = dom (map_of r) \<union> fst ` set ps"
  using assms
proof (induction ps arbitrary: r)
  case (Cons x ps)
  obtain name decl where x: "x = (name, decl)" by fastforce
  from Cons.prems x obtain p r1 where p: "buildOne oob exists read name decl = Inr p" and r1: "Register r p = Some r1"
    and rest: "build_loop oob exists read r1 ps = Inr r'" by (auto split: sum.splits option.splits)
  from buildOne_named [OF p] have n: "inst_Name p = name" "inst_Type p = vy_Type decl" by simp_all
  from r1 n have r1: "map_of r name = None" "r1 = map_put name p r" by (auto simp: Register_def split: option.splits)
  with Cons.IH [OF rest] n show ?case by (auto simp: x) (metis fun_upd_other option.distinct(1))+
qed auto

text \<open>
  C0. Building the registry is all or nothing: it succeeds only when every declaration yields a provider, and then
  every declared name is registered with a provider of that name and of the declared type, and no other name is.
\<close>

theorem built_registry_complete:
  assumes "Build oob exists read (Some cfg) = Inr r"
  shows "(\<forall>(n, d) \<in> set (ath_Providers cfg). \<exists>p. registry_Get r n = Some p \<and> inst_Name p = n \<and> inst_Type p = vy_Type d) \<and>
    {n. registry_Get r n \<noteq> None} = fst ` set (ath_Providers cfg)"
  using build_loop_registered [of oob exists read "[]" "ath_Providers cfg" r] assms
  by (auto simp: Build_def registry_Get_def dom_def)

text \<open>
  A numeric id of exactly \<open>2^63\<close> passes the range check, because the bound is compared as a \<open>float64\<close>; the
  conversion then yields whatever the platform leaves there.
\<close>

lemma app_id_out_of_range_accepted: "anyToInt64 oob (AnyFloat (FFin 1 63)) = Inr oob"
  by simp

section \<open>Concrete providers\<close>

text \<open>A runner with an identity token, and an STS that answers with a session of one hour.\<close>

definition demo_cloud :: Cloud where
  "demo_cloud =
     \<lparr>cw_LookupEnv = map_of [(''ACTIONS_ID_TOKEN_REQUEST_URL'', ''https://runner''), (''ACTIONS_ID_TOKEN_REQUEST_TOKEN'', ''t'')],
      cw_UserHomeDir = Inr ''/home/me'', cw_MkdirTemp = Inr ''/tmp/creds'', cw_WriteCreds = (\<lambda>_ _. None), cw_Now = 0,
      cw_Do = (\<lambda>_. Inr (200, ''body'')), cw_AddAudience = (\<lambda>e a. Inr (e @ ''?audience='' @ a)),
      cw_AssumeRole = (\<lambda>_ _ _ _ _. Inr (Some \<lparr>ts_AccessKeyId = ''AKIA'', ts_SecretAccessKey = ''secret'',
         ts_SessionToken = ''session'', ts_Expiration = hour\<rparr>)),
      cw_GetSecretValue = (\<lambda>_ _. Inr ''bundle''), cw_GetParameter = (\<lambda>_ _. Inr ''plain''),
      cw_GetVaultSecret = (\<lambda>_ _. Inr ''plain''), cw_SignJWT = (\<lambda>_ _. Inr ''jwt''), cw_DecodeOIDC = (\<lambda>_. Inr ''id-token''),
      cw_DecodeSTS = (\<lambda>_. Inr ''sts''), cw_DecodeIAM = (\<lambda>_. Inr (''sa'', '''')), cw_DecodeAzure = (\<lambda>_. Inr (''aad'', 3600)),
      cw_DecodeGitHub = (\<lambda>_. Inr (''ghs'', hour)), cw_DecodeSecret = (\<lambda>_. None),
      cw_DecodeObject = (\<lambda>s. if s = ''bundle'' then Some [(''user'', JString ''root''), (''port'', JOther)] else None)\<rparr>"

definition demo_aws :: ProviderInst where
  "demo_aws = new_awsoidc ''aws'' '''' '''' '''' '''' 0"

lemma demo_aws_acquired:
  "Acquire demo_cloud demo_aws = ([], Inr (credential
     [(''AWS_ACCESS_KEY_ID'', ''AKIA''), (''AWS_SECRET_ACCESS_KEY'', ''secret''), (''AWS_SESSION_TOKEN'', ''session'')]
     ''aws-sts'' ''aws'' hour))"
  by code_simp

theorem federated_credentials_live_witness:
  "\<exists>token. map_of (crd_Env (credential
     [(''AWS_ACCESS_KEY_ID'', ''AKIA''), (''AWS_SECRET_ACCESS_KEY'', ''secret''), (''AWS_SESSION_TOKEN'', ''session'')]
     ''aws-sts'' ''aws'' hour)) ''AWS_SESSION_TOKEN'' = Some token
   \<and> live (cw_Now demo_cloud) token (crd_ExpiresAt (credential
     [(''AWS_ACCESS_KEY_ID'', ''AKIA''), (''AWS_SECRET_ACCESS_KEY'', ''secret''), (''AWS_SESSION_TOKEN'', ''session'')]
     ''aws-sts'' ''aws'' hour))"
  by (rule federated_credentials_live [OF demo_aws_acquired]) (simp add: demo_aws_def new_awsoidc_def)

theorem secret_export_fails_closed_witness:
  "list_all2 (\<lambda>(k, field) (k', x). k' = k \<and> exports demo_cloud ''bundle'' field x) [(''DB_USER'', ''user'')] [(''DB_USER'', ''root'')]"
  by (rule secret_export_fails_closed) code_simp

text \<open>The same object refuses a whole export, an absent field and a field that is no string.\<close>

lemma secret_export_refusals:
  "applyEnvMap demo_cloud [(''ALL'', '''')] ''bundle'' = Inl (WholeObject ''ALL'')"
  "applyEnvMap demo_cloud [(''X'', ''pass'')] ''bundle'' = Inl (FieldMissing ''X'' ''pass'')"
  "applyEnvMap demo_cloud [(''X'', ''port'')] ''bundle'' = Inl (FieldNotString ''X'' ''port'')"
  by code_simp+

definition demo_decl :: "string \<Rightarrow> AuthProviderYAML" where
  "demo_decl t =
     \<lparr>vy_Type = t, vy_Duration = '''', vy_TTL = '''', vy_RoleARN = '''', vy_SessionName = '''', vy_Region = '''',
      vy_WorkloadIdentityProvider = '''', vy_ServiceAccount = '''', vy_TenantID = '''', vy_ClientID = '''',
      vy_SubscriptionID = '''', vy_AudienceOverride = '''', vy_SecretID = '''', vy_Parameter = '''', vy_GCPName = '''',
      vy_VaultName = '''', vy_SecretName = '''', vy_EnvMap = [], vy_AppID = AnyNil, vy_InstallationID = AnyNil,
      vy_PrivateKey = '''', vy_Profile = '''', vy_EnvVars = [], vy_IUnderstandThisIsDangerous = False, vy_EnvVar = ''''\<rparr>"

definition demo_auth :: AuthYAML where
  "demo_auth = \<lparr>ath_Providers = [(''aws'', demo_decl ''aws_oidc''), (''adc'', demo_decl ''gcloud_adc'')], ath_Bindings = []\<rparr>"

lemma demo_built:
  "Build 0 (\<lambda>_. False) (\<lambda>_. Inl ''gone'') (Some demo_auth) = Inr [(''aws'', demo_aws), (''adc'', GcloudADC ''adc'')]"
  by code_simp

theorem built_registry_complete_witness:
  "(\<forall>(n, d) \<in> set (ath_Providers demo_auth). \<exists>p.
      registry_Get [(''aws'', demo_aws), (''adc'', GcloudADC ''adc'')] n = Some p \<and> inst_Name p = n \<and> inst_Type p = vy_Type d) \<and>
   {n. registry_Get [(''aws'', demo_aws), (''adc'', GcloudADC ''adc'')] n \<noteq> None} = fst ` set (ath_Providers demo_auth)"
  by (rule built_registry_complete [OF demo_built])

text \<open>
  The Secret Manager provider takes its access token from the process environment, where no other provider puts
  it: the Google credential acquired before it is only in the map handed to the engine.
\<close>

lemma gcp_secret_ignores_bound_provider:
  "snd (Acquire demo_cloud (GCPSecretManager ''s'' ''projects/p/secrets/x/versions/latest'' [])) = Inl NoAccessToken"
  by code_simp

end
