(* ===== verification/Credentials.thy ===== *)
theory Credentials
  imports Providers
begin

text \<open>
  Acquiring the credentials of a run: \<open>Registry.AcquireAll\<close> of \<open>internal/auth/provider.go\<close> and the resolution of
  \<open>internal/run/auth_helper.go\<close>. Providers are asked through the interface, \<open>acq\<close>: the answer of the n-th call,
  a credential or nil beside an error or nil; \<open>cln\<close> is the error of running a credential's cleanup. Every call is an
  event, so that what was obtained and what was released is a property of the events. Returning a cleanup function is
  returning the credentials it cleans.
\<close>

subsection \<open>Events and errors\<close>

type_synonym cred_env = "(string \<times> string) list"

datatype CredEvent = EvAcquired ProviderInst "Credential option" "ProvErr option" | EvCleaned Credential

datatype CredErr =
    NotRegistered string
  | AcquireErr string string ProvErr
  | NilCredential string string
  | Unwound CredErr "(string \<times> string) list"

type_synonym acquirer = "nat \<Rightarrow> ProviderInst \<Rightarrow> Credential option \<times> ProvErr option"
type_synonym cleaner = "Credential \<Rightarrow> string option"

text \<open>A credential that is not nil and has a cleanup.\<close>

definition needs_cleanup :: "Credential option \<Rightarrow> bool" where
  "needs_cleanup c = (case c of None \<Rightarrow> False | Some cr \<Rightarrow> crd_Cleanup cr \<noteq> None)"

fun cleanup_all :: "cleaner \<Rightarrow> Credential option list \<Rightarrow> CredEvent list \<times> (string \<times> string) list" where
  "cleanup_all cln [] = ([], [])"
| "cleanup_all cln (c # cs) =
     (case cleanup_all cln cs of (ev, errs) \<Rightarrow>
        if \<not> needs_cleanup c then (ev, errs)
        else (EvCleaned (the c) # ev,
              (case cln (the c) of None \<Rightarrow> errs | Some e \<Rightarrow> (crd_Source (the c), e) # errs)))"

definition cleanupCredentials :: "cleaner \<Rightarrow> Credential option list \<Rightarrow> CredEvent list \<times> (string \<times> string) list" where
  "cleanupCredentials cln creds = cleanup_all cln (rev creds)"

definition acquireFailure :: "cleaner \<Rightarrow> Credential option list \<Rightarrow> CredErr \<Rightarrow> CredEvent list \<times> (CredErr + 'a)" where
  "acquireFailure cln creds primary =
     (case cleanupCredentials cln creds of (ev, errs) \<Rightarrow>
        (ev, Inl (if errs = [] then primary else Unwound primary errs)))"

text \<open>\<open>merged[k] = v\<close> for every variable.\<close>

definition merge_env :: "cred_env \<Rightarrow> cred_env \<Rightarrow> cred_env" where
  "merge_env base override = fold (\<lambda>(k, v). map_put k v) override base"

fun acquire_loop ::
  "acquirer \<Rightarrow> cleaner \<Rightarrow> Registry \<Rightarrow> nat \<Rightarrow> cred_env \<Rightarrow> Credential option list \<Rightarrow> string list
     \<Rightarrow> CredEvent list \<times> (CredErr + cred_env \<times> Credential option list)" where
  "acquire_loop acq cln reg k merged creds [] = ([], Inr (merged, creds))"
| "acquire_loop acq cln reg k merged creds (n # names) =
     (case registry_Get reg n of
        None \<Rightarrow> acquireFailure cln creds (NotRegistered n)
      | Some p \<Rightarrow>
          (case acq k p of (c, err) \<Rightarrow>
             case (case err of
                     Some e \<Rightarrow> acquireFailure cln creds (AcquireErr n (inst_Type p) e)
                   | None \<Rightarrow>
                       (case c of
                          None \<Rightarrow> acquireFailure cln creds (NilCredential n (inst_Type p))
                        | Some cr \<Rightarrow> acquire_loop acq cln reg (Suc k) (merge_env merged (crd_Env cr)) (creds @ [c]) names)) of
               (ev, r) \<Rightarrow> (EvAcquired p c err # ev, r)))"

definition registry_AcquireAll ::
  "acquirer \<Rightarrow> cleaner \<Rightarrow> Registry \<Rightarrow> string list \<Rightarrow> CredEvent list \<times> (CredErr + cred_env \<times> Credential option list)" where
  "registry_AcquireAll acq cln reg names = acquire_loop acq cln reg 0 [] [] names"

subsection \<open>Credentials of a stack and of the state backend (auth_helper.go)\<close>

record LocalAuth =
  la_Enabled :: bool
  la_Providers :: "string list"

datatype AuthEnvErr =
    AcquireCreds string Mode CredErr
  | AcquireLocalCreds string Mode CredErr
  | AcquireStateCreds string CredErr

type_synonym source = "string list \<Rightarrow> CredEvent list \<times> (CredErr + cred_env \<times> Credential option list)"

definition resolveAuthEnv ::
  "(string \<Rightarrow> string \<Rightarrow> bool) \<Rightarrow> AuthYAML option \<Rightarrow> source option \<Rightarrow> string \<Rightarrow> Mode \<Rightarrow> LocalAuth
     \<Rightarrow> CredEvent list \<times> (AuthEnvErr + cred_env \<times> Credential option list)" where
  "resolveAuthEnv glob cfg src stackRef mode loc =
     (case (cfg, src) of
        (Some c, Some acquire) \<Rightarrow>
          let names = ResolveWithOpts glob (bindings_of c) (decls_of c) stackRef mode
                        \<lparr>rz_Local = la_Enabled loc, rz_LocalProviders = la_Providers loc\<rparr> in
          if names = [] then ([], Inr ([], []))
          else (case acquire names of
                  (ev, Inl e) \<Rightarrow>
                    (ev, Inl (if la_Enabled loc then AcquireLocalCreds stackRef mode e else AcquireCreds stackRef mode e))
                | (ev, Inr r) \<Rightarrow> (ev, Inr r))
      | _ \<Rightarrow> ([], Inr ([], [])))"

definition ResolveAuthEnv ::
  "acquirer \<Rightarrow> cleaner \<Rightarrow> (string \<Rightarrow> string \<Rightarrow> bool) \<Rightarrow> AuthYAML option \<Rightarrow> Registry option \<Rightarrow> string \<Rightarrow> Mode \<Rightarrow> LocalAuth
     \<Rightarrow> CredEvent list \<times> (AuthEnvErr + cred_env \<times> Credential option list)" where
  "ResolveAuthEnv acq cln glob cfg reg stackRef mode loc =
     resolveAuthEnv glob cfg (map_option (registry_AcquireAll acq cln) reg) stackRef mode loc"

text \<open>The events of calling the returned cleanup; its errors are only logged.\<close>

definition credentialCleanup :: "cleaner \<Rightarrow> Credential option list \<Rightarrow> CredEvent list" where
  "credentialCleanup cln creds = fst (cleanup_all cln creds)"

definition stateSecretsEnv :: "Engine option \<Rightarrow> cred_env" where
  "stateSecretsEnv engine =
     (case engine of
        None \<Rightarrow> []
      | Some e \<Rightarrow>
          if es_SecretsType (en_State e) \<noteq> ''passphrase'' then []
          else if es_Passphrase (en_State e) = '''' then []
          else [(''PULUMI_CONFIG_PASSPHRASE'', es_Passphrase (en_State e))])"

definition mergeEnv :: "cred_env \<Rightarrow> cred_env \<Rightarrow> cred_env" where
  "mergeEnv base override = merge_env (merge_env [] base) override"

definition resolveStateAuthEnv ::
  "Engine option \<Rightarrow> source option \<Rightarrow> CredEvent list \<times> (AuthEnvErr + cred_env \<times> Credential option list)" where
  "resolveStateAuthEnv engine src =
     (let secretsEnv = stateSecretsEnv engine in
      case (engine, src) of
        (Some e, Some acquire) \<Rightarrow>
          if es_AuthProvider (en_State e) = '''' then ([], Inr (secretsEnv, []))
          else (case acquire [es_AuthProvider (en_State e)] of
                  (ev, Inl err) \<Rightarrow> (ev, Inl (AcquireStateCreds (es_AuthProvider (en_State e)) err))
                | (ev, Inr (env, creds)) \<Rightarrow> (ev, Inr (mergeEnv secretsEnv env, creds)))
      | _ \<Rightarrow> ([], Inr (secretsEnv, [])))"

section \<open>What was obtained and what was released\<close>

text \<open>The credentials a call handed over that need a cleanup, the ones cleaned, and the providers asked.\<close>

fun obtained :: "CredEvent list \<Rightarrow> Credential list" where
  "obtained [] = []"
| "obtained (EvAcquired p (Some c) None # ev) = (if crd_Cleanup c \<noteq> None then [c] else []) @ obtained ev"
| "obtained (_ # ev) = obtained ev"

fun released :: "CredEvent list \<Rightarrow> Credential list" where
  "released [] = []"
| "released (EvCleaned c # ev) = c # released ev"
| "released (EvAcquired _ _ _ # ev) = released ev"

fun asked :: "CredEvent list \<Rightarrow> ProviderInst list" where
  "asked [] = []"
| "asked (EvAcquired p _ _ # ev) = p # asked ev"
| "asked (EvCleaned _ # ev) = asked ev"

definition to_clean :: "Credential option list \<Rightarrow> Credential list" where
  "to_clean creds = map the (filter needs_cleanup creds)"

lemma to_clean_simps [simp]:
  "to_clean [] = []"
  "to_clean (as @ bs) = to_clean as @ to_clean bs"
  "to_clean (Some c # cs) = (if crd_Cleanup c \<noteq> None then [c] else []) @ to_clean cs"
  by (simp_all add: to_clean_def needs_cleanup_def)

lemma to_clean_rev [simp]: "to_clean (rev cs) = rev (to_clean cs)"
  by (simp add: to_clean_def rev_filter rev_map)

lemma released_append [simp]: "released (ev @ ev') = released ev @ released ev'"
  by (induction ev rule: released.induct) auto

lemma cleanup_events:
  "released (fst (cleanup_all cln cs)) = to_clean cs" "obtained (fst (cleanup_all cln cs)) = []"
  "asked (fst (cleanup_all cln cs)) = []"
  by (induction cln cs rule: cleanup_all.induct) (auto simp: to_clean_def split: prod.splits)

lemma failure_events:
  assumes "acquireFailure cln creds primary = (ev, r)"
  shows "released ev = rev (to_clean creds) \<and> obtained ev = [] \<and> asked ev = [] \<and> isl r"
  using assms cleanup_events [of cln "rev creds"]
  by (auto simp: acquireFailure_def cleanupCredentials_def split: prod.splits)

lemma acquire_events:
  assumes "acquire_loop acq cln reg k merged creds names = (ev, r)"
  shows "case r of
           Inl _ \<Rightarrow> released ev = rev (to_clean creds @ obtained ev)
         | Inr (env, creds') \<Rightarrow> released ev = [] \<and> to_clean creds' = to_clean creds @ obtained ev"
  using assms
proof (induction acq cln reg k merged creds names arbitrary: ev r rule: acquire_loop.induct)
  case (2 acq cln reg k merged creds n names)
  show ?case
  proof (cases "registry_Get reg n")
    case None
    with 2(2) failure_events [of cln creds "NotRegistered n" ev r] show ?thesis by (auto split: sum.splits)
  next
    case (Some p)
    obtain c err where a: "acq k p = (c, err)" by fastforce
    show ?thesis
    proof (cases "err = None \<and> c \<noteq> None")
      case True
      then obtain cr where c: "c = Some cr" "err = None" by auto
      obtain ev' where l: "acquire_loop acq cln reg (Suc k) (merge_env merged (crd_Env cr)) (creds @ [c]) names = (ev', r)"
        and ev: "ev = EvAcquired p c err # ev'" using 2(2) Some a c by (auto split: prod.splits)
      from 2(1) [OF Some a [symmetric] c(2) c(1) l] ev c show ?thesis
        by (auto split: sum.splits)
    next
      case False
      then obtain ev' e where f: "acquireFailure cln creds e = (ev', r)" and ev: "ev = EvAcquired p c err # ev'"
        using 2(2) Some a by (cases err; cases c) (auto split: prod.splits)
      have "obtained ev = obtained ev'" using False ev by (cases err; cases c) auto
      with failure_events [OF f] ev show ?thesis by (auto split: sum.splits)
    qed
  qed
qed auto

lemma mset_released_cleanup: "mset (released (credentialCleanup cln creds)) = mset (to_clean creds)"
  by (simp add: credentialCleanup_def cleanup_events)

text \<open>
  C29. Whatever the providers answer, every credential a run obtains for a stack is released exactly once: a failed
  acquisition has already cleaned the earlier credentials when it returns, and otherwise the returned cleanup cleans
  all of them and nothing else.
\<close>

theorem credentials_released_once:
  "case ResolveAuthEnv acq cln glob cfg (Some reg) stackRef mode loc of
     (ev, Inl _) \<Rightarrow> mset (released ev) = mset (obtained ev)
   | (ev, Inr (env, creds)) \<Rightarrow> mset (released (ev @ credentialCleanup cln creds)) = mset (obtained ev)"
proof -
  have a: "case registry_AcquireAll acq cln reg names of
      (ev, Inl _) \<Rightarrow> mset (released ev) = mset (obtained ev)
    | (ev, Inr (env, creds)) \<Rightarrow> mset (released (ev @ credentialCleanup cln creds)) = mset (obtained ev)" for names
  proof -
    obtain ev r where r: "registry_AcquireAll acq cln reg names = (ev, r)" by fastforce
    from acquire_events [OF r [unfolded registry_AcquireAll_def]] show ?thesis
      by (auto simp: r mset_released_cleanup split: sum.splits)
  qed
  show ?thesis
  proof (cases cfg)
    case None
    then show ?thesis by (simp add: ResolveAuthEnv_def resolveAuthEnv_def credentialCleanup_def)
  next
    case (Some c)
    define names where "names = ResolveWithOpts glob (bindings_of c) (decls_of c) stackRef mode
      \<lparr>rz_Local = la_Enabled loc, rz_LocalProviders = la_Providers loc\<rparr>"
    from a [of names] show ?thesis
      by (auto simp: ResolveAuthEnv_def resolveAuthEnv_def Some Let_def credentialCleanup_def
          split: prod.splits sum.splits simp flip: names_def)
  qed
qed

section \<open>Whose credentials a stack gets\<close>

lemma asked_failure: "acquireFailure cln creds primary = (ev, r) \<Longrightarrow> asked ev = []"
  using failure_events by blast

text \<open>The providers asked are the registered ones of the names, in order, as far as the run came.\<close>

lemma asked_in_order:
  "acquire_loop acq cln reg k merged creds names = (ev, r) \<Longrightarrow>
     \<exists>n. map Some (asked ev) = map (registry_Get reg) (take n names)"
proof (induction acq cln reg k merged creds names arbitrary: ev r rule: acquire_loop.induct)
  case (1 acq cln reg k merged creds)
  then show ?case by simp
next
  case (2 acq cln reg k merged creds n names)
  show ?case
  proof (cases "registry_Get reg n")
    case None
    with 2(2) have "asked ev = []" by (auto dest: asked_failure)
    then show ?thesis by (intro exI [of _ 0]) simp
  next
    case (Some p)
    obtain c err where a: "acq k p = (c, err)" by fastforce
    show ?thesis
    proof (cases "err = None \<and> c \<noteq> None")
      case True
      then obtain cr where c: "c = Some cr" "err = None" by auto
      obtain ev' where l: "acquire_loop acq cln reg (Suc k) (merge_env merged (crd_Env cr)) (creds @ [c]) names = (ev', r)"
        and ev: "ev = EvAcquired p c err # ev'" using 2(2) Some a c by (auto split: prod.splits)
      from 2(1) [OF Some a [symmetric] c(2) c(1) l]
      obtain m where "map Some (asked ev') = map (registry_Get reg) (take m names)" by blast
      with ev Some show ?thesis by (intro exI [of _ "Suc m"]) simp
    next
      case False
      then obtain ev' e where f: "acquireFailure cln creds e = (ev', r)" and ev: "ev = EvAcquired p c err # ev'"
        using 2(2) Some a by (cases err; cases c) (auto split: prod.splits)
      with asked_failure [OF f] Some show ?thesis by (intro exI [of _ 1]) simp
    qed
  qed
qed

lemma registered_type:
  assumes "Build oob exists read (Some cfg) = Inr reg" and "registry_Get reg n = Some p"
  shows "scopeOfType (inst_Type p) = scope_of (decls_of cfg) n \<and> map_of (ath_Providers cfg) n \<noteq> None"
proof -
  have l: "build_loop oob exists read [] (ath_Providers cfg) = Inr reg" using assms(1) by (simp add: Build_def)
  note b = build_loop_registered [OF l]
  from b assms(2) have "n \<in> fst ` set (ath_Providers cfg)" by (auto simp: registry_Get_def)
  then obtain d where d: "map_of (ath_Providers cfg) n = Some d"
    by (metis map_of_eq_None_iff not_None_eq)
  then have "(n, d) \<in> set (ath_Providers cfg)" by (rule map_of_SomeD)
  with b assms(2) have "inst_Type p = vy_Type d" by (auto simp: registry_Get_def)
  with d show ?thesis by (simp add: scope_of_def decls_of_def)
qed

text \<open>
  C30. In a configuration the linter accepts, a run asks at most one provider per credential scope for the credentials
  of a listed stack, so the engine never gets the credentials of two cloud identities of one kind. In local runs this
  needs the command line to name declared providers.
\<close>

theorem one_provider_per_scope:
  assumes "ValidateLint glob (Some cfg) stacks = None" and "Build oob exists read (Some cfg) = Inr reg"
    and "stackRef \<in> set stacks" and "mode \<in> {ModePreview, ModeApply, ModeDrift}"
    and "\<forall>x \<in> set (la_Providers loc). decls_of cfg x \<noteq> None"
    and "ResolveAuthEnv acq cln glob (Some cfg) (Some reg) stackRef mode loc = (ev, r)"
  shows "distinct (map (\<lambda>p. scopeOfType (inst_Type p)) (asked ev))"
proof -
  define names where "names = ResolveWithOpts glob (bindings_of cfg) (decls_of cfg) stackRef mode
    \<lparr>rz_Local = la_Enabled loc, rz_LocalProviders = la_Providers loc\<rparr>"
  have "auth_Validate glob (bindings_of cfg) (decls_of cfg) stacks = None"
    using assms(1) by (simp add: ValidateLint_def split: option.splits)
  then have u: "unambiguous (decls_of cfg) names"
    unfolding names_def using assms(3-5) by (intro validated_bindings_unambiguous) simp_all
  from assms(6) consider "ev = []" | r' where "registry_AcquireAll acq cln reg names = (ev, r')"
    by (auto simp: ResolveAuthEnv_def resolveAuthEnv_def Let_def simp flip: names_def split: if_splits prod.splits sum.splits)
  then show ?thesis
  proof cases
    case 2
    from asked_in_order [OF 2 [unfolded registry_AcquireAll_def]]
    obtain n where n: "map Some (asked ev) = map (registry_Get reg) (take n names)" by blast
    have "map (\<lambda>p. scopeOfType (inst_Type p)) (asked ev) = map (scope_of (decls_of cfg)) (take n names)"
    proof (rule nth_equalityI)
      show len: "length (map (\<lambda>p. scopeOfType (inst_Type p)) (asked ev)) = length (map (scope_of (decls_of cfg)) (take n names))"
        using n by (metis length_map)
      fix i assume i: "i < length (map (\<lambda>p. scopeOfType (inst_Type p)) (asked ev))"
      then have "registry_Get reg (take n names ! i) = Some (asked ev ! i)"
        using n len by (metis length_map nth_map)
      from registered_type [OF assms(2) this] i len
      show "map (\<lambda>p. scopeOfType (inst_Type p)) (asked ev) ! i = map (scope_of (decls_of cfg)) (take n names) ! i" by simp
    qed
    with u show ?thesis by (simp add: unambiguous_def take_map [symmetric] distinct_take)
  qed simp
qed

text \<open>
  The merged variables of a successful acquisition: of two providers that set one variable, the later wins.
\<close>

lemma map_of_merge_env: "map_of (merge_env base override) = map_of base ++ map_of (rev override)"
proof (induction override arbitrary: base)
  case (Cons e es)
  obtain k v where e: "e = (k, v)" by fastforce
  have "merge_env base (e # es) = merge_env (map_put k v base) es" by (simp add: merge_env_def e)
  then show ?case by (simp add: Cons.IH e fun_eq_iff map_add_def split: option.splits)
qed (simp add: merge_env_def)

lemma merged_env:
  "acquire_loop acq cln reg k merged creds names = (ev, Inr (env, creds')) \<Longrightarrow>
     \<exists>new. creds' = creds @ map Some new \<and>
       map_of env = foldl (\<lambda>m c. m ++ map_of (rev (crd_Env c))) (map_of merged) new"
proof (induction acq cln reg k merged creds names arbitrary: ev rule: acquire_loop.induct)
  case (1 acq cln reg k merged creds)
  then show ?case by (intro exI [of _ "[]"]) simp
next
  case (2 acq cln reg k merged creds n names)
  from 2(2) obtain p where p: "registry_Get reg n = Some p" by (auto split: option.splits dest: failure_events)
  obtain c err where a: "acq k p = (c, err)" by fastforce
  from 2(2) p a have "err = None \<and> c \<noteq> None"
    by (cases err; cases c) (auto split: prod.splits dest: failure_events)
  then obtain cr where c: "c = Some cr" "err = None" by auto
  obtain ev' where l: "acquire_loop acq cln reg (Suc k) (merge_env merged (crd_Env cr)) (creds @ [c]) names = (ev', Inr (env, creds'))"
    using 2(2) p a c by (auto split: prod.splits)
  from 2(1) [OF p a [symmetric] c(2) c(1) l] obtain new where
    "creds' = (creds @ [c]) @ map Some new"
    "map_of env = foldl (\<lambda>m c. m ++ map_of (rev (crd_Env c))) (map_of (merge_env merged (crd_Env cr))) new" by blast
  then show ?case by (intro exI [of _ "cr # new"]) (simp add: c map_of_merge_env)
qed

section \<open>A concrete run\<close>

definition demo_bound :: AuthYAML where
  "demo_bound = demo_auth\<lparr>ath_Bindings :=
     [\<lparr>byl_Stack = ''*'', byl_Mode = '''', byl_Providers = [''aws'', ''adc''], byl_Override = [], byl_Local = []\<rparr>]\<rparr>"

definition demo_acquirer :: acquirer where
  "demo_acquirer k p = (case snd (Acquire demo_cloud p) of Inl e \<Rightarrow> (None, Some e) | Inr c \<Rightarrow> (Some c, None))"

lemma demo_bound_built:
  "Build 0 (\<lambda>_. False) (\<lambda>_. Inl ''gone'') (Some demo_bound) = Inr [(''aws'', demo_aws), (''adc'', GcloudADC ''adc'')]"
  by code_simp

theorem one_provider_per_scope_witness:
  "distinct (map (\<lambda>p. scopeOfType (inst_Type p)) (asked (fst (ResolveAuthEnv demo_acquirer (\<lambda>_. None) (\<lambda>_ _. True)
     (Some demo_bound) (Some [(''aws'', demo_aws), (''adc'', GcloudADC ''adc'')]) ''prod/web'' ModeApply
     \<lparr>la_Enabled = False, la_Providers = []\<rparr>))))"
proof (rule one_provider_per_scope)
  show "ValidateLint (\<lambda>_ _. True) (Some demo_bound) [''prod/web''] = None" by code_simp
  show "Build 0 (\<lambda>_. False) (\<lambda>_. Inl ''gone'') (Some demo_bound) = Inr [(''aws'', demo_aws), (''adc'', GcloudADC ''adc'')]"
    by (rule demo_bound_built)
  show "''prod/web'' \<in> set [''prod/web'']" "ModeApply \<in> {ModePreview, ModeApply, ModeDrift}"
    "\<forall>x \<in> set (la_Providers \<lparr>la_Enabled = False, la_Providers = []\<rparr>). decls_of demo_bound x \<noteq> None" by simp_all
qed (rule surjective_pairing)

text \<open>Both providers are asked.\<close>

lemma demo_asked:
  "map inst_Name (asked (fst (ResolveAuthEnv demo_acquirer (\<lambda>_. None) (\<lambda>_ _. True)
     (Some demo_bound) (Some [(''aws'', demo_aws), (''adc'', GcloudADC ''adc'')]) ''prod/web'' ModeApply
     \<lparr>la_Enabled = False, la_Providers = []\<rparr>))) = [''aws'', ''adc'']"
  by code_simp

end
