(* ===== verification/CredCache.thy ===== *)
theory CredCache
  imports Credentials
begin

text \<open>
  The credential cache of one invocation, \<open>internal/auth/cache.go\<close>, with the goroutines that use it. Each goroutine is
  a caller inside \<open>acquireOne\<close> with its program counter; what runs under the mutex is one step, what runs outside it, the
  provider's \<open>Acquire\<close> and a cleanup, is a step of its own, so every interleaving is a run of the step relation. A
  credential is the pair of the attempt that acquired it and its contents, in place of Go's pointer. \<open>cal_start\<close>, the
  generation at which a request began, and the log of what was obtained and cleaned only serve the statements.
  The generation counter is unbounded instead of \<open>uint64\<close>.
\<close>

subsection \<open>State\<close>

datatype AcquireCause = ProviderFailed ProvErr | NilReturned | ExpiresSoon

datatype CacheErr =
    CacheNotRegistered string
  | CacheClosed
  | CacheAcquire string string AcquireCause "string option"
  | CacheClosedAfter "CacheErr option" "string option"
  | CacheCancelled

type_synonym held_credential = "nat \<times> Credential"

record CacheEntry =
  cen_credential :: "held_credential option"
  cen_attempt :: "nat option"

record CacheAttempt =
  atp_ready :: bool
  atp_credential :: "held_credential option"
  atp_err :: "CacheErr option"
  atp_retry :: bool
  atp_joined :: nat
  atp_generation :: nat

datatype CallerPc =
    Looking
  | Acquiring nat
  | Settling nat "Credential option" "CacheErr option"
  | Discarding nat "Credential option" "CacheErr option"
  | Waiting nat
  | Finished "CacheErr + held_credential"

record CacheCaller =
  cal_name :: string
  cal_start :: nat
  cal_pc :: CallerPc

datatype CacheEvent = Got nat Credential | Cleaned nat Credential

record CredentialCache =
  cac_entries :: "string \<Rightarrow> CacheEntry option"
  cac_attempts :: "CacheAttempt list"
  cac_generation :: nat
  cac_owned :: "held_credential list"
  cac_closed :: bool
  cac_closing :: "held_credential list option"
  cac_close_errs :: "(string \<times> string) list"
  cac_callers :: "CacheCaller list"
  cac_log :: "CacheEvent list"

definition NewCredentialCache :: CredentialCache where
  "NewCredentialCache =
     \<lparr>cac_entries = Map.empty, cac_attempts = [], cac_generation = 0, cac_owned = [], cac_closed = False,
      cac_closing = None, cac_close_errs = [], cac_callers = [], cac_log = []\<rparr>"

definition defaultCredentialSafetyMargin :: go_duration where
  "defaultCredentialSafetyMargin = 30 * second"

definition credentialUsable :: "Credential option \<Rightarrow> go_time \<Rightarrow> go_duration \<Rightarrow> bool" where
  "credentialUsable c now margin =
     (case c of None \<Rightarrow> False | Some cr \<Rightarrow> IsZero (crd_ExpiresAt cr) \<or> now + margin < crd_ExpiresAt cr)"

definition cloneCredential :: "Credential \<Rightarrow> Credential" where
  "cloneCredential c = c\<lparr>crd_Cleanup := None\<rparr>"

definition cleanupCredential :: "cleaner \<Rightarrow> Credential option \<Rightarrow> string option" where
  "cleanupCredential cln c = (if needs_cleanup c then cln (the c) else None)"

definition clean_events :: "nat \<Rightarrow> Credential option \<Rightarrow> CacheEvent list" where
  "clean_events a c = (if needs_cleanup c then [Cleaned a (the c)] else [])"

definition got_events :: "nat \<Rightarrow> Credential option \<Rightarrow> CacheEvent list" where
  "got_events a c = (case c of None \<Rightarrow> [] | Some cr \<Rightarrow> [Got a cr])"

subsection \<open>Steps of a request\<close>

definition caller_at :: "CredentialCache \<Rightarrow> nat \<Rightarrow> CacheCaller" where
  "caller_at s t = cac_callers s ! t"

definition set_pc :: "nat \<Rightarrow> CallerPc \<Rightarrow> CredentialCache \<Rightarrow> CredentialCache" where
  "set_pc t pc s = s\<lparr>cac_callers := (cac_callers s)[t := (caller_at s t)\<lparr>cal_pc := pc\<rparr>]\<rparr>"

definition entry_of :: "CredentialCache \<Rightarrow> string \<Rightarrow> CacheEntry" where
  "entry_of s name =
     (case cac_entries s name of None \<Rightarrow> \<lparr>cen_credential = None, cen_attempt = None\<rparr> | Some e \<Rightarrow> e)"

definition put_entry :: "string \<Rightarrow> CacheEntry \<Rightarrow> CredentialCache \<Rightarrow> CredentialCache" where
  "put_entry name e s = s\<lparr>cac_entries := (cac_entries s)(name \<mapsto> e)\<rparr>"

definition start_caller :: "Registry \<Rightarrow> string \<Rightarrow> CredentialCache \<Rightarrow> CredentialCache" where
  "start_caller reg name s =
     s\<lparr>cac_callers := cac_callers s @
         [\<lparr>cal_name = name, cal_start = cac_generation s,
           cal_pc = (if registry_Get reg name = None then Finished (Inl (CacheNotRegistered name)) else Looking)\<rparr>]\<rparr>"

definition lookup_step :: "go_duration \<Rightarrow> go_time \<Rightarrow> nat \<Rightarrow> CredentialCache \<Rightarrow> CredentialCache" where
  "lookup_step margin now t s =
     (let name = cal_name (caller_at s t) in
      if cac_closed s then set_pc t (Finished (Inl CacheClosed)) s
      else
        let entry = entry_of s name in
        if credentialUsable (map_option snd (cen_credential entry)) now margin then
          case cen_credential entry of
            None \<Rightarrow> s
          | Some (a, c) \<Rightarrow> set_pc t (Finished (Inr (a, cloneCredential c))) (put_entry name entry s)
        else case cen_attempt entry of
               Some a \<Rightarrow>
                 set_pc t (Waiting a) (put_entry name entry
                   (s\<lparr>cac_attempts := (cac_attempts s)[a := (cac_attempts s ! a)\<lparr>atp_joined := Suc (atp_joined (cac_attempts s ! a))\<rparr>]\<rparr>))
             | None \<Rightarrow>
                 let a = length (cac_attempts s) in
                 set_pc t (Acquiring a) (put_entry name (entry\<lparr>cen_attempt := Some a\<rparr>)
                   (s\<lparr>cac_attempts := cac_attempts s @
                        [\<lparr>atp_ready = False, atp_credential = None, atp_err = None, atp_retry = False, atp_joined = 0,
                          atp_generation = cac_generation s\<rparr>]\<rparr>)))"

definition acquire_cause :: "go_duration \<Rightarrow> go_time \<Rightarrow> Credential option \<times> ProvErr option \<Rightarrow> AcquireCause option" where
  "acquire_cause margin now answer =
     (case answer of (c, err) \<Rightarrow>
        case err of
          Some e \<Rightarrow> Some (ProviderFailed e)
        | None \<Rightarrow> if c = None then Some NilReturned
                  else if \<not> credentialUsable c now margin then Some ExpiresSoon else None)"

definition acquired_step ::
  "cleaner \<Rightarrow> go_duration \<Rightarrow> go_time \<Rightarrow> string \<Rightarrow> Credential option \<times> ProvErr option \<Rightarrow> nat \<Rightarrow> CredentialCache \<Rightarrow> CredentialCache" where
  "acquired_step cln margin now ptype answer t s =
     (case cal_pc (caller_at s t) of
        Acquiring a \<Rightarrow>
          (case acquire_cause margin now answer of
             None \<Rightarrow> set_pc t (Settling a (fst answer) None) (s\<lparr>cac_log := cac_log s @ got_events a (fst answer)\<rparr>)
           | Some cause \<Rightarrow>
               set_pc t (Settling a None (Some (CacheAcquire (cal_name (caller_at s t)) ptype cause (cleanupCredential cln (fst answer)))))
                 (s\<lparr>cac_log := cac_log s @ got_events a (fst answer) @ clean_events a (fst answer)\<rparr>))
      | _ \<Rightarrow> s)"

text \<open>The end of an attempt: its outcome is published and the entry is free again.\<close>

definition outcome_pc :: "nat \<Rightarrow> Credential option \<Rightarrow> CacheErr option \<Rightarrow> bool \<Rightarrow> CallerPc" where
  "outcome_pc a c err stale =
     (case err of
        Some e \<Rightarrow> Finished (Inl e)
      | None \<Rightarrow> if stale then Looking else Finished (Inr (a, cloneCredential (the c))))"

definition publish :: "nat \<Rightarrow> nat \<Rightarrow> Credential option \<Rightarrow> CacheErr option \<Rightarrow> bool \<Rightarrow> CredentialCache \<Rightarrow> CredentialCache" where
  "publish t a c err stale s =
     (let name = cal_name (caller_at s t); entry = entry_of s name in
      set_pc t (outcome_pc a c err stale)
        (put_entry name (if cen_attempt entry = Some a then entry\<lparr>cen_attempt := None\<rparr> else entry)
          (s\<lparr>cac_attempts := (cac_attempts s)[a := (cac_attempts s ! a)
               \<lparr>atp_err := err, atp_retry := err = None \<and> stale,
                atp_credential := (if err = None \<and> \<not> stale then Some (a, the c) else None), atp_ready := True\<rparr>]\<rparr>)))"

definition settle_step :: "nat \<Rightarrow> CredentialCache \<Rightarrow> CredentialCache" where
  "settle_step t s =
     (case cal_pc (caller_at s t) of
        Settling a c err \<Rightarrow>
          let name = cal_name (caller_at s t); stale = cac_generation s \<noteq> atp_generation (cac_attempts s ! a) in
          if cac_closed s then set_pc t (Discarding a c err) s
          else
            let s1 = (if err = None then s\<lparr>cac_owned := cac_owned s @ [(a, the c)]\<rparr> else s);
                s2 = (if err = None \<and> \<not> stale then put_entry name ((entry_of s1 name)\<lparr>cen_credential := Some (a, the c)\<rparr>) s1 else s1) in
            publish t a c err stale s2
      | _ \<Rightarrow> s)"

definition discard_step :: "cleaner \<Rightarrow> nat \<Rightarrow> CredentialCache \<Rightarrow> CredentialCache" where
  "discard_step cln t s =
     (case cal_pc (caller_at s t) of
        Discarding a c err \<Rightarrow>
          publish t a None (Some (CacheClosedAfter err (cleanupCredential cln c))) False
            (s\<lparr>cac_log := cac_log s @ clean_events a c\<rparr>)
      | _ \<Rightarrow> s)"

definition wake_step :: "nat \<Rightarrow> CredentialCache \<Rightarrow> CredentialCache" where
  "wake_step t s =
     (case cal_pc (caller_at s t) of
        Waiting a \<Rightarrow>
          let at = cac_attempts s ! a in
          if \<not> atp_ready at then s
          else (case atp_err at of
                  Some e \<Rightarrow> set_pc t (Finished (Inl e)) s
                | None \<Rightarrow>
                    if atp_retry at then set_pc t Looking s
                    else (case atp_credential at of
                            None \<Rightarrow> s
                          | Some (b, c) \<Rightarrow> set_pc t (Finished (Inr (b, cloneCredential c))) s))
      | _ \<Rightarrow> s)"

definition cancel_step :: "nat \<Rightarrow> CredentialCache \<Rightarrow> CredentialCache" where
  "cancel_step t s =
     (case cal_pc (caller_at s t) of Waiting a \<Rightarrow> set_pc t (Finished (Inl CacheCancelled)) s | _ \<Rightarrow> s)"

subsection \<open>Invalidation and closing\<close>

definition InvalidateAll :: "CredentialCache \<Rightarrow> CredentialCache" where
  "InvalidateAll s =
     (if cac_closed s then s
      else s\<lparr>cac_entries := (\<lambda>n. map_option (\<lambda>e. e\<lparr>cen_credential := None\<rparr>) (cac_entries s n)),
             cac_generation := Suc (cac_generation s)\<rparr>)"

definition close_begin :: "CredentialCache \<Rightarrow> CredentialCache" where
  "close_begin s =
     (if cac_closing s \<noteq> None then s else s\<lparr>cac_closed := True, cac_closing := Some (rev (cac_owned s))\<rparr>)"

definition close_step :: "cleaner \<Rightarrow> CredentialCache \<Rightarrow> CredentialCache" where
  "close_step cln s =
     (case cac_closing s of
        Some ((a, c) # rest) \<Rightarrow>
          s\<lparr>cac_closing := Some rest, cac_log := cac_log s @ clean_events a (Some c),
            cac_close_errs := cac_close_errs s @
              (case cleanupCredential cln (Some c) of None \<Rightarrow> [] | Some e \<Rightarrow> [(crd_Source c, e)])\<rparr>
      | _ \<Rightarrow> s)"

subsection \<open>Runs\<close>

inductive cache_step :: "Registry \<Rightarrow> cleaner \<Rightarrow> go_duration \<Rightarrow> CredentialCache \<Rightarrow> CredentialCache \<Rightarrow> bool"
  for reg cln margin where
  cs_start: "cache_step reg cln margin s (start_caller reg name s)"
| cs_lookup: "t < length (cac_callers s) \<Longrightarrow> cal_pc (caller_at s t) = Looking \<Longrightarrow>
    cache_step reg cln margin s (lookup_step margin now t s)"
| cs_acquired: "t < length (cac_callers s) \<Longrightarrow> cache_step reg cln margin s (acquired_step cln margin now ptype answer t s)"
| cs_settle: "t < length (cac_callers s) \<Longrightarrow> cache_step reg cln margin s (settle_step t s)"
| cs_discard: "t < length (cac_callers s) \<Longrightarrow> cache_step reg cln margin s (discard_step cln t s)"
| cs_wake: "t < length (cac_callers s) \<Longrightarrow> cache_step reg cln margin s (wake_step t s)"
| cs_cancel: "t < length (cac_callers s) \<Longrightarrow> cache_step reg cln margin s (cancel_step t s)"
| cs_invalidate: "cache_step reg cln margin s (InvalidateAll s)"
| cs_close: "cache_step reg cln margin s (close_begin s)"
| cs_cleanup: "cache_step reg cln margin s (close_step cln s)"

inductive_cases cache_stepE: "cache_step reg cln margin s s'"

inductive cache_reachable :: "Registry \<Rightarrow> cleaner \<Rightarrow> go_duration \<Rightarrow> CredentialCache \<Rightarrow> bool"
  for reg cln margin where
  cr_new: "cache_reachable reg cln margin NewCredentialCache"
| cr_step: "cache_reachable reg cln margin s \<Longrightarrow> cache_step reg cln margin s s' \<Longrightarrow> cache_reachable reg cln margin s'"

subsection \<open>The flow invariant\<close>

text \<open>
  A caller leads an attempt from its creation to its publication. The invariant says what each caller, entry and
  attempt may rely on: a leader's attempt is the one its entry points to and is not published; a waiter that finds a
  usable result began no later than the attempt's generation; a credential that was handed out is owned by the cache.
\<close>

fun leads :: "CallerPc \<Rightarrow> nat option" where
  "leads (Acquiring a) = Some a"
| "leads (Settling a c e) = Some a"
| "leads (Discarding a c e) = Some a"
| "leads _ = None"

definition attempt_no :: "CredentialCache \<Rightarrow> nat \<Rightarrow> CacheAttempt" where
  "attempt_no s a = cac_attempts s ! a"

definition gen_of :: "CredentialCache \<Rightarrow> nat \<Rightarrow> nat" where
  "gen_of s a = atp_generation (attempt_no s a)"

definition published :: "CredentialCache \<Rightarrow> nat \<Rightarrow> bool" where
  "published s a \<longleftrightarrow> atp_ready (attempt_no s a) \<and> atp_err (attempt_no s a) = None \<and> \<not> atp_retry (attempt_no s a)"

definition leader_ok :: "CredentialCache \<Rightarrow> CacheCaller \<Rightarrow> nat \<Rightarrow> bool" where
  "leader_ok s c a \<longleftrightarrow> a < length (cac_attempts s) \<and> \<not> atp_ready (attempt_no s a) \<and>
     cen_attempt (entry_of s (cal_name c)) = Some a \<and> cal_start c \<le> gen_of s a"

definition handed :: "CredentialCache \<Rightarrow> CacheCaller \<Rightarrow> nat \<Rightarrow> Credential \<Rightarrow> bool" where
  "handed s c a x \<longleftrightarrow> a < length (cac_attempts s) \<and> cal_start c \<le> gen_of s a \<and> (\<exists>y. (a, y) \<in> set (cac_owned s) \<and> x = cloneCredential y)"

definition pc_ok :: "CredentialCache \<Rightarrow> CacheCaller \<Rightarrow> CallerPc \<Rightarrow> bool" where
  "pc_ok s c pc \<longleftrightarrow> (case pc of
       Looking \<Rightarrow> True
     | Acquiring a \<Rightarrow> leader_ok s c a
     | Settling a x e \<Rightarrow> leader_ok s c a \<and> (e = None \<longleftrightarrow> x \<noteq> None)
     | Discarding a x e \<Rightarrow> leader_ok s c a \<and> (e = None \<longleftrightarrow> x \<noteq> None)
     | Waiting a \<Rightarrow> a < length (cac_attempts s) \<and> (published s a \<longrightarrow> cal_start c \<le> gen_of s a)
     | Finished (Inl e) \<Rightarrow> True
     | Finished (Inr (a, x)) \<Rightarrow> handed s c a x)"

definition caller_ok :: "CredentialCache \<Rightarrow> CacheCaller \<Rightarrow> bool" where
  "caller_ok s c \<longleftrightarrow> cal_start c \<le> cac_generation s \<and> pc_ok s c (cal_pc c)"

definition entry_ok :: "CredentialCache \<Rightarrow> CacheEntry \<Rightarrow> bool" where
  "entry_ok s e \<longleftrightarrow>
     (\<forall>a. cen_attempt e = Some a \<longrightarrow> a < length (cac_attempts s) \<and> \<not> atp_ready (attempt_no s a)) \<and>
     (\<forall>a x. cen_credential e = Some (a, x) \<longrightarrow>
        a < length (cac_attempts s) \<and> gen_of s a = cac_generation s \<and> (a, x) \<in> set (cac_owned s))"

definition attempt_ok :: "CredentialCache \<Rightarrow> nat \<Rightarrow> bool" where
  "attempt_ok s a \<longleftrightarrow> gen_of s a \<le> cac_generation s \<and>
     (published s a \<longrightarrow> (\<exists>x. atp_credential (attempt_no s a) = Some (a, x) \<and> (a, x) \<in> set (cac_owned s)))"

definition flow_inv :: "CredentialCache \<Rightarrow> bool" where
  "flow_inv s \<longleftrightarrow>
     (\<forall>t<length (cac_callers s). caller_ok s (caller_at s t)) \<and>
     (\<forall>n. entry_ok s (entry_of s n)) \<and>
     (\<forall>a<length (cac_attempts s). attempt_ok s a) \<and>
     (\<forall>t<length (cac_callers s). \<forall>u<length (cac_callers s). \<forall>a.
        leads (cal_pc (caller_at s t)) = Some a \<longrightarrow> leads (cal_pc (caller_at s u)) = Some a \<longrightarrow> t = u) \<and>
     (\<forall>m n a. cen_attempt (entry_of s m) = Some a \<longrightarrow> cen_attempt (entry_of s n) = Some a \<longrightarrow> m = n)"

subsection \<open>Reading an updated state\<close>

lemma cache_access [simp]:
  "cac_attempts (set_pc t pc s) = cac_attempts s" "cac_generation (set_pc t pc s) = cac_generation s"
  "cac_owned (set_pc t pc s) = cac_owned s" "cac_closed (set_pc t pc s) = cac_closed s"
  "cac_closing (set_pc t pc s) = cac_closing s" "cac_log (set_pc t pc s) = cac_log s"
  "cac_entries (set_pc t pc s) = cac_entries s" "length (cac_callers (set_pc t pc s)) = length (cac_callers s)"
  "cac_attempts (put_entry n e s) = cac_attempts s" "cac_generation (put_entry n e s) = cac_generation s"
  "cac_owned (put_entry n e s) = cac_owned s" "cac_closed (put_entry n e s) = cac_closed s"
  "cac_closing (put_entry n e s) = cac_closing s" "cac_log (put_entry n e s) = cac_log s"
  "cac_callers (put_entry n e s) = cac_callers s"
  by (simp_all add: set_pc_def put_entry_def)

lemma caller_at_set_pc:
  "t < length (cac_callers s) \<Longrightarrow>
     caller_at (set_pc t pc s) u = (if u = t then (caller_at s t)\<lparr>cal_pc := pc\<rparr> else caller_at s u)"
  by (auto simp: caller_at_def set_pc_def)

lemma entry_of_put [simp]: "entry_of (put_entry n e s) m = (if m = n then e else entry_of s m)"
  by (simp add: entry_of_def put_entry_def)

lemma entry_of_set_pc [simp]: "entry_of (set_pc t pc s) m = entry_of s m"
  by (simp add: entry_of_def)

lemma attempt_no_frame [simp]:
  "attempt_no (set_pc t pc s) a = attempt_no s a" "attempt_no (put_entry n e s) a = attempt_no s a"
  "gen_of (set_pc t pc s) a = gen_of s a" "gen_of (put_entry n e s) a = gen_of s a"
  "published (set_pc t pc s) a = published s a" "published (put_entry n e s) a = published s a"
  by (simp_all add: attempt_no_def gen_of_def published_def)

lemma caller_at_frame [simp]:
  "caller_at (put_entry n e s) t = caller_at s t"
  "caller_at (s\<lparr>cac_attempts := as\<rparr>) t = caller_at s t" "caller_at (s\<lparr>cac_log := l\<rparr>) t = caller_at s t"
  "caller_at (s\<lparr>cac_owned := ow\<rparr>) t = caller_at s t"
  by (simp_all add: caller_at_def)

lemma entry_of_frame [simp]:
  "entry_of (s\<lparr>cac_attempts := as\<rparr>) n = entry_of s n" "entry_of (s\<lparr>cac_log := l\<rparr>) n = entry_of s n"
  "entry_of (s\<lparr>cac_owned := ow\<rparr>) n = entry_of s n"
  by (simp_all add: entry_of_def)

subsection \<open>Frames\<close>

text \<open>What a step leaves to the callers, entries and attempts it does not touch.\<close>

definition grows :: "CredentialCache \<Rightarrow> CredentialCache \<Rightarrow> bool" where
  "grows s s' \<longleftrightarrow> length (cac_attempts s) \<le> length (cac_attempts s') \<and>
     (\<forall>a<length (cac_attempts s). gen_of s' a = gen_of s a) \<and>
     set (cac_owned s) \<subseteq> set (cac_owned s') \<and> cac_generation s \<le> cac_generation s'"

lemma pc_ok_mono:
  assumes ok: "pc_ok s c (cal_pc c)" and g: "grows s s'"
    and lead: "\<And>a. leads (cal_pc c) = Some a \<Longrightarrow> leader_ok s c a \<Longrightarrow>
       \<not> atp_ready (attempt_no s' a) \<and> cen_attempt (entry_of s' (cal_name c)) = Some a"
    and wait: "\<And>a. cal_pc c = Waiting a \<Longrightarrow> a < length (cac_attempts s) \<Longrightarrow> published s' a \<Longrightarrow> published s a \<or> cal_start c \<le> gen_of s a"
  shows "pc_ok s' c (cal_pc c)"
proof -
  have L: "leader_ok s' c a" if "leads (cal_pc c) = Some a" "leader_ok s c a" for a
    using lead [OF that] that(2) g by (auto simp: leader_ok_def grows_def)
  have H: "handed s' c a x" if "handed s c a x" for a x
    using that g by (fastforce simp: handed_def grows_def)
  show ?thesis
  proof (cases "cal_pc c")
    case (Waiting a)
    then show ?thesis using ok wait [OF Waiting] g by (auto simp: pc_ok_def grows_def)
  qed (use ok L H in \<open>auto simp: pc_ok_def split: sum.splits\<close>)
qed

lemma caller_ok_mono:
  assumes "caller_ok s c" "grows s s'"
    and "\<And>a. leads (cal_pc c) = Some a \<Longrightarrow> leader_ok s c a \<Longrightarrow>
       \<not> atp_ready (attempt_no s' a) \<and> cen_attempt (entry_of s' (cal_name c)) = Some a"
    and "\<And>a. cal_pc c = Waiting a \<Longrightarrow> a < length (cac_attempts s) \<Longrightarrow> published s' a \<Longrightarrow> published s a \<or> cal_start c \<le> gen_of s a"
  shows "caller_ok s' c"
  using pc_ok_mono [OF _ assms(2-4)] assms(1,2) by (auto simp: caller_ok_def grows_def)

lemma ok_frame [simp]:
  "caller_ok (set_pc t pc s) c = caller_ok s c" "entry_ok (set_pc t pc s) e = entry_ok s e"
  "attempt_ok (set_pc t pc s) a = attempt_ok s a"
  by (simp_all add: caller_ok_def pc_ok_def leader_ok_def handed_def entry_ok_def attempt_ok_def
      split: CallerPc.split sum.split)

lemma flow_inv_set_pcI:
  assumes "\<And>u. u < length (cac_callers s) \<Longrightarrow> caller_ok s (caller_at (set_pc t pc s) u)"
    and "\<And>n. entry_ok s (entry_of s n)" and "\<And>a. a < length (cac_attempts s) \<Longrightarrow> attempt_ok s a"
    and "\<And>u v a. u < length (cac_callers s) \<Longrightarrow> v < length (cac_callers s) \<Longrightarrow>
      leads (cal_pc (caller_at (set_pc t pc s) u)) = Some a \<Longrightarrow> leads (cal_pc (caller_at (set_pc t pc s) v)) = Some a \<Longrightarrow> u = v"
    and "\<And>m n a. cen_attempt (entry_of s m) = Some a \<Longrightarrow> cen_attempt (entry_of s n) = Some a \<Longrightarrow> m = n"
  shows "flow_inv (set_pc t pc s)"
  unfolding flow_inv_def using assms by simp

text \<open>A step that only moves one caller.\<close>

lemma flow_inv_move:
  assumes inv: "flow_inv s" and t: "t < length (cac_callers s)" and ok: "pc_ok s (caller_at s t) pc"
    and lead: "\<And>a. leads pc = Some a \<Longrightarrow> leads (cal_pc (caller_at s t)) = Some a"
  shows "flow_inv (set_pc t pc s)"
proof -
  let ?s = "set_pc t pc s"
  have g: "grows s ?s" by (simp add: grows_def)
  have start: "cal_start (caller_at s t) \<le> cac_generation s" using inv t by (auto simp: flow_inv_def caller_ok_def)
  have "caller_ok ?s (caller_at ?s u)" if u: "u < length (cac_callers s)" for u
  proof (cases "u = t")
    case True
    have "pc_ok ?s ((caller_at s t)\<lparr>cal_pc := pc\<rparr>) pc"
      using ok by (auto simp: pc_ok_def leader_ok_def handed_def split: CallerPc.splits sum.splits)
    then show ?thesis using True start by (simp add: caller_ok_def caller_at_set_pc [OF t])
  next
    case False
    have "caller_ok s (caller_at s u)" using inv u by (simp add: flow_inv_def)
    then have "caller_ok ?s (caller_at s u)" by (rule caller_ok_mono [OF _ g]) (auto simp: leader_ok_def)
    then show ?thesis using False by (simp add: caller_at_set_pc [OF t])
  qed
  moreover have "u = v" if "u < length (cac_callers s)" "v < length (cac_callers s)"
    "leads (cal_pc (caller_at ?s u)) = Some a" "leads (cal_pc (caller_at ?s v)) = Some a" for u v a
  proof -
    have "leads (cal_pc (caller_at s u)) = Some a" "leads (cal_pc (caller_at s v)) = Some a"
      using that(3,4) lead by (auto simp: caller_at_set_pc [OF t] split: if_splits)
    then show ?thesis using inv that(1,2) unfolding flow_inv_def by blast
  qed
  ultimately show ?thesis using inv by (simp add: flow_inv_def entry_ok_def attempt_ok_def)
qed

text \<open>A step that changes nothing the invariant looks at.\<close>

definition same_outcome :: "CacheAttempt \<Rightarrow> CacheAttempt \<Rightarrow> bool" where
  "same_outcome x y \<longleftrightarrow> atp_ready x = atp_ready y \<and> atp_err x = atp_err y \<and> atp_retry x = atp_retry y \<and>
     atp_credential x = atp_credential y \<and> atp_generation x = atp_generation y"

lemma flow_inv_view:
  assumes inv: "flow_inv s" and callers: "cac_callers s' = cac_callers s" and gen: "cac_generation s' = cac_generation s"
    and owned: "cac_owned s' = cac_owned s" and entries: "\<And>n. entry_of s' n = entry_of s n"
    and len: "length (cac_attempts s') = length (cac_attempts s)"
    and attempts: "\<And>a. a < length (cac_attempts s) \<Longrightarrow> same_outcome (attempt_no s' a) (attempt_no s a)"
  shows "flow_inv s'"
proof -
  have same: "atp_ready (attempt_no s' a) = atp_ready (attempt_no s a)" "gen_of s' a = gen_of s a"
    "published s' a = published s a" "attempt_ok s' a = attempt_ok s a" if "a < length (cac_attempts s)" for a
    using attempts [OF that] by (auto simp: same_outcome_def gen_of_def published_def attempt_ok_def gen owned)
  have at: "caller_at s' t = caller_at s t" for t by (simp add: caller_at_def callers)
  have "leader_ok s' c a = leader_ok s c a" "handed s' c a x = handed s c a x" for c a x
    using same [of a] by (auto simp: leader_ok_def handed_def len entries owned)
  moreover have "a < length (cac_attempts s) \<and> (published s' a \<longrightarrow> k \<le> gen_of s' a) \<longleftrightarrow>
      a < length (cac_attempts s) \<and> (published s a \<longrightarrow> k \<le> gen_of s a)" for a k
    using same [of a] by auto
  ultimately have "caller_ok s' c = caller_ok s c" for c
    by (simp add: caller_ok_def pc_ok_def len gen split: CallerPc.split sum.split)
  moreover have "entry_ok s' e = entry_ok s e" for e
    using same unfolding entry_ok_def len gen owned by metis
  ultimately show ?thesis using inv same(4) by (auto simp: flow_inv_def len callers at entries)
qed

lemma flow_inv_log: "flow_inv s \<Longrightarrow> flow_inv (s\<lparr>cac_log := l\<rparr>)"
  by (rule flow_inv_view) (simp_all add: attempt_no_def same_outcome_def)

lemma flow_inv_touch: "flow_inv s \<Longrightarrow> flow_inv (put_entry n (entry_of s n) s)"
  by (rule flow_inv_view) (simp_all add: same_outcome_def)

lemma flow_inv_join:
  "flow_inv s \<Longrightarrow> flow_inv (s\<lparr>cac_attempts := (cac_attempts s)[a := (cac_attempts s ! a)\<lparr>atp_joined := k\<rparr>]\<rparr>)"
  by (rule flow_inv_view; cases "a < length (cac_attempts s)") (auto simp: attempt_no_def nth_list_update same_outcome_def)

text \<open>A step that adds to the state without touching the callers.\<close>

lemma flow_inv_add:
  assumes inv: "flow_inv s" and callers: "cac_callers s' = cac_callers s" and att: "cac_attempts s' = cac_attempts s"
    and g: "grows s s'" and entries: "\<And>n. cen_attempt (entry_of s' n) = cen_attempt (entry_of s n)"
    and creds: "\<And>n a x. cen_credential (entry_of s' n) = Some (a, x) \<Longrightarrow>
       a < length (cac_attempts s') \<and> gen_of s' a = cac_generation s' \<and> (a, x) \<in> set (cac_owned s')"
  shows "flow_inv s'"
proof -
  have [simp]: "attempt_no s' a = attempt_no s a" for a by (simp add: attempt_no_def att)
  then have [simp]: "gen_of s' a = gen_of s a" "published s' a = published s a" for a by (simp_all add: gen_of_def published_def)
  have at: "caller_at s' t = caller_at s t" for t by (simp add: caller_at_def callers)
  have "caller_ok s' c" if "caller_ok s c" for c
    by (rule caller_ok_mono [OF that g]) (auto simp: leader_ok_def entries)
  moreover have "attempt_ok s' a" if "attempt_ok s a" for a
    using that g by (fastforce simp: attempt_ok_def grows_def)
  moreover have "entry_ok s' (entry_of s' n)" for n
    using inv creds by (auto simp: flow_inv_def entry_ok_def entries att)
  ultimately show ?thesis using inv unfolding flow_inv_def callers at att entries by blast
qed

lemma flow_inv_own: "flow_inv s \<Longrightarrow> flow_inv (s\<lparr>cac_owned := cac_owned s @ [x]\<rparr>)"
  by (rule flow_inv_add) (auto simp: grows_def gen_of_def attempt_no_def flow_inv_def entry_ok_def)

lemma flow_inv_cache:
  "flow_inv s \<Longrightarrow> a < length (cac_attempts s) \<Longrightarrow> gen_of s a = cac_generation s \<Longrightarrow> (a, x) \<in> set (cac_owned s) \<Longrightarrow>
   flow_inv (put_entry n ((entry_of s n)\<lparr>cen_credential := Some (a, x)\<rparr>) s)"
  by (rule flow_inv_add) (auto simp: grows_def flow_inv_def entry_ok_def split: if_splits)

lemma entry_of_invalidate:
  "entry_of (InvalidateAll s) n = (if cac_closed s then entry_of s n else (entry_of s n)\<lparr>cen_credential := None\<rparr>)"
  by (simp add: InvalidateAll_def entry_of_def split: option.splits)

lemma flow_inv_invalidate: "flow_inv s \<Longrightarrow> flow_inv (InvalidateAll s)"
  by (rule flow_inv_add) (auto simp: grows_def InvalidateAll_def gen_of_def attempt_no_def flow_inv_def entry_ok_def
      entry_of_invalidate [unfolded InvalidateAll_def] split: if_splits)

subsection \<open>Leading and publishing an attempt\<close>

definition new_attempt :: "nat \<Rightarrow> CacheAttempt" where
  "new_attempt g = \<lparr>atp_ready = False, atp_credential = None, atp_err = None, atp_retry = False, atp_joined = 0, atp_generation = g\<rparr>"

lemma new_attempt_simps [simp]:
  "\<not> atp_ready (new_attempt g)" "atp_generation (new_attempt g) = g"
  by (simp_all add: new_attempt_def)

lemma attempt_no_append:
  "attempt_no (s\<lparr>cac_attempts := cac_attempts s @ [x]\<rparr>) a =
     (if a < length (cac_attempts s) then attempt_no s a else if a = length (cac_attempts s) then x
      else attempt_no (s\<lparr>cac_attempts := cac_attempts s @ [x]\<rparr>) a)"
  by (simp add: attempt_no_def nth_append)

lemma flow_inv_lead:
  assumes inv: "flow_inv s" and t: "t < length (cac_callers s)" and free: "cen_attempt (entry_of s n) = None"
    and n: "n = cal_name (caller_at s t)"
  shows "flow_inv (set_pc t (Acquiring (length (cac_attempts s)))
     (put_entry n ((entry_of s n)\<lparr>cen_attempt := Some (length (cac_attempts s))\<rparr>)
       (s\<lparr>cac_attempts := cac_attempts s @ [new_attempt (cac_generation s)]\<rparr>)))"
    (is "flow_inv (set_pc t ?pc (put_entry n ?e ?a))")
proof -
  let ?k = "length (cac_attempts s)" and ?m = "put_entry n ?e ?a"
  have old: "attempt_no ?a a = attempt_no s a" if "a < ?k" for a using that by (simp add: attempt_no_append)
  have [simp]: "attempt_no ?a ?k = new_attempt (cac_generation s)" by (simp add: attempt_no_def)
  have oldg: "gen_of ?a a = gen_of s a" "published ?a a = published s a" if "a < ?k" for a
    by (simp_all only: gen_of_def published_def old [OF that])
  have [simp]: "gen_of ?a ?k = cac_generation s" "\<not> published ?a ?k"
    by (simp_all add: gen_of_def published_def attempt_no_def)
  have g: "grows s ?m" using oldg by (auto simp: grows_def)
  have start: "cal_start (caller_at s u) \<le> cac_generation s" if "u < length (cac_callers s)" for u
    using inv that by (auto simp: flow_inv_def caller_ok_def)
  have other: "caller_ok ?m (caller_at s u)" if u: "u < length (cac_callers s)" "u \<noteq> t" for u
  proof (rule caller_ok_mono [OF _ g])
    show "caller_ok s (caller_at s u)" using inv u by (simp add: flow_inv_def)
  qed (use free in \<open>auto simp: leader_ok_def old oldg\<close>)
  have mine: "caller_ok ?m ((caller_at s t)\<lparr>cal_pc := Acquiring ?k\<rparr>)"
    using start [OF t] by (simp add: caller_ok_def pc_ok_def leader_ok_def n [symmetric])
  have callers: "caller_ok ?m (caller_at (set_pc t ?pc ?m) u)" if "u < length (cac_callers s)" for u
    using mine other that by (simp add: caller_at_set_pc t)
  have ents: "entry_ok ?m (entry_of ?m m)" for m
    using inv unfolding flow_inv_def entry_ok_def
    by (auto simp: old oldg less_Suc_eq)
  have atts: "attempt_ok ?m a" if "a < Suc ?k" for a
  proof (cases "a = ?k")
    case False
    then have "attempt_ok s a" "a < ?k" using inv that by (auto simp: flow_inv_def)
    then show ?thesis using old oldg by (simp add: attempt_ok_def)
  qed (simp add: attempt_ok_def)
  have below: "a < ?k" if "leads (cal_pc (caller_at s u)) = Some a" "u < length (cac_callers s)" for u a
  proof -
    have "caller_ok s (caller_at s u)" using inv that by (simp add: flow_inv_def)
    then show ?thesis using that(1) by (cases "cal_pc (caller_at s u)") (auto simp: caller_ok_def pc_ok_def leader_ok_def)
  qed
  have one: "u = v" if "u < length (cac_callers s)" "v < length (cac_callers s)"
    "leads (cal_pc (caller_at (set_pc t ?pc ?m) u)) = Some a" "leads (cal_pc (caller_at (set_pc t ?pc ?m) v)) = Some a" for u v a
    using that inv below unfolding flow_inv_def by (simp add: caller_at_set_pc t split: if_splits) blast+
  have inj: "i = j" if "cen_attempt (entry_of ?m i) = Some a" "cen_attempt (entry_of ?m j) = Some a" for i j a
    using that inv unfolding flow_inv_def entry_ok_def by (simp split: if_splits) blast+
  show ?thesis by (rule flow_inv_set_pcI; rule callers ents atts one inj; (assumption | simp))
qed

text \<open>Publishing the outcome of an attempt.\<close>

lemma flow_inv_publish:
  assumes inv: "flow_inv s" and t: "t < length (cac_callers s)" and lead: "leads (cal_pc (caller_at s t)) = Some a"
    and ok: "err = None \<Longrightarrow> (a, the c) \<in> set (cac_owned s)"
    and fresh: "err = None \<Longrightarrow> \<not> stale \<Longrightarrow> gen_of s a = cac_generation s"
  shows "flow_inv (publish t a c err stale s)"
proof -
  let ?n = "cal_name (caller_at s t)"
  let ?e = "(entry_of s ?n)\<lparr>cen_attempt := None\<rparr>"
  define at' where "at' = (cac_attempts s ! a)\<lparr>atp_err := err, atp_retry := err = None \<and> stale,
     atp_credential := (if err = None \<and> \<not> stale then Some (a, the c) else None), atp_ready := True\<rparr>"
  let ?a = "s\<lparr>cac_attempts := (cac_attempts s)[a := at']\<rparr>"
  let ?m = "put_entry ?n ?e ?a" and ?pc = "outcome_pc a c err stale"
  have tok: "caller_ok s (caller_at s t)" using inv t by (simp add: flow_inv_def)
  have lok: "leader_ok s (caller_at s t) a"
    using tok lead by (cases "cal_pc (caller_at s t)") (auto simp: caller_ok_def pc_ok_def)
  then have a: "a < length (cac_attempts s)" and ea: "cen_attempt (entry_of s ?n) = Some a"
    and unready: "\<not> atp_ready (attempt_no s a)" and start: "cal_start (caller_at s t) \<le> gen_of s a"
    by (auto simp: leader_ok_def)
  have result: "publish t a c err stale s = set_pc t ?pc ?m"
    using ea by (simp add: publish_def Let_def at'_def)
  have fields [simp]: "atp_ready at'" "atp_err at' = err" "atp_retry at' \<longleftrightarrow> err = None \<and> stale"
    "atp_generation at' = gen_of s a" "atp_credential at' = (if err = None \<and> \<not> stale then Some (a, the c) else None)"
    by (simp_all add: at'_def gen_of_def attempt_no_def)
  have at [simp]: "attempt_no ?a b = (if b = a then at' else attempt_no s b)" for b
    using a by (simp add: attempt_no_def)
  have gen [simp]: "gen_of ?a b = gen_of s b" for b by (simp add: gen_of_def)
  have pub [simp]: "published ?a b = (if b = a then err = None \<and> \<not> stale else published s b)" for b
    by (auto simp: published_def)
  have g: "grows s ?m" by (simp add: grows_def)
  have starts: "cal_start (caller_at s u) \<le> cac_generation s" if "u < length (cac_callers s)" for u
    using inv that by (auto simp: flow_inv_def caller_ok_def)
  have once: "u = t" if "u < length (cac_callers s)" "leads (cal_pc (caller_at s u)) = Some a" for u
    using inv that t lead unfolding flow_inv_def by blast
  have names: "m = ?n" if "cen_attempt (entry_of s m) = Some a" for m
    using inv that ea unfolding flow_inv_def by blast
  have other: "caller_ok ?m (caller_at s u)" if u: "u < length (cac_callers s)" "u \<noteq> t" for u
  proof (rule caller_ok_mono [OF _ g])
    show "caller_ok s (caller_at s u)" using inv u by (simp add: flow_inv_def)
    fix b
    show "\<not> atp_ready (attempt_no ?m b) \<and> cen_attempt (entry_of ?m (cal_name (caller_at s u))) = Some b"
      if "leads (cal_pc (caller_at s u)) = Some b" "leader_ok s (caller_at s u) b"
      using that once [OF u(1)] u(2) ea by (auto simp: leader_ok_def)
    show "published s b \<or> cal_start (caller_at s u) \<le> gen_of s b" if "published ?m b"
      using that starts [OF u(1)] fresh by (auto split: if_splits)
  qed
  have mine: "caller_ok ?m ((caller_at s t)\<lparr>cal_pc := ?pc\<rparr>)"
    using starts [OF t] start a ok by (auto simp: caller_ok_def pc_ok_def outcome_pc_def handed_def split: option.split)
  have callers: "caller_ok ?m (caller_at (set_pc t ?pc ?m) u)" if "u < length (cac_callers s)" for u
    using mine other that by (simp add: caller_at_set_pc t)
  have ents: "entry_ok ?m (entry_of ?m m)" for m
    using inv names [of m] unfolding flow_inv_def entry_ok_def by auto
  have atts: "attempt_ok ?m b" if "b < length (cac_attempts s)" for b
  proof -
    have "attempt_ok s b" using inv that by (simp add: flow_inv_def)
    then show ?thesis using ok by (auto simp: attempt_ok_def)
  qed
  have unled: "leads ?pc = None" by (simp add: outcome_pc_def split: option.split)
  have one: "u = v" if "u < length (cac_callers s)" "v < length (cac_callers s)"
    "leads (cal_pc (caller_at (set_pc t ?pc ?m) u)) = Some b" "leads (cal_pc (caller_at (set_pc t ?pc ?m) v)) = Some b" for u v b
    using that inv unled unfolding flow_inv_def by (simp add: caller_at_set_pc t split: if_splits)
  have inj: "i = j" if "cen_attempt (entry_of ?m i) = Some b" "cen_attempt (entry_of ?m j) = Some b" for i j b
    using that inv unfolding flow_inv_def by (simp split: if_splits)
  show ?thesis unfolding result by (rule flow_inv_set_pcI; rule callers ents atts one inj; (assumption | simp))
qed

subsection \<open>Every step keeps the flow invariant\<close>

lemma entry_of_closed [simp]:
  "entry_of (s\<lparr>cac_closed := b\<rparr>) n = entry_of s n" "entry_of (s\<lparr>cac_closing := r\<rparr>) n = entry_of s n"
  "entry_of (s\<lparr>cac_close_errs := e\<rparr>) n = entry_of s n" "entry_of (s\<lparr>cac_callers := cs\<rparr>) n = entry_of s n"
  by (simp_all add: entry_of_def)

lemma flow_inv_caller:
  assumes inv: "flow_inv s" and t: "t < length (cac_callers s)"
  shows "pc_ok s (caller_at s t) (cal_pc (caller_at s t))"
  using assms by (simp add: flow_inv_def caller_ok_def)

lemma flow_inv_start: "flow_inv s \<Longrightarrow> flow_inv (start_caller reg name s)"
proof -
  assume inv: "flow_inv s"
  let ?s = "start_caller reg name s"
  obtain c where c: "cac_callers ?s = cac_callers s @ [c]" "cal_start c = cac_generation s" "leads (cal_pc c) = None"
      "cal_pc c = Looking \<or> (\<exists>e. cal_pc c = Finished (Inl e))"
    by (simp add: start_caller_def)
  have same: "cac_attempts ?s = cac_attempts s" "cac_owned ?s = cac_owned s" "cac_generation ?s = cac_generation s" "entry_of ?s n = entry_of s n" for n
    by (simp_all add: start_caller_def)
  have at: "caller_at ?s u = (if u < length (cac_callers s) then caller_at s u else c)" if "u < length (cac_callers ?s)" for u
    using that c(1) by (auto simp: caller_at_def nth_append less_Suc_eq)
  have views: "attempt_no ?s a = attempt_no s a" "gen_of ?s a = gen_of s a" "published ?s a = published s a" for a
    by (simp_all add: attempt_no_def gen_of_def published_def same)
  have ok: "caller_ok ?s d = caller_ok s d" "entry_ok ?s e = entry_ok s e" "attempt_ok ?s a = attempt_ok s a" for d e a
    by (simp_all add: caller_ok_def pc_ok_def leader_ok_def handed_def entry_ok_def attempt_ok_def same views
        split: CallerPc.split sum.split)
  have new: "caller_ok s c" using c(2,4) by (auto simp: caller_ok_def pc_ok_def)
  show ?thesis
    using inv new c(3) by (auto simp: flow_inv_def at ok same split: if_splits)
qed

lemma flow_inv_lookup:
  assumes inv: "flow_inv s" and t: "t < length (cac_callers s)" and pc: "cal_pc (caller_at s t) = Looking"
  shows "flow_inv (lookup_step margin now t s)"
proof -
  let ?n = "cal_name (caller_at s t)"
  have start: "cal_start (caller_at s t) \<le> cac_generation s" and ent: "entry_ok s (entry_of s ?n)"
    using inv t by (auto simp: flow_inv_def caller_ok_def)
  consider (closed) "cac_closed s"
    | (hit) a c where "\<not> cac_closed s" "cen_credential (entry_of s ?n) = Some (a, c)" "credentialUsable (Some c) now margin"
    | (join) a where "\<not> cac_closed s" "\<not> credentialUsable (map_option snd (cen_credential (entry_of s ?n))) now margin"
        "cen_attempt (entry_of s ?n) = Some a"
    | (lead) "\<not> cac_closed s" "\<not> credentialUsable (map_option snd (cen_credential (entry_of s ?n))) now margin"
        "cen_attempt (entry_of s ?n) = None"
    by (cases "cac_closed s"; cases "cen_attempt (entry_of s ?n)"; cases "cen_credential (entry_of s ?n)")
      (auto simp: credentialUsable_def, blast+)
  then show ?thesis
  proof cases
    case closed
    then show ?thesis using flow_inv_move [OF inv t, of "Finished (Inl CacheClosed)"] by (simp add: lookup_step_def Let_def pc_ok_def)
  next
    case hit
    have "handed (put_entry ?n (entry_of s ?n) s) (caller_at s t) a (cloneCredential c)"
      using ent hit start by (auto simp: handed_def entry_ok_def)
    then show ?thesis
      using flow_inv_move [OF flow_inv_touch [OF inv, of ?n], of t "Finished (Inr (a, cloneCredential c))"] t hit by (simp add: lookup_step_def Let_def pc_ok_def)
  next
    case (join a)
    let ?j = "s\<lparr>cac_attempts := (cac_attempts s)[a := (cac_attempts s ! a)\<lparr>atp_joined := Suc (atp_joined (cac_attempts s ! a))\<rparr>]\<rparr>"
    have "flow_inv (put_entry ?n (entry_of ?j ?n) ?j)" by (rule flow_inv_touch [OF flow_inv_join [OF inv]])
    moreover have "a < length (cac_attempts s)" "\<not> published ?j a"
      using ent join by (auto simp: entry_ok_def published_def attempt_no_def)
    ultimately show ?thesis
      using flow_inv_move [of "put_entry ?n (entry_of ?j ?n) ?j" t "Waiting a"] t join by (simp add: lookup_step_def Let_def pc_ok_def)
  next
    case lead
    then show ?thesis using flow_inv_lead [OF inv t lead(3)] by (simp add: lookup_step_def Let_def new_attempt_def)
  qed
qed

lemma flow_inv_acquired:
  assumes inv: "flow_inv s" and t: "t < length (cac_callers s)"
  shows "flow_inv (acquired_step cln margin now ptype answer t s)"
proof (cases "cal_pc (caller_at s t)")
  case (Acquiring a)
  have lok: "leader_ok s (caller_at s t) a" using flow_inv_caller [OF inv t] Acquiring by (simp add: pc_ok_def)
  have move: "flow_inv (set_pc t (Settling a c e) (s\<lparr>cac_log := l\<rparr>))" if "e = None \<longleftrightarrow> c \<noteq> None" for c e l
    by (rule flow_inv_move [OF flow_inv_log [OF inv]])
      (use t that lok Acquiring in \<open>auto simp: pc_ok_def leader_ok_def attempt_no_def gen_of_def\<close>)
  have "acquire_cause margin now answer = None \<Longrightarrow> fst answer \<noteq> None"
    by (auto simp: acquire_cause_def split: prod.splits option.splits if_splits)
  then show ?thesis using Acquiring by (auto simp: acquired_step_def move split: option.split)
qed (use inv in \<open>simp_all add: acquired_step_def\<close>)

lemma flow_inv_settle:
  assumes inv: "flow_inv s" and t: "t < length (cac_callers s)"
  shows "flow_inv (settle_step t s)"
proof (cases "cal_pc (caller_at s t)")
  case (Settling a c err)
  let ?n = "cal_name (caller_at s t)" and ?stale = "cac_generation s \<noteq> atp_generation (cac_attempts s ! a)"
  have lok: "leader_ok s (caller_at s t) a" "err = None \<longleftrightarrow> c \<noteq> None"
    using flow_inv_caller [OF inv t] Settling by (simp_all add: pc_ok_def)
  have gen: "gen_of s a = cac_generation s \<longleftrightarrow> \<not> ?stale" by (auto simp: gen_of_def attempt_no_def)
  show ?thesis
  proof (cases "cac_closed s")
    case True
    then show ?thesis using flow_inv_move [OF inv t, of "Discarding a c err"] lok Settling by (simp add: settle_step_def pc_ok_def)
  next
    case False
    let ?o = "s\<lparr>cac_owned := cac_owned s @ [(a, the c)]\<rparr>"
    have own: "flow_inv ?o" by (rule flow_inv_own [OF inv])
    have view: "attempt_no ?o b = attempt_no s b" "gen_of ?o b = gen_of s b" for b by (simp_all add: attempt_no_def gen_of_def)
    consider (failed) e where "err = Some e" | (stale) "err = None" "?stale" | (good) "err = None" "\<not> ?stale" by (cases err) auto
    then show ?thesis
    proof cases
      case (failed e)
      then show ?thesis using False Settling flow_inv_publish [OF inv t, of a err c ?stale]
        by (simp add: settle_step_def Let_def)
    next
      case stale
      have "flow_inv (publish t a c err ?stale ?o)"
        by (rule flow_inv_publish [OF own]) (use t Settling stale in auto)
      then show ?thesis using False Settling stale by (simp add: settle_step_def Let_def)
    next
      case good
      have "flow_inv (put_entry ?n ((entry_of ?o ?n)\<lparr>cen_credential := Some (a, the c)\<rparr>) ?o)"
        by (rule flow_inv_cache [OF own]) (use lok gen good in \<open>auto simp: leader_ok_def view\<close>)
      then have "flow_inv (publish t a c err ?stale (put_entry ?n ((entry_of ?o ?n)\<lparr>cen_credential := Some (a, the c)\<rparr>) ?o))"
        by (rule flow_inv_publish) (use t Settling gen good in \<open>auto simp: view\<close>)
      then show ?thesis using False Settling good by (simp add: settle_step_def Let_def)
    qed
  qed
qed (use inv in \<open>simp_all add: settle_step_def\<close>)

lemma flow_inv_discard:
  assumes inv: "flow_inv s" and t: "t < length (cac_callers s)"
  shows "flow_inv (discard_step cln t s)"
proof (cases "cal_pc (caller_at s t)")
  case (Discarding a c err)
  have "flow_inv (publish t a None (Some (CacheClosedAfter err (cleanupCredential cln c))) False (s\<lparr>cac_log := l\<rparr>))" for l
    by (rule flow_inv_publish [OF flow_inv_log [OF inv]]) (use t Discarding in auto)
  then show ?thesis using Discarding by (simp add: discard_step_def)
qed (use inv in \<open>simp_all add: discard_step_def\<close>)

lemma flow_inv_wake:
  assumes inv: "flow_inv s" and t: "t < length (cac_callers s)"
  shows "flow_inv (wake_step t s)"
proof (cases "cal_pc (caller_at s t)")
  case (Waiting a)
  let ?at = "cac_attempts s ! a"
  have a: "a < length (cac_attempts s)" "published s a \<longrightarrow> cal_start (caller_at s t) \<le> gen_of s a"
    using flow_inv_caller [OF inv t] Waiting by (simp_all add: pc_ok_def)
  have att: "attempt_ok s a" using inv a by (simp add: flow_inv_def)
  have move: "flow_inv (set_pc t pc s)" if "pc_ok s (caller_at s t) pc" "leads pc = None" for pc
    by (rule flow_inv_move [OF inv t that(1)]) (simp add: that(2))
  have hand: "handed s (caller_at s t) b (cloneCredential c)"
    if "atp_ready ?at" "atp_err ?at = None" "\<not> atp_retry ?at" "atp_credential ?at = Some (b, c)" for b c
    using that a att by (auto simp: handed_def attempt_ok_def published_def attempt_no_def)
  show ?thesis using Waiting inv by (auto simp: wake_step_def Let_def pc_ok_def hand intro!: move split: option.split)
qed (use inv in \<open>simp_all add: wake_step_def\<close>)

lemma flow_inv_cancel: "flow_inv s \<Longrightarrow> t < length (cac_callers s) \<Longrightarrow> flow_inv (cancel_step t s)"
  using flow_inv_move [of s t "Finished (Inl CacheCancelled)"]
  by (auto simp: cancel_step_def pc_ok_def split: CallerPc.split)

lemma flow_inv_close: "flow_inv s \<Longrightarrow> flow_inv (close_begin s)"
  unfolding close_begin_def by (simp, intro impI, rule flow_inv_view) (simp_all add: attempt_no_def same_outcome_def entry_of_def)

lemma flow_inv_cleanup: "flow_inv s \<Longrightarrow> flow_inv (close_step cln s)"
  unfolding close_step_def
  by (cases "cac_closing s"; simp; rename_tac r, case_tac r; clarsimp; rule flow_inv_view)
    (simp_all add: attempt_no_def same_outcome_def entry_of_def)

lemma flow_inv_step: "cache_step reg cln margin s s' \<Longrightarrow> flow_inv s \<Longrightarrow> flow_inv s'"
  by (erule cache_step.cases)
    (simp_all add: flow_inv_start flow_inv_lookup flow_inv_acquired flow_inv_settle flow_inv_discard flow_inv_wake
      flow_inv_cancel flow_inv_invalidate flow_inv_close flow_inv_cleanup)

lemma flow_inv_new: "flow_inv NewCredentialCache"
  by (simp add: flow_inv_def NewCredentialCache_def entry_ok_def entry_of_def)

lemma flow_inv_reachable: "cache_reachable reg cln margin s \<Longrightarrow> flow_inv s"
  by (induction rule: cache_reachable.induct) (auto intro: flow_inv_new flow_inv_step)

subsection \<open>The ownership invariant\<close>

text \<open>
  Every credential a provider handed to the cache is with a caller that settles or discards it, with the cache, or
  cleaned; the multiset equation says each is in one place.
\<close>

fun got_of :: "CacheEvent list \<Rightarrow> held_credential list" where
  "got_of [] = []"
| "got_of (Got a c # l) = (a, c) # got_of l"
| "got_of (Cleaned a c # l) = got_of l"

fun cleaned_of :: "CacheEvent list \<Rightarrow> held_credential list" where
  "cleaned_of [] = []"
| "cleaned_of (Got a c # l) = cleaned_of l"
| "cleaned_of (Cleaned a c # l) = (a, c) # cleaned_of l"

definition to_release :: "held_credential list \<Rightarrow> held_credential multiset" where
  "to_release h = mset (filter (\<lambda>(a, c). crd_Cleanup c \<noteq> None) h)"

fun carried :: "CallerPc \<Rightarrow> held_credential list" where
  "carried (Settling a (Some c) e) = [(a, c)]"
| "carried (Discarding a (Some c) e) = [(a, c)]"
| "carried _ = []"

definition carried_all :: "CacheCaller list \<Rightarrow> held_credential multiset" where
  "carried_all cs = sum_list (map (\<lambda>c. to_release (carried (cal_pc c))) cs)"

definition held :: "CredentialCache \<Rightarrow> held_credential list" where
  "held s = (case cac_closing s of None \<Rightarrow> cac_owned s | Some rest \<Rightarrow> rest)"

definition own_inv :: "CredentialCache \<Rightarrow> bool" where
  "own_inv s \<longleftrightarrow>
     (cac_closing s = None \<longleftrightarrow> \<not> cac_closed s) \<and>
     to_release (got_of (cac_log s)) = carried_all (cac_callers s) + to_release (held s) + mset (cleaned_of (cac_log s)) \<and>
     distinct (map fst (got_of (cac_log s))) \<and>
     (\<forall>x\<in>set (got_of (cac_log s)). fst x < length (cac_attempts s)) \<and>
     (\<forall>t<length (cac_callers s). \<forall>a. cal_pc (caller_at s t) = Acquiring a \<longrightarrow> a \<notin> fst ` set (got_of (cac_log s))) \<and>
     (\<forall>t<length (cac_callers s). set (carried (cal_pc (caller_at s t))) \<subseteq> set (got_of (cac_log s))) \<and>
     set (cac_owned s) \<subseteq> set (got_of (cac_log s))"

lemma log_readers [simp]:
  "got_of (l @ m) = got_of l @ got_of m" "cleaned_of (l @ m) = cleaned_of l @ cleaned_of m"
  by (induction l rule: got_of.induct) auto

lemma event_readers [simp]:
  "got_of (got_events a c) = (case c of None \<Rightarrow> [] | Some x \<Rightarrow> [(a, x)])" "cleaned_of (got_events a c) = []"
  "got_of (clean_events a c) = []" "mset (cleaned_of (clean_events a c)) = to_release (case c of None \<Rightarrow> [] | Some x \<Rightarrow> [(a, x)])"
  by (auto simp: got_events_def clean_events_def to_release_def needs_cleanup_def split: option.split)

lemma to_release_simps [simp]:
  "to_release [] = {#}" "to_release (h @ k) = to_release h + to_release k" "to_release (rev h) = to_release h"
  by (simp_all add: to_release_def)

lemma to_release_Cons: "to_release (x # h) = to_release [x] + to_release h"
  by (simp add: to_release_def)

lemma carried_lead: "carried pc \<noteq> [] \<Longrightarrow> leads pc \<noteq> None"
  by (cases pc rule: carried.cases) auto

lemma carried_all_append [simp]: "carried_all (cs @ ds) = carried_all cs + carried_all ds"
  by (simp add: carried_all_def)

lemma carried_all_single [simp]: "carried_all [c] = to_release (carried (cal_pc c))"
  by (simp add: carried_all_def)

lemma carried_all_update:
  "t < length cs \<Longrightarrow> carried_all (cs[t := c]) + to_release (carried (cal_pc (cs ! t))) = carried_all cs + to_release (carried (cal_pc c))"
proof (induction cs arbitrary: t)
  case (Cons d cs)
  show ?case
  proof (cases t)
    case 0
    then show ?thesis by (simp add: carried_all_def ac_simps)
  next
    case (Suc u)
    then have "carried_all (cs[u := c]) + to_release (carried (cal_pc (cs ! u))) = carried_all cs + to_release (carried (cal_pc c))"
      using Cons by simp
    then show ?thesis using Suc by (simp add: carried_all_def)
  qed
qed simp

lemma carried_all_set_pc:
  "t < length (cac_callers s) \<Longrightarrow> carried_all (cac_callers (set_pc t pc s)) + to_release (carried (cal_pc (caller_at s t)))
     = carried_all (cac_callers s) + to_release (carried pc)"
  by (simp add: set_pc_def caller_at_def carried_all_update)

text \<open>The general step of one caller: what it takes up, hands over and cleans.\<close>

lemma own_inv_move:
  assumes inv: "own_inv s" and t: "t < length (cac_callers s)" and callers: "cac_callers m = cac_callers s"
    and closing: "cac_closing m = cac_closing s" "cac_closed m = cac_closed s"
    and len: "length (cac_attempts s) \<le> length (cac_attempts m)"
    and log: "cac_log m = cac_log s @ l"
    and sub: "set (cac_owned m) \<subseteq> set (got_of (cac_log m))" "set (carried pc) \<subseteq> set (got_of (cac_log m))"
    and fresh: "\<And>x. x \<in> set (got_of l) \<Longrightarrow> cal_pc (caller_at s t) = Acquiring (fst x)" "length (got_of l) \<le> 1" "got_of l \<noteq> [] \<Longrightarrow> flow_inv s"
    and acq: "\<And>a. pc = Acquiring a \<Longrightarrow> a = length (cac_attempts s)"
    and books: "to_release (got_of l) + to_release (carried (cal_pc (caller_at s t))) + to_release (held s)
      = to_release (carried pc) + to_release (held m) + mset (cleaned_of l)"
  shows "own_inv (set_pc t pc m)"
proof -
  have tm: "t < length (cac_callers m)" by (simp add: callers t)
  have at: "caller_at m u = caller_at s u" for u by (simp add: caller_at_def callers)
  have held: "held (set_pc t pc m) = held m" by (simp add: held_def split: option.split)
  have sum: "carried_all (cac_callers (set_pc t pc m)) + to_release (carried (cal_pc (caller_at s t)))
      = carried_all (cac_callers s) + to_release (carried pc)"
    using carried_all_set_pc [OF tm, of pc] by (simp add: callers at)
  have eq: "to_release (got_of (cac_log s)) = carried_all (cac_callers s) + to_release (held s) + mset (cleaned_of (cac_log s))"
    using inv by (simp add: own_inv_def)
  have "to_release (got_of (cac_log m)) + to_release (carried (cal_pc (caller_at s t)))
      = carried_all (cac_callers s) + mset (cleaned_of (cac_log s))
        + (to_release (got_of l) + to_release (carried (cal_pc (caller_at s t))) + to_release (held s))"
    by (simp add: log eq ac_simps)
  also have "\<dots> = (carried_all (cac_callers s) + to_release (carried pc)) + to_release (held m) + mset (cleaned_of (cac_log m))"
    by (subst books) (simp add: log ac_simps)
  also have "\<dots> = carried_all (cac_callers (set_pc t pc m)) + to_release (held m) + mset (cleaned_of (cac_log m))
      + to_release (carried (cal_pc (caller_at s t)))"
    by (simp add: sum [symmetric] ac_simps)
  finally have ledger: "to_release (got_of (cac_log m)) =
      carried_all (cac_callers (set_pc t pc m)) + to_release (held m) + mset (cleaned_of (cac_log m))"
    by (simp add: ac_simps)
  have new: "fst x \<notin> fst ` set (got_of (cac_log s)) \<and> fst x < length (cac_attempts s)" if x: "x \<in> set (got_of l)" for x
  proof -
    have pc: "cal_pc (caller_at s t) = Acquiring (fst x)" and "flow_inv s" using fresh(1) [OF x] fresh(3) x by (cases "got_of l"; simp)+
    then have "leader_ok s (caller_at s t) (fst x)" using flow_inv_caller [of s t] t by (simp add: pc_ok_def)
    then show ?thesis using inv pc t unfolding own_inv_def leader_ok_def by blast
  qed
  have dist: "distinct (map fst (got_of (cac_log m)))"
    using inv new fresh(2) by (cases "got_of l") (auto simp: own_inv_def log)
  have acquiring: "a \<notin> fst ` set (got_of (cac_log m))"
    if "u < length (cac_callers s)" "cal_pc (caller_at (set_pc t pc m) u) = Acquiring a" for u a
  proof (cases "u = t")
    case True
    then have "a = length (cac_attempts s)" using that acq by (simp add: caller_at_set_pc [OF tm])
    then show ?thesis using inv new by (fastforce simp: own_inv_def log)
  next
    case False
    then have pc: "cal_pc (caller_at s u) = Acquiring a" using that by (simp add: caller_at_set_pc [OF tm] at)
    then have "a \<notin> fst ` set (got_of (cac_log s))" using inv that(1) unfolding own_inv_def by blast
    moreover have "fst x \<noteq> a" if x: "x \<in> set (got_of l)" for x
    proof
      assume "fst x = a"
      then have "cal_pc (caller_at s t) = Acquiring a" "flow_inv s" using fresh(1) [OF x] fresh(3) x by (cases "got_of l"; simp)+
      then have "leads (cal_pc (caller_at s t)) = Some a" "leads (cal_pc (caller_at s u)) = Some a" "flow_inv s" using pc by simp_all
      then show False using False t \<open>u < length (cac_callers s)\<close> unfolding flow_inv_def by blast
    qed
    ultimately show ?thesis by (auto simp: log)
  qed
  have carry: "set (carried (cal_pc (caller_at (set_pc t pc m) u))) \<subseteq> set (got_of (cac_log m))" if "u < length (cac_callers s)" for u
    using inv that sub(2) by (auto simp: caller_at_set_pc [OF tm] at own_inv_def log)
  show ?thesis unfolding own_inv_def held
    using inv ledger dist acquiring carry sub(1) new len by (force simp: closing callers own_inv_def log)
qed

lemma own_inv_same:
  assumes "own_inv s" "cac_callers s' = cac_callers s" "cac_closed s' = cac_closed s" "cac_closing s' = cac_closing s"
    "cac_log s' = cac_log s" "cac_owned s' = cac_owned s" "length (cac_attempts s') = length (cac_attempts s)"
  shows "own_inv s'"
proof -
  have "held s' = held s" using assms(4,6) by (simp add: held_def split: option.split)
  then show ?thesis using assms by (simp add: own_inv_def caller_at_def)
qed

lemma own_inv_quiet:
  assumes inv: "own_inv s" and t: "t < length (cac_callers s)" and "cac_callers m = cac_callers s"
    and "cac_closing m = cac_closing s" "cac_closed m = cac_closed s" "cac_owned m = cac_owned s"
    and "length (cac_attempts s) \<le> length (cac_attempts m)" and "cac_log m = cac_log s"
    and "\<And>a. pc = Acquiring a \<Longrightarrow> a = length (cac_attempts s)"
    and "carried pc = carried (cal_pc (caller_at s t))"
  shows "own_inv (set_pc t pc m)"
  by (rule own_inv_move [OF inv t, of m "[]"]) (use assms in \<open>auto simp: own_inv_def held_def\<close>)

lemma own_inv_start: "own_inv s \<Longrightarrow> own_inv (start_caller reg name s)"
  by (auto simp: own_inv_def start_caller_def caller_at_def held_def nth_append less_Suc_eq)

lemma own_inv_lookup:
  assumes inv: "own_inv s" and t: "t < length (cac_callers s)" and pc: "cal_pc (caller_at s t) = Looking"
  shows "own_inv (lookup_step margin now t s)"
  using inv by (auto simp: lookup_step_def Let_def pc t intro!: own_inv_quiet [OF inv t] split: option.split)

lemma own_inv_acquired:
  assumes inv: "own_inv s" and flow: "flow_inv s" and t: "t < length (cac_callers s)"
  shows "own_inv (acquired_step cln margin now ptype answer t s)"
proof (cases "cal_pc (caller_at s t)")
  case (Acquiring a)
  have move: "own_inv (set_pc t pc (s\<lparr>cac_log := cac_log s @ l\<rparr>))"
    if "\<And>x. x \<in> set (got_of l) \<Longrightarrow> fst x = a" "length (got_of l) \<le> 1" "set (carried pc) \<subseteq> set (got_of l)"
      "\<And>b. pc \<noteq> Acquiring b" "to_release (got_of l) = to_release (carried pc) + mset (cleaned_of l)" for pc l
    by (rule own_inv_move [OF inv t, of _ l]) (use that inv flow Acquiring in \<open>auto simp: own_inv_def held_def\<close>)
  have "fst answer \<noteq> None" if "acquire_cause margin now answer = None"
    using that by (auto simp: acquire_cause_def split: prod.splits option.splits if_splits)
  then show ?thesis
    using Acquiring by (cases "fst answer") (auto simp: acquired_step_def intro!: move split: option.split)
qed (use inv in \<open>simp_all add: acquired_step_def\<close>)

lemma publish_eq:
  "publish t a c err stale s = set_pc t (outcome_pc a c err stale)
     (put_entry (cal_name (caller_at s t)) (cen_update a (entry_of s (cal_name (caller_at s t))))
       (s\<lparr>cac_attempts := (cac_attempts s)[a := (cac_attempts s ! a)
               \<lparr>atp_err := err, atp_retry := err = None \<and> stale,
                atp_credential := (if err = None \<and> \<not> stale then Some (a, the c) else None), atp_ready := True\<rparr>]\<rparr>))"
  if "cen_update = (\<lambda>a e. if cen_attempt e = Some a then e\<lparr>cen_attempt := None\<rparr> else e)"
  using that by (simp add: publish_def Let_def)

lemma outcome_quiet [simp]: "carried (outcome_pc a c err stale) = []" "outcome_pc a c err stale \<noteq> Acquiring b"
  by (simp_all add: outcome_pc_def split: option.split)

lemma own_inv_settle:
  assumes inv: "own_inv s" and flow: "flow_inv s" and t: "t < length (cac_callers s)"
  shows "own_inv (settle_step t s)"
proof (cases "cal_pc (caller_at s t)")
  case (Settling a c err)
  have ok: "err = None \<longleftrightarrow> c \<noteq> None"
    using flow_inv_caller [OF flow t] Settling by (simp add: pc_ok_def)
  have got: "set (carried (Settling a c err)) \<subseteq> set (got_of (cac_log s))"
    using inv t Settling unfolding own_inv_def by metis
  show ?thesis
  proof (cases "cac_closed s")
    case True
    have "own_inv (set_pc t (Discarding a c err) s)"
      by (rule own_inv_quiet [OF inv t]; cases c) (simp_all add: Settling)
    then show ?thesis using True Settling by (simp add: settle_step_def Let_def)
  next
    case False
    then have open': "cac_closing s = None" using inv by (simp add: own_inv_def)
    show ?thesis
    proof (cases c)
      case None
      then show ?thesis using False Settling ok
        by (auto simp: settle_step_def Let_def publish_def intro!: own_inv_quiet [OF inv t])
    next
      case (Some x)
      have "own_inv (set_pc t pc m)"
        if "cac_callers m = cac_callers s" "cac_closing m = None" "cac_closed m = cac_closed s" "cac_log m = cac_log s"
          "length (cac_attempts m) = length (cac_attempts s)" "cac_owned m = cac_owned s @ [(a, x)]"
          "carried pc = []" "\<And>b. pc \<noteq> Acquiring b" for pc m
        by (rule own_inv_move [OF inv t, of m "[]"])
          (use that inv Some Settling got open' in \<open>auto simp: own_inv_def held_def\<close>)
      then show ?thesis using False Settling ok Some open'
        by (simp add: settle_step_def Let_def publish_def)
    qed
  qed
qed (use inv in \<open>simp_all add: settle_step_def\<close>)

lemma own_inv_discard:
  assumes inv: "own_inv s" and t: "t < length (cac_callers s)"
  shows "own_inv (discard_step cln t s)"
proof (cases "cal_pc (caller_at s t)")
  case (Discarding a c err)
  have "own_inv (set_pc t pc m)"
    if "cac_callers m = cac_callers s" "cac_closing m = cac_closing s" "cac_closed m = cac_closed s"
      "cac_log m = cac_log s @ clean_events a c" "length (cac_attempts m) = length (cac_attempts s)" "cac_owned m = cac_owned s"
      "carried pc = []" "\<And>b. pc \<noteq> Acquiring b" for pc m
    by (rule own_inv_move [OF inv t, of m "clean_events a c"])
      (use that inv Discarding in \<open>auto simp: own_inv_def held_def split: option.split\<close>)
  then show ?thesis using Discarding by (simp add: discard_step_def publish_def Let_def)
qed (use inv in \<open>simp_all add: discard_step_def\<close>)

lemma own_inv_wake: "own_inv s \<Longrightarrow> t < length (cac_callers s) \<Longrightarrow> own_inv (wake_step t s)"
  by (cases "cal_pc (caller_at s t)")
    (auto simp: wake_step_def Let_def intro!: own_inv_quiet split: option.split)

lemma own_inv_cancel: "own_inv s \<Longrightarrow> t < length (cac_callers s) \<Longrightarrow> own_inv (cancel_step t s)"
  by (cases "cal_pc (caller_at s t)") (auto simp: cancel_step_def intro!: own_inv_quiet)

lemma own_inv_invalidate: "own_inv s \<Longrightarrow> own_inv (InvalidateAll s)"
  unfolding InvalidateAll_def by (simp, intro impI, rule own_inv_same) simp_all

lemma own_inv_close: "own_inv s \<Longrightarrow> own_inv (close_begin s)"
  by (auto simp: own_inv_def close_begin_def held_def caller_at_def)

lemma own_inv_cleanup: "own_inv s \<Longrightarrow> own_inv (close_step cln s)"
proof (cases "cac_closing s")
  case (Some rest)
  assume inv: "own_inv s"
  show ?thesis
  proof (cases rest)
    case (Cons x ys)
    obtain a c where x: "x = (a, c)" by (cases x)
    have "to_release (x # ys) = to_release ys + to_release [(a, c)]" by (subst to_release_Cons) (simp add: x)
    then show ?thesis using inv Some Cons x
      by (auto simp: own_inv_def close_step_def held_def caller_at_def)
  qed (use inv Some in \<open>simp add: close_step_def\<close>)
qed (simp add: close_step_def)

lemma own_inv_step: "cache_step reg cln margin s s' \<Longrightarrow> own_inv s \<Longrightarrow> flow_inv s \<Longrightarrow> own_inv s'"
  by (erule cache_step.cases)
    (simp_all add: own_inv_start own_inv_lookup own_inv_acquired own_inv_settle own_inv_discard own_inv_wake
      own_inv_cancel own_inv_invalidate own_inv_close own_inv_cleanup)

lemma own_inv_reachable: "cache_reachable reg cln margin s \<Longrightarrow> own_inv s"
proof (induction rule: cache_reachable.induct)
  case cr_new
  show ?case by (simp add: own_inv_def NewCredentialCache_def held_def carried_all_def)
next
  case (cr_step s s')
  then show ?case using own_inv_step flow_inv_reachable by blast
qed

subsection \<open>Properties of every run\<close>

text \<open>
  C35. Concurrent requests for one provider share one acquisition: in every interleaving, at most one caller at a time
  is between the start and the publication of an acquisition of a given provider.
\<close>

theorem one_acquisition_per_provider:
  assumes "cache_reachable reg cln margin s" and "t < length (cac_callers s)" and "u < length (cac_callers s)"
    and "leads (cal_pc (caller_at s t)) = Some a" and "leads (cal_pc (caller_at s u)) = Some b"
    and "cal_name (caller_at s t) = cal_name (caller_at s u)"
  shows "t = u"
proof -
  note flow = flow_inv_reachable [OF assms(1)]
  have "leader_ok s (caller_at s v) k" if "v < length (cac_callers s)" "leads (cal_pc (caller_at s v)) = Some k" for v k
    using flow_inv_caller [OF flow that(1)] that(2) by (cases "cal_pc (caller_at s v)") (auto simp: pc_ok_def)
  from this [OF assms(2,4)] this [OF assms(3,5)] have "a = b" using assms(6) by (simp add: leader_ok_def)
  then show ?thesis using flow assms(2-5) unfolding flow_inv_def by blast
qed


text \<open>What the two ownership properties rest on.\<close>

lemma mset_to_release: "to_release h \<subseteq># mset h"
  by (simp add: to_release_def)

lemma released_once:
  assumes "own_inv s"
  shows "to_release (held s) + mset (cleaned_of (cac_log s)) \<subseteq># mset (got_of (cac_log s))"
proof -
  have "to_release (held s) + mset (cleaned_of (cac_log s)) \<subseteq># to_release (got_of (cac_log s))"
    using assms by (simp add: own_inv_def)
  then show ?thesis using mset_to_release subset_mset.order_trans by blast
qed

lemma count_of_member: "x \<in># M \<Longrightarrow> 1 \<le> count M x"
  by (simp add: Suc_le_eq)

lemma cleaned_submset: "own_inv s \<Longrightarrow> mset (cleaned_of (cac_log s)) \<subseteq># mset (got_of (cac_log s))"
  using released_once subset_mset.order_trans mset_subset_eq_add_right by blast

lemma distinct_submset:
  assumes "mset xs \<subseteq># mset ys" and "distinct (map f ys)"
  shows "distinct (map f xs)"
proof -
  have "mset (map f xs) \<subseteq># mset (map f ys)" using image_mset_subseteq_mono [OF assms(1), of f] by simp
  then have "count (mset (map f xs)) k \<le> count (mset (map f ys)) k" for k by (rule mset_subset_eq_count)
  moreover have "count (mset (map f ys)) k \<le> 1" for k using assms(2) by (simp add: distinct_count_atmost_1)
  ultimately have most: "count (mset (map f xs)) k \<le> 1" for k using order_trans by blast
  have "count (mset (map f xs)) k = (if k \<in> set (map f xs) then 1 else 0)" for k
  proof (cases "k \<in> set (map f xs)")
    case True
    then have "k \<in># mset (map f xs)" by simp
    then have "0 < count (mset (map f xs)) k" by (simp only: count_greater_zero_iff)
    then have "count (mset (map f xs)) k = 1" using most [of k] by linarith
    then show ?thesis by (simp only: True if_True)
  next
    case False
    then show ?thesis by (metis count_mset_0_iff)
  qed
  then show ?thesis using distinct_count_atmost_1 by blast
qed

text \<open>
  C33. Every credential the cache obtained is cleaned at most once, whatever races with \<open>InvalidateAll\<close> and \<open>Close\<close>.
  When \<open>Close\<close> has finished and no request is running, every obtained credential that has a cleanup has been cleaned,
  including those of discarded generations and those that arrived while the cache was closing.
\<close>

theorem cache_cleans_once:
  assumes "cache_reachable reg cln margin s"
  shows "distinct (map fst (cleaned_of (cac_log s))) \<and> set (cleaned_of (cac_log s)) \<subseteq> set (got_of (cac_log s)) \<and>
     (cac_closing s = Some [] \<and> (\<forall>t<length (cac_callers s). \<exists>r. cal_pc (caller_at s t) = Finished r) \<longrightarrow>
        mset (cleaned_of (cac_log s)) = to_release (got_of (cac_log s)))"
proof (intro conjI impI)
  note inv = own_inv_reachable [OF assms]
  note sub = cleaned_submset [OF inv]
  show "distinct (map fst (cleaned_of (cac_log s)))" 
    by (rule distinct_submset [OF sub]) (use inv in \<open>simp add: own_inv_def\<close>)
  show "set (cleaned_of (cac_log s)) \<subseteq> set (got_of (cac_log s))" using set_mset_mono [OF sub] by simp
  assume done': "cac_closing s = Some [] \<and> (\<forall>t<length (cac_callers s). \<exists>r. cal_pc (caller_at s t) = Finished r)"
  have "to_release (carried (cal_pc c)) = {#}" if c: "c \<in> set (cac_callers s)" for c
  proof -
    obtain t where "t < length (cac_callers s)" "caller_at s t = c" using c by (auto simp: in_set_conv_nth caller_at_def)
    then obtain r where "cal_pc c = Finished r" using done' by blast
    then show ?thesis by simp
  qed
  then have "carried_all (cac_callers s) = {#}" unfolding carried_all_def by (simp cong: map_cong)
  then show "mset (cleaned_of (cac_log s)) = to_release (got_of (cac_log s))"
    using inv done' by (simp add: own_inv_def held_def)
qed

text \<open>
  As long as \<open>Close\<close> has not begun, no credential that was handed out has been cleaned.
\<close>

lemma handed_credentials_live:
  assumes "cache_reachable reg cln margin s" and "\<not> cac_closed s" and "t < length (cac_callers s)"
    and "cal_pc (caller_at s t) = Finished (Inr (a, c))"
  shows "a \<notin> fst ` set (cleaned_of (cac_log s))"
proof
  note inv = own_inv_reachable [OF assms(1)]
  assume "a \<in> fst ` set (cleaned_of (cac_log s))"
  then obtain y where y: "(a, y) \<in> set (cleaned_of (cac_log s))" by auto
  have "handed s (caller_at s t) a c"
    using flow_inv_caller [OF flow_inv_reachable [OF assms(1)] assms(3)] assms(4) by (simp add: pc_ok_def)
  then obtain x where x: "(a, x) \<in> set (cac_owned s)" by (auto simp: handed_def)
  have held: "held s = cac_owned s" using inv assms(2) by (simp add: own_inv_def held_def)
  note sub = released_once [OF inv]
  have got: "(a, x) \<in> set (got_of (cac_log s))" "(a, y) \<in> set (got_of (cac_log s))"
    using inv x y set_mset_mono [OF cleaned_submset [OF inv]] by (auto simp: own_inv_def)
  have keys: "distinct (map fst (got_of (cac_log s)))" using inv by (simp add: own_inv_def)
  then have same: "x = y" using got eq_key_imp_eq_value by fast
  have "(a, y) \<in># to_release (got_of (cac_log s))" using inv y by (simp add: own_inv_def)
  then have "(a, x) \<in># to_release (held s)" using x held same by (auto simp: to_release_def)
  then have "1 \<le> count (to_release (held s)) (a, x)" by (rule count_of_member)
  moreover have "1 \<le> count (mset (cleaned_of (cac_log s))) (a, x)" by (rule count_of_member) (use y same in simp)
  ultimately have "2 \<le> count (to_release (held s) + mset (cleaned_of (cac_log s))) (a, x)"
    unfolding count_union by linarith
  also have "\<dots> \<le> count (mset (got_of (cac_log s))) (a, x)" by (rule mset_subset_eq_count [OF sub])
  also have "\<dots> \<le> 1"
  proof -
    have "distinct (got_of (cac_log s))" using keys unfolding distinct_map by blast
    then show ?thesis by (simp add: distinct_count_atmost_1)
  qed
  finally show False by simp
qed

section \<open>A request for a stack\<close>

text \<open>\<open>AcquireAll\<close> of the cache asks for one name after the other; \<open>one\<close> is the outcome of \<open>acquireOne\<close>.\<close>

fun cache_AcquireAll ::
  "(nat \<Rightarrow> string \<Rightarrow> CacheErr + Credential) \<Rightarrow> nat \<Rightarrow> cred_env \<Rightarrow> Credential option list \<Rightarrow> string list
     \<Rightarrow> CacheErr + cred_env \<times> Credential option list" where
  "cache_AcquireAll one k merged creds [] = Inr (merged, creds)"
| "cache_AcquireAll one k merged creds (n # names) =
     (case one k n of
        Inl e \<Rightarrow> Inl e
      | Inr c \<Rightarrow> cache_AcquireAll one (Suc k) (merge_env merged (crd_Env c)) (creds @ [Some c]) names)"

text \<open>
  The cleanup a run defers does nothing to credentials of the cache, which carry no cleanup of their own: several
  stacks share them.
\<close>

lemma cached_all_members:
  "cache_AcquireAll one k merged creds names = Inr (env, creds') \<Longrightarrow>
     set creds' \<subseteq> set creds \<union> {Some c |c. \<exists>j n. one j n = Inr c}"
proof (induction names arbitrary: k merged creds)
  case (Cons n names)
  then obtain c where c: "one k n = Inr c"
    and "cache_AcquireAll one (Suc k) (merge_env merged (crd_Env c)) (creds @ [Some c]) names = Inr (env, creds')"
    by (auto split: sum.splits)
  then show ?case using Cons.IH by fastforce
qed simp

lemma shared_credentials_not_released:
  assumes "\<And>j n c. one j n = Inr c \<Longrightarrow> crd_Cleanup c = None"
    and "cache_AcquireAll one k merged [] names = Inr (env, creds)"
  shows "credentialCleanup cln creds = []"
proof -
  have "\<not> needs_cleanup c" if "c \<in> set creds" for c
    using cached_all_members [OF assms(2)] assms(1) that by (fastforce simp: needs_cleanup_def)
  then show ?thesis unfolding credentialCleanup_def by (induction creds) (auto simp: filter_empty_conv)
qed

section \<open>A concrete run\<close>

definition demo_token :: Credential where
  "demo_token = \<lparr>crd_Env = [(''AWS_SESSION_TOKEN'', ''t0k'')], crd_Kind = ''aws'', crd_Source = ''aws'', crd_ExpiresAt = hour,
     crd_Cleanup = Some ''/tmp/creds''\<rparr>"

definition demo_registry :: Registry where
  "demo_registry = [(''adc'', GcloudADC ''adc'')]"

definition demo_leading :: CredentialCache where
  "demo_leading = lookup_step (30 * second) 0 0 (start_caller demo_registry ''adc'' NewCredentialCache)"

definition demo_settling :: CredentialCache where
  "demo_settling = acquired_step (\<lambda>_. None) (30 * second) 0 ''gcloud_adc'' (Some demo_token, None) 0 demo_leading"

definition demo_cached :: CredentialCache where
  "demo_cached = settle_step 0 demo_settling"

definition demo_shut :: CredentialCache where
  "demo_shut = close_step (\<lambda>_. None) (close_begin demo_cached)"

lemma demo_leading_reachable: "cache_reachable demo_registry (\<lambda>_. None) (30 * second) demo_leading"
  unfolding demo_leading_def
  by (rule cr_step, rule cr_step, rule cr_new, rule cs_start, rule cs_lookup; code_simp)

lemma demo_settling_reachable: "cache_reachable demo_registry (\<lambda>_. None) (30 * second) demo_settling"
  unfolding demo_settling_def by (rule cr_step [OF demo_leading_reachable], rule cs_acquired, code_simp)

lemma demo_cached_reachable: "cache_reachable demo_registry (\<lambda>_. None) (30 * second) demo_cached"
  unfolding demo_cached_def by (rule cr_step [OF demo_settling_reachable], rule cs_settle, code_simp)

lemma demo_shut_reachable: "cache_reachable demo_registry (\<lambda>_. None) (30 * second) demo_shut"
  unfolding demo_shut_def by (rule cr_step, rule cr_step, rule demo_cached_reachable, rule cs_close, rule cs_cleanup)

lemma demo_cached_hands_out:
  "length (cac_callers demo_cached) = 1" "\<not> cac_closed demo_cached"
  "cal_pc (caller_at demo_cached 0) = Finished (Inr (0, cloneCredential demo_token))"
  by code_simp+

theorem one_acquisition_per_provider_witness:
  "leads (cal_pc (caller_at demo_leading 0)) = Some 0 \<and> (0::nat) = 0"
proof (rule conjI)
  show lead: "leads (cal_pc (caller_at demo_leading 0)) = Some 0" by code_simp
  have len: "0 < length (cac_callers demo_leading)" by code_simp
  show "(0::nat) = 0" by (rule one_acquisition_per_provider [OF demo_leading_reachable len len lead lead refl])
qed


theorem cache_cleans_once_witness:
  "distinct (map fst (cleaned_of (cac_log demo_shut))) \<and> mset (cleaned_of (cac_log demo_shut)) = {#(0, demo_token)#}"
proof -
  have "cac_closing demo_shut = Some [] \<and> length (cac_callers demo_shut) = 1 \<and>
      cal_pc (caller_at demo_shut 0) = Finished (Inr (0, cloneCredential demo_token))" by code_simp
  moreover have "to_release (got_of (cac_log demo_shut)) = {#(0, demo_token)#}" by code_simp
  ultimately show ?thesis using cache_cleans_once [OF demo_shut_reachable] by simp
qed

lemma demo_token_live: "(0::nat) \<notin> fst ` set (cleaned_of (cac_log demo_cached))"
  by (rule handed_credentials_live [OF demo_cached_reachable demo_cached_hands_out(2) _ demo_cached_hands_out(3)])
    (simp add: demo_cached_hands_out)

text \<open>A second request after \<open>InvalidateAll\<close> acquires again instead of taking the cached credential.\<close>

lemma demo_invalidated:
  "cal_pc (caller_at (lookup_step (30 * second) 0 1 (start_caller demo_registry ''adc'' demo_cached)) 1)
     = Finished (Inr (0, cloneCredential demo_token))"
  "cal_pc (caller_at (lookup_step (30 * second) 0 1 (start_caller demo_registry ''adc'' (InvalidateAll demo_cached))) 1) = Acquiring 1"
  by code_simp+

end
