(* ===== verification/PlanJson.thy ===== *)
theory PlanJson
  imports RenderText
begin

text \<open>
  The plan representation of Terraform and OpenTofu, \<open>internal/iac/hcl/parse.go\<close>: counting and listing changes,
  masking sensitive values, and the short summary of a pull-request comment.

  A decoded JSON value is a tree. An object is the list of its entries with distinct keys in ascending order, so that
  equal maps are equal values, Go's \<open>reflect.DeepEqual\<close>; reading a missing key gives \<open>JNull\<close>, Go's nil. A number is
  the text \<open>FormatFloat\<close> gives it. The decoders are parameters, and so is \<open>strconv.Quote\<close>, \<open>qt\<close>, whose escapes depend
  on the Unicode tables.
\<close>

subsection \<open>Values\<close>

datatype json = JNull | JBool bool | JNum string | JStr string | JList "json list" | JObj "(string \<times> json) list"

type_synonym jobj = "(string \<times> json) list"

definition jget :: "jobj \<Rightarrow> string \<Rightarrow> json" where
  "jget m k = (case map_of m k of None \<Rightarrow> JNull | Some v \<Rightarrow> v)"

definition jat :: "json list \<Rightarrow> nat \<Rightarrow> json" where
  "jat l i = (if i < length l then l ! i else JNull)"

text \<open>A failed type assertion leaves the nil map or the nil slice.\<close>

fun as_obj :: "json \<Rightarrow> jobj" where "as_obj (JObj m) = m" | "as_obj _ = []"
fun as_list :: "json \<Rightarrow> json list" where "as_list (JList l) = l" | "as_list _ = []"
fun is_obj :: "json \<Rightarrow> bool" where "is_obj (JObj m) = True" | "is_obj _ = False"
fun is_list :: "json \<Rightarrow> bool" where "is_list (JList l) = True" | "is_list _ = False"

definition sorted_keys :: "string list \<Rightarrow> string list" where
  "sorted_keys ks = insertion_sort (<) (dedup_seen [] ks)"

definition plan_sortedKeys :: "jobj \<Rightarrow> string list" where
  "plan_sortedKeys m = sorted_keys (map fst m)"

text \<open>The containers of a value, the measure of every walk.\<close>

fun jnodes :: "json \<Rightarrow> nat" where
  "jnodes (JList l) = Suc (sum_list (map jnodes l))"
| "jnodes (JObj m) = Suc (sum_list (map (\<lambda>e. jnodes (snd e)) m))"
| "jnodes _ = 0"

lemma sum_list_member: "x \<in> set xs \<Longrightarrow> f x \<le> sum_list (map f xs)" for f :: "'a \<Rightarrow> nat"
  by (induction xs) auto

lemma jnodes_elem: "v \<in> set l \<Longrightarrow> jnodes v < jnodes (JList l)"
  using sum_list_member [of v l jnodes] by (simp add: le_imp_less_Suc)

lemma jnodes_entry: "(k, v) \<in> set m \<Longrightarrow> jnodes v < jnodes (JObj m)"
  using sum_list_member [of "(k, v)" m "\<lambda>e. jnodes (snd e)"] by (simp add: le_imp_less_Suc)

lemma jnodes_jget: "jnodes (jget m k) < jnodes (JObj m)"
  by (auto simp: jget_def split: option.splits dest!: map_of_SomeD jnodes_entry)

lemma jnodes_jat: "jnodes (jat l i) < jnodes (JList l)"
  by (auto simp: jat_def intro: jnodes_elem simp del: jnodes.simps) simp

lemma jnodes_children:
  "jnodes (jget (as_obj v) k) \<le> jnodes v" "jnodes (jat (as_list v) i) \<le> jnodes v"
  "is_obj v \<Longrightarrow> jnodes (jget (as_obj v) k) < jnodes v" "is_list v \<Longrightarrow> jnodes (jat (as_list v) i) < jnodes v"
  using jnodes_jget [of "as_obj v" k] jnodes_jat [of "as_list v" i]
  by (cases v; simp add: jget_def jat_def)+

subsection \<open>The plan\<close>

record ChangeDetail =
  chd_Actions :: "string list"
  chd_Before :: json
  chd_After :: json
  chd_AfterUnknown :: json
  chd_BeforeSensitive :: json
  chd_AfterSensitive :: json
  chd_ReplacePaths :: "json list list"

record PlanChange =
  plc_Address :: string
  plc_Type :: string
  plc_Change :: ChangeDetail

record PlanJSON =
  plj_FormatVersion :: string
  plj_ResourceChanges :: "PlanChange list"
  plj_ResourceDrift :: "PlanChange list"

definition opOf :: "string list \<Rightarrow> string" where
  "opOf actions =
     (case actions of
        [a] \<Rightarrow> if a \<in> {''create'', ''update'', ''delete'', ''read''} then a else ''no-op''
      | [a, b] \<Rightarrow>
          if a = ''delete'' \<and> b = ''create'' \<or> a = ''create'' \<and> b = ''delete'' then ''replace'' else ''no-op''
      | _ \<Rightarrow> ''no-op'')"

definition opPrefix :: "string \<Rightarrow> string" where
  "opPrefix op =
     (if op = ''create'' then ''+'' else if op = ''update'' then ''~'' else if op = ''delete'' then ''-''
      else if op = ''replace'' then plusminus else '''')"

datatype PlanErr = PlanUndecodable string | NoFormatVersion

definition parsePlan :: "(string \<Rightarrow> string + PlanJSON) \<Rightarrow> string \<Rightarrow> PlanErr + PlanJSON" where
  "parsePlan dec raw =
     (case dec raw of
        Inl e \<Rightarrow> Inl (PlanUndecodable e)
      | Inr p \<Rightarrow> if plj_FormatVersion p = '''' then Inl NoFormatVersion else Inr p)"

definition op_of :: "PlanChange \<Rightarrow> string" where "op_of rc = opOf (chd_Actions (plc_Change rc))"

definition countsFrom :: "PlanChange list \<Rightarrow> Counts" where
  "countsFrom changes = fold (\<lambda>rc c.
     let op = op_of rc in
     if op = ''create'' then c\<lparr>ct_Add := ct_Add c + 1\<rparr>
     else if op = ''update'' then c\<lparr>ct_Change := ct_Change c + 1\<rparr>
     else if op = ''delete'' then c\<lparr>ct_Delete := ct_Delete c + 1\<rparr>
     else if op = ''replace'' then c\<lparr>ct_Replace := ct_Replace c + 1\<rparr>
     else c) changes zero_counts"

definition changedAddresses :: "PlanChange list \<Rightarrow> string list" where
  "changedAddresses changes =
     map plc_Address (filter (\<lambda>rc. opPrefix (op_of rc) \<noteq> '''' \<and> plc_Address rc \<noteq> '''') changes)"

definition terraformCategory :: "string \<Rightarrow> string" where
  "terraformCategory op =
     (if op = ''delete'' then DriftOrphaned else if op = ''create'' then DriftMissing else ''changed'')"

text \<open>The walk over two values and the paths at which they differ.\<close>

function walk_paths :: "string \<Rightarrow> json \<Rightarrow> json \<Rightarrow> string list" where
  "walk_paths pre b a =
     (if b = a then []
      else if is_obj b \<or> is_obj a then
        concat (map (\<lambda>k. walk_paths (if pre \<noteq> '''' then pre @ ''.'' @ k else k) (jget (as_obj b) k) (jget (as_obj a) k))
          (sorted_keys (map fst (as_obj b) @ map fst (as_obj a))))
      else if is_list b \<or> is_list a then
        concat (map (\<lambda>i. walk_paths (pre @ ''['' @ itoa (int i) @ '']'') (jat (as_list b) i) (jat (as_list a) i))
          [0..<max (length (as_list b)) (length (as_list a))])
      else if pre \<noteq> '''' then [pre] else [])"
  by pat_completeness auto
termination
proof (relation "measure (\<lambda>(_, b, a). jnodes b + jnodes a)", goal_cases)
  case (2 pre b a k)
  then show ?case using jnodes_children(1,3) [of b k] jnodes_children(1,3) [of a k] by fastforce
next
  case (3 pre b a i)
  then show ?case using jnodes_children(2,4) [of b i] jnodes_children(2,4) [of a i] by fastforce
qed simp

declare walk_paths.simps [simp del]

definition changedPaths :: "json \<Rightarrow> json \<Rightarrow> string list" where
  "changedPaths before after = walk_paths '''' before after"

definition drift_resource :: "PlanChange \<Rightarrow> ResourceChange" where
  "drift_resource rc =
     (let op = op_of rc in
      \<lparr>rc_Address = plc_Address rc, rc_Type = plc_Type rc, rc_Op = op,
       rc_Paths = (if op = ''update'' \<or> op = ''replace'' then changedPaths (chd_Before (plc_Change rc)) (chd_After (plc_Change rc))
                   else []),
       rc_Category = terraformCategory op\<rparr>)"

definition driftResources :: "PlanChange list \<Rightarrow> ResourceChange list" where
  "driftResources changes = map drift_resource (filter (\<lambda>rc. opPrefix (op_of rc) \<noteq> '''') changes)"

subsection \<open>Sensitive and unknown markers\<close>

definition sensitivePlaceholder :: string where "sensitivePlaceholder = ''[sensitive]''"
definition known_after_apply :: string where "known_after_apply = ''(known after apply)''"

fun subMarker :: "json \<Rightarrow> string \<Rightarrow> json" where
  "subMarker (JBool t) key = (if t then JBool True else JNull)"
| "subMarker (JObj t) key = jget t key"
| "subMarker _ key = JNull"

fun subMarkerIdx :: "json \<Rightarrow> nat \<Rightarrow> json" where
  "subMarkerIdx (JBool t) i = (if t then JBool True else JNull)"
| "subMarkerIdx (JList t) i = jat t i"
| "subMarkerIdx _ i = JNull"

function isNoMarker :: "json \<Rightarrow> bool" where
  "isNoMarker (JBool t) = (\<not> t)"
| "isNoMarker (JObj t) = list_all (\<lambda>e. isNoMarker (snd e)) t"
| "isNoMarker (JList t) = list_all isNoMarker t"
| "isNoMarker JNull = True"
| "isNoMarker (JNum s) = True"
| "isNoMarker (JStr s) = True"
  by pat_completeness auto
termination
proof (relation "measure jnodes", goal_cases)
  case (2 t e)
  then show ?case using jnodes_entry [of "fst e" "snd e" t] by simp
next
  case (3 t v)
  then show ?case using jnodes_elem [of v t] by simp
qed simp

definition isFullyUnknown :: "json \<Rightarrow> bool" where "isFullyUnknown marker \<longleftrightarrow> marker = JBool True"

function maskValue :: "json \<Rightarrow> json \<Rightarrow> json" where
  "maskValue v marker =
     (if isNoMarker marker then v
      else if marker = JBool True then JStr sensitivePlaceholder
      else case v of
             JObj tv \<Rightarrow> JObj (map (\<lambda>e. (fst e, maskValue (snd e) (subMarker marker (fst e)))) tv)
           | JList tv \<Rightarrow> JList (map (\<lambda>i. maskValue (tv ! i) (subMarkerIdx marker i)) [0..<length tv])
           | _ \<Rightarrow> JStr sensitivePlaceholder)"
  by pat_completeness auto
termination
proof (relation "measure (\<lambda>(v, _). jnodes v)", goal_cases)
  case (2 v marker tv i)
  then show ?case using jnodes_elem [of "tv ! i" tv] by simp
next
  case (3 v marker tv e)
  then show ?case using jnodes_entry [of "fst e" "snd e" tv] by simp
qed simp

declare maskValue.simps [simp del]

function annotateUnknown :: "json \<Rightarrow> json \<Rightarrow> json" where
  "annotateUnknown v marker =
     (if isNoMarker marker then v
      else if isFullyUnknown marker then JStr known_after_apply
      else case v of
             JObj tv \<Rightarrow>
               JObj (map (\<lambda>e. (fst e, annotateUnknown (snd e) (subMarker marker (fst e)))) tv @
                 map (\<lambda>e. (fst e, JStr known_after_apply))
                   (filter (\<lambda>e. fst e \<notin> fst ` set tv \<and> \<not> isNoMarker (snd e)) (as_obj marker)))
           | JList tv \<Rightarrow> JList (map (\<lambda>i. annotateUnknown (tv ! i) (subMarkerIdx marker i)) [0..<length tv])
           | _ \<Rightarrow> v)"
  by pat_completeness auto
termination
proof (relation "measure (\<lambda>(v, _). jnodes v)", goal_cases)
  case (2 v marker tv i)
  then show ?case using jnodes_elem [of "tv ! i" tv] by simp
next
  case (3 v marker tv e)
  then show ?case using jnodes_entry [of "fst e" "snd e" tv] by simp
qed simp

declare annotateUnknown.simps [simp del]

subsection \<open>Scrubbing the stored plan\<close>

lemma mask_none [simp]: "isNoMarker m \<Longrightarrow> maskValue v m = v"
  by (simp add: maskValue.simps [of v m])

lemma mask_all [simp]: "maskValue v (JBool True) = JStr sensitivePlaceholder"
  by (simp add: maskValue.simps [of v])

lemma mask_obj:
  "\<not> isNoMarker m \<Longrightarrow> m \<noteq> JBool True \<Longrightarrow>
     maskValue (JObj t) m = JObj (map (\<lambda>e. (fst e, maskValue (snd e) (subMarker m (fst e)))) t)"
  by (simp add: maskValue.simps [of "JObj t" m])

lemma mask_list:
  "\<not> isNoMarker m \<Longrightarrow> m \<noteq> JBool True \<Longrightarrow>
     maskValue (JList l) m = JList (map (\<lambda>i. maskValue (l ! i) (subMarkerIdx m i)) [0..<length l])"
  by (simp add: maskValue.simps [of "JList l" m])

lemma mask_leaf: "\<not> isNoMarker m \<Longrightarrow> \<not> is_obj v \<Longrightarrow> \<not> is_list v \<Longrightarrow> maskValue v m = JStr sensitivePlaceholder"
  by (subst maskValue.simps) (cases v; simp)

lemma jnodes_maskValue: "jnodes (maskValue v m) \<le> jnodes v"
proof (induction v m rule: maskValue.induct)
  case (1 v m)
  show ?case
  proof (cases "isNoMarker m \<or> m = JBool True")
    case True
    then show ?thesis by auto
  next
    case False
    then have m: "\<not> isNoMarker m" "m \<noteq> JBool True" by auto
    show ?thesis
    proof (cases v)
      case (JList l)
      have "jnodes (maskValue (l ! i) (subMarkerIdx m i)) \<le> jnodes (l ! i)" if "i < length l" for i
        by (rule 1(1) [OF _ _ JList]) (use False that in auto)
      then have "(\<Sum>i\<leftarrow>[0..<length l]. jnodes (maskValue (l ! i) (subMarkerIdx m i))) \<le> (\<Sum>i\<leftarrow>[0..<length l]. jnodes (l ! i))"
        by (intro sum_list_mono) auto
      moreover have "map (\<lambda>i. jnodes (l ! i)) [0..<length l] = map jnodes l" by (rule nth_equalityI) simp_all
      ultimately show ?thesis using JList m by (simp add: mask_list comp_def)
    next
      case (JObj t)
      have "jnodes (maskValue (snd e) (subMarker m (fst e))) \<le> jnodes (snd e)" if "e \<in> set t" for e
        by (rule 1(2) [OF _ _ JObj]) (use False that in auto)
      then have "(\<Sum>e\<leftarrow>t. jnodes (maskValue (snd e) (subMarker m (fst e)))) \<le> (\<Sum>e\<leftarrow>t. jnodes (snd e))"
        by (intro sum_list_mono) auto
      then show ?thesis using JObj m by (simp add: mask_obj comp_def)
    qed (use m in \<open>simp_all add: mask_leaf\<close>)
  qed
qed

text \<open>One value and marker pair: masked when the object has both keys.\<close>

definition mask_pair :: "string \<times> string \<Rightarrow> jobj \<Rightarrow> jobj" where
  "mask_pair p t =
     (case map_of t (snd p) of
        None \<Rightarrow> t
      | Some marker \<Rightarrow> (case map_of t (fst p) of None \<Rightarrow> t | Some v \<Rightarrow> map_put (fst p) (maskValue v marker) t))"

definition mask_pairs :: "jobj \<Rightarrow> jobj" where
  "mask_pairs t =
     fold mask_pair [(''before'', ''before_sensitive''), (''after'', ''after_sensitive''), (''values'', ''sensitive_values'')] t"

lemma jnodes_map_put:
  "map_of t k = Some v \<Longrightarrow> jnodes w \<le> jnodes v \<Longrightarrow> jnodes (JObj (map_put k w t)) \<le> jnodes (JObj t)"
  by (induction k w t rule: map_put.induct) (auto split: if_splits)

lemma jnodes_mask_pairs: "jnodes (JObj (mask_pairs t)) \<le> jnodes (JObj t)"
proof -
  have "jnodes (JObj (mask_pair p t)) \<le> jnodes (JObj t)" for p t
    using jnodes_map_put [OF _ jnodes_maskValue] by (simp add: mask_pair_def del: jnodes.simps split: option.splits)
  then show ?thesis by (simp add: mask_pairs_def del: jnodes.simps) (meson order_trans)
qed

function scrubNode :: "json \<Rightarrow> json" where
  "scrubNode v =
     (case v of
        JObj t \<Rightarrow> JObj (map (\<lambda>e. (fst e, scrubNode (snd e))) (mask_pairs t))
      | JList t \<Rightarrow> JList (map scrubNode t)
      | _ \<Rightarrow> v)"
  by pat_completeness auto
termination
proof (relation "measure jnodes", goal_cases)
  case (2 v t x)
  then show ?case using jnodes_elem [of x t] by simp
next
  case (3 v t e)
  then show ?case using jnodes_entry [of "fst e" "snd e" "mask_pairs t"] jnodes_mask_pairs [of t] by simp
qed simp

declare scrubNode.simps [simp del]

definition scrubPlanJSON :: "(string \<Rightarrow> string + json) \<Rightarrow> (json \<Rightarrow> string + string) \<Rightarrow> string \<Rightarrow> string + string" where
  "scrubPlanJSON dec enc raw =
     (case dec raw of Inl e \<Rightarrow> Inl (''scrub terraform plan json: '' @ e) | Inr doc \<Rightarrow> enc (scrubNode doc))"

subsection \<open>Rendering values\<close>

definition maxValueLen :: nat where "maxValueLen = 80"
definition maxListElems :: nat where "maxListElems = 3"
definition maxNestedKeys :: nat where "maxNestedKeys = 4"
definition maxDepth :: nat where "maxDepth = 3"
definition maxLineValue :: nat where "maxLineValue = 200"

definition truncateQuoted :: "(string \<Rightarrow> string) \<Rightarrow> string \<Rightarrow> string" where
  "truncateQuoted qt s = qt (if maxValueLen < length s then take maxValueLen s @ ellipsis else s)"

function renderValue :: "(string \<Rightarrow> string) \<Rightarrow> json \<Rightarrow> nat \<Rightarrow> string" where
  "renderValue qt v depth =
     (case v of
        JNull \<Rightarrow> ''null''
      | JStr s \<Rightarrow> if s = sensitivePlaceholder \<or> s = known_after_apply then s else truncateQuoted qt s
      | JBool b \<Rightarrow> if b then ''true'' else ''false''
      | JNum n \<Rightarrow> n
      | JObj t \<Rightarrow>
          if maxDepth \<le> depth then ''{...}''
          else ''{'' @ Join
            (map (\<lambda>k. k @ '': '' @ renderValue qt (jget t k) (depth + 1)) (take maxNestedKeys (plan_sortedKeys t)) @
             (if maxNestedKeys < length (plan_sortedKeys t) then [''...''] else [])) '', '' @ ''}''
      | JList t \<Rightarrow>
          if maxDepth \<le> depth then ''[...]''
          else ''['' @ Join
            (map (\<lambda>e. renderValue qt e (depth + 1)) (take maxListElems t) @
             (if maxListElems < length t then [''...'' @ itoa (int (length t - maxListElems)) @ '' more''] else [])) '', '' @ '']'')"
  by pat_completeness auto
termination
proof (relation "measure (\<lambda>(_, v, _). jnodes v)", goal_cases)
  case (2 qt v depth t e)
  then show ?case using jnodes_elem [of e t] by (auto dest: in_set_takeD)
next
  case (3 qt v depth t k)
  then show ?case using jnodes_jget [of t k] by simp
qed simp

declare renderValue.simps [simp del]

definition renderVal :: "(string \<Rightarrow> string) \<Rightarrow> json \<Rightarrow> string" where
  "renderVal qt v =
     (let s = renderValue qt v 0 in if maxLineValue < length s then take maxLineValue s @ ellipsis else s)"

subsection \<open>The short summary\<close>

definition replace_forced :: "ChangeDetail \<Rightarrow> string \<Rightarrow> bool" where
  "replace_forced c k \<longleftrightarrow> (\<exists>p \<in> set (chd_ReplacePaths c). p \<noteq> [] \<and> hd p = JStr k)"

definition render_before :: "(string \<Rightarrow> string) \<Rightarrow> ChangeDetail \<Rightarrow> string \<Rightarrow> string" where
  "render_before qt c k = renderVal qt (maskValue (jget (as_obj (chd_Before c)) k) (subMarker (chd_BeforeSensitive c) k))"

definition render_after :: "(string \<Rightarrow> string) \<Rightarrow> ChangeDetail \<Rightarrow> string \<Rightarrow> string" where
  "render_after qt c k =
     (if isFullyUnknown (subMarker (chd_AfterUnknown c) k) then known_after_apply
      else renderVal qt (annotateUnknown (maskValue (jget (as_obj (chd_After c)) k) (subMarker (chd_AfterSensitive c) k))
             (subMarker (chd_AfterUnknown c) k)))"

definition unknown_after :: "ChangeDetail \<Rightarrow> string \<Rightarrow> bool" where
  "unknown_after c k \<longleftrightarrow> \<not> isNoMarker (subMarker (chd_AfterUnknown c) k)"

text \<open>The attributes an update shows.\<close>

definition shows_diff :: "ChangeDetail \<Rightarrow> string \<Rightarrow> bool" where
  "shows_diff c k \<longleftrightarrow>
     unknown_after c k \<or> jget (as_obj (chd_Before c)) k \<noteq> jget (as_obj (chd_After c)) k \<or>
     subMarker (chd_BeforeSensitive c) k \<noteq> subMarker (chd_AfterSensitive c) k"

definition diffKeys :: "ChangeDetail \<Rightarrow> string list" where
  "diffKeys c =
     insertion_sort (<) (filter (shows_diff c)
       (dedup_seen [] (map fst (as_obj (chd_Before c)) @ map fst (as_obj (chd_After c)) @ map fst (as_obj (chd_AfterUnknown c)))))"

definition prop_line :: "string \<Rightarrow> string \<Rightarrow> string" where "prop_line pre text = pre @ ''     '' @ text"

definition and_more :: "nat \<Rightarrow> string" where
  "and_more n = ''...and '' @ itoa (int n) @ '' more attribute(s)''"

text \<open>The lines of the first \<open>limit\<close> keys and the line that counts the rest.\<close>

definition capped_lines :: "string \<Rightarrow> nat \<Rightarrow> (string \<Rightarrow> string) \<Rightarrow> string list \<Rightarrow> string list" where
  "capped_lines pre limit line keys =
     map line (take limit keys) @
     (if limit < length keys then [prop_line pre (and_more (length keys - limit))] else [])"

definition deleteLines :: "(string \<Rightarrow> string) \<Rightarrow> ChangeDetail \<Rightarrow> nat \<Rightarrow> string list" where
  "deleteLines qt c limit =
     capped_lines ''-'' limit (\<lambda>k. prop_line ''-'' (k @ '': '' @ render_before qt c k)) (plan_sortedKeys (as_obj (chd_Before c)))"

fun create_loop :: "(string \<Rightarrow> string) \<Rightarrow> ChangeDetail \<Rightarrow> nat \<Rightarrow> nat \<Rightarrow> string list \<Rightarrow> string list" where
  "create_loop qt c limit shown [] = []"
| "create_loop qt c limit shown (k # keys) =
     (if jget (as_obj (chd_After c)) k = JNull \<and> \<not> isFullyUnknown (subMarker (chd_AfterUnknown c) k)
      then create_loop qt c limit shown keys
      else if limit \<le> shown then [prop_line ''+'' ''...and more attribute(s)'']
      else prop_line ''+'' (k @ '': '' @ render_after qt c k) # create_loop qt c limit (Suc shown) keys)"

definition update_line :: "(string \<Rightarrow> string) \<Rightarrow> ChangeDetail \<Rightarrow> bool \<Rightarrow> string \<Rightarrow> string" where
  "update_line qt c replace k =
     (let extra = (if replace \<and> replace_forced c k then ''  (forces replacement)'' else '''');
          inBefore = k \<in> fst ` set (as_obj (chd_Before c));
          inAfter = k \<in> fst ` set (as_obj (chd_After c)) in
      if \<not> inBefore \<and> (inAfter \<or> unknown_after c k) then prop_line ''+'' (k @ '': '' @ render_after qt c k @ extra)
      else if inBefore \<and> \<not> inAfter \<and> \<not> unknown_after c k then prop_line ''-'' (k @ '': '' @ render_before qt c k @ extra)
      else prop_line ''~'' (k @ '': '' @ render_before qt c k @ '' => '' @ render_after qt c k @ extra))"

definition propertyLines :: "(string \<Rightarrow> string) \<Rightarrow> ChangeDetail \<Rightarrow> string \<Rightarrow> nat \<Rightarrow> string list" where
  "propertyLines qt c op limit =
     (if op = ''delete'' then deleteLines qt c limit
      else if op = ''create'' then create_loop qt c limit 0 (plan_sortedKeys (as_obj (chd_After c)))
      else capped_lines ''~'' limit (update_line qt c (op = ''replace'')) (diffKeys c))"

definition propLimit :: nat where "propLimit = 10"

definition resource_block :: "(string \<Rightarrow> string) \<Rightarrow> PlanChange \<Rightarrow> string" where
  "resource_block qt rc =
     opPrefix (op_of rc) @ '' '' @ plc_Address rc @ nl @
     concat (map (\<lambda>l. l @ nl) (propertyLines qt (plc_Change rc) (op_of rc) propLimit))"

definition shortSummary :: "(string \<Rightarrow> string) \<Rightarrow> PlanChange list \<Rightarrow> nat \<Rightarrow> string" where
  "shortSummary qt changes limit =
     (let cs = filter (\<lambda>rc. opPrefix (op_of rc) \<noteq> '''') changes in
      trim_right_nl (concat (map (resource_block qt) (take limit cs)) @
        (if limit < length cs then ''...and '' @ itoa (int (length cs - limit)) @ '' more resource(s)'' @ nl else '''')))"

section \<open>The counts and the drift filter\<close>

lemma opPrefix_empty: "opPrefix op = '''' \<longleftrightarrow> op \<notin> {''create'', ''update'', ''delete'', ''replace''}"
  by (simp add: opPrefix_def plusminus_def)

lemma countsFrom_fold: "countsFrom cs = fold count_op (map op_of cs) zero_counts"
proof -
  have "fold (\<lambda>rc c. let op = op_of rc in
     if op = ''create'' then c\<lparr>ct_Add := ct_Add c + 1\<rparr>
     else if op = ''update'' then c\<lparr>ct_Change := ct_Change c + 1\<rparr>
     else if op = ''delete'' then c\<lparr>ct_Delete := ct_Delete c + 1\<rparr>
     else if op = ''replace'' then c\<lparr>ct_Replace := ct_Replace c + 1\<rparr>
     else c) cs n = fold count_op (map op_of cs) n" for n
    by (induction cs arbitrary: n) (simp_all add: count_op_def Let_def)
  then show ?thesis by (simp add: countsFrom_def)
qed

lemma fold_count_filter: "fold count_op (filter (\<lambda>op. opPrefix op \<noteq> '''') ops) n = fold count_op ops n"
  by (induction ops arbitrary: n) (auto simp: opPrefix_empty count_op_def)

lemma drift_resource_fields [simp]:
  "rc_Op (drift_resource rc) = op_of rc" "rc_Address (drift_resource rc) = plc_Address rc"
  by (simp_all add: drift_resource_def Let_def)

text \<open>
  The adapter and the drift filter count alike: recounting the resource changes handed to the drift runner gives
  the counts and the addresses the adapter read from the same plan.
\<close>

theorem adapter_and_filter_count_alike:
  "applyCounts (driftResources cs) = (countsFrom cs, changedAddresses cs)"
proof -
  have "map rc_Op (driftResources cs) = filter (\<lambda>op. opPrefix op \<noteq> '''') (map op_of cs)"
    by (simp add: driftResources_def filter_map comp_def)
  moreover have "filter (\<lambda>a. a \<noteq> '''') (map rc_Address (driftResources cs)) = changedAddresses cs"
    by (simp add: driftResources_def changedAddresses_def filter_map comp_def conj_commute)
  ultimately show ?thesis by (simp only: applyCounts_def countsFrom_fold fold_count_filter)
qed

section \<open>Sensitive values do not show\<close>

text \<open>
  Two values that differ only where the marker says sensitive: below a true marker anything, elsewhere the same
  shape with the same keys. Below a marker that names deeper parts a scalar may differ too.
\<close>

inductive low_eq :: "json \<Rightarrow> json \<Rightarrow> json \<Rightarrow> bool" where
  low_same: "low_eq m v v"
| low_whole: "low_eq (JBool True) v w"
| low_obj: "\<not> isNoMarker m \<Longrightarrow> map fst t = map fst u \<Longrightarrow>
    (\<And>i. i < length t \<Longrightarrow> low_eq (subMarker m (fst (t ! i))) (snd (t ! i)) (snd (u ! i))) \<Longrightarrow> low_eq m (JObj t) (JObj u)"
| low_list: "\<not> isNoMarker m \<Longrightarrow> length l = length r \<Longrightarrow>
    (\<And>i. i < length l \<Longrightarrow> low_eq (subMarkerIdx m i) (l ! i) (r ! i)) \<Longrightarrow> low_eq m (JList l) (JList r)"
| low_leaf: "\<not> isNoMarker m \<Longrightarrow> \<not> is_obj v \<Longrightarrow> \<not> is_list v \<Longrightarrow> \<not> is_obj w \<Longrightarrow> \<not> is_list w \<Longrightarrow> low_eq m v w"

lemma mask_hides: "low_eq m v w \<Longrightarrow> maskValue v m = maskValue w m"
proof (induction rule: low_eq.induct)
  case (low_obj m t u)
  have len: "length t = length u" using low_obj(2) map_eq_imp_length_eq by blast
  have "fst (t ! i) = fst (u ! i)" if "i < length t" for i
    using low_obj(2) that len by (metis nth_map)
  with low_obj(4) len have "map (\<lambda>e. (fst e, maskValue (snd e) (subMarker m (fst e)))) t
      = map (\<lambda>e. (fst e, maskValue (snd e) (subMarker m (fst e)))) u"
    by (intro nth_equalityI) auto
  with low_obj(1) show ?case by (cases "m = JBool True") (simp_all add: mask_obj)
next
  case (low_list m l r)
  then have "map (\<lambda>i. maskValue (l ! i) (subMarkerIdx m i)) [0..<length l]
      = map (\<lambda>i. maskValue (r ! i) (subMarkerIdx m i)) [0..<length r]"
    by (intro nth_equalityI) auto
  with low_list(1) show ?case by (cases "m = JBool True") (simp_all add: mask_list)
qed (simp_all add: mask_leaf)

subsection \<open>In the short summary\<close>

definition low_attrs :: "json \<Rightarrow> json \<Rightarrow> json \<Rightarrow> bool" where
  "low_attrs m v w \<longleftrightarrow> map fst (as_obj v) = map fst (as_obj w) \<and>
     (\<forall>k. low_eq (subMarker m k) (jget (as_obj v) k) (jget (as_obj w) k) \<and>
          (jget (as_obj v) k = JNull \<longleftrightarrow> jget (as_obj w) k = JNull))"

text \<open>Changes that differ only in sensitive parts, with the same attributes changing.\<close>

definition low_change :: "PlanChange \<Rightarrow> PlanChange \<Rightarrow> bool" where
  "low_change rc rd \<longleftrightarrow> plc_Address rc = plc_Address rd \<and>
     (let c = plc_Change rc; d = plc_Change rd in
      chd_Actions c = chd_Actions d \<and> chd_AfterUnknown c = chd_AfterUnknown d \<and> chd_ReplacePaths c = chd_ReplacePaths d \<and>
      chd_BeforeSensitive c = chd_BeforeSensitive d \<and> chd_AfterSensitive c = chd_AfterSensitive d \<and>
      low_attrs (chd_BeforeSensitive c) (chd_Before c) (chd_Before d) \<and>
      low_attrs (chd_AfterSensitive c) (chd_After c) (chd_After d) \<and>
      (\<forall>k. jget (as_obj (chd_Before c)) k = jget (as_obj (chd_After c)) k \<longleftrightarrow>
           jget (as_obj (chd_Before d)) k = jget (as_obj (chd_After d)) k))"

lemma low_change_reads:
  assumes "low_change rc rd"
  defines "c \<equiv> plc_Change rc" and "d \<equiv> plc_Change rd"
  shows "plc_Address rc = plc_Address rd" "op_of rc = op_of rd"
    "render_before qt c = render_before qt d" "render_after qt c = render_after qt d"
    "unknown_after c = unknown_after d" "replace_forced c = replace_forced d" "diffKeys c = diffKeys d"
    "map fst (as_obj (chd_Before c)) = map fst (as_obj (chd_Before d))"
    "map fst (as_obj (chd_After c)) = map fst (as_obj (chd_After d))"
    "(jget (as_obj (chd_After c)) k = JNull) = (jget (as_obj (chd_After d)) k = JNull)"
    "chd_AfterUnknown c = chd_AfterUnknown d"
proof -
  note l = assms(1) [unfolded low_change_def low_attrs_def Let_def]
  show keys: "map fst (as_obj (chd_Before c)) = map fst (as_obj (chd_Before d))"
    "map fst (as_obj (chd_After c)) = map fst (as_obj (chd_After d))"
    and null: "(jget (as_obj (chd_After c)) k = JNull) = (jget (as_obj (chd_After d)) k = JNull)"
    and unk: "chd_AfterUnknown c = chd_AfterUnknown d" and "plc_Address rc = plc_Address rd" "op_of rc = op_of rd"
    using l by (simp_all add: c_def d_def op_of_def)
  have masked: "maskValue (jget (as_obj (chd_Before c)) k) (subMarker (chd_BeforeSensitive d) k)
      = maskValue (jget (as_obj (chd_Before d)) k) (subMarker (chd_BeforeSensitive d) k)"
    "maskValue (jget (as_obj (chd_After c)) k) (subMarker (chd_AfterSensitive d) k)
      = maskValue (jget (as_obj (chd_After d)) k) (subMarker (chd_AfterSensitive d) k)" for k
    using l by (auto simp: c_def d_def intro!: mask_hides)
  show "render_before qt c = render_before qt d" "render_after qt c = render_after qt d"
    using l masked by (auto simp: fun_eq_iff render_before_def render_after_def c_def d_def)
  show ua: "unknown_after c = unknown_after d" "replace_forced c = replace_forced d"
    using l by (auto simp: fun_eq_iff unknown_after_def replace_forced_def c_def d_def)
  have "shows_diff c = shows_diff d" using l ua(1) by (auto simp: fun_eq_iff shows_diff_def c_def d_def)
  with keys unk show "diffKeys c = diffKeys d" by (simp add: diffKeys_def)
qed

lemma create_loop_low: "low_change rc rd \<Longrightarrow>
    create_loop qt (plc_Change rc) limit n ks = create_loop qt (plc_Change rd) limit n ks"
  by (induction ks arbitrary: n) (simp_all add: low_change_reads)

lemma keys_member: "map fst t = map fst u \<Longrightarrow> k \<in> fst ` set t \<longleftrightarrow> k \<in> fst ` set u"
  by (metis list.set_map)

lemma update_line_low:
  assumes "low_change rc rd"
  shows "update_line qt (plc_Change rc) = update_line qt (plc_Change rd)"
  using keys_member [OF low_change_reads(8) [OF assms]] keys_member [OF low_change_reads(9) [OF assms]]
  by (simp add: fun_eq_iff update_line_def Let_def low_change_reads(3-6) [OF assms])

lemma block_low:
  assumes "low_change rc rd"
  shows "resource_block qt rc = resource_block qt rd"
  by (simp add: resource_block_def propertyLines_def deleteLines_def plan_sortedKeys_def low_change_reads [OF assms]
      create_loop_low [OF assms] update_line_low [OF assms])


subsection \<open>In the stored plan\<close>

text \<open>The marker an object holds for one of its keys.\<close>

definition marker_key :: "string \<Rightarrow> string option" where
  "marker_key k =
     (if k = ''before'' then Some ''before_sensitive'' else if k = ''after'' then Some ''after_sensitive''
      else if k = ''values'' then Some ''sensitive_values'' else None)"

definition marker_for :: "jobj \<Rightarrow> string \<Rightarrow> json option" where
  "marker_for t k = (case marker_key k of None \<Rightarrow> None | Some mk \<Rightarrow> map_of t mk)"

definition on_entries :: "(string \<Rightarrow> json \<Rightarrow> json) \<Rightarrow> jobj \<Rightarrow> jobj" where
  "on_entries f t = map (\<lambda>e. (fst e, f (fst e) (snd e))) t"

lemma map_of_on_entries: "map_of (on_entries f t) k = map_option (f k) (map_of t k)"
  by (induction t) (auto simp: on_entries_def)

lemma keys_on_entries [simp]: "map fst (on_entries f t) = map fst t"
  by (simp add: on_entries_def)

lemma on_entries_twice: "on_entries g (on_entries f t) = on_entries (\<lambda>k v. g k (f k v)) t"
  by (simp add: on_entries_def)

lemma on_entries_cong: "(\<And>k v. (k, v) \<in> set t \<Longrightarrow> f k v = g k v) \<Longrightarrow> on_entries f t = on_entries g t"
  by (auto simp: on_entries_def)

lemma map_put_entries:
  "distinct (map fst t) \<Longrightarrow> map_of t k = Some v \<Longrightarrow> map_put k w t = on_entries (\<lambda>k' v'. if k' = k then w else v') t"
proof (induction k w t rule: map_put.induct)
  case (2 k w k' v' t)
  have "map (\<lambda>e. (fst e, if fst e = k then w else snd e)) t = t" if "k \<notin> fst ` set t"
    using that by (intro map_idI) force
  with 2 show ?case by (auto simp: on_entries_def)
qed simp

text \<open>What one pair does to the entries.\<close>

definition pair_step :: "string \<Rightarrow> string \<Rightarrow> jobj \<Rightarrow> string \<Rightarrow> json \<Rightarrow> json" where
  "pair_step key mk t k v = (if k = key then (case map_of t mk of None \<Rightarrow> v | Some m \<Rightarrow> maskValue v m) else v)"

lemma mask_pair_entries:
  assumes "distinct (map fst t)"
  shows "mask_pair (key, mk) t = on_entries (pair_step key mk t) t"
proof (cases "map_of t mk")
  case None
  then have "pair_step key mk t = (\<lambda>k v. v)" by (simp add: fun_eq_iff pair_step_def)
  with None show ?thesis by (simp add: mask_pair_def on_entries_def)
next
  case m: (Some m)
  show ?thesis
  proof (cases "map_of t key")
    case None
    have "on_entries (pair_step key mk t) t = on_entries (\<lambda>k v. v) t"
      by (rule on_entries_cong) (use None in \<open>auto simp: pair_step_def map_of_eq_None_iff rev_image_eqI\<close>)
    with m None show ?thesis by (simp add: mask_pair_def on_entries_def)
  next
    case (Some v)
    have "w = v" if "(key, w) \<in> set t" for w
      using that map_of_SomeD [OF Some] eq_key_imp_eq_value [OF assms] by blast
    then have "map_put key (maskValue v m) t = on_entries (pair_step key mk t) t"
      unfolding map_put_entries [OF assms Some]
      by (intro on_entries_cong) (auto simp: pair_step_def m)
    with Some m show ?thesis by (simp add: mask_pair_def)
  qed
qed

lemma map_of_pair_step: "mk' \<noteq> key \<Longrightarrow> map_of (on_entries (pair_step key mk t0) t) mk' = map_of t mk'"
  by (cases "map_of t mk'") (simp_all add: map_of_on_entries pair_step_def)

lemma pair_step_cong: "map_of t0 mk = map_of t1 mk \<Longrightarrow> pair_step key mk t0 = pair_step key mk t1"
  by (simp add: fun_eq_iff pair_step_def)

lemma mask_pairs_entries:
  assumes "distinct (map fst t)"
  shows "mask_pairs t = on_entries (\<lambda>k v. case marker_for t k of None \<Rightarrow> v | Some m \<Rightarrow> maskValue v m) t"
proof -
  define t1 where "t1 = mask_pair (''before'', ''before_sensitive'') t"
  define t2 where "t2 = mask_pair (''after'', ''after_sensitive'') t1"
  have t1: "t1 = on_entries (pair_step ''before'' ''before_sensitive'' t) t"
    unfolding t1_def by (rule mask_pair_entries [OF assms])
  then have d1: "distinct (map fst t1)" using assms by simp
  have s2: "map_of t1 ''after_sensitive'' = map_of t ''after_sensitive''" unfolding t1 by (rule map_of_pair_step) simp
  have t2: "t2 = on_entries (pair_step ''after'' ''after_sensitive'' t) t1"
    unfolding t2_def mask_pair_entries [OF d1] pair_step_cong [OF s2] ..
  then have d2: "distinct (map fst t2)" using d1 by simp
  have "map_of t2 ''sensitive_values'' = map_of t1 ''sensitive_values''" unfolding t2 by (rule map_of_pair_step) simp
  also have "\<dots> = map_of t ''sensitive_values''" unfolding t1 by (rule map_of_pair_step) simp
  finally have s3: "map_of t2 ''sensitive_values'' = map_of t ''sensitive_values''" .
  have "mask_pair (''values'', ''sensitive_values'') t2 = on_entries (pair_step ''values'' ''sensitive_values'' t) t2"
    unfolding mask_pair_entries [OF d2] pair_step_cong [OF s3] ..
  moreover have "mask_pairs t = mask_pair (''values'', ''sensitive_values'') t2" by (simp add: mask_pairs_def t1_def t2_def)
  ultimately show ?thesis
    unfolding t2 t1 on_entries_twice
    by (simp only:) (rule on_entries_cong, simp add: pair_step_def marker_for_def marker_key_def)
qed

text \<open>
  Two documents that differ only where a marker beside a value says sensitive: under \<open>before\<close>, \<open>after\<close> and \<open>values\<close>
  of an object that holds a marker, the values agree up to the marker; elsewhere they agree, down to such objects.
\<close>

inductive doc_eq :: "json \<Rightarrow> json \<Rightarrow> bool" where
  doc_same: "doc_eq v v"
| doc_list: "length l = length r \<Longrightarrow> (\<And>i. i < length l \<Longrightarrow> doc_eq (l ! i) (r ! i)) \<Longrightarrow> doc_eq (JList l) (JList r)"
| doc_obj: "distinct (map fst t) \<Longrightarrow> map fst t = map fst u \<Longrightarrow> (\<And>k. marker_for t k = marker_for u k) \<Longrightarrow>
    (\<And>i. i < length t \<Longrightarrow> marker_for t (fst (t ! i)) = None \<Longrightarrow> doc_eq (snd (t ! i)) (snd (u ! i))) \<Longrightarrow>
    (\<And>i m. i < length t \<Longrightarrow> marker_for t (fst (t ! i)) = Some m \<Longrightarrow> low_eq m (snd (t ! i)) (snd (u ! i))) \<Longrightarrow>
    doc_eq (JObj t) (JObj u)"


section \<open>What the masking misses\<close>

text \<open>
  A list under a marker that is an object, or the other way round, is not masked: the elements find no marker of
  their own. The comment of \<open>maskValue\<close> promises that a structure mismatch masks the whole value.
\<close>

lemma mismatch_not_masked:
  "maskValue (JList [JStr ''hunter2'']) (JObj [(''password'', JBool True)]) = JList [JStr ''hunter2'']"
  by code_simp

text \<open>
  An output of the plan is marked by a plain \<open>sensitive\<close> flag beside its \<open>value\<close>, which no rule knows, so its value is
  stored.
\<close>

lemma sensitive_output_stored:
  "scrubNode (JObj [(''planned_values'', JObj [(''outputs'', JObj [(''db_password'',
      JObj [(''sensitive'', JBool True), (''value'', JStr ''hunter2'')])])])])
   = JObj [(''planned_values'', JObj [(''outputs'', JObj [(''db_password'',
      JObj [(''sensitive'', JBool True), (''value'', JStr ''hunter2'')])])])]"
  by code_simp

section \<open>A concrete plan\<close>

definition demo_change :: "string \<Rightarrow> PlanChange" where
  "demo_change secret =
     \<lparr>plc_Address = ''db.main'', plc_Type = ''db'',
      plc_Change = \<lparr>chd_Actions = [''update''], chd_Before = JObj [(''password'', JStr ''old''), (''size'', JNum ''1'')],
        chd_After = JObj [(''password'', JStr secret), (''size'', JNum ''2'')], chd_AfterUnknown = JObj [],
        chd_BeforeSensitive = JObj [(''password'', JBool True)], chd_AfterSensitive = JObj [(''password'', JBool True)],
        chd_ReplacePaths = []\<rparr>\<rparr>"

lemma demo_low: "secret \<noteq> ''old'' \<Longrightarrow> other \<noteq> ''old'' \<Longrightarrow> low_change (demo_change secret) (demo_change other)"
  by (auto simp: low_change_def demo_change_def low_attrs_def jget_def intro: low_eq.intros split: option.splits)


text \<open>What the comment shows of it.\<close>

lemma demo_summary:
  "shortSummary (\<lambda>s. s) [demo_change ''hunter2''] 10 =
     ''~ db.main'' @ nl @ ''~     password: [sensitive] => [sensitive]'' @ nl @ ''~     size: 1 => 2''"
  by code_simp

definition demo_doc :: "string \<Rightarrow> json" where
  "demo_doc secret =
     JObj [(''resource_drift'', JList [JObj [(''after'', JObj [(''password'', JStr secret)]),
       (''after_sensitive'', JObj [(''password'', JBool True)])]])]"


end
