(* ===== verification/PreviewRun.thy ===== *)
theory PreviewRun
  imports Overflow ApplyStack Credentials DriftRun
begin

text \<open>
  The preview of a pull request: \<open>Preview\<close> of \<open>internal/run/preview.go\<close> from the trigger to the exit status, with the
  notification guard of \<open>notify_helper.go\<close>. The world record holds the answers of everything outside the repository:
  the code host, the engine, the credential source, the stores, the clock. The answers given while a stack is processed
  are functions of the stack. A run is the list of its actions in order and its result. The worker pool that previews
  project directories concurrently is a step relation; its sequential reading is what the run uses.
\<close>

section \<open>Before approval: what a changed configuration may not reach (notify_helper.go)\<close>

definition defaultChannelSourceFiles :: "string list" where
  "defaultChannelSourceFiles = [''.reeve/notifications.yaml'', ''.reeve/drift.yaml'']"

definition defaultObservabilitySourceFiles :: "string list" where
  "defaultObservabilitySourceFiles = [''.reeve/observability.yaml'']"

text \<open>The changed files are an error or a list. \<open>filepath.ToSlash\<close> is the identity on the platforms a run is built for.\<close>

fun first_modified :: "string list \<Rightarrow> string list \<Rightarrow> string option" where
  "first_modified [] sources = None"
| "first_modified (f # fs) sources =
     (case find (\<lambda>src. f = src) sources of None \<Rightarrow> first_modified fs sources | Some src \<Rightarrow> Some src)"

definition suppressPreApprovalConfig ::
  "bool \<Rightarrow> bool \<Rightarrow> string + string list \<Rightarrow> string list \<Rightarrow> string list \<Rightarrow> string \<Rightarrow> bool \<times> string" where
  "suppressPreApprovalConfig is_local hasVCS changed sourceFiles defaults label =
     (if is_local then (False, '''')
      else if \<not> hasVCS then (True, ''changed-file list unavailable (no VCS client)'')
      else case changed of
             Inl e \<Rightarrow> (True, ''changed-file list unavailable ('' @ e @ '')'')
           | Inr files \<Rightarrow>
               (case first_modified files (if sourceFiles = [] then defaults else sourceFiles) of
                  Some src \<Rightarrow> (True, label @ '' '' @ src @ '' modified in this PR'')
                | None \<Rightarrow> (False, '''')))"

definition SuppressPreApprovalChannels :: "bool \<Rightarrow> bool \<Rightarrow> string + string list \<Rightarrow> string list \<Rightarrow> bool \<times> string" where
  "SuppressPreApprovalChannels is_local hasVCS changed sourceFiles =
     suppressPreApprovalConfig is_local hasVCS changed sourceFiles defaultChannelSourceFiles ''notification config''"

definition SuppressPreApprovalObservability :: "bool \<Rightarrow> bool \<Rightarrow> string + string list \<Rightarrow> string list \<Rightarrow> bool \<times> string" where
  "SuppressPreApprovalObservability is_local hasVCS changed sourceFiles =
     suppressPreApprovalConfig is_local hasVCS changed sourceFiles defaultObservabilitySourceFiles ''observability config''"

text \<open>The channels of the ready and approved events; \<open>build\<close> is \<open>BuildNotifyChannels\<close>.\<close>

definition BuildPRNotifyChannels ::
  "'c list \<Rightarrow> string list \<Rightarrow> string + string list \<Rightarrow> string \<Rightarrow> 'c list \<times> string" where
  "BuildPRNotifyChannels build channelSourceFiles listed repoPath =
     (let changed = (case listed of Inl e \<Rightarrow> Inl e | Inr fs \<Rightarrow> Inr (fst (run_scopeChangedFiles fs repoPath))) in
      case SuppressPreApprovalChannels False True changed channelSourceFiles of
        (suppress, why) \<Rightarrow> if suppress then ([], why) else (build, ''''))"

text \<open>The terminal event of an apply: errors win over blocked, blocked over applied.\<close>

definition ApplyOutcomeEvent :: "StackSummary list \<Rightarrow> bool \<Rightarrow> string" where
  "ApplyOutcomeEvent stacks blocked =
     (if \<exists>s\<in>set stacks. ss_Status s = StatusError then ''failed'' else if blocked then ''blocked'' else ''applied'')"

section \<open>Texts of the notices (config_extract.go)\<close>

definition mappingNoticeFor :: "AffectedResult \<Rightarrow> string" where
  "mappingNoticeFor res =
     (if af_Reason res = ReasonDocsOnly
      then ''Documentation/asset-only changes detected '' @ em_dash @ '' no Pulumi stacks affected.''
      else if af_Reason res = ReasonBroadened
      then (let shown = (if 5 < length (af_Unmapped res)
                         then take 5 (af_Unmapped res) @ [ellipsis @ ''and '' @ itoa (int (length (af_Unmapped res)) - 5) @ '' more'']
                         else af_Unmapped res)
            in ''Previewing all stacks: changed files map to no specific stack (e.g. shared/provider code): ''
               @ Join shown '', '' @ ''. Set `change_mapping.scope: pulumi_only` to disable.'')
      else '''')"

definition joinNotices :: "string \<Rightarrow> string \<Rightarrow> string" where
  "joinNotices a b = (if a = '''' then b else if b = '''' then a else a @ [CHR 0x0A] @ ''>'' @ [CHR 0x0A] @ ''> '' @ b)"

definition stackView :: "Shared option \<Rightarrow> string" where
  "stackView s =
     (case s of None \<Rightarrow> StackViewAll
      | Some sh \<Rightarrow> if co_StackView (sh_Comments sh) = '''' then StackViewAll else co_StackView (sh_Comments sh))"

definition commentStyleFor :: "Shared option \<Rightarrow> string" where
  "commentStyleFor cfg =
     (case cfg of None \<Rightarrow> ''replace''
      | Some sh \<Rightarrow> if co_Style (sh_Comments sh) = '''' then ''replace'' else co_Style (sh_Comments sh))"

definition sort_mode :: "Shared option \<Rightarrow> string" where
  "sort_mode cfg =
     (case cfg of None \<Rightarrow> ''status_grouped''
      | Some sh \<Rightarrow> if co_Sort (sh_Comments sh) = '''' then ''status_grouped'' else co_Sort (sh_Comments sh))"

section \<open>Data of a run\<close>

record PreviewOpts =
  po_Cwd :: string
  po_Env :: cred_env
  po_TimeoutSec :: int
  po_SavePlanPath :: string
  po_Refresh :: bool

record PreviewRunInput =
  vi_PRNumber :: int
  vi_CommitSHA :: string
  vi_ExpectedHeadSHA :: string
  vi_RunNumber :: int
  vi_CIRunURL :: string
  vi_RepoRoot :: string
  vi_RepoPath :: string
  vi_SavedPlans :: bool
  vi_Config :: "Engine option"
  vi_Shared :: "Shared option"
  vi_Overflow :: OverflowConfig
  vi_AuthConfig :: "AuthYAML option"
  vi_AuthRegistry :: bool
  vi_Notifications :: bool
  vi_OTELEnabled :: bool
  vi_Blob :: bool
  vi_OpenBlob :: bool
  vi_VCS :: bool
  vi_Comments :: bool
  vi_ChannelSourceFiles :: "string list"
  vi_ObservabilitySourceFiles :: "string list"
  vi_Local :: bool
  vi_LocalAuthProviders :: "string list"
  vi_Force :: bool
  vi_RunAttempt :: int
  vi_Refresh :: bool
  vi_MaxParallelStacks :: int

record PreviewWorld =
  vw_pr :: "string + VcsPR option"
  vw_changed :: "string + string list"
  vw_stacks :: "string + Stack list"
  vw_open_blob :: "string option"
  vw_exec_env :: "string + cred_env"
  vw_state_source :: source
  vw_login :: "cred_env \<Rightarrow> string option"
  vw_source :: "Stack \<Rightarrow> source"
  vw_cleaner :: cleaner
  vw_temp :: "Stack \<Rightarrow> string option"
  vw_engine :: "Stack \<Rightarrow> PreviewOpts \<Rightarrow> PreviewResult \<times> string option"
  vw_put_plan :: "Stack \<Rightarrow> string \<Rightarrow> RunState.PlanErr + string"
  vw_applied :: "AppliedState option"
  vw_put_manifest :: "string \<Rightarrow> manifest \<Rightarrow> string option"
  vw_vcs :: Vcs
  vw_help :: "string option"
  vw_created :: go_time
  vw_seconds :: int
  vw_auth_text :: "AuthEnvErr \<Rightarrow> string"
  vw_reason_text :: "GateReason \<Rightarrow> string"
  vw_compile :: "string \<Rightarrow> regex option"
  vw_glob :: globber
  vw_pglob :: globber
  vw_rglob :: globber
  vw_aglob :: globber

datatype PreviewErr =
    LocalWithPR int | PreviewHead HeadErr | EnumerateFailed string | DuplicateRefs "string \<times> string list"
  | ChangedFilesFailed string | OpenBlobFailed string | ExecEnvFailed string | StateAuthFailed AuthEnvErr
  | LoginFailed string | ManifestFailed string | CommentFailed string
  | StacksFailed "string list" nat

datatype PvAct =
    PvTelemetry | PvEnumerate | PvOpenBlob | PvChannels | PvNotify string
  | PvExecEnv | PvStateCredentials "CredEvent list" | PvLogin cred_env
  | PvCredentials Stack "CredEvent list" | PvEngine Stack PreviewOpts | PvStorePlan Stack string
  | PvManifest string manifest | PvBoard BoardAct | PvHelp | PvCleanup

record PreviewOutput =
  vo_Stacks :: "StackSummary list"
  vo_CommentBody :: string
  vo_RunID :: string
  vo_Failed :: bool
  vo_FailedStacks :: "string list"
  vo_CommentPosted :: bool

section \<open>One stack\<close>

definition run_redactor :: "(string \<Rightarrow> regex option) \<Rightarrow> Redactor" where
  "run_redactor compile =
     fold (AddRule compile)
       [''AKIA[0-9A-Z]{16}'', ''ASIA[0-9A-Z]{16}'', ''aws_secret_access_key'' @ [CHR 0x5C] @ ''s*='' @ [CHR 0x5C] @ ''s*[A-Za-z0-9/+=]+'',
        ''ghp_[A-Za-z0-9]{36,}'', ''gho_[A-Za-z0-9]{36,}'', ''ghs_[A-Za-z0-9]{36,}'', ''xox[baprs]-[A-Za-z0-9-]+'']
       New_redactor"

definition failed_summary :: "Stack \<Rightarrow> string \<Rightarrow> StackSummary" where
  "failed_summary s e = (new_summary (st_Project s) (st_Name s) (st_Env s))\<lparr>ss_Status := StatusError, ss_Error := e\<rparr>"

definition save_plan_path :: "PreviewWorld \<Rightarrow> PreviewRunInput \<Rightarrow> bool \<Rightarrow> Stack \<Rightarrow> string" where
  "save_plan_path W i has_blob s =
     (if has_blob \<and> PlanLockingEnabled (vi_Config i) \<and> vi_SavedPlans i
      then (case vw_temp W s of Some p \<Rightarrow> p | None \<Rightarrow> '''') else '''')"

definition preview_opts :: "PreviewWorld \<Rightarrow> PreviewRunInput \<Rightarrow> bool \<Rightarrow> cred_env \<Rightarrow> Stack \<Rightarrow> PreviewOpts" where
  "preview_opts W i has_blob env s =
     \<lparr>po_Cwd = absJoin (vi_RepoRoot i) (st_Path s), po_Env = env, po_TimeoutSec = PreviewTimeoutSec (vi_Config i),
      po_SavePlanPath = save_plan_path W i has_blob s, po_Refresh = vi_Refresh i\<rparr>"

text \<open>What the engine's answer makes of the summary, and whether a plan is stored.\<close>

definition summarize ::
  "PreviewWorld \<Rightarrow> Redactor \<Rightarrow> Stack \<Rightarrow> PreviewResult \<Rightarrow> PvAct list \<times> StackSummary" where
  "summarize W red s res =
     (let ss = (new_summary (st_Project s) (st_Name s) (st_Env s))
                 \<lparr>ss_Counts := pv_Counts res, ss_PlanSummary := Redact_text (Some red) (pv_PlanSummary res),
                  ss_PlanDiff := Redact_text (Some red) (pv_PlanDiff res), ss_FullPlan := Redact_text (Some red) (pv_FullPlan res)\<rparr>
      in if pv_Error res \<noteq> '''' then ([], ss\<lparr>ss_Status := StatusError, ss_Error := Redact_text (Some red) (pv_Error res)\<rparr>)
         else
           let (acts, ss') =
                 (if pv_PlanPath res = '''' then ([], ss)
                  else (case vw_put_plan W s (pv_PlanPath res) of
                          Inl e \<Rightarrow> ([PvStorePlan s (pv_PlanPath res)], ss)
                        | Inr key \<Rightarrow> ([PvStorePlan s (pv_PlanPath res)], ss\<lparr>ss_PlanKey := key\<rparr>)))
           in (acts, ss'\<lparr>ss_Status := (if ct_Total (ss_Counts ss') = 0 then StatusNoOp else StatusPlanned)\<rparr>))"

definition runPreviewOne ::
  "PreviewWorld \<Rightarrow> PreviewRunInput \<Rightarrow> bool \<Rightarrow> cred_env \<Rightarrow> Stack \<Rightarrow> PvAct list \<times> StackSummary" where
  "runPreviewOne W i has_blob stateEnv s =
     (case resolveAuthEnv (vw_aglob W) (vi_AuthConfig i) (if vi_AuthRegistry i then Some (vw_source W s) else None)
             (stack_Ref s) ModePreview \<lparr>la_Enabled = vi_Local i, la_Providers = vi_LocalAuthProviders i\<rparr> of
        (ev, Inl e) \<Rightarrow>
          ([PvCredentials s ev], failed_summary s (Redact_text (Some (run_redactor (vw_compile W))) (vw_auth_text W e)))
      | (ev, Inr (env0, creds)) \<Rightarrow>
          let env = Credentials.mergeEnv stateEnv env0;
              red = fold AddSecret (map snd env) (run_redactor (vw_compile W));
              opts = preview_opts W i has_blob env s;
              (acts, ss) = (case vw_engine W s opts of
                              (res, Some e) \<Rightarrow> ([], failed_summary s (Redact_text (Some red) e))
                            | (res, None) \<Rightarrow> summarize W red s res)
          in (PvCredentials s ev # PvEngine s opts # acts @ [PvCredentials s (credentialCleanup (vw_cleaner W) creds)], ss))"

text \<open>A worker also fills in the required approvers.\<close>

definition preview_item ::
  "PreviewWorld \<Rightarrow> PreviewRunInput \<Rightarrow> bool \<Rightarrow> cred_env \<Rightarrow> Stack \<Rightarrow> PvAct list \<times> StackSummary" where
  "preview_item W i has_blob stateEnv s =
     (case runPreviewOne W i has_blob stateEnv s of
        (acts, ss) \<Rightarrow>
          (acts, ss\<lparr>ss_RequiredApprovers := ru_Approvers (Resolve_rules (vw_rglob W) (toApprovalsConfig (vi_Shared i)) (stack_Ref s))\<rparr>))"

section \<open>All stacks\<close>

text \<open>
  The targets are grouped by project directory, in the order the directories first occur; the items of a group are
  indices into the targets. Workers take whole groups, so what a group does is sequential.
\<close>

definition project_dir :: "PreviewRunInput \<Rightarrow> Stack \<Rightarrow> string" where
  "project_dir i s = path_Clean (absJoin (vi_RepoRoot i) (st_Path s))"

definition preview_groups :: "(Stack \<Rightarrow> string) \<Rightarrow> Stack list \<Rightarrow> nat list list" where
  "preview_groups dir target =
     map (\<lambda>p. filter (\<lambda>k. dir (target ! k) = p) [0..<length target]) (dedup_seen [] (map dir target))"

definition previewParallelism :: "PreviewRunInput \<Rightarrow> int" where
  "previewParallelism i =
     (let k = (if vi_MaxParallelStacks i = 0
                      then (case vi_Config i of None \<Rightarrow> 0 | Some e \<Rightarrow> xe_MaxParallelStacks (en_Execution e))
                      else vi_MaxParallelStacks i)
      in if k < 1 then 1 else k)"

fun run_items ::
  "(Stack \<Rightarrow> PvAct list \<times> StackSummary) \<Rightarrow> Stack list \<Rightarrow> nat list \<Rightarrow> StackSummary option list
     \<Rightarrow> PvAct list \<times> StackSummary option list" where
  "run_items one target [] acc = ([], acc)"
| "run_items one target (k # ks) acc =
     (case one (target ! k) of
        (acts, ss) \<Rightarrow> (case run_items one target ks (acc[k := Some ss]) of (acts', acc') \<Rightarrow> (acts @ acts', acc')))"

definition runPreviewTargets ::
  "(Stack \<Rightarrow> string) \<Rightarrow> (Stack \<Rightarrow> PvAct list \<times> StackSummary) \<Rightarrow> Stack list \<Rightarrow> PvAct list \<times> StackSummary list" where
  "runPreviewTargets dir one target =
     (case run_items one target (concat (preview_groups dir target)) (replicate (length target) None) of
        (acts, acc) \<Rightarrow> (acts, map the acc))"

definition previewFailedRefs :: "StackSummary list \<Rightarrow> string list" where
  "previewFailedRefs ss = map summary_Ref (filter (\<lambda>s. ss_Status s = StatusError) ss)"

section \<open>The run\<close>

text \<open>A stage is the list of its actions and an error or a value; a deferred action follows either.\<close>

definition stage_then :: "PvAct list \<times> (PreviewErr + 'a) \<Rightarrow> ('a \<Rightarrow> PvAct list \<times> (PreviewErr + 'b)) \<Rightarrow> PvAct list \<times> (PreviewErr + 'b)" where
  "stage_then m f =
     (case m of
        (acts, Inl e) \<Rightarrow> (acts, Inl e)
      | (acts, Inr x) \<Rightarrow> (case f x of (acts', r) \<Rightarrow> (acts @ acts', r)))"

definition stage_defer :: "PvAct list \<Rightarrow> PvAct list \<times> 'r \<Rightarrow> PvAct list \<times> 'r" where
  "stage_defer late m = (case m of (acts, r) \<Rightarrow> (acts @ late, r))"

definition pv_try :: "PvAct \<Rightarrow> PreviewErr option \<Rightarrow> PvAct list \<times> (PreviewErr + unit)" where
  "pv_try a e = ([a], case e of None \<Rightarrow> Inr () | Some x \<Rightarrow> Inl x)"

text \<open>The changed files and whether all of them are outside the root; a local run does not ask.\<close>

definition preview_changed :: "PreviewWorld \<Rightarrow> PreviewRunInput \<Rightarrow> (string + string list) \<times> bool" where
  "preview_changed W i =
     (if vi_Local i \<or> \<not> vi_VCS i then (Inr [], False)
      else case vw_changed W of
             Inl e \<Rightarrow> (Inl e, False)
           | Inr files \<Rightarrow> (case run_scopeChangedFiles files (vi_RepoPath i) of (scoped, outside) \<Rightarrow> (Inr scoped, outside)))"

definition suppress_otel :: "PreviewWorld \<Rightarrow> PreviewRunInput \<Rightarrow> bool \<times> string" where
  "suppress_otel W i =
     (if vi_OTELEnabled i
      then SuppressPreApprovalObservability (vi_Local i) (vi_VCS i) (fst (preview_changed W i)) (vi_ObservabilitySourceFiles i)
      else (False, ''''))"

definition notify_active :: "PreviewRunInput \<Rightarrow> bool" where
  "notify_active i \<longleftrightarrow> 0 < vi_PRNumber i \<and> vi_Notifications i"

definition suppress_channels :: "PreviewWorld \<Rightarrow> PreviewRunInput \<Rightarrow> bool \<times> string" where
  "suppress_channels W i =
     (if notify_active i
      then SuppressPreApprovalChannels (vi_Local i) (vi_VCS i) (fst (preview_changed W i)) (vi_ChannelSourceFiles i)
      else (False, ''''))"

text \<open>Discovery: the targets and the notice.\<close>

definition enumerate_declared :: "PreviewWorld \<Rightarrow> PreviewRunInput \<Rightarrow> PvAct list \<times> (PreviewErr + Stack list)" where
  "enumerate_declared W i =
     (case vw_stacks W of
        Inl e \<Rightarrow> ([PvEnumerate], Inl (EnumerateFailed e))
      | Inr enum \<Rightarrow>
          let (decls, flt) = declarationsFromConfig (vi_Config i);
              declared = Resolve_stacks (vw_glob W) enum decls flt
          in ([PvEnumerate], case ValidateUniqueRefs declared of Some d \<Rightarrow> Inl (DuplicateRefs d) | None \<Rightarrow> Inr declared))"

definition preview_targets :: "PreviewWorld \<Rightarrow> PreviewRunInput \<Rightarrow> PvAct list \<times> (PreviewErr + Stack list \<times> string)" where
  "preview_targets W i =
     (let cm = changeMappingFromConfig (vi_Config i) in
      if vi_Local i \<or> \<not> vi_VCS i then stage_then (enumerate_declared W i) (\<lambda>declared. ([], Inr (declared, '''')))
      else case preview_changed W i of
             (Inl e, _) \<Rightarrow> ([], Inl (ChangedFilesFailed e))
           | (Inr changed, outside) \<Rightarrow>
               if outside
               then ([], Inr ([], ''No changed files are under the configured root `'' @ vi_RepoPath i @ ''`.''))
               else
                 let preflight = AffectedDetailed (vw_pglob W) [] changed cm in
                 if af_Reason preflight = ReasonDocsOnly then ([], Inr ([], mappingNoticeFor preflight))
                 else stage_then (enumerate_declared W i) (\<lambda>declared.
                        let res = AffectedDetailed (vw_pglob W) declared changed cm
                        in ([], Inr (af_Stacks res, mappingNoticeFor res))))"

text \<open>Execution home, state credentials and login, only when there is something to preview.\<close>

definition preview_session :: "PreviewWorld \<Rightarrow> PreviewRunInput \<Rightarrow> PvAct list \<times> (PreviewErr + cred_env)" where
  "preview_session W i =
     (case vw_exec_env W of
        Inl e \<Rightarrow> ([PvExecEnv], Inl (ExecEnvFailed e))
      | Inr execEnv \<Rightarrow>
          (case resolveStateAuthEnv (vi_Config i) (if vi_AuthRegistry i then Some (vw_state_source W) else None) of
             (ev, Inl e) \<Rightarrow> ([PvExecEnv, PvStateCredentials ev], Inl (StateAuthFailed e))
           | (ev, Inr (env0, creds)) \<Rightarrow>
               let env = Credentials.mergeEnv execEnv env0 in
               stage_then ([PvExecEnv, PvStateCredentials ev], Inr ())
                 (\<lambda>_. stage_then (pv_try (PvLogin env) (map_option LoginFailed (vw_login W env))) (\<lambda>_. ([], Inr env)))))"

definition preview_notice :: "PreviewWorld \<Rightarrow> PreviewRunInput \<Rightarrow> string \<Rightarrow> string \<Rightarrow> bool \<Rightarrow> string" where
  "preview_notice W i sha mapping has_blob =
     (let n1 = (if fst (suppress_channels W i)
                then joinNotices mapping (warning_sign @ '' Notification channels suppressed for this preview: ''
                       @ snd (suppress_channels W i) @ ''; channels resume after approval/apply.'')
                else mapping);
          n2 = (if fst (suppress_otel W i)
                then joinNotices n1 (warning_sign @ '' Telemetry (OTEL) suppressed for this preview: ''
                       @ snd (suppress_otel W i) @ ''; telemetry resumes after approval/apply.'')
                else n1)
      in case (if vi_Force i \<or> \<not> has_blob then None else vw_applied W) of
           None \<Rightarrow> n2
         | Some prior \<Rightarrow>
             joinNotices n2 (''Commit '' @ shortSHA sha @ '' was already applied on run #'' @ itoa (ad_RunNumber prior) @ '' (''
               @ ad_AppliedAt prior @ ''). Re-running apply is a no-op unless you comment `/reeve apply --force`.''))"

definition manifest_key :: "int \<Rightarrow> string \<Rightarrow> string" where
  "manifest_key pr runID =
     (if pr = 0 then ''runs/local/'' @ runID @ ''/manifest.json''
      else ''runs/pr-'' @ itoa pr @ ''/'' @ runID @ ''/manifest.json'')"

definition writeManifest ::
  "PreviewWorld \<Rightarrow> bool \<Rightarrow> int \<Rightarrow> string \<Rightarrow> StackSummary list \<Rightarrow> string \<Rightarrow> PvAct list \<times> (PreviewErr + unit)" where
  "writeManifest W has_blob pr runID stacks sha =
     (if \<not> has_blob then ([], Inr ())
      else
        let m = \<lparr>mf_RunID = runID, mf_PR = pr, mf_CommitSHA = sha, mf_Op = ''preview'', mf_CreatedAt = fmt_rfc3339 (vw_created W),
                 mf_Stacks = stacks\<rparr>;
            key = manifest_key pr runID
        in pv_try (PvManifest key m) (map_option ManifestFailed (vw_put_manifest W key m)))"

text \<open>The board, in one comment or several, and the help comment.\<close>

definition preview_input :: "PreviewWorld \<Rightarrow> PreviewRunInput \<Rightarrow> string \<Rightarrow> StackSummary list \<Rightarrow> string \<Rightarrow> PreviewInput" where
  "preview_input W i sha summaries notice =
     \<lparr>rp_Op = ''preview'', rp_RunNumber = vi_RunNumber i, rp_CommitSHA = sha, rp_DurationSec = vw_seconds W,
      rp_CIRunURL = vi_CIRunURL i, rp_Stacks = summaries, rp_SortMode = sort_mode (vi_Shared i),
      rp_StackView = stackView (vi_Shared i), rp_Notice = notice, rp_Style = commentStyleFor (vi_Shared i)\<rparr>"

definition post_preview ::
  "PreviewWorld \<Rightarrow> PreviewRunInput \<Rightarrow> string \<Rightarrow> PreviewInput \<Rightarrow> StackSummary list \<Rightarrow> PvAct list \<times> (PreviewErr + bool)" where
  "post_preview W i sha pin summaries =
     (if \<not> vi_Comments i \<or> vi_PRNumber i \<le> 0 then ([], Inr False)
      else
        let style = commentStyleFor (vi_Shared i);
            marker = DashboardMarker style sha;
            (body, trim) = PreviewTrimmed (vw_reason_text W) pin;
            parts = PreviewParts (vw_reason_text W) pin (vi_Overflow i) marker;
            (acts, err) =
              (if parts \<noteq> []
               then (if style = ''append'' then postAppendBoard (vw_vcs W) ''preview'' parts summaries
                     else postBoard (vw_vcs W) ''preview'' parts marker summaries)
               else if style = ''append''
               then (map LogAct (logTrimmed ''preview'' summaries trim) @ [Post body], vc_Post (vw_vcs W) body)
               else (case postSingleBoard (vw_vcs W) body marker of
                       (a, e) \<Rightarrow> (map LogAct (logTrimmed ''preview'' summaries trim) @ a, e)))
        in (case err of
              Some e \<Rightarrow> (map PvBoard acts, Inl (CommentFailed e))
            | None \<Rightarrow> (map PvBoard acts @ [PvHelp], Inr True)))"

definition preview_result ::
  "string \<Rightarrow> string \<Rightarrow> StackSummary list \<Rightarrow> bool \<Rightarrow> PreviewOutput option \<times> PreviewErr option" where
  "preview_result body runID summaries posted =
     (let refs = previewFailedRefs summaries;
          out = \<lparr>vo_Stacks = summaries, vo_CommentBody = body, vo_RunID = runID, vo_Failed = refs \<noteq> [], vo_FailedStacks = refs,
                 vo_CommentPosted = posted\<rparr>
      in (Some out, if refs = [] then None else Some (StacksFailed refs (length summaries))))"

text \<open>From the targets to the result.\<close>

definition preview_run ::
  "PreviewWorld \<Rightarrow> PreviewRunInput \<Rightarrow> string \<Rightarrow> Stack list \<times> string \<Rightarrow> PvAct list \<times> (PreviewErr + PreviewOutput option \<times> PreviewErr option)" where
  "preview_run W i sha tn =
     (case tn of (target, mapping) \<Rightarrow>
       let some = target \<noteq> [];
           runID = runIdentity ''run'' (vi_RunNumber i) (vi_RunAttempt i) sha;
           opens = some \<and> \<not> vi_Blob i \<and> vi_OpenBlob i;
           talks = notify_active i \<and> \<not> fst (suppress_channels W i)
       in stage_then
            (if opens then pv_try PvOpenBlob (map_option OpenBlobFailed (vw_open_blob W)) else ([], Inr ()))
            (\<lambda>_. let has_blob = vi_Blob i \<or> opens in
              stage_then (if some \<and> talks then [PvChannels, PvNotify ''planning''] else [], Inr ())
                (\<lambda>_. stage_then (if some then preview_session W i else ([], Inr []))
                  (\<lambda>stateEnv.
                    case runPreviewTargets (project_dir i) (preview_item W i has_blob stateEnv) target of
                      (acts, summaries) \<Rightarrow>
                        let pin = preview_input W i sha summaries (preview_notice W i sha mapping has_blob);
                            body = fst (PreviewTrimmed (vw_reason_text W) pin)
                        in stage_then (acts, Inr ())
                             (\<lambda>_. stage_then (writeManifest W has_blob (vi_PRNumber i) runID summaries sha)
                               (\<lambda>_. stage_then (post_preview W i sha pin summaries)
                                 (\<lambda>posted. (if some \<and> talks then [PvNotify ''plan''] else [],
                                           Inr (preview_result body runID summaries posted)))))))))"

definition Preview ::
  "PreviewWorld \<Rightarrow> PreviewRunInput \<Rightarrow> PvAct list \<times> PreviewOutput option \<times> PreviewErr option" where
  "Preview W i =
     (if vi_Local i \<and> vi_PRNumber i \<noteq> 0 then ([], None, Some (LocalWithPR (vi_PRNumber i)))
      else case resolvePR (if vi_VCS i then Some (vw_pr W) else None) (vi_PRNumber i) (vi_CommitSHA i) (vi_ExpectedHeadSHA i) of
             Inl e \<Rightarrow> ([], None, Some (PreviewHead e))
           | Inr (sha, _) \<Rightarrow>
               (case stage_defer [PvCleanup]
                       (stage_then (if vi_OTELEnabled i \<and> \<not> fst (suppress_otel W i) then [PvTelemetry] else [], Inr ())
                         (\<lambda>_. stage_then (preview_targets W i) (preview_run W i sha))) of
                  (acts, Inl e) \<Rightarrow> (acts, None, Some e)
                | (acts, Inr (out, err)) \<Rightarrow> (acts, out, err)))"

section \<open>Reading a run\<close>

lemma stage_acts [simp]:
  "a \<in> set (fst (stage_then m f)) \<longleftrightarrow> a \<in> set (fst m) \<or> (\<exists>x. snd m = Inr x \<and> a \<in> set (fst (f x)))"
  by (auto simp: stage_then_def split: prod.splits sum.splits)

lemma stage_result [simp]:
  "snd (stage_then m f) = Inr y \<longleftrightarrow> (\<exists>x. snd m = Inr x \<and> snd (f x) = Inr y)"
  by (auto simp: stage_then_def split: prod.splits sum.splits)

lemma try_simps [simp]:
  "fst (pv_try a e) = [a]" "snd (pv_try a e) = Inr u \<longleftrightarrow> e = None"
  by (auto simp: pv_try_def split: option.split)

lemma defer_simps [simp]: "fst (stage_defer l m) = fst m @ l" "snd (stage_defer l m) = snd m"
  by (simp_all add: stage_defer_def split: prod.split)

lemma run_items_result:
  "set ks \<subseteq> {..<length acc} \<Longrightarrow> run_items one target ks acc =
     (concat (map (\<lambda>k. fst (one (target ! k))) ks),
      map (\<lambda>k. if k \<in> set ks then Some (snd (one (target ! k))) else acc ! k) [0..<length acc])"
proof (induction ks arbitrary: acc)
  case Nil
  then show ?case by (simp add: map_nth)
next
  case (Cons k ks)
  then show ?case by (auto simp: nth_list_update split: prod.splits intro!: nth_equalityI)
qed

lemma set_preview_groups: "set (concat (preview_groups dir target)) = {..<length target}"
  by (force simp: preview_groups_def set_dedup_seen)

lemma runPreviewTargets_eq:
  "runPreviewTargets dir one target =
     (concat (map (\<lambda>k. fst (one (target ! k))) (concat (preview_groups dir target))), map (snd \<circ> one) target)"
proof -
  let ?n = "length target"
  have "map the (map (\<lambda>k. if k \<in> set (concat (preview_groups dir target)) then Some (snd (one (target ! k)))
      else replicate ?n None ! k) [0..<?n]) = map (snd \<circ> one) target"
    unfolding set_preview_groups by (rule nth_equalityI) simp_all
  then show ?thesis
    using run_items_result [of "concat (preview_groups dir target)" "replicate ?n None" one target]
    unfolding runPreviewTargets_def set_preview_groups by simp
qed

section \<open>The worker pool\<close>

text \<open>
  A worker holds the rest of its group and the item it is previewing. A worker that is idle takes a group; the answer of
  an item is entered at its index when it ends.
\<close>

record PreviewPool =
  pp_work :: "nat list list"
  pp_workers :: "(nat option \<times> nat list) list"
  pp_summaries :: "StackSummary option list"
  pp_log :: "PvAct list"

definition pool_start :: "(Stack \<Rightarrow> string) \<Rightarrow> Stack list \<Rightarrow> nat \<Rightarrow> PreviewPool" where
  "pool_start dir target n =
     \<lparr>pp_work = preview_groups dir target,
      pp_workers = replicate (min n (length (preview_groups dir target))) (None, []),
      pp_summaries = replicate (length target) None, pp_log = []\<rparr>"

inductive pool_step :: "(Stack \<Rightarrow> PvAct list \<times> StackSummary) \<Rightarrow> Stack list \<Rightarrow> PreviewPool \<Rightarrow> PreviewPool \<Rightarrow> bool"
  for one target where
  ps_take: "w < length (pp_workers p) \<Longrightarrow> pp_workers p ! w = (None, []) \<Longrightarrow> pp_work p = g # gs \<Longrightarrow>
    pool_step one target p (p\<lparr>pp_work := gs, pp_workers := (pp_workers p)[w := (None, g)]\<rparr>)"
| ps_begin: "w < length (pp_workers p) \<Longrightarrow> pp_workers p ! w = (None, k # ks) \<Longrightarrow>
    pool_step one target p (p\<lparr>pp_workers := (pp_workers p)[w := (Some k, ks)]\<rparr>)"
| ps_finish: "w < length (pp_workers p) \<Longrightarrow> pp_workers p ! w = (Some k, ks) \<Longrightarrow>
    pool_step one target p (p\<lparr>pp_workers := (pp_workers p)[w := (None, ks)],
      pp_summaries := (pp_summaries p)[k := Some (snd (one (target ! k)))], pp_log := pp_log p @ fst (one (target ! k))\<rparr>)"

inductive pool_reachable ::
  "(Stack \<Rightarrow> PvAct list \<times> StackSummary) \<Rightarrow> Stack list \<Rightarrow> PreviewPool \<Rightarrow> PreviewPool \<Rightarrow> bool"
  for one target s where
  pr_start: "pool_reachable one target s s"
| pr_step: "pool_reachable one target s p \<Longrightarrow> pool_step one target p q \<Longrightarrow> pool_reachable one target s q"

definition content :: "nat option \<times> nat list \<Rightarrow> nat list" where
  "content w = (case w of (Some k, ks) \<Rightarrow> k # ks | (None, ks) \<Rightarrow> ks)"

definition parts_of :: "PreviewPool \<Rightarrow> nat list list" where
  "parts_of p = pp_work p @ map content (pp_workers p)"

definition pool_left :: "PreviewPool \<Rightarrow> nat" where
  "pool_left p = length (pp_work p) + sum_list (map (\<lambda>g. 2 * length g) (pp_work p))
     + sum_list (map (\<lambda>(c, ks). 2 * length ks + (if c = None then 0 else 1)) (pp_workers p))"

definition pool_items :: "PreviewPool \<Rightarrow> nat list" where
  "pool_items p = concat (parts_of p)"

definition acts_of :: "(Stack \<Rightarrow> PvAct list \<times> StackSummary) \<Rightarrow> Stack list \<Rightarrow> nat list \<Rightarrow> PvAct list" where
  "acts_of one target ks = concat (map (\<lambda>k. fst (one (target ! k))) ks)"

definition pool_inv ::
  "(Stack \<Rightarrow> string) \<Rightarrow> (Stack \<Rightarrow> PvAct list \<times> StackSummary) \<Rightarrow> Stack list \<Rightarrow> nat \<Rightarrow> PreviewPool \<Rightarrow> bool" where
  "pool_inv dir one target n p \<longleftrightarrow>
     length (pp_workers p) = n \<and> length (pp_summaries p) = length target \<and>
     distinct (pool_items p) \<and> set (pool_items p) \<subseteq> {..<length target} \<and>
     (\<forall>c\<in>set (parts_of p). c \<noteq> [] \<longrightarrow> (\<exists>g\<in>set (preview_groups dir target). \<exists>d. g = d @ c)) \<and>
     (\<forall>k<length target. pp_summaries p ! k =
        (if k \<in> set (pool_items p) then None else Some (snd (one (target ! k))))) \<and>
     mset (pp_log p) + mset (acts_of one target (pool_items p)) = mset (acts_of one target (concat (preview_groups dir target)))"

lemma content_simps [simp]: "content (None, ks) = ks" "content (Some k, ks) = k # ks"
  by (simp_all add: content_def)

lemma mset_concat_update:
  "w < length xs \<Longrightarrow> mset (concat (xs[w := x])) + mset (xs ! w) = mset (concat xs) + mset x"
proof (induction xs arbitrary: w)
  case (Cons y xs)
  show ?case
  proof (cases w)
    case (Suc v)
    then have "mset (concat (xs[v := x])) + mset (xs ! v) = mset (concat xs) + mset x" using Cons by simp
    then show ?thesis using Suc by (simp add: add.assoc)
  qed (simp add: ac_simps)
qed simp

lemma mset_acts_of: "mset xs = mset ys \<Longrightarrow> mset (acts_of one target xs) = mset (acts_of one target ys)"
proof -
  have "mset (acts_of one target ks) = (\<Sum>k\<in>#mset ks. mset (fst (one (target ! k))))" for ks
    by (induction ks) (simp_all add: acts_of_def)
  then show "mset xs = mset ys \<Longrightarrow> mset (acts_of one target xs) = mset (acts_of one target ys)" by simp
qed

lemma pool_inv_step:
  assumes inv: "pool_inv dir one target n p" and step: "pool_step one target p q"
  shows "pool_inv dir one target n q"
  using step
proof cases
  case (ps_take w g gs)
  have "mset (concat ((map content (pp_workers p))[w := g])) = mset (concat (map content (pp_workers p))) + mset g"
    using mset_concat_update [of w "map content (pp_workers p)" g] ps_take by simp
  then have m: "mset (pool_items q) = mset (pool_items p)"
    using ps_take by (simp add: pool_items_def parts_of_def map_update)
  have "c \<in> set (parts_of p)" if "c \<in> set (parts_of q)" for c
    using that ps_take set_update_subset_insert [of "map content (pp_workers p)" w g] by (auto simp: parts_of_def map_update)
  then show ?thesis
    using inv mset_eq_imp_distinct_iff [OF m] mset_eq_setD [OF m] mset_acts_of [OF m, of one target] ps_take(1)
    by (simp add: pool_inv_def)
next
  case (ps_begin w k ks)
  then have "(map content (pp_workers p))[w := k # ks] = map content (pp_workers p)"
    by (metis content_simps(1) list_update_id nth_map)
  then have "parts_of q = parts_of p" "pool_items q = pool_items p"
    using ps_begin by (simp_all add: pool_items_def parts_of_def map_update)
  then show ?thesis using inv ps_begin(1) by (simp add: pool_inv_def)
next
  case (ps_finish w k ks)
  let ?cs = "map content (pp_workers p)"
  have "mset (concat (?cs[w := ks])) + mset (k # ks) = mset (concat ?cs) + mset ks"
    using mset_concat_update [of w ?cs ks] ps_finish by simp
  then have m: "mset (pool_items p) = mset (k # pool_items q)"
    using ps_finish by (simp add: pool_items_def parts_of_def map_update)
  have dist: "distinct (k # pool_items q)" "set (pool_items p) = set (k # pool_items q)"
    using inv mset_eq_imp_distinct_iff [OF m] mset_eq_setD [OF m] unfolding pool_inv_def by blast+
  have suffix: "\<exists>g\<in>set (preview_groups dir target). \<exists>d. g = d @ c" if c: "c \<in> set (parts_of q)" "c \<noteq> []" for c
  proof (cases "c = ks")
    case True
    have "content (pp_workers p ! w) \<in> set (parts_of p)"
      unfolding parts_of_def set_append set_map using ps_finish(2) by (intro UnI2 imageI nth_mem)
    then have "k # ks \<in> set (parts_of p)" using ps_finish by simp
    then obtain g d where "g \<in> set (preview_groups dir target)" "g = d @ k # ks" using inv by (fastforce simp: pool_inv_def)
    then show ?thesis using True by (intro bexI [of _ g] exI [of _ "d @ [k]"]) simp_all
  next
    case False
    then have "c \<in> set (parts_of p)"
      using c ps_finish set_update_subset_insert [of ?cs w ks] by (auto simp: parts_of_def map_update)
    then show ?thesis using inv c by (simp add: pool_inv_def)
  qed
  have log: "mset (pp_log q) + mset (acts_of one target (pool_items q)) = mset (pp_log p) + mset (acts_of one target (pool_items p))"
    using mset_acts_of [OF m, of one target] ps_finish(1) by (simp add: acts_of_def ac_simps)
  have sums: "pp_summaries q ! j = (if j \<in> set (pool_items q) then None else Some (snd (one (target ! j))))"
    if j: "j < length target" for j
  proof -
    have "pp_summaries p ! j = (if j \<in> set (k # pool_items q) then None else Some (snd (one (target ! j))))"
      using inv j dist(2) by (simp add: pool_inv_def)
    moreover have "length (pp_summaries p) = length target" using inv by (simp add: pool_inv_def)
    moreover have "k < length target" using inv dist(2) by (auto simp: pool_inv_def)
    moreover have "k \<notin> set (pool_items q)" using dist(1) by simp
    moreover have "pp_summaries q = (pp_summaries p)[k := Some (snd (one (target ! k)))]" using ps_finish(1) by simp
    ultimately show ?thesis using j by (cases "j = k") simp_all
  qed
  have "length (pp_workers q) = n" "length (pp_summaries q) = length target" "set (pool_items q) \<subseteq> {..<length target}"
    using inv dist(2) ps_finish(1) by (auto simp: pool_inv_def)
  then show ?thesis unfolding pool_inv_def using dist(1) suffix log sums inv by (auto simp: pool_inv_def)
qed

lemma groups_distinct: "distinct (concat (preview_groups dir target))"
proof -
  have "distinct (concat (map (\<lambda>p. filter (\<lambda>k. dir (target ! k) = p) ks) ps))" if "distinct ps" "distinct ks" for ps :: "string list" and ks
    using that by (induction ps) auto
  then show ?thesis by (simp add: preview_groups_def distinct_dedup_seen)
qed

lemma pool_inv_start: "pool_inv dir one target (min n (length (preview_groups dir target))) (pool_start dir target n)"
proof -
  have parts: "pool_items (pool_start dir target n) = concat (preview_groups dir target)"
    by (simp add: pool_items_def parts_of_def pool_start_def map_replicate_const concat_replicate_trivial)
  have "set (parts_of (pool_start dir target n)) \<subseteq> insert [] (set (preview_groups dir target))"
    by (auto simp: parts_of_def pool_start_def)
  then show ?thesis unfolding pool_inv_def parts
    using groups_distinct set_preview_groups [of dir target] by (auto simp: pool_start_def)
qed

lemma pool_inv_reachable:
  "pool_reachable one target (pool_start dir target n) p \<Longrightarrow>
     pool_inv dir one target (min n (length (preview_groups dir target))) p"
  by (induction rule: pool_reachable.induct) (auto intro: pool_inv_start pool_inv_step)

lemma distinct_parts:
  "distinct (concat xs) \<Longrightarrow> v < w \<Longrightarrow> w < length xs \<Longrightarrow> set (xs ! v) \<inter> set (xs ! w) = {}"
proof (induction xs arbitrary: v w)
  case (Cons x xs)
  then obtain u where u: "w = Suc u" by (cases w) auto
  show ?case
  proof (cases v)
    case 0
    have "set (xs ! u) \<subseteq> set (concat xs)" using Cons.prems u nth_mem [of u xs] by auto
    then show ?thesis using Cons.prems 0 u by auto
  next
    case (Suc t)
    then show ?thesis using Cons.IH [of t u] Cons.prems u by simp
  qed
qed simp

lemma group_eq:
  "g \<in> set (preview_groups dir target) \<Longrightarrow> k \<in> set g \<Longrightarrow> g = filter (\<lambda>j. dir (target ! j) = dir (target ! k)) [0..<length target]"
  by (auto simp: preview_groups_def)

text \<open>Two workers never preview stacks of one directory at the same time.\<close>

lemma pool_exclusive:
  assumes inv: "pool_inv dir one target n p" and w: "v < w" "w < length (pp_workers p)"
    and run: "fst (pp_workers p ! v) = Some k" "fst (pp_workers p ! w) = Some l"
  shows "dir (target ! k) \<noteq> dir (target ! l)"
proof
  assume same: "dir (target ! k) = dir (target ! l)"
  let ?m = "length (pp_work p)"
  have at: "parts_of p ! (?m + u) = content (pp_workers p ! u)" if "u < length (pp_workers p)" for u
    using that by (simp add: parts_of_def nth_append)
  obtain ks ls where parts: "content (pp_workers p ! v) = k # ks" "content (pp_workers p ! w) = l # ls"
    using run by (cases "pp_workers p ! v"; cases "pp_workers p ! w") simp
  have mem: "k # ks \<in> set (parts_of p)" "l # ls \<in> set (parts_of p)"
    using at [of v] at [of w] w parts nth_mem [of "?m + v" "parts_of p"] nth_mem [of "?m + w" "parts_of p"]
    by (simp_all add: parts_of_def)
  obtain g d where g: "g \<in> set (preview_groups dir target)" "g = d @ k # ks" using inv mem(1) by (fastforce simp: pool_inv_def)
  obtain h e where h: "h \<in> set (preview_groups dir target)" "h = e @ l # ls" using inv mem(2) by (fastforce simp: pool_inv_def)
  have "g = h" using group_eq [of g dir target k] group_eq [of h dir target l] g h same by simp
  then have "last (k # ks) = last (l # ls)" using g(2) h(2) by (metis last_appendR list.distinct(1))
  moreover have "set (k # ks) \<inter> set (l # ls) = {}"
    using distinct_parts [of "parts_of p" "?m + v" "?m + w"] inv w at [of v] at [of w] parts
    by (simp add: pool_inv_def pool_items_def parts_of_def)
  ultimately show False by (metis disjoint_iff last_in_set list.distinct(1))
qed

text \<open>Without groups there is no work.\<close>

lemma work_left: "pool_reachable one target (pool_start dir target n) p \<Longrightarrow> length (pp_work p) \<le> length (preview_groups dir target)"
proof (induction rule: pool_reachable.induct)
  case pr_start
  show ?case by (simp add: pool_start_def)
next
  case (pr_step p q)
  from pr_step(2) pr_step.IH show ?case by cases simp_all
qed

text \<open>The pool stops, and only when every stack has been previewed.\<close>

lemma sum_list_at: "w < length xs \<Longrightarrow> sum_list (map f (xs[w := y])) + f (xs ! w) = sum_list (map f xs) + (f y :: nat)"
proof (induction xs arbitrary: w)
  case (Cons x xs)
  show ?case
  proof (cases w)
    case (Suc v)
    then have "sum_list (map f (xs[v := y])) + f (xs ! v) = sum_list (map f xs) + f y" using Cons by simp
    then show ?thesis using Suc by simp
  qed simp
qed simp

lemma pool_step_left: "pool_step one target p q \<Longrightarrow> pool_left q < pool_left p"
proof (induction rule: pool_step.cases)
  case (ps_take w p g gs)
  then show ?case
    using sum_list_at [of w "pp_workers p" "\<lambda>(c, ks). 2 * length ks + (if c = None then 0 else 1)" "(None, g)"]
    by (simp add: pool_left_def)
next
  case (ps_begin w p k ks)
  then show ?case
    using sum_list_at [of w "pp_workers p" "\<lambda>(c, ks). 2 * length ks + (if c = None then 0 else 1)" "(Some k, ks)"]
    by (simp add: pool_left_def)
next
  case (ps_finish w p k ks)
  then show ?case
    using sum_list_at [of w "pp_workers p" "\<lambda>(c, ks). 2 * length ks + (if c = None then 0 else 1)" "(None, ks)"]
    by (simp add: pool_left_def)
qed

lemma pool_stuck:
  assumes stuck: "\<And>q. \<not> pool_step one target p q" and some: "pp_work p \<noteq> [] \<Longrightarrow> pp_workers p \<noteq> []"
  shows "pool_items p = []"
proof -
  have idle: "pp_workers p ! w = (None, [])" if w: "w < length (pp_workers p)" for w
  proof (cases "pp_workers p ! w")
    case (Pair c ks)
    show ?thesis
    proof (cases c)
      case None
      then show ?thesis using Pair stuck ps_begin [OF w] by (cases ks) auto
    next
      case (Some k)
      then show ?thesis using Pair stuck ps_finish [OF w] by auto
    qed
  qed
  have "pp_work p = []"
  proof (rule ccontr)
    assume w: "pp_work p \<noteq> []"
    then obtain g gs where "pp_work p = g # gs" by (cases "pp_work p") auto
    moreover have "0 < length (pp_workers p)" using some w by simp
    ultimately show False using stuck ps_take [OF _ idle] by blast
  qed
  moreover have "content x = []" if "x \<in> set (pp_workers p)" for x
    using that idle by (auto simp: in_set_conv_nth)
  ultimately show ?thesis by (simp add: pool_items_def parts_of_def)
qed

text \<open>
  C38. However the workers interleave, no two of them preview stacks of one project directory at the same time, the
  pool comes to an end, and where it ends every target has the summary the sequential run gives it, with the same
  actions.
\<close>

theorem pool_previews_like_sequence:
  assumes reach: "pool_reachable one target (pool_start dir target n) p" and "0 < n"
  shows "(\<forall>v w k l. v \<noteq> w \<and> v < length (pp_workers p) \<and> w < length (pp_workers p) \<and> fst (pp_workers p ! v) = Some k
         \<and> fst (pp_workers p ! w) = Some l \<longrightarrow> dir (target ! k) \<noteq> dir (target ! l))
     \<and> (\<forall>q. pool_step one target p q \<longrightarrow> pool_left q < pool_left p)
     \<and> ((\<forall>q. \<not> pool_step one target p q) \<longrightarrow>
          pp_summaries p = map Some (snd (runPreviewTargets dir one target)) \<and>
          mset (pp_log p) = mset (fst (runPreviewTargets dir one target)))"
proof (intro conjI allI impI)
  note inv = pool_inv_reachable [OF reach]
  show "dir (target ! k) \<noteq> dir (target ! l)"
    if "v \<noteq> w \<and> v < length (pp_workers p) \<and> w < length (pp_workers p) \<and> fst (pp_workers p ! v) = Some k
         \<and> fst (pp_workers p ! w) = Some l" for v w k l
    using that pool_exclusive [OF inv, of v w k l] pool_exclusive [OF inv, of w v l k] by (cases "v < w") (auto simp: not_less)
  show "pool_left q < pool_left p" if "pool_step one target p q" for q using that by (rule pool_step_left)
  assume stuck: "\<forall>q. \<not> pool_step one target p q"
  have "length (pp_workers p) = min n (length (preview_groups dir target))" using inv by (simp add: pool_inv_def)
  then have "pp_work p = [] \<or> pp_workers p \<noteq> []"
    using work_left [OF reach] \<open>0 < n\<close> by (cases "preview_groups dir target") auto
  then have none: "pool_items p = []" using pool_stuck [of one target p] stuck by blast
  then show "pp_summaries p = map Some (snd (runPreviewTargets dir one target))"
    using inv by (auto simp: pool_inv_def runPreviewTargets_eq intro!: nth_equalityI)
  show "mset (pp_log p) = mset (fst (runPreviewTargets dir one target))"
    using inv none by (simp add: pool_inv_def runPreviewTargets_eq acts_of_def)
qed

section \<open>What a run may reach\<close>

text \<open>The pull request changed a configuration file, as far as can be known.\<close>

definition config_touched :: "PreviewWorld \<Rightarrow> PreviewRunInput \<Rightarrow> string list \<Rightarrow> string list \<Rightarrow> bool" where
  "config_touched W i sources defaults \<longleftrightarrow>
     \<not> vi_VCS i \<or>
     (case vw_changed W of
        Inl e \<Rightarrow> True
      | Inr files \<Rightarrow> \<exists>f\<in>set (fst (run_scopeChangedFiles files (vi_RepoPath i))). f \<in> set (if sources = [] then defaults else sources))"

lemma first_modified_None: "first_modified fs sources = None \<longleftrightarrow> (\<forall>f\<in>set fs. f \<notin> set sources)"
  by (induction fs) (auto simp: find_None_iff find_Some_iff split: option.splits)

lemma suppressed_iff:
  "\<not> vi_Local i \<Longrightarrow> fst (suppressPreApprovalConfig (vi_Local i) (vi_VCS i) (fst (preview_changed W i)) sources defaults label)
     \<longleftrightarrow> config_touched W i sources defaults"
  using first_modified_None [of "fst (run_scopeChangedFiles (projr (vw_changed W)) (vi_RepoPath i))" "if sources = [] then defaults else sources"]
  by (cases "vw_changed W")
    (auto simp: suppressPreApprovalConfig_def config_touched_def preview_changed_def split: option.split prod.split)

lemma target_acts: "a \<in> set (fst (preview_targets W i)) \<Longrightarrow> a = PvEnumerate"
  by (auto simp: preview_targets_def enumerate_declared_def Let_def split: if_splits sum.splits prod.splits)

lemma session_acts:
  "a \<in> set (fst (preview_session W i)) \<Longrightarrow> (\<exists>ev. a = PvStateCredentials ev) \<or> a = PvExecEnv \<or> (\<exists>env. a = PvLogin env)"
  by (auto simp: preview_session_def Let_def split: sum.splits prod.splits)

lemma summarize_acts: "a \<in> set (fst (summarize W red s res)) \<Longrightarrow> a = PvStorePlan s (pv_PlanPath res)"
  by (auto simp: summarize_def Let_def split: sum.splits if_splits)

lemma runPreviewOne_cases:
  obtains ev e where "runPreviewOne W i hb stateEnv s =
      ([PvCredentials s ev], failed_summary s (Redact_text (Some (run_redactor (vw_compile W))) (vw_auth_text W e)))"
  | ev creds env red res e where "vw_engine W s (preview_opts W i hb env s) = (res, Some e)"
      "runPreviewOne W i hb stateEnv s = ([PvCredentials s ev, PvEngine s (preview_opts W i hb env s),
         PvCredentials s (credentialCleanup (vw_cleaner W) creds)], failed_summary s (Redact_text (Some red) e))"
  | ev creds env red res where "vw_engine W s (preview_opts W i hb env s) = (res, None)"
      "runPreviewOne W i hb stateEnv s = (PvCredentials s ev # PvEngine s (preview_opts W i hb env s) # fst (summarize W red s res)
         @ [PvCredentials s (credentialCleanup (vw_cleaner W) creds)], snd (summarize W red s res))"
proof -
  obtain ev r where r: "resolveAuthEnv (vw_aglob W) (vi_AuthConfig i) (if vi_AuthRegistry i then Some (vw_source W s) else None)
      (stack_Ref s) ModePreview \<lparr>la_Enabled = vi_Local i, la_Providers = vi_LocalAuthProviders i\<rparr> = (ev, r)"
    by fastforce
  show ?thesis
  proof (cases r)
    case (Inl e)
    then show ?thesis using that(1) r by (simp add: runPreviewOne_def)
  next
    case (Inr ec)
    obtain env0 creds where ec: "ec = (env0, creds)" by (cases ec)
    let ?env = "Credentials.mergeEnv stateEnv env0"
    obtain res err where e: "vw_engine W s (preview_opts W i hb ?env s) = (res, err)" by fastforce
    show ?thesis
    proof (cases err)
      case None
      then show ?thesis using that(3) [OF e [unfolded None]] r Inr ec e
        by (simp add: runPreviewOne_def Let_def case_prod_beta)
    next
      case (Some x)
      then show ?thesis using that(2) [OF e [unfolded Some]] r Inr ec e by (simp add: runPreviewOne_def Let_def)
    qed
  qed
qed

lemma item_acts:
  assumes "a \<in> set (fst (preview_item W i hb env s))"
  shows "(\<exists>ev. a = PvCredentials s ev) \<or> (\<exists>o1. a = PvEngine s o1) \<or> (\<exists>key. a = PvStorePlan s key)"
proof -
  have "fst (preview_item W i hb env s) = fst (runPreviewOne W i hb env s)" by (simp add: preview_item_def case_prod_beta)
  then show ?thesis using assms
    by (cases rule: runPreviewOne_cases [of W i hb env s]) (auto dest: summarize_acts)
qed

lemma targets_acts:
  "a \<in> set (fst (runPreviewTargets dir (preview_item W i hb env) target)) \<Longrightarrow>
     \<exists>s\<in>set target. a \<in> set (fst (preview_item W i hb env s))"
proof -
  assume "a \<in> set (fst (runPreviewTargets dir (preview_item W i hb env) target))"
  then obtain k where k: "k \<in> set (concat (preview_groups dir target))" "a \<in> set (fst (preview_item W i hb env (target ! k)))"
    unfolding runPreviewTargets_eq fst_conv set_concat [of "map f xs" for f xs] set_map by blast
  have "k < length target" using k(1) unfolding set_preview_groups by simp
  then show "\<exists>s\<in>set target. a \<in> set (fst (preview_item W i hb env s))" using k(2) nth_mem by blast
qed

lemma manifest_acts: "a \<in> set (fst (writeManifest W hb pr runID ss sha)) \<Longrightarrow> \<exists>m. a = PvManifest (manifest_key pr runID) m \<and> mf_PR m = pr"
  by (auto simp: writeManifest_def Let_def split: if_splits)

lemma post_acts:
  "a \<in> set (fst (post_preview W i sha pin ss)) \<Longrightarrow> vi_PRNumber i \<noteq> 0 \<and> ((\<exists>b. a = PvBoard b) \<or> a = PvHelp)"
  by (auto simp: post_preview_def Let_def case_prod_beta split: if_splits option.splits)

text \<open>The actions of the part after discovery, by their cause.\<close>

lemma run_acts:
  assumes "a \<in> set (fst (preview_run W i sha (target, mapping)))"
  shows "(target \<noteq> [] \<and> (a = PvOpenBlob \<or> (a \<in> {PvChannels, PvNotify ''planning'', PvNotify ''plan''} \<and> notify_active i \<and> \<not> fst (suppress_channels W i))
        \<or> a \<in> set (fst (preview_session W i)) \<or> (\<exists>s\<in>set target. \<exists>hb env. a \<in> set (fst (preview_item W i hb env s)))))
      \<or> (\<exists>m. a = PvManifest (manifest_key (vi_PRNumber i) (runIdentity ''run'' (vi_RunNumber i) (vi_RunAttempt i) sha)) m \<and> mf_PR m = vi_PRNumber i)
      \<or> (vi_PRNumber i \<noteq> 0 \<and> ((\<exists>b. a = PvBoard b) \<or> a = PvHelp))"
proof -
  have none: "runPreviewTargets dir one [] = ([], [])" for dir one
    by (simp add: runPreviewTargets_def preview_groups_def)
  show ?thesis
    using assms
    by (cases "target = []")
      (auto simp: preview_run_def Let_def none case_prod_beta split: if_splits
        dest!: manifest_acts post_acts targets_acts [of a "project_dir i" W i])
qed

lemma preview_staged:
  assumes "\<not> (vi_Local i \<and> vi_PRNumber i \<noteq> 0)"
    and "resolvePR (if vi_VCS i then Some (vw_pr W) else None) (vi_PRNumber i) (vi_CommitSHA i) (vi_ExpectedHeadSHA i) = Inr (sha, meta)"
    and m: "m = stage_then (if vi_OTELEnabled i \<and> \<not> fst (suppress_otel W i) then [PvTelemetry] else [], Inr ())
      (\<lambda>_. stage_then (preview_targets W i) (preview_run W i sha))"
  shows "fst (Preview W i) = fst m @ [PvCleanup]" and "snd (Preview W i) = (Some out, e) \<longleftrightarrow> snd m = Inr (Some out, e)"
  using assms(1,2) unfolding Preview_def m [symmetric]
  by (cases m; cases "snd m"; auto simp: stage_defer_def m [symmetric])+

lemma preview_acts:
  assumes "a \<in> set (fst (Preview W i))"
  shows "\<not> (vi_Local i \<and> vi_PRNumber i \<noteq> 0) \<and>
    (\<exists>sha meta. resolvePR (if vi_VCS i then Some (vw_pr W) else None) (vi_PRNumber i) (vi_CommitSHA i) (vi_ExpectedHeadSHA i) = Inr (sha, meta)
      \<and> (a = PvCleanup \<or> (a = PvTelemetry \<and> vi_OTELEnabled i \<and> \<not> fst (suppress_otel W i)) \<or> a = PvEnumerate
        \<or> (\<exists>tn. snd (preview_targets W i) = Inr tn \<and> a \<in> set (fst (preview_run W i sha tn)))))"
proof -
  let ?r = "resolvePR (if vi_VCS i then Some (vw_pr W) else None) (vi_PRNumber i) (vi_CommitSHA i) (vi_ExpectedHeadSHA i)"
  have n: "\<not> (vi_Local i \<and> vi_PRNumber i \<noteq> 0)" using assms by (auto simp: Preview_def split: if_splits)
  obtain sha meta where r: "?r = Inr (sha, meta)" using assms n by (cases ?r) (auto simp: Preview_def split: if_splits)
  let ?m = "stage_then (if vi_OTELEnabled i \<and> \<not> fst (suppress_otel W i) then [PvTelemetry] else [], Inr ())
      (\<lambda>_. stage_then (preview_targets W i) (preview_run W i sha))"
  have "fst (Preview W i) = fst ?m @ [PvCleanup]" by (rule preview_staged(1) [OF n r refl])
  then have "a = PvCleanup \<or> (a = PvTelemetry \<and> vi_OTELEnabled i \<and> \<not> fst (suppress_otel W i)) \<or> a = PvEnumerate
        \<or> (\<exists>tn. snd (preview_targets W i) = Inr tn \<and> a \<in> set (fst (preview_run W i sha tn)))"
    using assms target_acts [of a W i] by (auto split: if_splits)
  then show ?thesis using n r by blast
qed

text \<open>
  C36. A pull request cannot use its own configuration before it is approved: when a preview cannot rule out that the
  pull request changes the files its notification channels come from, no channel is built and no event is sent, and
  when it cannot rule out that the telemetry configuration changed, the exporter is not started.
\<close>

theorem untrusted_config_isolated:
  assumes "\<not> vi_Local i"
  shows "(config_touched W i (vi_ChannelSourceFiles i) defaultChannelSourceFiles \<longrightarrow>
       PvChannels \<notin> set (fst (Preview W i)) \<and> (\<forall>ev. PvNotify ev \<notin> set (fst (Preview W i))))
     \<and> (config_touched W i (vi_ObservabilitySourceFiles i) defaultObservabilitySourceFiles \<longrightarrow>
       PvTelemetry \<notin> set (fst (Preview W i)))"
proof -
  have chan: "notify_active i \<Longrightarrow> fst (suppress_channels W i) \<longleftrightarrow> config_touched W i (vi_ChannelSourceFiles i) defaultChannelSourceFiles"
    using suppressed_iff [OF assms] by (simp add: suppress_channels_def SuppressPreApprovalChannels_def)
  have otel: "vi_OTELEnabled i \<Longrightarrow> fst (suppress_otel W i) \<longleftrightarrow> config_touched W i (vi_ObservabilitySourceFiles i) defaultObservabilitySourceFiles"
    using suppressed_iff [OF assms] by (simp add: suppress_otel_def SuppressPreApprovalObservability_def)
  have quiet: "notify_active i \<and> \<not> fst (suppress_channels W i)" if "a = PvChannels \<or> (\<exists>ev. a = PvNotify ev)" "a \<in> set (fst (Preview W i))" for a
    using preview_acts [OF that(2)] that(1) by (auto dest!: run_acts dest: session_acts item_acts)
  have tele: "vi_OTELEnabled i \<and> \<not> fst (suppress_otel W i)" if "PvTelemetry \<in> set (fst (Preview W i))"
    using preview_acts [OF that] by (auto dest!: run_acts dest: session_acts item_acts)
  show ?thesis using chan otel quiet tele by blast
qed

text \<open>
  C39. A preview opens the store, builds channels, takes credentials and starts the engine only when discovery has
  selected a stack, and asks for the credentials of, and runs the engine on, selected stacks only.
\<close>

theorem preview_touches_only_targets:
  assumes "a \<in> set (fst (Preview W i))"
    and "a \<in> {PvOpenBlob, PvChannels, PvExecEnv} \<union> range PvStateCredentials \<union> range PvLogin
       \<union> {PvCredentials s ev |s ev. True} \<union> {PvEngine s po |s po. True} \<union> {PvStorePlan s key |s key. True}"
  shows "\<exists>target mapping. snd (preview_targets W i) = Inr (target, mapping) \<and> target \<noteq> [] \<and>
     (\<forall>s. (\<exists>ev. a = PvCredentials s ev) \<or> (\<exists>po. a = PvEngine s po) \<or> (\<exists>key. a = PvStorePlan s key) \<longrightarrow> s \<in> set target)"
proof -
  obtain target mapping sha where t: "snd (preview_targets W i) = Inr (target, mapping)" "a \<in> set (fst (preview_run W i sha (target, mapping)))"
    using preview_acts [OF assms(1)] assms(2) by auto
  have "target \<noteq> [] \<and> (a = PvOpenBlob \<or> a = PvChannels \<or> a \<in> set (fst (preview_session W i))
      \<or> (\<exists>s\<in>set target. \<exists>hb env. a \<in> set (fst (preview_item W i hb env s))))"
    using run_acts [OF t(2)] assms(2) by auto
  then show ?thesis using t(1) by (fastforce dest: session_acts item_acts)
qed

text \<open>
  C40. A local preview leaves nothing in the context of a pull request: it posts no comment, sends no event, and the
  manifest it writes is stored under \<open>runs/local\<close> with the pull request number zero, where no apply looks.
\<close>

theorem local_preview_leaves_no_trace:
  assumes "vi_Local i" and "a \<in> set (fst (Preview W i))"
  shows "\<not> (\<exists>b. a = PvBoard b) \<and> a \<noteq> PvHelp \<and> a \<noteq> PvChannels \<and> \<not> (\<exists>ev. a = PvNotify ev)
     \<and> (\<forall>key m. a = PvManifest key m \<longrightarrow> HasPrefix key ''runs/local/'' \<and> mf_PR m = 0)"
proof -
  have pr: "vi_PRNumber i = 0" using preview_acts [OF assms(2)] assms(1) by simp
  have "\<not> notify_active i" by (simp add: notify_active_def pr)
  moreover have "HasPrefix (manifest_key 0 runID) ''runs/local/''" for runID by (simp add: manifest_key_def HasPrefix_def)
  ultimately show ?thesis
    using preview_acts [OF assms(2)] pr by (auto dest!: run_acts dest: session_acts item_acts)
qed

text \<open>What a planned stack rests on.\<close>

lemma item_planned:
  assumes "ss_Status (snd (preview_item W i hb env s)) \<noteq> StatusError"
  shows "\<exists>env' res. PvEngine s (preview_opts W i hb env' s) \<in> set (fst (preview_item W i hb env s))
    \<and> vw_engine W s (preview_opts W i hb env' s) = (res, None) \<and> pv_Error res = ''''"
proof -
  have acts: "fst (preview_item W i hb env s) = fst (runPreviewOne W i hb env s)"
    and status: "ss_Status (snd (preview_item W i hb env s)) = ss_Status (snd (runPreviewOne W i hb env s))"
    by (simp_all add: preview_item_def case_prod_beta)
  show ?thesis
  proof (cases rule: runPreviewOne_cases [of W i hb env s])
    case (3 ev creds env' red res)
    have "ss_Status (snd (summarize W red s res)) = StatusError" if "pv_Error res \<noteq> ''''"
      using that by (simp add: summarize_def)
    then show ?thesis using assms status 3 by (intro exI [of _ env'] exI [of _ res]) (auto simp: acts)
  qed (use assms status in \<open>simp_all add: failed_summary_def\<close>)
qed

lemma item_identity:
  "ss_Project (snd (preview_item W i hb env s)) = st_Project s \<and> ss_Stack (snd (preview_item W i hb env s)) = st_Name s"
proof -
  have "ss_Project (snd (summarize W red s res)) = st_Project s \<and> ss_Stack (snd (summarize W red s res)) = st_Name s" for red res
    by (simp add: summarize_def Let_def new_summary_def split: sum.split)
  then have "ss_Project (snd (runPreviewOne W i hb env s)) = st_Project s \<and> ss_Stack (snd (runPreviewOne W i hb env s)) = st_Name s"
    by (cases rule: runPreviewOne_cases [of W i hb env s]) (simp_all add: failed_summary_def new_summary_def)
  then show ?thesis by (simp add: preview_item_def case_prod_beta)
qed

text \<open>A successful run, taken apart.\<close>

lemma run_success:
  assumes "snd (preview_run W i sha (target, mapping)) = Inr (Some out, None)"
  shows "\<exists>hb env. (vi_Blob i \<longrightarrow> hb) \<and> vo_RunID out = runIdentity ''run'' (vi_RunNumber i) (vi_RunAttempt i) sha
    \<and> vo_Stacks out = map (\<lambda>s. snd (preview_item W i hb env s)) target \<and> previewFailedRefs (vo_Stacks out) = []
    \<and> (\<forall>s\<in>set target. set (fst (preview_item W i hb env s)) \<subseteq> set (fst (preview_run W i sha (target, mapping))))
    \<and> snd (writeManifest W hb (vi_PRNumber i) (vo_RunID out) (vo_Stacks out) sha) = Inr ()
    \<and> set (fst (writeManifest W hb (vi_PRNumber i) (vo_RunID out) (vo_Stacks out) sha)) \<subseteq> set (fst (preview_run W i sha (target, mapping)))"
proof -
  let ?hb = "vi_Blob i \<or> (target \<noteq> [] \<and> \<not> vi_Blob i \<and> vi_OpenBlob i)"
  let ?runID = "runIdentity ''run'' (vi_RunNumber i) (vi_RunAttempt i) sha"
  obtain env where env: "snd (if target \<noteq> [] then preview_session W i else ([], Inr [])) = Inr env"
    and out: "\<exists>body posted. preview_result body ?runID (snd (runPreviewTargets (project_dir i) (preview_item W i ?hb env) target)) posted = (Some out, None)"
    and man: "snd (writeManifest W ?hb (vi_PRNumber i) ?runID (snd (runPreviewTargets (project_dir i) (preview_item W i ?hb env) target)) sha) = Inr ()"
    and opened: "snd (if target \<noteq> [] \<and> \<not> vi_Blob i \<and> vi_OpenBlob i then pv_try PvOpenBlob (map_option OpenBlobFailed (vw_open_blob W)) else ([], Inr ())) = Inr ()"
    using assms unfolding preview_run_def Let_def case_prod_conv case_prod_beta stage_result by auto
  have ss: "vo_Stacks out = snd (runPreviewTargets (project_dir i) (preview_item W i ?hb env) target)" "vo_RunID out = ?runID" "previewFailedRefs (vo_Stacks out) = []"
    using out by (auto simp: preview_result_def Let_def split: if_splits)
  have sub: "set (fst (runPreviewTargets (project_dir i) (preview_item W i ?hb env) target)) \<union> set (fst (writeManifest W ?hb (vi_PRNumber i) ?runID (vo_Stacks out) sha))
      \<subseteq> set (fst (preview_run W i sha (target, mapping)))"
    using env man opened unfolding ss(1) preview_run_def Let_def case_prod_conv case_prod_beta
    by auto
  have items: "set (fst (preview_item W i ?hb env s)) \<subseteq> set (fst (runPreviewTargets (project_dir i) (preview_item W i ?hb env) target))" if "s \<in> set target" for s
  proof -
    obtain k where "k < length target" "target ! k = s" using \<open>s \<in> set target\<close> by (auto simp: in_set_conv_nth)
    then have "k \<in> set (concat (preview_groups (project_dir i) target))" "target ! k = s" unfolding set_preview_groups by simp_all
    then show ?thesis unfolding runPreviewTargets_eq fst_conv set_concat [of "map f xs" for f xs] set_map by blast
  qed
  show ?thesis
  proof (intro exI [of _ ?hb] exI [of _ env] conjI ballI)
    show "vo_Stacks out = map (\<lambda>s. snd (preview_item W i ?hb env s)) target"
      unfolding ss(1) runPreviewTargets_eq by (simp add: comp_def)
    show "set (fst (preview_item W i ?hb env s)) \<subseteq> set (fst (preview_run W i sha (target, mapping)))" if "s \<in> set target" for s
      using subset_trans [OF items [OF that]] sub by blast
    show "snd (writeManifest W ?hb (vi_PRNumber i) (vo_RunID out) (vo_Stacks out) sha) = Inr ()"
      unfolding ss(2) using man unfolding ss(1) .
    show "set (fst (writeManifest W ?hb (vi_PRNumber i) (vo_RunID out) (vo_Stacks out) sha)) \<subseteq> set (fst (preview_run W i sha (target, mapping)))"
      unfolding ss(2) using sub by blast
  qed (use ss in auto)
qed

lemma preview_success_run:
  assumes "snd (Preview W i) = (Some out, None)"
  obtains sha meta target mapping where "resolvePR (if vi_VCS i then Some (vw_pr W) else None) (vi_PRNumber i) (vi_CommitSHA i) (vi_ExpectedHeadSHA i) = Inr (sha, meta)"
    and "snd (preview_targets W i) = Inr (target, mapping)" and "snd (preview_run W i sha (target, mapping)) = Inr (Some out, None)"
    and "set (fst (preview_run W i sha (target, mapping))) \<subseteq> set (fst (Preview W i))"
proof -
  let ?r = "resolvePR (if vi_VCS i then Some (vw_pr W) else None) (vi_PRNumber i) (vi_CommitSHA i) (vi_ExpectedHeadSHA i)"
  have n: "\<not> (vi_Local i \<and> vi_PRNumber i \<noteq> 0)" using assms by (auto simp: Preview_def split: if_splits)
  obtain sha meta where r: "?r = Inr (sha, meta)" using assms n by (cases ?r) (auto simp: Preview_def split: if_splits)
  let ?m = "stage_then (if vi_OTELEnabled i \<and> \<not> fst (suppress_otel W i) then [PvTelemetry] else [], Inr ())
      (\<lambda>_. stage_then (preview_targets W i) (preview_run W i sha))"
  note log = preview_staged(1) [OF n r refl]
  have "snd ?m = Inr (Some out, None)" using assms preview_staged(2) [OF n r refl] by blast
  then obtain target mapping where t: "snd (preview_targets W i) = Inr (target, mapping)" "snd (preview_run W i sha (target, mapping)) = Inr (Some out, None)"
    by auto
  have "set (fst (preview_run W i sha (target, mapping))) \<subseteq> set (fst (Preview W i))" unfolding log using t(1) by auto
  then show ?thesis using that r t by blast
qed

text \<open>
  C37. A preview that reports success planned every selected stack: the engine ran on each without an error, the
  summaries are those of the selected stacks in their order, and where there is a store the manifest that a later apply
  trusts has been written, for this commit and with these summaries.
\<close>

theorem preview_success_sound:
  assumes "snd (Preview W i) = (Some out, None)"
  shows "\<exists>target mapping sha meta. snd (preview_targets W i) = Inr (target, mapping)
     \<and> resolvePR (if vi_VCS i then Some (vw_pr W) else None) (vi_PRNumber i) (vi_CommitSHA i) (vi_ExpectedHeadSHA i) = Inr (sha, meta)
     \<and> map summary_Ref (vo_Stacks out) = map stack_Ref target
     \<and> (\<forall>s\<in>set target. \<exists>po res. PvEngine s po \<in> set (fst (Preview W i)) \<and> vw_engine W s po = (res, None) \<and> pv_Error res = '''')
     \<and> (vi_Blob i \<longrightarrow> (\<exists>m. PvManifest (manifest_key (vi_PRNumber i) (vo_RunID out)) m \<in> set (fst (Preview W i))
          \<and> vw_put_manifest W (manifest_key (vi_PRNumber i) (vo_RunID out)) m = None
          \<and> mf_CommitSHA m = sha \<and> mf_PR m = vi_PRNumber i \<and> mf_Stacks m = vo_Stacks out))"
proof -
  obtain sha meta target mapping where r: "resolvePR (if vi_VCS i then Some (vw_pr W) else None) (vi_PRNumber i) (vi_CommitSHA i) (vi_ExpectedHeadSHA i) = Inr (sha, meta)"
    and t: "snd (preview_targets W i) = Inr (target, mapping)" and run: "snd (preview_run W i sha (target, mapping)) = Inr (Some out, None)"
    and sub: "set (fst (preview_run W i sha (target, mapping))) \<subseteq> set (fst (Preview W i))"
    by (rule preview_success_run [OF assms])
  obtain hb env where hb: "vi_Blob i \<Longrightarrow> hb" and id: "vo_RunID out = runIdentity ''run'' (vi_RunNumber i) (vi_RunAttempt i) sha"
    and ss: "vo_Stacks out = map (\<lambda>s. snd (preview_item W i hb env s)) target" "previewFailedRefs (vo_Stacks out) = []"
    and items: "\<And>s. s \<in> set target \<Longrightarrow> set (fst (preview_item W i hb env s)) \<subseteq> set (fst (preview_run W i sha (target, mapping)))"
    and man: "snd (writeManifest W hb (vi_PRNumber i) (vo_RunID out) (vo_Stacks out) sha) = Inr ()"
      "set (fst (writeManifest W hb (vi_PRNumber i) (vo_RunID out) (vo_Stacks out) sha)) \<subseteq> set (fst (preview_run W i sha (target, mapping)))"
    using run_success [OF run] by blast
  have "ss_Status (snd (preview_item W i hb env s)) \<noteq> StatusError" if "s \<in> set target" for s
    using ss that by (auto simp: previewFailedRefs_def filter_empty_conv)
  then have planned: "\<exists>po res. PvEngine s po \<in> set (fst (Preview W i)) \<and> vw_engine W s po = (res, None) \<and> pv_Error res = ''''"
    if "s \<in> set target" for s
    using item_planned [of W i hb env s] items [OF that] that sub by blast
  have refs: "map summary_Ref (vo_Stacks out) = map stack_Ref target"
    by (simp add: ss summary_Ref_def stack_Ref_def item_identity)
  have "\<exists>m. PvManifest (manifest_key (vi_PRNumber i) (vo_RunID out)) m \<in> set (fst (Preview W i))
      \<and> vw_put_manifest W (manifest_key (vi_PRNumber i) (vo_RunID out)) m = None
      \<and> mf_CommitSHA m = sha \<and> mf_PR m = vi_PRNumber i \<and> mf_Stacks m = vo_Stacks out" if "vi_Blob i"
    using man hb [OF that] sub by (fastforce simp: writeManifest_def Let_def)
  then show ?thesis using r t refs planned by blast
qed

section \<open>Concrete runs\<close>

definition demo_target :: Stack where
  "demo_target = \<lparr>st_Project = ''api'', st_Path = ''api'', st_Name = ''prod'', st_Env = ''prod''\<rparr>"

definition demo_preview_result :: PreviewResult where
  "demo_preview_result = no_result\<lparr>pv_Counts := \<lparr>ct_Add = 1, ct_Change = 0, ct_Delete = 0, ct_Replace = 0\<rparr>\<rparr>"

definition demo_preview_world :: "string list \<Rightarrow> PreviewWorld" where
  "demo_preview_world changed =
     \<lparr>vw_pr = Inl ''offline'', vw_changed = Inr changed, vw_stacks = Inr [demo_target], vw_open_blob = Some ''no bucket'',
      vw_exec_env = Inr [], vw_state_source = (\<lambda>_. ([], Inr ([], []))), vw_login = (\<lambda>_. None),
      vw_source = (\<lambda>_ _. ([], Inr ([], []))), vw_cleaner = (\<lambda>_. None), vw_temp = (\<lambda>_. None),
      vw_engine = (\<lambda>_ _. (demo_preview_result, None)), vw_put_plan = (\<lambda>_ _. Inr ''key''), vw_applied = None,
      vw_put_manifest = (\<lambda>_ _. None), vw_vcs = \<lparr>vc_Upsert = \<lambda>_ _. None, vc_Post = \<lambda>_. None, vc_canDelete = False\<rparr>, vw_help = None,
      vw_created = 0, vw_seconds = 1, vw_auth_text = (\<lambda>_. ''''), vw_reason_text = (\<lambda>_. ''''), vw_compile = (\<lambda>_. None),
      vw_glob = (\<lambda>_ _. True), vw_pglob = (\<lambda>_ _. False), vw_rglob = (\<lambda>_ _. False), vw_aglob = (\<lambda>_ _. False)\<rparr>"

definition demo_engine_config :: Engine where
  "demo_engine_config =
     \<lparr>en_Type = ''pulumi'', en_State = \<lparr>es_AuthProvider = '''', es_SecretsType = '''', es_Passphrase = ''''\<rparr>,
      en_Stacks = [\<lparr>sd_Project = ''api'', sd_Path = ''api'', sd_Pattern = '''', sd_Stacks = [''prod'']\<rparr>], en_Exclude = [],
      en_ChangeMapping = \<lparr>ch_IgnoreChanges = [], ch_ExtraTriggers = [], ch_Scope = ''''\<rparr>,
      en_Execution = \<lparr>xe_MaxParallelStacks = 4, xe_PreviewTimeout = '''', xe_ApplyTimeout = ''''\<rparr>, en_PolicyHooks = [], en_PlanLocking = None\<rparr>"

definition demo_preview_input :: PreviewRunInput where
  "demo_preview_input =
     \<lparr>vi_PRNumber = 7, vi_CommitSHA = ''abcdef0'', vi_ExpectedHeadSHA = '''', vi_RunNumber = 3, vi_CIRunURL = '''', vi_RepoRoot = ''/repo'',
      vi_RepoPath = '''', vi_SavedPlans = False, vi_Config = Some demo_engine_config, vi_Shared = None,
      vi_Overflow = \<lparr>oc_Mode = '''', oc_Split = '''', oc_MaxParts = 0\<rparr>, vi_AuthConfig = None, vi_AuthRegistry = False,
      vi_Notifications = True, vi_OTELEnabled = True, vi_Blob = True, vi_OpenBlob = True, vi_VCS = True, vi_Comments = False,
      vi_ChannelSourceFiles = [], vi_ObservabilitySourceFiles = [], vi_Local = False, vi_LocalAuthProviders = [], vi_Force = False,
      vi_RunAttempt = 1, vi_Refresh = False, vi_MaxParallelStacks = 0\<rparr>"

lemma demo_target_selected:
  "snd (preview_targets (demo_preview_world [''api/main.go'']) demo_preview_input) = Inr ([demo_target], '''')"
  by code_simp

theorem untrusted_config_isolated_witness:
  "PvChannels \<notin> set (fst (Preview (demo_preview_world [''.reeve/notifications.yaml'', ''api/main.go'']) demo_preview_input))"
proof -
  have "\<not> vi_Local demo_preview_input" by code_simp
  moreover have "config_touched (demo_preview_world [''.reeve/notifications.yaml'', ''api/main.go'']) demo_preview_input
      (vi_ChannelSourceFiles demo_preview_input) defaultChannelSourceFiles" by code_simp
  ultimately show ?thesis using untrusted_config_isolated by blast
qed

text \<open>Without a change to them, the channels are built.\<close>

lemma demo_channels_built:
  "PvChannels \<in> set (fst (preview_run (demo_preview_world [''api/main.go'']) demo_preview_input ''abcdef0'' ([demo_target], '''')))"
proof -
  have "notify_active demo_preview_input" "\<not> fst (suppress_channels (demo_preview_world [''api/main.go'']) demo_preview_input)"
    "vi_Blob demo_preview_input" by code_simp+
  then show ?thesis by (simp add: preview_run_def Let_def)
qed

lemma preview_in_run:
  assumes "\<not> (vi_Local i \<and> vi_PRNumber i \<noteq> 0)"
    and "resolvePR (if vi_VCS i then Some (vw_pr W) else None) (vi_PRNumber i) (vi_CommitSHA i) (vi_ExpectedHeadSHA i) = Inr (sha, meta)"
    and "snd (preview_targets W i) = Inr tn"
  shows "a \<in> set (fst (preview_run W i sha tn)) \<Longrightarrow> a \<in> set (fst (Preview W i))"
    and "snd (preview_run W i sha tn) = Inr (Some out, None) \<Longrightarrow> snd (Preview W i) = (Some out, None)"
  using preview_staged [OF assms(1,2) refl] assms(3) by auto

definition demo_unopened :: PreviewRunInput where
  "demo_unopened = demo_preview_input\<lparr>vi_Blob := False\<rparr>"

theorem preview_touches_only_targets_witness:
  "PvOpenBlob \<in> set (fst (Preview (demo_preview_world [''api/main.go'']) demo_unopened)) \<and>
   snd (preview_targets (demo_preview_world [''api/main.go'']) demo_unopened) \<noteq> Inr ([], '''')"
proof -
  let ?W = "demo_preview_world [''api/main.go'']"
  have t: "snd (preview_targets ?W demo_unopened) = Inr ([demo_target], '''')" by code_simp
  have r: "resolvePR (if vi_VCS demo_unopened then Some (vw_pr ?W) else None) (vi_PRNumber demo_unopened) (vi_CommitSHA demo_unopened)
      (vi_ExpectedHeadSHA demo_unopened) = Inr (''abcdef0'', None)" by code_simp
  have n: "\<not> (vi_Local demo_unopened \<and> vi_PRNumber demo_unopened \<noteq> 0)" "\<not> vi_Blob demo_unopened" "vi_OpenBlob demo_unopened"
    by code_simp+
  have "PvOpenBlob \<in> set (fst (preview_run ?W demo_unopened ''abcdef0'' ([demo_target], '''')))"
    using n by (simp add: preview_run_def Let_def)
  then have a: "PvOpenBlob \<in> set (fst (Preview ?W demo_unopened))" by (rule preview_in_run(1) [OF n(1) r t])
  then show ?thesis using preview_touches_only_targets [OF a] by auto
qed

text \<open>A run that succeeds: one stack is planned and the manifest is written.\<close>

lemma demo_session:
  "snd (preview_session (demo_preview_world [''api/main.go'']) demo_preview_input) = Inr []"
  by code_simp

lemma demo_item:
  "previewFailedRefs [snd (preview_item (demo_preview_world [''api/main.go'']) demo_preview_input True [] demo_target)] = []"
  by code_simp

lemma demo_run_succeeds:
  "\<exists>out. snd (Preview (demo_preview_world [''api/main.go'']) demo_preview_input) = (Some out, None)"
proof -
  let ?W = "demo_preview_world [''api/main.go'']"
  have r: "resolvePR (if vi_VCS demo_preview_input then Some (vw_pr ?W) else None) (vi_PRNumber demo_preview_input)
      (vi_CommitSHA demo_preview_input) (vi_ExpectedHeadSHA demo_preview_input) = Inr (''abcdef0'', None)" by code_simp
  have n: "\<not> (vi_Local demo_preview_input \<and> vi_PRNumber demo_preview_input \<noteq> 0)" "vi_Blob demo_preview_input" "\<not> vi_Comments demo_preview_input"
    by code_simp+
  have put: "vw_put_manifest ?W key m = None" for key m by (simp add: demo_preview_world_def)
  have "\<exists>out. snd (preview_run ?W demo_preview_input ''abcdef0'' ([demo_target], '''')) = Inr (Some out, None)"
    using demo_item n put
    by (simp add: preview_run_def Let_def case_prod_beta demo_session runPreviewTargets_eq writeManifest_def post_preview_def preview_result_def,
      intro exI [of _ False], simp)
  then show ?thesis using preview_in_run(2) [OF n(1) r demo_target_selected] by blast
qed

theorem preview_success_sound_witness:
  "\<exists>out m. snd (Preview (demo_preview_world [''api/main.go'']) demo_preview_input) = (Some out, None)
     \<and> map summary_Ref (vo_Stacks out) = [''api/prod'']
     \<and> PvManifest (manifest_key 7 (vo_RunID out)) m \<in> set (fst (Preview (demo_preview_world [''api/main.go'']) demo_preview_input))"
proof -
  obtain out where ok: "snd (Preview (demo_preview_world [''api/main.go'']) demo_preview_input) = (Some out, None)"
    using demo_run_succeeds by blast
  have "stack_Ref demo_target = ''api/prod''" "vi_Blob demo_preview_input" "vi_PRNumber demo_preview_input = 7" by code_simp+
  then show ?thesis using preview_success_sound [OF ok] ok demo_target_selected by fastforce
qed

text \<open>The same run from a laptop.\<close>

definition demo_local_input :: PreviewRunInput where
  "demo_local_input = demo_preview_input\<lparr>vi_Local := True, vi_PRNumber := 0\<rparr>"

theorem local_preview_leaves_no_trace_witness:
  "\<exists>key m. PvManifest key m \<in> set (fst (Preview (demo_preview_world []) demo_local_input)) \<and> HasPrefix key ''runs/local/''"
proof -
  let ?W = "demo_preview_world []"
  have r: "resolvePR (if vi_VCS demo_local_input then Some (vw_pr ?W) else None) (vi_PRNumber demo_local_input)
      (vi_CommitSHA demo_local_input) (vi_ExpectedHeadSHA demo_local_input) = Inr (''abcdef0'', None)" by code_simp
  have t: "snd (preview_targets ?W demo_local_input) = Inr ([demo_target], '''')" by code_simp
  have n: "\<not> (vi_Local demo_local_input \<and> vi_PRNumber demo_local_input \<noteq> 0)" "vi_Blob demo_local_input" by code_simp+
  have loc: "vi_Local demo_local_input" by code_simp
  have s: "snd (preview_session ?W demo_local_input) = Inr []" by code_simp
  have "\<exists>key m. PvManifest key m \<in> set (fst (preview_run ?W demo_local_input ''abcdef0'' ([demo_target], '''')))"
    using n by (auto simp: preview_run_def Let_def case_prod_beta s writeManifest_def)
  then obtain key m where m: "PvManifest key m \<in> set (fst (Preview ?W demo_local_input))"
    using preview_in_run(1) [OF n(1) r t] by blast
  then show ?thesis using local_preview_leaves_no_trace [OF loc m] by blast
qed

text \<open>Two workers, one stack: one of them previews it.\<close>

definition demo_one :: "Stack \<Rightarrow> PvAct list \<times> StackSummary" where
  "demo_one = preview_item (demo_preview_world []) demo_preview_input True []"

definition demo_pool :: PreviewPool where
  "demo_pool = \<lparr>pp_work = [], pp_workers = [(None, [])], pp_summaries = [Some (snd (demo_one demo_target))],
     pp_log = fst (demo_one demo_target)\<rparr>"

lemma demo_pool_reachable: "pool_reachable demo_one [demo_target] (pool_start st_Path [demo_target] 2) demo_pool"
proof -
  let ?p0 = "pool_start st_Path [demo_target] 2"
  let ?q = "\<lparr>pp_work = [[0]], pp_workers = [(None, [])], pp_summaries = [None], pp_log = []\<rparr>"
  have p0: "?p0 = ?q"
    by (simp add: pool_start_def preview_groups_def)
  let ?p1 = "\<lparr>pp_work = [], pp_workers = [(None, [0])], pp_summaries = [None], pp_log = []\<rparr>"
  let ?p2 = "\<lparr>pp_work = [], pp_workers = [(Some 0, [])], pp_summaries = [None], pp_log = []\<rparr>"
  have "pool_step demo_one [demo_target] ?p0 ?p1" unfolding p0 using ps_take [of 0 ?q "[0]" "[]"] by simp
  moreover have "pool_step demo_one [demo_target] ?p1 ?p2" using ps_begin [of 0 ?p1 0 "[]"] by simp
  moreover have "pool_step demo_one [demo_target] ?p2 demo_pool" using ps_finish [where one = demo_one and target = "[demo_target]", of 0 ?p2 0 "[]"] by (simp add: demo_pool_def)
  ultimately show ?thesis by (blast intro: pr_start pr_step)
qed

theorem pool_previews_like_sequence_witness:
  "pp_summaries demo_pool = map Some (snd (runPreviewTargets st_Path demo_one [demo_target]))"
proof -
  have "\<not> pool_step demo_one [demo_target] demo_pool q" for q
    by (auto simp: demo_pool_def elim!: pool_step.cases)
  then show ?thesis using pool_previews_like_sequence [OF demo_pool_reachable] by simp
qed

end
