(* ===== verification/Spec2Isabelle.thy ===== *)
theory Spec2Isabelle
  imports LockStore FileStore Gates Approvals BreakGlass Freeze Discovery Codeowners CommentApprovals
    DriftState DriftFilter Redact DriftRun DriftPending PreviewLookup RunConfig RunState RunRecords Policy ApplyRun Overflow
    AuthBinding Providers
    Credentials CredCache PlanJson PreviewRun
begin

text \<open>
  Verification of reeve, a Go program that runs infrastructure-as-code previews and applies from pull requests and
  watches deployed stacks for drift. It has no server: every run is a short-lived process, and all state that
  outlives one run is in an object store that several runs share.

  \<^bold>\<open>The program's parts and how they interact.\<close>
  A run loads its configuration (\<open>internal/config\<close>), discovers the stacks of the repository and maps the changed files
  to them (\<open>internal/core/discovery\<close>). A preview run stores a manifest bound to the commit. An apply run
  (\<open>internal/run/apply.go\<close>) finds the newest such manifest for its commit, takes the lock of one stack after the other
  (\<open>internal/blob/locks\<close> over \<open>internal/core/locks\<close>), evaluates ten gates (\<open>internal/core/preconditions\<close>), whose
  inputs come from approvals (\<open>internal/core/approvals\<close>), freeze windows (\<open>internal/core/freeze\<close>), policy hooks
  (\<open>internal/policy\<close>) and the preview, possibly overridden by break-glass (\<open>internal/core/breakglass\<close>), runs the engine
  on the saved plan, and records what happened: audit entries, timeline, the applied marker, a comment that has to
  fit the size limit of the code host (\<open>internal/core/render\<close>). A drift run (\<open>internal/drift\<close>) checks stacks, classifies
  the outcome against the stored state and delivers events to channels, with undelivered ones kept in the store.

  \<^bold>\<open>Which theory models what.\<close> Every definition carries the name of the Go function, type or constant it translates,
  where Isabelle allows the name; record fields carry a prefix because record field names are global.

  \<^item> \<open>Prelude\<close>, \<open>GoTime\<close>, \<open>GoStrings\<close>, \<open>GoDuration\<close>: what the sources use of Go's language and standard library:
    slices, maps as association lists, stable sorting, times and RFC 3339, \<open>strings\<close>, \<open>path.Clean\<close>, UTF-8 runes,
    \<open>strconv\<close>, \<open>time.ParseDuration\<close> with its overflow checks.
  \<^item> \<open>BlobKey\<close>, \<open>BlobStore\<close>, \<open>FileStore\<close>, \<open>PlainStore\<close> (\<open>internal/blob\<close>, \<open>internal/blob/filesystem\<close>): object keys, the
    store interface as a record of operations with the conditional-write probe, the filesystem adapter on an explicit
    disk of files, directories and generation files, and the contract of a store for clients that own their keys.
  \<^item> \<open>CoreLocks\<close> (\<open>internal/core/locks\<close>) and \<open>LockStore\<close> (\<open>internal/blob/locks/store.go\<close>): the pure lock state machine;
    and the store around it, with its retry loops and the other processes that write between its calls.
  \<^item> \<open>Gates\<close>, \<open>Approvals\<close>, \<open>CommentApprovals\<close>, \<open>Codeowners\<close>, \<open>BreakGlass\<close>, \<open>Freeze\<close>, \<open>Policy\<close>: the decisions of an
    apply. \<open>Discovery\<close>: which stacks a change touches. \<open>RunConfig\<close>: the configuration as the pipelines read it.
  \<^item> \<open>PreviewLookup\<close>, \<open>RunState\<close>, \<open>RunRecords\<close>: what runs leave in the bucket: manifests, applied markers, plan
    artifacts and their retention, audit entries, timelines.
  \<^item> \<open>ApplyStack\<close> and \<open>ApplyRun\<close> (\<open>internal/run/apply.go\<close>): one stack of an apply, and the whole of \<open>Apply\<close>. The state
    is the lock store and a log of every call to the outside, so that order is a property of the log.
  \<^item> \<open>Redact\<close> (\<open>internal/core/redact\<close>); \<open>RenderText\<close>, \<open>RenderBoards\<close>, \<open>TrimLadder\<close>, \<open>Overflow\<close>
    (\<open>internal/core/render\<close>, \<open>internal/run/overflow.go\<close>): the comment bodies byte by byte, what they give up to fit, and
    how a board continues into further comments.
  \<^item> \<open>DriftState\<close>, \<open>DriftFilter\<close>, \<open>DriftRun\<close>, \<open>DriftPending\<close> (\<open>internal/drift\<close>): classification and damping, noise
    filtering, the retrying runner, delivery of events.

  \<^bold>\<open>How the model reads.\<close> A Go string is the list of its bytes, so lengths and slices are byte lengths and byte slices
  and runes are decoded where the source ranges over them. A \<open>time.Time\<close> is its nanoseconds since the Unix epoch, a
  \<open>time.Duration\<close> an integer of nanoseconds; where the source multiplies durations the wrap-around of \<open>int64\<close> is written
  out (\<open>wrap64\<close>). A struct is a record, a pointer or interface that may be nil an option, a map an association list or
  a function. An operation that can fail returns a sum, \<open>Inl\<close> the error. Loops are structural recursion where they range
  over a slice; the others have a measure or are bounded as the source bounds them.

  \<^bold>\<open>Bounds and fuel.\<close> The retries of the lock store are the constant of the source, and running out of them is its
  error value. \<open>mostRecentFire\<close> scans at most \<open>maxFireScan\<close> firings; the freeze property states the case in which the
  scan is cut off. The CODEOWNERS scanner refuses lines of 64 KiB as \<open>bufio.Scanner\<close> does. The timeline makes three
  attempts. The capacity loop of the overflow splitter has one round for each admissible part and one more, the number
  of rounds the source's condition allows. The drift retry loop has its configured budget. None of these
  is fuel of the model: each is a bound of the program, and the properties say what holds when it is reached.

  \<^bold>\<open>Parameters.\<close> Code that is not in the repository is an argument of the definitions that use it: JSON encoding and
  decoding, SHA-256, the glob matcher doublestar, the cron library, compiled regular expressions, \<open>ParseFloat\<close> for
  durations in days and weeks, random bytes, processes and the operating system, the code host, the engine, and cloud
  identity services. What a property needs of them (a decoder inverts the encoder, digests of a fixed length, a
  schedule that moves forward) is a hypothesis of that property, with a witness on concrete functions.

  \<^bold>\<open>Interfaces.\<close> \<open>cas_store\<close> is what the lock store relies on in a blob store under concurrency, \<open>plain_store\<close> what a
  client relies on for keys it owns; both are interpreted on the filesystem adapter.
  \<open>fifo_lock\<close> states the abstract waiting list, interpreted on the lock state machine. \<open>comment_renderer\<close> and
  \<open>diff_renderer\<close> state what the trim ladder needs of a comment body, interpreted on the three bodies and on
  the three rendered comments.

  \<^bold>\<open>What the properties show.\<close>
  \<^item> Locks: well-formedness of every reachable lock, refinement of a FIFO list, exclusivity of a lease, atomicity of
    the operations of the store among other writers, keys that do not collide.
  \<^item> Applies: the engine runs only on stacks whose gates are clear under the lock of that stack, on what the newest
    preview of exactly this commit showed; the applied marker follows only a clean run; break-glass is recorded first.
  \<^item> Decisions: gates, approvals, break-glass, freezes and affected stacks each equal a declarative specification.
  \<^item> Storage and records: conditional writes, confinement of keys, write-once audit, what retention may remove.
  \<^item> Drift: events follow the drift of a stack, failed checks are never reported as no drift, damping equals a
    reference clock, every alert is delivered or kept.
  \<^item> Comments: size bounds, nothing dropped without being logged, error text that stays in its fence.

  \<^bold>\<open>Not modelled.\<close> Engines (subprocess drivers and parsers of their output), the adapters of cloud object
  stores, the GitHub client and notification channels are calls into vendor SDKs, HTTP or processes; YAML decoding is a
  third-party library; telemetry and flag parsing have no state the other parts read. Concurrency is modelled where
  the correctness of a component rests on it (the lock store, the filesystem adapter); the worker pools of drift runs and of
  deliveries are modelled one task after the other. Panics, context cancellation inside a call and the
  wording of log lines are left out; the wording of errors is kept where a caller inspects or shows it.
\<close>

end
